(* ===== verification/Ledger_Prelude.thy ===== *)
theory Ledger_Prelude
  imports Complex_Main "HOL-Library.AList" "HOL-Library.Word"
begin

text \<open>
  Shared vocabulary of the development: results with Go panics made explicit, association
  lists for Go maps that the code iterates over, the string functions of Go's standard
  library the source uses (\<open>strings.Split\<close>, decimal conversion, regular expressions) and the
  lemmas about them every component needs.
\<close>

section \<open>Collections of facts\<close>

named_theorems result_simps \<open>equations and inversions of the result type\<close>
named_theorems alist_simps \<open>lookup and key facts of association lists\<close>
named_theorems total_simps \<open>sums of amounts over lists\<close>

section \<open>Results, errors and panics\<close>

text \<open>
  A Go function that returns \<open>(T, error)\<close> and may panic returns a value of the sum
  \<open>failure + T\<close>: \<open>Inr\<close> a value, \<open>Inl (Raised e)\<close> the error \<open>e\<close>, \<open>Inl Panic\<close> a run-time panic
  (index out of range, failed type assertion, nil dereference, explicit \<open>panic\<close>).
  The error type \<open>'e\<close> is given by each component.
\<close>

datatype 'e failure = Raised 'e | Panic

type_synonym ('e, 'a) result = "'e failure + 'a"

definition raise :: "'e \<Rightarrow> ('e, 'a) result" where
  "raise e = Inl (Raised e)"

definition panic :: "('e, 'a) result" where
  "panic = Inl Panic"

text \<open>Sequencing: the \<open>if err != nil { return err }\<close> of the source.\<close>

fun bindr :: "('e, 'a) result \<Rightarrow> ('a \<Rightarrow> ('e, 'b) result) \<Rightarrow> ('e, 'b) result" where
  "bindr (Inl e) f = Inl e"
| "bindr (Inr x) f = f x"

text \<open>The checks of the source: stop with an error unless the condition holds.\<close>

definition guardr :: "bool \<Rightarrow> 'e \<Rightarrow> ('e, unit) result" where
  "guardr b e = (if b then Inr () else raise e)"

definition of_option :: "'e failure \<Rightarrow> 'a option \<Rightarrow> ('e, 'a) result" where
  "of_option e x = (case x of None \<Rightarrow> Inl e | Some y \<Rightarrow> Inr y)"

lemma bindr_eq_Inr [result_simps]: "bindr m f = Inr y \<longleftrightarrow> (\<exists>x. m = Inr x \<and> f x = Inr y)"
  by (cases m) auto

lemma bindr_eq_Inl [result_simps]:
  "bindr m f = Inl e \<longleftrightarrow> m = Inl e \<or> (\<exists>x. m = Inr x \<and> f x = Inl e)"
  by (cases m) auto

lemma bindr_assoc: "bindr (bindr m f) g = bindr m (\<lambda>x. bindr (f x) g)"
  by (cases m) auto

lemma bindr_Inr [simp]: "bindr m Inr = m"
  by (cases m) auto

lemma raise_eq [result_simps, simp]:
  "raise e \<noteq> Inr x" "Inr x \<noteq> raise e" "raise e \<noteq> Inl Panic" "Inl Panic \<noteq> raise e"
  "raise e = Inl (Raised e') \<longleftrightarrow> e = e'" "Inl (Raised e') = raise e \<longleftrightarrow> e' = e"
  "raise e = raise e' \<longleftrightarrow> e = e'"
  by (auto simp: raise_def)

lemma panic_eq [result_simps, simp]:
  "panic \<noteq> Inr x" "Inr x \<noteq> panic" "panic = Inl Panic" "panic \<noteq> Inl (Raised e)"
  by (auto simp: panic_def)

lemma bindr_raise [simp]: "bindr (raise e) f = raise e"
  by (simp add: raise_def)

lemma guardr_eq [result_simps, simp]:
  "guardr b e = Inr u \<longleftrightarrow> b" "guardr b e = Inl x \<longleftrightarrow> \<not> b \<and> x = Raised e"
  "guardr True e = Inr ()" "guardr False e = raise e"
  by (auto simp: guardr_def raise_def)

lemma of_option_eq [result_simps, simp]:
  "of_option e x = Inr y \<longleftrightarrow> x = Some y" "of_option e x = Inl e' \<longleftrightarrow> x = None \<and> e' = e"
  "of_option e (Some y) = Inr y" "of_option e None = Inl e"
  by (auto simp: of_option_def split: option.splits)

text \<open>A Go \<open>for\<close> loop whose body may return an error: a monadic fold over the list.\<close>

fun foldr_result :: "('a \<Rightarrow> 's \<Rightarrow> ('e, 's) result) \<Rightarrow> 'a list \<Rightarrow> 's \<Rightarrow> ('e, 's) result" where
  "foldr_result f [] s = Inr s"
| "foldr_result f (x # xs) s = bindr (f x s) (foldr_result f xs)"

lemma foldr_result_append:
  "foldr_result f (xs @ ys) s = bindr (foldr_result f xs s) (foldr_result f ys)"
proof (induction xs arbitrary: s)
  case Nil
  then show ?case by simp
next
  case (Cons x xs)
  then show ?case by (cases "f x s") auto
qed

lemma foldr_result_inv:
  assumes "foldr_result f xs s = Inr t" and "P s"
    and "\<And>x s s'. x \<in> set xs \<Longrightarrow> P s \<Longrightarrow> f x s = Inr s' \<Longrightarrow> P s'"
  shows "P t"
  using assms by (induction xs arbitrary: s) (auto simp: result_simps)

section \<open>Go maps as association lists\<close>

text \<open>
  A Go map the code iterates over is an association list: \<^const>\<open>map_of\<close> is the lookup and the
  list's order is the (unspecified) order of the iteration, so a theorem about every list is
  a theorem about every order. \<^const>\<open>AList.update\<close> is the assignment \<open>m[k] = v\<close>,
  \<^const>\<open>AList.delete\<close> is \<open>delete(m, k)\<close>. A map that is only looked up is a \<open>'k \<rightharpoonup> 'v\<close>.
\<close>

lemma map_of_update [alist_simps]: "map_of (AList.update k v al) = (map_of al)(k \<mapsto> v)"
  by (rule AList.update_conv')

lemma map_of_delete [alist_simps]: "map_of (AList.delete k al) = (map_of al)(k := None)"
  by (rule AList.delete_conv')

lemma keys_update [alist_simps]: "fst ` set (AList.update k v al) = insert k (fst ` set al)"
  by (simp add: AList.dom_update)

lemma keys_delete [alist_simps]: "fst ` set (AList.delete k al) = fst ` set al - {k}"
  by (induction al) auto

lemma distinct_keys_update [alist_simps]:
  "distinct (map fst al) \<Longrightarrow> distinct (map fst (AList.update k v al))"
  by (rule AList.distinct_update)

section \<open>Strings\<close>

text \<open>A Go string is a sequence of bytes; a \<open>char\<close> of HOL is a byte.\<close>

text \<open>\<open>strings.Split(s, sep)\<close> for a separator of one byte.\<close>

fun split_on :: "char \<Rightarrow> string \<Rightarrow> string list" where
  "split_on c [] = [[]]"
| "split_on c (x # xs) =
     (if x = c then [] # split_on c xs
      else (case split_on c xs of [] \<Rightarrow> [[x]] | s # ss \<Rightarrow> (x # s) # ss))"

text \<open>\<open>strings.SplitN(s, sep, 2)\<close>: at most one cut, at the first separator.\<close>

fun split_first :: "char \<Rightarrow> string \<Rightarrow> string \<times> string option" where
  "split_first c [] = ([], None)"
| "split_first c (x # xs) =
     (if x = c then ([], Some xs) else (let (s, r) = split_first c xs in (x # s, r)))"

text \<open>\<open>strings.Join(ss, sep)\<close> for a separator of one byte.\<close>

fun join_with :: "char \<Rightarrow> string list \<Rightarrow> string" where
  "join_with c [] = []"
| "join_with c [s] = s"
| "join_with c (s # t # ss) = s @ [c] @ join_with c (t # ss)"

lemma split_on_not_Nil [simp]: "split_on c s \<noteq> []"
  by (induction s) (auto split: list.splits)

lemma join_split: "join_with c (split_on c s) = s"
proof (induction s)
  case Nil
  then show ?case by simp
next
  case (Cons x xs)
  obtain t ts where ts: "split_on c xs = t # ts"
    using split_on_not_Nil neq_Nil_conv by meson
  show ?case using Cons.IH ts by (cases ts) auto
qed

lemma split_on_no_sep: "c \<notin> set s \<Longrightarrow> split_on c s = [s]"
  by (induction s) auto

lemma split_on_append: "c \<notin> set s \<Longrightarrow> split_on c (s @ c # t) = s # split_on c t"
  by (induction s) auto

lemma set_split_on: "s \<in> set (split_on c t) \<Longrightarrow> c \<notin> set s \<and> set s \<subseteq> set t"
proof (induction t arbitrary: s)
  case Nil
  then show ?case by simp
next
  case (Cons x xs)
  obtain a ss where a: "split_on c xs = a # ss"
    using split_on_not_Nil neq_Nil_conv by meson
  have "s = [] \<or> s \<in> set (a # ss) \<or> x \<noteq> c \<and> s = x # a"
    using Cons.prems a by (auto split: if_splits)
  moreover have "c \<notin> set t \<and> set t \<subseteq> set xs" if "t \<in> set (a # ss)" for t
    using Cons.IH [of t] that a by simp
  ultimately show ?case by fastforce
qed

lemma split_join:
  "ss \<noteq> [] \<Longrightarrow> \<forall>s \<in> set ss. c \<notin> set s \<Longrightarrow> split_on c (join_with c ss) = ss"
  by (induction c ss rule: join_with.induct) (auto simp: split_on_no_sep split_on_append)

lemma split_first_Some: "c \<notin> set s \<Longrightarrow> split_first c (s @ c # t) = (s, Some t)"
  by (induction s) auto

lemma split_first_None: "c \<notin> set s \<Longrightarrow> split_first c s = (s, None)"
  by (induction s) auto

subsection \<open>Character classes\<close>

definition char_in :: "char \<Rightarrow> char \<Rightarrow> char \<Rightarrow> bool" where
  "char_in lo hi c \<longleftrightarrow> (of_char lo :: nat) \<le> of_char c \<and> of_char c \<le> (of_char hi :: nat)"

definition is_digit :: "char \<Rightarrow> bool" where
  "is_digit c \<longleftrightarrow> char_in CHR ''0'' CHR ''9'' c"

definition is_upper :: "char \<Rightarrow> bool" where
  "is_upper c \<longleftrightarrow> char_in CHR ''A'' CHR ''Z'' c"

definition is_lower :: "char \<Rightarrow> bool" where
  "is_lower c \<longleftrightarrow> char_in CHR ''a'' CHR ''z'' c"

lemmas char_class_defs = char_in_def is_digit_def is_upper_def is_lower_def

subsection \<open>Decimal numbers\<close>

text \<open>\<open>big.Int.String\<close> and \<open>fmt.Sprint\<close> of an integer.\<close>

definition digit_char :: "nat \<Rightarrow> char" where
  "digit_char d = char_of (48 + d)"

fun show_nat :: "nat \<Rightarrow> string" where
  "show_nat n = (if n < 10 then [digit_char n] else show_nat (n div 10) @ [digit_char (n mod 10)])"

declare show_nat.simps [simp del]

definition show_int :: "int \<Rightarrow> string" where
  "show_int i = (if i < 0 then CHR ''-'' # show_nat (nat (- i)) else show_nat (nat i))"

text \<open>The value of a string of digits, most significant first.\<close>

definition digits_value :: "string \<Rightarrow> nat" where
  "digits_value s = foldl (\<lambda>n c. 10 * n + (of_char c - 48)) 0 s"

definition all_digits :: "string \<Rightarrow> bool" where
  "all_digits s \<longleftrightarrow> s \<noteq> [] \<and> list_all is_digit s"

text \<open>\<open>big.Int.SetString(s, 10)\<close>: an optional sign and one or more digits.\<close>

definition parse_int :: "string \<Rightarrow> int option" where
  "parse_int s =
     (case s of
        [] \<Rightarrow> None
      | c # cs \<Rightarrow>
          if c = CHR ''-'' then (if all_digits cs then Some (- int (digits_value cs)) else None)
          else if c = CHR ''+'' then (if all_digits cs then Some (int (digits_value cs)) else None)
          else if all_digits s then Some (int (digits_value s)) else None)"

lemma is_digit_digit_char [simp]: "d < 10 \<Longrightarrow> is_digit (digit_char d)"
  by (simp add: char_class_defs digit_char_def)

lemma of_char_digit_char [simp]: "d < 10 \<Longrightarrow> of_char (digit_char d) = 48 + d"
  by (simp add: digit_char_def)

lemma show_nat_digits: "all_digits (show_nat n)"
proof (induction n rule: show_nat.induct)
  case (1 n)
  then show ?case by (subst show_nat.simps) (auto simp: all_digits_def)
qed

lemma digits_value_show_nat [simp]: "digits_value (show_nat n) = n"
proof (induction n rule: show_nat.induct)
  case (1 n)
  show ?case
  proof (cases "n < 10")
    case True
    then show ?thesis by (subst show_nat.simps) (simp add: digits_value_def)
  next
    case False
    then have "digits_value (show_nat (n div 10)) = n div 10" using 1 by simp
    with False show ?thesis
      by (subst show_nat.simps) (simp add: digits_value_def)
  qed
qed

lemma show_nat_hd: "show_nat n = c # cs \<Longrightarrow> c \<noteq> CHR ''-'' \<and> c \<noteq> CHR ''+''"
  using show_nat_digits [of n] by (auto simp: all_digits_def char_class_defs)

text \<open>Printing an integer and reading it back.\<close>

lemma parse_show_int: "parse_int (show_int i) = Some i"
proof (cases "i < 0")
  case True
  then show ?thesis by (simp add: parse_int_def show_int_def show_nat_digits)
next
  case False
  obtain c cs where c: "show_nat (nat i) = c # cs"
    using show_nat_digits [of "nat i"] by (auto simp: all_digits_def neq_Nil_conv)
  from show_nat_hd [OF c] False c show ?thesis
    using show_nat_digits [of "nat i"] digits_value_show_nat [of "nat i"]
    by (simp add: parse_int_def show_int_def)
qed

lemma show_int_no_space: "CHR '' '' \<notin> set (show_int i)"
  using show_nat_digits [of "nat i"] show_nat_digits [of "nat (- i)"]
  by (auto simp: show_int_def all_digits_def list_all_iff char_class_defs)

section \<open>Regular expressions\<close>

text \<open>
  The patterns of the source are anchored regular expressions without back references, so
  matching is membership in a regular language; \<open>re_match\<close> decides it by derivatives.
\<close>

datatype regex =
    RZero
  | ROne
  | RClass "char \<Rightarrow> bool"
  | RAlt regex regex
  | RSeq regex regex
  | RStar regex

primrec nullable :: "regex \<Rightarrow> bool" where
  "nullable RZero = False"
| "nullable ROne = True"
| "nullable (RClass p) = False"
| "nullable (RAlt r s) = (nullable r \<or> nullable s)"
| "nullable (RSeq r s) = (nullable r \<and> nullable s)"
| "nullable (RStar r) = True"

primrec deriv :: "char \<Rightarrow> regex \<Rightarrow> regex" where
  "deriv c RZero = RZero"
| "deriv c ROne = RZero"
| "deriv c (RClass p) = (if p c then ROne else RZero)"
| "deriv c (RAlt r s) = RAlt (deriv c r) (deriv c s)"
| "deriv c (RSeq r s) =
     (if nullable r then RAlt (RSeq (deriv c r) s) (deriv c s) else RSeq (deriv c r) s)"
| "deriv c (RStar r) = RSeq (deriv c r) (RStar r)"

definition re_match :: "regex \<Rightarrow> string \<Rightarrow> bool" where
  "re_match r s = nullable (fold deriv s r)"

text \<open>The derived forms of the patterns: \<open>r+\<close>, \<open>r?\<close>, \<open>r{0,n}\<close>, \<open>r{m,n}\<close>, a literal character.\<close>

definition RPlus :: "regex \<Rightarrow> regex" where
  "RPlus r = RSeq r (RStar r)"

definition ROpt :: "regex \<Rightarrow> regex" where
  "ROpt r = RAlt ROne r"

definition RChar :: "char \<Rightarrow> regex" where
  "RChar c = RClass (\<lambda>x. x = c)"

fun RUpto :: "nat \<Rightarrow> regex \<Rightarrow> regex" where
  "RUpto 0 r = ROne"
| "RUpto (Suc n) r = ROpt (RSeq r (RUpto n r))"

fun RTimes :: "nat \<Rightarrow> regex \<Rightarrow> regex" where
  "RTimes 0 r = ROne"
| "RTimes (Suc n) r = RSeq r (RTimes n r)"

definition RBetween :: "nat \<Rightarrow> nat \<Rightarrow> regex \<Rightarrow> regex" where
  "RBetween m n r = RSeq (RTimes m r) (RUpto (n - m) r)"

lemmas regex_derived = RPlus_def ROpt_def RChar_def RBetween_def

text \<open>The language of a pattern, against which the matcher is proved correct.\<close>

inductive_set star_lang :: "string set \<Rightarrow> string set" for L where
  star_Nil: "[] \<in> star_lang L"
| star_append: "u \<in> L \<Longrightarrow> v \<in> star_lang L \<Longrightarrow> u @ v \<in> star_lang L"

primrec lang :: "regex \<Rightarrow> string set" where
  "lang RZero = {}"
| "lang ROne = {[]}"
| "lang (RClass p) = {[c] | c. p c}"
| "lang (RAlt r s) = lang r \<union> lang s"
| "lang (RSeq r s) = {u @ v | u v. u \<in> lang r \<and> v \<in> lang s}"
| "lang (RStar r) = star_lang (lang r)"

lemma nullable_lang: "nullable r \<longleftrightarrow> [] \<in> lang r"
  by (induction r) (auto intro: star_Nil)

lemma star_lang_Cons:
  "c # w \<in> star_lang L \<longleftrightarrow> (\<exists>u v. w = u @ v \<and> c # u \<in> L \<and> v \<in> star_lang L)"
proof
  have "x \<in> star_lang L \<Longrightarrow> x = c # w \<Longrightarrow>
      \<exists>u v. w = u @ v \<and> c # u \<in> L \<and> v \<in> star_lang L" for x
    by (induction rule: star_lang.induct) (auto simp: append_eq_Cons_conv)
  then show "c # w \<in> star_lang L \<Longrightarrow> \<exists>u v. w = u @ v \<and> c # u \<in> L \<and> v \<in> star_lang L"
    by blast
next
  assume "\<exists>u v. w = u @ v \<and> c # u \<in> L \<and> v \<in> star_lang L"
  then obtain u v where "w = u @ v" "c # u \<in> L" "v \<in> star_lang L" by blast
  then show "c # w \<in> star_lang L" using star_append [of "c # u" L v] by simp
qed

lemma deriv_lang: "w \<in> lang (deriv c r) \<longleftrightarrow> c # w \<in> lang r"
proof (induction r arbitrary: w)
  case (RSeq r s)
  then show ?case
    by (auto simp: nullable_lang Cons_eq_append_conv)
next
  case (RStar r)
  then show ?case by (auto simp: star_lang_Cons)
qed auto

lemma re_match_lang: "re_match r s \<longleftrightarrow> s \<in> lang r"
  by (induction s arbitrary: r) (auto simp: re_match_def nullable_lang deriv_lang)

end
