(* ===== verification/Accounts_Assets.thy ===== *)
theory Accounts_Assets
  imports Ledger_Prelude
begin

text \<open>
  Account addresses and asset names: the patterns of \<open>pkg/accounts/accounts.go\<close> and
  \<open>pkg/assets/asset.go\<close>, and the validation functions of \<open>internal/machine/account.go\<close> and
  \<open>internal/machine/asset.go\<close> built on them.
\<close>

section \<open>Account addresses\<close>

text \<open>\<open>[a-zA-Z0-9_-]\<close>\<close>

definition segment_char :: "char \<Rightarrow> bool" where
  "segment_char c \<longleftrightarrow> is_lower c \<or> is_upper c \<or> is_digit c \<or> c = CHR ''_'' \<or> c = CHR ''-''"

text \<open>\<open>SegmentRegex\<close> and \<open>Pattern\<close> of \<open>pkg/accounts\<close>: \<open>^seg(:seg)*$\<close>.\<close>

definition SegmentRegex :: regex where
  "SegmentRegex = RPlus (RClass segment_char)"

definition accounts_Pattern :: regex where
  "accounts_Pattern = RSeq SegmentRegex (RStar (RSeq (RChar CHR '':'') SegmentRegex))"

definition ValidateAddress :: "string \<Rightarrow> bool" where
  "ValidateAddress addr = re_match accounts_Pattern addr"

text \<open>The machine's wrapper returns the pattern error.\<close>

datatype value_error = PatternMismatch string

definition ValidateAccountAddress :: "string \<Rightarrow> (value_error, unit) result" where
  "ValidateAccountAddress acc = guardr (ValidateAddress acc) (PatternMismatch acc)"

section \<open>Assets\<close>

text \<open>\<open>[A-Z][A-Z0-9]{0,16}(_[A-Z]{1,16})?(\/\d{1,6})?\<close>\<close>

definition assets_Pattern :: regex where
  "assets_Pattern =
     RSeq (RClass is_upper)
      (RSeq (RUpto 16 (RClass (\<lambda>c. is_upper c \<or> is_digit c)))
        (RSeq (ROpt (RSeq (RChar CHR ''_'') (RBetween 1 16 (RClass is_upper))))
          (ROpt (RSeq (RChar CHR ''/'') (RBetween 1 6 (RClass is_digit))))))"

definition assets_IsValid :: "string \<Rightarrow> bool" where
  "assets_IsValid v = re_match assets_Pattern v"

definition ValidateAsset :: "string \<Rightarrow> (value_error, unit) result" where
  "ValidateAsset ass = guardr (assets_IsValid ass) (PatternMismatch ass)"

section \<open>The patterns as conditions on the string\<close>

text \<open>A repeated class matches exactly the strings over the class.\<close>

lemma star_class: "star_lang {[c] | c. p c} = {s. list_all p s}"
proof (intro equalityI subsetI)
  fix s assume "s \<in> star_lang {[c] | c. p c}"
  then show "s \<in> {s. list_all p s}" by (induction rule: star_lang.induct) auto
next
  fix s assume "s \<in> {s. list_all p s}"
  then show "s \<in> star_lang {[c] | c. p c}"
  proof (induction s)
    case Nil
    then show ?case by (simp add: star_Nil)
  next
    case (Cons c s)
    then show ?case using star_append [of "[c]" "{[c] | c. p c}" s] by auto
  qed
qed

lemma lang_RPlus_class: "lang (RPlus (RClass p)) = {s. s \<noteq> [] \<and> list_all p s}"
proof (intro set_eqI iffI)
  fix s assume "s \<in> lang (RPlus (RClass p))"
  then obtain u v where "s = u @ v" "u \<in> {[c] | c. p c}" "list_all p v"
    unfolding RPlus_def lang.simps star_class by blast
  then show "s \<in> {s. s \<noteq> [] \<and> list_all p s}" by auto
next
  fix s assume "s \<in> {s. s \<noteq> [] \<and> list_all p s}"
  then obtain c v where "s = [c] @ v" "p c" "list_all p v" by (cases s) auto
  then show "s \<in> lang (RPlus (RClass p))"
    unfolding RPlus_def lang.simps star_class by blast
qed

definition valid_segment :: "string \<Rightarrow> bool" where
  "valid_segment s \<longleftrightarrow> s \<noteq> [] \<and> list_all segment_char s"

lemma lang_SegmentRegex: "lang SegmentRegex = Collect valid_segment"
  by (auto simp: SegmentRegex_def lang_RPlus_class valid_segment_def)

lemma segment_char_not_colon [simp]: "\<not> segment_char CHR '':''"
  by (simp add: segment_char_def char_class_defs)

lemma segment_no_colon: "valid_segment s \<Longrightarrow> CHR '':'' \<notin> set s"
  by (auto simp: list_all_iff valid_segment_def)

text \<open>The strings that \<open>(:seg)*\<close> matches are the joins of valid segments.\<close>

abbreviation colon_segs :: "string set" where
  "colon_segs \<equiv> {CHR '':'' # s | s. valid_segment s}"

lemma colon_segments:
  "t \<in> star_lang colon_segs \<Longrightarrow> valid_segment u \<Longrightarrow>
   list_all valid_segment (split_on CHR '':'' (u @ t))"
proof (induction arbitrary: u rule: star_lang.induct)
  case star_Nil
  then show ?case by (simp add: split_on_no_sep segment_no_colon)
next
  case (star_append v w)
  then obtain s where s: "v = CHR '':'' # s" "valid_segment s" by auto
  have "split_on CHR '':'' (u @ v @ w) = u # split_on CHR '':'' (s @ w)"
    using segment_no_colon [OF star_append.prems(1)] by (simp add: s split_on_append)
  with star_append.IH [OF s(2)] star_append.prems show ?case by simp
qed

lemma segments_in_star:
  "list_all valid_segment segs \<Longrightarrow> concat (map (\<lambda>s. CHR '':'' # s) segs) \<in> star_lang colon_segs"
proof (induction segs)
  case Nil
  then show ?case by (simp add: star_Nil)
next
  case (Cons s segs)
  then show ?case
    using star_append [of "CHR '':'' # s" colon_segs "concat (map (\<lambda>s. CHR '':'' # s) segs)"] by auto
qed

lemma join_colon: "join_with CHR '':'' (s # segs) = s @ concat (map (\<lambda>s. CHR '':'' # s) segs)"
  by (induction segs arbitrary: s) auto

lemma address_segments:
  "ValidateAddress addr = list_all valid_segment (split_on CHR '':'' addr)"
proof -
  have lang: "addr \<in> lang accounts_Pattern \<longleftrightarrow>
      (\<exists>u t. addr = u @ t \<and> valid_segment u \<and> t \<in> star_lang colon_segs)"
    by (simp add: accounts_Pattern_def lang_SegmentRegex RChar_def)
  show ?thesis
  proof
    assume "ValidateAddress addr"
    then show "list_all valid_segment (split_on CHR '':'' addr)"
      using colon_segments unfolding ValidateAddress_def re_match_lang lang by blast
  next
    assume segs: "list_all valid_segment (split_on CHR '':'' addr)"
    obtain s ss where ss: "split_on CHR '':'' addr = s # ss"
      using split_on_not_Nil neq_Nil_conv by meson
    have "addr = s @ concat (map (\<lambda>s. CHR '':'' # s) ss)"
      using join_split [of "CHR '':''" addr] by (simp only: ss join_colon)
    moreover have "concat (map (\<lambda>s. CHR '':'' # s) ss) \<in> star_lang colon_segs"
      using segs ss by (intro segments_in_star) simp
    ultimately show "ValidateAddress addr"
      using segs ss unfolding ValidateAddress_def re_match_lang lang by auto
  qed
qed

text \<open>
  An address is accepted exactly when it splits at the colons into segments that
  are non-empty and made of letters, digits, underscores and dashes. It relates the pattern
  that guards every address to the segments the chart of accounts and the address filters
  work on.
\<close>

lemma ValidateAddress_segments:
  "ValidateAddress addr = list_all valid_segment (split_on CHR '':'' addr)"
  by (rule address_segments)

text \<open>A valid address is not empty and holds none of the separators of the textual formats.\<close>

lemma ValidateAddress_chars:
  assumes "ValidateAddress addr"
  shows "addr \<noteq> [] \<and> (\<forall>c \<in> set addr. segment_char c \<or> c = CHR '':'')"
proof -
  have "x \<in> set (join_with c ss) \<Longrightarrow> (\<exists>s \<in> set ss. x \<in> set s) \<or> x = c" for x c ss
    by (induction c ss rule: join_with.induct) auto
  from this [of _ "CHR '':''" "split_on CHR '':'' addr"] assms show ?thesis
    by (auto simp: join_split address_segments list_all_iff valid_segment_def)
qed

lemma world_valid: "ValidateAddress ''world''"
  by (simp add: address_segments valid_segment_def segment_char_def char_class_defs)

text \<open>A space, which separates the asset from the amount of a textual monetary, is in no asset.\<close>

lemma lang_RUpto: "s \<in> lang (RUpto n (RClass p)) \<Longrightarrow> list_all p s"
  by (induction n arbitrary: s) (auto simp: ROpt_def)

lemma lang_RTimes: "s \<in> lang (RTimes n (RClass p)) \<Longrightarrow> list_all p s"
  by (induction n arbitrary: s) auto

lemma assets_IsValid_chars:
  assumes "assets_IsValid v"
  shows "v \<noteq> [] \<and> (\<forall>c \<in> set v. is_upper c \<or> is_digit c \<or> c = CHR ''_'' \<or> c = CHR ''/'')"
proof -
  have "v \<in> lang assets_Pattern" using assms by (simp add: assets_IsValid_def re_match_lang)
  then show ?thesis
    unfolding assets_Pattern_def ROpt_def RChar_def RBetween_def
    by (fastforce simp: list_all_iff dest: lang_RUpto lang_RTimes)
qed

lemma asset_no_space: "assets_IsValid v \<Longrightarrow> CHR '' '' \<notin> set v"
  using assets_IsValid_chars [of v] by (auto simp: char_class_defs)

end
