(* ===== verification/Portions.thy ===== *)
theory Portions
  imports Ledger_Prelude
begin

text \<open>
  Portions and allotments: \<open>internal/machine/portion.go\<close> and \<open>internal/machine/allotment.go\<close>.
  A \<open>big.Rat\<close> is a \<open>rat\<close> (both are kept in lowest terms), a \<open>*big.Rat\<close> that may be nil is a
  \<open>rat option\<close>, an \<open>Allotment\<close> is the list of its ratios.
\<close>

section \<open>Portions\<close>

record portion =
  Remaining :: bool
  Specific :: "rat option"

datatype portion_error =
    OutOfRange
  | RemainingNotSpecific
  | NilSpecific
  | InvalidPercentFormat
  | InvalidFractionalFormat
  | InvalidFormat

definition NewPortionRemaining :: portion where
  "NewPortionRemaining = \<lparr>Remaining = True, Specific = None\<rparr>"

definition NewPortionSpecific :: "rat \<Rightarrow> (portion_error, portion) result" where
  "NewPortionSpecific r =
     (if r < 0 \<or> r > 1 then raise OutOfRange
      else Inr \<lparr>Remaining = False, Specific = Some r\<rparr>)"

definition ValidatePortionSpecific :: "portion \<Rightarrow> (portion_error, unit) result" where
  "ValidatePortionSpecific p =
     (if Remaining p then raise RemainingNotSpecific
      else case Specific p of
        None \<Rightarrow> raise NilSpecific
      | Some r \<Rightarrow> if r < 0 \<or> r > 1 then raise OutOfRange else Inr ())"

text \<open>
  \<open>Portion.Equals\<close>. A nil \<open>Specific\<close> is compared as such; no constructor of the package builds a
  portion that is neither \<open>Remaining\<close> nor specific.
\<close>

definition PortionEquals :: "portion \<Rightarrow> portion \<Rightarrow> bool" where
  "PortionEquals lhs rhs =
     (if Remaining lhs \<noteq> Remaining rhs then False
      else if \<not> Remaining lhs \<and> Specific lhs \<noteq> Specific rhs then False
      else True)"

subsection \<open>The textual form\<close>

text \<open>
  The submatches of \<open>^([0-9]+)(?:[.]([0-9]+))?[%]$\<close>; an absent second group is empty.
\<close>

definition percentMatch :: "string \<Rightarrow> (string \<times> string) option" where
  "percentMatch s =
     (let i = takeWhile is_digit s; r = dropWhile is_digit s in
      if i = [] then None
      else if r = ''%'' then Some (i, [])
      else if r \<noteq> [] \<and> hd r = CHR ''.'' then
        (let f = takeWhile is_digit (tl r); r' = dropWhile is_digit (tl r) in
         if f \<noteq> [] \<and> r' = ''%'' then Some (i, f) else None)
      else None)"

text \<open>\<open>\s\<close> of Go's regular expressions: tab, newline, form feed, carriage return, space.\<close>

definition is_space :: "char \<Rightarrow> bool" where
  "is_space c \<longleftrightarrow> (of_char c :: nat) \<in> {9, 10, 12, 13, 32}"

definition skip_space :: "string \<Rightarrow> string" where
  "skip_space s = (if s \<noteq> [] \<and> is_space (hd s) then tl s else s)"

text \<open>The submatches of \<open>^([0-9]+)\s?[/]\s?([0-9]+)$\<close>.\<close>

definition fractionMatch :: "string \<Rightarrow> (string \<times> string) option" where
  "fractionMatch s =
     (let n = takeWhile is_digit s; r = skip_space (dropWhile is_digit s) in
      if n = [] \<or> r = [] \<or> hd r \<noteq> CHR ''/'' then None
      else let d = skip_space (tl r) in if all_digits d then Some (n, d) else None)"

text \<open>
  \<open>big.Rat.SetString\<close> on a decimal \<open>i.f\<close> with digits only: the digits, scaled by the length of
  the fraction.
\<close>

definition decimal_value :: "string \<Rightarrow> string \<Rightarrow> rat" where
  "decimal_value i f = of_nat (digits_value (i @ f)) / 10 ^ length f"

text \<open>
  \<open>big.Rat.SetString\<close> on a fraction reads both numbers in base 0: digits after a leading zero
  are octal, and the reading fails on a digit that is not octal.
\<close>

definition is_octal :: "char \<Rightarrow> bool" where
  "is_octal c \<longleftrightarrow> char_in CHR ''0'' CHR ''7'' c"

definition octal_value :: "string \<Rightarrow> nat" where
  "octal_value s = foldl (\<lambda>n c. 8 * n + (of_char c - 48)) 0 s"

definition base0_value :: "string \<Rightarrow> nat option" where
  "base0_value s =
     (if length s > 1 \<and> hd s = CHR ''0'' then
        (if list_all is_octal s then Some (octal_value s) else None)
      else Some (digits_value s))"

definition fraction_value :: "string \<Rightarrow> string \<Rightarrow> rat option" where
  "fraction_value n d =
     (case (base0_value n, base0_value d) of
        (Some a, Some b) \<Rightarrow> if b = 0 then None else Some (of_nat a / of_nat b)
      | _ \<Rightarrow> None)"

definition ParsePortionSpecific :: "string \<Rightarrow> (portion_error, portion) result" where
  "ParsePortionSpecific input =
     (case percentMatch input of
        Some (integral, fractional) \<Rightarrow>
          NewPortionSpecific (decimal_value integral fractional * (1 / 100))
      | None \<Rightarrow>
          (case fractionMatch input of
             Some (numerator, denominator) \<Rightarrow>
               (case fraction_value numerator denominator of
                  None \<Rightarrow> raise InvalidFractionalFormat
                | Some res \<Rightarrow> NewPortionSpecific res)
           | None \<Rightarrow> raise InvalidFormat))"

text \<open>\<open>Rat.String\<close> always prints the denominator.\<close>

definition RatString :: "rat \<Rightarrow> string" where
  "RatString r = show_int (fst (quotient_of r)) @ CHR ''/'' # show_int (snd (quotient_of r))"

definition PortionString :: "portion \<Rightarrow> string" where
  "PortionString p =
     (if Remaining p then ''remaining''
      else case Specific p of None \<Rightarrow> ''<nil>'' | Some r \<Rightarrow> RatString r)"

section \<open>Allotments\<close>

type_synonym allotment = "rat list"

datatype allotment_error = TwoRemaining | SumExceeded

text \<open>The loop of \<open>NewAllotment\<close>: ratios so far, their total, the index of \<open>remaining\<close>.\<close>

fun NewAllotment_loop ::
    "portion list \<Rightarrow> nat \<Rightarrow> rat list \<times> rat \<times> nat option \<Rightarrow>
     (allotment_error, rat list \<times> rat \<times> nat option) result" where
  "NewAllotment_loop [] i st = Inr st"
| "NewAllotment_loop (p # ps) i (allot, tot, remainingIdx) =
     (if Remaining p then
        (if remainingIdx \<noteq> None then raise TwoRemaining
         else NewAllotment_loop ps (Suc i) (allot @ [0], tot, Some i))
      else case Specific p of
        None \<Rightarrow> panic
      | Some r \<Rightarrow> NewAllotment_loop ps (Suc i) (allot @ [r], tot + r, remainingIdx))"

definition NewAllotment :: "portion list \<Rightarrow> (allotment_error, allotment) result" where
  "NewAllotment portions =
     bindr (NewAllotment_loop portions 0 ([], 0, None)) (\<lambda>(allot, tot, remainingIdx).
       if tot > 1 then raise SumExceeded
       else Inr (case remainingIdx of None \<Rightarrow> allot | Some i \<Rightarrow> allot[i := 1 - tot]))"

text \<open>
  \<open>Allocate\<close>: every ratio gets its floored share, then the parts from the left get one unit
  more until the amount is used up. \<open>big.Int.Div\<close> by a positive denominator rounds down.
\<close>

definition floored_share :: "int \<Rightarrow> rat \<Rightarrow> int" where
  "floored_share amount allot = (amount * fst (quotient_of allot)) div snd (quotient_of allot)"

fun distribute_rest :: "int \<Rightarrow> int \<Rightarrow> int list \<Rightarrow> int list" where
  "distribute_rest amount tot [] = []"
| "distribute_rest amount tot (p # ps) =
     (if tot < amount then (p + 1) # distribute_rest amount (tot + 1) ps
      else p # distribute_rest amount tot ps)"

definition Allocate :: "allotment \<Rightarrow> int \<Rightarrow> int list" where
  "Allocate a amount =
     (let parts = map (floored_share amount) a
      in distribute_rest amount (sum_list parts) parts)"

section \<open>Properties of portions\<close>

text \<open>A portion the code builds is \<open>remaining\<close> or a ratio between 0 and 1.\<close>

definition valid_portion :: "portion \<Rightarrow> bool" where
  "valid_portion p \<longleftrightarrow>
     (if Remaining p then True
      else case Specific p of None \<Rightarrow> False | Some r \<Rightarrow> 0 \<le> r \<and> r \<le> 1)"

lemma NewPortionSpecific_Inr [result_simps]:
  "NewPortionSpecific r = Inr p \<longleftrightarrow>
     0 \<le> r \<and> r \<le> 1 \<and> p = \<lparr>Remaining = False, Specific = Some r\<rparr>"
  by (auto simp: NewPortionSpecific_def)

lemma NewPortionSpecific_no_panic [simp]: "NewPortionSpecific r \<noteq> Inl Panic"
  by (simp add: NewPortionSpecific_def)

lemma ParsePortionSpecific_Inr:
  "ParsePortionSpecific s = Inr p \<Longrightarrow>
     \<exists>r. 0 \<le> r \<and> r \<le> 1 \<and> p = \<lparr>Remaining = False, Specific = Some r\<rparr>"
proof -
  assume "ParsePortionSpecific s = Inr p"
  then obtain q where "NewPortionSpecific q = Inr p"
    by (auto simp: ParsePortionSpecific_def split: option.splits prod.splits)
  then show ?thesis by (auto simp: result_simps)
qed

lemma ParsePortionSpecific_no_panic [simp]: "ParsePortionSpecific s \<noteq> Inl Panic"
  by (auto simp: ParsePortionSpecific_def split: option.splits prod.splits)

lemma valid_portion_iff:
  "valid_portion p \<longleftrightarrow> Remaining p \<or> ValidatePortionSpecific p = Inr ()"
  by (auto simp: valid_portion_def ValidatePortionSpecific_def split: option.splits)

lemma takeWhile_digits:
  "all_digits n \<Longrightarrow> \<not> is_digit c \<Longrightarrow>
     takeWhile is_digit (n @ c # d) = n \<and> dropWhile is_digit (n @ c # d) = c # d"
  by (auto simp: all_digits_def takeWhile_append dropWhile_append list_all_iff)

lemma show_nat_0: "show_nat 0 = ''0''"
  by (subst show_nat.simps) (simp add: digit_char_def char_of_eq_iff)

lemma hd_show_nat: "n > 0 \<Longrightarrow> hd (show_nat n) \<noteq> CHR ''0''"
proof (induction n rule: show_nat.induct)
  case (1 n)
  show ?case
  proof (cases "n < 10")
    case True
    have "digit_char n \<noteq> CHR ''0''"
    proof
      assume "digit_char n = CHR ''0''"
      then have "of_char (digit_char n) = (of_char CHR ''0'' :: nat)" by simp
      with True 1 show False by simp
    qed
    then show ?thesis by (subst show_nat.simps) (simp add: True)
  next
    case False
    have "show_nat (n div 10) \<noteq> []" using show_nat_digits [of "n div 10"] by (simp add: all_digits_def)
    with 1 False show ?thesis by (subst show_nat.simps) simp
  qed
qed

lemma base0_show_nat [simp]: "base0_value (show_nat n) = Some n"
proof (cases "n = 0")
  case True
  then show ?thesis by (simp add: base0_value_def show_nat_0 digits_value_def)
next
  case False
  then show ?thesis using hd_show_nat by (simp add: base0_value_def)
qed

lemma portion_roundtrip:
  assumes "0 \<le> r" "r \<le> 1"
  shows "ParsePortionSpecific (PortionString \<lparr>Remaining = False, Specific = Some r\<rparr>) =
           Inr \<lparr>Remaining = False, Specific = Some r\<rparr>"
proof -
  obtain n d where q: "quotient_of r = (n, d)" by (cases "quotient_of r")
  have d: "d > 0" using quotient_of_denom_pos [OF q] .
  have r: "r = of_int n / of_int d" using quotient_of_div [OF q] .
  have n: "n \<ge> 0" using assms(1) d by (simp add: r zero_le_divide_iff)
  let ?s = "show_nat (nat n)" let ?t = "show_nat (nat d)"
  have s: "PortionString \<lparr>Remaining = False, Specific = Some r\<rparr> = ?s @ CHR ''/'' # ?t"
    using n d by (simp add: PortionString_def RatString_def q show_int_def)
  have slash: "\<not> is_digit CHR ''/''" by (simp add: char_class_defs)
  note tw = takeWhile_digits [OF show_nat_digits slash, of "nat n" ?t]
  have ne: "?s \<noteq> []" "?t \<noteq> []" using show_nat_digits by (auto simp: all_digits_def)
  have "\<not> is_space (hd ?t)"
    using show_nat_digits [of "nat d"] ne by (cases ?t) (auto simp: all_digits_def is_space_def char_class_defs)
  then have "fractionMatch (?s @ CHR ''/'' # ?t) = Some (?s, ?t)"
    using tw ne show_nat_digits by (simp add: fractionMatch_def skip_space_def is_space_def Let_def)
  moreover have "percentMatch (?s @ CHR ''/'' # ?t) = None"
    using tw by (simp add: percentMatch_def Let_def)
  moreover have "fraction_value ?s ?t = Some r"
    using n d by (simp add: fraction_value_def r)
  ultimately show ?thesis
    using assms by (simp add: s ParsePortionSpecific_def NewPortionSpecific_def)
qed

text \<open>
  The printed form of every valid ratio reads back as the same ratio, so a portion
  survives being stored as metadata text and read again.
\<close>

lemma portion_print_parse:
  assumes "0 \<le> r" "r \<le> 1"
  shows "ParsePortionSpecific (PortionString \<lparr>Remaining = False, Specific = Some r\<rparr>) =
           Inr \<lparr>Remaining = False, Specific = Some r\<rparr>"
  using assms by (rule portion_roundtrip)

text \<open>
  A fraction with leading zeros is read in octal: \<open>010/100\<close> is the ratio
  \<open>8/100\<close>, not the tenth its digits say, and \<open>08/10\<close> is rejected.
\<close>

lemma fraction_leading_zero_is_octal:
  "ParsePortionSpecific ''010/100'' = Inr \<lparr>Remaining = False, Specific = Some (8 / 100)\<rparr> \<and>
   ParsePortionSpecific ''08/10'' = raise InvalidFractionalFormat"
  by (simp add: ParsePortionSpecific_def percentMatch_def fractionMatch_def fraction_value_def
      base0_value_def is_octal_def octal_value_def digits_value_def char_class_defs skip_space_def
      is_space_def all_digits_def NewPortionSpecific_def Let_def)

section \<open>Properties of allotments\<close>

lemma floored_share_floor: "floored_share amount r = \<lfloor>of_int amount * r\<rfloor>"
proof -
  obtain n d where q: "quotient_of r = (n, d)" by (cases "quotient_of r")
  have "(of_int amount * r :: rat) = of_int (amount * n) / of_int d"
    using quotient_of_div [OF q] by simp
  then show ?thesis by (simp only: floored_share_def q fst_conv snd_conv floor_divide_of_int_eq)
qed

lemma length_distribute [simp]: "length (distribute_rest a t ps) = length ps"
  by (induction ps arbitrary: t) auto

lemma sum_distribute:
  "t \<le> a \<Longrightarrow> a \<le> t + int (length ps) \<Longrightarrow>
     sum_list (distribute_rest a t ps) = sum_list ps + (a - t)"
  by (induction ps arbitrary: t) auto

lemma nth_distribute:
  "i < length ps \<Longrightarrow>
     distribute_rest a t ps ! i = ps ! i + (if int i < a - t then 1 else 0)"
proof (induction ps arbitrary: i t)
  case Nil
  then show ?case by simp
next
  case (Cons p ps)
  then show ?case by (cases i) auto
qed

text \<open>Flooring loses at most one unit per ratio.\<close>

lemma sum_floored:
  "sum_list (map (\<lambda>r. of_int (floored_share a r)) rs) \<le> of_int a * sum_list rs \<and>
   of_int a * sum_list rs \<le> sum_list (map (\<lambda>r. of_int (floored_share a r)) rs) + (of_nat (length rs) :: rat)"
proof (induction rs)
  case Nil
  then show ?case by simp
next
  case (Cons r rs)
  have "of_int (floored_share a r) \<le> of_int a * r"
    by (simp add: floored_share_floor)
  moreover have "of_int a * r \<le> of_int (floored_share a r) + 1"
    using floor_correct [of "of_int a * r"] by (simp add: floored_share_floor)
  ultimately show ?case using Cons by (simp add: algebra_simps)
qed

lemma of_int_sum_list: "(of_int (sum_list (map f xs)) :: rat) = sum_list (map (\<lambda>x. of_int (f x)) xs)"
  by (induction xs) auto

lemma Allocate_sum:
  assumes "sum_list a = 1"
  shows "sum_list (Allocate a amount) = amount"
proof -
  let ?ps = "map (floored_share amount) a"
  have "of_int (sum_list ?ps) \<le> (of_int amount * sum_list a :: rat)"
    and "of_int amount * sum_list a \<le> (of_int (sum_list ?ps + int (length a)) :: rat)"
    using sum_floored [of amount a] by (simp_all add: of_int_sum_list)
  then have "sum_list ?ps \<le> amount" and "amount \<le> sum_list ?ps + int (length a)"
    unfolding assms mult_1_right of_int_le_iff by blast+
  then show ?thesis by (simp add: Allocate_def Let_def sum_distribute)
qed

text \<open>
  Claim C34. Allocating an amount over ratios that sum to one gives parts that sum to exactly
  the amount: no unit is lost to rounding and none is created, for every amount.
\<close>

theorem Allocate_exact:
  "sum_list a = 1 \<Longrightarrow> sum_list (Allocate a amount) = amount \<and> length (Allocate a amount) = length a"
  using Allocate_sum [of a amount] by (simp add: Allocate_def Let_def)

theorem Allocate_exact_witness:
  "sum_list (Allocate [1/3, 1/3, 1/3] 100) = 100 \<and> length (Allocate [1/3, 1/3, 1/3] 100) = 3"
  using Allocate_exact [of "[1/3, 1/3, 1/3]" 100] by simp

text \<open>
  Claim C35. Every part is the exact share rounded down or that plus one, so rounding is fair to
  one unit, and parts of a non-negative amount are non-negative.
\<close>

theorem Allocate_fair:
  assumes "i < length a"
  shows "of_int (Allocate a amount ! i) \<le> of_int amount * a ! i + 1 \<and>
         of_int amount * a ! i < of_int (Allocate a amount ! i) + 1 \<and>
         (0 \<le> amount \<and> 0 \<le> a ! i \<longrightarrow> 0 \<le> Allocate a amount ! i)"
proof -
  let ?f = "floored_share amount (a ! i)"
  have b: "Allocate a amount ! i = ?f \<or> Allocate a amount ! i = ?f + 1"
    using assms by (auto simp: Allocate_def Let_def nth_distribute)
  have fl: "of_int ?f \<le> of_int amount * a ! i" "of_int amount * a ! i < of_int ?f + 1"
    unfolding floored_share_floor by linarith+
  have "0 \<le> ?f" if "0 \<le> amount" "0 \<le> a ! i"
    using that by (simp add: floored_share_floor)
  with b fl show ?thesis by auto
qed

theorem Allocate_fair_witness:
  "of_int (Allocate [1/3, 2/3] 100 ! 0) \<le> of_int 100 * [1/3, 2/3] ! 0 + (1::rat)"
  using Allocate_fair [of 0 "[1/3, 2/3]" 100] by simp

lemma NewAllotment_loop_inv:
  "NewAllotment_loop ps i (al, t, ri) = Inr (al', t', ri') \<Longrightarrow>
   length al = i \<Longrightarrow> sum_list al = t \<Longrightarrow> list_all valid_portion ps \<Longrightarrow>
   list_all (\<lambda>r. 0 \<le> r) al \<Longrightarrow> (\<forall>k. ri = Some k \<longrightarrow> k < length al \<and> al ! k = 0) \<Longrightarrow>
   length al' = i + length ps \<and> sum_list al' = t' \<and> list_all (\<lambda>r. 0 \<le> r) al' \<and>
   (\<forall>k. ri' = Some k \<longrightarrow> k < length al' \<and> al' ! k = 0) \<and>
   (ri' \<noteq> None \<longleftrightarrow> ri \<noteq> None \<or> (\<exists>p \<in> set ps. Remaining p))"
proof (induction ps i "(al, t, ri)" arbitrary: al t ri rule: NewAllotment_loop.induct)
  case (1 i)
  then show ?case by simp
next
  case (2 p ps i al t ri)
  show ?case
  proof (cases "Remaining p")
    case True
    then have "ri = None" and rec: "NewAllotment_loop ps (Suc i) (al @ [0], t, Some i) = Inr (al', t', ri')"
      using 2(3) by (auto split: if_splits)
    with 2(1) [OF True _ rec] 2(4-) True show ?thesis
      by (auto simp: nth_append)
  next
    case False
    then obtain r where r: "Specific p = Some r" "0 \<le> r"
      and rec: "NewAllotment_loop ps (Suc i) (al @ [r], t + r, ri) = Inr (al', t', ri')"
      using 2(3,6) by (auto simp: valid_portion_def split: option.splits)
    have "\<forall>k. ri = Some k \<longrightarrow> k < length (al @ [r]) \<and> (al @ [r]) ! k = 0"
      using 2(8) by (auto simp: nth_append)
    with 2(2) [OF False r(1) rec] 2(4-) r False show ?thesis
      by auto
  qed
qed

lemma sum_list_update_zero:
  "k < length xs \<Longrightarrow> xs ! k = 0 \<Longrightarrow> sum_list (xs[k := v]) = sum_list xs + (v :: rat)"
proof (induction xs arbitrary: k)
  case Nil
  then show ?case by simp
next
  case (Cons x xs)
  then show ?case by (cases k) auto
qed

lemma elem_le_sum: "list_all (\<lambda>r. 0 \<le> r) xs \<Longrightarrow> x \<in> set xs \<Longrightarrow> (x :: rat) \<le> sum_list xs"
proof (induction xs)
  case Nil
  then show ?case by simp
next
  case (Cons y ys)
  moreover have "0 \<le> sum_list ys" using Cons.prems(1) by (intro sum_list_nonneg) (auto simp: list_all_iff)
  ultimately show ?case by auto
qed

text \<open>
  An allotment built from valid portions has one ratio per portion, all between 0
  and 1 and summing to at most 1; with a \<open>remaining\<close> among the portions they sum to exactly 1.
\<close>

lemma NewAllotment_ratios:
  assumes "NewAllotment ps = Inr a" and "list_all valid_portion ps"
  shows "length a = length ps \<and> list_all (\<lambda>r. 0 \<le> r \<and> r \<le> 1) a \<and> sum_list a \<le> 1 \<and>
         ((\<exists>p \<in> set ps. Remaining p) \<longrightarrow> sum_list a = 1)"
proof -
  obtain al t ri where loop: "NewAllotment_loop ps 0 ([], 0, None) = Inr (al, t, ri)" and t: "t \<le> 1"
    and a: "a = (case ri of None \<Rightarrow> al | Some i \<Rightarrow> al[i := 1 - t])"
    using assms(1) by (auto simp: NewAllotment_def result_simps split: if_splits)
  have inv: "length al = length ps" "sum_list al = t" "list_all (\<lambda>r. 0 \<le> r) al"
    "\<forall>k. ri = Some k \<longrightarrow> k < length al \<and> al ! k = 0" "ri \<noteq> None \<longleftrightarrow> (\<exists>p \<in> set ps. Remaining p)"
    using NewAllotment_loop_inv [OF loop] assms(2) by auto
  have nn: "list_all (\<lambda>r. 0 \<le> r) a"
    using inv(3) t by (auto simp: a list_all_iff dest: set_update_subset_insert [THEN subsetD] split: option.split)
  have sum: "sum_list a = (if ri = None then t else 1)" and len: "length a = length ps"
    using inv by (auto simp: a sum_list_update_zero split: option.split)
  have "list_all (\<lambda>r. 0 \<le> r \<and> r \<le> 1) a"
    unfolding list_all_iff
  proof (intro ballI conjI)
    fix r assume r: "r \<in> set a"
    show "0 \<le> r" using nn r by (simp add: list_all_iff)
    show "r \<le> 1" using elem_le_sum [OF nn r] sum t by (simp split: if_splits)
  qed
  with sum len t inv(5) show ?thesis by auto
qed

end
