(* ===== verification/Funding.thy ===== *)
theory Funding
  imports Accounts_Assets
begin

text \<open>
  Amounts and fundings: \<open>internal/machine/monetary.go\<close>, \<open>internal/machine/number.go\<close> and
  \<open>internal/machine/funding.go\<close>. A \<open>*MonetaryInt\<close> is an unbounded integer behind a pointer that
  may be nil: an \<open>int option\<close> with \<open>None\<close> for nil. A funding is an asset with a list of parts,
  each an amount taken from an account.
\<close>

section \<open>Monetary integers\<close>

type_synonym monetary_int = "int option"

text \<open>\<open>Add\<close> and \<open>Sub\<close> read nil as zero, \<open>Neg\<close> dereferences it.\<close>

definition mi_OrZero :: "monetary_int \<Rightarrow> int" where
  "mi_OrZero a = (case a of None \<Rightarrow> 0 | Some x \<Rightarrow> x)"

definition mi_Add :: "monetary_int \<Rightarrow> monetary_int \<Rightarrow> monetary_int" where
  "mi_Add a b = Some (mi_OrZero a + mi_OrZero b)"

definition mi_Sub :: "monetary_int \<Rightarrow> monetary_int \<Rightarrow> monetary_int" where
  "mi_Sub a b = Some (mi_OrZero a - mi_OrZero b)"

definition mi_Neg :: "monetary_int \<Rightarrow> ('e, monetary_int) result" where
  "mi_Neg a = (case a of None \<Rightarrow> panic | Some x \<Rightarrow> Inr (Some (- x)))"

text \<open>
  \<open>big.Int.Cmp\<close> compares the pointers first, so two nils are equal; otherwise it dereferences both.
\<close>

definition mi_Cmp :: "monetary_int \<Rightarrow> monetary_int \<Rightarrow> ('e, int) result" where
  "mi_Cmp a b =
     (case (a, b) of
        (None, None) \<Rightarrow> Inr 0
      | (Some x, Some y) \<Rightarrow> Inr (if x < y then -1 else if x = y then 0 else 1)
      | _ \<Rightarrow> panic)"

definition mi_Lte :: "monetary_int \<Rightarrow> monetary_int \<Rightarrow> ('e, bool) result" where
  "mi_Lte a b = bindr (mi_Cmp a b) (\<lambda>c. Inr (c \<le> 0))"

definition mi_Gte :: "monetary_int \<Rightarrow> monetary_int \<Rightarrow> ('e, bool) result" where
  "mi_Gte a b = bindr (mi_Cmp a b) (\<lambda>c. Inr (c \<ge> 0))"

definition mi_Lt :: "monetary_int \<Rightarrow> monetary_int \<Rightarrow> ('e, bool) result" where
  "mi_Lt a b = bindr (mi_Cmp a b) (\<lambda>c. Inr (c < 0))"

definition mi_Ltz :: "monetary_int \<Rightarrow> ('e, bool) result" where
  "mi_Ltz a = bindr (mi_Cmp a (Some 0)) (\<lambda>c. Inr (c < 0))"

definition mi_Gt :: "monetary_int \<Rightarrow> monetary_int \<Rightarrow> ('e, bool) result" where
  "mi_Gt a b = bindr (mi_Cmp a b) (\<lambda>c. Inr (c > 0))"

definition mi_Eq :: "monetary_int \<Rightarrow> monetary_int \<Rightarrow> ('e, bool) result" where
  "mi_Eq a b = bindr (mi_Cmp a b) (\<lambda>c. Inr (c = 0))"

definition mi_String :: "monetary_int \<Rightarrow> string" where
  "mi_String a = (case a of None \<Rightarrow> ''0'' | Some x \<Rightarrow> show_int x)"

lemmas mi_defs = mi_OrZero_def mi_Add_def mi_Sub_def mi_Neg_def mi_Cmp_def mi_Lte_def mi_Gte_def
  mi_Lt_def mi_Ltz_def mi_Gt_def mi_Eq_def

text \<open>\<open>ParseMonetaryInt\<close> and \<open>ParseNumber\<close>.\<close>

datatype monetary_error = InvalidMonetaryInt | AssetError value_error | NilAmount | NegativeAmount

definition ParseMonetaryInt :: "string \<Rightarrow> (monetary_error, monetary_int) result" where
  "ParseMonetaryInt s = (case parse_int s of None \<Rightarrow> raise InvalidMonetaryInt | Some i \<Rightarrow> Inr (Some i))"

record monetary =
  mon_Asset :: string
  mon_Amount :: monetary_int

definition ParseMonetary :: "monetary \<Rightarrow> (monetary_error, unit) result" where
  "ParseMonetary mon =
     (if \<not> assets_IsValid (mon_Asset mon) then raise (AssetError (PatternMismatch (mon_Asset mon)))
      else case mon_Amount mon of
        None \<Rightarrow> raise NilAmount
      | Some a \<Rightarrow> if a < 0 then raise NegativeAmount else Inr ())"

section \<open>Fundings\<close>

record funding_part =
  part_Account :: string
  part_Amount :: monetary_int

record funding =
  fund_Asset :: string
  fund_Parts :: "funding_part list"

text \<open>\<open>FundingPart.Equals\<close> and \<open>Funding.Equals\<close>: same asset, same parts in the same order.\<close>

definition FundingPartEquals :: "funding_part \<Rightarrow> funding_part \<Rightarrow> bool" where
  "FundingPartEquals lhs rhs \<longleftrightarrow>
     part_Account lhs = part_Account rhs \<and> part_Amount lhs = part_Amount rhs"

definition FundingEquals :: "funding \<Rightarrow> funding \<Rightarrow> bool" where
  "FundingEquals lhs rhs =
     (if fund_Asset lhs \<noteq> fund_Asset rhs then False
      else if length (fund_Parts lhs) \<noteq> length (fund_Parts rhs) then False
      else list_all2 FundingPartEquals (fund_Parts lhs) (fund_Parts rhs))"

datatype funding_error = InsufficientFund string | ConcatDifferentAssets

text \<open>
  The loop \<open>Take\<close> and \<open>TakeMax\<close> share: while something remains to withdraw, a part that has
  more is cut, the excess goes to the remainder; the parts after the loop go to the remainder.
  It returns the parts taken, the remainder and what is still to withdraw.
\<close>

fun take_loop ::
    "int \<Rightarrow> funding_part list \<Rightarrow>
     (funding_error, funding_part list \<times> funding_part list \<times> int) result" where
  "take_loop w [] = Inr ([], [], w)"
| "take_loop w (p # ps) =
     (if w > 0 then
        (case part_Amount p of
           None \<Rightarrow> panic
         | Some amt \<Rightarrow>
             if amt > w then
               bindr (take_loop 0 ps) (\<lambda>(res, rest, w').
                 Inr (p\<lparr>part_Amount := Some w\<rparr> # res, p\<lparr>part_Amount := Some (amt - w)\<rparr> # rest, w'))
             else
               bindr (take_loop (w - amt) ps) (\<lambda>(res, rest, w'). Inr (p # res, rest, w')))
      else Inr ([], p # ps, w))"

text \<open>The accounts of the message: their printed form \<open>@account\<close>, joined by bars.\<close>

definition funding_accounts :: "funding \<Rightarrow> string" where
  "funding_accounts f = join_with CHR ''|'' (map (\<lambda>p. CHR ''@'' # part_Account p) (fund_Parts f))"

fun Take :: "funding \<Rightarrow> monetary_int \<Rightarrow> (funding_error, funding \<times> funding) result" where
  "Take f None = panic"
| "Take f (Some amount) =
     (let zero = (if amount = 0 \<and> fund_Parts f \<noteq> []
                  then [\<lparr>part_Account = part_Account (hd (fund_Parts f)), part_Amount = Some amount\<rparr>]
                  else [])
      in bindr (take_loop amount (fund_Parts f)) (\<lambda>(res, rest, remaining).
        if remaining \<noteq> 0
        then raise (InsufficientFund
               (''account(s) '' @ funding_accounts f @ '' had/have insufficient funds''))
        else Inr (\<lparr>fund_Asset = fund_Asset f, fund_Parts = zero @ res\<rparr>,
                  \<lparr>fund_Asset = fund_Asset f, fund_Parts = rest\<rparr>)))"

fun TakeMax :: "funding \<Rightarrow> monetary_int \<Rightarrow> (funding_error, funding \<times> funding) result" where
  "TakeMax f None = panic"
| "TakeMax f (Some amount) =
     bindr (take_loop amount (fund_Parts f)) (\<lambda>(res, rest, remaining).
       Inr (\<lparr>fund_Asset = fund_Asset f, fund_Parts = res\<rparr>,
            \<lparr>fund_Asset = fund_Asset f, fund_Parts = rest\<rparr>))"

text \<open>
  \<open>Concat\<close> merges the last part with the first of the other funding when both are of one
  account. The code writes through the slice of the receiver; its only caller passes a slice
  that no other value shares, so the update is a new value here.
\<close>

definition concat_parts :: "funding_part list \<Rightarrow> funding_part list \<Rightarrow> funding_part list" where
  "concat_parts ps qs =
     (if ps \<noteq> [] \<and> qs \<noteq> [] \<and> part_Account (last ps) = part_Account (hd qs)
      then butlast ps @ (last ps)\<lparr>part_Amount := mi_Add (part_Amount (last ps)) (part_Amount (hd qs))\<rparr> # tl qs
      else ps @ qs)"

definition Concat :: "funding \<Rightarrow> funding \<Rightarrow> (funding_error, funding) result" where
  "Concat f other =
     (if fund_Asset f \<noteq> fund_Asset other then raise ConcatDifferentAssets
      else Inr \<lparr>fund_Asset = fund_Asset f,
                fund_Parts = concat_parts (fund_Parts f) (fund_Parts other)\<rparr>)"

fun total_loop :: "monetary_int \<Rightarrow> funding_part list \<Rightarrow> monetary_int" where
  "total_loop t [] = t"
| "total_loop t (p # ps) = total_loop (mi_Add t (part_Amount p)) ps"

definition Total :: "funding \<Rightarrow> monetary_int" where
  "Total f = total_loop (Some 0) (fund_Parts f)"

definition Reverse :: "funding \<Rightarrow> funding" where
  "Reverse f = \<lparr>fund_Asset = fund_Asset f, fund_Parts = rev (fund_Parts f)\<rparr>"

section \<open>What a funding holds\<close>

text \<open>
  The amount a list of parts holds from the accounts that satisfy a predicate. With \<open>P\<close> true of
  every account it is the total; with \<open>P\<close> true of one account it is what the funding took from it.
\<close>

fun held :: "(string \<Rightarrow> bool) \<Rightarrow> funding_part list \<Rightarrow> int" where
  "held P [] = 0"
| "held P (p # ps) = (if P (part_Account p) then mi_OrZero (part_Amount p) else 0) + held P ps"

definition total_held :: "funding \<Rightarrow> int" where
  "total_held f = held (\<lambda>_. True) (fund_Parts f)"

text \<open>No part is nil or negative.\<close>

definition mi_nonneg :: "monetary_int \<Rightarrow> bool" where
  "mi_nonneg a = (case a of None \<Rightarrow> False | Some x \<Rightarrow> 0 \<le> x)"

definition parts_nonneg :: "funding_part list \<Rightarrow> bool" where
  "parts_nonneg ps \<longleftrightarrow> list_all (\<lambda>p. mi_nonneg (part_Amount p)) ps"

lemma mi_OrZero_simps [simp]: "mi_OrZero (Some x) = x" "mi_OrZero None = 0"
  by (simp_all add: mi_OrZero_def)

lemma mi_nonneg_simps [simp]: "mi_nonneg (Some x) \<longleftrightarrow> 0 \<le> x" "\<not> mi_nonneg None"
  by (simp_all add: mi_nonneg_def)

lemma mi_nonneg_iff: "mi_nonneg a \<longleftrightarrow> (\<exists>x. a = Some x \<and> 0 \<le> x)"
  by (cases a) auto

lemma mi_nonneg_OrZero: "mi_nonneg a \<Longrightarrow> 0 \<le> mi_OrZero a"
  by (auto simp: mi_nonneg_iff)

lemma mi_Add_simps [simp]:
  "mi_OrZero (mi_Add a b) = mi_OrZero a + mi_OrZero b"
  "mi_nonneg (mi_Add a b) \<longleftrightarrow> 0 \<le> mi_OrZero a + mi_OrZero b"
  by (simp_all add: mi_Add_def)

lemma held_append [simp, total_simps]: "held P (ps @ qs) = held P ps + held P qs"
  by (induction ps) auto

lemma held_rev [simp, total_simps]: "held P (rev ps) = held P ps"
  by (induction ps) auto

lemma parts_nonneg_simps [simp]:
  "parts_nonneg []"
  "parts_nonneg (p # ps) \<longleftrightarrow> mi_nonneg (part_Amount p) \<and> parts_nonneg ps"
  "parts_nonneg (ps @ qs) \<longleftrightarrow> parts_nonneg ps \<and> parts_nonneg qs"
  "parts_nonneg (rev ps) \<longleftrightarrow> parts_nonneg ps"
  by (simp_all add: parts_nonneg_def)

lemma held_nonneg: "parts_nonneg ps \<Longrightarrow> 0 \<le> held P ps"
  by (induction ps) (auto dest: mi_nonneg_OrZero)

lemma total_loop_held: "total_loop (Some t) ps = Some (t + held (\<lambda>_. True) ps)"
  by (induction ps arbitrary: t) (auto simp: mi_Add_def)

lemma Total_held [total_simps]: "Total f = Some (total_held f)"
  by (simp add: Total_def total_held_def total_loop_held)

lemma take_loop_0 [simp]: "take_loop 0 ps = Inr ([], ps, 0)"
  by (cases ps) auto

text \<open>
  One induction gives all the facts of the loop: it conserves, it withdraws what it says, it
  keeps parts non-negative, and it leaves something to withdraw only when nothing remains.
\<close>

lemma take_loop_facts:
  "take_loop w ps = Inr (res, rest, w') \<Longrightarrow>
     held P res + held P rest = held P ps \<and> w' = w - held (\<lambda>_. True) res \<and>
     (parts_nonneg ps \<longrightarrow> parts_nonneg res \<and> parts_nonneg rest \<and>
        (0 \<le> w \<longrightarrow> 0 \<le> w' \<and> (0 < w' \<longrightarrow> rest = [])))"
proof (induction w ps arbitrary: res rest w' rule: take_loop.induct)
  case (1 w)
  then show ?case by auto
next
  case (2 w p ps)
  show ?case
  proof (cases "w > 0")
    case False
    with 2 show ?thesis by auto
  next
    case True
    with 2(3) obtain amt where amt: "part_Amount p = Some amt"
      by (cases "part_Amount p") auto
    show ?thesis
    proof (cases "amt > w")
      case cut: True
      with 2(3) True amt show ?thesis by auto
    next
      case all: False
      then obtain rs where r: "take_loop (w - amt) ps = Inr (rs, rest, w')" and res: "res = p # rs"
        using 2(3) True amt by (auto simp: result_simps)
      from 2(2) [OF True amt all r] True all amt res show ?thesis by auto
    qed
  qed
qed

lemma take_loop_held: "take_loop w ps = Inr (res, rest, w') \<Longrightarrow> held P res + held P rest = held P ps"
  using take_loop_facts by blast

lemma take_loop_remaining: "take_loop w ps = Inr (res, rest, w') \<Longrightarrow> w' = w - held (\<lambda>_. True) res"
  using take_loop_facts by blast

lemma take_loop_nonneg:
  "take_loop w ps = Inr (res, rest, w') \<Longrightarrow> parts_nonneg ps \<Longrightarrow> parts_nonneg res \<and> parts_nonneg rest"
  using take_loop_facts by blast

lemma take_loop_rest:
  "take_loop w ps = Inr (res, rest, w') \<Longrightarrow> 0 \<le> w \<Longrightarrow> parts_nonneg ps \<Longrightarrow>
     0 \<le> w' \<and> (0 < w' \<longrightarrow> rest = [])"
  using take_loop_facts by blast

lemma take_loop_ok: "parts_nonneg ps \<Longrightarrow> \<exists>r. take_loop w ps = Inr r"
proof (induction ps arbitrary: w)
  case Nil
  then show ?case by simp
next
  case (Cons p ps)
  then obtain amt where "part_Amount p = Some amt" by (auto simp: mi_nonneg_iff)
  moreover obtain a b c where "take_loop (w - amt) ps = Inr (a, b, c)"
    using Cons by (metis parts_nonneg_simps(2) prod_cases3)
  ultimately show ?case by auto
qed

lemma take_loop_not_Raised: "take_loop w ps = Inl e \<Longrightarrow> e = Panic"
  by (induction w ps rule: take_loop.induct) (auto simp: result_simps panic_def split: if_splits option.splits)

lemma take_loop_total:
  assumes "take_loop w ps = Inr (res, rest, w')" "0 \<le> w" "parts_nonneg ps"
  shows "held (\<lambda>_. True) res = min w (held (\<lambda>_. True) ps)"
proof -
  note facts = take_loop_held [OF assms(1), of "\<lambda>_. True"] take_loop_remaining [OF assms(1)]
    take_loop_rest [OF assms]
  have "0 \<le> held (\<lambda>_. True) rest"
    using take_loop_nonneg [OF assms(1,3)] held_nonneg by blast
  with facts show ?thesis by (cases "w' = 0") auto
qed

text \<open>What a successful \<open>Take\<close> says of its loop.\<close>

lemma Take_loop:
  assumes "Take f amount = Inr (res, rest)"
  obtains a rs where "amount = Some a" "take_loop a (fund_Parts f) = Inr (rs, fund_Parts rest, 0)"
    "fund_Asset res = fund_Asset f" "fund_Asset rest = fund_Asset f"
    "fund_Parts res = rs \<or> (\<exists>q. fund_Parts res = \<lparr>part_Account = q, part_Amount = Some 0\<rparr> # rs)"
  using assms by (cases amount) (auto simp: Let_def result_simps split: if_splits)

lemma Take_Inr:
  assumes "Take f amount = Inr (res, rest)"
  shows "held P (fund_Parts res) + held P (fund_Parts rest) = held P (fund_Parts f)"
    and "amount = Some (total_held res)"
    and "fund_Asset res = fund_Asset f" "fund_Asset rest = fund_Asset f"
    and "parts_nonneg (fund_Parts f) \<Longrightarrow> parts_nonneg (fund_Parts res)"
    and "parts_nonneg (fund_Parts f) \<Longrightarrow> parts_nonneg (fund_Parts rest)"
proof -
  from assms obtain a rs where a: "amount = Some a"
    and loop: "take_loop a (fund_Parts f) = Inr (rs, fund_Parts rest, 0)"
    and assets: "fund_Asset res = fund_Asset f" "fund_Asset rest = fund_Asset f"
    and res: "fund_Parts res = rs \<or>
      (\<exists>q. fund_Parts res = \<lparr>part_Account = q, part_Amount = Some 0\<rparr> # rs)"
    by (rule Take_loop)
  from res have h: "held Q (fund_Parts res) = held Q rs" for Q by auto
  show "held P (fund_Parts res) + held P (fund_Parts rest) = held P (fund_Parts f)"
    using take_loop_held [OF loop] h by simp
  show "amount = Some (total_held res)"
    using take_loop_remaining [OF loop] a h by (simp add: total_held_def)
  show "fund_Asset res = fund_Asset f" "fund_Asset rest = fund_Asset f"
    by (fact assets)+
  show "parts_nonneg (fund_Parts f) \<Longrightarrow> parts_nonneg (fund_Parts res)"
    using take_loop_nonneg [OF loop] res by auto
  show "parts_nonneg (fund_Parts f) \<Longrightarrow> parts_nonneg (fund_Parts rest)"
    using take_loop_nonneg [OF loop] by auto
qed

lemma Take_succeeds_iff:
  assumes "parts_nonneg (fund_Parts f)" "0 \<le> amount"
  shows "(\<exists>r. Take f (Some amount) = Inr r) \<longleftrightarrow> amount \<le> total_held f"
proof -
  obtain rs rm w where loop:
    "take_loop amount (fund_Parts f) = Inr (rs, rm, w)"
    using take_loop_ok [OF assms(1)] by (metis prod_cases3)
  have "(\<exists>r. Take f (Some amount) = Inr r) \<longleftrightarrow> w = 0"
    using loop by (auto simp: Let_def)
  also have "\<dots> \<longleftrightarrow> held (\<lambda>_. True) rs = amount"
    using take_loop_remaining [OF loop] by auto
  also have "\<dots> \<longleftrightarrow> amount \<le> total_held f"
    using take_loop_total [OF loop assms(2,1)] by (auto simp: total_held_def)
  finally show ?thesis .
qed

lemma Take_no_panic:
  assumes "parts_nonneg (fund_Parts f)"
  shows "Take f (Some amount) \<noteq> Inl Panic"
proof -
  obtain r where "take_loop amount (fund_Parts f) = Inr r"
    using take_loop_ok [OF assms] by metis
  then show ?thesis by (auto simp: Let_def split: prod.splits)
qed

lemma Take_Raised:
  assumes "Take f amount = Inl (Raised e)"
  shows "\<exists>msg. e = InsufficientFund msg"
  using assms by (cases amount)
    (auto simp: Let_def result_simps dest: take_loop_not_Raised split: if_splits prod.splits)

lemma TakeMax_eq:
  assumes "TakeMax f amount = Inr (res, rest)"
  shows "held P (fund_Parts res) + held P (fund_Parts rest) = held P (fund_Parts f)"
    and "fund_Asset res = fund_Asset f" "fund_Asset rest = fund_Asset f"
    and "parts_nonneg (fund_Parts f) \<Longrightarrow> parts_nonneg (fund_Parts res)"
    and "parts_nonneg (fund_Parts f) \<Longrightarrow> parts_nonneg (fund_Parts rest)"
    and "parts_nonneg (fund_Parts f) \<Longrightarrow> 0 \<le> mi_OrZero amount \<Longrightarrow>
           total_held res = min (mi_OrZero amount) (total_held f)"
proof -
  from assms obtain a w where a: "amount = Some a"
    and loop: "take_loop a (fund_Parts f) = Inr (fund_Parts res, fund_Parts rest, w)"
    and assets: "fund_Asset res = fund_Asset f" "fund_Asset rest = fund_Asset f"
    by (cases amount) (auto simp: result_simps)
  show "held P (fund_Parts res) + held P (fund_Parts rest) = held P (fund_Parts f)"
    using take_loop_held [OF loop] .
  show "fund_Asset res = fund_Asset f" "fund_Asset rest = fund_Asset f"
    by (fact assets)+
  show "parts_nonneg (fund_Parts f) \<Longrightarrow> parts_nonneg (fund_Parts res)"
    "parts_nonneg (fund_Parts f) \<Longrightarrow> parts_nonneg (fund_Parts rest)"
    using take_loop_nonneg [OF loop] by auto
  show "parts_nonneg (fund_Parts f) \<Longrightarrow> 0 \<le> mi_OrZero amount \<Longrightarrow>
      total_held res = min (mi_OrZero amount) (total_held f)"
    using take_loop_total [OF loop] a by (auto simp: total_held_def)
qed

lemma TakeMax_ok:
  assumes "parts_nonneg (fund_Parts f)"
  shows "\<exists>res rest. TakeMax f (Some amount) = Inr (res, rest)"
proof -
  obtain r where "take_loop amount (fund_Parts f) = Inr r"
    using take_loop_ok [OF assms] by metis
  then show ?thesis by (cases r) auto
qed

lemma TakeMax_not_Raised: "TakeMax f amount \<noteq> Inl (Raised e)"
  by (cases amount) (auto simp: result_simps dest: take_loop_not_Raised)

lemma held_concat_parts [simp, total_simps]: "held P (concat_parts ps qs) = held P ps + held P qs"
proof (cases "ps \<noteq> [] \<and> qs \<noteq> [] \<and> part_Account (last ps) = part_Account (hd qs)")
  case True
  obtain ps' p where ps: "ps = ps' @ [p]" using True rev_exhaust by blast
  obtain q qs' where qs: "qs = q # qs'" using True list.exhaust by blast
  from True show ?thesis by (simp add: concat_parts_def ps qs)
next
  case False
  then show ?thesis by (auto simp: concat_parts_def)
qed

lemma parts_nonneg_concat_parts:
  assumes "parts_nonneg ps" "parts_nonneg qs"
  shows "parts_nonneg (concat_parts ps qs)"
proof (cases "ps \<noteq> [] \<and> qs \<noteq> []")
  case True
  then have "parts_nonneg (butlast ps @ [last ps])" "parts_nonneg (hd qs # tl qs)"
    using assms by simp_all
  then have "parts_nonneg (butlast ps)" "mi_nonneg (part_Amount (last ps))"
    "mi_nonneg (part_Amount (hd qs))" "parts_nonneg (tl qs)"
    by simp_all
  with assms show ?thesis by (auto simp: concat_parts_def dest!: mi_nonneg_OrZero)
next
  case False
  then show ?thesis using assms by (auto simp: concat_parts_def)
qed

lemma Concat_Inr:
  "Concat f g = Inr h \<longleftrightarrow> fund_Asset f = fund_Asset g \<and>
     h = \<lparr>fund_Asset = fund_Asset f, fund_Parts = concat_parts (fund_Parts f) (fund_Parts g)\<rparr>"
  by (auto simp: Concat_def)

section \<open>Claims about fundings\<close>

text \<open>
  \<open>Take\<close> splits a funding and loses nothing: what is taken plus what remains is, account
  by account, what the funding held; the taken funding totals exactly the amount asked for, and
  no part of either becomes negative.
\<close>

lemma Take_conserves:
  assumes "Take f amount = Inr (res, rest)"
  shows "held P (fund_Parts res) + held P (fund_Parts rest) = held P (fund_Parts f) \<and>
         Total res = amount \<and>
         (parts_nonneg (fund_Parts f) \<longrightarrow>
            parts_nonneg (fund_Parts res) \<and> parts_nonneg (fund_Parts rest))"
  using Take_Inr [OF assms] by (simp add: Total_held)

text \<open>
  On a funding without negative parts, taking a non-negative amount succeeds exactly
  when the funding holds it; otherwise the insufficient-funds error is returned.
\<close>

lemma Take_sufficient:
  assumes "parts_nonneg (fund_Parts f)" "0 \<le> amount"
  shows "(\<exists>r. Take f (Some amount) = Inr r) = (amount \<le> mi_OrZero (Total f)) \<and>
         (mi_OrZero (Total f) < amount \<longrightarrow>
            (\<exists>msg. Take f (Some amount) = raise (InsufficientFund msg)))"
proof -
  have "\<exists>msg. Take f (Some amount) = raise (InsufficientFund msg)"
    if "\<not> (\<exists>r. Take f (Some amount) = Inr r)"
  proof (cases "Take f (Some amount)")
    case (Inl e)
    then show ?thesis
      using Take_no_panic [OF assms(1), of amount] Take_Raised [of f "Some amount"]
      by (cases e) (auto simp: raise_def simp del: Take.simps)
  qed (use that in simp)
  then show ?thesis using Take_succeeds_iff [OF assms]
    by (auto simp: Total_held simp del: Take.simps)
qed

text \<open>
  \<open>TakeMax\<close> never fails on a funding without negative parts: it takes the smaller of the
  amount and what is there, and conserves the rest account by account.
\<close>

lemma TakeMax_takes_min:
  assumes "parts_nonneg (fund_Parts f)" "0 \<le> amount"
  shows "\<exists>res rest. TakeMax f (Some amount) = Inr (res, rest) \<and>
           Total res = Some (min amount (mi_OrZero (Total f))) \<and>
           held P (fund_Parts res) + held P (fund_Parts rest) = held P (fund_Parts f)"
  using TakeMax_ok [OF assms(1)] TakeMax_eq assms(2,1)
  by (metis Total_held mi_OrZero_simps(1))

text \<open>
  Assembling conserves: concatenating two fundings of one asset holds, account by
  account, the sum of the two, whether or not the parts at the seam are merged; fundings of
  different assets are refused.
\<close>

lemma Concat_conserves:
  "if fund_Asset f = fund_Asset g
   then (\<exists>h. Concat f g = Inr h \<and> fund_Asset h = fund_Asset f \<and>
             held P (fund_Parts h) = held P (fund_Parts f) + held P (fund_Parts g))
   else Concat f g = raise ConcatDifferentAssets"
  by (simp add: Concat_def)

end
