(* ===== verification/Machine_Value.thy ===== *)
theory Machine_Value
  imports Funding Portions
begin

text \<open>
  The values of the Numscript machine: \<open>internal/machine/value.go\<close> and their textual form,
  \<open>internal/machine/json.go\<close>. The \<open>Value\<close> interface is a datatype with one constructor per
  Go type that implements it; \<open>GetType\<close> is the method of that name.
\<close>

section \<open>Types\<close>

datatype type =
    TypeAccount
  | TypeAsset
  | TypeNumber
  | TypeString
  | TypeMonetary
  | TypePortion
  | TypeAllotment
  | TypeAmount
  | TypeFunding

text \<open>The byte behind each constant (\<open>iota + 1\<close>).\<close>

fun type_byte :: "type \<Rightarrow> 8 word" where
  "type_byte TypeAccount = 1"
| "type_byte TypeAsset = 2"
| "type_byte TypeNumber = 3"
| "type_byte TypeString = 4"
| "type_byte TypeMonetary = 5"
| "type_byte TypePortion = 6"
| "type_byte TypeAllotment = 7"
| "type_byte TypeAmount = 8"
| "type_byte TypeFunding = 9"

lemma type_byte_inject: "type_byte t = type_byte u \<longleftrightarrow> t = u"
  by (cases t; cases u; simp)

text \<open>Types are ordered as their bytes are.\<close>

instantiation type :: linorder
begin

definition less_eq_type :: "type \<Rightarrow> type \<Rightarrow> bool" where
  "t \<le> u \<longleftrightarrow> type_byte t \<le> type_byte u"

definition less_type :: "type \<Rightarrow> type \<Rightarrow> bool" where
  "t < u \<longleftrightarrow> type_byte t < type_byte u"

instance
  by standard
    (auto simp: less_eq_type_def less_type_def type_byte_inject [symmetric] less_le)

end

text \<open>\<open>Type.String\<close>; the switch has no case for \<open>TypeFunding\<close>.\<close>

fun TypeString_of :: "type \<Rightarrow> string" where
  "TypeString_of TypeAccount = ''account''"
| "TypeString_of TypeAsset = ''asset''"
| "TypeString_of TypeNumber = ''number''"
| "TypeString_of TypeString = ''string''"
| "TypeString_of TypeMonetary = ''monetary''"
| "TypeString_of TypePortion = ''portion''"
| "TypeString_of TypeAllotment = ''allotment''"
| "TypeString_of TypeAmount = ''amount''"
| "TypeString_of _ = ''invalid type''"

section \<open>Values\<close>

datatype val =
    VAccount string
  | VAsset string
  | VNumber monetary_int
  | VString string
  | VMonetary monetary
  | VPortion portion
  | VAllotment allotment
  | VFunding funding

fun GetType :: "val \<Rightarrow> type" where
  "GetType (VAccount _) = TypeAccount"
| "GetType (VAsset _) = TypeAsset"
| "GetType (VNumber _) = TypeNumber"
| "GetType (VString _) = TypeString"
| "GetType (VMonetary _) = TypeMonetary"
| "GetType (VPortion _) = TypePortion"
| "GetType (VAllotment _) = TypeAllotment"
| "GetType (VFunding _) = TypeFunding"

text \<open>
  \<open>ValueEquals\<close>: false on values of different Go types. Amounts are compared as integers; two
  nil amounts are equal (\<open>Cmp\<close> compares the pointers first), and a nil against an amount, where
  the code would panic, is a difference. Constants of a program are never nil.
\<close>

fun ValueEquals :: "val \<Rightarrow> val \<Rightarrow> bool" where
  "ValueEquals (VNumber m) (VNumber n) = (m = n)"
| "ValueEquals (VMonetary m) (VMonetary n) =
     (mon_Asset m = mon_Asset n \<and> mon_Amount m = mon_Amount n)"
| "ValueEquals (VAllotment a) (VAllotment b) = (length a = length b \<and> list_all2 (=) a b)"
| "ValueEquals (VPortion p) (VPortion q) = PortionEquals p q"
| "ValueEquals (VFunding f) (VFunding g) = FundingEquals f g"
| "ValueEquals (VAccount a) (VAccount b) = (a = b)"
| "ValueEquals (VAsset a) (VAsset b) = (a = b)"
| "ValueEquals (VString a) (VString b) = (a = b)"
| "ValueEquals _ _ = False"

text \<open>
  \<open>(MonetaryInt).GetType\<close> has a value receiver, so calling the method on a nil \<open>Number\<close>
  dereferences the pointer and panics. \<open>GetType\<close> is the method on every other value; where a value
  that may be a nil number is asked for its type, the model uses \<open>CallGetType\<close>.
\<close>

definition CallGetType :: "val \<Rightarrow> ('e, type) result" where
  "CallGetType v = (if v = VNumber None then panic else Inr (GetType v))"

section \<open>Textual form\<close>

datatype value_text_error =
    BadAccount value_error
  | BadAsset value_error
  | BadNumber
  | MonetaryTwoParts
  | BadMonetaryInt monetary_error
  | BadMonetary monetary_error
  | BadPortion portion_error
  | InvalidType type

text \<open>Errors of a callee are wrapped in the caller's.\<close>

definition map_error :: "('e \<Rightarrow> 'f) \<Rightarrow> ('e, 'a) result \<Rightarrow> ('f, 'a) result" where
  "map_error g m = (case m of Inr x \<Rightarrow> Inr x | Inl (Raised e) \<Rightarrow> raise (g e) | Inl Panic \<Rightarrow> panic)"

lemma map_error_Inr [result_simps, simp]: "map_error g m = Inr x \<longleftrightarrow> m = Inr x"
  by (auto simp: map_error_def split: sum.splits failure.splits)

lemma map_error_Panic [result_simps, simp]: "map_error g m = Inl Panic \<longleftrightarrow> m = Inl Panic"
  by (auto simp: map_error_def split: sum.splits failure.splits)

lemma map_error_simps [simp]:
  "map_error g (Inr x) = Inr x" "map_error g (raise e) = raise (g e)" "map_error g panic = panic"
  by (simp_all add: map_error_def raise_def panic_def)

text \<open>
  A number is read with \<open>json.Unmarshal\<close> into a \<open>*MonetaryInt\<close>: JSON white space around the
  text is skipped, \<open>null\<close> leaves the pointer nil, and of all other JSON texts only the integer
  literals (no leading zero, no plus sign) are accepted by \<open>big.Int.UnmarshalJSON\<close>.
\<close>

definition json_space :: "char \<Rightarrow> bool" where
  "json_space c \<longleftrightarrow> (of_char c :: nat) \<in> {9, 10, 13, 32}"

definition json_trim :: "string \<Rightarrow> string" where
  "json_trim s = rev (dropWhile json_space (rev (dropWhile json_space s)))"

definition json_natural :: "string \<Rightarrow> bool" where
  "json_natural s \<longleftrightarrow> all_digits s \<and> (hd s = CHR ''0'' \<longrightarrow> length s = 1)"

definition UnmarshalNumber :: "string \<Rightarrow> monetary_int option" where
  "UnmarshalNumber data =
     (let s = json_trim data in
      if s = ''null'' then Some None
      else if s \<noteq> [] \<and> hd s = CHR ''-'' \<and> json_natural (tl s)
        then Some (Some (- int (digits_value (tl s))))
      else if json_natural s then Some (Some (int (digits_value s)))
      else None)"

definition NewValueFromString :: "type \<Rightarrow> string \<Rightarrow> (value_text_error, val) result" where
  "NewValueFromString typ data =
     (case typ of
        TypeAccount \<Rightarrow>
          bindr (map_error BadAccount (ValidateAccountAddress data)) (\<lambda>_. Inr (VAccount data))
      | TypeAsset \<Rightarrow>
          bindr (map_error BadAsset (ValidateAsset data)) (\<lambda>_. Inr (VAsset data))
      | TypeNumber \<Rightarrow>
          (case UnmarshalNumber data of None \<Rightarrow> raise BadNumber | Some n \<Rightarrow> Inr (VNumber n))
      | TypeMonetary \<Rightarrow>
          (case split_first CHR '' '' data of
             (_, None) \<Rightarrow> raise MonetaryTwoParts
           | (asset, Some amount) \<Rightarrow>
               bindr (map_error BadMonetaryInt (ParseMonetaryInt amount)) (\<lambda>mi.
                 let mon = \<lparr>mon_Asset = asset, mon_Amount = mi\<rparr>
                 in bindr (map_error BadMonetary (ParseMonetary mon)) (\<lambda>_. Inr (VMonetary mon))))
      | TypePortion \<Rightarrow>
          bindr (map_error BadPortion (ParsePortionSpecific data)) (\<lambda>p. Inr (VPortion p))
      | TypeString \<Rightarrow> Inr (VString data)
      | _ \<Rightarrow> raise (InvalidType typ))"

fun NewStringFromValue :: "val \<Rightarrow> (value_text_error, string) result" where
  "NewStringFromValue (VAccount a) = Inr a"
| "NewStringFromValue (VAsset a) = Inr a"
| "NewStringFromValue (VString s) = Inr s"
| "NewStringFromValue (VNumber n) = (if n = None then panic else Inr (mi_String n))"
| "NewStringFromValue (VMonetary m) = Inr (mon_Asset m @ CHR '' '' # mi_String (mon_Amount m))"
| "NewStringFromValue (VPortion p) = Inr (PortionString p)"
| "NewStringFromValue v = raise (InvalidType (GetType v))"

section \<open>Properties\<close>

text \<open>
  The values a script can hold as variables: what \<open>NewValueFromString\<close> builds, with a number
  that is not the nil one JSON's \<open>null\<close> gives.
\<close>

fun storable :: "val \<Rightarrow> bool" where
  "storable (VAccount a) = ValidateAddress a"
| "storable (VAsset a) = assets_IsValid a"
| "storable (VNumber n) = (n \<noteq> None)"
| "storable (VString s) = True"
| "storable (VMonetary m) =
     (assets_IsValid (mon_Asset m) \<and> (\<exists>a. mon_Amount m = Some a \<and> 0 \<le> a))"
| "storable (VPortion p) = (\<not> Remaining p \<and> valid_portion p)"
| "storable _ = False"

lemma NewValueFromString_type:
  assumes "NewValueFromString t s = Inr v"
  shows "GetType v = t"
  using assms
  by (cases t) (auto simp: NewValueFromString_def result_simps Let_def
      split: option.splits prod.splits if_splits)

lemma NewValueFromString_no_panic [simp]: "NewValueFromString t s \<noteq> Inl Panic"
  by (cases t) (auto simp: NewValueFromString_def result_simps Let_def ValidateAccountAddress_def
      ValidateAsset_def ParseMonetaryInt_def ParseMonetary_def split: option.splits prod.splits)

lemma NewValueFromString_storable:
  assumes "NewValueFromString t s = Inr v" "v \<noteq> VNumber None"
  shows "storable v"
proof (cases t)
  case TypePortion
  with assms(1) obtain p where "ParsePortionSpecific s = Inr p" "v = VPortion p"
    by (auto simp: NewValueFromString_def result_simps)
  then show ?thesis using ParsePortionSpecific_Inr [of s p] by (auto simp: valid_portion_def)
qed (use assms in \<open>auto simp: NewValueFromString_def result_simps Let_def ValidateAccountAddress_def
    ValidateAsset_def ParseMonetaryInt_def ParseMonetary_def
    split: option.splits prod.splits if_splits\<close>)

lemma json_natural_show_nat: "json_natural (show_nat n)"
  using hd_show_nat [of n] show_nat_digits [of n] show_nat_0
  by (cases "n = 0") (auto simp: json_natural_def)

lemma dropWhile_json_space: "s \<noteq> [] \<Longrightarrow> \<not> json_space (hd s) \<Longrightarrow> dropWhile json_space s = s"
  by (cases s) auto

lemma json_trim_id:
  assumes "\<forall>c \<in> set s. \<not> json_space c"
  shows "json_trim s = s"
proof -
  have drop: "dropWhile json_space t = t" if "\<forall>c \<in> set t. \<not> json_space c" for t
    using that by (cases t) auto
  show ?thesis using assms by (simp add: json_trim_def drop)
qed

lemma UnmarshalNumber_show_int: "UnmarshalNumber (show_int i) = Some (Some i)"
proof -
  have digits: "all_digits (show_nat n)" for n by (rule show_nat_digits)
  have "\<forall>c \<in> set (show_int i). \<not> json_space c"
    using digits [of "nat i"] digits [of "nat (- i)"]
    by (auto simp: show_int_def all_digits_def list_all_iff json_space_def char_class_defs)
  then have trim: "json_trim (show_int i) = show_int i" by (rule json_trim_id)
  have nn: "show_nat n \<noteq> ''null''" for n
    using digits [of n] by (auto simp: all_digits_def char_class_defs)
  obtain c cs where c: "show_nat (nat i) = c # cs"
    using digits [of "nat i"] by (auto simp: all_digits_def neq_Nil_conv)
  show ?thesis
    using nn [of "nat i"] show_nat_hd [OF c] json_natural_show_nat [of "nat i"]
      json_natural_show_nat [of "nat (- i)"] c digits_value_show_nat [of "nat i"]
    unfolding UnmarshalNumber_def Let_def trim
    by (auto simp: show_int_def)
qed

text \<open>
  Every value that can be stored as metadata or given as a variable survives the
  trip through its text: printing it and reading it back at its own type gives the same value.
\<close>

lemma value_text_roundtrip:
  assumes "storable v"
  shows "\<exists>s. NewStringFromValue v = Inr s \<and> NewValueFromString (GetType v) s = Inr v"
proof (cases v)
  case (VNumber n)
  with assms show ?thesis
    by (auto simp: NewValueFromString_def mi_String_def UnmarshalNumber_show_int)
next
  case (VMonetary m)
  with assms obtain a where a: "mon_Amount m = Some a" "0 \<le> a" "assets_IsValid (mon_Asset m)"
    by auto
  then have "m = \<lparr>mon_Asset = mon_Asset m, mon_Amount = Some a\<rparr>" by simp
  with a VMonetary show ?thesis
    by (simp add: NewValueFromString_def split_first_Some asset_no_space mi_String_def
        ParseMonetaryInt_def parse_show_int ParseMonetary_def)
next
  case (VPortion p)
  with assms obtain r where r: "Specific p = Some r" "0 \<le> r" "r \<le> 1" "\<not> Remaining p"
    by (auto simp: valid_portion_def split: option.splits)
  then have p: "p = \<lparr>Remaining = False, Specific = Some r\<rparr>" by simp
  show ?thesis
    unfolding VPortion p by (simp add: NewValueFromString_def portion_roundtrip r)
qed (use assms in \<open>auto simp: NewValueFromString_def ValidateAccountAddress_def ValidateAsset_def\<close>)

text \<open>Equality of values is equality, on the values whose portions are well formed.\<close>

fun portions_ok :: "val \<Rightarrow> bool" where
  "portions_ok (VPortion p) = (if Remaining p then Specific p = None else Specific p \<noteq> None)"
| "portions_ok _ = True"

lemma FundingEquals_iff: "FundingEquals f g \<longleftrightarrow> f = g"
proof -
  have part: "FundingPartEquals p q \<longleftrightarrow> p = q" for p q :: funding_part
    by (cases p; cases q) (simp add: FundingPartEquals_def)
  have "FundingPartEquals = (=)" by (intro ext) (rule part)
  then show ?thesis by (auto simp: FundingEquals_def list.rel_eq)
qed

lemma ValueEquals_iff:
  assumes "portions_ok v" "portions_ok w"
  shows "ValueEquals v w \<longleftrightarrow> v = w"
  using assms
  by (cases v; cases w)
    (auto simp: FundingEquals_iff PortionEquals_def list.rel_eq split: if_splits)

text \<open>
  Comparing constants decides equality: two well-formed values are \<open>ValueEquals\<close> exactly
  when they are the same value, which is what lets the compiler share constants.
\<close>

lemma ValueEquals_decides:
  assumes "portions_ok v" "portions_ok w"
  shows "ValueEquals v w = (v = w)"
  using assms by (rule ValueEquals_iff)

end
