(* ===== verification/Vm_Program.thy ===== *)
theory Vm_Program
  imports Machine_Value
begin

text \<open>
  Programs of the Numscript machine: \<open>internal/machine/vm/program/\<close> and
  \<open>internal/machine/address.go\<close>. The instructions are the bytes of the code; an opcode is decoded
  from its byte and a resource address is a 16-bit word in little-endian order.
\<close>

section \<open>Opcodes\<close>

datatype opcode =
    OP_APUSH
  | OP_BUMP
  | OP_DELETE
  | OP_IADD
  | OP_ISUB
  | OP_PRINT
  | OP_FAIL
  | OP_ASSET
  | OP_MONETARY_NEW
  | OP_MONETARY_ADD
  | OP_MONETARY_SUB
  | OP_MAKE_ALLOTMENT
  | OP_TAKE_ALL
  | OP_TAKE_ALWAYS
  | OP_TAKE
  | OP_TAKE_MAX
  | OP_FUNDING_ASSEMBLE
  | OP_FUNDING_SUM
  | OP_FUNDING_REVERSE
  | OP_REPAY
  | OP_ALLOC
  | OP_SEND
  | OP_TX_META
  | OP_ACCOUNT_META
  | OP_SAVE

text \<open>The byte of each opcode (\<open>iota + 1\<close>).\<close>

fun opcode_byte :: "opcode \<Rightarrow> 8 word" where
  "opcode_byte OP_APUSH = 1"
| "opcode_byte OP_BUMP = 2"
| "opcode_byte OP_DELETE = 3"
| "opcode_byte OP_IADD = 4"
| "opcode_byte OP_ISUB = 5"
| "opcode_byte OP_PRINT = 6"
| "opcode_byte OP_FAIL = 7"
| "opcode_byte OP_ASSET = 8"
| "opcode_byte OP_MONETARY_NEW = 9"
| "opcode_byte OP_MONETARY_ADD = 10"
| "opcode_byte OP_MONETARY_SUB = 11"
| "opcode_byte OP_MAKE_ALLOTMENT = 12"
| "opcode_byte OP_TAKE_ALL = 13"
| "opcode_byte OP_TAKE_ALWAYS = 14"
| "opcode_byte OP_TAKE = 15"
| "opcode_byte OP_TAKE_MAX = 16"
| "opcode_byte OP_FUNDING_ASSEMBLE = 17"
| "opcode_byte OP_FUNDING_SUM = 18"
| "opcode_byte OP_FUNDING_REVERSE = 19"
| "opcode_byte OP_REPAY = 20"
| "opcode_byte OP_ALLOC = 21"
| "opcode_byte OP_SEND = 22"
| "opcode_byte OP_TX_META = 23"
| "opcode_byte OP_ACCOUNT_META = 24"
| "opcode_byte OP_SAVE = 25"

definition opcodes :: "opcode list" where
  "opcodes =
     [OP_APUSH,
      OP_BUMP,
      OP_DELETE,
      OP_IADD,
      OP_ISUB,
      OP_PRINT,
      OP_FAIL,
      OP_ASSET,
      OP_MONETARY_NEW,
      OP_MONETARY_ADD,
      OP_MONETARY_SUB,
      OP_MAKE_ALLOTMENT,
      OP_TAKE_ALL,
      OP_TAKE_ALWAYS,
      OP_TAKE,
      OP_TAKE_MAX,
      OP_FUNDING_ASSEMBLE,
      OP_FUNDING_SUM,
      OP_FUNDING_REVERSE,
      OP_REPAY,
      OP_ALLOC,
      OP_SEND,
      OP_TX_META,
      OP_ACCOUNT_META,
      OP_SAVE]"

definition decode_op :: "8 word \<Rightarrow> opcode option" where
  "decode_op b = find (\<lambda>op. opcode_byte op = b) opcodes"

definition OpcodeName :: "8 word \<Rightarrow> string" where
  "OpcodeName b =
     (case decode_op b of
        Some OP_APUSH \<Rightarrow> ''OP_APUSH''
      | Some OP_BUMP \<Rightarrow> ''OP_BUMP''
      | Some OP_DELETE \<Rightarrow> ''OP_DELETE''
      | Some OP_IADD \<Rightarrow> ''OP_IADD''
      | Some OP_ISUB \<Rightarrow> ''OP_ISUB''
      | Some OP_PRINT \<Rightarrow> ''OP_PRINT''
      | Some OP_FAIL \<Rightarrow> ''OP_FAIL''
      | Some OP_ASSET \<Rightarrow> ''OP_ASSET''
      | Some OP_MONETARY_NEW \<Rightarrow> ''OP_MONETARY_NEW''
      | Some OP_MONETARY_ADD \<Rightarrow> ''OP_MONETARY_ADD''
      | Some OP_MONETARY_SUB \<Rightarrow> ''OP_MONETARY_SUB''
      | Some OP_MAKE_ALLOTMENT \<Rightarrow> ''OP_MAKE_ALLOTMENT''
      | Some OP_TAKE_ALL \<Rightarrow> ''OP_TAKE_ALL''
      | Some OP_TAKE_ALWAYS \<Rightarrow> ''OP_TAKE_ALWAYS''
      | Some OP_TAKE \<Rightarrow> ''OP_TAKE''
      | Some OP_TAKE_MAX \<Rightarrow> ''OP_TAKE_MAX''
      | Some OP_FUNDING_ASSEMBLE \<Rightarrow> ''OP_FUNDING_ASSEMBLE''
      | Some OP_FUNDING_SUM \<Rightarrow> ''OP_FUNDING_SUM''
      | Some OP_FUNDING_REVERSE \<Rightarrow> ''OP_FUNDING_REVERSE''
      | Some OP_REPAY \<Rightarrow> ''OP_REPAY''
      | Some OP_ALLOC \<Rightarrow> ''OP_ALLOC''
      | Some OP_SEND \<Rightarrow> ''OP_SEND''
      | Some OP_TX_META \<Rightarrow> ''OP_TX_META''
      | Some OP_ACCOUNT_META \<Rightarrow> ''OP_ACCOUNT_META''
      | Some OP_SAVE \<Rightarrow> ''OP_SAVE''
      | None \<Rightarrow> ''Unknown opcode'')"

lemma opcode_byte_inject: "opcode_byte a = opcode_byte b \<longleftrightarrow> a = b"
  by (cases a; cases b; simp)

lemma decode_opcode_byte [simp]: "decode_op (opcode_byte op) = Some op"
  by (cases op; simp add: decode_op_def opcodes_def)

lemma decode_op_Some: "decode_op b = Some op \<longleftrightarrow> b = opcode_byte op"
proof
  assume "decode_op b = Some op"
  then show "b = opcode_byte op" by (auto simp: decode_op_def find_Some_iff)
qed simp

section \<open>Addresses\<close>

type_synonym address = "16 word"

text \<open>\<open>binary.LittleEndian.PutUint16\<close> and \<open>Uint16\<close>.\<close>

definition ToBytes :: "address \<Rightarrow> 8 word list" where
  "ToBytes a = [ucast a, ucast (drop_bit 8 a)]"

definition Uint16_LE :: "8 word \<Rightarrow> 8 word \<Rightarrow> address" where
  "Uint16_LE lo hi = or (ucast lo) (push_bit 8 (ucast hi))"

lemma Uint16_ToBytes: "Uint16_LE (ucast a) (ucast (drop_bit 8 a)) = a"
proof (rule bit_word_eqI)
  fix n
  assume "n < LENGTH(16)"
  then show "bit (Uint16_LE (ucast a) (ucast (drop_bit 8 a))) n = bit a n"
    by (auto simp: Uint16_LE_def bit_or_iff bit_push_bit_iff bit_ucast_iff bit_drop_bit_eq
        dest: bit_imp_le_length)
qed

section \<open>Resources\<close>

text \<open>The \<open>Resource\<close> interface: one constructor per type of \<open>resource.go\<close>.\<close>

datatype resource =
    Constant val
  | Variable type string
  | VariableAccountMetadata type string address string
  | VariableAccountBalance string address address
  | MonetaryRes address monetary_int

fun ResourceType :: "resource \<Rightarrow> type" where
  "ResourceType (Constant v) = GetType v"
| "ResourceType (Variable typ _) = typ"
| "ResourceType (VariableAccountMetadata typ _ _ _) = typ"
| "ResourceType (VariableAccountBalance _ _ _) = TypeMonetary"
| "ResourceType (MonetaryRes _ _) = TypeMonetary"

section \<open>Programs\<close>

text \<open>
  \<open>NeededBalances\<close> is a map from the addresses of accounts to a set of addresses of values that
  have an asset; the code iterates over both.
\<close>

record program =
  Instructions :: "8 word list"
  ProgResources :: "resource list"
  NeededBalances :: "(address \<times> address list) list"

datatype vars_error =
    InvalidVariable string value_text_error
  | UnsupportedVariable string type
  | WrongVariableType string type type
  | MissingVariable string
  | ExtraneousVariable string

text \<open>
  The two loops over the resources: the variables read so far and the given variables that are
  left. What is left at the end is an error that names one of them (the first of the iteration).
\<close>

fun ParseVariables_loop ::
    "resource list \<Rightarrow> (string \<times> val) list \<Rightarrow> (string \<times> val) list \<Rightarrow>
     (vars_error, (string \<times> val) list \<times> (string \<times> val) list) result" where
  "ParseVariables_loop [] vars variables = Inr (vars, variables)"
| "ParseVariables_loop (Variable typ name # rs) vars variables =
     (case map_of vars name of
        None \<Rightarrow> raise (MissingVariable name)
      | Some v \<Rightarrow>
          bindr (CallGetType v) (\<lambda>t.
            if t = typ then
              bindr
                (case v of
                   VAccount a \<Rightarrow>
                     map_error (\<lambda>e. InvalidVariable name (BadAccount e)) (ValidateAccountAddress a)
                 | VAsset a \<Rightarrow>
                     map_error (\<lambda>e. InvalidVariable name (BadAsset e)) (ValidateAsset a)
                 | VMonetary m \<Rightarrow>
                     map_error (\<lambda>e. InvalidVariable name (BadMonetary e)) (ParseMonetary m)
                 | VPortion p \<Rightarrow>
                     map_error (\<lambda>e. InvalidVariable name (BadPortion e)) (ValidatePortionSpecific p)
                 | VString _ \<Rightarrow> Inr ()
                 | VNumber _ \<Rightarrow> Inr ()
                 | _ \<Rightarrow> raise (UnsupportedVariable name t))
                (\<lambda>_. ParseVariables_loop rs (AList.delete name vars) (AList.update name v variables))
            else raise (WrongVariableType name typ t)))"
| "ParseVariables_loop (_ # rs) vars variables = ParseVariables_loop rs vars variables"

definition no_extraneous ::
    "(string \<times> 'a) list \<times> 'b \<Rightarrow> (vars_error, 'b) result" where
  "no_extraneous r =
     (case r of ([], variables) \<Rightarrow> Inr variables
              | ((name, _) # _, _) \<Rightarrow> raise (ExtraneousVariable name))"

definition ParseVariables ::
    "program \<Rightarrow> (string \<times> val) list \<Rightarrow> (vars_error, (string \<times> val) list) result" where
  "ParseVariables p vars = bindr (ParseVariables_loop (ProgResources p) vars []) no_extraneous"

fun ParseVariablesJSON_loop ::
    "resource list \<Rightarrow> (string \<times> string) list \<Rightarrow> (string \<times> val) list \<Rightarrow>
     (vars_error, (string \<times> string) list \<times> (string \<times> val) list) result" where
  "ParseVariablesJSON_loop [] vars variables = Inr (vars, variables)"
| "ParseVariablesJSON_loop (Variable typ name # rs) vars variables =
     (case map_of vars name of
        None \<Rightarrow> raise (MissingVariable name)
      | Some data \<Rightarrow>
          bindr (map_error (InvalidVariable name) (NewValueFromString typ data)) (\<lambda>v.
            ParseVariablesJSON_loop rs (AList.delete name vars) (AList.update name v variables)))"
| "ParseVariablesJSON_loop (_ # rs) vars variables = ParseVariablesJSON_loop rs vars variables"

definition ParseVariablesJSON ::
    "program \<Rightarrow> (string \<times> string) list \<Rightarrow> (vars_error, (string \<times> val) list) result" where
  "ParseVariablesJSON p vars = bindr (ParseVariablesJSON_loop (ProgResources p) vars []) no_extraneous"

section \<open>Properties\<close>

text \<open>The variables a program declares.\<close>

fun declared :: "resource list \<Rightarrow> (string \<times> type) list" where
  "declared [] = []"
| "declared (Variable typ name # rs) = (name, typ) # declared rs"
| "declared (_ # rs) = declared rs"

lemma no_extraneous_Inr [result_simps]: "no_extraneous r = Inr v \<longleftrightarrow> r = ([], v)"
  by (cases r; cases "fst r") (auto simp: no_extraneous_def)

lemma ParseVariablesJSON_loop_Inr:
  assumes "ParseVariablesJSON_loop rs vars acc = Inr (rest, variables)"
    and "distinct (map fst (declared rs))"
  shows "(\<forall>n t. (n, t) \<in> set (declared rs) \<longrightarrow>
            (\<exists>s v. map_of vars n = Some s \<and> NewValueFromString t s = Inr v \<and>
                   map_of variables n = Some v)) \<and>
         (\<forall>n. n \<notin> fst ` set (declared rs) \<longrightarrow> map_of variables n = map_of acc n) \<and>
         fst ` set rest = fst ` set vars - fst ` set (declared rs)"
  using assms
proof (induction rs vars acc rule: ParseVariablesJSON_loop.induct)
  case (2 ty name rs vars acc)
  from 2(2) obtain s v where s: "map_of vars name = Some s" "NewValueFromString ty s = Inr v"
    and r: "ParseVariablesJSON_loop rs (AList.delete name vars) (AList.update name v acc) =
              Inr (rest, variables)"
    by (auto simp: result_simps split: option.splits)
  have d: "name \<notin> fst ` set (declared rs)" "distinct (map fst (declared rs))"
    using 2(3) by auto
  note IH = 2(1) [OF s(1) r d(2)]
  have decl: "\<exists>s' v'. map_of vars n = Some s' \<and> NewValueFromString t s' = Inr v' \<and>
      map_of variables n = Some v'" if "(n, t) \<in> set (declared (Variable ty name # rs))" for n t
  proof (cases "(n, t) = (name, ty)")
    case True
    with IH d(1) s show ?thesis by (simp add: alist_simps)
  next
    case False
    with that have n: "(n, t) \<in> set (declared rs)" by auto
    with d(1) have "n \<noteq> name" by force
    from IH n have "\<exists>s' v'. map_of (AList.delete name vars) n = Some s' \<and>
        NewValueFromString t s' = Inr v' \<and> map_of variables n = Some v'" by blast
    with \<open>n \<noteq> name\<close> show ?thesis by (simp add: alist_simps)
  qed
  have other: "map_of variables n = map_of acc n"
    if "n \<notin> fst ` set (declared (Variable ty name # rs))" for n
    using IH that by (simp add: alist_simps)
  have "fst ` set rest = fst ` set vars - fst ` set (declared (Variable ty name # rs))"
    using IH by (auto simp: keys_delete)
  with decl other show ?case by blast
qed auto

text \<open>
  Reading the variables of a program from text succeeds only when the given variables
  are exactly the declared ones, and every variable then has the type it was declared with and
  the value its text denotes.
\<close>

lemma ParseVariablesJSON_exact:
  assumes "ParseVariablesJSON p vars = Inr variables"
    and "distinct (map fst (declared (ProgResources p)))"
  shows "fst ` set vars \<subseteq> fst ` set (declared (ProgResources p)) \<and>
         (\<forall>n t. (n, t) \<in> set (declared (ProgResources p)) \<longrightarrow>
            (\<exists>s v. map_of vars n = Some s \<and> NewValueFromString t s = Inr v \<and>
                   map_of variables n = Some v \<and> GetType v = t))"
proof -
  from assms(1) have "ParseVariablesJSON_loop (ProgResources p) vars [] = Inr ([], variables)"
    by (auto simp: ParseVariablesJSON_def result_simps)
  note facts = ParseVariablesJSON_loop_Inr [OF this assms(2)]
  then have "fst ` set vars \<subseteq> fst ` set (declared (ProgResources p))" by simp
  with facts NewValueFromString_type show ?thesis by meson
qed

text \<open>
  An address written into the code by the compiler is the address the machine reads
  back from it, for all 65,536 addresses.
\<close>

lemma address_bytes_roundtrip:
  "\<exists>lo hi. ToBytes a = [lo, hi] \<and> Uint16_LE lo hi = a"
  using Uint16_ToBytes [of a] by (simp add: ToBytes_def)

end
