(* ===== verification/Vm_Machine.thy ===== *)
theory Vm_Machine
  imports Vm_Program
begin

text \<open>
  The Numscript machine: \<open>internal/machine/vm/machine.go\<close>, \<open>stack.go\<close>, \<open>store.go\<close> and \<open>run.go\<close>.
  A method on \<open>*Machine\<close> takes the machine and returns it updated; a machine is thrown away by its
  callers when a method returns an error, so an error carries no machine. The head of \<open>Stack\<close> is
  the top of the stack. Messages keep the text of their format, without the arguments.
\<close>

section \<open>The state\<close>

datatype vm_error =
    ErrScriptFailed
  | ErrResourcesNotInitialized
  | ErrBalancesNotInitialized
  | ErrResourceNotFound
  | ErrInvalidScript string
  | ErrInsufficientFund string
  | ErrNegativeAmount string
  | ErrMissingMetadata string string
  | ErrInvalidVars string
  | ErrBadVars vars_error
  | ErrMetadataOverride string
  | ErrBadValue value_text_error
  | ErrStore string
  | ErrPlain string

record vm_posting =
  vp_Source :: string
  vp_Destination :: string
  vp_Amount :: monetary_int
  vp_Asset :: string

text \<open>
  The balances the machine tracks. The stores never return a nil balance, so a tracked balance is
  an integer; whether an account, or an asset of it, is tracked matters and is kept.
\<close>

type_synonym balances = "string \<rightharpoonup> (string \<rightharpoonup> int)"

text \<open>
  \<open>P\<close> is the program counter; it never exceeds the length of the code, so no wrap-around of
  \<open>uint\<close> can occur. A nil \<open>Balances\<close> is \<open>None\<close>. The values sent to the print channel are
  collected in \<open>Printed\<close>.
\<close>

record vm_machine =
  PC :: nat
  Program :: program
  Vars :: "(string \<times> val) list"
  UnresolvedResources :: "resource list"
  Resources :: "val list"
  UnresolvedResourceBalances :: "(string \<times> nat) list"
  resolveCalled :: bool
  Balances :: "balances option"
  Stack :: "val list"
  Postings :: "vm_posting list"
  TxMeta :: "(string \<times> val) list"
  AccountsMeta :: "(string \<times> (string \<times> val) list) list"
  Printed :: "val list"

definition NewMachine :: "program \<Rightarrow> vm_machine" where
  "NewMachine p =
     \<lparr>PC = 0, Program = p, Vars = [], UnresolvedResources = ProgResources p, Resources = [],
      UnresolvedResourceBalances = [], resolveCalled = False, Balances = None, Stack = [],
      Postings = [], TxMeta = [], AccountsMeta = [], Printed = []\<rparr>"

type_synonym 'a vm_result = "(vm_error, 'a) result"

section \<open>The stack\<close>

definition popValue :: "vm_machine \<Rightarrow> (val \<times> vm_machine) vm_result" where
  "popValue m = (case Stack m of [] \<Rightarrow> panic | v # vs \<Rightarrow> Inr (v, m\<lparr>Stack := vs\<rparr>))"

definition pushValue :: "val \<Rightarrow> vm_machine \<Rightarrow> vm_machine" where
  "pushValue v m = m\<lparr>Stack := v # Stack m\<rparr>"

text \<open>\<open>pop[T]\<close>: the value on top, which has to be of the type.\<close>

definition pop :: "(val \<Rightarrow> 'a option) \<Rightarrow> vm_machine \<Rightarrow> ('a \<times> vm_machine) vm_result" where
  "pop as_T m = bindr (popValue m) (\<lambda>(v, m').
     case as_T v of None \<Rightarrow> panic | Some x \<Rightarrow> Inr (x, m'))"

fun as_Number :: "val \<Rightarrow> monetary_int option" where
  "as_Number (VNumber n) = Some n"
| "as_Number _ = None"

fun as_Monetary :: "val \<Rightarrow> monetary option" where
  "as_Monetary (VMonetary m) = Some m"
| "as_Monetary _ = None"

fun as_Account :: "val \<Rightarrow> string option" where
  "as_Account (VAccount a) = Some a"
| "as_Account _ = None"

fun as_Asset :: "val \<Rightarrow> string option" where
  "as_Asset (VAsset a) = Some a"
| "as_Asset _ = None"

fun as_String :: "val \<Rightarrow> string option" where
  "as_String (VString s) = Some s"
| "as_String _ = None"

fun as_Portion :: "val \<Rightarrow> portion option" where
  "as_Portion (VPortion p) = Some p"
| "as_Portion _ = None"

fun as_Allotment :: "val \<Rightarrow> allotment option" where
  "as_Allotment (VAllotment a) = Some a"
| "as_Allotment _ = None"

fun as_Funding :: "val \<Rightarrow> funding option" where
  "as_Funding (VFunding f) = Some f"
| "as_Funding _ = None"

section \<open>Balances\<close>

definition getResource :: "vm_machine \<Rightarrow> address \<Rightarrow> val option" where
  "getResource m addr =
     (let a = unat addr in if a \<ge> length (Resources m) then None else Some (Resources m ! a))"

text \<open>The two-level lookup \<open>m.Balances[account][asset]\<close> and the assignment to it.\<close>

definition account_balances :: "vm_machine \<Rightarrow> string \<Rightarrow> (string \<rightharpoonup> int) option" where
  "account_balances m account = (case Balances m of None \<Rightarrow> None | Some b \<Rightarrow> b account)"

definition balance_of :: "vm_machine \<Rightarrow> string \<Rightarrow> string \<Rightarrow> int option" where
  "balance_of m account asset =
     (case account_balances m account of None \<Rightarrow> None | Some ab \<Rightarrow> ab asset)"

definition set_balance :: "string \<Rightarrow> string \<Rightarrow> int \<Rightarrow> vm_machine \<Rightarrow> vm_machine" where
  "set_balance account asset x m =
     (case account_balances m account of
        None \<Rightarrow> m
      | Some ab \<Rightarrow> m\<lparr>Balances := map_option (\<lambda>b. b(account \<mapsto> ab(asset \<mapsto> x))) (Balances m)\<rparr>)"

definition single_part :: "string \<Rightarrow> string \<Rightarrow> monetary_int \<Rightarrow> funding" where
  "single_part asset account amount =
     \<lparr>fund_Asset = asset, fund_Parts = [\<lparr>part_Account = account, part_Amount = amount\<rparr>]\<rparr>"

definition withdrawAll ::
    "vm_machine \<Rightarrow> string \<Rightarrow> string \<Rightarrow> monetary_int \<Rightarrow> (funding \<times> vm_machine) vm_result" where
  "withdrawAll m account asset overdraft =
     (case balance_of m account asset of
        None \<Rightarrow> raise (ErrInvalidScript ''missing balance'')
      | Some balance \<Rightarrow>
          let balanceWithOverdraft = balance + mi_OrZero overdraft in
          if balanceWithOverdraft > 0 then
            bindr (mi_Neg overdraft) (\<lambda>n.
              Inr (single_part asset account (Some balanceWithOverdraft),
                   set_balance account asset (mi_OrZero n) m))
          else Inr (single_part asset account (Some 0), m))"

definition withdrawAlways :: "vm_machine \<Rightarrow> string \<Rightarrow> monetary \<Rightarrow> funding \<times> vm_machine" where
  "withdrawAlways m account mon =
     (single_part (mon_Asset mon) account (mon_Amount mon),
      case balance_of m account (mon_Asset mon) of
        None \<Rightarrow> m
      | Some balance \<Rightarrow>
          set_balance account (mon_Asset mon) (balance - mi_OrZero (mon_Amount mon)) m)"

fun credit_loop :: "string \<Rightarrow> string \<Rightarrow> funding_part list \<Rightarrow> vm_machine \<Rightarrow> vm_machine" where
  "credit_loop account asset [] m = m"
| "credit_loop account asset (p # ps) m =
     credit_loop account asset ps
       (case balance_of m account asset of
          None \<Rightarrow> m
        | Some balance \<Rightarrow> set_balance account asset (balance + mi_OrZero (part_Amount p)) m)"

definition credit :: "vm_machine \<Rightarrow> string \<Rightarrow> funding \<Rightarrow> vm_machine" where
  "credit m account f =
     (if account = ''world'' then m
      else if balance_of m account (fund_Asset f) = None then m
      else credit_loop account (fund_Asset f) (fund_Parts f) m)"

text \<open>A balance that is missing in a tracked account is a nil amount, which \<open>Add\<close> reads as zero.\<close>

fun repay_loop :: "string \<Rightarrow> funding_part list \<Rightarrow> vm_machine \<Rightarrow> vm_machine" where
  "repay_loop asset [] m = m"
| "repay_loop asset (p # ps) m =
     repay_loop asset ps
       (if part_Account p = ''world'' then m
        else if account_balances m (part_Account p) = None then m
        else set_balance (part_Account p) asset
               (mi_OrZero (balance_of m (part_Account p) asset) + mi_OrZero (part_Amount p)) m)"

definition repay :: "vm_machine \<Rightarrow> funding \<Rightarrow> vm_machine" where
  "repay m f = repay_loop (fund_Asset f) (fund_Parts f) m"

section \<open>Instructions\<close>

text \<open>\<open>big.Int.Uint64\<close>: the low 64 bits of the magnitude; it dereferences the pointer.\<close>

definition mi_Uint64 :: "monetary_int \<Rightarrow> nat vm_result" where
  "mi_Uint64 n = (case n of None \<Rightarrow> panic | Some x \<Rightarrow> Inr (nat \<bar>x\<bar> mod 2 ^ 64))"

definition tick_APUSH :: "vm_machine \<Rightarrow> vm_machine vm_result" where
  "tick_APUSH m =
     (if PC m + 3 > length (Instructions (Program m)) then panic
      else case getResource m (Uint16_LE (Instructions (Program m) ! (PC m + 1))
                                         (Instructions (Program m) ! (PC m + 2))) of
        None \<Rightarrow> raise ErrResourceNotFound
      | Some v \<Rightarrow> Inr ((pushValue v m)\<lparr>PC := PC m + 2\<rparr>))"

text \<open>The value \<open>n\<close> places below the top moves to the top; a smaller stack is a panic.\<close>

definition tick_BUMP :: "vm_machine \<Rightarrow> vm_machine vm_result" where
  "tick_BUMP m =
     bindr (pop as_Number m) (\<lambda>(n, m).
     bindr (mi_Uint64 n) (\<lambda>k.
       if k < length (Stack m)
       then Inr (m\<lparr>Stack := Stack m ! k # take k (Stack m) @ drop (Suc k) (Stack m)\<rparr>)
       else panic))"

definition tick_DELETE :: "vm_machine \<Rightarrow> vm_machine vm_result" where
  "tick_DELETE m =
     bindr (popValue m) (\<lambda>(n, m).
     bindr (CallGetType n) (\<lambda>t.
       if t = TypeFunding then raise (ErrInvalidScript ''wrong type'') else Inr m))"

definition tick_IADD :: "vm_machine \<Rightarrow> vm_machine vm_result" where
  "tick_IADD m =
     bindr (pop as_Number m) (\<lambda>(b, m).
     bindr (pop as_Number m) (\<lambda>(a, m).
       Inr (pushValue (VNumber (mi_Add a b)) m)))"

definition tick_ISUB :: "vm_machine \<Rightarrow> vm_machine vm_result" where
  "tick_ISUB m =
     bindr (pop as_Number m) (\<lambda>(b, m).
     bindr (pop as_Number m) (\<lambda>(a, m).
       Inr (pushValue (VNumber (mi_Sub a b)) m)))"

definition tick_PRINT :: "vm_machine \<Rightarrow> vm_machine vm_result" where
  "tick_PRINT m = bindr (popValue m) (\<lambda>(a, m). Inr (m\<lparr>Printed := Printed m @ [a]\<rparr>))"

definition tick_FAIL :: "vm_machine \<Rightarrow> vm_machine vm_result" where
  "tick_FAIL m = raise ErrScriptFailed"

definition tick_ASSET :: "vm_machine \<Rightarrow> vm_machine vm_result" where
  "tick_ASSET m =
     bindr (popValue m) (\<lambda>(v, m).
       case v of
         VAsset a \<Rightarrow> Inr (pushValue (VAsset a) m)
       | VMonetary mon \<Rightarrow> Inr (pushValue (VAsset (mon_Asset mon)) m)
       | VFunding f \<Rightarrow> Inr (pushValue (VAsset (fund_Asset f)) m)
       | _ \<Rightarrow> bindr (CallGetType v) (\<lambda>_. raise (ErrInvalidScript ''wrong type for op asset'')))"

definition tick_MONETARY_NEW :: "vm_machine \<Rightarrow> vm_machine vm_result" where
  "tick_MONETARY_NEW m =
     bindr (pop as_Number m) (\<lambda>(amount, m).
     bindr (pop as_Asset m) (\<lambda>(asset, m).
       Inr (pushValue (VMonetary \<lparr>mon_Asset = asset, mon_Amount = amount\<rparr>) m)))"

definition tick_MONETARY_ADD :: "vm_machine \<Rightarrow> vm_machine vm_result" where
  "tick_MONETARY_ADD m =
     bindr (pop as_Monetary m) (\<lambda>(b, m).
     bindr (pop as_Monetary m) (\<lambda>(a, m).
       if mon_Asset a \<noteq> mon_Asset b then raise (ErrInvalidScript ''cannot add different assets'')
       else Inr (pushValue (VMonetary \<lparr>mon_Asset = mon_Asset a,
                                       mon_Amount = mi_Add (mon_Amount a) (mon_Amount b)\<rparr>) m)))"

definition tick_MONETARY_SUB :: "vm_machine \<Rightarrow> vm_machine vm_result" where
  "tick_MONETARY_SUB m =
     bindr (pop as_Monetary m) (\<lambda>(b, m).
     bindr (pop as_Monetary m) (\<lambda>(a, m).
       if mon_Asset a \<noteq> mon_Asset b then raise (ErrPlain ''OP_MONETARY_SUB'')
       else Inr (pushValue (VMonetary \<lparr>mon_Asset = mon_Asset a,
                                       mon_Amount = mi_Sub (mon_Amount a) (mon_Amount b)\<rparr>) m)))"

text \<open>The first portion popped is the first of the allotment.\<close>

fun pop_portions :: "nat \<Rightarrow> vm_machine \<Rightarrow> (portion list \<times> vm_machine) vm_result" where
  "pop_portions 0 m = Inr ([], m)"
| "pop_portions (Suc n) m =
     bindr (pop as_Portion m) (\<lambda>(p, m).
     bindr (pop_portions n m) (\<lambda>(ps, m). Inr (p # ps, m)))"

definition tick_MAKE_ALLOTMENT :: "vm_machine \<Rightarrow> vm_machine vm_result" where
  "tick_MAKE_ALLOTMENT m =
     bindr (pop as_Number m) (\<lambda>(n, m).
     bindr (mi_Uint64 n) (\<lambda>k.
     bindr (pop_portions k m) (\<lambda>(portions, m).
     bindr (map_error (\<lambda>_. ErrInvalidScript ''allotment'') (NewAllotment portions)) (\<lambda>allotment.
       Inr (pushValue (VAllotment allotment) m)))))"

definition tick_TAKE_ALL :: "vm_machine \<Rightarrow> vm_machine vm_result" where
  "tick_TAKE_ALL m =
     bindr (pop as_Monetary m) (\<lambda>(overdraft, m).
     bindr (pop as_Account m) (\<lambda>(account, m).
     bindr (withdrawAll m account (mon_Asset overdraft) (mon_Amount overdraft)) (\<lambda>(f, m).
       Inr (pushValue (VFunding f) m))))"

definition tick_TAKE_ALWAYS :: "vm_machine \<Rightarrow> vm_machine vm_result" where
  "tick_TAKE_ALWAYS m =
     bindr (pop as_Monetary m) (\<lambda>(mon, m).
     bindr (pop as_Account m) (\<lambda>(account, m).
       let (f, m) = withdrawAlways m account mon in Inr (pushValue (VFunding f) m)))"

definition tick_TAKE :: "vm_machine \<Rightarrow> vm_machine vm_result" where
  "tick_TAKE m =
     bindr (pop as_Monetary m) (\<lambda>(mon, m).
     bindr (pop as_Funding m) (\<lambda>(f, m).
       if fund_Asset f \<noteq> mon_Asset mon
       then raise (ErrInvalidScript ''cannot take from different assets'')
       else bindr (map_error (\<lambda>e. case e of InsufficientFund msg \<Rightarrow> ErrInsufficientFund msg
                                          | ConcatDifferentAssets \<Rightarrow> ErrInsufficientFund [])
                     (Take f (mon_Amount mon))) (\<lambda>(result, remainder).
         Inr (pushValue (VFunding result) (pushValue (VFunding remainder) m)))))"

definition tick_TAKE_MAX :: "vm_machine \<Rightarrow> vm_machine vm_result" where
  "tick_TAKE_MAX m =
     bindr (pop as_Monetary m) (\<lambda>(mon, m).
     bindr (mi_Ltz (mon_Amount mon)) (\<lambda>negative.
       if negative then raise (ErrPlain ''cannot send a monetary with a negative amount'')
       else
         bindr (pop as_Funding m) (\<lambda>(f, m).
           if fund_Asset f \<noteq> mon_Asset mon
           then raise (ErrInvalidScript ''cannot take from different assets'')
           else
             bindr (mi_Gt (mon_Amount mon) (Total f)) (\<lambda>more.
             let missing = (if more then mi_Sub (mon_Amount mon) (Total f) else Some 0);
                 m = pushValue (VMonetary \<lparr>mon_Asset = mon_Asset mon, mon_Amount = missing\<rparr>) m
             in bindr (map_error (\<lambda>_. ErrPlain []) (TakeMax f (mon_Amount mon)))
                  (\<lambda>(result, remainder).
                    Inr (pushValue (VFunding result) (pushValue (VFunding remainder) m)))))))"

text \<open>
  The fundings are popped, the asset of each checked against the first one popped, and then
  concatenated from the last one popped. The count is an \<open>int\<close>: 2^63 and above is negative,
  and \<open>make\<close> panics.
\<close>

fun pop_fundings :: "string \<Rightarrow> nat \<Rightarrow> vm_machine \<Rightarrow> (funding list \<times> vm_machine) vm_result" where
  "pop_fundings asset 0 m = Inr ([], m)"
| "pop_fundings asset (Suc n) m =
     bindr (pop as_Funding m) (\<lambda>(f, m).
       if fund_Asset f \<noteq> asset
       then raise (ErrInvalidScript ''cannot assemble different assets'')
       else bindr (pop_fundings asset n m) (\<lambda>(fs, m). Inr (f # fs, m)))"

definition assemble :: "funding list \<Rightarrow> funding \<Rightarrow> funding vm_result" where
  "assemble fundings result =
     foldr_result (\<lambda>f acc. map_error (\<lambda>_. ErrInvalidScript ''concat'') (Concat acc f))
       fundings result"

definition tick_FUNDING_ASSEMBLE :: "vm_machine \<Rightarrow> vm_machine vm_result" where
  "tick_FUNDING_ASSEMBLE m =
     bindr (pop as_Number m) (\<lambda>(num, m).
     bindr (mi_Uint64 num) (\<lambda>n.
       if n = 0 then raise (ErrInvalidScript ''cannot assemble zero fundings'')
       else
         bindr (pop as_Funding m) (\<lambda>(first, m).
           if n \<ge> 2 ^ 63 then panic
           else
             bindr (pop_fundings (fund_Asset first) (n - 1) m) (\<lambda>(fs, m).
             bindr (assemble (rev (first # fs)) \<lparr>fund_Asset = fund_Asset first, fund_Parts = []\<rparr>)
               (\<lambda>result. Inr (pushValue (VFunding result) m))))))"

definition tick_FUNDING_SUM :: "vm_machine \<Rightarrow> vm_machine vm_result" where
  "tick_FUNDING_SUM m =
     bindr (pop as_Funding m) (\<lambda>(f, m).
       Inr (pushValue (VMonetary \<lparr>mon_Asset = fund_Asset f, mon_Amount = Total f\<rparr>)
              (pushValue (VFunding f) m)))"

definition tick_FUNDING_REVERSE :: "vm_machine \<Rightarrow> vm_machine vm_result" where
  "tick_FUNDING_REVERSE m =
     bindr (pop as_Funding m) (\<lambda>(f, m). Inr (pushValue (VFunding (Reverse f)) m))"

text \<open>The parts are pushed from the last, so the first one ends on top.\<close>

definition tick_ALLOC :: "vm_machine \<Rightarrow> vm_machine vm_result" where
  "tick_ALLOC m =
     bindr (pop as_Allotment m) (\<lambda>(allotment, m).
     bindr (pop as_Monetary m) (\<lambda>(mon, m).
       case mon_Amount mon of
         None \<Rightarrow> panic
       | Some amount \<Rightarrow>
           let parts = Allocate allotment amount
           in Inr (m\<lparr>Stack := map (\<lambda>p. VMonetary \<lparr>mon_Asset = mon_Asset mon, mon_Amount = Some p\<rparr>) parts
                              @ Stack m\<rparr>)))"

definition tick_REPAY :: "vm_machine \<Rightarrow> vm_machine vm_result" where
  "tick_REPAY m = bindr (pop as_Funding m) (\<lambda>(f, m). Inr (repay m f))"

definition send_postings :: "string \<Rightarrow> funding \<Rightarrow> vm_posting list" where
  "send_postings dest f =
     map (\<lambda>p. \<lparr>vp_Source = part_Account p, vp_Destination = dest, vp_Amount = part_Amount p,
               vp_Asset = fund_Asset f\<rparr>) (fund_Parts f)"

definition tick_SEND :: "vm_machine \<Rightarrow> vm_machine vm_result" where
  "tick_SEND m =
     bindr (pop as_Account m) (\<lambda>(dest, m).
     bindr (pop as_Funding m) (\<lambda>(f, m).
       let m = credit m dest f in Inr (m\<lparr>Postings := Postings m @ send_postings dest f\<rparr>)))"

definition tick_TX_META :: "vm_machine \<Rightarrow> vm_machine vm_result" where
  "tick_TX_META m =
     bindr (pop as_String m) (\<lambda>(k, m).
     bindr (popValue m) (\<lambda>(v, m). Inr (m\<lparr>TxMeta := AList.update k v (TxMeta m)\<rparr>)))"

definition tick_ACCOUNT_META :: "vm_machine \<Rightarrow> vm_machine vm_result" where
  "tick_ACCOUNT_META m =
     bindr (pop as_Account m) (\<lambda>(a, m).
     bindr (pop as_String m) (\<lambda>(k, m).
     bindr (popValue m) (\<lambda>(v, m).
       let meta = (case map_of (AccountsMeta m) a of None \<Rightarrow> [] | Some am \<Rightarrow> am)
       in Inr (m\<lparr>AccountsMeta := AList.update a (AList.update k v meta) (AccountsMeta m)\<rparr>))))"

definition tick_SAVE :: "vm_machine \<Rightarrow> vm_machine vm_result" where
  "tick_SAVE m =
     bindr (pop as_Account m) (\<lambda>(a, m).
     bindr (popValue m) (\<lambda>(v, m).
       case v of
         VAsset asset \<Rightarrow>
           (case balance_of m a asset of
              None \<Rightarrow> Inr m
            | Some balance \<Rightarrow> Inr (if balance > 0 then set_balance a asset 0 m else m))
       | VMonetary mon \<Rightarrow>
           (case balance_of m a (mon_Asset mon) of
              None \<Rightarrow> Inr m
            | Some balance \<Rightarrow>
                Inr (set_balance a (mon_Asset mon) (balance - mi_OrZero (mon_Amount mon)) m))
       | _ \<Rightarrow> panic))"

fun exec_op :: "opcode \<Rightarrow> vm_machine \<Rightarrow> vm_machine vm_result" where
  "exec_op OP_APUSH m = tick_APUSH m"
| "exec_op OP_BUMP m = tick_BUMP m"
| "exec_op OP_DELETE m = tick_DELETE m"
| "exec_op OP_IADD m = tick_IADD m"
| "exec_op OP_ISUB m = tick_ISUB m"
| "exec_op OP_PRINT m = tick_PRINT m"
| "exec_op OP_FAIL m = tick_FAIL m"
| "exec_op OP_ASSET m = tick_ASSET m"
| "exec_op OP_MONETARY_NEW m = tick_MONETARY_NEW m"
| "exec_op OP_MONETARY_ADD m = tick_MONETARY_ADD m"
| "exec_op OP_MONETARY_SUB m = tick_MONETARY_SUB m"
| "exec_op OP_MAKE_ALLOTMENT m = tick_MAKE_ALLOTMENT m"
| "exec_op OP_TAKE_ALL m = tick_TAKE_ALL m"
| "exec_op OP_TAKE_ALWAYS m = tick_TAKE_ALWAYS m"
| "exec_op OP_TAKE m = tick_TAKE m"
| "exec_op OP_TAKE_MAX m = tick_TAKE_MAX m"
| "exec_op OP_FUNDING_ASSEMBLE m = tick_FUNDING_ASSEMBLE m"
| "exec_op OP_FUNDING_SUM m = tick_FUNDING_SUM m"
| "exec_op OP_FUNDING_REVERSE m = tick_FUNDING_REVERSE m"
| "exec_op OP_REPAY m = tick_REPAY m"
| "exec_op OP_ALLOC m = tick_ALLOC m"
| "exec_op OP_SEND m = tick_SEND m"
| "exec_op OP_TX_META m = tick_TX_META m"
| "exec_op OP_ACCOUNT_META m = tick_ACCOUNT_META m"
| "exec_op OP_SAVE m = tick_SAVE m"

text \<open>One turn of the loop: whether the program is finished, and the machine after it.\<close>

definition tick :: "vm_machine \<Rightarrow> (bool \<times> vm_machine) vm_result" where
  "tick m =
     (if PC m \<ge> length (Instructions (Program m)) then panic
      else case decode_op (Instructions (Program m) ! PC m) of
        None \<Rightarrow> raise (ErrInvalidScript ''invalid opcode'')
      | Some op \<Rightarrow>
          bindr (exec_op op m) (\<lambda>m.
            let m = m\<lparr>PC := PC m + 1\<rparr>
            in Inr (PC m \<ge> length (Instructions (Program m)), m)))"

text \<open>The \<open>HasAsset\<close> interface.\<close>

fun GetAsset :: "val \<Rightarrow> string option" where
  "GetAsset (VAsset a) = Some a"
| "GetAsset (VMonetary m) = Some (mon_Asset m)"
| "GetAsset (VFunding f) = Some (fund_Asset f)"
| "GetAsset _ = None"

section \<open>What an instruction leaves alone\<close>

lemma getResource_Some:
  "getResource m a = Some v \<longleftrightarrow> unat a < length (Resources m) \<and> v = Resources m ! unat a"
  by (auto simp: getResource_def Let_def)

lemma popValue_Inr [result_simps]:
  "popValue m = Inr r \<longleftrightarrow> (\<exists>v vs. Stack m = v # vs \<and> r = (v, m\<lparr>Stack := vs\<rparr>))"
  by (auto simp: popValue_def split: list.splits)

lemma pop_Inr [result_simps]:
  "pop f m = Inr r \<longleftrightarrow> (\<exists>v vs x. Stack m = v # vs \<and> f v = Some x \<and> r = (x, m\<lparr>Stack := vs\<rparr>))"
  by (auto simp: pop_def result_simps split: option.splits)

lemma as_T_Some [result_simps, simp]:
  "as_Number v = Some n \<longleftrightarrow> v = VNumber n"
  "as_Monetary v = Some mo \<longleftrightarrow> v = VMonetary mo"
  "as_Account v = Some a \<longleftrightarrow> v = VAccount a"
  "as_Asset v = Some a \<longleftrightarrow> v = VAsset a"
  "as_String v = Some a \<longleftrightarrow> v = VString a"
  "as_Portion v = Some p \<longleftrightarrow> v = VPortion p"
  "as_Allotment v = Some al \<longleftrightarrow> v = VAllotment al"
  "as_Funding v = Some f \<longleftrightarrow> v = VFunding f"
  by (cases v; simp; blast)+

lemma CallGetType_Inr [result_simps]: "CallGetType v = Inr t \<longleftrightarrow> v \<noteq> VNumber None \<and> t = GetType v"
  by (auto simp: CallGetType_def)

text \<open>
  The part of the machine no instruction writes, and the counter, which only \<open>OP_APUSH\<close> moves.
\<close>

definition frame where
  "frame m = (Program m, Vars m, UnresolvedResources m, Resources m,
              UnresolvedResourceBalances m, resolveCalled m)"

lemma frame_updates [simp]:
  "frame (m\<lparr>Stack := s\<rparr>) = frame m" "frame (m\<lparr>Balances := b\<rparr>) = frame m"
  "frame (m\<lparr>Postings := p\<rparr>) = frame m" "frame (m\<lparr>TxMeta := t\<rparr>) = frame m"
  "frame (m\<lparr>AccountsMeta := a\<rparr>) = frame m" "frame (m\<lparr>Printed := o'\<rparr>) = frame m"
  "frame (m\<lparr>PC := n\<rparr>) = frame m"
  by (simp_all add: frame_def)

lemma pushValue_sel [simp]:
  "frame (pushValue v m) = frame m" "PC (pushValue v m) = PC m"
  "Stack (pushValue v m) = v # Stack m" "Postings (pushValue v m) = Postings m"
  "Balances (pushValue v m) = Balances m" "balance_of (pushValue v m) a c = balance_of m a c"
  "Resources (pushValue v m) = Resources m" "Program (pushValue v m) = Program m"
  by (simp_all add: pushValue_def frame_def balance_of_def account_balances_def)

lemma set_balance_sel [simp]:
  "frame (set_balance a c x m) = frame m" "PC (set_balance a c x m) = PC m"
  "Stack (set_balance a c x m) = Stack m" "Postings (set_balance a c x m) = Postings m"
  "Program (set_balance a c x m) = Program m"
  by (simp_all add: set_balance_def frame_def split: option.splits)

lemma credit_loop_sel [simp]:
  "frame (credit_loop a c ps m) = frame m" "PC (credit_loop a c ps m) = PC m"
  "Stack (credit_loop a c ps m) = Stack m" "Postings (credit_loop a c ps m) = Postings m"
  by (induction a c ps m rule: credit_loop.induct) (auto split: option.splits)

lemma credit_sel [simp]:
  "frame (credit m a f) = frame m" "PC (credit m a f) = PC m"
  "Stack (credit m a f) = Stack m" "Postings (credit m a f) = Postings m"
  by (simp_all add: credit_def)

lemma repay_loop_sel [simp]:
  "frame (repay_loop c ps m) = frame m" "PC (repay_loop c ps m) = PC m"
  "Stack (repay_loop c ps m) = Stack m" "Postings (repay_loop c ps m) = Postings m"
  by (induction c ps m rule: repay_loop.induct) auto

lemma repay_sel [simp]:
  "frame (repay m f) = frame m" "PC (repay m f) = PC m"
  "Stack (repay m f) = Stack m" "Postings (repay m f) = Postings m"
  by (simp_all add: repay_def)

lemma withdrawAlways_sel [simp]:
  "frame (snd (withdrawAlways m a mon)) = frame m" "PC (snd (withdrawAlways m a mon)) = PC m"
  "Stack (snd (withdrawAlways m a mon)) = Stack m"
  "Postings (snd (withdrawAlways m a mon)) = Postings m"
  by (simp_all add: withdrawAlways_def split: option.splits)

lemma withdrawAll_sel:
  assumes "withdrawAll m a c o' = Inr (f, m')"
  shows "frame m' = frame m" "PC m' = PC m" "Stack m' = Stack m" "Postings m' = Postings m"
  using assms by (auto simp: withdrawAll_def Let_def result_simps split: option.splits if_splits)

lemma pop_portions_Inr:
  "pop_portions n m = Inr (ps, m') \<Longrightarrow>
     length ps = n \<and> Stack m = map VPortion ps @ Stack m' \<and> m' = m\<lparr>Stack := Stack m'\<rparr>"
proof (induction n arbitrary: m ps)
  case (Suc n)
  then show ?case by (fastforce simp: result_simps)
qed simp

lemma pop_fundings_Inr:
  "pop_fundings c n m = Inr (fs, m') \<Longrightarrow>
     length fs = n \<and> list_all (\<lambda>f. fund_Asset f = c) fs \<and>
     Stack m = map VFunding fs @ Stack m' \<and> m' = m\<lparr>Stack := Stack m'\<rparr>"
proof (induction n arbitrary: m fs)
  case (Suc n)
  then show ?case by (fastforce simp: result_simps split: if_splits)
qed simp

lemmas tick_defs = tick_APUSH_def tick_BUMP_def tick_DELETE_def tick_IADD_def tick_ISUB_def
  tick_PRINT_def tick_FAIL_def tick_ASSET_def tick_MONETARY_NEW_def tick_MONETARY_ADD_def
  tick_MONETARY_SUB_def tick_MAKE_ALLOTMENT_def tick_TAKE_ALL_def tick_TAKE_ALWAYS_def
  tick_TAKE_def tick_TAKE_MAX_def tick_FUNDING_ASSEMBLE_def tick_FUNDING_SUM_def
  tick_FUNDING_REVERSE_def tick_REPAY_def tick_ALLOC_def tick_SEND_def tick_TX_META_def
  tick_ACCOUNT_META_def tick_SAVE_def

lemma tick_ASSET_Inr:
  assumes "tick_ASSET m = Inr m'"
  obtains v vs c where "Stack m = v # vs" "GetAsset v = Some c" "m' = m\<lparr>Stack := VAsset c # vs\<rparr>"
proof (cases "Stack m")
  case Nil
  with assms show ?thesis by (simp add: tick_ASSET_def popValue_def)
next
  case (Cons v vs)
  with assms that show ?thesis
    by (cases v) (auto simp: tick_ASSET_def popValue_def pushValue_def result_simps)
qed

lemma tick_SAVE_Inr:
  assumes "tick_SAVE m = Inr m'"
  obtains a v vs where "Stack m = VAccount a # v # vs"
    "m' = m\<lparr>Stack := vs\<rparr> \<or> (\<exists>c x. m' = set_balance a c x (m\<lparr>Stack := vs\<rparr>))"
proof -
  from assms obtain a v vs where s: "Stack m = VAccount a # v # vs"
    by (auto simp: tick_SAVE_def result_simps)
  with assms that show ?thesis
    by (cases v) (auto simp: tick_SAVE_def pop_def popValue_def result_simps
        split: option.split_asm if_split_asm)
qed

lemma tick_TAKE_Inr:
  assumes "tick_TAKE m = Inr m'"
  obtains mon f vs res rest where "Stack m = VMonetary mon # VFunding f # vs"
    "fund_Asset f = mon_Asset mon" "Take f (mon_Amount mon) = Inr (res, rest)"
    "m' = m\<lparr>Stack := VFunding res # VFunding rest # vs\<rparr>"
  using assms by (auto simp: tick_TAKE_def result_simps pushValue_def split: if_splits)

lemma tick_TAKE_MAX_Inr:
  assumes "tick_TAKE_MAX m = Inr m'"
  obtains mon f vs res rest missing where "Stack m = VMonetary mon # VFunding f # vs"
    "fund_Asset f = mon_Asset mon" "TakeMax f (mon_Amount mon) = Inr (res, rest)"
    "m' = m\<lparr>Stack := VFunding res # VFunding rest #
       VMonetary \<lparr>mon_Asset = mon_Asset mon, mon_Amount = missing\<rparr> # vs\<rparr>"
  using assms by (auto simp: tick_TAKE_MAX_def result_simps pushValue_def Let_def split: if_splits)

lemma tick_ASSEMBLE_Inr:
  assumes "tick_FUNDING_ASSEMBLE m = Inr m'"
  obtains n fs vs g where "Stack m = VNumber n # map VFunding fs @ vs" "fs \<noteq> []"
    "list_all (\<lambda>f. fund_Asset f = fund_Asset (hd fs)) fs"
    "assemble (rev fs) \<lparr>fund_Asset = fund_Asset (hd fs), fund_Parts = []\<rparr> = Inr g"
    "m' = m\<lparr>Stack := VFunding g # vs\<rparr>"
proof -
  from assms obtain n k f fs vs g m1 where st: "Stack m = VNumber n # VFunding f # vs"
    and p: "pop_fundings (fund_Asset f) k (m\<lparr>Stack := vs\<rparr>) = Inr (fs, m1)"
    and g: "assemble (rev (f # fs)) \<lparr>fund_Asset = fund_Asset f, fund_Parts = []\<rparr> = Inr g"
    and m': "m' = pushValue (VFunding g) m1"
    by (auto simp: tick_FUNDING_ASSEMBLE_def result_simps split: if_splits)
  from pop_fundings_Inr [OF p] obtain s where "m1 = m\<lparr>Stack := s\<rparr>" "vs = map VFunding fs @ s"
    "list_all (\<lambda>g. fund_Asset g = fund_Asset f) fs"
    by auto
  with st g m' show ?thesis
    by (intro that [of n "f # fs" s g]) (auto simp: pushValue_def)
qed

lemma tick_MAKE_ALLOTMENT_Inr:
  assumes "tick_MAKE_ALLOTMENT m = Inr m'"
  obtains n ps vs al where "Stack m = VNumber n # map VPortion ps @ vs"
    "NewAllotment ps = Inr al" "m' = m\<lparr>Stack := VAllotment al # vs\<rparr>"
proof -
  from assms obtain n k ps vs al m1 where st: "Stack m = VNumber n # vs"
    and p: "pop_portions k (m\<lparr>Stack := vs\<rparr>) = Inr (ps, m1)"
    and al: "NewAllotment ps = Inr al" and m': "m' = pushValue (VAllotment al) m1"
    by (auto simp: tick_MAKE_ALLOTMENT_def result_simps)
  from pop_portions_Inr [OF p] obtain s where "m1 = m\<lparr>Stack := s\<rparr>" "vs = map VPortion ps @ s"
    by auto
  with st al m' show ?thesis
    by (intro that [of n ps s al]) (auto simp: pushValue_def)
qed

lemma snd_update_frame: "m' = m\<lparr>Stack := s\<rparr> \<Longrightarrow> frame m' = frame m \<and> PC m' = PC m"
  by simp

lemma exec_op_frame:
  assumes "exec_op op m = Inr m'"
  shows "frame m' = frame m \<and> PC m' = (if op = OP_APUSH then PC m + 2 else PC m)"
proof (cases op)
  case OP_APUSH
  with assms show ?thesis by (auto simp: tick_defs result_simps split: if_splits option.splits)
next
  case OP_MAKE_ALLOTMENT
  with assms show ?thesis
    by (auto simp: tick_defs result_simps dest!: pop_portions_Inr [THEN conjunct2, THEN conjunct2, THEN snd_update_frame])
next
  case OP_FUNDING_ASSEMBLE
  with assms show ?thesis
    by (auto simp: tick_defs result_simps split: if_splits
        dest!: pop_fundings_Inr [THEN conjunct2, THEN conjunct2, THEN conjunct2, THEN snd_update_frame])
next
  case OP_TAKE_ALL
  with assms show ?thesis by (auto simp: tick_defs result_simps dest: withdrawAll_sel(1,2))
next
  case OP_TAKE_ALWAYS
  with assms show ?thesis
    by (auto simp: tick_defs result_simps Let_def case_prod_beta)
next
  case OP_ASSET
  with assms show ?thesis by (auto elim!: tick_ASSET_Inr)
next
  case OP_SAVE
  with assms show ?thesis by (auto elim!: tick_SAVE_Inr)
qed (use assms in \<open>auto simp: tick_defs result_simps Let_def split: if_splits option.splits\<close>)

section \<open>Execution\<close>

text \<open>
  Every instruction moves the counter forward and none writes the code, so the loop of \<open>Execute\<close>
  ends: the bytes that are left are its measure.
\<close>

lemma tick_advances:
  assumes "tick m = Inr (fin, m')"
  shows "frame m' = frame m" "PC m < PC m'" "PC m < length (Instructions (Program m))"
    "fin \<longleftrightarrow> length (Instructions (Program m)) \<le> PC m'"
proof -
  from assms obtain op m1 where op: "exec_op op m = Inr m1" "m' = m1\<lparr>PC := PC m1 + 1\<rparr>"
    and fin: "fin \<longleftrightarrow> length (Instructions (Program m1)) \<le> PC m'"
    and len: "PC m < length (Instructions (Program m))"
    by (auto simp: tick_def result_simps Let_def split: if_splits option.splits)
  note f = exec_op_frame [OF op(1)]
  with op show "frame m' = frame m" "PC m < PC m'" by (auto split: if_splits)
  from f have "Program m1 = Program m" by (simp add: frame_def)
  with fin show "fin \<longleftrightarrow> length (Instructions (Program m)) \<le> PC m'" by simp
  show "PC m < length (Instructions (Program m))" by (fact len)
qed

function run_ticks :: "vm_machine \<Rightarrow> vm_machine vm_result" where
  "run_ticks m =
     (case tick m of
        Inl e \<Rightarrow> Inl e
      | Inr (finished, m') \<Rightarrow>
          if finished then (if Stack m' \<noteq> [] then panic else Inr m') else run_ticks m')"
  by pat_completeness auto
termination
proof (relation "measure (\<lambda>m. length (Instructions (Program m)) - PC m)")
  fix m r and fin :: bool and m'
  assume "tick m = Inr r" "(fin, m') = r" "\<not> fin"
  then have t: "tick m = Inr (fin, m')" by simp
  then have "Program m' = Program m" using tick_advances(1) by (simp add: frame_def)
  with tick_advances(2,3) [OF t]
  show "(m', m) \<in> measure (\<lambda>m. length (Instructions (Program m)) - PC m)" by simp
qed simp

declare run_ticks.simps [simp del]

definition Execute :: "vm_machine \<Rightarrow> vm_machine vm_result" where
  "Execute m =
     (if length (Resources m) \<noteq> length (UnresolvedResources m) then raise ErrResourcesNotInitialized
      else if Balances m = None then raise ErrBalancesNotInitialized
      else run_ticks m)"

end
