(* ===== verification/Vm_Resolve.thy ===== *)
theory Vm_Resolve
  imports Vm_Machine
begin

text \<open>
  What happens before and after the execution of a program: the resolution of its resources and
  balances against a store (\<open>ResolveResources\<close>, \<open>ResolveBalances\<close> of \<open>machine.go\<close>), the stores
  of \<open>store.go\<close>, the variables, and the result (\<open>GetTxMetaJSON\<close>, \<open>GetAccountsMetaJSON\<close>, \<open>Run\<close>).
  The law a store owes the machine is the locale \<open>balance_store\<close>.
\<close>

section \<open>Stores\<close>

type_synonym metadata = "(string \<times> string) list"

text \<open>A query lists the assets per account; an answer is a map of maps, which the code iterates.\<close>

type_synonym balance_query = "(string \<times> string list) list"
type_synonym store_balances = "(string \<times> (string \<times> int) list) list"

text \<open>The \<open>Store\<close> interface; of an account the machine reads the metadata only.\<close>

record vm_store =
  GetBalances :: "balance_query \<Rightarrow> (string, store_balances) result"
  GetAccount :: "string \<Rightarrow> (string, metadata) result"

definition EmptyStore :: vm_store where
  "EmptyStore = \<lparr>GetBalances = (\<lambda>q. Inr []), GetAccount = (\<lambda>a. Inr [])\<rparr>"

text \<open>
  \<open>StaticStore\<close>: accounts with their metadata and balances. The inner map of the answer is made
  anew for every asset of an account, as in the code.
\<close>

type_synonym static_store = "(string \<times> metadata \<times> (string \<times> int) list) list"

fun static_assets :: "static_store \<Rightarrow> string \<Rightarrow> string list \<Rightarrow> store_balances \<Rightarrow> store_balances" where
  "static_assets s account [] ret = ret"
| "static_assets s account (asset # assets) ret =
     static_assets s account assets
       (AList.update account
          [(asset, case map_of s account of
                     None \<Rightarrow> 0
                   | Some (_, bals) \<Rightarrow> (case map_of bals asset of None \<Rightarrow> 0 | Some b \<Rightarrow> b))] ret)"

fun static_balances :: "static_store \<Rightarrow> balance_query \<Rightarrow> store_balances \<Rightarrow> store_balances" where
  "static_balances s [] ret = ret"
| "static_balances s ((account, assets) # q) ret =
     static_balances s q (static_assets s account assets ret)"

definition StaticStore :: "static_store \<Rightarrow> vm_store" where
  "StaticStore s =
     \<lparr>GetBalances = (\<lambda>q. Inr (static_balances s q [])),
      GetAccount = (\<lambda>a. case map_of s a of None \<Rightarrow> Inr [] | Some (meta, _) \<Rightarrow> Inr meta)\<rparr>"

section \<open>Resources\<close>

definition SetVarsFromJSON :: "vm_machine \<Rightarrow> (string \<times> string) list \<Rightarrow> vm_machine vm_result" where
  "SetVarsFromJSON m vars =
     bindr (map_error ErrBadVars (ParseVariablesJSON (Program m) vars)) (\<lambda>v. Inr (m\<lparr>Vars := v\<rparr>))"

text \<open>
  The value of one resource. A missing or ill-typed account or asset of a resource is a nil
  dereference or a failed assertion; the involved accounts the code collects are never read.
\<close>

definition resolve_resource ::
    "vm_store \<Rightarrow> resource \<Rightarrow> vm_machine \<Rightarrow> (val \<times> vm_machine) vm_result" where
  "resolve_resource st res m =
     (case res of
        Constant v \<Rightarrow> bindr (CallGetType v) (\<lambda>_. Inr (v, m))
      | Variable typ name \<Rightarrow>
          (case map_of (Vars m) name of
             None \<Rightarrow> raise (ErrPlain ''missing variable'')
           | Some v \<Rightarrow> bindr (CallGetType v) (\<lambda>_. Inr (v, m)))
      | VariableAccountMetadata typ name account key \<Rightarrow>
          (case getResource m account of
             Some (VAccount addr) \<Rightarrow>
               bindr (map_error ErrStore (GetAccount st addr)) (\<lambda>meta.
                 case map_of meta key of
                   None \<Rightarrow> raise (ErrMissingMetadata key addr)
                 | Some data \<Rightarrow>
                     bindr (map_error ErrBadValue (NewValueFromString typ data)) (\<lambda>v.
                     bindr (CallGetType v) (\<lambda>_. Inr (v, m))))
           | _ \<Rightarrow> panic)
      | VariableAccountBalance name account asset \<Rightarrow>
          (case getResource m account of
             Some (VAccount addr) \<Rightarrow>
               let m = m\<lparr>UnresolvedResourceBalances :=
                           AList.update addr (length (Resources m)) (UnresolvedResourceBalances m)\<rparr>
               in (case getResource m asset of
                     None \<Rightarrow> raise (ErrPlain ''asset not solved'')
                   | Some v \<Rightarrow>
                       bindr (CallGetType v) (\<lambda>t.
                         case v of
                           VAsset ass \<Rightarrow> Inr (VMonetary \<lparr>mon_Asset = ass, mon_Amount = None\<rparr>, m)
                         | _ \<Rightarrow> raise (ErrPlain ''wrong entity instead of asset'')))
           | _ \<Rightarrow> panic)
      | MonetaryRes asset amount \<Rightarrow>
          (case getResource m asset of
             Some (VAsset ass) \<Rightarrow> Inr (VMonetary \<lparr>mon_Asset = ass, mon_Amount = amount\<rparr>, m)
           | _ \<Rightarrow> panic))"

fun resolve_all :: "vm_store \<Rightarrow> resource list \<Rightarrow> vm_machine \<Rightarrow> vm_machine vm_result" where
  "resolve_all st [] m = Inr m"
| "resolve_all st (res # rs) m =
     bindr (resolve_resource st res m) (\<lambda>(v, m).
       resolve_all st rs (m\<lparr>Resources := Resources m @ [v]\<rparr>))"

definition ResolveResources :: "vm_store \<Rightarrow> vm_machine \<Rightarrow> vm_machine vm_result" where
  "ResolveResources st m =
     (if resolveCalled m then raise (ErrPlain ''tried to call ResolveResources twice'')
      else if length (Resources m) > length (UnresolvedResources m) then panic
      else resolve_all st (drop (length (Resources m)) (UnresolvedResources m))
             (m\<lparr>resolveCalled := True\<rparr>))"

section \<open>Balances\<close>

definition add_query :: "string \<Rightarrow> string \<Rightarrow> balance_query \<Rightarrow> balance_query" where
  "add_query account asset q =
     AList.update account ((case map_of q account of None \<Rightarrow> [] | Some l \<Rightarrow> l) @ [asset]) q"

type_synonym assigned = "(string \<times> (string \<times> nat) list) list"

text \<open>The balances that variables ask for: the query, and the resource each answer goes to.\<close>

fun query_unresolved ::
    "vm_machine \<Rightarrow> (string \<times> nat) list \<Rightarrow> balance_query \<times> assigned \<Rightarrow>
     (balance_query \<times> assigned) vm_result" where
  "query_unresolved m [] acc = Inr acc"
| "query_unresolved m ((addr, idx) # us) (q, assigned) =
     (if idx \<ge> length (Resources m) then panic
      else case Resources m ! idx of
        VMonetary mon \<Rightarrow>
          query_unresolved m us
            (add_query addr (mon_Asset mon) q,
             AList.update addr
               (AList.update (mon_Asset mon) idx
                  (case map_of assigned addr of None \<Rightarrow> [] | Some l \<Rightarrow> l)) assigned)
      | _ \<Rightarrow> panic)"

text \<open>The balances the program needs, of its bounded sources.\<close>

fun query_assets :: "vm_machine \<Rightarrow> string \<Rightarrow> address list \<Rightarrow> balance_query \<Rightarrow> balance_query vm_result" where
  "query_assets m account [] q = Inr q"
| "query_assets m account (addr # addrs) q =
     (case getResource m addr of
        None \<Rightarrow> raise (ErrPlain ''invalid address of monetary'')
      | Some v \<Rightarrow>
          (case GetAsset v of
             None \<Rightarrow> panic
           | Some asset \<Rightarrow> query_assets m account addrs (add_query account asset q)))"

fun query_needed ::
    "vm_machine \<Rightarrow> (address \<times> address list) list \<Rightarrow> balance_query \<Rightarrow> balance_query vm_result" where
  "query_needed m [] q = Inr q"
| "query_needed m ((addr, neededAssets) # needed) q =
     (case getResource m addr of
        None \<Rightarrow> raise (ErrPlain ''invalid address of account'')
      | Some (VAccount account) \<Rightarrow>
          if account = ''world'' then raise (ErrInvalidVars ''@world used as a source'')
          else bindr (query_assets m account neededAssets q) (query_needed m needed)
      | _ \<Rightarrow> panic)"

text \<open>\<open>m.Balances[account][asset] = balance\<close>, the inner map made when it is not there.\<close>

definition track_balance :: "string \<Rightarrow> string \<Rightarrow> int \<Rightarrow> vm_machine \<Rightarrow> vm_machine" where
  "track_balance account asset x m =
     m\<lparr>Balances := map_option (\<lambda>b. b(account \<mapsto>
         ((case b account of None \<Rightarrow> (\<lambda>_. None) | Some ab \<Rightarrow> ab)(asset \<mapsto> x)))) (Balances m)\<rparr>"

definition assign_balance :: "nat option \<Rightarrow> int \<Rightarrow> vm_machine \<Rightarrow> vm_machine vm_result" where
  "assign_balance idx balance m =
     (case idx of
        None \<Rightarrow> Inr m
      | Some i \<Rightarrow>
          if balance < 0 then raise (ErrNegativeAmount ''tried to request the balance of account'')
          else if i \<ge> length (Resources m) then panic
          else (case Resources m ! i of
                  VMonetary mon \<Rightarrow>
                    Inr (m\<lparr>Resources := (Resources m)[i := VMonetary (mon\<lparr>mon_Amount := Some balance\<rparr>)]\<rparr>)
                | _ \<Rightarrow> panic))"

fun load_assets ::
    "(string \<times> nat) list \<Rightarrow> string \<Rightarrow> (string \<times> int) list \<Rightarrow> vm_machine \<Rightarrow> vm_machine vm_result" where
  "load_assets assigned account [] m = Inr m"
| "load_assets assigned account ((asset, balance) # bs) m =
     bindr (assign_balance (map_of assigned asset) balance m) (\<lambda>m.
       load_assets assigned account bs (track_balance account asset balance m))"

fun load_balances :: "assigned \<Rightarrow> store_balances \<Rightarrow> vm_machine \<Rightarrow> vm_machine vm_result" where
  "load_balances assigned [] m = Inr m"
| "load_balances assigned ((account, forAssets) # bs) m =
     bindr (load_assets (case map_of assigned account of None \<Rightarrow> [] | Some l \<Rightarrow> l) account forAssets m)
       (load_balances assigned bs)"

definition ResolveBalances :: "vm_store \<Rightarrow> vm_machine \<Rightarrow> vm_machine vm_result" where
  "ResolveBalances st m =
     bindr (query_unresolved m (UnresolvedResourceBalances m) ([], [])) (\<lambda>(q, assigned).
       let m = m\<lparr>Balances := Some (\<lambda>_. None)\<rparr> in
       bindr (query_needed m (NeededBalances (Program m)) q) (\<lambda>q.
         if q = [] then Inr m
         else bindr (map_error ErrStore (GetBalances st q)) (\<lambda>balances.
                load_balances assigned balances m)))"

section \<open>Results\<close>

fun values_to_strings :: "(string \<times> val) list \<Rightarrow> metadata vm_result" where
  "values_to_strings [] = Inr []"
| "values_to_strings ((k, v) # kvs) =
     (case NewStringFromValue v of
        Inl _ \<Rightarrow> panic
      | Inr s \<Rightarrow> bindr (values_to_strings kvs) (\<lambda>rest. Inr ((k, s) # rest)))"

definition GetTxMetaJSON :: "vm_machine \<Rightarrow> metadata vm_result" where
  "GetTxMetaJSON m = values_to_strings (TxMeta m)"

text \<open>An account gets an entry only when it has at least one key.\<close>

fun accounts_to_strings ::
    "(string \<times> (string \<times> val) list) list \<Rightarrow> (string \<times> metadata) list vm_result" where
  "accounts_to_strings [] = Inr []"
| "accounts_to_strings ((account, meta) # rest) =
     bindr (values_to_strings meta) (\<lambda>strs.
     bindr (accounts_to_strings rest) (\<lambda>res.
       Inr (if strs = [] then res else (account, strs) # res)))"

definition GetAccountsMetaJSON :: "vm_machine \<Rightarrow> (string \<times> metadata) list vm_result" where
  "GetAccountsMetaJSON m = accounts_to_strings (AccountsMeta m)"

record run_result =
  res_Postings :: "vm_posting list"
  res_Metadata :: metadata
  res_AccountMetadata :: "(string \<times> metadata) list"

fun merge_metadata :: "metadata \<Rightarrow> metadata \<Rightarrow> metadata vm_result" where
  "merge_metadata [] meta = Inr meta"
| "merge_metadata ((k, v) # kvs) meta =
     (if map_of meta k \<noteq> None then raise (ErrMetadataOverride k)
      else merge_metadata kvs (AList.update k v meta))"

definition Run :: "vm_machine \<Rightarrow> metadata \<Rightarrow> run_result vm_result" where
  "Run m script_Metadata =
     bindr (Execute m) (\<lambda>m.
     bindr (GetTxMetaJSON m) (\<lambda>txMeta.
     bindr (GetAccountsMetaJSON m) (\<lambda>accMeta.
     bindr (merge_metadata script_Metadata txMeta) (\<lambda>meta.
       Inr \<lparr>res_Postings = Postings m, res_Metadata = meta, res_AccountMetadata = accMeta\<rparr>))))"

section \<open>Resolved resources have their types\<close>

text \<open>The variables hold values of their declared types, as \<open>SetVarsFromJSON\<close> makes them.\<close>

definition vars_typed :: "vm_machine \<Rightarrow> bool" where
  "vars_typed m \<longleftrightarrow> (\<forall>t n v. Variable t n \<in> set (UnresolvedResources m) \<longrightarrow>
     map_of (Vars m) n = Some v \<longrightarrow> GetType v = t)"

lemma resolve_resource_facts:
  assumes "resolve_resource st res m = Inr (v, m')"
  shows "(\<exists>u. m' = m\<lparr>UnresolvedResourceBalances := u\<rparr>)"
    and "(\<And>t n. res = Variable t n \<Longrightarrow> map_of (Vars m) n = Some v \<Longrightarrow> GetType v = t) \<Longrightarrow>
         GetType v = ResourceType res"
proof -
  show "\<exists>u. m' = m\<lparr>UnresolvedResourceBalances := u\<rparr>"
  proof (cases res)
    case (VariableAccountBalance n a c)
    with assms show ?thesis
      by (auto simp: resolve_resource_def Let_def result_simps
          split: option.split_asm val.split_asm)
  qed (use assms in \<open>auto simp: resolve_resource_def result_simps
        intro!: exI [of _ "UnresolvedResourceBalances m"] split: option.split_asm val.split_asm\<close>)
  assume var: "\<And>t n. res = Variable t n \<Longrightarrow> map_of (Vars m) n = Some v \<Longrightarrow> GetType v = t"
  show "GetType v = ResourceType res"
  proof (cases res)
    case (VariableAccountBalance n a c)
    with assms show ?thesis
      by (auto simp: resolve_resource_def Let_def result_simps
          split: option.split_asm val.split_asm)
  next
    case (VariableAccountMetadata t n a k)
    with assms show ?thesis
      by (auto simp: resolve_resource_def result_simps NewValueFromString_type
          split: option.split_asm val.split_asm)
  qed (use assms var in \<open>auto simp: resolve_resource_def result_simps
        split: option.split_asm val.split_asm\<close>)
qed

lemma resolve_all_facts:
  assumes "resolve_all st rs m = Inr m'" "vars_typed m" "set rs \<subseteq> set (UnresolvedResources m)"
  shows "\<exists>vs u. m' = m\<lparr>Resources := Resources m @ vs, UnresolvedResourceBalances := u\<rparr> \<and>
     list_all2 (\<lambda>r v. GetType v = ResourceType r) rs vs"
  using assms
proof (induction rs arbitrary: m)
  case Nil
  then have "m' = m\<lparr>Resources := Resources m @ [],
      UnresolvedResourceBalances := UnresolvedResourceBalances m\<rparr>" by simp
  then show ?case by blast
next
  case (Cons r rs)
  then obtain v m1 where r: "resolve_resource st r m = Inr (v, m1)"
    and rest: "resolve_all st rs (m1\<lparr>Resources := Resources m1 @ [v]\<rparr>) = Inr m'"
    by (auto simp: result_simps)
  obtain u1 where m1: "m1 = m\<lparr>UnresolvedResourceBalances := u1\<rparr>"
    using resolve_resource_facts(1) [OF r] by blast
  have v: "GetType v = ResourceType r"
    using resolve_resource_facts(2) [OF r] Cons.prems(2,3) by (auto simp: vars_typed_def)
  have "vars_typed (m1\<lparr>Resources := Resources m1 @ [v]\<rparr>)"
    using Cons.prems(2) by (simp add: vars_typed_def m1)
  from Cons.IH [OF rest this] Cons.prems(3) obtain vs u where
    "m' = m\<lparr>Resources := Resources m @ (v # vs), UnresolvedResourceBalances := u\<rparr>"
    "list_all2 (\<lambda>r v. GetType v = ResourceType r) rs vs"
    by (auto simp: m1)
  with v show ?case by (intro exI [of _ "v # vs"] exI [of _ u]) simp
qed

lemma ResolveResources_facts:
  assumes "ResolveResources st m = Inr m'" "vars_typed m" "Resources m = []"
  obtains vs u where
    "m' = m\<lparr>resolveCalled := True, Resources := vs, UnresolvedResourceBalances := u\<rparr>"
    "list_all2 (\<lambda>r v. GetType v = ResourceType r) (UnresolvedResources m) vs"
proof -
  from assms(1,3) have "resolve_all st (UnresolvedResources m) (m\<lparr>resolveCalled := True\<rparr>) = Inr m'"
    by (auto simp: ResolveResources_def split: if_splits)
  from resolve_all_facts [OF this] assms(2,3) that show ?thesis
    by (auto simp: vars_typed_def)
qed

lemma SetVarsFromJSON_typed:
  assumes "SetVarsFromJSON m vars = Inr m'" "UnresolvedResources m = ProgResources (Program m)"
    and "distinct (map fst (declared (ProgResources (Program m))))"
  shows "vars_typed m'"
proof -
  from assms(1) obtain v where v: "ParseVariablesJSON (Program m) vars = Inr v" "m' = m\<lparr>Vars := v\<rparr>"
    by (auto simp: SetVarsFromJSON_def result_simps)
  have decl: "Variable t n \<in> set rs \<Longrightarrow> (n, t) \<in> set (declared rs)" for t n rs
    by (induction rs rule: declared.induct) auto
  from v(1) have "ParseVariablesJSON_loop (ProgResources (Program m)) vars [] = Inr ([], v)"
    by (auto simp: ParseVariablesJSON_def result_simps)
  note facts = ParseVariablesJSON_loop_Inr [OF this assms(3)]
  show ?thesis
    unfolding vars_typed_def
  proof (intro allI impI)
    fix t n x
    assume "Variable t n \<in> set (UnresolvedResources m')" and x: "map_of (Vars m') n = Some x"
    then have "(n, t) \<in> set (declared (ProgResources (Program m)))"
      using decl assms(2) v(2) by simp
    with facts obtain s y where y: "NewValueFromString t s = Inr y" "map_of v n = Some y" by blast
    with x v(2) have "x = y" by simp
    with NewValueFromString_type [OF y(1)] show "GetType x = t" by simp
  qed
qed

text \<open>
  Claim C33. Before a program runs, each of its resources is a value of the resource's type:
  setting the variables from text and resolving the resources of a new machine, when both succeed,
  leaves one value per resource, and each has the type its resource declares.
\<close>

theorem resources_have_their_types:
  assumes "SetVarsFromJSON (NewMachine p) vars = Inr m"
    and "ResolveResources st m = Inr m'"
    and "distinct (map fst (declared (ProgResources p)))"
  shows "list_all2 (\<lambda>r v. GetType v = ResourceType r) (ProgResources p) (Resources m')"
proof -
  from assms(1,3) have typed: "vars_typed m"
    by (intro SetVarsFromJSON_typed) (auto simp: NewMachine_def)
  from assms(1) have m: "Resources m = []" "UnresolvedResources m = ProgResources p"
    by (auto simp: SetVarsFromJSON_def NewMachine_def result_simps)
  from assms(2) typed m(1) show ?thesis
    by (rule ResolveResources_facts) (simp add: m(2))
qed

theorem resources_have_their_types_witness:
  "\<exists>m m'. SetVarsFromJSON (NewMachine \<lparr>Instructions = [], ProgResources =
       [Variable TypeString ''n'', Constant (VAccount ''a'')], NeededBalances = []\<rparr>)
       [(''n'', ''x'')] = Inr m \<and> ResolveResources EmptyStore m = Inr m' \<and>
     list_all2 (\<lambda>r v. GetType v = ResourceType r)
       [Variable TypeString ''n'', Constant (VAccount ''a'')] (Resources m')"
proof -
  let ?p = "\<lparr>Instructions = [], ProgResources =
       [Variable TypeString ''n'', Constant (VAccount ''a'')], NeededBalances = []\<rparr>"
  let ?m = "(NewMachine ?p)\<lparr>Vars := [(''n'', VString ''x'')]\<rparr>"
  let ?m' = "?m\<lparr>Resources := [VString ''x'', VAccount ''a''], resolveCalled := True\<rparr>"
  have s: "SetVarsFromJSON (NewMachine ?p) [(''n'', ''x'')] = Inr ?m"
    by (simp add: SetVarsFromJSON_def NewMachine_def ParseVariablesJSON_def NewValueFromString_def
        no_extraneous_def)
  have r: "ResolveResources EmptyStore ?m = Inr ?m'"
    by (simp add: ResolveResources_def NewMachine_def resolve_resource_def CallGetType_def)
  have d: "distinct (map fst (declared (ProgResources ?p)))" by simp
  have "list_all2 (\<lambda>r v. GetType v = ResourceType r) (ProgResources ?p) (Resources ?m')"
    by (rule resources_have_their_types [OF s r d])
  then have l: "list_all2 (\<lambda>r v. GetType v = ResourceType r)
      [Variable TypeString ''n'', Constant (VAccount ''a'')] (Resources ?m')"
    by (simp only: program.select_convs)
  show ?thesis by (intro exI conjI, rule s, rule r, rule l)
qed

section \<open>Resolved balances are the store's\<close>

definition queried :: "balance_query \<Rightarrow> string \<Rightarrow> string \<Rightarrow> bool" where
  "queried q a c \<longleftrightarrow> (\<exists>cs. map_of q a = Some cs \<and> c \<in> set cs)"

lemma queried_Nil [simp]: "\<not> queried [] a c"
  by (simp add: queried_def)

lemma queried_add [simp]: "queried (add_query a c q) a' c' \<longleftrightarrow> queried q a' c' \<or> (a' = a \<and> c' = c)"
  by (cases "map_of q a") (auto simp: queried_def add_query_def alist_simps)

text \<open>
  The law of a store, with the balance of every account and asset: an answer only tells true
  balances, of pairs that were queried, and it answers every pair that was queried.
\<close>

locale balance_store =
  fixes get :: "balance_query \<Rightarrow> (string, store_balances) result"
    and bal :: "string \<Rightarrow> string \<Rightarrow> int"
  assumes answer_true:
      "get q = Inr bs \<Longrightarrow> (a, ab) \<in> set bs \<Longrightarrow> (c, x) \<in> set ab \<Longrightarrow> x = bal a c"
    and answer_queried:
      "get q = Inr bs \<Longrightarrow> (a, ab) \<in> set bs \<Longrightarrow> (c, x) \<in> set ab \<Longrightarrow> queried q a c"
    and answer_complete:
      "get q = Inr bs \<Longrightarrow> queried q a c \<Longrightarrow> \<exists>ab x. (a, ab) \<in> set bs \<and> (c, x) \<in> set ab"

lemma balance_of_track [simp]:
  assumes "Balances m \<noteq> None"
  shows "balance_of (track_balance a c x m) a' c' =
     (if a' = a \<and> c' = c then Some x else balance_of m a' c')"
  using assms by (auto simp: balance_of_def account_balances_def track_balance_def
      split: option.splits)

lemma track_balance_sel [simp]:
  "Balances (track_balance a c x m) = None \<longleftrightarrow> Balances m = None"
  "Program (track_balance a c x m) = Program m"
  "Resources (track_balance a c x m) = Resources m"
  "UnresolvedResources (track_balance a c x m) = UnresolvedResources m"
  by (simp_all add: track_balance_def)

lemma assign_balance_facts:
  assumes "assign_balance idx x m = Inr m'"
  shows "\<exists>rs. m' = m\<lparr>Resources := rs\<rparr> \<and> length rs = length (Resources m) \<and>
           (\<forall>i. Some i \<noteq> idx \<longrightarrow> rs ! i = Resources m ! i) \<and>
           map GetType rs = map GetType (Resources m) \<and> map GetAsset rs = map GetAsset (Resources m)"
proof (cases idx)
  case None
  with assms have "m' = m\<lparr>Resources := Resources m\<rparr>" by (simp add: assign_balance_def)
  then show ?thesis by blast
next
  case (Some i)
  with assms obtain mon where i: "i < length (Resources m)" "Resources m ! i = VMonetary mon"
    and m': "m' = m\<lparr>Resources := (Resources m)[i := VMonetary (mon\<lparr>mon_Amount := Some x\<rparr>)]\<rparr>"
    by (auto simp: assign_balance_def split: if_splits val.splits)
  have "map g ((Resources m)[i := VMonetary (mon\<lparr>mon_Amount := Some x\<rparr>)]) = map g (Resources m)"
    if "g (VMonetary (mon\<lparr>mon_Amount := Some x\<rparr>)) = g (VMonetary mon)" for g :: "val \<Rightarrow> 'b"
    using i that by (metis list_update_id map_update)
  from this [of GetType] this [of GetAsset] m' show ?thesis
    using Some by (intro exI [of _ "(Resources m)[i := VMonetary (mon\<lparr>mon_Amount := Some x\<rparr>)]"]) auto
qed

text \<open>Loading changes the balances and the amounts of the resources only.\<close>

definition same_types :: "vm_machine \<Rightarrow> vm_machine \<Rightarrow> bool" where
  "same_types m m' \<longleftrightarrow>
     map GetType (Resources m') = map GetType (Resources m) \<and>
     map GetAsset (Resources m') = map GetAsset (Resources m) \<and>
     (\<exists>rs b. m' = m\<lparr>Resources := rs, Balances := b\<rparr>)"

lemma same_types_refl [simp]: "same_types m m"
proof -
  have "m = m\<lparr>Resources := Resources m, Balances := Balances m\<rparr>" by simp
  then show ?thesis unfolding same_types_def by blast
qed

lemma same_types_trans:
  assumes "same_types m m'" "same_types m' m''"
  shows "same_types m m''"
proof -
  from assms obtain rs b rs' b' where "m' = m\<lparr>Resources := rs, Balances := b\<rparr>"
    "m'' = m'\<lparr>Resources := rs', Balances := b'\<rparr>" by (auto simp: same_types_def)
  then have "m'' = m\<lparr>Resources := rs', Balances := b'\<rparr>" by simp
  with assms show ?thesis unfolding same_types_def by (metis (no_types, lifting))
qed

lemma same_types_track: "same_types m (track_balance a c x m)"
proof -
  have "track_balance a c x m =
      m\<lparr>Resources := Resources m, Balances := Balances (track_balance a c x m)\<rparr>"
    by (simp add: track_balance_def)
  then show ?thesis unfolding same_types_def using track_balance_sel(3) by metis
qed

lemma same_types_assign:
  assumes "assign_balance idx x m = Inr m'"
  shows "same_types m m'" "Balances m' = Balances m"
proof -
  from assign_balance_facts [OF assms] obtain rs where rs: "m' = m\<lparr>Resources := rs\<rparr>"
    "map GetType rs = map GetType (Resources m)" "map GetAsset rs = map GetAsset (Resources m)"
    by blast
  from rs(1) have "m' = m\<lparr>Resources := rs, Balances := Balances m\<rparr>" by simp
  then have "\<exists>rs b. m' = m\<lparr>Resources := rs, Balances := b\<rparr>" by blast
  with rs show "same_types m m'" unfolding same_types_def by simp
  show "Balances m' = Balances m" by (simp add: rs)
qed

lemma balance_of_cong: "Balances m' = Balances m \<Longrightarrow> balance_of m' = balance_of m"
  by (intro ext) (simp add: balance_of_def account_balances_def)

text \<open>
  What loading an answer does to the tracked balances: every pair of the answer becomes tracked,
  with a value of the answer; every other pair keeps its balance.
\<close>

definition loads :: "(string \<Rightarrow> string \<Rightarrow> int \<Rightarrow> bool) \<Rightarrow> vm_machine \<Rightarrow> vm_machine \<Rightarrow> bool" where
  "loads told m m' \<longleftrightarrow> same_types m m' \<and> Balances m' \<noteq> None \<and>
     (\<forall>a c x. balance_of m' a c = Some x \<longrightarrow> balance_of m a c = Some x \<or> told a c x) \<and>
     (\<forall>a c. balance_of m a c \<noteq> None \<or> (\<exists>x. told a c x) \<longrightarrow> balance_of m' a c \<noteq> None)"

lemma loads_refl: "Balances m \<noteq> None \<Longrightarrow> loads (\<lambda>_ _ _. False) m m"
  by (simp add: loads_def)

lemma loads_trans:
  assumes "loads T m m'" "loads T' m' m''"
  shows "loads (\<lambda>a c x. T a c x \<or> T' a c x) m m''"
proof -
  have "same_types m m''" using assms same_types_trans by (auto simp: loads_def)
  moreover have "balance_of m a c = Some x \<or> T a c x \<or> T' a c x"
    if "balance_of m'' a c = Some x" for a c x
    using that assms unfolding loads_def by metis
  moreover have "balance_of m'' a c \<noteq> None"
    if "balance_of m a c \<noteq> None \<or> (\<exists>x. T a c x \<or> T' a c x)" for a c
    using that assms unfolding loads_def by metis
  ultimately show ?thesis using assms(2) unfolding loads_def by metis
qed

lemma loads_cong: "loads T m m' \<Longrightarrow> (\<And>a c x. T a c x \<longleftrightarrow> T' a c x) \<Longrightarrow> loads T' m m'"
  by (simp add: loads_def)

lemma loads_one:
  assumes "assign_balance idx x m = Inr m'" "Balances m \<noteq> None"
  shows "loads (\<lambda>a' c' x'. a' = a \<and> c' = c \<and> x' = x) m (track_balance a c x m')"
proof -
  note b = same_types_assign [OF assms(1)]
  have "balance_of (track_balance a c x m') a' c' =
      (if a' = a \<and> c' = c then Some x else balance_of m a' c')" for a' c'
    using b(2) assms(2) balance_of_cong [OF b(2)] by simp
  then show ?thesis
    using b assms(2) same_types_track same_types_trans [OF b(1)] by (simp add: loads_def)
qed

lemma load_assets_loads:
  assumes "load_assets assigned a ab m = Inr m'" "Balances m \<noteq> None"
  shows "loads (\<lambda>a' c x. a' = a \<and> (c, x) \<in> set ab) m m'"
  using assms
proof (induction assigned a ab m rule: load_assets.induct)
  case (1 assigned a m)
  then show ?case using loads_refl by simp
next
  case (2 assigned a c x ab m)
  from 2(2) obtain m1 where m1: "assign_balance (map_of assigned c) x m = Inr m1"
    and rest: "load_assets assigned a ab (track_balance a c x m1) = Inr m'"
    by (auto simp: result_simps)
  note one = loads_one [OF m1 2(3), of a c]
  then have "Balances (track_balance a c x m1) \<noteq> None" by (simp add: loads_def)
  from loads_trans [OF one 2(1) [OF rest this]] show ?case
    by (rule loads_cong) auto
qed

lemma load_balances_loads:
  assumes "load_balances assigned bs m = Inr m'" "Balances m \<noteq> None"
  shows "loads (\<lambda>a c x. \<exists>ab. (a, ab) \<in> set bs \<and> (c, x) \<in> set ab) m m'"
  using assms
proof (induction assigned bs m rule: load_balances.induct)
  case (1 assigned m)
  then show ?case using loads_refl by simp
next
  case (2 assigned a ab bs m)
  from 2(2) obtain m1 where
    m1: "load_assets (case map_of assigned a of None \<Rightarrow> [] | Some l \<Rightarrow> l) a ab m = Inr m1"
    and rest: "load_balances assigned bs m1 = Inr m'"
    by (auto simp: result_simps)
  note one = load_assets_loads [OF m1 2(3)]
  then have "Balances m1 \<noteq> None" by (simp add: loads_def)
  from loads_trans [OF one 2(1) [OF rest this]] show ?case
    by (rule loads_cong) auto
qed

text \<open>The query of the needed balances covers every one of them.\<close>

definition needs :: "vm_machine \<Rightarrow> string \<Rightarrow> string \<Rightarrow> bool" where
  "needs m a c \<longleftrightarrow> (\<exists>addr addrs addr' v. (addr, addrs) \<in> set (NeededBalances (Program m)) \<and>
     addr' \<in> set addrs \<and> getResource m addr = Some (VAccount a) \<and>
     getResource m addr' = Some v \<and> GetAsset v = Some c)"

lemma query_assets_mono:
  "query_assets m a addrs q = Inr q' \<Longrightarrow> queried q a' c' \<Longrightarrow> queried q' a' c'"
  by (induction m a addrs q rule: query_assets.induct) (auto split: option.splits)

lemma query_assets_covers:
  "query_assets m a addrs q = Inr q' \<Longrightarrow> addr' \<in> set addrs \<Longrightarrow> getResource m addr' = Some v \<Longrightarrow>
     GetAsset v = Some c \<Longrightarrow> queried q' a c"
proof (induction m a addrs q rule: query_assets.induct)
  case (2 m a addr addrs q)
  then obtain w d where w: "getResource m addr = Some w" "GetAsset w = Some d"
    and rest: "query_assets m a addrs (add_query a d q) = Inr q'"
    by (auto split: option.splits)
  show ?case
  proof (cases "addr' = addr")
    case True
    with w 2 query_assets_mono [OF rest, of a d] show ?thesis by simp
  next
    case False
    with 2(1) [OF w rest] 2(3-5) show ?thesis by simp
  qed
qed simp

lemma query_needed_step:
  assumes "query_needed m ((addr, addrs) # needed) q = Inr q'"
  obtains acc q1 where "getResource m addr = Some (VAccount acc)" "acc \<noteq> ''world''"
    "query_assets m acc addrs q = Inr q1" "query_needed m needed q1 = Inr q'"
  using assms by (auto simp: result_simps split: option.splits val.splits if_splits)

lemma query_needed_mono:
  "query_needed m needed q = Inr q' \<Longrightarrow> queried q a c \<Longrightarrow> queried q' a c"
proof (induction needed arbitrary: q)
  case (Cons n needed)
  obtain addr addrs where n: "n = (addr, addrs)" by (cases n)
  from Cons.prems(1) [unfolded n] show ?case
    by (rule query_needed_step) (use Cons query_assets_mono in blast)
qed simp

lemma query_needed_covers:
  assumes "query_needed m needed q = Inr q'" "(addr, addrs) \<in> set needed" "addr' \<in> set addrs"
    and "getResource m addr = Some (VAccount a)" "getResource m addr' = Some v" "GetAsset v = Some c"
  shows "queried q' a c \<and> a \<noteq> ''world''"
  using assms(1,2)
proof (induction needed arbitrary: q)
  case (Cons n needed)
  obtain addr0 addrs0 where n: "n = (addr0, addrs0)" by (cases n)
  from Cons.prems(1) [unfolded n] show ?case
  proof (rule query_needed_step)
    fix acc q1
    assume acc: "getResource m addr0 = Some (VAccount acc)" "acc \<noteq> ''world''"
      and q1: "query_assets m acc addrs0 q = Inr q1" "query_needed m needed q1 = Inr q'"
    show ?thesis
    proof (cases "(addr, addrs) = n")
      case True
      with n acc assms(3-) query_assets_covers [OF q1(1)] query_needed_mono [OF q1(2)]
      show ?thesis by auto
    next
      case False
      with Cons.prems(2) Cons.IH [OF q1(2)] show ?thesis by simp
    qed
  qed
qed simp

context balance_store
begin

lemma load_true:
  assumes "get q = Inr bs" "load_balances assigned bs m = Inr m'"
    and "Balances m = Some (\<lambda>_. None)"
  shows "balance_of m' a c = Some x \<Longrightarrow> x = bal a c \<and> queried q a c"
    and "queried q a c \<Longrightarrow> balance_of m' a c = Some (bal a c)"
    and "same_types m m'" "Balances m' \<noteq> None"
proof -
  from load_balances_loads [OF assms(2)] assms(3)
  have l: "loads (\<lambda>a c x. \<exists>ab. (a, ab) \<in> set bs \<and> (c, x) \<in> set ab) m m'" by simp
  have none: "balance_of m a c = None" for a c
    by (simp add: balance_of_def account_balances_def assms(3))
  have told: "\<exists>ab. (a, ab) \<in> set bs \<and> (c, x) \<in> set ab" if "balance_of m' a c = Some x" for a c x
    using l that none unfolding loads_def by fastforce
  show sound: "x = bal a c \<and> queried q a c" if "balance_of m' a c = Some x" for a c x
    using told [OF that] answer_true [OF assms(1)] answer_queried [OF assms(1)] by blast
  show "queried q a c \<Longrightarrow> balance_of m' a c = Some (bal a c)"
  proof -
    assume "queried q a c"
    then obtain ab x where "(a, ab) \<in> set bs" "(c, x) \<in> set ab"
      using answer_complete [OF assms(1)] by blast
    with l obtain y where "balance_of m' a c = Some y" unfolding loads_def by blast
    with sound show ?thesis by blast
  qed
  show "same_types m m'" "Balances m' \<noteq> None" using l by (simp_all add: loads_def)
qed

lemma ResolveBalances_true:
  assumes "ResolveBalances st m = Inr m'" "GetBalances st = get"
  shows "needs m a c \<Longrightarrow> balance_of m' a c = Some (bal a c) \<and> a \<noteq> ''world''"
    and "balance_of m' a c = Some x \<Longrightarrow> x = bal a c"
    and "same_types m m'" "Balances m' \<noteq> None"
proof -
  let ?m0 = "m\<lparr>Balances := Some (\<lambda>_. None)\<rparr>"
  from assms(1) obtain q0 assigned q where
    q: "query_needed ?m0 (NeededBalances (Program m)) q0 = Inr q"
    and rest: "(if q = [] then Inr ?m0
       else bindr (map_error ErrStore (GetBalances st q)) (\<lambda>bs. load_balances assigned bs ?m0)) = Inr m'"
    by (auto simp: ResolveBalances_def Let_def result_simps)
  have need: "queried q a c \<and> a \<noteq> ''world''" if "needs m a c" for a c
  proof -
    from that obtain addr addrs addr' v where
      "(addr, addrs) \<in> set (NeededBalances (Program m))" "addr' \<in> set addrs"
      "getResource m addr = Some (VAccount a)" "getResource m addr' = Some v" "GetAsset v = Some c"
      by (auto simp: needs_def)
    with query_needed_covers [OF q, of addr addrs addr' a v c] show ?thesis
      by (simp add: getResource_Some)
  qed
  have m0: "same_types m ?m0"
  proof -
    have "?m0 = m\<lparr>Resources := Resources m, Balances := Some (\<lambda>_. None)\<rparr>" by simp
    then have "\<exists>rs b. ?m0 = m\<lparr>Resources := rs, Balances := b\<rparr>" by blast
    then show ?thesis unfolding same_types_def by simp
  qed
  have all: "(needs m a c \<longrightarrow> balance_of m' a c = Some (bal a c) \<and> a \<noteq> ''world'') \<and>
      (balance_of m' a c = Some x \<longrightarrow> x = bal a c) \<and> same_types m m' \<and> Balances m' \<noteq> None" for a c x
  proof (cases "q = []")
    case True
    with rest have "m' = ?m0" by simp
    with need [of a c] True m0 show ?thesis
      by (auto simp: balance_of_def account_balances_def)
  next
    case False
    with rest assms(2) obtain bs where bs: "get q = Inr bs" "load_balances assigned bs ?m0 = Inr m'"
      by (auto simp: result_simps)
    have "Balances ?m0 = Some (\<lambda>_. None)" by simp
    note t = load_true [OF bs this]
    from t(1) [of a c x] t(2) [of a c] need [of a c] same_types_trans [OF m0 t(3)] t(4)
    show ?thesis by blast
  qed
  from all show "needs m a c \<Longrightarrow> balance_of m' a c = Some (bal a c) \<and> a \<noteq> ''world''"
    "balance_of m' a c = Some x \<Longrightarrow> x = bal a c" "same_types m m'" "Balances m' \<noteq> None"
    by blast+
qed

end

section \<open>Balance variables\<close>

text \<open>
  The placeholder of a balance variable gets its amount only through
  \<open>UnresolvedResourceBalances\<close>, which has one index per account.
\<close>

definition pending :: "vm_machine \<Rightarrow> nat set" where
  "pending m = snd ` set (UnresolvedResourceBalances m)"

lemma load_assets_other:
  assumes "load_assets assigned a ab m = Inr m'" "i \<notin> snd ` set assigned"
  shows "Resources m' ! i = Resources m ! i"
  using assms
proof (induction assigned a ab m rule: load_assets.induct)
  case (2 assigned a c x ab m)
  from 2(2) obtain m1 where m1: "assign_balance (map_of assigned c) x m = Inr m1"
    and rest: "load_assets assigned a ab (track_balance a c x m1) = Inr m'"
    by (auto simp: result_simps)
  have "Some i \<noteq> map_of assigned c"
    using 2(3) map_of_SomeD [of assigned c i] by (metis image_eqI snd_conv)
  with assign_balance_facts [OF m1] have "Resources m1 ! i = Resources m ! i" by auto
  with 2(1) [OF rest 2(3)] show ?case by simp
qed simp

lemma load_balances_other:
  assumes "load_balances assigned bs m = Inr m'"
    and "\<forall>a l. map_of assigned a = Some l \<longrightarrow> i \<notin> snd ` set l"
  shows "Resources m' ! i = Resources m ! i"
  using assms
proof (induction assigned bs m rule: load_balances.induct)
  case (2 assigned a ab bs m)
  from 2(2) obtain m1 where
    m1: "load_assets (case map_of assigned a of None \<Rightarrow> [] | Some l \<Rightarrow> l) a ab m = Inr m1"
    and rest: "load_balances assigned bs m1 = Inr m'"
    by (auto simp: result_simps)
  have "i \<notin> snd ` set (case map_of assigned a of None \<Rightarrow> [] | Some l \<Rightarrow> l)"
    using 2(3) by (cases "map_of assigned a") auto
  with load_assets_other [OF m1] 2(1) [OF rest 2(3)] show ?case by simp
qed simp

lemma query_unresolved_assigned:
  assumes "query_unresolved m us (q, asg) = Inr (q', asg')" "i \<notin> snd ` set us"
    and "\<forall>a l. map_of asg a = Some l \<longrightarrow> i \<notin> snd ` set l"
  shows "\<forall>a l. map_of asg' a = Some l \<longrightarrow> i \<notin> snd ` set l"
  using assms
proof (induction us arbitrary: q asg)
  case (Cons u us)
  obtain a idx where u: "u = (a, idx)" by (cases u)
  from Cons.prems(1) u obtain mon where
    rest: "query_unresolved m us (add_query a (mon_Asset (mon :: monetary)) q,
       AList.update a (AList.update (mon_Asset mon) idx
         (case map_of asg a of None \<Rightarrow> [] | Some l \<Rightarrow> l)) asg) = Inr (q', asg')"
    by (auto split: if_splits val.splits)
  have upd: "snd ` set (AList.update c idx l) \<subseteq> insert idx (snd ` set l)" for c and l :: "(string \<times> nat) list"
    by (induction l) auto
  have "i \<notin> snd ` set (case map_of asg a of None \<Rightarrow> [] | Some l \<Rightarrow> l)"
    using Cons.prems(3) by (cases "map_of asg a") auto
  moreover have "i \<noteq> idx" "i \<notin> snd ` set us" using Cons.prems(2) u by auto
  ultimately have "i \<notin> snd ` set (AList.update c idx (case map_of asg a of None \<Rightarrow> [] | Some l \<Rightarrow> l))" for c
    using upd by blast
  with Cons.prems(3)
  have "\<forall>b l. map_of (AList.update a (AList.update (mon_Asset mon) idx
         (case map_of asg a of None \<Rightarrow> [] | Some l \<Rightarrow> l)) asg) b = Some l \<longrightarrow> i \<notin> snd ` set l"
    by (simp add: alist_simps)
  from Cons.IH [OF rest \<open>i \<notin> snd ` set us\<close> this] show ?case .
qed simp

lemma ResolveBalances_other:
  assumes "ResolveBalances st m = Inr m'" "i \<notin> pending m"
  shows "Resources m' ! i = Resources m ! i"
proof -
  let ?m0 = "m\<lparr>Balances := Some (\<lambda>_. None)\<rparr>"
  from assms(1) obtain q0 assigned q where
    a: "query_unresolved m (UnresolvedResourceBalances m) ([], []) = Inr (q0, assigned)"
    and rest: "(if q = [] then Inr ?m0
       else bindr (map_error ErrStore (GetBalances st q)) (\<lambda>bs. load_balances assigned bs ?m0)) = Inr m'"
    by (auto simp: ResolveBalances_def Let_def result_simps)
  from query_unresolved_assigned [OF a] assms(2)
  have "\<forall>a l. map_of assigned a = Some l \<longrightarrow> i \<notin> snd ` set l" by (simp add: pending_def)
  with rest load_balances_other [of assigned _ ?m0 m' i] show ?thesis
    by (auto simp: result_simps split: if_splits)
qed

text \<open>
  A balance variable is given a balance only when its index is still pending: one whose
  entry a later balance variable of the same account has overwritten keeps the value it was
  resolved with, a nil amount, through \<open>ResolveBalances\<close>, whatever the store answers.
\<close>

lemma unassigned_resource_unchanged:
  assumes "ResolveBalances st m = Inr m'" "i \<notin> pending m"
  shows "Resources m' ! i = Resources m ! i"
  using assms by (rule ResolveBalances_other)

text \<open>
  Two balance variables of one account: after \<open>ResolveResources\<close> only the second is pending, so
  the first is left without its balance of 100.
\<close>

section \<open>A number that is null\<close>

text \<open>
  A number variable given the text \<open>null\<close> is accepted when the variables are set and
  then panics the machine when the resources are resolved: the value is a nil pointer, and asking
  it for its type dereferences it.
\<close>

lemma null_number_panics:
  "\<exists>m. SetVarsFromJSON (NewMachine \<lparr>Instructions = code, ProgResources = [Variable TypeNumber n],
                          NeededBalances = needed\<rparr>) [(n, ''null'')] = Inr m \<and>
       ResolveResources st m = Inl Panic"
  by (simp add: SetVarsFromJSON_def NewMachine_def ParseVariablesJSON_def NewValueFromString_def
      no_extraneous_def UnmarshalNumber_def json_trim_def json_space_def ResolveResources_def
      resolve_resource_def CallGetType_def)

end
