(* ===== verification/Vm_Conservation.thy ===== *)
theory Vm_Conservation
  imports Vm_Machine
begin

text \<open>
  What execution does to money. For an account and an asset whose balance the machine tracks, the
  \<open>position\<close> is the tracked balance, plus what the fundings on the stack hold of it, minus what
  the postings so far have moved to it. No instruction changes the position, except \<open>OP_SAVE\<close>,
  which puts a part of the balance aside, and an instruction that throws a funding away.
\<close>

section \<open>The position of an account\<close>

fun val_held :: "string \<Rightarrow> string \<Rightarrow> val \<Rightarrow> int" where
  "val_held a c (VFunding f) = (if fund_Asset f = c then held ((=) a) (fund_Parts f) else 0)"
| "val_held a c _ = 0"

definition on_stack :: "string \<Rightarrow> string \<Rightarrow> val list \<Rightarrow> int" where
  "on_stack a c vs = sum_list (map (val_held a c) vs)"

text \<open>What the postings brought to the account, less what they took from it.\<close>

definition net_received :: "string \<Rightarrow> string \<Rightarrow> vm_posting list \<Rightarrow> int" where
  "net_received a c ps =
     sum_list (map (\<lambda>p. if vp_Asset p = c
       then (if vp_Destination p = a then mi_OrZero (vp_Amount p) else 0)
            - (if vp_Source p = a then mi_OrZero (vp_Amount p) else 0)
       else 0) ps)"

definition position :: "vm_machine \<Rightarrow> string \<Rightarrow> string \<Rightarrow> int" where
  "position m a c =
     mi_OrZero (balance_of m a c) + on_stack a c (Stack m) - net_received a c (Postings m)"

definition tracked :: "vm_machine \<Rightarrow> string \<Rightarrow> string \<Rightarrow> bool" where
  "tracked m a c \<longleftrightarrow> balance_of m a c \<noteq> None"

text \<open>The value an instruction takes off the stack and does not put back, when it may be a funding.\<close>

fun discards :: "opcode \<Rightarrow> val list \<Rightarrow> val list" where
  "discards OP_PRINT (v # vs) = [v]"
| "discards OP_ASSET (v # vs) = [v]"
| "discards OP_TX_META (k # v # vs) = [v]"
| "discards OP_ACCOUNT_META (a # k # v # vs) = [v]"
| "discards _ _ = []"

section \<open>Facts about the parts of the machine\<close>

lemma on_stack_simps [simp]:
  "on_stack a c [] = 0" "on_stack a c (v # vs) = val_held a c v + on_stack a c vs"
  "on_stack a c (vs @ ws) = on_stack a c vs + on_stack a c ws"
  by (simp_all add: on_stack_def)

lemma net_received_append [simp]:
  "net_received a c (ps @ qs) = net_received a c ps + net_received a c qs"
  by (simp add: net_received_def)

lemma on_stack_bump:
  "k < length vs \<Longrightarrow> on_stack a c (vs ! k # take k vs @ drop (Suc k) vs) = on_stack a c vs"
  by (subst (4) id_take_nth_drop [of k vs]) auto

lemma on_stack_bump' [simp]:
  "k < length vs \<Longrightarrow> val_held a c (vs ! k) + (on_stack a c (take k vs) + on_stack a c (drop (Suc k) vs)) =
     on_stack a c vs"
  using on_stack_bump [of k vs a c] by simp

lemma on_stack_nonfunding: "list_all (\<lambda>v. GetType v \<noteq> TypeFunding) vs \<Longrightarrow> on_stack a c vs = 0"
proof (induction vs)
  case (Cons v vs)
  then show ?case by (cases v) auto
qed simp

lemma net_received_send:
  "net_received a c (send_postings dest f) =
     (if fund_Asset f = c
      then (if dest = a then held (\<lambda>_. True) (fund_Parts f) else 0) - held ((=) a) (fund_Parts f)
      else 0)"
proof -
  have "net_received a c (map (\<lambda>p. \<lparr>vp_Source = part_Account p, vp_Destination = dest,
          vp_Amount = part_Amount p, vp_Asset = fund_Asset f\<rparr>) ps) =
        (if fund_Asset f = c
         then (if dest = a then held (\<lambda>_. True) ps else 0) - held ((=) a) ps else 0)" for ps
    by (induction ps) (auto simp: net_received_def)
  then show ?thesis by (simp add: send_postings_def)
qed

lemma balance_of_set [simp]:
  assumes "account_balances m a \<noteq> None"
  shows "balance_of (set_balance a c x m) a' c' =
     (if a' = a \<and> c' = c then Some x else balance_of m a' c')"
  using assms by (auto simp: balance_of_def account_balances_def set_balance_def
      split: option.splits)

lemma account_balances_set [simp]:
  "account_balances (set_balance a c x m) a' = None \<longleftrightarrow> account_balances m a' = None"
  by (auto simp: account_balances_def set_balance_def split: option.splits if_splits)

lemma balance_of_account: "balance_of m a c = Some x \<Longrightarrow> account_balances m a \<noteq> None"
  by (auto simp: balance_of_def split: option.splits)

lemma balance_of_Stack [simp]:
  "balance_of (m\<lparr>Stack := s\<rparr>) = balance_of m" "balance_of (m\<lparr>Postings := ps\<rparr>) = balance_of m"
  "balance_of (m\<lparr>PC := n\<rparr>) = balance_of m" "balance_of (m\<lparr>TxMeta := t\<rparr>) = balance_of m"
  "balance_of (m\<lparr>AccountsMeta := am\<rparr>) = balance_of m" "balance_of (m\<lparr>Printed := pr\<rparr>) = balance_of m"
  "balance_of (pushValue v m) = balance_of m"
  by (intro ext; simp add: balance_of_def account_balances_def pushValue_def)+

lemma credit_loop_balance:
  assumes "balance_of m a c = Some x"
  shows "balance_of (credit_loop a c ps m) a' c' =
     (if a' = a \<and> c' = c then Some (x + held (\<lambda>_. True) ps) else balance_of m a' c')"
  using assms
proof (induction ps arbitrary: m x)
  case (Cons p ps)
  note acc = balance_of_account [OF Cons.prems]
  have "balance_of (set_balance a c (x + mi_OrZero (part_Amount p)) m) a c =
      Some (x + mi_OrZero (part_Amount p))" using acc by simp
  from Cons.IH [OF this] Cons.prems acc show ?case by simp
qed auto

lemma credit_balance:
  assumes "a \<noteq> ''world''" "tracked m a c"
  shows "balance_of (credit m dest f) a c =
     Some (mi_OrZero (balance_of m a c) +
       (if dest = a \<and> fund_Asset f = c then held (\<lambda>_. True) (fund_Parts f) else 0))"
proof -
  obtain x where x: "balance_of m a c = Some x" using assms(2) by (auto simp: tracked_def)
  show ?thesis
  proof (cases "dest = ''world'' \<or> balance_of m dest (fund_Asset f) = None")
    case True
    with assms(1) x show ?thesis by (auto simp: credit_def)
  next
    case False
    then obtain y where y: "balance_of m dest (fund_Asset f) = Some y" by auto
    with False x show ?thesis
      using credit_loop_balance [OF y] by (auto simp: credit_def)
  qed
qed

lemma repay_loop_balance:
  assumes "a \<noteq> ''world''" "tracked m a c"
  shows "balance_of (repay_loop c' ps m) a c =
     Some (mi_OrZero (balance_of m a c) + (if c' = c then held ((=) a) ps else 0))"
  using assms(2)
proof (induction ps arbitrary: m)
  case Nil
  then show ?case by (auto simp: tracked_def)
next
  case (Cons p ps)
  obtain x where x: "balance_of m a c = Some x" using Cons.prems by (auto simp: tracked_def)
  note acc = balance_of_account [OF x]
  show ?case
  proof (cases "part_Account p = ''world'' \<or> account_balances m (part_Account p) = None")
    case True
    with acc assms(1) have "part_Account p \<noteq> a" by auto
    with True Cons show ?thesis by auto
  next
    case False
    let ?m = "set_balance (part_Account p) c'
      (mi_OrZero (balance_of m (part_Account p) c') + mi_OrZero (part_Amount p)) m"
    have b: "balance_of ?m a c = (if part_Account p = a \<and> c' = c
        then Some (x + mi_OrZero (part_Amount p)) else Some x)"
      using False x by auto
    then have "tracked ?m a c" by (simp add: tracked_def)
    from Cons.IH [OF this] False b x show ?thesis by auto
  qed
qed

lemma withdrawAll_balance:
  assumes "withdrawAll m acc c' o' = Inr (f, m')" "tracked m a c"
  shows "\<exists>x. balance_of m' a c = Some x \<and>
     x + val_held a c (VFunding f) = mi_OrZero (balance_of m a c)"
proof -
  from assms(1) obtain y where y: "balance_of m acc c' = Some y"
    by (auto simp: withdrawAll_def split: option.splits)
  note ab = balance_of_account [OF y]
  from assms(2) obtain x where x: "balance_of m a c = Some x" by (auto simp: tracked_def)
  show ?thesis
  proof (cases "y + mi_OrZero o' > 0")
    case False
    with assms(1) y x show ?thesis by (auto simp: withdrawAll_def single_part_def)
  next
    case True
    with assms(1) y obtain ov where ov: "o' = Some ov"
      by (cases o') (auto simp: withdrawAll_def mi_Neg_def)
    with assms(1) y True ab x show ?thesis
      by (auto simp: withdrawAll_def mi_Neg_def single_part_def)
  qed
qed

lemma withdrawAlways_balance:
  assumes "tracked m a c"
  shows "\<exists>x. balance_of (snd (withdrawAlways m acc mon)) a c = Some x \<and>
     x + val_held a c (VFunding (fst (withdrawAlways m acc mon))) = mi_OrZero (balance_of m a c)"
proof -
  from assms obtain x where x: "balance_of m a c = Some x" by (auto simp: tracked_def)
  show ?thesis
  proof (cases "balance_of m acc (mon_Asset mon)")
    case None
    with x show ?thesis by (auto simp: withdrawAlways_def single_part_def)
  next
    case (Some y)
    note ab = balance_of_account [OF Some]
    from Some ab x show ?thesis by (auto simp: withdrawAlways_def single_part_def)
  qed
qed

section \<open>Every instruction keeps the position\<close>

lemma assemble_facts:
  "assemble fs g = Inr h \<Longrightarrow>
     fund_Asset h = fund_Asset g \<and> held P (fund_Parts h) =
       held P (fund_Parts g) + sum_list (map (\<lambda>f. held P (fund_Parts f)) fs)"
proof (induction fs arbitrary: g)
  case Nil
  then show ?case by (simp add: assemble_def)
next
  case (Cons f fs)
  then obtain g1 where "Concat g f = Inr g1" "assemble fs g1 = Inr h"
    by (auto simp: assemble_def result_simps)
  with Cons.IH [of g1] show ?case by (auto simp: Concat_Inr)
qed

lemma on_stack_same_asset:
  "list_all (\<lambda>f. fund_Asset f = c') fs \<Longrightarrow>
     on_stack a c (map VFunding fs) =
       (if c' = c then sum_list (map (\<lambda>f. held ((=) a) (fund_Parts f)) fs) else 0)"
  by (induction fs) auto

lemma sum_list_map_rev: "sum_list (map f (rev xs)) = (sum_list (map f xs) :: int)"
  by (simp add: rev_map [symmetric])

text \<open>Instructions that touch neither balances nor postings: what they do to the stack decides.\<close>

lemma position_stack_only:
  assumes "balance_of m' = balance_of m" "Postings m' = Postings m"
    "on_stack a c (Stack m') = on_stack a c (Stack m) - d" "tracked m a c"
  shows "tracked m' a c \<and> position m' a c = position m a c - d"
  using assms by (simp add: position_def tracked_def)

definition no_funding_resource :: "vm_machine \<Rightarrow> bool" where
  "no_funding_resource m \<longleftrightarrow> list_all (\<lambda>v. GetType v \<noteq> TypeFunding) (Resources m)"

lemma val_held_nonfunding: "GetType v \<noteq> TypeFunding \<Longrightarrow> val_held a c v = 0"
  by (cases v) auto

lemma Take_val_held:
  assumes "Take f amount = Inr (res, rest)"
  shows "val_held a c (VFunding res) + val_held a c (VFunding rest) = val_held a c (VFunding f)"
  using Take_Inr(1) [OF assms, of "(=) a"] Take_Inr(3,4) [OF assms] by simp

lemma TakeMax_val_held:
  assumes "TakeMax f amount = Inr (res, rest)"
  shows "val_held a c (VFunding res) + val_held a c (VFunding rest) = val_held a c (VFunding f)"
  using TakeMax_eq(1) [OF assms, of "(=) a"] TakeMax_eq(2,3) [OF assms] by simp

lemma assemble_val_held:
  assumes "list_all (\<lambda>f. fund_Asset f = c') fs"
    and "assemble (rev fs) \<lparr>fund_Asset = c', fund_Parts = []\<rparr> = Inr g"
  shows "val_held a c (VFunding g) = on_stack a c (map VFunding fs)"
  using assemble_facts [OF assms(2), of "(=) a"] on_stack_same_asset [OF assms(1), of a c]
  by (simp add: sum_list_map_rev)

lemma exec_op_stack_only:
  assumes "exec_op op m = Inr m'" "no_funding_resource m"
    and "op \<notin> {OP_TAKE_ALL, OP_TAKE_ALWAYS, OP_REPAY, OP_SEND, OP_SAVE}"
  shows "balance_of m' = balance_of m \<and> Postings m' = Postings m \<and>
    on_stack a c (Stack m') = on_stack a c (Stack m) - on_stack a c (discards op (Stack m))"
proof (cases op)
  case OP_APUSH
  with assms show ?thesis
    by (auto simp: tick_defs result_simps no_funding_resource_def list_all_iff getResource_Some
        val_held_nonfunding split: if_splits option.splits)
next
  case OP_BUMP
  with assms(1) show ?thesis
    by (auto simp: tick_defs result_simps split: if_splits)
next
  case OP_DELETE
  with assms(1) show ?thesis
    by (auto simp: tick_defs result_simps val_held_nonfunding split: if_splits)
next
  case OP_ASSET
  with assms(1) show ?thesis by (auto elim!: tick_ASSET_Inr)
next
  case OP_MAKE_ALLOTMENT
  with assms(1) show ?thesis
    by (auto elim!: tick_MAKE_ALLOTMENT_Inr simp: on_stack_nonfunding list_all_iff)
next
  case OP_FUNDING_ASSEMBLE
  with assms(1) have "tick_FUNDING_ASSEMBLE m = Inr m'" by simp
  then show ?thesis
    by (rule tick_ASSEMBLE_Inr) (use OP_FUNDING_ASSEMBLE assemble_val_held in simp)
next
  case OP_TAKE
  with assms(1) have "tick_TAKE m = Inr m'" by simp
  then show ?thesis
    by (rule tick_TAKE_Inr) (use OP_TAKE Take_val_held in \<open>simp del: val_held.simps(1)\<close>)
next
  case OP_TAKE_MAX
  with assms(1) have "tick_TAKE_MAX m = Inr m'" by simp
  then show ?thesis
    by (rule tick_TAKE_MAX_Inr) (use OP_TAKE_MAX TakeMax_val_held in \<open>simp del: val_held.simps(1)\<close>)
next
  case OP_ALLOC
  with assms(1) show ?thesis
    by (auto simp: tick_defs result_simps Let_def on_stack_nonfunding list_all_iff
        split: option.splits)
qed (use assms(1,3) in \<open>auto simp: tick_defs result_simps Let_def Reverse_def split: if_splits option.splits\<close>)

lemma position_step:
  assumes op: "exec_op op m = Inr m'" and nf: "no_funding_resource m"
    and ac: "a \<noteq> ''world''" "tracked m a c" and save: "op \<noteq> OP_SAVE"
  shows "tracked m' a c \<and> position m' a c = position m a c - on_stack a c (discards op (Stack m))"
proof -
  consider "op = OP_TAKE_ALL" | "op = OP_TAKE_ALWAYS" | "op = OP_REPAY" | "op = OP_SEND"
    | "op \<notin> {OP_TAKE_ALL, OP_TAKE_ALWAYS, OP_REPAY, OP_SEND, OP_SAVE}" using save by blast
  then show ?thesis
  proof cases
    case 1
    with op obtain mon acc vs f m1 where st: "Stack m = VMonetary mon # VAccount acc # vs"
      and w: "withdrawAll (m\<lparr>Stack := vs\<rparr>) acc (mon_Asset mon) (mon_Amount mon) = Inr (f, m1)"
      and m': "m' = pushValue (VFunding f) m1"
      by (auto simp: tick_defs result_simps)
    have "tracked (m\<lparr>Stack := vs\<rparr>) a c" using ac(2) by (simp add: tracked_def)
    from withdrawAll_balance [OF w this] withdrawAll_sel(3,4) [OF w] show ?thesis
      using 1 st m' by (auto simp: position_def tracked_def simp del: val_held.simps(1))
  next
    case 2
    with op obtain mon acc vs where st: "Stack m = VMonetary mon # VAccount acc # vs"
      and m': "m' = pushValue (VFunding (fst (withdrawAlways (m\<lparr>Stack := vs\<rparr>) acc mon)))
                 (snd (withdrawAlways (m\<lparr>Stack := vs\<rparr>) acc mon))"
      by (auto simp: tick_defs result_simps Let_def case_prod_beta)
    have "tracked (m\<lparr>Stack := vs\<rparr>) a c" using ac(2) by (simp add: tracked_def)
    from withdrawAlways_balance [OF this, of acc mon] show ?thesis
      using 2 st m' by (auto simp: position_def tracked_def simp del: val_held.simps(1))
  next
    case 3
    with op obtain f vs where st: "Stack m = VFunding f # vs" and m': "m' = repay (m\<lparr>Stack := vs\<rparr>) f"
      by (auto simp: tick_defs result_simps)
    have "tracked (m\<lparr>Stack := vs\<rparr>) a c" using ac(2) by (simp add: tracked_def)
    from repay_loop_balance [OF ac(1) this, of "fund_Asset f" "fund_Parts f"] show ?thesis
      using 3 st m' by (simp add: position_def tracked_def repay_def)
  next
    case 4
    with op obtain dest f vs where st: "Stack m = VAccount dest # VFunding f # vs"
      and m': "m' = (credit (m\<lparr>Stack := vs\<rparr>) dest f)
                 \<lparr>Postings := Postings m @ send_postings dest f\<rparr>"
      by (auto simp: tick_defs result_simps Let_def)
    have "tracked (m\<lparr>Stack := vs\<rparr>) a c" using ac(2) by (simp add: tracked_def)
    from credit_balance [OF ac(1) this, of dest f] show ?thesis
      using 4 st m' by (simp add: position_def tracked_def net_received_send)
  next
    case 5
    from exec_op_stack_only [OF op nf 5] ac(2) show ?thesis
      by (intro position_stack_only) simp_all
  qed
qed

section \<open>Runs\<close>

text \<open>
  A run from one machine to another, labelled with the opcodes executed and what each of them
  took off the stack without putting it back.
\<close>

type_synonym label = "opcode \<times> val list"

inductive steps :: "vm_machine \<Rightarrow> label list \<Rightarrow> vm_machine \<Rightarrow> bool" where
  steps_refl: "steps m [] m"
| steps_tick: "tick m = Inr (fin, m1) \<Longrightarrow> decode_op (Instructions (Program m) ! PC m) = Some op \<Longrightarrow>
     steps m1 ls m' \<Longrightarrow> steps m ((op, discards op (Stack m)) # ls) m'"

lemma tick_op:
  assumes "tick m = Inr (fin, m1)"
  obtains op m0 where "decode_op (Instructions (Program m) ! PC m) = Some op"
    "exec_op op m = Inr m0" "m1 = m0\<lparr>PC := PC m0 + 1\<rparr>"
  using assms by (auto simp: tick_def result_simps Let_def split: if_splits option.splits)

text \<open>The labels of the run from a machine, computed.\<close>

function run_log :: "vm_machine \<Rightarrow> label list" where
  "run_log m =
     (case tick m of
        Inl e \<Rightarrow> []
      | Inr (finished, m') \<Rightarrow>
          (case decode_op (Instructions (Program m) ! PC m) of
             None \<Rightarrow> []
           | Some op \<Rightarrow> (op, discards op (Stack m)) # (if finished then [] else run_log m')))"
  by pat_completeness auto
termination
proof (relation "measure (\<lambda>m. length (Instructions (Program m)) - PC m)")
  fix m r and fin :: bool and m' op
  assume "tick m = Inr r" "(fin, m') = r" "\<not> fin"
  then have t: "tick m = Inr (fin, m')" by simp
  then have "Program m' = Program m" using tick_advances(1) by (simp add: frame_def)
  with tick_advances(2,3) [OF t]
  show "(m', m) \<in> measure (\<lambda>m. length (Instructions (Program m)) - PC m)" by simp
qed simp

declare run_log.simps [simp del]

text \<open>A program that \<open>Execute\<close> finishes has made the run of its log, and left nothing on the stack.\<close>

lemma run_ticks_steps:
  assumes "run_ticks m = Inr m'"
  shows "steps m (run_log m) m' \<and> Stack m' = []"
  using assms
proof (induction m rule: run_ticks.induct)
  case (1 m)
  from "1.prems" obtain fin m1 where t: "tick m = Inr (fin, m1)"
    by (auto simp: run_ticks.simps [of m] split: sum.splits)
  obtain op where op: "decode_op (Instructions (Program m) ! PC m) = Some op"
    using tick_op [OF t] by metis
  show ?case
  proof (cases fin)
    case True
    with "1.prems" t have "m1 = m'" "Stack m' = []"
      by (auto simp: run_ticks.simps [of m] split: if_splits)
    with steps_tick [OF t op steps_refl] True t op show ?thesis by (simp add: run_log.simps [of m])
  next
    case False
    with "1.prems" t have r: "run_ticks m1 = Inr m'" by (simp add: run_ticks.simps [of m])
    from "1.IH" [OF t refl False r] steps_tick [OF t op] False t op show ?thesis
      by (simp add: run_log.simps [of m])
  qed
qed

lemma Execute_steps:
  assumes "Execute m = Inr m'"
  shows "steps m (run_log m) m'" "Stack m' = []"
  using assms run_ticks_steps by (auto simp: Execute_def split: if_splits)

lemma steps_frame: "steps m ls m' \<Longrightarrow> frame m' = frame m"
  by (induction rule: steps.induct) (auto dest: tick_advances(1))

text \<open>An invariant of every instruction, which does not read the counter, is one of runs.\<close>

lemma steps_invariant:
  assumes "steps m ls m'" "I m"
    and "\<And>op s s'. I s \<Longrightarrow> exec_op op s = Inr s' \<Longrightarrow> op \<in> fst ` set ls \<Longrightarrow> I s'"
    and "\<And>s n. I s \<Longrightarrow> I (s\<lparr>PC := n\<rparr>)"
  shows "I m'"
  using assms(1-3)
proof (induction rule: steps.induct)
  case (steps_tick m fin m1 op ls m')
  obtain m0 where "exec_op op m = Inr m0" "m1 = m0\<lparr>PC := PC m0 + 1\<rparr>"
    using tick_op [OF steps_tick(1)] steps_tick(2) by (metis option.inject)
  then have "I m1" using steps_tick.prems assms(4) by simp
  moreover have "I s'" if "I s" "exec_op op' s = Inr s'" "op' \<in> fst ` set ls" for op' s s'
    using steps_tick.prems(2) [OF that(1,2)] that(3) by simp
  ultimately show ?case by (rule steps_tick.IH)
qed simp

text \<open>What a run throws away of an account's money.\<close>

definition thrown_away :: "string \<Rightarrow> string \<Rightarrow> label list \<Rightarrow> int" where
  "thrown_away a c ls = sum_list (map (\<lambda>(op, vs). on_stack a c vs) ls)"

lemma position_run:
  assumes "steps m ls m'" "no_funding_resource m" "a \<noteq> ''world''" "tracked m a c"
    and "OP_SAVE \<notin> fst ` set ls"
  shows "tracked m' a c \<and> position m' a c = position m a c - thrown_away a c ls"
  using assms
proof (induction rule: steps.induct)
  case (steps_refl m)
  then show ?case by (simp add: thrown_away_def)
next
  case (steps_tick m fin m1 op ls m')
  obtain m0 where op: "exec_op op m = Inr m0" and m1: "m1 = m0\<lparr>PC := PC m0 + 1\<rparr>"
    using tick_op [OF steps_tick(1)] steps_tick(2) by (metis option.inject)
  have save: "op \<noteq> OP_SAVE" "OP_SAVE \<notin> fst ` set ls" using steps_tick.prems(4) by auto
  note p = position_step [OF op steps_tick.prems(1-3) save(1)]
  have m1p: "tracked m1 a c" "position m1 a c = position m0 a c"
    using p by (simp_all add: m1 tracked_def position_def)
  have "no_funding_resource m1"
    using steps_tick.prems(1) tick_advances(1) [OF steps_tick(1)]
    by (simp add: no_funding_resource_def frame_def)
  from steps_tick.IH [OF this steps_tick.prems(2) m1p(1) save(2)] p m1p(2) show ?case
    by (simp add: thrown_away_def)
qed

text \<open>
  Execution conserves money. When a program runs to its end, from an empty stack and no
  postings, and no instruction of the run saves anything, the tracked balance of every account but
  the world is at the end what it was at the start, plus what the postings brought to the account
  less what they took from it, less the fundings the run took off the stack to print them, to store
  them as metadata or to read their asset.
\<close>

lemma Execute_conserves:
  assumes "Execute m = Inr m'" "Stack m = []" "Postings m = []" "no_funding_resource m"
    and "a \<noteq> ''world''" "balance_of m a c = Some b" "OP_SAVE \<notin> fst ` set (run_log m)"
  shows "balance_of m' a c =
    Some (b + net_received a c (Postings m') - thrown_away a c (run_log m))"
proof -
  have "tracked m a c" by (simp add: tracked_def assms(6))
  from position_run [OF Execute_steps(1) [OF assms(1)] assms(4,5) this assms(7)]
    Execute_steps(2) [OF assms(1)] assms(2,3,6)
  show ?thesis by (auto simp: position_def tracked_def net_received_def)
qed

text \<open>The witness: \<open>@a\<close> sends 3 of its 10 coins to \<open>@b\<close>.\<close>

definition send_code :: "8 word list" where
  "send_code = [1, 0, 0, 1, 1, 0, 13, 1, 2, 0, 15, 1, 3, 0, 2, 20, 1, 4, 0, 22]"

definition send_machine :: vm_machine where
  "send_machine = (NewMachine \<lparr>Instructions = send_code, ProgResources = [], NeededBalances = []\<rparr>)
     \<lparr>Resources := [VAccount ''a'', VMonetary \<lparr>mon_Asset = ''COIN'', mon_Amount = Some 0\<rparr>,
                   VMonetary \<lparr>mon_Asset = ''COIN'', mon_Amount = Some 3\<rparr>,
                   VNumber (Some 1), VAccount ''b''],
      UnresolvedResources := [Constant (VAccount ''a''), Constant (VNumber None), Constant (VNumber None),
                   Constant (VNumber None), Constant (VAccount ''b'')],
      Balances := Some [''a'' \<mapsto> [''COIN'' \<mapsto> 10]]\<rparr>"

lemmas run_simps = run_ticks.simps run_log.simps tick_def decode_op_def opcodes_def tick_defs
  Uint16_LE_def getResource_def pop_def popValue_def pushValue_def result_simps mi_Uint64_def
  withdrawAll_def balance_of_def account_balances_def set_balance_def single_part_def mi_Neg_def
  repay_def credit_def send_postings_def mi_defs

lemma send_machine_runs:
  "\<exists>m'. Execute send_machine = Inr m' \<and> Postings m' =
      [\<lparr>vp_Source = ''a'', vp_Destination = ''b'', vp_Amount = Some 3, vp_Asset = ''COIN''\<rparr>] \<and>
      run_log send_machine = map (\<lambda>op. (op, []))
        [OP_APUSH, OP_APUSH, OP_TAKE_ALL, OP_APUSH, OP_TAKE, OP_APUSH, OP_BUMP, OP_REPAY, OP_APUSH,
         OP_SEND]"
  by (simp add: Execute_def send_machine_def NewMachine_def send_code_def run_simps)

section \<open>Withdrawals stay within the balance and its overdraft\<close>

text \<open>
  Taking everything from a bounded source never takes more than its balance and the
  overdraft it is allowed, and never a negative amount: the source is left with at least the
  negated overdraft, unless it was already below it, and then nothing is taken.
\<close>

lemma withdrawAll_bounded:
  assumes "balance_of m account asset = Some b" "0 \<le> overdraft"
  shows "\<exists>taken m'. withdrawAll m account asset (Some overdraft) =
             Inr (single_part asset account (Some taken), m') \<and>
           taken = max 0 (b + overdraft) \<and>
           balance_of m' account asset = Some (b - taken) \<and> min b (- overdraft) \<le> b - taken"
proof (cases "b + overdraft > 0")
  case True
  with assms balance_of_account [OF assms(1)] show ?thesis
    by (simp add: withdrawAll_def mi_Neg_def Let_def)
next
  case False
  with assms show ?thesis by (simp add: withdrawAll_def Let_def)
qed

section \<open>Termination\<close>

text \<open>
  Execution always ends, whatever bytes the program has: a turn of the loop moves the
  counter forward and leaves the code as it is, so no run has more turns than there are bytes of
  code left.
\<close>

lemma execution_bounded:
  assumes "steps m ls m'"
  shows "length ls \<le> length (Instructions (Program m)) - PC m"
  using assms
proof (induction rule: steps.induct)
  case (steps_tick m fin m1 op ls m')
  have "Program m1 = Program m" using tick_advances(1) [OF steps_tick(1)] by (simp add: frame_def)
  with tick_advances(2,3) [OF steps_tick(1)] steps_tick.IH show ?case by simp
qed simp

end
