(* ===== verification/Vm_Check.thy ===== *)
theory Vm_Check
  imports Vm_Conservation Vm_Resolve
begin

text \<open>
  A checker of machine code, and its soundness. \<open>check\<close> runs a program on abstract values (the
  resource a value comes from, a type, a known amount, the length of an allotment) and accepts it
  when every instruction finds what it needs on the stack. A checked program cannot panic the
  machine; \<open>Compiler_Sound\<close> shows that the compiler only emits checked programs.
\<close>

section \<open>Abstract values\<close>

datatype aval =
    ARes address
  | AT type
  | AMonConst int
  | AMonNonneg
  | AAllot nat

fun aty :: "resource list \<Rightarrow> aval \<Rightarrow> type" where
  "aty rs (ARes a) = ResourceType (rs ! unat a)"
| "aty rs (AT t) = t"
| "aty rs (AMonConst k) = TypeMonetary"
| "aty rs AMonNonneg = TypeMonetary"
| "aty rs (AAllot n) = TypeAllotment"

text \<open>The number a value is known to be: it comes from a constant.\<close>

fun known_number :: "resource list \<Rightarrow> aval \<Rightarrow> int option" where
  "known_number rs (ARes a) =
     (case rs ! unat a of Constant (VNumber n) \<Rightarrow> n | _ \<Rightarrow> None)"
| "known_number rs _ = None"

fun known_nonneg :: "aval \<Rightarrow> bool" where
  "known_nonneg (AMonConst k) = (0 \<le> k)"
| "known_nonneg AMonNonneg = True"
| "known_nonneg _ = False"

text \<open>The types a value may have to be stored as metadata.\<close>

definition storable_type :: "type \<Rightarrow> bool" where
  "storable_type t \<longleftrightarrow> t \<noteq> TypeFunding \<and> t \<noteq> TypeAllotment \<and> t \<noteq> TypeAmount"

section \<open>The checker\<close>

text \<open>Take \<open>n\<close> values of one type off the abstract stack.\<close>

definition drop_typed :: "resource list \<Rightarrow> type \<Rightarrow> nat \<Rightarrow> aval list \<Rightarrow> aval list option" where
  "drop_typed rs t n S =
     (if n \<le> length S \<and> list_all (\<lambda>v. aty rs v = t) (take n S) then Some (drop n S) else None)"

fun check_op :: "resource list \<Rightarrow> opcode \<Rightarrow> aval list \<Rightarrow> aval list option" where
  "check_op rs OP_BUMP (n # S) =
     (case known_number rs n of
        None \<Rightarrow> None
      | Some k \<Rightarrow> if 0 \<le> k \<and> k < 2 ^ 64 \<and> nat k < length S
                  then Some (S ! nat k # take (nat k) S @ drop (Suc (nat k)) S) else None)"
| "check_op rs OP_DELETE (v # S) = (if aty rs v \<noteq> TypeFunding then Some S else None)"
| "check_op rs OP_IADD (b # a # S) =
     (if aty rs b = TypeNumber \<and> aty rs a = TypeNumber then Some (AT TypeNumber # S) else None)"
| "check_op rs OP_ISUB (b # a # S) =
     (if aty rs b = TypeNumber \<and> aty rs a = TypeNumber then Some (AT TypeNumber # S) else None)"
| "check_op rs OP_PRINT (v # S) = (if aty rs v \<noteq> TypeFunding then Some S else None)"
| "check_op rs OP_FAIL S = Some S"
| "check_op rs OP_ASSET (v # S) =
     (if aty rs v = TypeAsset \<or> aty rs v = TypeMonetary then Some (AT TypeAsset # S) else None)"
| "check_op rs OP_MONETARY_NEW (n # a # S) =
     (if aty rs n = TypeNumber \<and> aty rs a = TypeAsset
      then Some ((case known_number rs n of None \<Rightarrow> AT TypeMonetary | Some k \<Rightarrow> AMonConst k) # S)
      else None)"
| "check_op rs OP_MONETARY_ADD (b # a # S) =
     (if aty rs b = TypeMonetary \<and> aty rs a = TypeMonetary then Some (AT TypeMonetary # S) else None)"
| "check_op rs OP_MONETARY_SUB (b # a # S) =
     (if aty rs b = TypeMonetary \<and> aty rs a = TypeMonetary then Some (AT TypeMonetary # S) else None)"
| "check_op rs OP_MAKE_ALLOTMENT (n # S) =
     (case known_number rs n of
        None \<Rightarrow> None
      | Some k \<Rightarrow> if 0 \<le> k \<and> k < 2 ^ 64
                  then map_option ((#) (AAllot (nat k))) (drop_typed rs TypePortion (nat k) S)
                  else None)"
| "check_op rs OP_TAKE_ALL (mon # acc # S) =
     (if aty rs mon = TypeMonetary \<and> aty rs acc = TypeAccount then Some (AT TypeFunding # S) else None)"
| "check_op rs OP_TAKE_ALWAYS (mon # acc # S) =
     (if known_nonneg mon \<and> aty rs acc = TypeAccount then Some (AT TypeFunding # S) else None)"
| "check_op rs OP_TAKE (mon # f # S) =
     (if aty rs mon = TypeMonetary \<and> aty rs f = TypeFunding
      then Some (AT TypeFunding # AT TypeFunding # S) else None)"
| "check_op rs OP_TAKE_MAX (mon # f # S) =
     (if aty rs mon = TypeMonetary \<and> aty rs f = TypeFunding
      then Some (AT TypeFunding # AT TypeFunding # AMonNonneg # S) else None)"
| "check_op rs OP_FUNDING_ASSEMBLE (n # S) =
     (case known_number rs n of
        None \<Rightarrow> None
      | Some k \<Rightarrow> if 1 \<le> k \<and> k < 2 ^ 63
                  then map_option ((#) (AT TypeFunding)) (drop_typed rs TypeFunding (nat k) S)
                  else None)"
| "check_op rs OP_FUNDING_SUM (f # S) =
     (if aty rs f = TypeFunding then Some (AMonNonneg # f # S) else None)"
| "check_op rs OP_FUNDING_REVERSE (f # S) =
     (if aty rs f = TypeFunding then Some (AT TypeFunding # S) else None)"
| "check_op rs OP_REPAY (f # S) = (if aty rs f = TypeFunding then Some S else None)"
| "check_op rs OP_ALLOC (AAllot n # mon # S) =
     (if aty rs mon = TypeMonetary then Some (replicate n (AT TypeMonetary) @ S) else None)"
| "check_op rs OP_SEND (acc # f # S) =
     (if aty rs acc = TypeAccount \<and> aty rs f = TypeFunding then Some S else None)"
| "check_op rs OP_TX_META (k # v # S) =
     (if aty rs k = TypeString \<and> storable_type (aty rs v) then Some S else None)"
| "check_op rs OP_ACCOUNT_META (a # k # v # S) =
     (if aty rs a = TypeAccount \<and> aty rs k = TypeString \<and> storable_type (aty rs v)
      then Some S else None)"
| "check_op rs OP_SAVE (a # v # S) =
     (if aty rs a = TypeAccount \<and> (aty rs v = TypeAsset \<or> aty rs v = TypeMonetary)
      then Some S else None)"
| "check_op rs op S = None"

fun check :: "resource list \<Rightarrow> 8 word list \<Rightarrow> aval list \<Rightarrow> aval list option" where
  "check rs [] S = Some S"
| "check rs (b # bs) S =
     (case decode_op b of
        None \<Rightarrow> None
      | Some op \<Rightarrow>
          if op = OP_APUSH then
            (case bs of
               lo # hi # bs' \<Rightarrow>
                 if unat (Uint16_LE lo hi) < length rs
                 then check rs bs' (ARes (Uint16_LE lo hi) # S) else None
             | _ \<Rightarrow> None)
          else (case check_op rs op S of None \<Rightarrow> None | Some S' \<Rightarrow> check rs bs S'))"

lemma check_append:
  "check rs c S = Some S' \<Longrightarrow> check rs (c @ d) S = check rs d S'"
proof (induction rs c S rule: check.induct)
  case (2 rs b bs S)
  then show ?case by (auto split: option.splits if_splits list.splits)
qed simp

section \<open>Concrete values\<close>

text \<open>No nil amount, no nil portion, no negative part.\<close>

fun val_ok :: "val \<Rightarrow> bool" where
  "val_ok (VNumber n) = (n \<noteq> None)"
| "val_ok (VMonetary m) = (mon_Amount m \<noteq> None)"
| "val_ok (VPortion p) = (Remaining p \<or> Specific p \<noteq> None)"
| "val_ok (VFunding f) = parts_nonneg (fund_Parts f)"
| "val_ok _ = True"

fun matches :: "val list \<Rightarrow> aval \<Rightarrow> val \<Rightarrow> bool" where
  "matches R (ARes a) v = (unat a < length R \<and> v = R ! unat a)"
| "matches R (AT t) v = (GetType v = t)"
| "matches R (AMonConst k) v = (\<exists>c. v = VMonetary \<lparr>mon_Asset = c, mon_Amount = Some k\<rparr>)"
| "matches R AMonNonneg v = (\<exists>c x. v = VMonetary \<lparr>mon_Asset = c, mon_Amount = Some x\<rparr> \<and> 0 \<le> x)"
| "matches R (AAllot n) v = (\<exists>al. v = VAllotment al \<and> length al = n)"

text \<open>The resources of a resolved machine agree with those of the program.\<close>

definition resources_ok :: "resource list \<Rightarrow> val list \<Rightarrow> bool" where
  "resources_ok rs R \<longleftrightarrow>
     list_all2 (\<lambda>r v. GetType v = ResourceType r \<and> (\<forall>c. r = Constant c \<longrightarrow> v = c)) rs R \<and>
     list_all val_ok R \<and> list_all (\<lambda>v. storable_type (GetType v)) R"

definition stack_ok :: "val list \<Rightarrow> aval list \<Rightarrow> val list \<Rightarrow> bool" where
  "stack_ok R S vs \<longleftrightarrow> list_all2 (matches R) S vs \<and> list_all val_ok vs"

lemma stack_ok_simps [simp]:
  "stack_ok R [] vs \<longleftrightarrow> vs = []"
  "stack_ok R S [] \<longleftrightarrow> S = []"
  "stack_ok R (a # S) (v # vs) \<longleftrightarrow> matches R a v \<and> val_ok v \<and> stack_ok R S vs"
  by (auto simp: stack_ok_def)

lemma stack_ok_Cons: "stack_ok R (a # S) vs \<longleftrightarrow>
    (\<exists>v ws. vs = v # ws \<and> matches R a v \<and> val_ok v \<and> stack_ok R S ws)"
  by (cases vs) auto

lemma stack_ok_append:
  "stack_ok R S vs \<Longrightarrow> stack_ok R T ws \<Longrightarrow> stack_ok R (S @ T) (vs @ ws)"
  by (simp add: stack_ok_def list_all2_appendI)

lemma stack_ok_length: "stack_ok R S vs \<Longrightarrow> length vs = length S"
  by (auto simp: stack_ok_def dest: list_all2_lengthD)

lemma stack_ok_take: "stack_ok R S vs \<Longrightarrow> stack_ok R (take n S) (take n vs)"
  by (auto simp: stack_ok_def list_all_iff dest: in_set_takeD)

lemma stack_ok_drop: "stack_ok R S vs \<Longrightarrow> stack_ok R (drop n S) (drop n vs)"
  by (auto simp: stack_ok_def list_all_iff dest: in_set_dropD)

lemma stack_ok_nth: "stack_ok R S vs \<Longrightarrow> i < length S \<Longrightarrow> matches R (S ! i) (vs ! i) \<and> val_ok (vs ! i)"
  by (auto simp: stack_ok_def list_all_length list_all2_lengthD intro: list_all2_nthD)

lemma matches_type:
  assumes "matches R a v" "resources_ok rs R"
  shows "GetType v = aty rs a"
proof (cases a)
  case (ARes x)
  from assms(2) have l: "list_all2 (\<lambda>r v. GetType v = ResourceType r \<and> (\<forall>c. r = Constant c \<longrightarrow> v = c)) rs R"
    by (simp add: resources_ok_def)
  from list_all2_lengthD [OF l] list_all2_nthD [OF l, of "unat x"] assms(1) ARes
  show ?thesis by simp
qed (use assms in auto)

lemma matches_known:
  assumes "matches R a v" "resources_ok rs R" "known_number rs a = Some k"
  shows "v = VNumber (Some k)"
proof (cases a)
  case (ARes x)
  with assms have x: "unat x < length R" "v = R ! unat x" "rs ! unat x = Constant (VNumber (Some k))"
    by (auto split: resource.splits val.splits)
  from assms(2) have l: "list_all2 (\<lambda>r v. GetType v = ResourceType r \<and> (\<forall>c. r = Constant c \<longrightarrow> v = c)) rs R"
    by (simp add: resources_ok_def)
  then have "length rs = length R" by (rule list_all2_lengthD)
  with list_all2_nthD [OF l, of "unat x"] x show ?thesis by simp
qed (use assms in auto)

lemma matches_nonneg:
  assumes "matches R a v" "known_nonneg a"
  obtains c x where "v = VMonetary \<lparr>mon_Asset = c, mon_Amount = Some x\<rparr>" "0 \<le> x"
  using assms by (cases a) auto

text \<open>What a value of a type is.\<close>

lemma typed_val:
  "val_ok v \<Longrightarrow> GetType v = TypeNumber \<Longrightarrow> \<exists>n. v = VNumber (Some n)"
  "GetType v = TypeAccount \<Longrightarrow> \<exists>a. v = VAccount a"
  "GetType v = TypeAsset \<Longrightarrow> \<exists>a. v = VAsset a"
  "GetType v = TypeString \<Longrightarrow> \<exists>a. v = VString a"
  "val_ok v \<Longrightarrow> GetType v = TypePortion \<Longrightarrow>
     \<exists>p. v = VPortion p \<and> (Remaining p \<or> Specific p \<noteq> None)"
  "val_ok v \<Longrightarrow> GetType v = TypeFunding \<Longrightarrow> \<exists>f. v = VFunding f \<and> parts_nonneg (fund_Parts f)"
  by (cases v; simp; blast?)+

lemma typed_monetary:
  assumes "val_ok v" "GetType v = TypeMonetary"
  shows "\<exists>c x. v = VMonetary \<lparr>mon_Asset = c, mon_Amount = Some x\<rparr>"
proof -
  from assms obtain m x where "v = VMonetary m" "mon_Amount m = Some x" by (cases v) auto
  then have "v = VMonetary \<lparr>mon_Asset = mon_Asset m, mon_Amount = Some x\<rparr>" by simp
  then show ?thesis by blast
qed

section \<open>Soundness of an instruction\<close>

text \<open>
  What holds of a machine besides its stack: the stored metadata can be printed, and no posting
  is negative.
\<close>

definition storable_val :: "val \<Rightarrow> bool" where
  "storable_val v \<longleftrightarrow> val_ok v \<and> storable_type (GetType v)"

definition outputs_ok :: "vm_machine \<Rightarrow> bool" where
  "outputs_ok m \<longleftrightarrow>
     list_all (\<lambda>(k, v). storable_val v) (TxMeta m) \<and>
     list_all (\<lambda>(a, am). list_all (\<lambda>(k, v). storable_val v) am) (AccountsMeta m) \<and>
     list_all (\<lambda>p. mi_nonneg (vp_Amount p)) (Postings m)"

lemma outputs_ok_upd [simp]:
  "outputs_ok (m\<lparr>Stack := s\<rparr>) = outputs_ok m" "outputs_ok (m\<lparr>Balances := b\<rparr>) = outputs_ok m"
  "outputs_ok (m\<lparr>PC := n\<rparr>) = outputs_ok m" "outputs_ok (m\<lparr>Printed := pr\<rparr>) = outputs_ok m"
  "outputs_ok (pushValue v m) = outputs_ok m"
  by (simp_all add: outputs_ok_def pushValue_def)

lemma set_balance_outputs [simp]: "outputs_ok (set_balance a c x m) = outputs_ok m"
  by (auto simp: set_balance_def split: option.splits)

lemma credit_outputs [simp]: "outputs_ok (credit m a f) = outputs_ok m"
proof -
  have "outputs_ok (credit_loop a c ps n) = outputs_ok n" for a c ps n
    by (induction a c ps n rule: credit_loop.induct) (auto split: option.splits)
  then show ?thesis by (simp add: credit_def)
qed

lemma repay_outputs [simp]: "outputs_ok (repay m f) = outputs_ok m"
proof -
  have "outputs_ok (repay_loop c ps n) = outputs_ok n" for c ps n
    by (induction c ps n rule: repay_loop.induct) auto
  then show ?thesis by (simp add: repay_def)
qed

lemma list_all_update:
  "list_all P al \<Longrightarrow> P (k, v) \<Longrightarrow> list_all P (AList.update k v al)"
  by (induction al) auto

lemma list_all_map_of: "list_all P al \<Longrightarrow> map_of al k = Some v \<Longrightarrow> P (k, v)"
  by (auto simp: list_all_iff dest: map_of_SomeD)

text \<open>
  The result of an instruction is fine: no panic, and a machine whose stack matches the abstract
  one.
\<close>

definition result_ok :: "val list \<Rightarrow> aval list \<Rightarrow> vm_machine vm_result \<Rightarrow> bool" where
  "result_ok R S r \<longleftrightarrow>
     (case r of Inl e \<Rightarrow> e \<noteq> Panic | Inr m \<Rightarrow> stack_ok R S (Stack m) \<and> outputs_ok m)"

lemma result_ok_simps [simp]:
  "result_ok R S (Inr m) \<longleftrightarrow> stack_ok R S (Stack m) \<and> outputs_ok m"
  "result_ok R S (raise e)" "result_ok R S (Inl (Raised e))" "\<not> result_ok R S (Inl Panic)"
  by (simp_all add: result_ok_def raise_def)

lemma pop_eq [simp]:
  "Stack m = v # vs \<Longrightarrow> popValue m = Inr (v, m\<lparr>Stack := vs\<rparr>)"
  "Stack m = v # vs \<Longrightarrow> f v = Some x \<Longrightarrow> pop f m = Inr (x, m\<lparr>Stack := vs\<rparr>)"
  by (simp_all add: popValue_def pop_def)

lemma withdrawAlways_parts [simp]:
  "fund_Parts (fst (withdrawAlways m a mon)) =
     [\<lparr>part_Account = a, part_Amount = mon_Amount mon\<rparr>]"
  "outputs_ok (snd (withdrawAlways m a mon)) = outputs_ok m"
  by (simp_all add: withdrawAlways_def single_part_def split: option.splits)

lemma withdrawAll_ok:
  "case withdrawAll m a c (Some ov) of
     Inl e \<Rightarrow> e \<noteq> Panic
   | Inr (f, m') \<Rightarrow> parts_nonneg (fund_Parts f) \<and> Stack m' = Stack m \<and> (outputs_ok m \<longrightarrow> outputs_ok m')"
  by (auto simp: withdrawAll_def mi_Neg_def single_part_def Let_def raise_def split: option.splits)

lemma send_postings_ok:
  "parts_nonneg (fund_Parts f) \<Longrightarrow> list_all (\<lambda>p. mi_nonneg (vp_Amount p)) (send_postings a f)"
  by (simp add: send_postings_def parts_nonneg_def list_all_iff)

lemma length_Allocate [simp]: "length (Allocate a x) = length a"
  by (simp add: Allocate_def Let_def)

lemma NewAllotment_loop_no_panic:
  assumes "list_all (\<lambda>p. Remaining p \<or> Specific p \<noteq> None) ps"
  shows "NewAllotment_loop ps i st \<noteq> Inl Panic"
  using assms
proof (induction ps arbitrary: i st)
  case (Cons p ps)
  then show ?case by (cases st) (auto split: option.splits)
qed simp

lemma NewAllotment_loop_length:
  "NewAllotment_loop ps i (al, t, r) = Inr (al', t', r') \<Longrightarrow> length al' = length al + length ps"
proof (induction ps arbitrary: i al t r)
  case (Cons p ps)
  then show ?case by (fastforce split: if_splits option.splits)
qed simp

lemma NewAllotment_ok:
  assumes "list_all (\<lambda>p. Remaining p \<or> Specific p \<noteq> None) ps"
  shows "NewAllotment ps \<noteq> Inl Panic"
    and "NewAllotment ps = Inr al \<Longrightarrow> length al = length ps"
proof -
  show "NewAllotment ps \<noteq> Inl Panic"
    using NewAllotment_loop_no_panic [OF assms]
    by (auto simp: NewAllotment_def result_simps split: prod.splits if_splits)
  show "NewAllotment ps = Inr al \<Longrightarrow> length al = length ps"
    by (auto simp: NewAllotment_def result_simps split: prod.splits if_splits option.splits
        dest!: NewAllotment_loop_length)
qed

text \<open>Popping the values of a stack that matches.\<close>

lemma pop_portions_ok:
  assumes "drop_typed rs TypePortion n S = Some T" "stack_ok R S (Stack m)" "resources_ok rs R"
  shows "\<exists>ps vs. pop_portions n m = Inr (ps, m\<lparr>Stack := vs\<rparr>) \<and> length ps = n \<and> stack_ok R T vs \<and>
     list_all (\<lambda>p. Remaining p \<or> Specific p \<noteq> None) ps"
  using assms(1,2)
proof (induction n arbitrary: m S)
  case 0
  then show ?case by (auto simp: drop_typed_def intro!: exI [of _ "Stack m"])
next
  case (Suc n)
  then obtain a S' where S: "S = a # S'" "aty rs a = TypePortion" "drop_typed rs TypePortion n S' = Some T"
    by (cases S) (auto simp: drop_typed_def split: if_splits)
  with Suc.prems(2) obtain v vs where v: "Stack m = v # vs" "matches R a v" "val_ok v" "stack_ok R S' vs"
    by (auto simp: stack_ok_Cons)
  with matches_type [OF v(2) assms(3)] S obtain p where p: "v = VPortion p" "Remaining p \<or> Specific p \<noteq> None"
    using typed_val(5) by metis
  from Suc.IH [OF S(3), of "m\<lparr>Stack := vs\<rparr>"] v p show ?case by fastforce
qed

lemma pop_fundings_ok:
  assumes "drop_typed rs TypeFunding n S = Some T" "stack_ok R S (Stack m)" "resources_ok rs R"
  shows "case pop_fundings c n m of
      Inl e \<Rightarrow> e \<noteq> Panic
    | Inr (fs, m') \<Rightarrow> (\<exists>vs. m' = m\<lparr>Stack := vs\<rparr> \<and> stack_ok R T vs) \<and>
        list_all (\<lambda>f. fund_Asset f = c \<and> parts_nonneg (fund_Parts f)) fs"
  using assms(1,2)
proof (induction n arbitrary: m S)
  case 0
  then show ?case by (auto simp: drop_typed_def intro!: exI [of _ "Stack m"])
next
  case (Suc n)
  then obtain a S' where S: "S = a # S'" "aty rs a = TypeFunding" "drop_typed rs TypeFunding n S' = Some T"
    by (cases S) (auto simp: drop_typed_def split: if_splits)
  with Suc.prems(2) obtain v vs where v: "Stack m = v # vs" "matches R a v" "val_ok v" "stack_ok R S' vs"
    by (auto simp: stack_ok_Cons)
  with matches_type [OF v(2) assms(3)] S obtain f where f: "v = VFunding f" "parts_nonneg (fund_Parts f)"
    using typed_val(6) by metis
  show ?case
  proof (cases "pop_fundings c n (m\<lparr>Stack := vs\<rparr>)")
    case (Inl e)
    with Suc.IH [OF S(3), of "m\<lparr>Stack := vs\<rparr>"] v f show ?thesis by (auto simp: raise_def)
  next
    case (Inr r)
    with Suc.IH [OF S(3), of "m\<lparr>Stack := vs\<rparr>"] v f show ?thesis by (auto simp: raise_def)
  qed
qed

lemma assemble_ok:
  "list_all (\<lambda>f. fund_Asset f = c \<and> parts_nonneg (fund_Parts f)) fs \<Longrightarrow> fund_Asset g = c \<Longrightarrow>
     parts_nonneg (fund_Parts g) \<Longrightarrow> \<exists>h. assemble fs g = Inr h \<and> parts_nonneg (fund_Parts h)"
proof (induction fs arbitrary: g)
  case (Cons f fs)
  then have "parts_nonneg (concat_parts (fund_Parts g) (fund_Parts f))"
    by (simp add: parts_nonneg_concat_parts)
  with Cons show ?case by (auto simp: assemble_def Concat_def)
qed (auto simp: assemble_def)

text \<open>The shapes of an abstract stack that an instruction accepts.\<close>

lemma stack2:
  assumes "stack_ok R (a # b # T) vs" "resources_ok rs R"
  obtains v w ws where "vs = v # w # ws" "matches R a v" "matches R b w" "val_ok v" "val_ok w"
    "GetType v = aty rs a" "GetType w = aty rs b" "stack_ok R T ws"
  using assms matches_type by (auto simp: stack_ok_Cons)

lemma stack1:
  assumes "stack_ok R (a # T) vs" "resources_ok rs R"
  obtains v ws where "vs = v # ws" "matches R a v" "val_ok v" "GetType v = aty rs a" "stack_ok R T ws"
  using assms matches_type by (auto simp: stack_ok_Cons)

lemma mi_Uint64_small: "0 \<le> k \<Longrightarrow> k < 2 ^ 64 \<Longrightarrow> mi_Uint64 (Some k) = Inr (nat k)"
proof -
  assume k: "0 \<le> k" "k < 2 ^ 64"
  then have "nat k < 2 ^ 64" by (simp add: nat_less_iff)
  with k show ?thesis by (simp add: mi_Uint64_def)
qed

lemma ok_BUMP:
  assumes "check_op rs OP_BUMP S = Some S'" "stack_ok R S (Stack m)" "resources_ok rs R" "outputs_ok m"
  shows "result_ok R S' (tick_BUMP m)"
proof -
  from assms(1) obtain n T k where S: "S = n # T" "known_number rs n = Some k" "0 \<le> k" "k < 2 ^ 64"
    "nat k < length T" "S' = T ! nat k # take (nat k) T @ drop (Suc (nat k)) T"
    by (cases S) (auto split: option.splits if_splits)
  from assms(2,3) obtain v ws where v: "Stack m = v # ws" "matches R n v" "stack_ok R T ws"
    unfolding S(1) by (rule stack1) 
  from matches_known [OF v(2) assms(3) S(2)] have n: "v = VNumber (Some k)" .
  have "stack_ok R S' (ws ! nat k # take (nat k) ws @ drop (Suc (nat k)) ws)"
    using stack_ok_nth [OF v(3) S(5)] stack_ok_append [OF stack_ok_take [OF v(3)] stack_ok_drop [OF v(3)]]
    by (simp add: S(6))
  with v(1) n S(3-5) stack_ok_length [OF v(3)] assms(4) show ?thesis
    by (simp add: tick_BUMP_def mi_Uint64_small)
qed

lemma ok_arith:
  assumes "check_op rs op S = Some S'" "stack_ok R S (Stack m)" "resources_ok rs R" "outputs_ok m"
    and "op \<in> {OP_IADD, OP_ISUB}"
  shows "result_ok R S' (exec_op op m)"
proof -
  from assms(1,5) obtain a b T where S: "S = b # a # T" "aty rs a = TypeNumber" "aty rs b = TypeNumber"
    "S' = AT TypeNumber # T"
    by (cases S; cases "tl S") (auto split: if_splits)
  from assms(2,3) obtain v w ws where v: "Stack m = v # w # ws" "val_ok v" "val_ok w"
    "GetType v = TypeNumber" "GetType w = TypeNumber" "stack_ok R T ws"
    unfolding S(1) by (rule stack2) (simp add: S)
  from typed_val(1) [OF v(2,4)] typed_val(1) [OF v(3,5)] v assms(4,5) show ?thesis
    by (auto simp: S(4) tick_IADD_def tick_ISUB_def mi_Add_def mi_Sub_def)
qed

lemma ok_pop1:
  assumes "check_op rs op S = Some S'" "stack_ok R S (Stack m)" "resources_ok rs R" "outputs_ok m"
    and "op \<in> {OP_DELETE, OP_PRINT, OP_ASSET}"
  shows "result_ok R S' (exec_op op m)"
proof -
  from assms(1,5) obtain a T where S: "S = a # T" "aty rs a \<noteq> TypeFunding"
    "op = OP_ASSET \<longrightarrow> (aty rs a = TypeAsset \<or> aty rs a = TypeMonetary)"
    "S' = (if op = OP_ASSET then AT TypeAsset # T else T)"
    by (cases S) (auto split: if_splits)
  from assms(2,3) obtain v ws where v: "Stack m = v # ws" "val_ok v" "GetType v = aty rs a"
    "stack_ok R T ws"
    unfolding S(1) by (rule stack1)
  have null: "v \<noteq> VNumber None" using v(2) by auto
  show ?thesis
  proof (cases "op = OP_ASSET")
    case True
    with S v show ?thesis
      using typed_val(3) [of v] typed_monetary [OF v(2)] assms(4)
      by (auto simp: tick_ASSET_def)
  next
    case False
    with S v null assms(4,5) show ?thesis
      by (auto simp: tick_DELETE_def tick_PRINT_def CallGetType_def)
  qed
qed

lemma ok_MONETARY_NEW:
  assumes "check_op rs OP_MONETARY_NEW S = Some S'" "stack_ok R S (Stack m)" "resources_ok rs R"
    "outputs_ok m"
  shows "result_ok R S' (tick_MONETARY_NEW m)"
proof -
  from assms(1) obtain n a T where S: "S = n # a # T" "aty rs n = TypeNumber" "aty rs a = TypeAsset"
    "S' = (case known_number rs n of None \<Rightarrow> AT TypeMonetary | Some k \<Rightarrow> AMonConst k) # T"
    by (cases S; cases "tl S") (auto split: if_splits)
  from assms(2,3) obtain v w ws where v: "Stack m = v # w # ws" "matches R n v" "val_ok v"
    "GetType v = TypeNumber" "GetType w = TypeAsset" "stack_ok R T ws"
    unfolding S(1) by (rule stack2) (simp add: S)
  from typed_val(1) [OF v(3,4)] typed_val(3) [OF v(5)] v matches_known [OF v(2) assms(3)] assms(4)
  show ?thesis
    by (auto simp: S(4) tick_MONETARY_NEW_def split: option.splits)
qed

lemma ok_monetary_arith:
  assumes "check_op rs op S = Some S'" "stack_ok R S (Stack m)" "resources_ok rs R" "outputs_ok m"
    and "op \<in> {OP_MONETARY_ADD, OP_MONETARY_SUB}"
  shows "result_ok R S' (exec_op op m)"
proof -
  from assms(1,5) obtain a b T where S: "S = b # a # T" "aty rs a = TypeMonetary"
    "aty rs b = TypeMonetary" "S' = AT TypeMonetary # T"
    by (cases S; cases "tl S") (auto split: if_splits)
  from assms(2,3) obtain v w ws where v: "Stack m = v # w # ws" "val_ok v" "val_ok w"
    "GetType v = TypeMonetary" "GetType w = TypeMonetary" "stack_ok R T ws"
    unfolding S(1) by (rule stack2) (simp add: S)
  from typed_monetary [OF v(2,4)] typed_monetary [OF v(3,5)] v assms(4,5) show ?thesis
    by (auto simp: S(4) tick_MONETARY_ADD_def tick_MONETARY_SUB_def mi_Add_def mi_Sub_def)
qed

lemma ok_MAKE_ALLOTMENT:
  assumes "check_op rs OP_MAKE_ALLOTMENT S = Some S'" "stack_ok R S (Stack m)" "resources_ok rs R"
    "outputs_ok m"
  shows "result_ok R S' (tick_MAKE_ALLOTMENT m)"
proof -
  from assms(1) obtain n T k U where S: "S = n # T" "known_number rs n = Some k" "0 \<le> k" "k < 2 ^ 64"
    "drop_typed rs TypePortion (nat k) T = Some U" "S' = AAllot (nat k) # U"
    by (cases S) (auto split: option.splits if_splits)
  from assms(2,3) obtain v ws where v: "Stack m = v # ws" "matches R n v" "stack_ok R T ws"
    unfolding S(1) by (rule stack1)
  from matches_known [OF v(2) assms(3) S(2)] have n: "v = VNumber (Some k)" .
  from v(3) have "stack_ok R T (Stack (m\<lparr>Stack := ws\<rparr>))" by simp
  from pop_portions_ok [OF S(5) this assms(3)] obtain ps us where
    ps: "pop_portions (nat k) (m\<lparr>Stack := ws\<rparr>) = Inr (ps, m\<lparr>Stack := us\<rparr>)" "length ps = nat k"
    "stack_ok R U us" "list_all (\<lambda>p. Remaining p \<or> Specific p \<noteq> None) ps" by auto
  show ?thesis
  proof (cases "NewAllotment ps")
    case (Inl e)
    with NewAllotment_ok(1) [OF ps(4)] v(1) n S(3,4) ps(1) show ?thesis
      by (cases e) (simp_all add: tick_MAKE_ALLOTMENT_def mi_Uint64_small map_error_def)
  next
    case (Inr al)
    with NewAllotment_ok(2) [OF ps(4)] v(1) n S(3,4,6) ps assms(4) show ?thesis
      by (simp add: tick_MAKE_ALLOTMENT_def mi_Uint64_small)
  qed
qed

lemma ok_TAKE_ALL:
  assumes "check_op rs OP_TAKE_ALL S = Some S'" "stack_ok R S (Stack m)" "resources_ok rs R"
    "outputs_ok m"
  shows "result_ok R S' (tick_TAKE_ALL m)"
proof -
  from assms(1) obtain mon acc T where S: "S = mon # acc # T" "aty rs mon = TypeMonetary"
    "aty rs acc = TypeAccount" "S' = AT TypeFunding # T"
    by (cases S; cases "tl S") (auto split: if_splits)
  from assms(2,3) obtain v w ws where v: "Stack m = v # w # ws" "val_ok v"
    "GetType v = TypeMonetary" "GetType w = TypeAccount" "stack_ok R T ws"
    unfolding S(1) by (rule stack2) (simp add: S)
  from typed_monetary [OF v(2,3)] obtain c x where c: "v = VMonetary \<lparr>mon_Asset = c, mon_Amount = Some x\<rparr>"
    by blast
  from typed_val(2) [OF v(4)] obtain a where a: "w = VAccount a" by blast
  from withdrawAll_ok [of "m\<lparr>Stack := ws\<rparr>" a c x] v c a assms(4) show ?thesis
    by (cases "withdrawAll (m\<lparr>Stack := ws\<rparr>) a c (Some x)")
      (auto simp: S(4) tick_TAKE_ALL_def result_ok_def)
qed

lemma ok_TAKE_ALWAYS:
  assumes "check_op rs OP_TAKE_ALWAYS S = Some S'" "stack_ok R S (Stack m)" "resources_ok rs R"
    "outputs_ok m"
  shows "result_ok R S' (tick_TAKE_ALWAYS m)"
proof -
  from assms(1) obtain mon acc T where S: "S = mon # acc # T" "known_nonneg mon"
    "aty rs acc = TypeAccount" "S' = AT TypeFunding # T"
    by (cases S; cases "tl S") (auto split: if_splits)
  from assms(2,3) obtain v w ws where v: "Stack m = v # w # ws" "matches R mon v"
    "GetType w = TypeAccount" "stack_ok R T ws"
    unfolding S(1) by (rule stack2) (simp add: S)
  from matches_nonneg [OF v(2) S(2)] obtain c x where
    c: "v = VMonetary \<lparr>mon_Asset = c, mon_Amount = Some x\<rparr>" "0 \<le> x" by blast
  from typed_val(2) [OF v(3)] obtain a where a: "w = VAccount a" by blast
  show ?thesis
    using v c a assms(4) by (simp add: S(4) tick_TAKE_ALWAYS_def Let_def case_prod_beta)
qed

lemma ok_TAKE:
  assumes "check_op rs OP_TAKE S = Some S'" "stack_ok R S (Stack m)" "resources_ok rs R" "outputs_ok m"
  shows "result_ok R S' (tick_TAKE m)"
proof -
  from assms(1) obtain mon f T where S: "S = mon # f # T" "aty rs mon = TypeMonetary"
    "aty rs f = TypeFunding" "S' = AT TypeFunding # AT TypeFunding # T"
    by (cases S; cases "tl S") (auto split: if_splits)
  from assms(2,3) obtain v w ws where v: "Stack m = v # w # ws" "val_ok v" "val_ok w"
    "GetType v = TypeMonetary" "GetType w = TypeFunding" "stack_ok R T ws"
    unfolding S(1) by (rule stack2) (simp add: S)
  from typed_monetary [OF v(2,4)] obtain c x where c: "v = VMonetary \<lparr>mon_Asset = c, mon_Amount = Some x\<rparr>"
    by blast
  from typed_val(6) [OF v(3,5)] obtain g where g: "w = VFunding g" "parts_nonneg (fund_Parts g)" by blast
  have st: "tick_TAKE m = (if fund_Asset g \<noteq> c
       then raise (ErrInvalidScript ''cannot take from different assets'')
       else bindr (map_error (\<lambda>e. case e of InsufficientFund msg \<Rightarrow> ErrInsufficientFund msg
                                          | ConcatDifferentAssets \<Rightarrow> ErrInsufficientFund [])
                     (Take g (Some x))) (\<lambda>(result, remainder).
         Inr (pushValue (VFunding result) (pushValue (VFunding remainder) (m\<lparr>Stack := ws\<rparr>)))))"
    using v c g by (simp add: tick_TAKE_def del: Take.simps)
  show ?thesis
  proof (cases "Take g (Some x)")
    case (Inl e)
    with Take_no_panic [OF g(2), of x] show ?thesis
      unfolding st by (cases e) (simp_all add: map_error_def del: Take.simps)
  next
    case (Inr r)
    obtain res rest where r: "r = (res, rest)" by (cases r)
    from Take_Inr(5,6) [OF Inr [unfolded r] g(2)] Inr r v(6) assms(4) show ?thesis
      unfolding st by (simp add: S(4) del: Take.simps)
  qed
qed

lemma ok_TAKE_MAX:
  assumes "check_op rs OP_TAKE_MAX S = Some S'" "stack_ok R S (Stack m)" "resources_ok rs R" "outputs_ok m"
  shows "result_ok R S' (tick_TAKE_MAX m)"
proof -
  from assms(1) obtain mon f T where S: "S = mon # f # T" "aty rs mon = TypeMonetary"
    "aty rs f = TypeFunding" "S' = AT TypeFunding # AT TypeFunding # AMonNonneg # T"
    by (cases S; cases "tl S") (auto split: if_splits)
  from assms(2,3) obtain v w ws where v: "Stack m = v # w # ws" "val_ok v" "val_ok w"
    "GetType v = TypeMonetary" "GetType w = TypeFunding" "stack_ok R T ws"
    unfolding S(1) by (rule stack2) (simp add: S)
  from typed_monetary [OF v(2,4)] obtain c x where c: "v = VMonetary \<lparr>mon_Asset = c, mon_Amount = Some x\<rparr>"
    by blast
  from typed_val(6) [OF v(3,5)] obtain g where g: "w = VFunding g" "parts_nonneg (fund_Parts g)" by blast
  from TakeMax_ok [OF g(2), of x] obtain res rest where r: "TakeMax g (Some x) = Inr (res, rest)" by blast
  from TakeMax_eq(4,5) [OF r g(2)] v c g r assms(4) show ?thesis
    by (auto simp: S(4) tick_TAKE_MAX_def mi_Ltz_def mi_Gt_def mi_Cmp_def mi_Sub_def Total_held Let_def
        simp del: TakeMax.simps)
qed

lemma ok_ASSEMBLE:
  assumes "check_op rs OP_FUNDING_ASSEMBLE S = Some S'" "stack_ok R S (Stack m)" "resources_ok rs R"
    "outputs_ok m"
  shows "result_ok R S' (tick_FUNDING_ASSEMBLE m)"
proof -
  from assms(1) obtain n T k U where S: "S = n # T" "known_number rs n = Some k" "1 \<le> k" "k < 2 ^ 63"
    "drop_typed rs TypeFunding (nat k) T = Some U" "S' = AT TypeFunding # U"
    by (cases S) (auto split: option.splits if_splits)
  from S(3) obtain j where j: "nat k = Suc j" by (cases "nat k") auto
  with S(5) obtain a T' where T: "T = a # T'" "aty rs a = TypeFunding"
    "drop_typed rs TypeFunding j T' = Some U"
    by (cases T) (auto simp: drop_typed_def split: if_splits)
  from assms(2,3) obtain v w ws where v: "Stack m = v # w # ws" "matches R n v" "val_ok w"
    "GetType w = TypeFunding" "stack_ok R T' ws"
    unfolding S(1) T(1) by (rule stack2) (simp add: T)
  from matches_known [OF v(2) assms(3) S(2)] have n: "v = VNumber (Some k)" .
  from typed_val(6) [OF v(3,4)] obtain f where f: "w = VFunding f" "parts_nonneg (fund_Parts f)" by blast
  have small: "nat k < 2 ^ 63" "k < 2 ^ 64" using S(4) by (simp_all add: nat_less_iff)
  from v(5) have "stack_ok R T' (Stack (m\<lparr>Stack := ws\<rparr>))" by simp
  note p = pop_fundings_ok [OF T(3) this assms(3), of "fund_Asset f"]
  show ?thesis
  proof (cases "pop_fundings (fund_Asset f) j (m\<lparr>Stack := ws\<rparr>)")
    case (Inl e)
    with p v(1) n f S(3) small j show ?thesis
      by (cases e) (simp_all add: tick_FUNDING_ASSEMBLE_def mi_Uint64_small)
  next
    case (Inr r)
    obtain fs m1 where r: "r = (fs, m1)" by (cases r)
    with p Inr obtain us where us: "m1 = m\<lparr>Stack := us\<rparr>" "stack_ok R U us"
      "list_all (\<lambda>g. fund_Asset g = fund_Asset f \<and> parts_nonneg (fund_Parts g)) fs" by auto
    have "list_all (\<lambda>g. fund_Asset g = fund_Asset f \<and> parts_nonneg (fund_Parts g)) (rev (f # fs))"
      using us(3) f(2) by simp
    from assemble_ok [OF this, of "\<lparr>fund_Asset = fund_Asset f, fund_Parts = []\<rparr>"]
    obtain h where "assemble (rev (f # fs)) \<lparr>fund_Asset = fund_Asset f, fund_Parts = []\<rparr> = Inr h"
      "parts_nonneg (fund_Parts h)" by auto
    with us Inr r v(1) n f S(3,6) small j assms(4) show ?thesis
      by (simp add: tick_FUNDING_ASSEMBLE_def mi_Uint64_small)
  qed
qed

lemma ok_funding1:
  assumes "check_op rs op S = Some S'" "stack_ok R S (Stack m)" "resources_ok rs R" "outputs_ok m"
    and "op \<in> {OP_FUNDING_SUM, OP_FUNDING_REVERSE, OP_REPAY}"
  shows "result_ok R S' (exec_op op m)"
proof -
  from assms(1,5) obtain a T where S: "S = a # T" "aty rs a = TypeFunding"
    "S' = (if op = OP_FUNDING_SUM then AMonNonneg # a # T
           else if op = OP_FUNDING_REVERSE then AT TypeFunding # T else T)"
    by (cases S) (auto split: if_splits)
  from assms(2,3) obtain v ws where v: "Stack m = v # ws" "matches R a v" "val_ok v"
    "GetType v = TypeFunding" "stack_ok R T ws"
    unfolding S(1) by (rule stack1) (simp add: S)
  from typed_val(6) [OF v(3,4)] obtain f where f: "v = VFunding f" "parts_nonneg (fund_Parts f)" by blast
  have "0 \<le> total_held f" using held_nonneg [OF f(2)] by (simp add: total_held_def)
  with v f assms(4,5) show ?thesis
    by (auto simp: S(3) tick_FUNDING_SUM_def tick_FUNDING_REVERSE_def tick_REPAY_def Reverse_def
        Total_held)
qed

lemma ok_ALLOC:
  assumes "check_op rs OP_ALLOC S = Some S'" "stack_ok R S (Stack m)" "resources_ok rs R" "outputs_ok m"
  shows "result_ok R S' (tick_ALLOC m)"
proof -
  from assms(1) obtain n mon T where S: "S = AAllot n # mon # T" "aty rs mon = TypeMonetary"
    "S' = replicate n (AT TypeMonetary) @ T"
    by (cases S; cases "hd S"; cases "tl S") (auto split: if_splits)
  from assms(2,3) obtain v w ws where v: "Stack m = v # w # ws" "matches R (AAllot n) v" "val_ok w"
    "GetType w = TypeMonetary" "stack_ok R T ws"
    unfolding S(1) by (rule stack2) (simp add: S)
  from v(2) obtain al where al: "v = VAllotment al" "length al = n" by auto
  from typed_monetary [OF v(3,4)] obtain c x where c: "w = VMonetary \<lparr>mon_Asset = c, mon_Amount = Some x\<rparr>"
    by blast
  have "stack_ok R (replicate (length ps) (AT TypeMonetary))
      (map (\<lambda>p. VMonetary \<lparr>mon_Asset = c, mon_Amount = Some p\<rparr>) ps)" for ps
    by (induction ps) auto
  from this [of "Allocate al x"] v(1,5) al c assms(4) show ?thesis
    by (simp add: S(3) tick_ALLOC_def Let_def stack_ok_append)
qed

lemma ok_SEND:
  assumes "check_op rs OP_SEND S = Some S'" "stack_ok R S (Stack m)" "resources_ok rs R" "outputs_ok m"
  shows "result_ok R S' (tick_SEND m)"
proof -
  from assms(1) obtain a f T where S: "S = a # f # T" "aty rs a = TypeAccount"
    "aty rs f = TypeFunding" "S' = T"
    by (cases S; cases "tl S") (auto split: if_splits)
  from assms(2,3) obtain v w ws where v: "Stack m = v # w # ws" "val_ok w"
    "GetType v = TypeAccount" "GetType w = TypeFunding" "stack_ok R T ws"
    unfolding S(1) by (rule stack2) (simp add: S)
  from typed_val(2) [OF v(3)] obtain d where d: "v = VAccount d" by blast
  from typed_val(6) [OF v(2,4)] obtain g where g: "w = VFunding g" "parts_nonneg (fund_Parts g)" by blast
  have o: "outputs_ok (credit (m\<lparr>Stack := ws\<rparr>) d g)" using assms(4) by simp
  have "outputs_ok ((credit (m\<lparr>Stack := ws\<rparr>) d g)\<lparr>Postings := Postings m @ send_postings d g\<rparr>)"
    using o send_postings_ok [OF g(2), of d] by (simp add: outputs_ok_def)
  with v(1,5) d g show ?thesis by (simp add: S(4) tick_SEND_def Let_def)
qed

lemma ok_meta:
  assumes "check_op rs op S = Some S'" "stack_ok R S (Stack m)" "resources_ok rs R" "outputs_ok m"
    and "op \<in> {OP_TX_META, OP_ACCOUNT_META}"
  shows "result_ok R S' (exec_op op m)"
proof (cases "op = OP_TX_META")
  case True
  with assms(1) obtain k x T where S: "S = k # x # T" "aty rs k = TypeString"
    "storable_type (aty rs x)" "S' = T"
    by (cases S; cases "tl S") (auto split: if_splits)
  from assms(2,3) obtain v w ws where v: "Stack m = v # w # ws" "val_ok w"
    "GetType v = TypeString" "GetType w = aty rs x" "stack_ok R T ws"
    unfolding S(1) by (rule stack2) (simp add: S)
  from typed_val(4) [OF v(3)] obtain s where s: "v = VString s" by blast
  have "storable_val w" using v(2,4) S(3) by (simp add: storable_val_def)
  with v(1,5) s assms(4) True show ?thesis
    by (simp add: S(4) tick_TX_META_def outputs_ok_def list_all_update)
next
  case False
  with assms(1,5) obtain a k x T where S: "S = a # k # x # T" "aty rs a = TypeAccount"
    "aty rs k = TypeString" "storable_type (aty rs x)" "S' = T"
    by (cases S; cases "tl S"; cases "tl (tl S)") (auto split: if_splits)
  from assms(2,3) obtain v w ws where v: "Stack m = v # w # ws"
    "GetType v = TypeAccount" "GetType w = TypeString" "stack_ok R (x # T) ws"
    unfolding S(1) by (rule stack2) (simp add: S)
  from v(4) assms(3) obtain y us where y: "ws = y # us" "val_ok y" "GetType y = aty rs x"
    "stack_ok R T us"
    by (rule stack1)
  from typed_val(2) [OF v(2)] obtain acc where acc: "v = VAccount acc" by blast
  from typed_val(4) [OF v(3)] obtain s where s: "w = VString s" by blast
  have y': "storable_val y" using y(2,3) S(4) by (simp add: storable_val_def)
  let ?am = "case map_of (AccountsMeta m) acc of None \<Rightarrow> [] | Some am \<Rightarrow> am"
  have "list_all (\<lambda>(k, v). storable_val v) ?am"
    using assms(4) by (auto simp: outputs_ok_def split: option.splits dest: list_all_map_of)
  then have "list_all (\<lambda>(k, v). storable_val v) (AList.update s y ?am)"
    using y' by (simp add: list_all_update)
  then have "outputs_ok (m\<lparr>Stack := us, AccountsMeta := AList.update acc (AList.update s y ?am) (AccountsMeta m)\<rparr>)"
    using assms(4) by (simp add: outputs_ok_def list_all_update)
  with v(1) y acc s False assms(5) show ?thesis
    by (simp add: S(5) tick_ACCOUNT_META_def Let_def)
qed

lemma ok_SAVE:
  assumes "check_op rs OP_SAVE S = Some S'" "stack_ok R S (Stack m)" "resources_ok rs R" "outputs_ok m"
  shows "result_ok R S' (tick_SAVE m)"
proof -
  from assms(1) obtain a x T where S: "S = a # x # T" "aty rs a = TypeAccount"
    "aty rs x = TypeAsset \<or> aty rs x = TypeMonetary" "S' = T"
    by (cases S; cases "tl S") (auto split: if_splits)
  from assms(2,3) obtain v w ws where v: "Stack m = v # w # ws" "val_ok w"
    "GetType v = TypeAccount" "GetType w = aty rs x" "stack_ok R T ws"
    unfolding S(1) by (rule stack2) (simp add: S)
  from typed_val(2) [OF v(3)] obtain acc where acc: "v = VAccount acc" by blast
  from S(3) show ?thesis
  proof
    assume "aty rs x = TypeAsset"
    with typed_val(3) [of w] v(4) obtain c where "w = VAsset c" by auto
    with v acc assms(4) show ?thesis by (simp add: S(4) tick_SAVE_def split: option.splits)
  next
    assume "aty rs x = TypeMonetary"
    with typed_monetary [OF v(2)] v(4) obtain c n where
      "w = VMonetary \<lparr>mon_Asset = c, mon_Amount = Some n\<rparr>" by auto
    with v acc assms(4) show ?thesis by (simp add: S(4) tick_SAVE_def split: option.splits)
  qed
qed

lemma check_op_sound:
  assumes "check_op rs op S = Some S'" "stack_ok R S (Stack m)" "resources_ok rs R" "outputs_ok m"
  shows "result_ok R S' (exec_op op m)"
proof (cases op)
  case OP_APUSH
  with assms(1) show ?thesis by simp
next
  case OP_FAIL
  then show ?thesis by (simp add: tick_FAIL_def)
qed (use assms ok_BUMP ok_MONETARY_NEW ok_MAKE_ALLOTMENT ok_TAKE_ALL ok_TAKE_ALWAYS ok_TAKE
      ok_TAKE_MAX ok_ASSEMBLE ok_ALLOC ok_SEND ok_SAVE ok_arith [OF assms] ok_pop1 [OF assms]
      ok_monetary_arith [OF assms] ok_funding1 [OF assms] ok_meta [OF assms] in simp_all)

section \<open>Soundness of a program\<close>

text \<open>
  The machine is at a point of a checked program: what is left of the code takes the abstract
  stack to the empty one.
\<close>

definition checked_at :: "resource list \<Rightarrow> aval list \<Rightarrow> vm_machine \<Rightarrow> bool" where
  "checked_at rs S m \<longleftrightarrow>
     resources_ok rs (Resources m) \<and> stack_ok (Resources m) S (Stack m) \<and> outputs_ok m \<and>
     check rs (drop (PC m) (Instructions (Program m))) S = Some []"

lemma Uint16_getResource:
  "resources_ok rs (Resources m) \<Longrightarrow> unat a < length rs \<Longrightarrow>
     getResource m a = Some (Resources m ! unat a) \<and> unat a < length (Resources m) \<and>
     val_ok (Resources m ! unat a)"
  by (auto simp: resources_ok_def getResource_Some list_all_length dest: list_all2_lengthD)

lemma checked_tick:
  assumes "checked_at rs S m" "PC m < length (Instructions (Program m))"
  shows "tick m \<noteq> Inl Panic" and "tick m = Inr (fin, m') \<Longrightarrow> \<exists>S'. checked_at rs S' m'"
proof -
  let ?code = "Instructions (Program m)"
  have code: "drop (PC m) ?code = ?code ! PC m # drop (Suc (PC m)) ?code"
    using assms(2) by (rule Cons_nth_drop_Suc [symmetric])
  from assms(1) have rok: "resources_ok rs (Resources m)" and sok: "stack_ok (Resources m) S (Stack m)"
    and ook: "outputs_ok m" and chk: "check rs (?code ! PC m # drop (Suc (PC m)) ?code) S = Some []"
    by (simp_all add: checked_at_def code)
  from chk obtain op where op: "decode_op (?code ! PC m) = Some op" by (auto split: option.splits)
  have "tick m \<noteq> Inl Panic \<and> (\<forall>fin m'. tick m = Inr (fin, m') \<longrightarrow> (\<exists>S'. checked_at rs S' m'))"
  proof (cases "op = OP_APUSH")
    case True
    with chk op obtain lo hi bs where bs: "drop (Suc (PC m)) ?code = lo # hi # bs"
      "unat (Uint16_LE lo hi) < length rs" "check rs bs (ARes (Uint16_LE lo hi) # S) = Some []"
      by (auto split: list.splits if_splits)
    have len: "Suc (Suc (Suc (PC m))) \<le> length ?code"
      using arg_cong [OF bs(1), of length] by simp
    have at: "?code ! (PC m + 1) = lo" "?code ! (PC m + 2) = hi" "drop (PC m + 3) ?code = bs"
      using arg_cong [OF bs(1), of "\<lambda>l. l ! 0"] arg_cong [OF bs(1), of "\<lambda>l. l ! 1"]
        arg_cong [OF bs(1), of "drop 2"] len
      by (simp_all add: eval_nat_numeral)
    note r = Uint16_getResource [OF rok bs(2)]
    have t: "tick m = Inr (PC m + 3 \<ge> length ?code,
        (pushValue (Resources m ! unat (Uint16_LE lo hi)) m)\<lparr>PC := PC m + 3\<rparr>)"
      using assms(2) op True len at r
      by (simp add: tick_def tick_APUSH_def Let_def pushValue_def eval_nat_numeral)
    have "checked_at rs (ARes (Uint16_LE lo hi) # S)
        ((pushValue (Resources m ! unat (Uint16_LE lo hi)) m)\<lparr>PC := PC m + 3\<rparr>)"
      using rok sok ook r bs(3) at(3) by (simp add: checked_at_def)
    with t show ?thesis by auto
  next
    case False
    with chk op obtain S' where S': "check_op rs op S = Some S'"
      "check rs (drop (Suc (PC m)) ?code) S' = Some []"
      by (auto split: option.splits)
    note ok = check_op_sound [OF S'(1) sok rok ook]
    show ?thesis
    proof (cases "exec_op op m")
      case (Inl e)
      with ok assms(2) op show ?thesis by (simp add: tick_def result_ok_def)
    next
      case (Inr m1)
      note f = exec_op_frame [OF Inr]
      with False have f': "Program m1 = Program m" "Resources m1 = Resources m" "PC m1 = PC m"
        by (simp_all add: frame_def)
      have t: "tick m = Inr (PC m + 1 \<ge> length ?code, m1\<lparr>PC := PC m + 1\<rparr>)"
        using assms(2) op Inr f' by (simp add: tick_def Let_def)
      have "checked_at rs S' (m1\<lparr>PC := PC m + 1\<rparr>)"
        using ok Inr f' rok S'(2) by (simp add: checked_at_def)
      with t show ?thesis by auto
    qed
  qed
  then show "tick m \<noteq> Inl Panic" "tick m = Inr (fin, m') \<Longrightarrow> \<exists>S'. checked_at rs S' m'" by blast+
qed

lemma checked_run:
  assumes "checked_at rs S m" "PC m < length (Instructions (Program m))"
  shows "run_ticks m \<noteq> Inl Panic \<and>
    (\<forall>m'. run_ticks m = Inr m' \<longrightarrow> Stack m' = [] \<and> outputs_ok m')"
  using assms
proof (induction m arbitrary: S rule: run_ticks.induct)
  case (1 m)
  show ?case
  proof (cases "tick m")
    case (Inl e)
    with checked_tick(1) [OF "1.prems"] show ?thesis by (simp add: run_ticks.simps [of m])
  next
    case (Inr r)
    obtain fin m1 where r: "r = (fin, m1)" by (cases r)
    with Inr have t: "tick m = Inr (fin, m1)" by simp
    from checked_tick(2) [OF "1.prems" t] obtain S' where S': "checked_at rs S' m1" by blast
    have p: "Program m1 = Program m" using tick_advances(1) [OF t] by (simp add: frame_def)
    show ?thesis
    proof (cases fin)
      case True
      with tick_advances(4) [OF t] p have "drop (PC m1) (Instructions (Program m1)) = []" by simp
      with S' have "Stack m1 = []" "outputs_ok m1" by (auto simp: checked_at_def)
      with t True show ?thesis by (simp add: run_ticks.simps [of m])
    next
      case False
      with tick_advances(4) [OF t] p have "PC m1 < length (Instructions (Program m1))" by simp
      from "1.IH" [OF t refl False S' this] t False show ?thesis
        by (simp add: run_ticks.simps [of m])
    qed
  qed
qed

text \<open>Stored metadata can be printed.\<close>

lemma storable_val_string: "storable_val v \<Longrightarrow> \<exists>s. NewStringFromValue v = Inr s"
  by (cases v) (auto simp: storable_val_def storable_type_def)

lemma values_to_strings_ok:
  "list_all (\<lambda>(k, v). storable_val v) kvs \<Longrightarrow> \<exists>s. values_to_strings kvs = Inr s"
proof (induction kvs)
  case (Cons kv kvs)
  obtain k v where kv: "kv = (k, v)" by (cases kv)
  with Cons obtain s where "NewStringFromValue v = Inr s" using storable_val_string by auto
  with Cons kv show ?case by auto
qed simp

lemma outputs_printable:
  assumes "outputs_ok m"
  shows "\<exists>t. GetTxMetaJSON m = Inr t" "\<exists>a. GetAccountsMetaJSON m = Inr a"
proof -
  show "\<exists>t. GetTxMetaJSON m = Inr t"
    using assms values_to_strings_ok by (simp add: GetTxMetaJSON_def outputs_ok_def)
  have "list_all (\<lambda>(a, am). list_all (\<lambda>(k, v). storable_val v) am) al \<Longrightarrow>
      \<exists>a. accounts_to_strings al = Inr a" for al
  proof (induction al)
    case (Cons x al)
    obtain a am where x: "x = (a, am)" by (cases x)
    with Cons obtain s where "values_to_strings am = Inr s" using values_to_strings_ok by auto
    with Cons x show ?case by auto
  qed simp
  then show "\<exists>a. GetAccountsMetaJSON m = Inr a"
    using assms by (simp add: GetAccountsMetaJSON_def outputs_ok_def)
qed

end
