(* ===== verification/Numscript_Compiler.thy ===== *)
theory Numscript_Compiler
  imports Vm_Program "HOL-Library.Sublist"
begin

text \<open>
  The Numscript compiler: \<open>internal/machine/script/compiler/\<close>. The input is the parse tree, a
  datatype with one constructor per labelled alternative of \<open>NumScript.g4\<close>; the lexer and the
  parser are generated by ANTLR and are not modelled, so a token is its text. The visitor is a
  record that every \<open>Visit\<close> function takes and returns; on an error the compiler stops and
  returns no program, so an error carries no visitor. A closure \<open>pushAsset\<close> is a function on
  the visitor.
\<close>

section \<open>The parse tree\<close>

datatype arith_op = ADD | SUB

datatype expr =
    ExprAddSub expr arith_op expr
  | ExprLiteral lit
  | ExprVariable string
and lit =
    LitAccount string
  | LitAsset string
  | LitNumber string
  | LitString string
  | LitPortion string
  | LitMonetary expr string

datatype allotment_portion =
    PortionConst string
  | PortionVar string
  | PortionRemaining

datatype overdraft = OverdraftSpecific expr | OverdraftUnbounded

datatype source =
    SrcAccount expr "overdraft option"
  | SrcMaxed expr source
  | SrcInOrder "source list"

datatype value_source =
    Src source
  | SrcAllotment "(allotment_portion \<times> source) list"

datatype dest =
    DestAccount expr
  | DestInOrder "(expr \<times> kept_or_dest) list" kept_or_dest
  | DestAllotment "(allotment_portion \<times> kept_or_dest) list"
and kept_or_dest =
    IsKept
  | IsDestination dest

text \<open>An amount to send or save: a monetary expression, or all of an asset.\<close>

datatype amount = Mon expr | MonAll expr

datatype stmt =
    Print expr
  | SaveFromAccount amount expr
  | SetTxMeta string expr
  | SetAccountMeta expr string expr
  | Fail
  | Send amount value_source dest

datatype origin =
    OriginAccountMeta expr string
  | OriginAccountBalance expr expr

record var_decl =
  decl_ty :: string
  decl_name :: string
  decl_orig :: "origin option"

record script =
  script_vars :: "var_decl list option"
  script_stmts :: "stmt list"

text \<open>
  What the grammar says of its lists: they are not empty. A Go slice has less than 2^63 elements.
\<close>

definition slice :: "'a list \<Rightarrow> bool" where
  "slice xs \<longleftrightarrow> xs \<noteq> [] \<and> length xs < 2 ^ 63"

fun tree_source :: "source \<Rightarrow> bool" where
  "tree_source (SrcAccount _ _) = True"
| "tree_source (SrcMaxed _ s) = tree_source s"
| "tree_source (SrcInOrder ss) = (slice ss \<and> list_all tree_source ss)"

fun tree_value_source :: "value_source \<Rightarrow> bool" where
  "tree_value_source (Src s) = tree_source s"
| "tree_value_source (SrcAllotment ps) = (slice ps \<and> list_all (\<lambda>(_, s). tree_source s) ps)"

fun tree_dest :: "dest \<Rightarrow> bool"
and tree_kept_or_dest :: "kept_or_dest \<Rightarrow> bool" where
  "tree_dest (DestAccount _) = True"
| "tree_dest (DestInOrder ds r) =
     (slice ds \<and> (\<forall>(_, d) \<in> set ds. tree_kept_or_dest d) \<and> tree_kept_or_dest r)"
| "tree_dest (DestAllotment ds) = (slice ds \<and> (\<forall>(_, d) \<in> set ds. tree_kept_or_dest d))"
| "tree_kept_or_dest IsKept = True"
| "tree_kept_or_dest (IsDestination d) = tree_dest d"

fun tree_stmt :: "stmt \<Rightarrow> bool" where
  "tree_stmt (Send _ src d) = (tree_value_source src \<and> tree_dest d)"
| "tree_stmt _ = True"

definition tree_script :: "script \<Rightarrow> bool" where
  "tree_script s \<longleftrightarrow> slice (script_stmts s) \<and> list_all tree_stmt (script_stmts s)"

section \<open>String literals\<close>

text \<open>
  \<open>strconv.Unquote\<close> on a literal in double quotes. The text of a token is valid UTF-8 (the input
  stream is decoded into runes), so the bytes of a character outside ASCII are copied.
\<close>

definition hex_digit :: "char \<Rightarrow> nat option" where
  "hex_digit c =
     (if char_in CHR ''0'' CHR ''9'' c then Some (of_char c - 48)
      else if char_in CHR ''a'' CHR ''f'' c then Some (of_char c - 87)
      else if char_in CHR ''A'' CHR ''F'' c then Some (of_char c - 55)
      else None)"

fun hex_value :: "nat \<Rightarrow> string \<Rightarrow> nat option" where
  "hex_value v [] = Some v"
| "hex_value v (c # cs) =
     (case hex_digit c of None \<Rightarrow> None | Some d \<Rightarrow> hex_value (16 * v + d) cs)"

text \<open>\<open>utf8.ValidRune\<close> and \<open>utf8.AppendRune\<close>.\<close>

definition valid_rune :: "nat \<Rightarrow> bool" where
  "valid_rune r \<longleftrightarrow> r < 0xD800 \<or> (0xDFFF < r \<and> r \<le> 0x10FFFF)"

definition utf8 :: "nat \<Rightarrow> string" where
  "utf8 r =
     (if r < 0x80 then [char_of r]
      else if r < 0x800 then [char_of (0xC0 + r div 64), char_of (0x80 + r mod 64)]
      else if r < 0x10000
        then [char_of (0xE0 + r div 4096), char_of (0x80 + r div 64 mod 64), char_of (0x80 + r mod 64)]
      else [char_of (0xF0 + r div 262144), char_of (0x80 + r div 4096 mod 64),
            char_of (0x80 + r div 64 mod 64), char_of (0x80 + r mod 64)])"

text \<open>What follows a backslash: the bytes of the escape and the rest of the text.\<close>

definition simple_escapes :: "(char \<times> nat) list" where
  "simple_escapes =
     [(CHR ''a'', 7), (CHR ''b'', 8), (CHR ''f'', 12), (CHR ''n'', 10), (CHR ''r'', 13),
      (CHR ''t'', 9), (CHR ''v'', 11), (CHR 0x5C, 0x5C), (CHR 0x22, 0x22)]"

definition unescape :: "char \<Rightarrow> string \<Rightarrow> (string \<times> string) option" where
  "unescape c s =
     (case map_of simple_escapes c of
        Some b \<Rightarrow> Some ([char_of b], s)
      | None \<Rightarrow>
          if c = CHR ''x'' then
            (if length s < 2 then None
             else case hex_value 0 (take 2 s) of
               None \<Rightarrow> None | Some v \<Rightarrow> Some ([char_of v], drop 2 s))
          else if c = CHR ''u'' \<or> c = CHR ''U'' then
            (let n = (if c = CHR ''u'' then 4 else 8) in
             if length s < n then None
             else case hex_value 0 (take n s) of
               None \<Rightarrow> None
             | Some v \<Rightarrow> if valid_rune v then Some (utf8 v, drop n s) else None)
          else if char_in CHR ''0'' CHR ''7'' c then
            (if length s < 2 \<or> \<not> list_all (char_in CHR ''0'' CHR ''7'') (take 2 s) then None
             else let v = foldl (\<lambda>n d. 8 * n + (of_char d - 48)) (0 :: nat) (c # take 2 s) in
               if v > 255 then None else Some ([char_of v], drop 2 s))
          else None)"

lemma unescape_shorter: "unescape c s = Some (b, r) \<Longrightarrow> length r \<le> length s"
  by (auto simp: unescape_def Let_def split: option.splits if_splits)

function unquote_body :: "string \<Rightarrow> string option" where
  "unquote_body s =
     (case s of
        [] \<Rightarrow> None
      | c # cs \<Rightarrow>
          if c = CHR 0x22 then (if cs = [] then Some [] else None)
          else if c = CHR 0x0A then None
          else if c \<noteq> CHR 0x5C then map_option ((#) c) (unquote_body cs)
          else (case cs of
                  [] \<Rightarrow> None
                | e # es \<Rightarrow>
                    (case unescape e es of
                       None \<Rightarrow> None
                     | Some (bytes, rest) \<Rightarrow> map_option ((@) bytes) (unquote_body rest))))"
  by pat_completeness auto
termination
  by (relation "measure length") (auto dest!: unescape_shorter)

declare unquote_body.simps [simp del]

definition Unquote :: "string \<Rightarrow> string option" where
  "Unquote s = (if s = [] \<or> hd s \<noteq> CHR 0x22 then None else unquote_body (tl s))"

text \<open>\<open>strings.Trim\<close> with the cut set of one double quote.\<close>

definition Trim_quotes :: "string \<Rightarrow> string" where
  "Trim_quotes s = (let q = (\<lambda>c. c = CHR 0x22) in rev (dropWhile q (rev (dropWhile q s))))"

section \<open>The visitor\<close>

text \<open>The sets of the code are lists without repetition.\<close>

record parseVisitor =
  instructions :: "8 word list"
  resources :: "resource list"
  sources :: "address list"
  varIdx :: "(string \<times> address) list"
  neededBalances :: "(address \<times> address list) list"

datatype compile_error = LogicError string | InternalError | PlainCompileError string

type_synonym 'a visit = "(compile_error, 'a \<times> parseVisitor) result"

definition AppendInstruction :: "opcode \<Rightarrow> parseVisitor \<Rightarrow> parseVisitor" where
  "AppendInstruction op p = p\<lparr>instructions := instructions p @ [opcode_byte op]\<rparr>"

definition PushAddress :: "address \<Rightarrow> parseVisitor \<Rightarrow> parseVisitor" where
  "PushAddress addr p =
     p\<lparr>instructions := instructions p @ [opcode_byte OP_APUSH] @ ToBytes addr\<rparr>"

text \<open>The index of the first constant that equals the value.\<close>

fun findConstant :: "val \<Rightarrow> resource list \<Rightarrow> nat \<Rightarrow> nat option" where
  "findConstant v [] i = None"
| "findConstant v (Constant c # rs) i =
     (if ValueEquals c v then Some i else findConstant v rs (Suc i))"
| "findConstant v (_ # rs) i = findConstant v rs (Suc i)"

definition append_resource :: "resource \<Rightarrow> parseVisitor \<Rightarrow> address visit" where
  "append_resource res p =
     (if length (resources p) \<ge> 65536
      then raise (LogicError ''number of unique constants exceeded 65536'')
      else Inr (of_nat (length (resources p)), p\<lparr>resources := resources p @ [res]\<rparr>))"

definition AllocateResource :: "resource \<Rightarrow> parseVisitor \<Rightarrow> address visit" where
  "AllocateResource res p =
     (case res of
        Constant c \<Rightarrow>
          (case findConstant c (resources p) 0 of
             Some i \<Rightarrow> Inr (of_nat i, p)
           | None \<Rightarrow> append_resource res p)
      | _ \<Rightarrow> append_resource res p)"

definition PushInteger :: "int \<Rightarrow> parseVisitor \<Rightarrow> (compile_error, parseVisitor) result" where
  "PushInteger n p =
     bindr (AllocateResource (Constant (VNumber (Some n))) p) (\<lambda>(addr, p). Inr (PushAddress addr p))"

definition Bump :: "int \<Rightarrow> parseVisitor \<Rightarrow> (compile_error, parseVisitor) result" where
  "Bump n p = bindr (PushInteger n p) (\<lambda>p. Inr (AppendInstruction OP_BUMP p))"

definition isWorld :: "parseVisitor \<Rightarrow> address \<Rightarrow> bool" where
  "isWorld p addr =
     (let idx = unat addr in
      idx < length (resources p) \<and> resources p ! idx = Constant (VAccount ''world''))"

section \<open>Expressions\<close>

text \<open>
  An expression has a type and, unless it is an operation on numbers, an address: of a sum or a
  difference of monetaries, the address of the left operand.
\<close>

definition VisitVariable :: "string \<Rightarrow> bool \<Rightarrow> parseVisitor \<Rightarrow> (type \<times> address option) visit" where
  "VisitVariable text push p =
     (case map_of (varIdx p) (tl text) of
        None \<Rightarrow> raise (LogicError ''variable not declared'')
      | Some idx \<Rightarrow>
          if unat idx \<ge> length (resources p) then panic
          else Inr ((ResourceType (resources p ! unat idx), Some idx),
                    if push then PushAddress idx p else p))"

text \<open>Allocate a literal and push it: the common end of the cases of \<open>VisitLit\<close>.\<close>

definition visit_constant :: "val \<Rightarrow> bool \<Rightarrow> parseVisitor \<Rightarrow> (type \<times> address option) visit" where
  "visit_constant v push p =
     bindr (AllocateResource (Constant v) p) (\<lambda>(addr, p).
       Inr ((GetType v, Some addr), if push then PushAddress addr p else p))"

text \<open>
  The search for a monetary of the same asset address and amount; the \<open>break\<close> of the code leaves
  the \<open>switch\<close> and not the loop, so the last one found is taken.
\<close>

fun find_monetary :: "address \<Rightarrow> monetary_int \<Rightarrow> resource list \<Rightarrow> nat \<Rightarrow> nat option \<Rightarrow> nat option" where
  "find_monetary asset amt [] i found = found"
| "find_monetary asset amt (MonetaryRes a n # rs) i found =
     find_monetary asset amt rs (Suc i) (if a = asset \<and> n = amt then Some i else found)"
| "find_monetary asset amt (_ # rs) i found = find_monetary asset amt rs (Suc i) found"

definition visit_monetary ::
    "address \<Rightarrow> monetary_int \<Rightarrow> bool \<Rightarrow> parseVisitor \<Rightarrow> (type \<times> address option) visit" where
  "visit_monetary assetAddr amt push p =
     bindr (case find_monetary assetAddr amt (resources p) 0 None of
              Some i \<Rightarrow> Inr (of_nat i, p)
            | None \<Rightarrow> AllocateResource (MonetaryRes assetAddr amt) p)
       (\<lambda>(monAddr, p). Inr ((TypeMonetary, Some monAddr), if push then PushAddress monAddr p else p))"

definition arith_code :: "bool \<Rightarrow> opcode \<Rightarrow> parseVisitor \<Rightarrow> parseVisitor" where
  "arith_code push op p = (if push then AppendInstruction op p else p)"

fun VisitExpr :: "expr \<Rightarrow> bool \<Rightarrow> parseVisitor \<Rightarrow> (type \<times> address option) visit"
and VisitLit :: "lit \<Rightarrow> bool \<Rightarrow> parseVisitor \<Rightarrow> (type \<times> address option) visit" where
  "VisitExpr (ExprAddSub lhs op rhs) push p =
     bindr (VisitExpr lhs push p) (\<lambda>((lhsType, lhsAddr), p).
       if lhsType = TypeNumber then
         bindr (VisitExpr rhs push p) (\<lambda>((rhsType, _), p).
           if rhsType \<noteq> TypeNumber then raise (LogicError ''incompatible operand types'')
           else Inr ((TypeNumber, None),
                     arith_code push (case op of ADD \<Rightarrow> OP_IADD | SUB \<Rightarrow> OP_ISUB) p))
       else if lhsType = TypeMonetary then
         bindr (VisitExpr rhs push p) (\<lambda>((rhsType, _), p).
           if rhsType \<noteq> TypeMonetary then raise (LogicError ''incompatible operand types'')
           else Inr ((TypeMonetary, lhsAddr),
                     arith_code push (case op of ADD \<Rightarrow> OP_MONETARY_ADD | SUB \<Rightarrow> OP_MONETARY_SUB) p))
       else raise (LogicError ''unsupported left-hand side operand type''))"
| "VisitExpr (ExprLiteral l) push p = VisitLit l push p"
| "VisitExpr (ExprVariable v) push p = VisitVariable v push p"
| "VisitLit (LitAccount text) push p = visit_constant (VAccount (tl text)) push p"
| "VisitLit (LitAsset text) push p = visit_constant (VAsset text) push p"
| "VisitLit (LitNumber text) push p =
     (case ParseMonetaryInt text of
        Inl _ \<Rightarrow> raise (LogicError ''invalid monetary int'')
      | Inr number \<Rightarrow> visit_constant (VNumber number) push p)"
| "VisitLit (LitString text) push p =
     (case Unquote text of
        None \<Rightarrow> raise (LogicError ''invalid syntax'')
      | Some unquoted \<Rightarrow> visit_constant (VString unquoted) push p)"
| "VisitLit (LitPortion text) push p =
     (case ParsePortionSpecific text of
        Inl _ \<Rightarrow> raise (LogicError ''invalid portion'')
      | Inr portion \<Rightarrow> visit_constant (VPortion portion) push p)"
| "VisitLit (LitMonetary asset amt) push p =
     bindr (VisitExpr asset False p) (\<lambda>((typ, assetAddr), p).
       if typ \<noteq> TypeAsset then raise (LogicError ''monetary literal of a wrong type'')
       else case ParseMonetaryInt amt of
         Inl _ \<Rightarrow> raise (LogicError ''invalid monetary int'')
       | Inr n \<Rightarrow>
           (case assetAddr of None \<Rightarrow> panic | Some a \<Rightarrow> visit_monetary a n push p))"

section \<open>Allotments\<close>

text \<open>
  The portions are visited from the last to the first; the loop keeps the sum of the known ones
  and whether a variable and a \<open>remaining\<close> have been seen.
\<close>

fun VisitPortions ::
    "allotment_portion list \<Rightarrow> rat \<times> bool \<times> bool \<Rightarrow> parseVisitor \<Rightarrow> (rat \<times> bool \<times> bool) visit" where
  "VisitPortions [] st p = Inr (st, p)"
| "VisitPortions (PortionConst text # cs) (tot, hasVariable, hasRemaining) p =
     (case ParsePortionSpecific text of
        Inl _ \<Rightarrow> raise (LogicError ''invalid portion'')
      | Inr portion \<Rightarrow>
          (case Specific portion of
             None \<Rightarrow> panic
           | Some r \<Rightarrow>
               bindr (AllocateResource (Constant (VPortion portion)) p) (\<lambda>(addr, p).
                 VisitPortions cs (tot + r, hasVariable, hasRemaining) (PushAddress addr p))))"
| "VisitPortions (PortionVar text # cs) (tot, hasVariable, hasRemaining) p =
     bindr (VisitVariable text True p) (\<lambda>((ty, _), p).
       if ty \<noteq> TypePortion then raise (LogicError ''expected type portion for variable'')
       else VisitPortions cs (tot, True, hasRemaining) p)"
| "VisitPortions (PortionRemaining # cs) (tot, hasVariable, hasRemaining) p =
     (if hasRemaining then raise (LogicError ''two uses of remaining in the same allocation'')
      else bindr (AllocateResource (Constant (VPortion NewPortionRemaining)) p) (\<lambda>(addr, p).
             VisitPortions cs (tot, hasVariable, True) (PushAddress addr p)))"

definition VisitAllotment ::
    "allotment_portion list \<Rightarrow> parseVisitor \<Rightarrow> (compile_error, parseVisitor) result" where
  "VisitAllotment portions p =
     bindr (VisitPortions (rev portions) (0, False, False) p)
       (\<lambda>((tot, hasVariable, hasRemaining), p).
         if tot > 1 then raise (LogicError ''the sum of known portions is greater than 100%'')
         else if tot < 1 \<and> \<not> hasRemaining
           then raise (LogicError ''the sum of portions might be less than 100%'')
         else if tot = 1 \<and> hasVariable
           then raise (LogicError ''the sum of portions might be greater than 100%'')
         else if tot = 1 \<and> hasRemaining
           then raise (LogicError ''known portions are already equal to 100%'')
         else bindr (PushInteger (int (length portions)) p) (\<lambda>p.
                Inr (AppendInstruction OP_MAKE_ALLOTMENT p)))"

section \<open>Sources\<close>

definition TakeFromSource :: "address option \<Rightarrow> parseVisitor \<Rightarrow> (compile_error, parseVisitor) result" where
  "TakeFromSource fallback p =
     (case fallback of
        None \<Rightarrow>
          bindr (Bump 1 (AppendInstruction OP_TAKE p)) (\<lambda>p. Inr (AppendInstruction OP_REPAY p))
      | Some f \<Rightarrow>
          bindr (Bump 1 (AppendInstruction OP_TAKE_MAX p)) (\<lambda>p.
          bindr (Bump 2 (PushAddress f (AppendInstruction OP_REPAY p))) (\<lambda>p.
          bindr (PushInteger 2 (AppendInstruction OP_TAKE_ALWAYS p)) (\<lambda>p.
            Inr (AppendInstruction OP_FUNDING_ASSEMBLE p)))))"

definition isOverdraftUnbounded :: "overdraft option \<Rightarrow> bool" where
  "isOverdraftUnbounded od =
     (case od of None \<Rightarrow> False | Some OverdraftUnbounded \<Rightarrow> True | Some (OverdraftSpecific _) \<Rightarrow> False)"

text \<open>Take from an account: nothing pushed yet but the account.\<close>

definition zero_monetary ::
    "(parseVisitor \<Rightarrow> parseVisitor) \<Rightarrow> parseVisitor \<Rightarrow> (compile_error, parseVisitor) result" where
  "zero_monetary pushAsset p =
     bindr (PushInteger 0 (pushAsset p)) (\<lambda>p. Inr (AppendInstruction OP_MONETARY_NEW p))"

type_synonym source_info = "address list \<times> address list \<times> address option"

definition VisitSourceAccount ::
    "expr \<Rightarrow> overdraft option \<Rightarrow> (parseVisitor \<Rightarrow> parseVisitor) \<Rightarrow> bool \<Rightarrow> parseVisitor \<Rightarrow>
     source_info visit" where
  "VisitSourceAccount account od pushAsset isAll p =
     bindr (VisitExpr account True p) (\<lambda>((ty, accAddr), p).
       if ty \<noteq> TypeAccount then raise (LogicError ''expected account or allocation as destination'')
       else case accAddr of None \<Rightarrow> panic | Some acc \<Rightarrow>
         let world = isWorld p acc in
         bindr
           (case od of
              None \<Rightarrow>
                bindr (zero_monetary pushAsset p) (\<lambda>p.
                  Inr (if world then Some acc else None,
                       AppendInstruction (if world then OP_TAKE_ALWAYS else OP_TAKE_ALL) p))
            | Some ov \<Rightarrow>
                if world then raise (LogicError ''@world is already set to an unbounded overdraft'')
                else (case ov of
                  OverdraftSpecific specific \<Rightarrow>
                    bindr (VisitExpr specific True p) (\<lambda>((ty, _), p).
                      if ty \<noteq> TypeMonetary then raise (LogicError ''wrong type: expected monetary'')
                      else Inr (None, AppendInstruction OP_TAKE_ALL p))
                | OverdraftUnbounded \<Rightarrow>
                    bindr (zero_monetary pushAsset p) (\<lambda>p.
                      Inr (Some acc, AppendInstruction OP_TAKE_ALWAYS p))))
           (\<lambda>(fallback, p).
             let needed = (if isWorld p acc \<or> isOverdraftUnbounded od then [] else [acc]) in
             if fallback \<noteq> None \<and> isAll
             then raise (LogicError ''cannot take all balance of an unbounded source'')
             else Inr ((needed, [acc], fallback), p)))"

text \<open>The union of sets, and the accounts that are emptied twice.\<close>

definition add_all :: "address list \<Rightarrow> address list \<Rightarrow> address list" where
  "add_all new old = fold List.insert new old"

definition note_sources :: "source_info \<times> parseVisitor \<Rightarrow> source_info visit" where
  "note_sources r =
     (case r of ((needed, emptied, fallback), p) \<Rightarrow>
        Inr ((needed, emptied, fallback), p\<lparr>sources := add_all needed (sources p)\<rparr>))"

fun VisitSource ::
    "source \<Rightarrow> (parseVisitor \<Rightarrow> parseVisitor) \<Rightarrow> bool \<Rightarrow> parseVisitor \<Rightarrow> source_info visit"
and VisitSources ::
    "source list \<Rightarrow> (parseVisitor \<Rightarrow> parseVisitor) \<Rightarrow> bool \<Rightarrow> source_info \<Rightarrow> parseVisitor \<Rightarrow>
     source_info visit" where
  "VisitSource (SrcAccount account od) pushAsset isAll p =
     bindr (VisitSourceAccount account od pushAsset isAll p) note_sources"
| "VisitSource (SrcMaxed mx src) pushAsset isAll p =
     bindr (VisitSource src pushAsset False p) (\<lambda>((accounts, _, subsourceFallback), p).
     bindr (VisitExpr mx True p) (\<lambda>((ty, _), p).
       if ty \<noteq> TypeMonetary then raise (LogicError ''wrong type: expected monetary as max'')
       else
         bindr (Bump 1 (AppendInstruction OP_TAKE_MAX p)) (\<lambda>p.
         let p = AppendInstruction OP_REPAY p in
         bindr
           (case subsourceFallback of
              Some f \<Rightarrow>
                bindr (Bump 2 (PushAddress f p)) (\<lambda>p.
                bindr (PushInteger 2 (AppendInstruction OP_TAKE_ALWAYS p)) (\<lambda>p.
                  Inr (AppendInstruction OP_FUNDING_ASSEMBLE p)))
            | None \<Rightarrow> bindr (Bump 1 p) (\<lambda>p. Inr (AppendInstruction OP_DELETE p)))
           (\<lambda>p. note_sources ((add_all accounts [], [], None), p)))))"
| "VisitSource (SrcInOrder srcs) pushAsset isAll p =
     bindr (VisitSources srcs pushAsset isAll ([], [], None) p) (\<lambda>(info, p).
     bindr (PushInteger (int (length srcs)) p) (\<lambda>p.
       note_sources (info, AppendInstruction OP_FUNDING_ASSEMBLE p)))"
| "VisitSources [] pushAsset isAll info p = Inr (info, p)"
| "VisitSources (s # ss) pushAsset isAll (needed, emptiedAccounts, fallback) p =
     bindr (VisitSource s pushAsset isAll p) (\<lambda>((accounts, emptied, subsourceFallback), p).
       if subsourceFallback \<noteq> None \<and> ss \<noteq> []
       then raise (LogicError ''an unbounded subsource can only be in last position'')
       else if set emptied \<inter> set emptiedAccounts \<noteq> {}
       then raise (LogicError ''already empty at this stage'')
       else VisitSources ss pushAsset isAll
              (add_all accounts needed, add_all emptied emptiedAccounts, subsourceFallback) p)"

section \<open>Destinations\<close>

text \<open>Several \<open>Bump\<close>, \<open>PushInteger\<close> and \<open>AppendInstruction\<close> in a row.\<close>

datatype emit = I opcode | B int | N int

fun emit_all :: "emit list \<Rightarrow> parseVisitor \<Rightarrow> (compile_error, parseVisitor) result" where
  "emit_all [] p = Inr p"
| "emit_all (I op # es) p = emit_all es (AppendInstruction op p)"
| "emit_all (B n # es) p = bindr (Bump n p) (emit_all es)"
| "emit_all (N n # es) p = bindr (PushInteger n p) (emit_all es)"

fun VisitDestinationRecursive :: "dest \<Rightarrow> parseVisitor \<Rightarrow> (compile_error, parseVisitor) result"
and VisitKeptOrDestination :: "kept_or_dest \<Rightarrow> parseVisitor \<Rightarrow> (compile_error, parseVisitor) result"
and VisitInOrder ::
    "(expr \<times> kept_or_dest) list \<Rightarrow> parseVisitor \<Rightarrow> (compile_error, parseVisitor) result"
and VisitAllocDests ::
    "(allotment_portion \<times> kept_or_dest) list \<Rightarrow> parseVisitor \<Rightarrow> (compile_error, parseVisitor) result" where
  "VisitDestinationRecursive (DestAccount account) p =
     bindr (emit_all [I OP_FUNDING_SUM, I OP_TAKE] p) (\<lambda>p.
     bindr (VisitExpr account True p) (\<lambda>((ty, _), p).
       if ty \<noteq> TypeAccount then raise (LogicError ''expected account as destination'')
       else Inr (AppendInstruction OP_SEND p)))"
| "VisitDestinationRecursive (DestInOrder dests remainingDest) p =
     bindr (emit_all [I OP_FUNDING_SUM, I OP_ASSET, N 0, I OP_MONETARY_NEW, B 1] p) (\<lambda>p.
     bindr (VisitInOrder dests p) (\<lambda>p.
     bindr (emit_all [I OP_FUNDING_REVERSE, B 1, I OP_TAKE, I OP_FUNDING_REVERSE, B 1,
                      I OP_FUNDING_REVERSE] p) (\<lambda>p.
     bindr (VisitKeptOrDestination remainingDest p) (\<lambda>p.
       emit_all [B 1, N 2, I OP_FUNDING_ASSEMBLE] p))))"
| "VisitDestinationRecursive (DestAllotment dests) p =
     bindr (VisitAllotment (map fst dests) (AppendInstruction OP_FUNDING_SUM p)) (\<lambda>p.
     bindr (Bump (int (length dests)) (AppendInstruction OP_ALLOC p)) (VisitAllocDests dests))"
| "VisitKeptOrDestination IsKept p = Inr p"
| "VisitKeptOrDestination (IsDestination d) p = VisitDestinationRecursive d p"
| "VisitInOrder [] p = Inr p"
| "VisitInOrder ((a, d) # ds) p =
     bindr (VisitExpr a True p) (\<lambda>((ty, _), p).
       if ty \<noteq> TypeMonetary then raise (LogicError ''wrong type: expected monetary as max'')
       else
         bindr (emit_all [I OP_TAKE_MAX, B 2, I OP_DELETE] p) (\<lambda>p.
         bindr (VisitKeptOrDestination d p) (\<lambda>p.
         bindr (emit_all [I OP_FUNDING_SUM, B 3, I OP_MONETARY_ADD, B 1, B 2, N 2,
                          I OP_FUNDING_ASSEMBLE] p)
           (VisitInOrder ds))))"
| "VisitAllocDests [] p = Inr p"
| "VisitAllocDests ((portion, d) # ds) p =
     bindr (emit_all [B 1, I OP_TAKE] p) (\<lambda>p.
     bindr (VisitKeptOrDestination d p) (\<lambda>p.
     bindr (emit_all [B 1, N 2, I OP_FUNDING_ASSEMBLE] p) (VisitAllocDests ds)))"

definition VisitDestination :: "dest \<Rightarrow> parseVisitor \<Rightarrow> (compile_error, parseVisitor) result" where
  "VisitDestination d p =
     bindr (VisitDestinationRecursive d p) (\<lambda>p. Inr (AppendInstruction OP_REPAY p))"

section \<open>Statements\<close>

text \<open>A set of needed balances grows by the address of what has the asset.\<close>

fun setNeededBalances :: "address list \<Rightarrow> address \<Rightarrow> parseVisitor \<Rightarrow> parseVisitor" where
  "setNeededBalances [] addr p = p"
| "setNeededBalances (acc # accs) addr p =
     setNeededBalances accs addr
       (p\<lparr>neededBalances := AList.update acc
            (List.insert addr (case map_of (neededBalances p) acc of None \<Rightarrow> [] | Some l \<Rightarrow> l))
            (neededBalances p)\<rparr>)"

definition VisitMonetaryAll ::
    "expr \<Rightarrow> value_source \<Rightarrow> parseVisitor \<Rightarrow> (compile_error, parseVisitor) result" where
  "VisitMonetaryAll asset src p =
     bindr (VisitExpr asset False p) (\<lambda>((assetType, assetAddr), p).
       if assetType \<noteq> TypeAsset
       then raise (LogicError ''send monetary all: the expression should be of type asset'')
       else case assetAddr of None \<Rightarrow> panic | Some addr \<Rightarrow>
         (case src of
            Src s \<Rightarrow>
              bindr (VisitSource s (PushAddress addr) True p) (\<lambda>((accounts, _, _), p).
                Inr (setNeededBalances accounts addr p))
          | SrcAllotment _ \<Rightarrow>
              raise (LogicError ''cannot take all balance of an allotment source'')))"

text \<open>The sources of an allotment, one after the other; \<open>i\<close> is the index of the next.\<close>

fun VisitAllotmentSources ::
    "source list \<Rightarrow> nat \<Rightarrow> address \<Rightarrow> parseVisitor \<Rightarrow> (compile_error, parseVisitor) result" where
  "VisitAllotmentSources [] i monAddr p = Inr p"
| "VisitAllotmentSources (s # ss) i monAddr p =
     bindr (VisitSource s (\<lambda>p. AppendInstruction OP_ASSET (PushAddress monAddr p)) False p)
       (\<lambda>((accounts, _, fallback), p).
     bindr (Bump (int i + 1) (setNeededBalances accounts monAddr p)) (\<lambda>p.
     bindr (TakeFromSource fallback p) (VisitAllotmentSources ss (Suc i) monAddr)))"

definition VisitMonetary ::
    "expr \<Rightarrow> value_source \<Rightarrow> parseVisitor \<Rightarrow> (compile_error, parseVisitor) result" where
  "VisitMonetary mon src p =
     bindr (VisitExpr mon False p) (\<lambda>((monType, monAddr), p).
       if monType \<noteq> TypeMonetary
       then raise (LogicError ''send monetary: the expression should be of type monetary'')
       else case monAddr of None \<Rightarrow> panic | Some addr \<Rightarrow>
         (case src of
            Src s \<Rightarrow>
              bindr (VisitSource s (\<lambda>p. AppendInstruction OP_ASSET (PushAddress addr p)) False p)
                (\<lambda>((accounts, _, fallback), p).
              bindr (VisitExpr mon True (setNeededBalances accounts addr p)) (\<lambda>(_, p).
                TakeFromSource fallback p))
          | SrcAllotment srcs \<Rightarrow>
              bindr (VisitExpr mon True p) (\<lambda>(_, p).
              bindr (VisitAllotment (map fst srcs) p) (\<lambda>p.
              bindr (VisitAllotmentSources (map snd srcs) 0 addr (AppendInstruction OP_ALLOC p)) (\<lambda>p.
                emit_all [N (int (length srcs)), I OP_FUNDING_ASSEMBLE] p)))))"

definition VisitSend ::
    "amount \<Rightarrow> value_source \<Rightarrow> dest \<Rightarrow> parseVisitor \<Rightarrow> (compile_error, parseVisitor) result" where
  "VisitSend amt src d p =
     bindr (case amt of MonAll asset \<Rightarrow> VisitMonetaryAll asset src p
                      | Mon mon \<Rightarrow> VisitMonetary mon src p)
       (VisitDestination d)"

text \<open>Allocate and push the key of a metadata statement.\<close>

definition push_key :: "string \<Rightarrow> parseVisitor \<Rightarrow> (compile_error, parseVisitor) result" where
  "push_key key p =
     (case Unquote key of
        None \<Rightarrow> raise (LogicError ''invalid syntax'')
      | Some unquoted \<Rightarrow>
          bindr (AllocateResource (Constant (VString unquoted)) p) (\<lambda>(keyAddr, p).
            Inr (PushAddress keyAddr p)))"

definition VisitSetTxMeta :: "string \<Rightarrow> expr \<Rightarrow> parseVisitor \<Rightarrow> (compile_error, parseVisitor) result" where
  "VisitSetTxMeta key val p =
     bindr (VisitExpr val True p) (\<lambda>(_, p).
     bindr (push_key key p) (\<lambda>p. Inr (AppendInstruction OP_TX_META p)))"

definition push_address_of ::
    "expr \<Rightarrow> type \<Rightarrow> parseVisitor \<Rightarrow> (compile_error, parseVisitor) result" where
  "push_address_of e t p =
     bindr (VisitExpr e False p) (\<lambda>((ty, addr), p).
       if ty \<noteq> t then raise (LogicError ''expression of a wrong type'')
       else case addr of None \<Rightarrow> panic | Some a \<Rightarrow> Inr (PushAddress a p))"

definition VisitSetAccountMeta ::
    "expr \<Rightarrow> string \<Rightarrow> expr \<Rightarrow> parseVisitor \<Rightarrow> (compile_error, parseVisitor) result" where
  "VisitSetAccountMeta acc key val p =
     bindr (VisitExpr val True p) (\<lambda>(_, p).
     bindr (push_key key p) (\<lambda>p.
     bindr (push_address_of acc TypeAccount p) (\<lambda>p.
       Inr (AppendInstruction OP_ACCOUNT_META p))))"

definition VisitSaveFromAccount :: "amount \<Rightarrow> expr \<Rightarrow> parseVisitor \<Rightarrow> (compile_error, parseVisitor) result" where
  "VisitSaveFromAccount amt acc p =
     bindr (case amt of MonAll asset \<Rightarrow> push_address_of asset TypeAsset p
                      | Mon mon \<Rightarrow> push_address_of mon TypeMonetary p) (\<lambda>p.
     bindr (push_address_of acc TypeAccount p) (\<lambda>p.
       Inr (AppendInstruction OP_SAVE p)))"

definition VisitPrint :: "expr \<Rightarrow> parseVisitor \<Rightarrow> (compile_error, parseVisitor) result" where
  "VisitPrint e p = bindr (VisitExpr e True p) (\<lambda>(_, p). Inr (AppendInstruction OP_PRINT p))"

section \<open>Variables\<close>

definition type_of_text :: "string \<Rightarrow> type option" where
  "type_of_text s = map_of
     [(''account'', TypeAccount), (''asset'', TypeAsset), (''number'', TypeNumber),
      (''string'', TypeString), (''monetary'', TypeMonetary), (''portion'', TypePortion)] s"

text \<open>The resource of a declared variable.\<close>

definition VisitOrigin ::
    "type \<Rightarrow> string \<Rightarrow> origin option \<Rightarrow> parseVisitor \<Rightarrow> address visit" where
  "VisitOrigin ty name orig p =
     (case orig of
        None \<Rightarrow>
          map_error (\<lambda>_. PlainCompileError ''allocating variable resource'')
            (AllocateResource (Variable ty name) p)
      | Some (OriginAccountMeta account key) \<Rightarrow>
          bindr (VisitExpr account False p) (\<lambda>((srcTy, src), p).
            if srcTy \<noteq> TypeAccount
            then raise (LogicError ''type should be account to pull account metadata'')
            else case src of None \<Rightarrow> panic | Some a \<Rightarrow>
              AllocateResource (VariableAccountMetadata ty name a (Trim_quotes key)) p)
      | Some (OriginAccountBalance account asset) \<Rightarrow>
          if ty \<noteq> TypeMonetary
          then raise (LogicError ''type should be monetary to pull account balance'')
          else
            bindr (VisitExpr account False p) (\<lambda>((accTy, accAddr), p).
              if accTy \<noteq> TypeAccount
              then raise (LogicError ''the first argument should be of type account'')
              else
                bindr (VisitExpr asset False p) (\<lambda>((assTy, assAddr), p).
                  if assTy \<noteq> TypeAsset
                  then raise (LogicError ''the second argument should be of type asset'')
                  else case (accAddr, assAddr) of
                    (Some a, Some b) \<Rightarrow> AllocateResource (VariableAccountBalance name a b) p
                  | _ \<Rightarrow> panic)))"

fun VisitVars_loop :: "var_decl list \<Rightarrow> parseVisitor \<Rightarrow> (compile_error, parseVisitor) result" where
  "VisitVars_loop [] p = Inr p"
| "VisitVars_loop (v # vs) p =
     (let name = tl (decl_name v) in
      if map_of (varIdx p) name \<noteq> None then raise (LogicError ''duplicate variable'')
      else case type_of_text (decl_ty v) of
        None \<Rightarrow> raise InternalError
      | Some ty \<Rightarrow>
          bindr (VisitOrigin ty name (decl_orig v) p) (\<lambda>(addr, p).
            VisitVars_loop vs (p\<lparr>varIdx := AList.update name addr (varIdx p)\<rparr>)))"

definition VisitVars :: "var_decl list \<Rightarrow> parseVisitor \<Rightarrow> (compile_error, parseVisitor) result" where
  "VisitVars vs p =
     (if length vs > 32768 then raise (LogicError ''number of variables exceeded 32768'')
      else VisitVars_loop vs p)"

section \<open>Scripts\<close>

fun VisitStmt :: "stmt \<Rightarrow> parseVisitor \<Rightarrow> (compile_error, parseVisitor) result" where
  "VisitStmt (Print e) p = VisitPrint e p"
| "VisitStmt Fail p = Inr (AppendInstruction OP_FAIL p)"
| "VisitStmt (Send amt src d) p = VisitSend amt src d p"
| "VisitStmt (SetTxMeta key val) p = VisitSetTxMeta key val p"
| "VisitStmt (SetAccountMeta acc key val) p = VisitSetAccountMeta acc key val p"
| "VisitStmt (SaveFromAccount amt acc) p = VisitSaveFromAccount amt acc p"

definition VisitScript :: "script \<Rightarrow> parseVisitor \<Rightarrow> (compile_error, parseVisitor) result" where
  "VisitScript s p =
     bindr (case script_vars s of None \<Rightarrow> Inr p | Some vs \<Rightarrow> VisitVars vs p)
       (foldr_result VisitStmt (script_stmts s))"

definition new_visitor :: parseVisitor where
  "new_visitor = \<lparr>instructions = [], resources = [], sources = [], varIdx = [], neededBalances = []\<rparr>"

text \<open>\<open>CompileFull\<close> and \<open>Compile\<close> from the parse tree on.\<close>

definition Compile :: "script \<Rightarrow> (compile_error, program) result" where
  "Compile s =
     bindr (VisitScript s new_visitor) (\<lambda>p.
       Inr \<lparr>Instructions = instructions p, ProgResources = resources p,
            NeededBalances = neededBalances p\<rparr>)"

end
