(* ===== verification/Compiler_Sound.thy ===== *)
theory Compiler_Sound
  imports Vm_Check Numscript_Compiler
begin

text \<open>
  The compiler emits checked code. For every \<open>Visit\<close> function, the code it appends takes an
  abstract stack to the one its construct promises: an expression pushes a value of its type, a
  source pushes a funding, a destination consumes one. With the soundness of the checker, a
  compiled script cannot panic the machine, leaves nothing on its stack and makes no negative
  posting.
\<close>

section \<open>Well-formed visitors\<close>

text \<open>The constants and variables of a program, given the resources before them.\<close>

fun wf_resource :: "resource list \<Rightarrow> resource \<Rightarrow> bool" where
  "wf_resource rs (Constant v) = (val_ok v \<and> portions_ok v \<and> storable_type (GetType v))"
| "wf_resource rs (Variable t n) = storable_type t"
| "wf_resource rs (VariableAccountMetadata t n a k) =
     (storable_type t \<and> unat a < length rs \<and> ResourceType (rs ! unat a) = TypeAccount)"
| "wf_resource rs (VariableAccountBalance n a c) =
     (unat a < length rs \<and> ResourceType (rs ! unat a) = TypeAccount \<and>
      unat c < length rs \<and> ResourceType (rs ! unat c) = TypeAsset)"
| "wf_resource rs (MonetaryRes a n) =
     (n \<noteq> None \<and> unat a < length rs \<and> ResourceType (rs ! unat a) = TypeAsset)"

definition wf_resources :: "resource list \<Rightarrow> bool" where
  "wf_resources rs \<longleftrightarrow> (\<forall>i < length rs. wf_resource (take i rs) (rs ! i))"

definition wf_visitor :: "parseVisitor \<Rightarrow> bool" where
  "wf_visitor p \<longleftrightarrow> wf_resources (resources p) \<and> length (resources p) \<le> 65536 \<and>
     (\<forall>n a. map_of (varIdx p) n = Some a \<longrightarrow> unat a < length (resources p))"

lemma wf_resources_snoc:
  "wf_resources (rs @ [r]) \<longleftrightarrow> wf_resources rs \<and> wf_resource rs r"
proof
  assume l: "wf_resources (rs @ [r])"
  then have "wf_resource (take (length rs) (rs @ [r])) ((rs @ [r]) ! length rs)"
    unfolding wf_resources_def by (metis length_append_singleton lessI)
  then have "wf_resource rs r" by simp
  moreover have "wf_resource (take i rs) (rs ! i)" if "i < length rs" for i
    using l that unfolding wf_resources_def by (auto simp: nth_append dest: spec [of _ i])
  ultimately show "wf_resources rs \<and> wf_resource rs r" by (simp add: wf_resources_def)
next
  assume "wf_resources rs \<and> wf_resource rs r"
  then show "wf_resources (rs @ [r])"
    by (auto simp: wf_resources_def nth_append less_Suc_eq)
qed

lemma wf_resource_storable: "wf_resource rs r \<Longrightarrow> storable_type (ResourceType r)"
  by (cases r) (auto simp: storable_type_def)

lemma wf_storable: "wf_visitor p \<Longrightarrow> i < length (resources p) \<Longrightarrow> storable_type (ResourceType (resources p ! i))"
  using wf_resource_storable by (auto simp: wf_visitor_def wf_resources_def)

text \<open>An address of a resource with a type.\<close>

definition addr_ok :: "parseVisitor \<Rightarrow> address \<Rightarrow> type \<Rightarrow> bool" where
  "addr_ok p a t \<longleftrightarrow> unat a < length (resources p) \<and> ResourceType (resources p ! unat a) = t"

text \<open>An abstract value that denotes something of a type.\<close>

fun av_ok :: "parseVisitor \<Rightarrow> aval \<Rightarrow> type \<Rightarrow> bool" where
  "av_ok p (ARes a) t = addr_ok p a t"
| "av_ok p av t = (aty [] av = t)"

text \<open>
  A visitor grows: it keeps its variables, extends its resources and appends code. The code takes
  one abstract stack to another, whatever resources are added later.
\<close>

definition grows :: "parseVisitor \<Rightarrow> parseVisitor \<Rightarrow> bool" where
  "grows p p' \<longleftrightarrow> varIdx p' = varIdx p \<and> prefix (resources p) (resources p') \<and> wf_visitor p' \<and>
     prefix (instructions p) (instructions p')"

definition emits :: "parseVisitor \<Rightarrow> parseVisitor \<Rightarrow> aval list \<Rightarrow> aval list \<Rightarrow> bool" where
  "emits p p' S S' \<longleftrightarrow> grows p p' \<and>
     (\<exists>code. instructions p' = instructions p @ code \<and>
        (\<forall>rs. prefix (resources p') rs \<longrightarrow> check rs code S = Some S'))"

lemma emits_grows: "emits p p' S S' \<Longrightarrow> grows p p'"
  by (simp add: emits_def)

lemma grows_wf: "grows p p' \<Longrightarrow> wf_visitor p'"
  by (simp add: grows_def)

lemma grows_refl: "wf_visitor p \<Longrightarrow> grows p p"
  by (simp add: grows_def)

lemma grows_trans: "grows p p' \<Longrightarrow> grows p' p'' \<Longrightarrow> grows p p''"
  by (auto simp: grows_def intro: prefix_order.trans)

lemma emits_refl: "wf_visitor p \<Longrightarrow> emits p p S S"
  by (simp add: emits_def grows_refl)

lemma emits_trans:
  assumes "emits p p' S S'" "emits p' p'' S' S''"
  shows "emits p p'' S S''"
proof -
  from assms obtain c d where c: "instructions p' = instructions p @ c"
    "\<forall>rs. prefix (resources p') rs \<longrightarrow> check rs c S = Some S'"
    and d: "instructions p'' = instructions p' @ d"
    "\<forall>rs. prefix (resources p'') rs \<longrightarrow> check rs d S' = Some S''"
    by (auto simp: emits_def)
  have "prefix (resources p') (resources p'')" using assms(2) by (simp add: emits_def grows_def)
  then have "check rs (c @ d) S = Some S''" if "prefix (resources p'') rs" for rs
    using that c(2) d(2) check_append by (metis prefix_order.trans)
  with c(1) d(1) have "instructions p'' = instructions p @ (c @ d) \<and>
      (\<forall>rs. prefix (resources p'') rs \<longrightarrow> check rs (c @ d) S = Some S'')" by simp
  moreover have "grows p p''" using assms grows_trans emits_grows by blast
  ultimately show ?thesis unfolding emits_def by blast
qed

text \<open>The sets of accounts kept for later do not matter to the code.\<close>

lemma emits_sets:
  "emits p (p'\<lparr>sources := s\<rparr>) S S' \<longleftrightarrow> emits p p' S S'"
  "emits p (p'\<lparr>neededBalances := n\<rparr>) S S' \<longleftrightarrow> emits p p' S S'"
  by (simp_all add: emits_def grows_def wf_visitor_def)

lemma addr_ok_grows: "addr_ok p a t \<Longrightarrow> grows p p' \<Longrightarrow> addr_ok p' a t"
  by (auto simp: addr_ok_def grows_def prefix_def nth_append)

lemma av_ok_grows: "av_ok p av t \<Longrightarrow> grows p p' \<Longrightarrow> av_ok p' av t"
  using addr_ok_grows by (cases av) auto

lemma av_ok_aty: "av_ok p av t \<Longrightarrow> prefix (resources p) rs \<Longrightarrow> aty rs av = t"
  by (cases av) (auto simp: addr_ok_def prefix_def nth_append)

lemma addr_ok_sets [simp]:
  "addr_ok (p\<lparr>sources := s\<rparr>) a t = addr_ok p a t"
  "addr_ok (p\<lparr>neededBalances := n\<rparr>) a t = addr_ok p a t"
  by (simp_all add: addr_ok_def)

section \<open>The primitives\<close>

lemma check_single:
  assumes "op \<noteq> OP_APUSH" "check_op rs op S = Some S'"
  shows "check rs [opcode_byte op] S = Some S'"
  using assms by simp

lemma emits_Append:
  assumes "wf_visitor p" "op \<noteq> OP_APUSH"
    and "\<And>rs. prefix (resources p) rs \<Longrightarrow> check_op rs op S = Some S'"
  shows "emits p (AppendInstruction op p) S S'"
  using assms check_single by (auto simp: emits_def grows_def AppendInstruction_def wf_visitor_def)

lemma emits_Push:
  assumes "wf_visitor p" "unat a < length (resources p)"
  shows "emits p (PushAddress a p) S (ARes a # S)"
proof -
  have "check rs ([opcode_byte OP_APUSH] @ ToBytes a) S = Some (ARes a # S)"
    if "prefix (resources p) rs" for rs
    using assms(2) that Uint16_ToBytes [of a] prefix_length_le [OF that]
    by (simp add: ToBytes_def decode_op_def opcodes_def)
  moreover have "grows p (PushAddress a p)"
    using assms(1) by (simp add: grows_def PushAddress_def wf_visitor_def)
  ultimately show ?thesis unfolding emits_def by (auto simp: PushAddress_def)
qed

lemma findConstant_Some:
  "findConstant v rs i = Some j \<Longrightarrow>
     \<exists>k c. j = i + k \<and> k < length rs \<and> rs ! k = Constant c \<and> ValueEquals c v"
proof (induction rs arbitrary: i)
  case (Cons r rs)
  show ?case
  proof (cases "\<exists>c. r = Constant c \<and> ValueEquals c v")
    case True
    with Cons.prems show ?thesis by (intro exI [of _ 0]) auto
  next
    case False
    with Cons.prems have "findConstant v rs (Suc i) = Some j" by (cases r) auto
    with Cons.IH obtain k d where "j = Suc i + k" "k < length rs" "rs ! k = Constant d" "ValueEquals d v"
      by blast
    then show ?thesis by (intro exI [of _ "Suc k"] exI [of _ d]) auto
  qed
qed simp

lemma unat_of_nat_16: "i < 65536 \<Longrightarrow> unat (of_nat i :: address) = i"
  by (simp add: unat_of_nat take_bit_nat_eq_self)

text \<open>What the allocation of a resource gives: an address of that resource.\<close>

definition allocated :: "parseVisitor \<Rightarrow> parseVisitor \<Rightarrow> address \<Rightarrow> resource \<Rightarrow> bool" where
  "allocated p p' a r \<longleftrightarrow> (\<forall>S. emits p p' S S) \<and> unat a < length (resources p') \<and>
     resources p' ! unat a = r"

lemma allocated_addr: "allocated p p' a r \<Longrightarrow> addr_ok p' a (ResourceType r)"
  by (simp add: allocated_def addr_ok_def)

lemma allocated_emits: "allocated p p' a r \<Longrightarrow> emits p p' S S"
  by (simp add: allocated_def)

lemma append_resource_allocated:
  assumes "append_resource r p = Inr (a, p')" "wf_visitor p" "wf_resource (resources p) r"
  shows "allocated p p' a r"
proof -
  from assms(1) have l: "length (resources p) < 65536" and a: "a = of_nat (length (resources p))"
    and p': "p' = p\<lparr>resources := resources p @ [r]\<rparr>"
    by (auto simp: append_resource_def split: if_splits)
  have "wf_visitor p'" using assms(2,3) l by (auto simp: p' wf_visitor_def wf_resources_snoc less_Suc_eq)
  then have "emits p p' S S" for S
    by (auto simp: emits_def grows_def p')
  then show ?thesis using l by (simp add: allocated_def a p' unat_of_nat_16)
qed

lemma AllocateResource_allocated:
  assumes "AllocateResource r p = Inr (a, p')" "wf_visitor p" "wf_resource (resources p) r"
  shows "allocated p p' a r"
proof (cases "\<exists>c i. r = Constant c \<and> findConstant c (resources p) 0 = Some i")
  case False
  with assms(1) have "append_resource r p = Inr (a, p')"
    by (auto simp: AllocateResource_def split: resource.splits option.splits)
  with assms(2,3) show ?thesis by (intro append_resource_allocated)
next
  case True
  then obtain c i where c: "r = Constant c" "findConstant c (resources p) 0 = Some i" by blast
  with assms(1) have a: "a = of_nat i" "p' = p" by (auto simp: AllocateResource_def)
  from findConstant_Some [OF c(2)] obtain d where
    i: "i < length (resources p)" "resources p ! i = Constant d" "ValueEquals d c" by auto
  have "wf_resource (take i (resources p)) (Constant d)"
    using assms(2) i(1,2) unfolding wf_visitor_def wf_resources_def by metis
  with i(3) assms(3) c(1) ValueEquals_iff have "d = c" by auto
  moreover have "i < 65536" using i(1) assms(2) by (simp add: wf_visitor_def)
  ultimately show ?thesis
    using i(1,2) c(1) assms(2) by (simp add: allocated_def a unat_of_nat_16 emits_refl)
qed

text \<open>A number that is pushed is known.\<close>

definition num_at :: "parseVisitor \<Rightarrow> address \<Rightarrow> int \<Rightarrow> bool" where
  "num_at p a n \<longleftrightarrow> unat a < length (resources p) \<and>
     resources p ! unat a = Constant (VNumber (Some n))"

lemma num_at_known:
  assumes "num_at p a n" "prefix (resources p) rs"
  shows "known_number rs (ARes a) = Some n" "aty rs (ARes a) = TypeNumber"
  using assms by (auto simp: num_at_def prefix_def nth_append)

lemma emits_PushInteger:
  assumes "PushInteger n p = Inr p'" "wf_visitor p"
  shows "\<exists>a. num_at p' a n \<and> (\<forall>S. emits p p' S (ARes a # S))"
proof -
  from assms(1) obtain a p1 where a: "AllocateResource (Constant (VNumber (Some n))) p = Inr (a, p1)"
    and p': "p' = PushAddress a p1" by (auto simp: PushInteger_def result_simps)
  have "wf_resource (resources p) (Constant (VNumber (Some n)))" by (simp add: storable_type_def)
  from AllocateResource_allocated [OF a assms(2) this]
  have al: "allocated p p1 a (Constant (VNumber (Some n)))" .
  then have wf1: "wf_visitor p1" using emits_grows grows_wf allocated_emits by blast
  have u: "unat a < length (resources p1)" using al by (simp add: allocated_def)
  have "emits p p' S (ARes a # S)" for S
    unfolding p' using allocated_emits [OF al] emits_Push [OF wf1 u] by (rule emits_trans)
  moreover have "num_at p' a n"
    using al by (simp add: num_at_def allocated_def p' PushAddress_def)
  ultimately show ?thesis by blast
qed

lemma emits_num_op:
  assumes "PushInteger n p = Inr p1" "wf_visitor p" "op \<noteq> OP_APUSH"
    and "\<And>a rs. known_number rs (ARes a) = Some n \<Longrightarrow> aty rs (ARes a) = TypeNumber \<Longrightarrow>
      prefix (resources p1) rs \<Longrightarrow> check_op rs op (ARes a # S) = Some S'"
  shows "emits p (AppendInstruction op p1) S S'"
proof -
  from emits_PushInteger [OF assms(1,2)] obtain a where
    a: "num_at p1 a n" "emits p p1 S (ARes a # S)" by blast
  have "emits p1 (AppendInstruction op p1) (ARes a # S) S'"
    using a(2) assms(3) num_at_known [OF a(1)] assms(4)
    by (intro emits_Append) (auto dest: emits_grows grows_wf)
  with a(2) show ?thesis by (rule emits_trans)
qed

lemma emits_Bump:
  assumes "Bump (int k) p = Inr p'" "wf_visitor p" "k < length S" "k < 2 ^ 64"
  shows "emits p p' S (S ! k # take k S @ drop (Suc k) S)"
proof -
  from assms(1) obtain p1 where p1: "PushInteger (int k) p = Inr p1" "p' = AppendInstruction OP_BUMP p1"
    by (auto simp: Bump_def result_simps)
  have "int k < 2 ^ 64" using assms(4) by (metis of_nat_less_iff of_nat_numeral of_nat_power)
  with assms(3) show ?thesis
    unfolding p1(2) by (intro emits_num_op [OF p1(1) assms(2)]) auto
qed

section \<open>Expressions\<close>

text \<open>What visiting an expression gives, pushed or not.\<close>

definition expr_ok ::
    "bool \<Rightarrow> parseVisitor \<Rightarrow> parseVisitor \<Rightarrow> type \<Rightarrow> address option \<Rightarrow> bool" where
  "expr_ok push p p' t addr \<longleftrightarrow>
     storable_type t \<and> (\<forall>a. addr = Some a \<longrightarrow> addr_ok p' a t) \<and> (addr = None \<longrightarrow> t = TypeNumber) \<and>
     (if push then \<exists>av. av_ok p' av t \<and> (\<forall>S. emits p p' S (av # S))
      else \<forall>S. emits p p' S S)"

lemma expr_ok_grows: "expr_ok push p p' t addr \<Longrightarrow> grows p p'"
  by (auto simp: expr_ok_def dest: emits_grows split: if_splits)

lemma expr_ok_wf: "expr_ok push p p' t addr \<Longrightarrow> wf_visitor p'"
  using expr_ok_grows grows_wf by blast

lemma expr_ok_pushed:
  assumes "expr_ok True p p' t addr"
  obtains av where "av_ok p' av t" "\<And>S. emits p p' S (av # S)"
  using assms by (auto simp: expr_ok_def)

lemma expr_ok_not_pushed: "expr_ok False p p' t addr \<Longrightarrow> emits p p' S S"
  by (simp add: expr_ok_def)

text \<open>An address, pushed or not.\<close>

lemma expr_ok_address:
  assumes "\<And>S. emits p p1 S S" "addr_ok p1 a t" "storable_type t"
  shows "expr_ok push p (if push then PushAddress a p1 else p1) t (Some a)"
proof -
  have wf1: "wf_visitor p1" using assms(1) emits_grows grows_wf by blast
  have u: "unat a < length (resources p1)" using assms(2) by (simp add: addr_ok_def)
  have "emits p (PushAddress a p1) S (ARes a # S)" for S
    using assms(1) emits_Push [OF wf1 u] by (rule emits_trans)
  moreover have "addr_ok (PushAddress a p1) a t"
    using assms(2) by (simp add: addr_ok_def PushAddress_def)
  ultimately show ?thesis
    using assms unfolding expr_ok_def by (auto intro!: exI [of _ "ARes a"])
qed

lemma VisitVariable_ok:
  assumes "VisitVariable text push p = Inr ((t, addr), p')" "wf_visitor p"
  shows "expr_ok push p p' t addr"
proof -
  obtain a where v: "map_of (varIdx p) (tl text) = Some a"
    using assms(1) by (cases "map_of (varIdx p) (tl text)") (simp_all add: VisitVariable_def)
  then have a: "unat a < length (resources p)" "addr = Some a"
    "t = ResourceType (resources p ! unat a)" "p' = (if push then PushAddress a p else p)"
    using assms(1) by (simp_all add: VisitVariable_def split: if_split_asm)
  have "addr_ok p a t" "storable_type t"
    using a wf_storable [OF assms(2) a(1)] by (simp_all add: addr_ok_def)
  from expr_ok_address [OF emits_refl [OF assms(2)] this] show ?thesis
    unfolding a(2,4) .
qed

lemma visit_constant_ok:
  assumes "visit_constant v push p = Inr ((t, addr), p')" "wf_visitor p"
    and "val_ok v" "portions_ok v" "storable_type (GetType v)"
  shows "expr_ok push p p' t addr"
proof -
  from assms(1) obtain a p1 where a: "AllocateResource (Constant v) p = Inr (a, p1)"
    and r: "addr = Some a" "t = GetType v" "p' = (if push then PushAddress a p1 else p1)"
    by (auto simp: visit_constant_def result_simps)
  from AllocateResource_allocated [OF a assms(2)] assms(3-5)
  have al: "allocated p p1 a (Constant v)" by simp
  show ?thesis
    unfolding r using allocated_emits [OF al] allocated_addr [OF al] assms(5)
    by (intro expr_ok_address) auto
qed

lemma nth_shift:
  "found = Some j \<or> (\<exists>k. j = Suc i + k \<and> k < length rs \<and> rs ! k = x) \<Longrightarrow>
   found = Some j \<or> (\<exists>k. j = i + k \<and> k < length (r # rs) \<and> (r # rs) ! k = x)"
proof (elim disjE exE conjE)
  fix k
  assume "j = Suc i + k" "k < length rs" "rs ! k = x"
  then have "j = i + Suc k \<and> Suc k < length (r # rs) \<and> (r # rs) ! Suc k = x" by simp
  then show "found = Some j \<or> (\<exists>k. j = i + k \<and> k < length (r # rs) \<and> (r # rs) ! k = x)" by blast
qed simp

lemma find_monetary_Some:
  "find_monetary asset amt rs i found = Some j \<Longrightarrow>
     found = Some j \<or> (\<exists>k. j = i + k \<and> k < length rs \<and> rs ! k = MonetaryRes asset amt)"
proof (induction asset amt rs i found rule: find_monetary.induct)
  case (2 asset amt a n rs i found)
  then consider "(if a = asset \<and> n = amt then Some i else found) = Some j"
    | k where "j = Suc i + k" "k < length rs" "rs ! k = MonetaryRes asset amt"
    by auto
  then show ?case
  proof cases
    case 1
    then show ?thesis by (cases "a = asset \<and> n = amt") (auto intro: exI [of _ 0])
  next
    case 2
    then show ?thesis by (intro disjI2 exI [of _ "Suc k"]) simp
  qed
qed (simp_all only: find_monetary.simps nth_shift, simp)

lemma visit_monetary_ok:
  assumes "visit_monetary a n push p = Inr ((t, addr), p')" "wf_visitor p"
    and "n \<noteq> None" "addr_ok p a TypeAsset"
  shows "expr_ok push p p' t addr"
proof -
  from assms(1) obtain b p1 where
    b: "(case find_monetary a n (resources p) 0 None of Some i \<Rightarrow> Inr (of_nat i, p)
         | None \<Rightarrow> AllocateResource (MonetaryRes a n) p) = Inr (b, p1)"
    and r: "addr = Some b" "t = TypeMonetary" "p' = (if push then PushAddress b p1 else p1)"
    by (auto simp: visit_monetary_def result_simps)
  have "(\<forall>S. emits p p1 S S) \<and> addr_ok p1 b TypeMonetary"
  proof (cases "find_monetary a n (resources p) 0 None")
    case None
    with b have "AllocateResource (MonetaryRes a n) p = Inr (b, p1)" by simp
    from AllocateResource_allocated [OF this assms(2)] assms(3,4)
    have al: "allocated p p1 b (MonetaryRes a n)" by (auto simp: addr_ok_def)
    show ?thesis using allocated_emits [OF al] allocated_addr [OF al] by simp
  next
    case (Some i)
    with b have i: "b = of_nat i" "p1 = p" by auto
    from find_monetary_Some [OF Some] have "i < length (resources p)"
      "resources p ! i = MonetaryRes a n" by auto
    moreover have "i < 65536" using calculation(1) assms(2) by (simp add: wf_visitor_def)
    ultimately show ?thesis
      using assms(2) by (simp add: i addr_ok_def unat_of_nat_16 emits_refl)
  qed
  then show ?thesis unfolding r by (intro expr_ok_address) (auto simp: storable_type_def)
qed

lemma expr_ok_arith:
  assumes "expr_ok push p p1 t addr" "expr_ok push p1 p2 t raddr"
    and "op \<noteq> OP_APUSH" "t = TypeNumber \<longrightarrow> addr' = None" "t = TypeMonetary \<longrightarrow> addr' = addr"
    and "t \<in> {TypeNumber, TypeMonetary}"
    and "\<And>rs a b S. aty rs a = t \<Longrightarrow> aty rs b = t \<Longrightarrow> check_op rs op (b # a # S) = Some (AT t # S)"
  shows "expr_ok push p (arith_code push op p2) t addr'"
proof (cases push)
  case False
  with assms(1,2) have "emits p p2 S S" for S
    using emits_trans [of p p1 S S p2 S] by (simp add: expr_ok_def)
  with assms False addr_ok_grows [OF _ expr_ok_grows [OF assms(2)]] show ?thesis
    by (auto simp: expr_ok_def arith_code_def)
next
  case True
  with assms(1,2) obtain a b where a: "av_ok p1 a t" "\<And>S. emits p p1 S (a # S)"
    and b: "av_ok p2 b t" "\<And>S. emits p1 p2 S (b # S)"
    by (metis expr_ok_pushed)
  have a2: "av_ok p2 a t" using a(1) expr_ok_grows [OF assms(2)] by (rule av_ok_grows)
  have "emits p2 (AppendInstruction op p2) (b # a # S) (AT t # S)" for S
    using expr_ok_wf [OF assms(2)] assms(3,7) av_ok_aty [OF a2] av_ok_aty [OF b(1)]
    by (intro emits_Append) auto
  then have e: "emits p (AppendInstruction op p2) S (AT t # S)" for S
    using a(2) b(2) emits_trans by metis
  have "addr_ok (AppendInstruction op p2) c t" if "addr' = Some c" for c
    using that assms(1,4-6) addr_ok_grows [OF _ expr_ok_grows [OF assms(2)]]
    by (auto simp: expr_ok_def addr_ok_def AppendInstruction_def)
  with e True assms(1,4,5,6) show ?thesis
    by (auto simp: expr_ok_def arith_code_def intro!: exI [of _ "AT t"])
qed

lemma ParseMonetaryInt_Some: "ParseMonetaryInt s = Inr n \<Longrightarrow> n \<noteq> None"
  by (cases "parse_int s") (auto simp: ParseMonetaryInt_def)

lemma ParsePortion_const:
  assumes "ParsePortionSpecific s = Inr p"
  shows "val_ok (VPortion p)" "portions_ok (VPortion p)" "\<exists>r. Specific p = Some r"
  using ParsePortionSpecific_Inr [OF assms] by auto

lemma VisitExpr_VisitLit_ok:
  "VisitExpr e push p = Inr ((t, addr), p') \<Longrightarrow> wf_visitor p \<Longrightarrow> expr_ok push p p' t addr"
  "VisitLit l push p = Inr ((t, addr), p') \<Longrightarrow> wf_visitor p \<Longrightarrow> expr_ok push p p' t addr"
proof (induction e push p and l push p arbitrary: t addr p' and t addr p'
    rule: VisitExpr_VisitLit.induct)
  case (1 lhs op rhs push p)
  from "1.prems"(1) obtain lt la p1 where l: "VisitExpr lhs push p = Inr ((lt, la), p1)"
    by (auto simp: result_simps)
  note lok = "1.IH"(1) [OF l "1.prems"(2)]
  note wf1 = expr_ok_wf [OF lok]
  from "1.prems"(1) l obtain ra p2 where r: "VisitExpr rhs push p1 = Inr ((lt, ra), p2)"
    and lt: "lt \<in> {TypeNumber, TypeMonetary}" "t = lt" "addr = (if lt = TypeNumber then None else la)"
    and p': "p' = arith_code push (if lt = TypeNumber then (case op of ADD \<Rightarrow> OP_IADD | SUB \<Rightarrow> OP_ISUB)
                 else (case op of ADD \<Rightarrow> OP_MONETARY_ADD | SUB \<Rightarrow> OP_MONETARY_SUB)) p2"
    by (auto simp: result_simps split: if_splits)
  have rok: "expr_ok push p1 p2 lt ra"
    using "1.IH"(2,3) r wf1 lt(1) by (auto split: if_splits)
  show ?case
    unfolding p' lt(2) using lt
    by (intro expr_ok_arith [OF lok rok]) (cases op; auto)+
next
  case (9 asset amt push p)
  from "9.prems"(1) obtain aa p1 a n where
    e: "VisitExpr asset False p = Inr ((TypeAsset, Some a), p1)"
    and n: "ParseMonetaryInt amt = Inr n"
    and m: "visit_monetary a n push p1 = Inr ((t, addr), p')"
    by (auto simp: result_simps split: if_splits sum.splits option.splits)
  note eok = "9.IH" [OF e "9.prems"(2)]
  have "addr_ok p1 a TypeAsset" using eok by (simp add: expr_ok_def)
  from visit_monetary_ok [OF m expr_ok_wf [OF eok] ParseMonetaryInt_Some [OF n] this]
  have mok: "expr_ok push p1 p' t addr" .
  show ?case
    using mok expr_ok_not_pushed [OF eok] emits_trans unfolding expr_ok_def by metis
next
  case (3 v push p)
  then show ?case by (auto intro: VisitVariable_ok)
next
  case (6 s push p)
  then show ?case
    by (auto intro!: visit_constant_ok simp: storable_type_def dest: ParseMonetaryInt_Some
        split: sum.splits)
next
  case (8 s push p)
  then show ?case
    by (auto intro!: visit_constant_ok simp: storable_type_def dest: ParsePortion_const
        split: sum.splits)
qed (auto intro!: visit_constant_ok simp: storable_type_def split: option.splits)

section \<open>Allotments\<close>

lemma av_ok_all_grows:
  "list_all (\<lambda>av. av_ok p av t) avs \<Longrightarrow> grows p p' \<Longrightarrow> list_all (\<lambda>av. av_ok p' av t) avs"
  using av_ok_grows by (auto simp: list_all_iff)

text \<open>Visiting the portions pushes one portion for each.\<close>

lemma VisitPortions_ok:
  assumes "VisitPortions cs st p = Inr (st', p')" "wf_visitor p"
  shows "\<exists>avs. length avs = length cs \<and> list_all (\<lambda>av. av_ok p' av TypePortion) avs \<and>
     (\<forall>S. emits p p' S (avs @ S))"
  using assms
proof (induction cs arbitrary: st p)
  case Nil
  then show ?case using emits_refl by (intro exI [of _ "[]"]) simp
next
  case (Cons c cs)
  obtain tot hv hr where st: "st = (tot, hv, hr)" by (cases st)
  have "\<exists>av p1 st1. av_ok p1 av TypePortion \<and> (\<forall>S. emits p p1 S (av # S)) \<and>
      VisitPortions cs st1 p1 = Inr (st', p')"
  proof (cases c)
    case (PortionConst s)
    with Cons.prems(1) st obtain por r where por: "ParsePortionSpecific s = Inr por" "Specific por = Some r"
      by (cases "ParsePortionSpecific s") (auto split: option.splits)
    with Cons.prems(1) st PortionConst obtain a p1 where
      a: "AllocateResource (Constant (VPortion por)) p = Inr (a, p1)"
      and rest: "VisitPortions cs (tot + r, hv, hr) (PushAddress a p1) = Inr (st', p')"
      by (auto simp: result_simps)
    have "wf_resource (resources p) (Constant (VPortion por))"
      using ParsePortion_const [OF por(1)] by (simp add: storable_type_def)
    from AllocateResource_allocated [OF a Cons.prems(2) this]
    have al: "allocated p p1 a (Constant (VPortion por))" .
    have ok: "expr_ok True p (if True then PushAddress a p1 else p1) TypePortion (Some a)"
      using allocated_emits [OF al] allocated_addr [OF al]
      by (intro expr_ok_address) (simp_all add: storable_type_def)
    then have "expr_ok True p (PushAddress a p1) TypePortion (Some a)" by simp
    with rest show ?thesis by (metis expr_ok_pushed)
  next
    case (PortionVar s)
    with Cons.prems(1) st obtain addr p1 where
      v: "VisitVariable s True p = Inr ((TypePortion, addr), p1)"
      and rest: "VisitPortions cs (tot, True, hr) p1 = Inr (st', p')"
      by (auto simp: result_simps split: if_splits)
    from VisitVariable_ok [OF v Cons.prems(2)] rest show ?thesis by (metis expr_ok_pushed)
  next
    case PortionRemaining
    with Cons.prems(1) st obtain a p1 where
      a: "AllocateResource (Constant (VPortion NewPortionRemaining)) p = Inr (a, p1)"
      and rest: "VisitPortions cs (tot, hv, True) (PushAddress a p1) = Inr (st', p')"
      by (auto simp: result_simps split: if_splits)
    have "wf_resource (resources p) (Constant (VPortion NewPortionRemaining))"
      by (simp add: storable_type_def NewPortionRemaining_def)
    from AllocateResource_allocated [OF a Cons.prems(2) this]
    have al: "allocated p p1 a (Constant (VPortion NewPortionRemaining))" .
    have ok: "expr_ok True p (if True then PushAddress a p1 else p1) TypePortion (Some a)"
      using allocated_emits [OF al] allocated_addr [OF al]
      by (intro expr_ok_address) (simp_all add: storable_type_def)
    then have "expr_ok True p (PushAddress a p1) TypePortion (Some a)" by simp
    with rest show ?thesis by (metis expr_ok_pushed)
  qed
  then obtain av p1 st1 where av: "av_ok p1 av TypePortion" "\<And>S. emits p p1 S (av # S)"
    and rest: "VisitPortions cs st1 p1 = Inr (st', p')" by blast
  have "wf_visitor p1" using av(2) emits_grows grows_wf by blast
  from Cons.IH [OF rest this] obtain avs where avs: "length avs = length cs"
    "list_all (\<lambda>av. av_ok p' av TypePortion) avs" "\<And>S. emits p1 p' S (avs @ S)" by blast
  have "av_ok p' av TypePortion" using av(1) emits_grows [OF avs(3)] by (rule av_ok_grows)
  moreover have "emits p p' S ((avs @ [av]) @ S)" for S
    using emits_trans [OF av(2) avs(3)] by simp
  ultimately show ?case using avs(1,2) by (intro exI [of _ "avs @ [av]"]) simp
qed

lemma drop_typed_append:
  "list_all (\<lambda>v. aty rs v = t) U \<Longrightarrow> drop_typed rs t (length U) (U @ S) = Some S"
  by (simp add: drop_typed_def)

lemma VisitAllotment_ok:
  assumes "VisitAllotment portions p = Inr p'" "wf_visitor p" "length portions < 2 ^ 63"
  shows "emits p p' S (AAllot (length portions) # S)"
proof -
  from assms(1) obtain st p1 p2 where v: "VisitPortions (rev portions) (0, False, False) p = Inr (st, p1)"
    and n: "PushInteger (int (length portions)) p1 = Inr p2"
    and p': "p' = AppendInstruction OP_MAKE_ALLOTMENT p2"
    by (auto simp: VisitAllotment_def result_simps split: if_splits)
  from VisitPortions_ok [OF v assms(2)] obtain avs where avs: "length avs = length portions"
    "list_all (\<lambda>av. av_ok p1 av TypePortion) avs" "\<And>S. emits p p1 S (avs @ S)" by auto
  have wf1: "wf_visitor p1" using avs(3) emits_grows grows_wf by blast
  have g: "grows p1 p2" using emits_PushInteger [OF n wf1] emits_grows by blast
  have "int (length portions) < 2 ^ 64" using assms(3) by simp
  moreover have "drop_typed rs TypePortion (length portions) (avs @ S) = Some S"
    if "prefix (resources p2) rs" for rs
  proof -
    have "list_all (\<lambda>v. aty rs v = TypePortion) avs"
      using avs(2) that g av_ok_aty by (auto simp: list_all_iff grows_def intro: prefix_order.trans)
    from drop_typed_append [OF this] avs(1) show ?thesis by simp
  qed
  ultimately have "emits p1 p' (avs @ S) (AAllot (length portions) # S)"
    unfolding p' by (intro emits_num_op [OF n wf1]) auto
  with avs(3) show ?thesis by (rule emits_trans)
qed

section \<open>Sequences of instructions\<close>

text \<open>
  The checker does not look below the values an instruction uses, and on values that do not come
  from a resource it does not look at the resources.
\<close>

lemma drop_typed_frame: "drop_typed rs t n U = Some U' \<Longrightarrow> drop_typed rs t n (U @ T) = Some (U' @ T)"
  by (auto simp: drop_typed_def split: if_splits)

lemma check_op_frame: "check_op rs op U = Some U' \<Longrightarrow> check_op rs op (U @ T) = Some (U' @ T)"
proof (induction rs op U rule: check_op.induct)
  case (1 rs n S)
  then show ?case by (auto simp: nth_append split: option.splits if_splits)
next
  case (11 rs n S)
  then show ?case by (auto split: option.splits if_splits dest: drop_typed_frame)
next
  case (16 rs n S)
  then show ?case by (auto split: option.splits if_splits dest: drop_typed_frame)
qed (auto split: if_splits)

definition closed :: "aval \<Rightarrow> bool" where
  "closed av \<longleftrightarrow> (\<forall>a. av \<noteq> ARes a)"

lemma closed_simps [simp]:
  "closed (AT t)" "closed (AMonConst k)" "closed AMonNonneg" "closed (AAllot n)" "\<not> closed (ARes a)"
  by (simp_all add: closed_def)

lemma closed_aty: "closed av \<Longrightarrow> aty rs av = aty rs' av \<and> known_number rs av = known_number rs' av"
  by (cases av) auto

lemma drop_typed_closed:
  "list_all closed S \<Longrightarrow> drop_typed rs t n S = drop_typed rs' t n S"
proof -
  assume "list_all closed S"
  then have "\<forall>v \<in> set (take n S). aty rs v = aty rs' v"
    using closed_aty by (metis in_set_takeD list_all_iff)
  then show ?thesis by (auto simp: drop_typed_def list_all_iff)
qed

text \<open>What a sequence does to the closed values on top of the stack.\<close>

definition num_op :: "opcode \<Rightarrow> int \<Rightarrow> aval list \<Rightarrow> aval list option" where
  "num_op op n U =
     (case op of
        OP_MONETARY_NEW \<Rightarrow>
          (case U of AT TypeAsset # U' \<Rightarrow> Some (AMonConst n # U') | _ \<Rightarrow> None)
      | OP_FUNDING_ASSEMBLE \<Rightarrow>
          if 1 \<le> n \<and> n < 2 ^ 63 then map_option ((#) (AT TypeFunding)) (drop_typed [] TypeFunding (nat n) U)
          else None
      | _ \<Rightarrow> None)"

fun sem :: "emit list \<Rightarrow> aval list \<Rightarrow> aval list option" where
  "sem [] U = Some U"
| "sem (I op # es) U =
     (if list_all closed U \<and> op \<noteq> OP_APUSH then Option.bind (check_op [] op U) (sem es) else None)"
| "sem (B n # es) U =
     (if 0 \<le> n \<and> n < 2 ^ 64 \<and> nat n < length U
      then sem es (U ! nat n # take (nat n) U @ drop (Suc (nat n)) U) else None)"
| "sem (N n # I op # es) U =
     (if list_all closed U then Option.bind (num_op op n U) (sem es) else None)"
| "sem (N n # es) U = None"

lemma check_op_closed:
  assumes "list_all closed U"
  shows "check_op rs op U = check_op rs' op U"
proof -
  have "aty rs v = aty rs' v" "known_number rs v = None" "known_number rs' v = None" if "v \<in> set U" for v
    using assms that by (cases v; auto simp: list_all_iff)+
  then show ?thesis
    by (cases "(rs, op, U)" rule: check_op.cases) auto
qed

lemma num_op_sound:
  assumes "num_op op n U = Some U'" "list_all closed U"
    and "known_number rs (ARes a) = Some n" "aty rs (ARes a) = TypeNumber"
  shows "op \<noteq> OP_APUSH \<and> check_op rs op (ARes a # U) = Some U'"
proof (cases "op = OP_MONETARY_NEW")
  case True
  with assms obtain V where "U = AT TypeAsset # V" "U' = AMonConst n # V"
    by (auto simp: num_op_def split: list.splits aval.splits type.splits)
  with True assms(3,4) show ?thesis by simp
next
  case False
  with assms(1) have op: "op = OP_FUNDING_ASSEMBLE" by (cases op) (auto simp: num_op_def)
  with assms(1) have "1 \<le> n" "n < 2 ^ 63"
    "map_option ((#) (AT TypeFunding)) (drop_typed [] TypeFunding (nat n) U) = Some U'"
    by (auto simp: num_op_def split: if_splits)
  with op assms(3) drop_typed_closed [OF assms(2), of "[]" TypeFunding "nat n" rs] show ?thesis by simp
qed

lemma emit_all_sound:
  assumes "emit_all es p = Inr p'" "wf_visitor p" "sem es U = Some U'"
  shows "emits p p' (U @ S) (U' @ S)"
  using assms
proof (induction es U arbitrary: p rule: sem.induct)
  case (1 U)
  then show ?case by (simp add: emits_refl)
next
  case (2 op es U)
  from 2(4) obtain V where V: "list_all closed U" "op \<noteq> OP_APUSH" "check_op [] op U = Some V"
    "sem es V = Some U'"
    by (auto split: if_splits simp: bind_eq_Some_conv)
  have "check_op rs op (U @ S) = Some (V @ S)" for rs
    using check_op_frame check_op_closed [OF V(1)] V(3) by metis
  then have e: "emits p (AppendInstruction op p) (U @ S) (V @ S)"
    using 2(3) V(2) by (intro emits_Append) auto
  have em: "emit_all es (AppendInstruction op p) = Inr p'" using 2(2) by simp
  have "emits (AppendInstruction op p) p' (V @ S) (U' @ S)"
    by (rule 2(1) [OF conjI [OF V(1,2)] V(3) em grows_wf [OF emits_grows [OF e]] V(4)])
  with e show ?case by (rule emits_trans)
next
  case (3 n es U)
  from 3(2) obtain p1 where p1: "Bump n p = Inr p1" "emit_all es p1 = Inr p'"
    by (auto simp: result_simps)
  from 3(4) have n: "0 \<le> n" "n < 2 ^ 64" "nat n < length U"
    "sem es (U ! nat n # take (nat n) U @ drop (Suc (nat n)) U) = Some U'"
    by (auto split: if_splits)
  have "Bump (int (nat n)) p = Inr p1" using p1(1) n(1) by simp
  moreover have "nat n < 2 ^ 64" using n(2) by (simp add: nat_less_iff)
  ultimately have "emits p p1 (U @ S) ((U @ S) ! nat n # take (nat n) (U @ S) @ drop (Suc (nat n)) (U @ S))"
    using 3(3) n(3) by (intro emits_Bump) auto
  then have e: "emits p p1 (U @ S) ((U ! nat n # take (nat n) U @ drop (Suc (nat n)) U) @ S)"
    using n(3) by (simp add: nth_append)
  have "emits p1 p' ((U ! nat n # take (nat n) U @ drop (Suc (nat n)) U) @ S) (U' @ S)"
    using 3(1) [OF _ p1(2) grows_wf [OF emits_grows [OF e]] n(4)] n(1-3) by blast
  with e show ?case by (rule emits_trans)
next
  case (4 n op es U)
  from 4(2) obtain p1 where p1: "PushInteger n p = Inr p1" "emit_all es (AppendInstruction op p1) = Inr p'"
    by (auto simp: result_simps)
  from 4(4) obtain V where V: "list_all closed U" "num_op op n U = Some V" "sem es V = Some U'"
    by (auto split: if_splits simp: bind_eq_Some_conv)
  have op: "op \<noteq> OP_APUSH" using V(2) by (auto simp: num_op_def)
  have "check_op rs op (ARes a # U @ S) = Some (V @ S)"
    if "known_number rs (ARes a) = Some n" "aty rs (ARes a) = TypeNumber" for a rs
    using check_op_frame [of rs op "ARes a # U" V S] num_op_sound [OF V(2,1) that] by simp
  then have e: "emits p (AppendInstruction op p1) (U @ S) (V @ S)"
    using op by (intro emits_num_op [OF p1(1) 4(3)]) auto
  have "emits (AppendInstruction op p1) p' (V @ S) (U' @ S)"
    by (rule 4(1) [OF V(1,2) p1(2) grows_wf [OF emits_grows [OF e]] V(3)])
  with e show ?case by (rule emits_trans)
qed auto

section \<open>Sources\<close>

lemma emits_sem:
  "emit_all es p = Inr p' \<Longrightarrow> wf_visitor p \<Longrightarrow> sem es U = Some U' \<Longrightarrow>
     T = U @ S \<Longrightarrow> T' = U' @ S \<Longrightarrow> emits p p' T T'"
  by (simp add: emit_all_sound)

text \<open>The parts of \<open>TakeFromSource\<close> and of a maximum, as sequences.\<close>

lemma emit_all_append: "emit_all (es @ fs) p = bindr (emit_all es p) (emit_all fs)"
proof (induction es p rule: emit_all.induct)
  case (3 n es p)
  then show ?case by (cases "Bump n p") auto
next
  case (4 n es p)
  then show ?case by (cases "PushInteger n p") auto
qed auto

text \<open>From a funding and an amount: take at most the amount and give the rest back.\<close>

lemma take_max_repay:
  assumes "emit_all [I OP_TAKE_MAX, B 1, I OP_REPAY] p = Inr p'" "wf_visitor p" "av_ok p mon TypeMonetary"
  shows "emits p p' (mon # AT TypeFunding # S) (AT TypeFunding # AMonNonneg # S)"
proof -
  from assms(1) have r: "emit_all [B 1, I OP_REPAY] (AppendInstruction OP_TAKE_MAX p) = Inr p'" by simp
  have e: "emits p (AppendInstruction OP_TAKE_MAX p) (mon # AT TypeFunding # S)
      ([AT TypeFunding, AT TypeFunding, AMonNonneg] @ S)"
    using assms(2) av_ok_aty [OF assms(3)] by (intro emits_Append) auto
  have "emits (AppendInstruction OP_TAKE_MAX p) p' ([AT TypeFunding, AT TypeFunding, AMonNonneg] @ S)
      ([AT TypeFunding, AMonNonneg] @ S)"
    by (rule emit_all_sound [OF r grows_wf [OF emits_grows [OF e]]]) simp
  with e have "emits p p' (mon # AT TypeFunding # S) ([AT TypeFunding, AMonNonneg] @ S)"
    by (rule emits_trans)
  then show ?thesis by simp
qed

lemma emits_Bump2:
  assumes "Bump 2 p = Inr p'" "wf_visitor p"
  shows "emits p p' (a # b # c # S) (c # a # b # S)"
proof -
  have "Bump (int 2) p = Inr p'" using assms(1) by simp
  from emits_Bump [OF this assms(2), of "a # b # c # S"] show ?thesis by simp
qed

text \<open>Complete with the unbounded account: push it, move the missing amount up, take it always.\<close>

lemma take_fallback:
  assumes "bindr (Bump 2 (PushAddress f p)) (\<lambda>p.
      bindr (PushInteger 2 (AppendInstruction OP_TAKE_ALWAYS p)) (\<lambda>p.
        Inr (AppendInstruction OP_FUNDING_ASSEMBLE p))) = Inr p'"
    and "wf_visitor p" "addr_ok p f TypeAccount"
  shows "emits p p' (AT TypeFunding # AMonNonneg # S) (AT TypeFunding # S)"
proof -
  let ?F = "AT TypeFunding"
  from assms(1) obtain p1 p2 where b: "Bump 2 (PushAddress f p) = Inr p1"
    and p2: "PushInteger 2 (AppendInstruction OP_TAKE_ALWAYS p1) = Inr p2"
    and p': "p' = AppendInstruction OP_FUNDING_ASSEMBLE p2"
    unfolding bindr_eq_Inr by (elim exE conjE) simp
  have e1: "emits p (PushAddress f p) (?F # AMonNonneg # S) (ARes f # ?F # AMonNonneg # S)"
    using assms(2,3) by (intro emits_Push) (auto simp: addr_ok_def)
  note wf1 = grows_wf [OF emits_grows [OF e1]]
  have e2: "emits (PushAddress f p) p1 (ARes f # ?F # AMonNonneg # S) (AMonNonneg # ARes f # ?F # S)"
    using b wf1 by (rule emits_Bump2)
  note wf2 = grows_wf [OF emits_grows [OF e2]]
  have "addr_ok p1 f TypeAccount"
    using assms(3) emits_grows [OF e1] emits_grows [OF e2] addr_ok_grows by blast
  then have acc: "aty rs (ARes f) = TypeAccount" if "prefix (resources p1) rs" for rs
    using av_ok_aty [of p1 "ARes f"] that by simp
  have e3: "emits p1 (AppendInstruction OP_TAKE_ALWAYS p1) (AMonNonneg # ARes f # ?F # S) (?F # ?F # S)"
    using wf2 acc by (intro emits_Append) auto
  note wf3 = grows_wf [OF emits_grows [OF e3]]
  have "emits (AppendInstruction OP_TAKE_ALWAYS p1) p' (?F # ?F # S) (?F # S)"
    unfolding p' by (rule emits_num_op [OF p2 wf3]) (auto simp: drop_typed_def numeral_2_eq_2)
  from emits_trans [OF emits_trans [OF emits_trans [OF e1 e2] e3] this] show ?thesis .
qed

lemma TakeFromSource_ok:
  assumes "TakeFromSource fallback p = Inr p'" "wf_visitor p" "av_ok p mon TypeMonetary"
    and "\<And>f. fallback = Some f \<Longrightarrow> addr_ok p f TypeAccount"
  shows "emits p p' (mon # AT TypeFunding # S) (AT TypeFunding # S)"
proof (cases fallback)
  case None
  with assms(1) have r: "emit_all [B 1, I OP_REPAY] (AppendInstruction OP_TAKE p) = Inr p'"
    by (auto simp: TakeFromSource_def result_simps)
  have e: "emits p (AppendInstruction OP_TAKE p) (mon # AT TypeFunding # S)
      ([AT TypeFunding, AT TypeFunding] @ S)"
    using assms(2) av_ok_aty [OF assms(3)] by (intro emits_Append) auto
  have "emits (AppendInstruction OP_TAKE p) p' ([AT TypeFunding, AT TypeFunding] @ S) ([AT TypeFunding] @ S)"
    by (rule emit_all_sound [OF r grows_wf [OF emits_grows [OF e]]]) simp
  with e show ?thesis using emits_trans by fastforce
next
  case (Some f)
  with assms(1) obtain p1 where p1: "emit_all [I OP_TAKE_MAX, B 1, I OP_REPAY] p = Inr p1"
    and p': "bindr (Bump 2 (PushAddress f p1)) (\<lambda>p.
      bindr (PushInteger 2 (AppendInstruction OP_TAKE_ALWAYS p)) (\<lambda>p.
        Inr (AppendInstruction OP_FUNDING_ASSEMBLE p))) = Inr p'"
    by (auto simp: TakeFromSource_def result_simps)
  note e = take_max_repay [OF p1 assms(2,3)]
  have "addr_ok p1 f TypeAccount"
    using assms(4) [OF Some] emits_grows [OF e] by (rule addr_ok_grows)
  from take_fallback [OF p' grows_wf [OF emits_grows [OF e]] this] e show ?thesis
    using emits_trans by blast
qed

text \<open>A closure that pushes the asset of the amount to send.\<close>

definition pushes_asset :: "(parseVisitor \<Rightarrow> parseVisitor) \<Rightarrow> parseVisitor \<Rightarrow> bool" where
  "pushes_asset pushAsset p \<longleftrightarrow> wf_visitor p \<and>
     (\<forall>q. grows p q \<longrightarrow> (\<exists>av. av_ok (pushAsset q) av TypeAsset \<and> (\<forall>S. emits q (pushAsset q) S (av # S))))"

lemma pushes_asset_grows: "pushes_asset pa p \<Longrightarrow> grows p p' \<Longrightarrow> pushes_asset pa p'"
  using grows_trans grows_wf by (auto simp: pushes_asset_def)

lemma pushes_asset_wf: "pushes_asset pa p \<Longrightarrow> wf_visitor p"
  by (simp add: pushes_asset_def)

lemma zero_monetary_ok:
  assumes "zero_monetary pa p = Inr p'" "pushes_asset pa p"
  shows "emits p p' S (AMonConst 0 # S)"
proof -
  from assms(1) obtain p1 where p1: "PushInteger 0 (pa p) = Inr p1"
    and p': "p' = AppendInstruction OP_MONETARY_NEW p1"
    by (auto simp: zero_monetary_def result_simps)
  have "\<exists>av. av_ok (pa p) av TypeAsset \<and> (\<forall>S. emits p (pa p) S (av # S))"
    using assms(2) grows_refl unfolding pushes_asset_def by blast
  then obtain av where av: "av_ok (pa p) av TypeAsset" "\<And>S. emits p (pa p) S (av # S)" by blast
  note wf1 = grows_wf [OF emits_grows [OF av(2)]]
  have g: "grows (pa p) p1" using emits_PushInteger [OF p1 wf1] emits_grows by blast
  have av1: "av_ok p1 av TypeAsset" using av(1) g by (rule av_ok_grows)
  have "emits (pa p) p' (av # S) (AMonConst 0 # S)"
    unfolding p' using av_ok_aty [OF av1] by (intro emits_num_op [OF p1 wf1]) auto
  with av(2) show ?thesis by (rule emits_trans)
qed

text \<open>What visiting a source gives.\<close>

definition source_ok :: "parseVisitor \<Rightarrow> parseVisitor \<Rightarrow> source_info \<Rightarrow> bool" where
  "source_ok p p' info \<longleftrightarrow>
     (\<forall>S. emits p p' S (AT TypeFunding # S)) \<and>
     (\<forall>f. snd (snd info) = Some f \<longrightarrow> addr_ok p' f TypeAccount) \<and>
     (\<forall>a \<in> set (fst info). addr_ok p' a TypeAccount)"

lemma source_ok_grows: "source_ok p p' info \<Longrightarrow> grows p p'"
  unfolding source_ok_def using emits_grows by blast

lemma note_sources_ok:
  assumes "note_sources (info, p1) = Inr (info', p')" "source_ok p p1 info"
  shows "source_ok p p' info'"
  using assms by (cases info) (auto simp: note_sources_def source_ok_def emits_sets)

lemma take_op_ok:
  assumes "wf_visitor p" "av_ok p mon TypeMonetary" "addr_ok p a TypeAccount"
    and "op = OP_TAKE_ALL \<or> (op = OP_TAKE_ALWAYS \<and> known_nonneg mon)"
  shows "emits p (AppendInstruction op p) (mon # ARes a # S) (AT TypeFunding # S)"
proof -
  have "aty rs mon = TypeMonetary" "aty rs (ARes a) = TypeAccount" if "prefix (resources p) rs" for rs
    using av_ok_aty [OF assms(2) that] av_ok_aty [of p "ARes a", OF _ that] assms(3) by simp_all
  with assms(1,4) show ?thesis by (intro emits_Append) auto
qed

lemma addr_ok_Append [simp]: "addr_ok (AppendInstruction op p) a t = addr_ok p a t"
  by (simp add: addr_ok_def AppendInstruction_def)

text \<open>The account of a source is an address the expression has pushed.\<close>

lemma VisitExpr_account:
  assumes "VisitExpr e True p = Inr ((TypeAccount, addr), p')" "wf_visitor p"
  obtains a where "addr = Some a" "addr_ok p' a TypeAccount" "\<And>S. emits p p' S (ARes a # S)"
proof -
  have push: "\<exists>a. addr = Some a \<and> addr_ok p' a TypeAccount \<and> (\<forall>S. emits p p' S (ARes a # S))"
    if "\<And>S. emits p p1 S S" "addr_ok p1 a t" "t = TypeAccount" "addr = Some a" "p' = PushAddress a p1"
    for a p1 t
  proof -
    have "wf_visitor p1" using that(1) emits_grows grows_wf by blast
    moreover have "unat a < length (resources p1)" using that(2) by (simp add: addr_ok_def)
    ultimately have "emits p p' S (ARes a # S)" for S
      unfolding that(5) using that(1) emits_Push emits_trans by blast
    moreover have "addr_ok p' a TypeAccount"
      using that(2,3) by (simp add: that(5) addr_ok_def PushAddress_def)
    ultimately show ?thesis using that(4) by blast
  qed
  have "\<exists>a. addr = Some a \<and> addr_ok p' a TypeAccount \<and> (\<forall>S. emits p p' S (ARes a # S))"
  proof (cases e)
    case (ExprAddSub lhs op rhs)
    with assms(1) show ?thesis by (auto simp: result_simps split: if_splits)
  next
    case (ExprLiteral l)
    show ?thesis
    proof (cases l)
      case (LitAccount s)
      with assms(1) ExprLiteral obtain a p1 where
        a: "AllocateResource (Constant (VAccount (tl s))) p = Inr (a, p1)"
        and r: "addr = Some a" "p' = PushAddress a p1"
        by (auto simp: visit_constant_def result_simps)
      from AllocateResource_allocated [OF a assms(2)]
      have al: "allocated p p1 a (Constant (VAccount (tl s)))" by (simp add: storable_type_def)
      show ?thesis
        by (rule push [OF allocated_emits [OF al] allocated_addr [OF al]]) (simp_all add: r)
    next
      case (LitMonetary asset amt)
      from assms(1) LitMonetary ExprLiteral obtain q p1 where "VisitExpr asset False p = Inr (q, p1)"
        by (auto simp: result_simps)
      with assms(1) LitMonetary ExprLiteral show ?thesis
        by (cases q; cases "ParseMonetaryInt amt"; cases "snd q")
          (auto simp: visit_monetary_def result_simps split: if_splits)
    next
      case (LitNumber s)
      with assms(1) ExprLiteral show ?thesis
        by (cases "ParseMonetaryInt s") (auto simp: visit_constant_def result_simps)
    next
      case (LitString s)
      with assms(1) ExprLiteral show ?thesis
        by (cases "Unquote s") (auto simp: visit_constant_def result_simps)
    next
      case (LitPortion s)
      with assms(1) ExprLiteral show ?thesis
        by (cases "ParsePortionSpecific s") (auto simp: visit_constant_def result_simps)
    qed (use assms(1) ExprLiteral in \<open>auto simp: visit_constant_def result_simps\<close>)
  next
    case (ExprVariable v)
    then obtain a where m: "map_of (varIdx p) (tl v) = Some a"
      using assms(1) by (cases "map_of (varIdx p) (tl v)") (simp_all add: VisitVariable_def)
    with assms(1) ExprVariable have a: "unat a < length (resources p)" "addr = Some a"
      "ResourceType (resources p ! unat a) = TypeAccount" "p' = PushAddress a p"
      by (simp_all add: VisitVariable_def split: if_split_asm)
    show ?thesis
      by (rule push [OF emits_refl [OF assms(2)]]) (use a in \<open>simp_all add: addr_ok_def\<close>)
  qed
  with that show ?thesis by blast
qed

end
