(* ===== verification/Compiler_Statements.thy ===== *)
theory Compiler_Statements
  imports Compiler_Sound
begin

text \<open>
  The code of sources, destinations and statements: a source leaves one funding on the stack, a
  destination consumes it, and a statement leaves the stack as it found it.
\<close>

section \<open>Sources\<close>

lemma source_okI:
  assumes "\<And>S. emits p p' S (AT TypeFunding # S)"
    and "\<And>f. snd (snd info) = Some f \<Longrightarrow> addr_ok p' f TypeAccount"
    and "\<And>a. a \<in> set (fst info) \<Longrightarrow> addr_ok p' a TypeAccount"
  shows "source_ok p p' info"
  using assms by (simp add: source_ok_def)

lemma take_source_ok:
  assumes "\<And>S. emits p p1 S (ARes acc # S)" "addr_ok p1 acc TypeAccount"
    and "\<And>S. emits p1 p2 S (mon # S)" "av_ok p2 mon TypeMonetary"
    and "op = OP_TAKE_ALL \<or> (op = OP_TAKE_ALWAYS \<and> known_nonneg mon)"
    and "set (fst info) \<subseteq> {acc}" "snd (snd info) \<in> {None, Some acc}"
  shows "source_ok p (AppendInstruction op p2) info"
proof (rule source_okI)
  have acc: "addr_ok p2 acc TypeAccount"
    using assms(2) emits_grows [OF assms(3)] by (rule addr_ok_grows)
  have wf2: "wf_visitor p2" using emits_grows [OF assms(3)] by (rule grows_wf)
  show "emits p (AppendInstruction op p2) S (AT TypeFunding # S)" for S
    by (rule emits_trans [OF emits_trans [OF assms(1,3)] take_op_ok [OF wf2 assms(4) acc assms(5)]])
  show "addr_ok (AppendInstruction op p2) f TypeAccount" if "snd (snd info) = Some f" for f
    using that assms(7) acc by auto
  show "addr_ok (AppendInstruction op p2) a TypeAccount" if "a \<in> set (fst info)" for a
    using that assms(6) acc by auto
qed

lemma VisitSourceAccount_ok:
  assumes "VisitSourceAccount account od pa isAll p = Inr (info, p')" "pushes_asset pa p"
  shows "source_ok p p' info"
proof -
  note wf = pushes_asset_wf [OF assms(2)]
  from assms(1) obtain accAddr p1 where e: "VisitExpr account True p = Inr ((TypeAccount, accAddr), p1)"
    by (auto simp: VisitSourceAccount_def result_simps split: if_splits)
  from VisitExpr_account [OF e wf] obtain acc where acc: "accAddr = Some acc"
    "addr_ok p1 acc TypeAccount" "\<And>S. emits p p1 S (ARes acc # S)" by blast
  note wf1 = grows_wf [OF emits_grows [OF acc(3)]]
  have pa1: "pushes_asset pa p1" using assms(2) emits_grows [OF acc(3)] by (rule pushes_asset_grows)
  let ?mid = "case od of
      None \<Rightarrow>
        bindr (zero_monetary pa p1) (\<lambda>p.
          Inr (if isWorld p1 acc then Some acc else None,
               AppendInstruction (if isWorld p1 acc then OP_TAKE_ALWAYS else OP_TAKE_ALL) p))
    | Some ov \<Rightarrow>
        if isWorld p1 acc then raise (LogicError ''@world is already set to an unbounded overdraft'')
        else (case ov of
          OverdraftSpecific specific \<Rightarrow>
            bindr (VisitExpr specific True p1) (\<lambda>((ty, _), p).
              if ty \<noteq> TypeMonetary then raise (LogicError ''wrong type: expected monetary'')
              else Inr (None, AppendInstruction OP_TAKE_ALL p))
        | OverdraftUnbounded \<Rightarrow>
            bindr (zero_monetary pa p1) (\<lambda>p. Inr (Some acc, AppendInstruction OP_TAKE_ALWAYS p)))"
  from assms(1) e acc(1) obtain fallback where mid: "?mid = Inr (fallback, p')"
    and info: "set (fst info) \<subseteq> {acc}" "snd (snd info) = fallback"
    by (auto simp: VisitSourceAccount_def Let_def result_simps split: if_splits)
  have "\<exists>mon p2 op. p' = AppendInstruction op p2 \<and> (\<forall>S. emits p1 p2 S (mon # S)) \<and>
      av_ok p2 mon TypeMonetary \<and> (op = OP_TAKE_ALL \<or> (op = OP_TAKE_ALWAYS \<and> known_nonneg mon)) \<and>
      fallback \<in> {None, Some acc}"
  proof -
    have zero: "\<exists>mon p2 op. p' = AppendInstruction op p2 \<and> (\<forall>S. emits p1 p2 S (mon # S)) \<and>
        av_ok p2 mon TypeMonetary \<and> (op = OP_TAKE_ALL \<or> (op = OP_TAKE_ALWAYS \<and> known_nonneg mon)) \<and>
        fallback \<in> {None, Some acc}"
      if "zero_monetary pa p1 = Inr p2" "p' = AppendInstruction op p2" "fallback \<in> {None, Some acc}"
        "op \<in> {OP_TAKE_ALL, OP_TAKE_ALWAYS}" for p2 op
      using zero_monetary_ok [OF that(1) pa1] that(2-4)
      by (intro exI [of _ "AMonConst 0"] exI [of _ p2] exI [of _ op]) auto
    consider "od = None" | "od = Some OverdraftUnbounded" | e where "od = Some (OverdraftSpecific e)"
      by (metis not_None_eq overdraft.exhaust)
    then show ?thesis
    proof cases
      case 1
      with mid obtain p2 where "zero_monetary pa p1 = Inr p2"
        "p' = AppendInstruction (if isWorld p1 acc then OP_TAKE_ALWAYS else OP_TAKE_ALL) p2"
        "fallback \<in> {None, Some acc}" by (auto simp: result_simps split: if_splits)
      then show ?thesis by (rule zero) simp
    next
      case 2
      with mid obtain p2 where "zero_monetary pa p1 = Inr p2" "p' = AppendInstruction OP_TAKE_ALWAYS p2"
        "fallback = Some acc" by (auto simp: result_simps split: if_splits)
      then show ?thesis by (intro zero [of p2 OP_TAKE_ALWAYS]) auto
    next
      case (3 s)
      with mid obtain a p2 where v: "VisitExpr s True p1 = Inr ((TypeMonetary, a), p2)"
        and r: "p' = AppendInstruction OP_TAKE_ALL p2" "fallback = None"
        by (auto simp: result_simps split: if_splits)
      from expr_ok_pushed [OF VisitExpr_VisitLit_ok(1) [OF v wf1]] obtain mon where
        "av_ok p2 mon TypeMonetary" "\<And>S. emits p1 p2 S (mon # S)" by blast
      with r show ?thesis by (intro exI [of _ mon] exI [of _ p2] exI [of _ OP_TAKE_ALL]) simp
    qed
  qed
  then obtain mon p2 op where m: "p' = AppendInstruction op p2" "\<And>S. emits p1 p2 S (mon # S)"
    "av_ok p2 mon TypeMonetary" "op = OP_TAKE_ALL \<or> (op = OP_TAKE_ALWAYS \<and> known_nonneg mon)"
    "fallback \<in> {None, Some acc}" by blast
  show ?thesis
    unfolding m(1)
    by (rule take_source_ok [OF acc(3,2) m(2-4) info(1)]) (use info(2) m(5) in simp)
qed

lemma set_fold_insert: "set (fold List.insert xs ys) = set xs \<union> set ys"
  by (induction xs arbitrary: ys) auto

lemma set_add_all [simp]: "set (add_all xs ys) = set xs \<union> set ys"
  by (simp add: add_all_def set_fold_insert)

text \<open>The rest of the code of a maximum, once the amount is on the stack.\<close>

definition maxed_code :: "address option \<Rightarrow> parseVisitor \<Rightarrow> (compile_error, parseVisitor) result" where
  "maxed_code fb p = bindr (Bump 1 (AppendInstruction OP_TAKE_MAX p)) (\<lambda>p.
     let p = AppendInstruction OP_REPAY p in
     case fb of
       Some f \<Rightarrow>
         bindr (Bump 2 (PushAddress f p)) (\<lambda>p.
         bindr (PushInteger 2 (AppendInstruction OP_TAKE_ALWAYS p)) (\<lambda>p.
           Inr (AppendInstruction OP_FUNDING_ASSEMBLE p)))
     | None \<Rightarrow> bindr (Bump 1 p) (\<lambda>p. Inr (AppendInstruction OP_DELETE p)))"

lemma maxed_code_ok:
  assumes "maxed_code fb p = Inr p'" "wf_visitor p" "av_ok p mon TypeMonetary"
    and "\<And>f. fb = Some f \<Longrightarrow> addr_ok p f TypeAccount"
  shows "emits p p' (mon # AT TypeFunding # S) (AT TypeFunding # S)"
proof -
  from assms(1) obtain p0 where b: "Bump 1 (AppendInstruction OP_TAKE_MAX p) = Inr p0"
    by (cases "Bump 1 (AppendInstruction OP_TAKE_MAX p)") (auto simp: maxed_code_def)
  define p1 where "p1 = AppendInstruction OP_REPAY p0"
  have "emit_all [I OP_TAKE_MAX, B 1, I OP_REPAY] p = Inr p1" using b by (simp add: p1_def)
  from take_max_repay [OF this assms(2,3)]
  have e: "emits p p1 (mon # AT TypeFunding # S) (AT TypeFunding # AMonNonneg # S)" .
  note wf1 = grows_wf [OF emits_grows [OF e]]
  show ?thesis
  proof (cases fb)
    case None
    with assms(1) b have "emit_all [B 1, I OP_DELETE] p1 = Inr p'"
      by (auto simp: maxed_code_def Let_def p1_def [symmetric] result_simps)
    then have "emits p1 p' (AT TypeFunding # AMonNonneg # S) (AT TypeFunding # S)"
      by (rule emits_sem [where U = "[AT TypeFunding, AMonNonneg]" and S = S]) (simp_all add: wf1)
    with e show ?thesis by (rule emits_trans)
  next
    case (Some f)
    with assms(1) b have r: "bindr (Bump 2 (PushAddress f p1)) (\<lambda>p.
         bindr (PushInteger 2 (AppendInstruction OP_TAKE_ALWAYS p)) (\<lambda>p.
           Inr (AppendInstruction OP_FUNDING_ASSEMBLE p))) = Inr p'"
      by (simp add: maxed_code_def Let_def p1_def [symmetric])
    have "addr_ok p1 f TypeAccount" using assms(4) [OF Some] emits_grows [OF e] by (rule addr_ok_grows)
    from take_fallback [OF r wf1 this] e show ?thesis using emits_trans by blast
  qed
qed

text \<open>The accounts and the fallback of a source.\<close>

definition info_ok :: "parseVisitor \<Rightarrow> source_info \<Rightarrow> bool" where
  "info_ok p info \<longleftrightarrow> (\<forall>f. snd (snd info) = Some f \<longrightarrow> addr_ok p f TypeAccount) \<and>
     (\<forall>a \<in> set (fst info). addr_ok p a TypeAccount)"

lemma source_ok_info:
  "source_ok p p' info \<longleftrightarrow> (\<forall>S. emits p p' S (AT TypeFunding # S)) \<and> info_ok p' info"
  by (simp add: source_ok_def info_ok_def)

lemma info_ok_grows: "info_ok p info \<Longrightarrow> grows p p' \<Longrightarrow> info_ok p' info"
  using addr_ok_grows by (auto simp: info_ok_def)

lemma VisitSource_VisitSources_ok:
  "VisitSource s pa isAll p = Inr (info', p') \<Longrightarrow> pushes_asset pa p \<Longrightarrow> tree_source s \<Longrightarrow>
     source_ok p p' info'"
  "VisitSources ss pa isAll info p = Inr (info', p') \<Longrightarrow> pushes_asset pa p \<Longrightarrow>
     list_all tree_source ss \<Longrightarrow> info_ok p info \<Longrightarrow>
     (\<forall>S. emits p p' S (replicate (length ss) (AT TypeFunding) @ S)) \<and> info_ok p' info'"
proof (induction s pa isAll p and ss pa isAll info p arbitrary: info' p' and info' p'
    rule: VisitSource_VisitSources.induct)
  case (1 account od pa isAll p)
  then obtain r where r: "VisitSourceAccount account od pa isAll p = Inr r" "note_sources r = Inr (info', p')"
    by (auto simp: bindr_eq_Inr)
  obtain info1 p1 where "r = (info1, p1)" by (cases r)
  with r have a: "VisitSourceAccount account od pa isAll p = Inr (info1, p1)"
    and n: "note_sources (info1, p1) = Inr (info', p')" by simp_all
  show ?case by (rule note_sources_ok [OF n VisitSourceAccount_ok [OF a 1(2)]])
next
  case (2 mx src pa isAll p)
  from "2.prems"(1) obtain accounts emptied fb p1 where
    s: "VisitSource src pa False p = Inr ((accounts, emptied, fb), p1)"
    by (auto simp: result_simps)
  note sok = "2.IH" [OF s "2.prems"(2)]
  have sok: "source_ok p p1 (accounts, emptied, fb)" using sok "2.prems"(3) by simp
  note wf1 = grows_wf [OF source_ok_grows [OF sok]]
  from "2.prems"(1) s obtain a p2 where v: "VisitExpr mx True p1 = Inr ((TypeMonetary, a), p2)"
    by (auto simp: result_simps split: if_splits)
  from expr_ok_pushed [OF VisitExpr_VisitLit_ok(1) [OF v wf1]] obtain mon where
    mon: "av_ok p2 mon TypeMonetary" "\<And>S. emits p1 p2 S (mon # S)" by blast
  from "2.prems"(1) s v
  have "bindr (maxed_code fb p2) (\<lambda>p. note_sources ((add_all accounts [], [], None), p)) = Inr (info', p')"
    by (simp add: maxed_code_def bindr_assoc Let_def)
  then obtain p3 where m: "maxed_code fb p2 = Inr p3"
    and n: "note_sources ((add_all accounts [], [], None), p3) = Inr (info', p')"
    unfolding bindr_eq_Inr by blast
  have "addr_ok p2 f TypeAccount" if "fb = Some f" for f
    using sok that addr_ok_grows [OF _ emits_grows [OF mon(2)]] by (simp add: source_ok_def)
  note mok = maxed_code_ok [OF m grows_wf [OF emits_grows [OF mon(2)]] mon(1) this]
  have e1: "\<And>S. emits p p1 S (AT TypeFunding # S)" and i1: "info_ok p1 (accounts, emptied, fb)"
    using sok by (simp_all add: source_ok_info)
  have g: "grows p1 p3" using emits_grows [OF mon(2)] emits_grows [OF mok] by (rule grows_trans)
  have "source_ok p p3 (add_all accounts [], [], None)"
    unfolding source_ok_info using emits_trans [OF emits_trans [OF e1 mon(2)] mok] info_ok_grows [OF i1 g]
    by (simp add: info_ok_def)
  with n show ?case by (rule note_sources_ok)
next
  case (3 srcs pa isAll p)
  from "3.prems"(1) obtain info1 p1 p2 where
    s: "VisitSources srcs pa isAll ([], [], None) p = Inr (info1, p1)"
    and n: "PushInteger (int (length srcs)) p1 = Inr p2"
    and r: "note_sources (info1, AppendInstruction OP_FUNDING_ASSEMBLE p2) = Inr (info', p')"
    by (auto simp: result_simps)
  from "3.prems"(3) have t: "list_all tree_source srcs" "srcs \<noteq> []" "length srcs < 2 ^ 63"
    by (simp_all add: slice_def)
  have sok: "\<And>S. emits p p1 S (replicate (length srcs) (AT TypeFunding) @ S)" "info_ok p1 info1"
    using "3.IH" [OF s "3.prems"(2) t(1)] by (simp_all add: info_ok_def)
  note wf1 = grows_wf [OF emits_grows [OF sok(1)]]
  have "1 \<le> int (length srcs)" "int (length srcs) < 2 ^ 63"
    using t(2,3) by (cases srcs; simp)+
  then have e: "emits p1 (AppendInstruction OP_FUNDING_ASSEMBLE p2)
      (replicate (length srcs) (AT TypeFunding) @ S) (AT TypeFunding # S)" for S
    by (intro emits_num_op [OF n wf1]) (auto simp: drop_typed_def list_all_iff)
  have "source_ok p (AppendInstruction OP_FUNDING_ASSEMBLE p2) info1"
    unfolding source_ok_info
    using emits_trans [OF sok(1) e] info_ok_grows [OF sok(2) emits_grows [OF e]] by blast
  with r show ?case by (rule note_sources_ok)
next
  case (4 pa isAll info p)
  then show ?case by (simp add: emits_refl pushes_asset_wf)
next
  case (5 s ss pa isAll needed emptiedAccounts fallback p)
  from "5.prems"(1) obtain accounts emptied fb p1 where
    s: "VisitSource s pa isAll p = Inr ((accounts, emptied, fb), p1)"
    by (auto simp: result_simps)
  have sok: "source_ok p p1 (accounts, emptied, fb)"
    using "5.IH"(1) [OF s "5.prems"(2)] "5.prems"(3) by simp
  note g1 = source_ok_grows [OF sok]
  from "5.prems"(1) s have r: "VisitSources ss pa isAll
      (add_all accounts needed, add_all emptied emptiedAccounts, fb) p1 = Inr (info', p')"
    and c: "\<not> (fb \<noteq> None \<and> ss \<noteq> [])" "\<not> set emptied \<inter> set emptiedAccounts \<noteq> {}"
    by (auto simp: result_simps split: if_splits)
  have "info_ok p1 (add_all accounts needed, add_all emptied emptiedAccounts, fb)"
    using sok info_ok_grows [OF "5.prems"(4) g1] by (auto simp: source_ok_def info_ok_def)
  from "5.IH"(2) [OF c r pushes_asset_grows [OF "5.prems"(2) g1] _ this] "5.prems"(3)
  have rest: "(\<forall>S. emits p1 p' S (replicate (length ss) (AT TypeFunding) @ S)) \<and> info_ok p' info'"
    by simp
  have "emits p p' S (replicate (length ss) (AT TypeFunding) @ AT TypeFunding # S)" for S
    by (rule emits_trans [of _ p1 _ "AT TypeFunding # S"])
      (use sok rest in \<open>simp_all add: source_ok_def\<close>)
  with rest show ?case by (simp add: replicate_app_Cons_same)
qed

section \<open>Destinations\<close>

definition loop_mon :: "aval \<Rightarrow> bool" where
  "loop_mon mon \<longleftrightarrow> mon = AMonConst 0 \<or> mon = AT TypeMonetary"

lemma emits_wf: "emits p p' S S' \<Longrightarrow> wf_visitor p'"
  using emits_grows grows_wf by blast

lemma assemble_two: "sem [B 1, N 2, I OP_FUNDING_ASSEMBLE] [AT TypeFunding, AT TypeFunding] = Some [AT TypeFunding]"
  by (simp add: num_op_def drop_typed_def numeral_2_eq_2)

lemma in_order_start:
  "sem [I OP_FUNDING_SUM, I OP_ASSET, N 0, I OP_MONETARY_NEW, B 1] [AT TypeFunding] =
     Some [AT TypeFunding, AMonConst 0]"
  by (simp add: num_op_def)

lemma in_order_end:
  "loop_mon mon \<Longrightarrow>
   sem [I OP_FUNDING_REVERSE, B 1, I OP_TAKE, I OP_FUNDING_REVERSE, B 1, I OP_FUNDING_REVERSE]
     [AT TypeFunding, mon] = Some [AT TypeFunding, AT TypeFunding]"
  by (auto simp: loop_mon_def)

lemma in_order_step:
  "loop_mon mon \<Longrightarrow>
   sem [I OP_FUNDING_SUM, B 3, I OP_MONETARY_ADD, B 1, B 2, N 2, I OP_FUNDING_ASSEMBLE]
     [AT TypeFunding, AT TypeFunding, mon] = Some [AT TypeFunding, AT TypeMonetary]"
  by (auto simp: loop_mon_def num_op_def drop_typed_def numeral_2_eq_2 numeral_3_eq_3)

lemma max_step:
  assumes "emit_all [I OP_TAKE_MAX, B 2, I OP_DELETE] p = Inr p'" "wf_visitor p" "av_ok p av TypeMonetary"
  shows "emits p p' (av # AT TypeFunding # S) (AT TypeFunding # AT TypeFunding # S)"
proof -
  from assms(1) have r: "emit_all [B 2, I OP_DELETE] (AppendInstruction OP_TAKE_MAX p) = Inr p'" by simp
  have e: "emits p (AppendInstruction OP_TAKE_MAX p) (av # AT TypeFunding # S)
      (AT TypeFunding # AT TypeFunding # AMonNonneg # S)"
    using assms(2) av_ok_aty [OF assms(3)] by (intro emits_Append) auto
  have "sem [B 2, I OP_DELETE] [AT TypeFunding, AT TypeFunding, AMonNonneg] =
      Some [AT TypeFunding, AT TypeFunding]" by simp
  from emits_sem [OF r emits_wf [OF e] this, of _ S] e show ?thesis
    using emits_trans by fastforce
qed

lemma emits_Bump_all:
  assumes "Bump (int n) p = Inr p'" "wf_visitor p" "n < 2 ^ 63"
  shows "emits p p' (replicate n a @ b # S) (b # replicate n a @ S)"
proof -
  have "n < 2 ^ 64" using assms(3) by simp
  from emits_Bump [OF assms(1,2) _ this, of "replicate n a @ b # S"] show ?thesis
    by (simp add: nth_append)
qed

lemma VisitDestination_ok_all:
  "VisitDestinationRecursive d p = Inr p' \<Longrightarrow> wf_visitor p \<Longrightarrow> tree_dest d \<Longrightarrow>
     \<forall>S. emits p p' (AT TypeFunding # S) (AT TypeFunding # S)"
  "VisitKeptOrDestination kd p = Inr p' \<Longrightarrow> wf_visitor p \<Longrightarrow> tree_kept_or_dest kd \<Longrightarrow>
     \<forall>S. emits p p' (AT TypeFunding # S) (AT TypeFunding # S)"
  "VisitInOrder ods p = Inr p' \<Longrightarrow> wf_visitor p \<Longrightarrow> (\<forall>(_, d) \<in> set ods. tree_kept_or_dest d) \<Longrightarrow>
     \<forall>S mon. loop_mon mon \<longrightarrow>
       (\<exists>mon'. loop_mon mon' \<and> emits p p' (AT TypeFunding # mon # S) (AT TypeFunding # mon' # S))"
  "VisitAllocDests ads p = Inr p' \<Longrightarrow> wf_visitor p \<Longrightarrow> (\<forall>(_, d) \<in> set ads. tree_kept_or_dest d) \<Longrightarrow>
     \<forall>S. emits p p' (AT TypeFunding # replicate (length ads) (AT TypeMonetary) @ S) (AT TypeFunding # S)"
proof (induction d p and kd p and ods p and ads p arbitrary: p' and p' and p' and p'
    rule: VisitDestinationRecursive_VisitKeptOrDestination_VisitInOrder_VisitAllocDests.induct)
  case (1 account p)
  from "1.prems"(1) obtain p1 where r: "emit_all [I OP_FUNDING_SUM, I OP_TAKE] p = Inr p1"
    unfolding VisitDestinationRecursive.simps bindr_eq_Inr by blast
  with "1.prems"(1) obtain a p2 where v: "VisitExpr account True p1 = Inr ((TypeAccount, a), p2)"
    and p': "p' = AppendInstruction OP_SEND p2"
    by (auto simp: bindr_eq_Inr split: if_splits)
  have "sem [I OP_FUNDING_SUM, I OP_TAKE] [AT TypeFunding] = Some [AT TypeFunding, AT TypeFunding]" by simp
  from emits_sem [OF r "1.prems"(2) this] have e1:
    "emits p p1 (AT TypeFunding # S) (AT TypeFunding # AT TypeFunding # S)" for S by simp
  from VisitExpr_account [OF v emits_wf [OF e1]] obtain acc where acc:
    "addr_ok p2 acc TypeAccount" "\<And>S. emits p1 p2 S (ARes acc # S)" by blast
  have "aty rs (ARes acc) = TypeAccount" if "prefix (resources p2) rs" for rs
    using av_ok_aty [of p2 "ARes acc", OF _ that] acc(1) by simp
  then have "emits p2 p' (ARes acc # AT TypeFunding # S) S" for S
    unfolding p' using emits_wf [OF acc(2)] by (intro emits_Append) auto
  with e1 acc(2) show ?case using emits_trans by meson
next
  case (2 dests r p)
  from "2.prems"(1) obtain p1 p2 p3 p4 where
    s1: "emit_all [I OP_FUNDING_SUM, I OP_ASSET, N 0, I OP_MONETARY_NEW, B 1] p = Inr p1"
    and s2: "VisitInOrder dests p1 = Inr p2"
    and s3: "emit_all [I OP_FUNDING_REVERSE, B 1, I OP_TAKE, I OP_FUNDING_REVERSE, B 1,
                      I OP_FUNDING_REVERSE] p2 = Inr p3"
    and s4: "VisitKeptOrDestination r p3 = Inr p4"
    and s5: "emit_all [B 1, N 2, I OP_FUNDING_ASSEMBLE] p4 = Inr p'"
    unfolding VisitDestinationRecursive.simps bindr_eq_Inr by blast
  from "2.prems"(3) have t: "\<forall>(_, d) \<in> set dests. tree_kept_or_dest d" "tree_kept_or_dest r" by simp_all
  show ?case
  proof
    fix S
    from emits_sem [OF s1 "2.prems"(2) in_order_start]
    have e1: "emits p p1 (AT TypeFunding # S) (AT TypeFunding # AMonConst 0 # S)" by simp
    from "2.IH"(1) [OF s2 emits_wf [OF e1] t(1)] obtain mon where mon: "loop_mon mon"
      and e2: "emits p1 p2 (AT TypeFunding # AMonConst 0 # S) (AT TypeFunding # mon # S)"
      unfolding loop_mon_def by blast
    from emits_sem [OF s3 emits_wf [OF e2] in_order_end [OF mon]]
    have e3: "emits p2 p3 (AT TypeFunding # mon # S) (AT TypeFunding # AT TypeFunding # S)" by simp
    from "2.IH"(2) [OF s4 emits_wf [OF e3] t(2)]
    have e4: "emits p3 p4 (AT TypeFunding # AT TypeFunding # S) (AT TypeFunding # AT TypeFunding # S)" by simp
    from emits_sem [OF s5 emits_wf [OF e4] assemble_two]
    have e5: "emits p4 p' (AT TypeFunding # AT TypeFunding # S) (AT TypeFunding # S)" by simp
    show "emits p p' (AT TypeFunding # S) (AT TypeFunding # S)"
      by (rule emits_trans [OF emits_trans [OF emits_trans [OF emits_trans [OF e1 e2] e3] e4] e5])
  qed
next
  case (3 dests p)
  from "3.prems"(1) obtain p1 p2 where
    s1: "VisitAllotment (map fst dests) (AppendInstruction OP_FUNDING_SUM p) = Inr p1"
    and s2: "Bump (int (length dests)) (AppendInstruction OP_ALLOC p1) = Inr p2"
    and s3: "VisitAllocDests dests p2 = Inr p'"
    unfolding VisitDestinationRecursive.simps bindr_eq_Inr by blast
  from "3.prems"(3) have t: "\<forall>(_, d) \<in> set dests. tree_kept_or_dest d" "length dests < 2 ^ 63"
    by (simp_all add: slice_def)
  show ?case
  proof
    fix S
    let ?M = "replicate (length dests) (AT TypeMonetary)"
    have e0: "emits p (AppendInstruction OP_FUNDING_SUM p) (AT TypeFunding # S) (AMonNonneg # AT TypeFunding # S)"
      using "3.prems"(2) by (intro emits_Append) auto
    from VisitAllotment_ok [OF s1 emits_wf [OF e0]] t(2)
    have e1: "emits (AppendInstruction OP_FUNDING_SUM p) p1 (AMonNonneg # AT TypeFunding # S)
        (AAllot (length dests) # AMonNonneg # AT TypeFunding # S)" by simp
    have e2: "emits p1 (AppendInstruction OP_ALLOC p1) (AAllot (length dests) # AMonNonneg # AT TypeFunding # S)
        (?M @ AT TypeFunding # S)"
      using emits_wf [OF e1] by (intro emits_Append) auto
    note e3 = emits_Bump_all [OF s2 emits_wf [OF e2] t(2), of "AT TypeMonetary" "AT TypeFunding" S]
    from "3.IH" [OF s3 emits_wf [OF e3] t(1)]
    have e4: "emits p2 p' (AT TypeFunding # ?M @ S) (AT TypeFunding # S)" by blast
    show "emits p p' (AT TypeFunding # S) (AT TypeFunding # S)"
      by (rule emits_trans [OF emits_trans [OF emits_trans [OF emits_trans [OF e0 e1] e2] e3] e4])
  qed
next
  case (7 a d ds p)
  from "7.prems"(1) obtain ad p1 p2 p3 p4 where
    s1: "VisitExpr a True p = Inr ((TypeMonetary, ad), p1)"
    and s2: "emit_all [I OP_TAKE_MAX, B 2, I OP_DELETE] p1 = Inr p2"
    and s3: "VisitKeptOrDestination d p2 = Inr p3"
    and s4: "emit_all [I OP_FUNDING_SUM, B 3, I OP_MONETARY_ADD, B 1, B 2, N 2,
                      I OP_FUNDING_ASSEMBLE] p3 = Inr p4"
    and s5: "VisitInOrder ds p4 = Inr p'"
    by (fastforce simp del: emit_all.simps simp: bindr_eq_Inr split: if_splits)
  from "7.prems"(3) have t: "tree_kept_or_dest d" "\<forall>(_, d) \<in> set ds. tree_kept_or_dest d" by simp_all
  from expr_ok_pushed [OF VisitExpr_VisitLit_ok(1) [OF s1 "7.prems"(2)]] obtain av where
    av: "av_ok p1 av TypeMonetary" and e1: "\<And>S. emits p p1 S (av # S)" by blast
  show ?case
  proof (intro allI impI)
    fix S mon
    assume mon: "loop_mon mon"
    note e2 = max_step [OF s2 emits_wf [OF e1] av, of "mon # S"]
    from "7.IH"(1) [OF _ s3 emits_wf [OF e2] t(1)]
    have e3: "emits p2 p3 (AT TypeFunding # AT TypeFunding # mon # S)
        (AT TypeFunding # AT TypeFunding # mon # S)" by simp
    from emits_sem [OF s4 emits_wf [OF e3] in_order_step [OF mon]]
    have e4: "emits p3 p4 (AT TypeFunding # AT TypeFunding # mon # S) (AT TypeFunding # AT TypeMonetary # S)"
      by simp
    from "7.IH"(2) [OF _ s5 emits_wf [OF e4] t(2)] obtain mon' where mon': "loop_mon mon'"
      and e5: "emits p4 p' (AT TypeFunding # AT TypeMonetary # S) (AT TypeFunding # mon' # S)"
      unfolding loop_mon_def by blast
    have "emits p p' (AT TypeFunding # mon # S) (AT TypeFunding # mon' # S)"
      by (rule emits_trans [OF emits_trans [OF emits_trans [OF emits_trans [OF e1 e2] e3] e4] e5])
    with mon' show "\<exists>mon'. loop_mon mon' \<and>
        emits p p' (AT TypeFunding # mon # S) (AT TypeFunding # mon' # S)" by blast
  qed
next
  case (9 portion d ds p)
  from "9.prems"(1) obtain p1 p2 p3 where
    s1: "emit_all [B 1, I OP_TAKE] p = Inr p1"
    and s2: "VisitKeptOrDestination d p1 = Inr p2"
    and s3: "emit_all [B 1, N 2, I OP_FUNDING_ASSEMBLE] p2 = Inr p3"
    and s4: "VisitAllocDests ds p3 = Inr p'"
    unfolding VisitAllocDests.simps bindr_eq_Inr by blast
  from "9.prems"(3) have t: "tree_kept_or_dest d" "\<forall>(_, d) \<in> set ds. tree_kept_or_dest d" by simp_all
  show ?case
  proof
    fix S
    let ?M = "replicate (length ds) (AT TypeMonetary)"
    have "sem [B 1, I OP_TAKE] [AT TypeFunding, AT TypeMonetary] = Some [AT TypeFunding, AT TypeFunding]"
      by simp
    from emits_sem [OF s1 "9.prems"(2) this, of _ "?M @ S"]
    have e1: "emits p p1 (AT TypeFunding # AT TypeMonetary # ?M @ S) (AT TypeFunding # AT TypeFunding # ?M @ S)"
      by simp
    from "9.IH"(1) [OF s2 emits_wf [OF e1] t(1)]
    have e2: "emits p1 p2 (AT TypeFunding # AT TypeFunding # ?M @ S) (AT TypeFunding # AT TypeFunding # ?M @ S)"
      by simp
    from emits_sem [OF s3 emits_wf [OF e2] assemble_two, of _ "?M @ S"]
    have e3: "emits p2 p3 (AT TypeFunding # AT TypeFunding # ?M @ S) (AT TypeFunding # ?M @ S)" by simp
    from "9.IH"(2) [OF s4 emits_wf [OF e3] t(2)]
    have e4: "emits p3 p' (AT TypeFunding # ?M @ S) (AT TypeFunding # S)" by blast
    show "emits p p' (AT TypeFunding # replicate (length ((portion, d) # ds)) (AT TypeMonetary) @ S) (AT TypeFunding # S)"
      using emits_trans [OF emits_trans [OF emits_trans [OF e1 e2] e3] e4] by simp
  qed
qed (auto simp: emits_refl)

lemma VisitDestination_ok:
  assumes "VisitDestination d p = Inr p'" "wf_visitor p" "tree_dest d"
  shows "emits p p' (AT TypeFunding # S) S"
proof -
  from assms(1) obtain p1 where r: "VisitDestinationRecursive d p = Inr p1"
    and p': "p' = AppendInstruction OP_REPAY p1"
    by (auto simp: VisitDestination_def result_simps)
  from VisitDestination_ok_all(1) [OF r assms(2,3)]
  have e: "emits p p1 (AT TypeFunding # S) (AT TypeFunding # S)" by blast
  have "emits p1 p' (AT TypeFunding # S) S"
    unfolding p' using emits_wf [OF e] by (intro emits_Append) auto
  with e show ?thesis by (rule emits_trans)
qed

section \<open>Sends\<close>

lemma setNeededBalances_fields [simp]:
  "resources (setNeededBalances accs a p) = resources p"
  "instructions (setNeededBalances accs a p) = instructions p"
  "varIdx (setNeededBalances accs a p) = varIdx p"
  by (induction accs a p rule: setNeededBalances.induct) simp_all

lemma setNeededBalances_sets [simp]:
  "wf_visitor (setNeededBalances accs a p) = wf_visitor p"
  "addr_ok (setNeededBalances accs a p) b t = addr_ok p b t"
  "emits q (setNeededBalances accs a p) S S' = emits q p S S'"
  by (simp_all add: wf_visitor_def addr_ok_def emits_def grows_def)

lemma pushes_asset_address:
  assumes "wf_visitor p" "addr_ok p a TypeAsset"
  shows "pushes_asset (PushAddress a) p"
  unfolding pushes_asset_def
proof (intro conjI allI impI)
  fix q assume g: "grows p q"
  have a: "addr_ok q a TypeAsset" using assms(2) g by (rule addr_ok_grows)
  then have "unat a < length (resources q)" by (simp add: addr_ok_def)
  then have "emits q (PushAddress a q) S (ARes a # S)" for S
    using emits_Push grows_wf [OF g] by blast
  moreover have "av_ok (PushAddress a q) (ARes a) TypeAsset"
    using a by (simp add: addr_ok_def PushAddress_def)
  ultimately show "\<exists>av. av_ok (PushAddress a q) av TypeAsset \<and> (\<forall>S. emits q (PushAddress a q) S (av # S))"
    by blast
qed (rule assms(1))

lemma pushes_asset_monetary:
  assumes "wf_visitor p" "addr_ok p a TypeMonetary"
  shows "pushes_asset (\<lambda>p. AppendInstruction OP_ASSET (PushAddress a p)) p"
  unfolding pushes_asset_def
proof (intro conjI allI impI)
  fix q assume g: "grows p q"
  let ?q' = "AppendInstruction OP_ASSET (PushAddress a q)"
  have a: "addr_ok q a TypeMonetary" using assms(2) g by (rule addr_ok_grows)
  then have "unat a < length (resources q)" by (simp add: addr_ok_def)
  then have e: "emits q (PushAddress a q) S (ARes a # S)" for S
    using emits_Push grows_wf [OF g] by blast
  have "aty rs (ARes a) = TypeMonetary" if "prefix (resources (PushAddress a q)) rs" for rs
    using av_ok_aty [of q "ARes a", OF _ that [unfolded PushAddress_def, simplified]] a by simp
  then have "emits (PushAddress a q) ?q' (ARes a # S) (AT TypeAsset # S)" for S
    using emits_wf [OF e] by (intro emits_Append) auto
  with e have "emits q ?q' S (AT TypeAsset # S)" for S using emits_trans by blast
  then show "\<exists>av. av_ok ?q' av TypeAsset \<and> (\<forall>S. emits q ?q' S (av # S))"
    by (intro exI [of _ "AT TypeAsset"]) simp
qed (rule assms(1))

lemma expr_ok_address_of:
  assumes "VisitExpr e False p = Inr ((t, Some a), p')" "wf_visitor p"
  shows "addr_ok p' a t" "emits p p' S S"
  using VisitExpr_VisitLit_ok(1) [OF assms] by (simp_all add: expr_ok_def)

lemma VisitMonetaryAll_ok:
  assumes "VisitMonetaryAll asset src p = Inr p'" "wf_visitor p" "tree_value_source src"
  shows "emits p p' S (AT TypeFunding # S)"
proof -
  from assms(1) obtain a p1 where v: "VisitExpr asset False p = Inr ((TypeAsset, Some a), p1)"
    by (auto simp: VisitMonetaryAll_def result_simps split: if_splits option.splits)
  with assms(1) obtain s info p2 where s: "src = Src s" "VisitSource s (PushAddress a) True p1 = Inr (info, p2)"
    and p': "p' = setNeededBalances (fst info) a p2"
    by (auto simp: VisitMonetaryAll_def result_simps split: value_source.splits)
  note e1 = expr_ok_address_of [OF v assms(2)]
  from VisitSource_VisitSources_ok(1) [OF s(2) pushes_asset_address [OF emits_wf [OF e1(2)] e1(1)]]
    assms(3) s(1)
  have "emits p1 p2 S (AT TypeFunding # S)" by (simp add: source_ok_def)
  with e1(2) have "emits p p2 S (AT TypeFunding # S)" by (rule emits_trans)
  then show ?thesis by (simp add: p')
qed

lemma VisitAllotmentSources_ok:
  assumes "VisitAllotmentSources ss i a p = Inr p'" "wf_visitor p" "addr_ok p a TypeMonetary"
    and "list_all tree_source ss" "i + length ss < 2 ^ 63"
  shows "emits p p' (replicate i (AT TypeFunding) @ replicate (length ss) (AT TypeMonetary) @ S)
     (replicate (i + length ss) (AT TypeFunding) @ S)"
  using assms
proof (induction ss i a p rule: VisitAllotmentSources.induct)
  case (1 i a p)
  then show ?case by (simp add: emits_refl)
next
  case (2 s ss i a p)
  let ?F = "replicate i (AT TypeFunding)" and ?M = "replicate (length ss) (AT TypeMonetary)"
  from "2.prems"(1) obtain accounts emptied fb p1 p2 p3 where
    s1: "VisitSource s (\<lambda>p. AppendInstruction OP_ASSET (PushAddress a p)) False p =
        Inr ((accounts, emptied, fb), p1)"
    and s2: "Bump (int i + 1) (setNeededBalances accounts a p1) = Inr p2"
    and s3: "TakeFromSource fb p2 = Inr p3"
    and s4: "VisitAllotmentSources ss (Suc i) a p3 = Inr p'"
    by (auto simp: bindr_eq_Inr)
  from VisitSource_VisitSources_ok(1) [OF s1 pushes_asset_monetary [OF "2.prems"(2,3)]] "2.prems"(4)
  have sok: "source_ok p p1 (accounts, emptied, fb)" by simp
  have e1: "emits p (setNeededBalances accounts a p1) (?F @ (AT TypeMonetary # ?M) @ S)
      (AT TypeFunding # ?F @ AT TypeMonetary # ?M @ S)"
    using sok by (simp add: source_ok_def)
  have "Bump (int (Suc i)) (setNeededBalances accounts a p1) = Inr p2"
    using s2 by (simp add: add.commute)
  moreover have "Suc i < 2 ^ 64" using "2.prems"(5) by simp
  ultimately have e2: "emits (setNeededBalances accounts a p1) p2
      (AT TypeFunding # ?F @ AT TypeMonetary # ?M @ S) (AT TypeMonetary # AT TypeFunding # ?F @ ?M @ S)"
    using emits_Bump [of "Suc i" _ p2 "AT TypeFunding # ?F @ AT TypeMonetary # ?M @ S"] emits_wf [OF e1]
    by (simp add: nth_append)
  have "addr_ok p2 f TypeAccount" if "fb = Some f" for f
    using sok that addr_ok_grows [OF _ emits_grows [OF e2], of f] by (simp add: source_ok_def)
  from TakeFromSource_ok [OF s3 emits_wf [OF e2] _ this, of "AT TypeMonetary"]
  have e3: "emits p2 p3 (AT TypeMonetary # AT TypeFunding # ?F @ ?M @ S) (AT TypeFunding # ?F @ ?M @ S)"
    by simp
  have a3: "addr_ok p3 a TypeMonetary"
    using addr_ok_grows [OF "2.prems"(3) grows_trans [OF grows_trans [OF emits_grows [OF e1]
        emits_grows [OF e2]] emits_grows [OF e3]]] .
  from "2.IH" [OF s4 emits_wf [OF e3] a3] "2.prems"(4,5)
  have e4: "emits p3 p' (AT TypeFunding # ?F @ ?M @ S) (replicate (i + length (s # ss)) (AT TypeFunding) @ S)"
    by simp
  from emits_trans [OF emits_trans [OF emits_trans [OF e1 e2] e3] e4] show ?case by simp
qed

text \<open>An expression that is visited again has the same type.\<close>

lemma VisitLit_type:
  "VisitLit l b p = Inr ((t, a), p1) \<Longrightarrow> t = (case l of LitAccount _ \<Rightarrow> TypeAccount | LitAsset _ \<Rightarrow> TypeAsset
     | LitNumber _ \<Rightarrow> TypeNumber | LitString _ \<Rightarrow> TypeString | LitPortion _ \<Rightarrow> TypePortion
     | LitMonetary _ _ \<Rightarrow> TypeMonetary)"
proof (cases l)
  case (LitMonetary asset amt)
  assume "VisitLit l b p = Inr ((t, a), p1)"
  with LitMonetary obtain aa p2 n where "visit_monetary aa n b p2 = Inr ((t, a), p1)"
    by (auto simp: result_simps split: if_splits sum.splits option.splits)
  with LitMonetary show ?thesis by (auto simp: visit_monetary_def bindr_eq_Inr)
qed (auto simp: visit_constant_def bindr_eq_Inr raise_def split: sum.splits option.splits)

lemma VisitExpr_same_type:
  "VisitExpr e b p = Inr ((t, a), p1) \<Longrightarrow> VisitExpr e b' q = Inr ((t', a'), q1) \<Longrightarrow> grows p q \<Longrightarrow>
     wf_visitor p \<Longrightarrow> t = t'"
proof (induction e arbitrary: t a p1 t' a' q1 rule: expr.induct [where ?P2.0 = "\<lambda>_. True"])
  case (ExprAddSub lhs op rhs)
  from ExprAddSub.prems(1) obtain la p2 where l: "VisitExpr lhs b p = Inr ((t, la), p2)"
    by (auto simp: result_simps split: if_splits)
  from ExprAddSub.prems(2) obtain lb q2 where r: "VisitExpr lhs b' q = Inr ((t', lb), q2)"
    by (auto simp: result_simps split: if_splits)
  from ExprAddSub.IH(1) [OF l r ExprAddSub.prems(3,4)] show ?case .
next
  case (ExprLiteral l)
  then show ?case by (auto dest!: VisitLit_type)
next
  case (ExprVariable v)
  then obtain i where i: "map_of (varIdx p) (tl v) = Some i"
    by (cases "map_of (varIdx p) (tl v)") (auto simp: VisitVariable_def)
  have q: "varIdx q = varIdx p" "prefix (resources p) (resources q)"
    using ExprVariable.prems(3) by (simp_all add: grows_def)
  have l: "unat i < length (resources p)" using i ExprVariable.prems(4) by (auto simp: wf_visitor_def)
  with q(2) have "resources q ! unat i = resources p ! unat i"
    by (auto simp: prefix_def nth_append)
  with ExprVariable.prems(1,2) i q(1) show ?case by (auto simp: VisitVariable_def split: if_splits)
qed simp_all

lemma VisitMonetary_ok:
  assumes "VisitMonetary mon src p = Inr p'" "wf_visitor p" "tree_value_source src"
  shows "emits p p' S (AT TypeFunding # S)"
proof -
  from assms(1) obtain a p1 where v: "VisitExpr mon False p = Inr ((TypeMonetary, Some a), p1)"
    by (auto simp: VisitMonetary_def result_simps split: if_splits option.splits)
  note e1 = expr_ok_address_of [OF v assms(2)]
  have again: "\<exists>av. av_ok r av TypeMonetary \<and> (\<forall>S. emits q r S (av # S))"
    if "VisitExpr mon True q = Inr (x, r)" "grows p q" for q r x
  proof -
    obtain t b where x: "x = (t, b)" by (cases x)
    have w: "VisitExpr mon True q = Inr ((t, b), r)" using that(1) x by simp
    from VisitExpr_same_type [OF v w that(2) assms(2)] have "t = TypeMonetary" by simp
    with expr_ok_pushed [OF VisitExpr_VisitLit_ok(1) [OF w grows_wf [OF that(2)]]] show ?thesis by metis
  qed
  show ?thesis
  proof (cases src)
    case (Src s)
    with assms(1) v obtain accounts emptied fb p2 q p3 where
      s1: "VisitSource s (\<lambda>p. AppendInstruction OP_ASSET (PushAddress a p)) False p1 =
          Inr ((accounts, emptied, fb), p2)"
      and s2: "VisitExpr mon True (setNeededBalances accounts a p2) = Inr (q, p3)"
      and s3: "TakeFromSource fb p3 = Inr p'"
      by (auto simp: VisitMonetary_def bindr_eq_Inr)
    from VisitSource_VisitSources_ok(1) [OF s1 pushes_asset_monetary [OF emits_wf [OF e1(2)] e1(1)]]
      assms(3) Src
    have sok: "source_ok p1 p2 (accounts, emptied, fb)" by simp
    have e2: "emits p1 (setNeededBalances accounts a p2) S (AT TypeFunding # S)"
      using sok by (simp add: source_ok_def)
    note e12 = emits_trans [OF e1(2) e2]
    from again [OF s2 emits_grows [OF e12]] obtain av where av: "av_ok p3 av TypeMonetary"
      "\<And>S. emits (setNeededBalances accounts a p2) p3 S (av # S)" by blast
    have "addr_ok p3 f TypeAccount" if "fb = Some f" for f
      using sok that addr_ok_grows [OF _ emits_grows [OF av(2)], of f] by (simp add: source_ok_def)
    from TakeFromSource_ok [OF s3 emits_wf [OF av(2)] av(1) this]
    have "emits p3 p' (av # AT TypeFunding # S) (AT TypeFunding # S)" by simp
    with emits_trans [OF e12 av(2)] show ?thesis by (rule emits_trans)
  next
    case (SrcAllotment srcs)
    with assms(1) v obtain q p2 p3 p4 where
      s1: "VisitExpr mon True p1 = Inr (q, p2)"
      and s2: "VisitAllotment (map fst srcs) p2 = Inr p3"
      and s3: "VisitAllotmentSources (map snd srcs) 0 a (AppendInstruction OP_ALLOC p3) = Inr p4"
      and s4: "emit_all [N (int (length srcs)), I OP_FUNDING_ASSEMBLE] p4 = Inr p'"
      by (auto simp: VisitMonetary_def bindr_eq_Inr)
    from assms(3) SrcAllotment have t: "list_all tree_source (map snd srcs)" "srcs \<noteq> []" "length srcs < 2 ^ 63"
      by (auto simp: slice_def list_all_iff)
    from again [OF s1 emits_grows [OF e1(2)]] obtain av where av: "av_ok p2 av TypeMonetary"
      "\<And>S. emits p1 p2 S (av # S)" by blast
    let ?n = "length srcs"
    from VisitAllotment_ok [OF s2 emits_wf [OF av(2)]] t(3)
    have e2: "emits p2 p3 (av # S) (AAllot ?n # av # S)" by simp
    have av3: "av_ok p3 av TypeMonetary" using av(1) emits_grows [OF e2] by (rule av_ok_grows)
    have e3: "emits p3 (AppendInstruction OP_ALLOC p3) (AAllot ?n # av # S) (replicate ?n (AT TypeMonetary) @ S)"
      using emits_wf [OF e2] av_ok_aty [OF av3] by (intro emits_Append) auto
    have g: "grows p1 (AppendInstruction OP_ALLOC p3)"
      using grows_trans [OF grows_trans [OF emits_grows [OF av(2)] emits_grows [OF e2]] emits_grows [OF e3]] .
    from VisitAllotmentSources_ok [OF s3 emits_wf [OF e3] addr_ok_grows [OF e1(1) g] t(1)] t(3)
    have e4: "emits (AppendInstruction OP_ALLOC p3) p4 (replicate ?n (AT TypeMonetary) @ S)
        (replicate ?n (AT TypeFunding) @ S)" by simp
    have "1 \<le> int ?n" "int ?n < 2 ^ 63" using t(2,3) by (cases srcs; simp)+
    then have "sem [N (int ?n), I OP_FUNDING_ASSEMBLE] (replicate ?n (AT TypeFunding)) = Some [AT TypeFunding]"
      by (simp add: num_op_def drop_typed_def list_all_iff)
    from emits_sem [OF s4 emits_wf [OF e4] this]
    have e5: "emits p4 p' (replicate ?n (AT TypeFunding) @ S) (AT TypeFunding # S)" by simp
    show ?thesis
      by (rule emits_trans [OF emits_trans [OF emits_trans [OF emits_trans
          [OF emits_trans [OF e1(2) av(2)] e2] e3] e4] e5])
  qed
qed

lemma VisitSend_ok:
  assumes "VisitSend amt src d p = Inr p'" "wf_visitor p" "tree_value_source src" "tree_dest d"
  shows "emits p p' S S"
proof -
  from assms(1) obtain p1 where
    s: "(case amt of MonAll asset \<Rightarrow> VisitMonetaryAll asset src p | Mon mon \<Rightarrow> VisitMonetary mon src p) = Inr p1"
    and d: "VisitDestination d p1 = Inr p'"
    by (auto simp: VisitSend_def bindr_eq_Inr)
  have e: "emits p p1 S (AT TypeFunding # S)"
    using s VisitMonetaryAll_ok [OF _ assms(2,3)] VisitMonetary_ok [OF _ assms(2,3)]
    by (cases amt) auto
  from VisitDestination_ok [OF d emits_wf [OF e] assms(4)] e show ?thesis using emits_trans by blast
qed

section \<open>The other statements\<close>

lemma push_key_ok:
  assumes "push_key key p = Inr p'" "wf_visitor p"
  shows "\<exists>av. av_ok p' av TypeString \<and> (\<forall>S. emits p p' S (av # S))"
proof -
  from assms(1) obtain u where u: "Unquote key = Some u"
    by (cases "Unquote key") (simp_all add: push_key_def)
  with assms(1) obtain a p1 where a: "AllocateResource (Constant (VString u)) p = Inr (a, p1)"
    and p': "p' = PushAddress a p1" by (auto simp: push_key_def bindr_eq_Inr)
  from AllocateResource_allocated [OF a assms(2)]
  have al: "allocated p p1 a (Constant (VString u))" by (simp add: storable_type_def)
  from expr_ok_address [where push = True, OF allocated_emits [OF al] allocated_addr [OF al]]
  have "expr_ok True p p' TypeString (Some a)" by (simp add: p' storable_type_def)
  then show ?thesis by (metis expr_ok_pushed)
qed

lemma push_address_of_ok:
  assumes "push_address_of e t p = Inr p'" "wf_visitor p"
  shows "\<exists>av. av_ok p' av t \<and> (\<forall>S. emits p p' S (av # S))"
proof -
  from assms(1) obtain a p1 where v: "VisitExpr e False p = Inr ((t, Some a), p1)"
    and p': "p' = PushAddress a p1"
    by (auto simp: push_address_of_def result_simps split: if_splits option.splits)
  note e1 = expr_ok_address_of [OF v assms(2)]
  have "storable_type t" using VisitExpr_VisitLit_ok(1) [OF v assms(2)] by (simp add: expr_ok_def)
  from expr_ok_address [where push = True, OF e1(2,1) this]
  have "expr_ok True p p' t (Some a)" by (simp add: p')
  then show ?thesis by (metis expr_ok_pushed)
qed

lemma VisitExpr_pushed:
  assumes "VisitExpr e True p = Inr (x, p')" "wf_visitor p"
  shows "\<exists>av. av_ok p' av (fst x) \<and> storable_type (fst x) \<and> (\<forall>S. emits p p' S (av # S))"
proof -
  obtain t a where x: "x = (t, a)" by (cases x)
  from VisitExpr_VisitLit_ok(1) [OF assms(1) [unfolded x] assms(2)] show ?thesis
    by (auto simp: expr_ok_def x)
qed

text \<open>A statement leaves the stack as it found it, and is at least one instruction.\<close>

definition stmt_ok :: "parseVisitor \<Rightarrow> parseVisitor \<Rightarrow> bool" where
  "stmt_ok p p' \<longleftrightarrow> (\<forall>S. emits p p' S S) \<and> instructions p' \<noteq> []"

lemma instructions_Append [simp]: "instructions (AppendInstruction op p) \<noteq> []"
  by (simp add: AppendInstruction_def)

lemma stmt_okI:
  assumes "\<And>S. emits p p1 S (U @ S)" "op \<noteq> OP_APUSH"
    and "\<And>rs S. prefix (resources p1) rs \<Longrightarrow> check_op rs op (U @ S) = Some S"
  shows "stmt_ok p (AppendInstruction op p1)"
  unfolding stmt_ok_def
proof (intro conjI allI)
  fix S
  show "emits p (AppendInstruction op p1) S S"
    using assms(1) emits_Append [OF emits_wf [OF assms(1)] assms(2,3)] by (rule emits_trans)
qed simp

lemma VisitPrint_ok:
  assumes "VisitPrint e p = Inr p'" "wf_visitor p"
  shows "stmt_ok p p'"
proof -
  from assms(1) obtain x p1 where v: "VisitExpr e True p = Inr (x, p1)"
    and p': "p' = AppendInstruction OP_PRINT p1"
    by (auto simp: VisitPrint_def bindr_eq_Inr)
  from VisitExpr_pushed [OF v assms(2)] obtain av where av: "av_ok p1 av (fst x)"
    "storable_type (fst x)" "\<And>S. emits p p1 S (av # S)" by blast
  show ?thesis
    unfolding p' using av av_ok_aty [OF av(1)]
    by (intro stmt_okI [where U = "[av]"]) (auto simp: storable_type_def)
qed

lemma VisitSetTxMeta_ok:
  assumes "VisitSetTxMeta key e p = Inr p'" "wf_visitor p"
  shows "stmt_ok p p'"
proof -
  from assms(1) obtain x p1 p2 where v: "VisitExpr e True p = Inr (x, p1)"
    and k: "push_key key p1 = Inr p2" and p': "p' = AppendInstruction OP_TX_META p2"
    by (auto simp: VisitSetTxMeta_def bindr_eq_Inr)
  from VisitExpr_pushed [OF v assms(2)] obtain av where av: "av_ok p1 av (fst x)"
    "storable_type (fst x)" "\<And>S. emits p p1 S (av # S)" by blast
  from push_key_ok [OF k emits_wf [OF av(3)]] obtain ak where ak: "av_ok p2 ak TypeString"
    "\<And>S. emits p1 p2 S (ak # S)" by blast
  have av2: "av_ok p2 av (fst x)" using av(1) emits_grows [OF ak(2)] by (rule av_ok_grows)
  show ?thesis
    unfolding p' using av(2) av_ok_aty [OF av2] av_ok_aty [OF ak(1)] emits_trans [OF av(3) ak(2)]
    by (intro stmt_okI [where U = "[ak, av]"]) auto
qed

lemma VisitSetAccountMeta_ok:
  assumes "VisitSetAccountMeta acc key e p = Inr p'" "wf_visitor p"
  shows "stmt_ok p p'"
proof -
  from assms(1) obtain x p1 p2 p3 where v: "VisitExpr e True p = Inr (x, p1)"
    and k: "push_key key p1 = Inr p2" and a: "push_address_of acc TypeAccount p2 = Inr p3"
    and p': "p' = AppendInstruction OP_ACCOUNT_META p3"
    by (auto simp: VisitSetAccountMeta_def bindr_eq_Inr)
  from VisitExpr_pushed [OF v assms(2)] obtain av where av: "av_ok p1 av (fst x)"
    "storable_type (fst x)" "\<And>S. emits p p1 S (av # S)" by blast
  from push_key_ok [OF k emits_wf [OF av(3)]] obtain ak where ak: "av_ok p2 ak TypeString"
    "\<And>S. emits p1 p2 S (ak # S)" by blast
  from push_address_of_ok [OF a emits_wf [OF ak(2)]] obtain aa where aa: "av_ok p3 aa TypeAccount"
    "\<And>S. emits p2 p3 S (aa # S)" by blast
  have g: "grows p2 p3" using emits_grows [OF aa(2)] .
  have ak3: "av_ok p3 ak TypeString" using ak(1) g by (rule av_ok_grows)
  have av3: "av_ok p3 av (fst x)"
    using av(1) grows_trans [OF emits_grows [OF ak(2)] g] by (rule av_ok_grows)
  show ?thesis
    unfolding p' using av(2) av_ok_aty [OF av3] av_ok_aty [OF ak3] av_ok_aty [OF aa(1)]
      emits_trans [OF emits_trans [OF av(3) ak(2)] aa(2)]
    by (intro stmt_okI [where U = "[aa, ak, av]"]) auto
qed

lemma VisitSaveFromAccount_ok:
  assumes "VisitSaveFromAccount amt acc p = Inr p'" "wf_visitor p"
  shows "stmt_ok p p'"
proof -
  from assms(1) obtain p1 p2 where
    s: "(case amt of MonAll asset \<Rightarrow> push_address_of asset TypeAsset p
                   | Mon mon \<Rightarrow> push_address_of mon TypeMonetary p) = Inr p1"
    and a: "push_address_of acc TypeAccount p1 = Inr p2" and p': "p' = AppendInstruction OP_SAVE p2"
    by (auto simp: VisitSaveFromAccount_def bindr_eq_Inr)
  have "\<exists>av t. (t = TypeAsset \<or> t = TypeMonetary) \<and> av_ok p1 av t \<and> (\<forall>S. emits p p1 S (av # S))"
    using s push_address_of_ok [OF _ assms(2)] by (cases amt) fastforce+
  then obtain av t where av: "t = TypeAsset \<or> t = TypeMonetary" "av_ok p1 av t"
    "\<And>S. emits p p1 S (av # S)" by blast
  from push_address_of_ok [OF a emits_wf [OF av(3)]] obtain aa where aa: "av_ok p2 aa TypeAccount"
    "\<And>S. emits p1 p2 S (aa # S)" by blast
  have av2: "av_ok p2 av t" using av(2) emits_grows [OF aa(2)] by (rule av_ok_grows)
  show ?thesis
    unfolding p' using av(1) av_ok_aty [OF av2] av_ok_aty [OF aa(1)] emits_trans [OF av(3) aa(2)]
    by (intro stmt_okI [where U = "[aa, av]"]) auto
qed

lemma VisitStmt_ok:
  assumes "VisitStmt s p = Inr p'" "wf_visitor p" "tree_stmt s"
  shows "stmt_ok p p'"
proof (cases s)
  case Fail
  with assms(1) have "p' = AppendInstruction OP_FAIL p" by simp
  with stmt_okI [where U = "[]", OF _ _ , of p p OP_FAIL] emits_refl [OF assms(2)] show ?thesis by simp
next
  case (Send amt src d)
  with assms(1) have v: "VisitSend amt src d p = Inr p'" by simp
  then have "instructions p' \<noteq> []" by (auto simp: VisitSend_def VisitDestination_def bindr_eq_Inr)
  with VisitSend_ok [OF v assms(2)] assms(3) Send show ?thesis by (simp add: stmt_ok_def)
qed (use assms VisitPrint_ok VisitSetTxMeta_ok VisitSetAccountMeta_ok VisitSaveFromAccount_ok in simp_all)

lemma VisitStmts_ok:
  assumes "foldr_result VisitStmt ss p = Inr p'" "wf_visitor p" "list_all tree_stmt ss"
  shows "(\<forall>S. emits p p' S S) \<and> (ss \<noteq> [] \<longrightarrow> instructions p' \<noteq> [])"
  using assms
proof (induction ss arbitrary: p)
  case Nil
  then show ?case by (simp add: emits_refl)
next
  case (Cons s ss)
  from Cons.prems(1) obtain p1 where s: "VisitStmt s p = Inr p1"
    and r: "foldr_result VisitStmt ss p1 = Inr p'" by (auto simp: bindr_eq_Inr)
  from VisitStmt_ok [OF s Cons.prems(2)] Cons.prems(3)
  have ok: "\<And>S. emits p p1 S S" "instructions p1 \<noteq> []" by (simp_all add: stmt_ok_def)
  from Cons.IH [OF r emits_wf [OF ok(1)]] Cons.prems(3) have e: "\<And>S. emits p1 p' S S" by simp
  have "prefix (instructions p1) (instructions p')" using emits_grows [OF e] by (simp add: grows_def)
  with ok e emits_trans show ?case by (metis prefix_Nil)
qed

section \<open>Variables and scripts\<close>

text \<open>A visitor whose code so far is balanced.\<close>

definition balanced :: "parseVisitor \<Rightarrow> bool" where
  "balanced p \<longleftrightarrow> wf_visitor p \<and>
     (\<forall>rs. prefix (resources p) rs \<longrightarrow> check rs (instructions p) [] = Some [])"

lemma balanced_emits:
  assumes "balanced p" "emits p p' [] []"
  shows "balanced p'"
proof -
  from assms(2) obtain code where c: "instructions p' = instructions p @ code"
    "\<forall>rs. prefix (resources p') rs \<longrightarrow> check rs code [] = Some []"
    and g: "grows p p'" by (auto simp: emits_def)
  have "prefix (resources p) rs" if "prefix (resources p') rs" for rs
    using that g prefix_order.trans by (auto simp: grows_def)
  with assms(1) c have "check rs (instructions p') [] = Some []" if "prefix (resources p') rs" for rs
    using that check_append by (metis balanced_def)
  with grows_wf [OF g] show ?thesis by (simp add: balanced_def)
qed

lemma VisitOrigin_ok:
  assumes "VisitOrigin ty name orig p = Inr (a, p')" "wf_visitor p" "storable_type ty"
  shows "emits p p' [] [] \<and> unat a < length (resources p')"
proof -
  have alloc: "emits p p' [] [] \<and> unat a < length (resources p')"
    if "AllocateResource r p1 = Inr (a, p')" "emits p p1 [] []" "wf_resource (resources p1) r" for r p1
    using AllocateResource_allocated [OF that(1) emits_wf [OF that(2)] that(3)] emits_trans [OF that(2)]
    by (auto simp: allocated_def)
  show ?thesis
  proof (cases orig)
    case None
    with assms(1) have "AllocateResource (Variable ty name) p = Inr (a, p')"
      by (cases "AllocateResource (Variable ty name) p") (auto simp: VisitOrigin_def)
    with emits_refl [OF assms(2)] assms(3) show ?thesis by (intro alloc) auto
  next
    case (Some og)
    show ?thesis
    proof (cases og)
      case (OriginAccountMeta account key)
      with assms(1) Some obtain b p1 where v: "VisitExpr account False p = Inr ((TypeAccount, Some b), p1)"
        and r: "AllocateResource (VariableAccountMetadata ty name b (Trim_quotes key)) p1 = Inr (a, p')"
        by (auto simp: VisitOrigin_def bindr_eq_Inr raise_def split: if_splits option.splits)
      note e = expr_ok_address_of [OF v assms(2)]
      show ?thesis
        by (rule alloc [OF r e(2)]) (use e(1) assms(3) in \<open>simp add: addr_ok_def\<close>)
    next
      case (OriginAccountBalance account asset)
      with assms(1) Some obtain b p1 c p2 where
        v: "VisitExpr account False p = Inr ((TypeAccount, Some b), p1)"
        and w: "VisitExpr asset False p1 = Inr ((TypeAsset, Some c), p2)"
        and r: "AllocateResource (VariableAccountBalance name b c) p2 = Inr (a, p')"
        by (auto simp: VisitOrigin_def bindr_eq_Inr raise_def split: if_splits option.splits)
      note e = expr_ok_address_of [OF v assms(2)]
      note f = expr_ok_address_of [OF w emits_wf [OF e(2)]]
      have "addr_ok p2 b TypeAccount" using e(1) emits_grows [OF f(2)] by (rule addr_ok_grows)
      with f(1) show ?thesis
        by (intro alloc [OF r emits_trans [OF e(2) f(2)]]) (simp add: addr_ok_def)
    qed
  qed
qed

lemma type_of_text_storable: "type_of_text s = Some t \<Longrightarrow> storable_type t"
  by (auto simp: type_of_text_def storable_type_def split: if_splits)

lemma VisitVars_loop_ok:
  "VisitVars_loop vs p = Inr p' \<Longrightarrow> balanced p \<Longrightarrow> balanced p'"
proof (induction vs p rule: VisitVars_loop.induct)
  case (2 v vs p)
  let ?name = "tl (decl_name v)"
  from 2(2) obtain ty where ty: "map_of (varIdx p) ?name = None" "type_of_text (decl_ty v) = Some ty"
    by (auto simp: Let_def raise_def split: if_splits option.splits)
  with 2(2) obtain a p1 where o: "VisitOrigin ty ?name (decl_orig v) p = Inr (a, p1)"
    and r: "VisitVars_loop vs (p1\<lparr>varIdx := AList.update ?name a (varIdx p1)\<rparr>) = Inr p'"
    by (auto simp: Let_def bindr_eq_Inr)
  have "wf_visitor p" using 2(3) by (simp add: balanced_def)
  note ok = VisitOrigin_ok [OF o this type_of_text_storable [OF ty(2)]]
  then have "balanced p1" using balanced_emits 2(3) by blast
  with ok have "balanced (p1\<lparr>varIdx := AList.update ?name a (varIdx p1)\<rparr>)"
    by (auto simp: balanced_def wf_visitor_def update_conv split: if_splits)
  with 2(1) ty r show ?case by auto
qed simp

lemma Compile_checked:
  assumes "Compile s = Inr p" "tree_script s"
  shows "wf_resources (ProgResources p)" "Instructions p \<noteq> []"
    and "check (ProgResources p) (Instructions p) [] = Some []"
proof -
  from assms(1) obtain q where q: "VisitScript s new_visitor = Inr q"
    and p: "p = \<lparr>Instructions = instructions q, ProgResources = resources q,
              NeededBalances = neededBalances q\<rparr>"
    by (auto simp: Compile_def bindr_eq_Inr)
  from q obtain q1 where v: "(case script_vars s of None \<Rightarrow> Inr new_visitor | Some vs \<Rightarrow> VisitVars vs new_visitor) = Inr q1"
    and ss: "foldr_result VisitStmt (script_stmts s) q1 = Inr q"
    by (auto simp: VisitScript_def bindr_eq_Inr)
  have "balanced new_visitor"
    by (simp add: balanced_def new_visitor_def wf_visitor_def wf_resources_def)
  with v have b: "balanced q1"
    using VisitVars_loop_ok by (auto simp: VisitVars_def raise_def split: option.splits if_splits)
  then have "wf_visitor q1" by (simp add: balanced_def)
  from VisitStmts_ok [OF ss this] assms(2)
  have e: "emits q1 q [] []" "instructions q \<noteq> []"
    by (auto simp: tree_script_def slice_def)
  from balanced_emits [OF b e(1)] have "balanced q" .
  with e(2) show "wf_resources (ProgResources p)" "Instructions p \<noteq> []"
    "check (ProgResources p) (Instructions p) [] = Some []"
    by (simp_all add: p balanced_def wf_visitor_def)
qed

end
