(* ===== verification/Numscript_Safe.thy ===== *)
theory Numscript_Safe
  imports Compiler_Statements
begin

text \<open>
  The compiler and the machine together: a compiled script, once its variables, resources and
  balances are resolved, cannot panic the machine, makes no negative posting and, unless it saves
  a part of a balance, neither makes nor loses money.
\<close>

section \<open>Resolved resources\<close>

text \<open>Constants are kept, and only a balance variable waits for its amount.\<close>

lemma resolve_resource_pending:
  assumes "resolve_resource st r m = Inr (v, m')"
  shows "pending m' \<subseteq> pending m \<union> (if \<exists>n a c. r = VariableAccountBalance n a c then {length (Resources m)} else {})"
    and "r = Constant c \<Longrightarrow> v = c" and "Resources m' = Resources m"
proof -
  have upd: "snd ` set (AList.update k x l) \<subseteq> snd ` set l \<union> {x}" for k :: string and x :: nat and l
    by (induction l) auto
  show "pending m' \<subseteq> pending m \<union> (if \<exists>n a c. r = VariableAccountBalance n a c then {length (Resources m)} else {})"
  proof (cases r)
    case (VariableAccountBalance n a c)
    with assms have "UnresolvedResourceBalances m' = UnresolvedResourceBalances m \<or>
        (\<exists>k. UnresolvedResourceBalances m' =
          AList.update k (length (Resources m)) (UnresolvedResourceBalances m))"
      by (auto simp: resolve_resource_def Let_def result_simps split: option.split_asm val.split_asm)
    then have "pending m' \<subseteq> pending m \<union> {length (Resources m)}"
      using upd unfolding pending_def by fastforce
    with VariableAccountBalance show ?thesis by auto
  qed (use assms in \<open>auto simp: resolve_resource_def pending_def result_simps
        split: option.split_asm val.split_asm\<close>)
  show "r = Constant c \<Longrightarrow> v = c"
    using assms by (auto simp: resolve_resource_def result_simps)
  show "Resources m' = Resources m"
    using resolve_resource_facts(1) [OF assms] by auto
qed

lemma resolve_all_constants:
  assumes "resolve_all st rs m = Inr m'"
  shows "k < length rs \<Longrightarrow> rs ! k = Constant c \<Longrightarrow>
      Resources m' ! (length (Resources m) + k) = c \<and>
      (length (Resources m) + k \<in> pending m' \<longrightarrow> length (Resources m) + k \<in> pending m)"
    and "take (length (Resources m)) (Resources m') = Resources m"
    and "i < length (Resources m) \<Longrightarrow> i \<in> pending m' \<Longrightarrow> i \<in> pending m"
proof -
  have "(\<forall>k < length rs. rs ! k = Constant c \<longrightarrow> Resources m' ! (length (Resources m) + k) = c \<and>
      (length (Resources m) + k \<in> pending m' \<longrightarrow> length (Resources m) + k \<in> pending m)) \<and>
    take (length (Resources m)) (Resources m') = Resources m \<and>
    (\<forall>i < length (Resources m). i \<in> pending m' \<longrightarrow> i \<in> pending m)" for c
    using assms
  proof (induction rs arbitrary: m)
    case (Cons r rs)
    then obtain v m1 where r: "resolve_resource st r m = Inr (v, m1)"
      and rest: "resolve_all st rs (m1\<lparr>Resources := Resources m1 @ [v]\<rparr>) = Inr m'"
      by (auto simp: result_simps)
    note p = resolve_resource_pending [OF r]
    let ?n = "length (Resources m)"
    from Cons.IH [OF rest] p(3) have ih:
      "\<forall>k < length rs. rs ! k = Constant c \<longrightarrow> Resources m' ! (Suc ?n + k) = c \<and>
         (Suc ?n + k \<in> pending m' \<longrightarrow> Suc ?n + k \<in> pending m1)"
      "take (Suc ?n) (Resources m') = Resources m @ [v]"
      "\<forall>i < Suc ?n. i \<in> pending m' \<longrightarrow> i \<in> pending m1"
      by (simp_all add: pending_def)
    have v: "Resources m' ! ?n = v"
      using arg_cong [OF ih(2), of "\<lambda>l. l ! ?n"] by (simp add: nth_append)
    have t: "take ?n (Resources m') = Resources m"
      using arg_cong [OF ih(2), of "take ?n"] by simp
    have "Resources m' ! (?n + k) = c \<and> (?n + k \<in> pending m' \<longrightarrow> ?n + k \<in> pending m)"
      if "k < length (r # rs)" "(r # rs) ! k = Constant c" for k
    proof (cases k)
      case 0
      with that v p(2) ih(3) p(1) show ?thesis by auto
    next
      case (Suc j)
      with that ih(1) p(1) show ?thesis by (auto split: if_splits)
    qed
    moreover have "i \<in> pending m" if "i < ?n" "i \<in> pending m'" for i
      using subsetD [OF p(1), of i] that ih(3) by (auto split: if_splits)
    ultimately show ?case using t by blast
  qed simp
  then show "k < length rs \<Longrightarrow> rs ! k = Constant c \<Longrightarrow>
      Resources m' ! (length (Resources m) + k) = c \<and>
      (length (Resources m) + k \<in> pending m' \<longrightarrow> length (Resources m) + k \<in> pending m)"
    "take (length (Resources m)) (Resources m') = Resources m"
    "i < length (Resources m) \<Longrightarrow> i \<in> pending m' \<Longrightarrow> i \<in> pending m"
    by blast+
qed

text \<open>
  A machine that is ready to run a program: variables set from text, resources and balances
  resolved against a store.
\<close>

definition ready ::
    "vm_store \<Rightarrow> program \<Rightarrow> (string \<times> string) list \<Rightarrow> vm_machine vm_result" where
  "ready st p vars =
     bindr (SetVarsFromJSON (NewMachine p) vars) (\<lambda>m.
     bindr (ResolveResources st m) (ResolveBalances st))"

definition amounts_known :: "vm_machine \<Rightarrow> bool" where
  "amounts_known m \<longleftrightarrow> list_all val_ok (Resources m)"

lemma ResolveBalances_same:
  assumes "ResolveBalances st m = Inr m'"
  shows "map GetType (Resources m') = map GetType (Resources m)"
    "\<exists>rs b. m' = m\<lparr>Resources := rs, Balances := b\<rparr>"
    "Balances m' \<noteq> None"
proof -
  let ?m0 = "m\<lparr>Balances := Some (\<lambda>_. None)\<rparr>"
  from assms obtain assigned q where
    rest: "(if q = [] then Inr ?m0
       else bindr (map_error ErrStore (GetBalances st q)) (\<lambda>bs. load_balances assigned bs ?m0)) = Inr m'"
    by (auto simp: ResolveBalances_def Let_def result_simps)
  have "\<exists>T. loads T ?m0 m'"
  proof (cases "q = []")
    case True
    with rest loads_refl [of ?m0] show ?thesis by auto
  next
    case False
    with rest obtain bs where "load_balances assigned bs ?m0 = Inr m'" by (auto simp: result_simps)
    from load_balances_loads [OF this] show ?thesis by auto
  qed
  then obtain T where l: "loads T ?m0 m'" by blast
  then obtain rs b where "map GetType (Resources m') = map GetType (Resources m)"
    "m' = ?m0\<lparr>Resources := rs, Balances := b\<rparr>" "Balances m' \<noteq> None"
    by (auto simp: loads_def same_types_def)
  then show "map GetType (Resources m') = map GetType (Resources m)"
    "\<exists>rs b. m' = m\<lparr>Resources := rs, Balances := b\<rparr>" "Balances m' \<noteq> None"
    by auto
qed

lemma ready_facts:
  assumes "ready st p vars = Inr m" "distinct (map fst (declared (ProgResources p)))"
  shows "list_all2 (\<lambda>r v. GetType v = ResourceType r \<and> (\<forall>c. r = Constant c \<longrightarrow> v = c))
           (ProgResources p) (Resources m)"
    and "Program m = p" "UnresolvedResources m = ProgResources p" "Stack m = []" "Postings m = []"
      "TxMeta m = []" "AccountsMeta m = []" "PC m = 0" "Balances m \<noteq> None"
proof -
  from assms(1) obtain m1 m2 where m1: "SetVarsFromJSON (NewMachine p) vars = Inr m1"
    and m2: "ResolveResources st m1 = Inr m2" and m3: "ResolveBalances st m2 = Inr m"
    by (auto simp: ready_def bindr_eq_Inr)
  have typed: "vars_typed m1"
    using m1 assms(2) by (intro SetVarsFromJSON_typed) (auto simp: NewMachine_def)
  from m1 have f1: "\<exists>v. m1 = (NewMachine p)\<lparr>Vars := v\<rparr>" "Resources m1 = []"
    "UnresolvedResources m1 = ProgResources p" "pending m1 = {}"
    by (auto simp: SetVarsFromJSON_def NewMachine_def bindr_eq_Inr pending_def)
  obtain vs u where m2': "m2 = m1\<lparr>resolveCalled := True, Resources := vs, UnresolvedResourceBalances := u\<rparr>"
    and t: "list_all2 (\<lambda>r v. GetType v = ResourceType r) (ProgResources p) vs"
    using ResolveResources_facts [OF m2 typed f1(2)] f1(3) by metis
  have all: "resolve_all st (ProgResources p) (m1\<lparr>resolveCalled := True\<rparr>) = Inr m2"
    using m2 f1(2,3) by (auto simp: ResolveResources_def split: if_splits)
  note s = ResolveBalances_same [OF m3]
  have "Resources m ! i = c" if "i < length (ProgResources p)" "ProgResources p ! i = Constant c" for i c
  proof -
    from resolve_all_constants(1) [OF all that] f1(2,4)
    have "Resources m2 ! i = c" "i \<notin> pending m2" by (auto simp: pending_def)
    with ResolveBalances_other [OF m3] show ?thesis by simp
  qed
  moreover have "list_all2 (\<lambda>r v. GetType v = ResourceType r) (ProgResources p) (Resources m)"
  proof -
    have len: "length (Resources m) = length vs" using arg_cong [OF s(1), of length] by (simp add: m2')
    have "GetType (Resources m ! i) = GetType (vs ! i)" if "i < length vs" for i
      using arg_cong [OF s(1), of "\<lambda>l. l ! i"] that len by (simp add: m2')
    with t len show ?thesis by (simp add: list_all2_conv_all_nth)
  qed
  ultimately show "list_all2 (\<lambda>r v. GetType v = ResourceType r \<and> (\<forall>c. r = Constant c \<longrightarrow> v = c))
      (ProgResources p) (Resources m)"
    by (simp add: list_all2_conv_all_nth)
  show "Program m = p" "UnresolvedResources m = ProgResources p" "Stack m = []" "Postings m = []"
    "TxMeta m = []" "AccountsMeta m = []" "PC m = 0" "Balances m \<noteq> None"
    using s(2,3) f1(1) by (auto simp: m2' NewMachine_def)
qed

section \<open>Safety\<close>

lemma ready_checked:
  assumes "Compile s = Inr p" "tree_script s" "distinct (map fst (declared (ProgResources p)))"
    and "ready st p vars = Inr m" "amounts_known m"
  shows "checked_at (ProgResources p) [] m" "PC m < length (Instructions (Program m))"
    and "length (Resources m) = length (UnresolvedResources m)"
proof -
  note c = Compile_checked [OF assms(1,2)]
  note r = ready_facts [OF assms(4,3)]
  have len: "length (Resources m) = length (ProgResources p)"
    using list_all2_lengthD [OF r(1)] by simp
  have "storable_type (GetType v)" if "v \<in> set (Resources m)" for v
  proof -
    from that obtain i where i: "i < length (Resources m)" "v = Resources m ! i"
      by (auto simp: in_set_conv_nth)
    with len have "wf_resource (take i (ProgResources p)) (ProgResources p ! i)"
      using c(1) by (simp add: wf_resources_def)
    with wf_resource_storable list_all2_nthD2 [OF r(1) i(1)] i(2) show ?thesis by metis
  qed
  then have "resources_ok (ProgResources p) (Resources m)"
    using r(1) assms(5) by (simp add: resources_ok_def amounts_known_def list_all_iff)
  with c(3) r show "checked_at (ProgResources p) [] m"
    by (simp add: checked_at_def outputs_ok_def)
  show "PC m < length (Instructions (Program m))" using c(2) r by simp
  show "length (Resources m) = length (UnresolvedResources m)" using len r by simp
qed

lemma compiled_run:
  assumes "Compile s = Inr p" "tree_script s" "distinct (map fst (declared (ProgResources p)))"
    and "ready st p vars = Inr m" "amounts_known m"
  shows "Execute m \<noteq> Inl Panic" "Execute m = Inr m' \<Longrightarrow> outputs_ok m'"
    "Run m md \<noteq> Inl Panic"
    "Run m md = Inr res \<Longrightarrow> list_all (\<lambda>q. mi_nonneg (vp_Amount q)) (res_Postings res)"
proof -
  note c = ready_checked [OF assms]
  note x = checked_run [OF c(1,2)]
  show e: "Execute m \<noteq> Inl Panic" using x by (simp add: Execute_def raise_def)
  show o: "outputs_ok m'" if "Execute m = Inr m'" for m'
    using that x by (simp add: Execute_def raise_def split: if_splits)
  have mm: "merge_metadata l meta \<noteq> Inl Panic" for l meta
    by (induction l meta rule: merge_metadata.induct) (auto simp: raise_def)
  show "Run m md \<noteq> Inl Panic"
  proof (cases "Execute m")
    case (Inl err)
    with e show ?thesis by (simp add: Run_def)
  next
    case (Inr m1)
    with o outputs_printable obtain t a where "GetTxMetaJSON m1 = Inr t" "GetAccountsMetaJSON m1 = Inr a"
      by metis
    with Inr mm show ?thesis by (auto simp: Run_def bindr_eq_Inl)
  qed
  show "list_all (\<lambda>q. mi_nonneg (vp_Amount q)) (res_Postings res)" if "Run m md = Inr res"
  proof -
    from that obtain m1 where "Execute m = Inr m1" "res_Postings res = Postings m1"
      by (auto simp: Run_def bindr_eq_Inr)
    with o show ?thesis by (simp add: outputs_ok_def)
  qed
qed

text \<open>
  Claim C1. A script that compiles cannot crash the machine. When the parse tree obeys the grammar,
  the variables have distinct names, the resources and balances are resolved and every resolved
  amount is known, running the program either succeeds or returns an error of the machine: no stack
  underflow, no value of a wrong type, no nil amount, no index out of range, no unprintable
  metadata and nothing left on the stack. If it succeeds, no posting has a negative amount.
\<close>

theorem compiled_scripts_run_safely:
  assumes "Compile s = Inr p" "tree_script s" "distinct (map fst (declared (ProgResources p)))"
    and "ready st p vars = Inr m" "amounts_known m"
  shows "Run m md \<noteq> Inl Panic \<and>
    (\<forall>res. Run m md = Inr res \<longrightarrow> list_all (\<lambda>q. mi_nonneg (vp_Amount q)) (res_Postings res))"
  using compiled_run(3,4) [OF assms] by blast

text \<open>The witness: \<open>send [COIN 3] (source = @a destination = @b)\<close>, with 10 coins at \<open>@a\<close>.\<close>

definition send_script :: script where
  "send_script = \<lparr>script_vars = None, script_stmts =
     [Send (Mon (ExprLiteral (LitMonetary (ExprLiteral (LitAsset ''COIN'')) ''3'')))
        (Src (SrcAccount (ExprLiteral (LitAccount ''@a'')) None))
        (DestAccount (ExprLiteral (LitAccount ''@b'')))]\<rparr>"

definition send_program :: program where
  "send_program = \<lparr>Instructions =
       [1, 2, 0, 1, 1, 0, 8, 1, 3, 0, 9, 13, 1, 1, 0, 15, 1, 4, 0, 2, 20, 18, 15, 1, 5, 0, 22, 20],
     ProgResources = [Constant (VAsset ''COIN''), MonetaryRes 0 (Some 3), Constant (VAccount ''a''),
       Constant (VNumber (Some 0)), Constant (VNumber (Some 1)), Constant (VAccount ''b'')],
     NeededBalances = [(2, [1])]\<rparr>"

lemmas compile_simps = Compile_def VisitScript_def new_visitor_def VisitSend_def VisitMonetary_def
  VisitMonetaryAll_def
  visit_constant_def visit_monetary_def AllocateResource_def append_resource_def VisitSourceAccount_def
  zero_monetary_def PushInteger_def PushAddress_def AppendInstruction_def isWorld_def note_sources_def
  add_all_def isOverdraftUnbounded_def TakeFromSource_def Bump_def VisitDestination_def Let_def
  ParseMonetaryInt_def ToBytes_def parse_int_def all_digits_def digits_value_def char_class_defs

lemma send_compiles: "Compile send_script = Inr send_program"
  by (simp add: compile_simps send_script_def send_program_def)

definition send_store :: vm_store where
  "send_store = StaticStore [(''a'', [], [(''COIN'', 10)])]"

lemma send_ready:
  "\<exists>m. ready send_store send_program [] = Inr m \<and>
     m = (NewMachine send_program)\<lparr>
       resolveCalled := True,
       Resources := [VAsset ''COIN'', VMonetary \<lparr>mon_Asset = ''COIN'', mon_Amount = Some 3\<rparr>,
         VAccount ''a'', VNumber (Some 0), VNumber (Some 1), VAccount ''b''],
       Balances := Some [''a'' \<mapsto> [''COIN'' \<mapsto> 10]]\<rparr>"
  by (simp add: ready_def SetVarsFromJSON_def NewMachine_def send_program_def ParseVariablesJSON_def
      no_extraneous_def ResolveResources_def resolve_resource_def CallGetType_def getResource_def
      ResolveBalances_def send_store_def StaticStore_def add_query_def assign_balance_def
      track_balance_def)

definition send_ready_machine :: vm_machine where
  "send_ready_machine = (NewMachine send_program)\<lparr>
       resolveCalled := True,
       Resources := [VAsset ''COIN'', VMonetary \<lparr>mon_Asset = ''COIN'', mon_Amount = Some 3\<rparr>,
         VAccount ''a'', VNumber (Some 0), VNumber (Some 1), VAccount ''b''],
       Balances := Some [''a'' \<mapsto> [''COIN'' \<mapsto> 10]]\<rparr>"

lemma send_ready_Inr: "ready send_store send_program [] = Inr send_ready_machine"
  using send_ready by (simp add: send_ready_machine_def)

lemma send_runs:
  "\<exists>res. Run send_ready_machine [] = Inr res \<and> res_Postings res =
     [\<lparr>vp_Source = ''a'', vp_Destination = ''b'', vp_Amount = Some 3, vp_Asset = ''COIN''\<rparr>]"
  by (simp add: Run_def Execute_def send_ready_machine_def NewMachine_def send_program_def run_simps
      GetTxMetaJSON_def GetAccountsMetaJSON_def Total_def)

theorem compiled_scripts_run_safely_witness:
  "\<exists>p m res. Compile send_script = Inr p \<and> ready send_store p [] = Inr m \<and> Run m [] = Inr res \<and>
     res_Postings res \<noteq> [] \<and> list_all (\<lambda>q. mi_nonneg (vp_Amount q)) (res_Postings res)"
proof -
  have t: "tree_script send_script" "distinct (map fst (declared (ProgResources send_program)))"
    "amounts_known send_ready_machine"
    by (simp_all add: send_script_def tree_script_def slice_def send_program_def amounts_known_def
        send_ready_machine_def)
  from compiled_scripts_run_safely [OF send_compiles t(1,2) send_ready_Inr t(3)] send_runs
  show ?thesis using send_compiles send_ready_Inr by fastforce
qed

section \<open>Conservation\<close>

lemma checked_discards:
  assumes "check_op rs op S = Some S'" "stack_ok R S vs" "resources_ok rs R" "v \<in> set (discards op vs)"
  shows "GetType v \<noteq> TypeFunding"
proof (cases op)
  case OP_PRINT
  with assms show ?thesis
    by (cases S) (auto simp: stack_ok_Cons split: if_splits dest: matches_type)
next
  case OP_ASSET
  with assms show ?thesis
    by (cases S) (auto simp: stack_ok_Cons split: if_splits dest: matches_type)
next
  case OP_TX_META
  with assms show ?thesis
    by (cases S; cases "tl S")
      (auto simp: stack_ok_Cons storable_type_def split: if_splits dest: matches_type)
next
  case OP_ACCOUNT_META
  with assms show ?thesis
    by (cases S; cases "tl S"; cases "tl (tl S)")
      (auto simp: stack_ok_Cons storable_type_def split: if_splits dest: matches_type)
qed (use assms(4) in simp_all)

lemma checked_throws_nothing:
  assumes "steps m ls m'" "checked_at rs S m"
  shows "thrown_away a c ls = 0"
  using assms
proof (induction arbitrary: S rule: steps.induct)
  case (steps_tick m fin m1 op ls m')
  from tick_op [OF steps_tick(1)] have len: "PC m < length (Instructions (Program m))"
    using steps_tick(1) by (auto simp: tick_def split: if_splits)
  from checked_tick(2) [OF steps_tick.prems len steps_tick(1)] obtain S' where "checked_at rs S' m1" by blast
  from steps_tick.IH [OF this] have ih: "thrown_away a c ls = 0" .
  have "GetType v \<noteq> TypeFunding" if "v \<in> set (discards op (Stack m))" for v
  proof (cases "op = OP_APUSH")
    case False
    have "drop (PC m) (Instructions (Program m)) =
        Instructions (Program m) ! PC m # drop (Suc (PC m)) (Instructions (Program m))"
      using len by (rule Cons_nth_drop_Suc [symmetric])
    with steps_tick.prems steps_tick(2) False obtain S'' where "check_op rs op S = Some S''"
      by (auto simp: checked_at_def split: option.splits)
    with steps_tick.prems that show ?thesis using checked_discards by (auto simp: checked_at_def)
  qed (use that in simp)
  then have "on_stack a c (discards op (Stack m)) = 0"
    by (intro on_stack_nonfunding) (simp add: list_all_iff)
  with ih show ?case by (simp add: thrown_away_def)
qed (simp add: thrown_away_def)

text \<open>
  Claim C2. A compiled script conserves money. When it runs to its end and saves nothing, the
  tracked balance of every account but the world is what it was at the start plus what the postings
  brought to the account less what they took from it: the compiler emits no code that throws a
  funding away.
\<close>

theorem compiled_scripts_conserve:
  assumes "Compile s = Inr p" "tree_script s" "distinct (map fst (declared (ProgResources p)))"
    and "ready st p vars = Inr m" "amounts_known m" "Execute m = Inr m'"
    and "a \<noteq> ''world''" "balance_of m a c = Some b" "OP_SAVE \<notin> fst ` set (run_log m)"
  shows "balance_of m' a c = Some (b + net_received a c (Postings m'))"
proof -
  note k = ready_checked [OF assms(1-5)]
  note r = ready_facts [OF assms(4,3)]
  have nf: "no_funding_resource m"
    using k(1) by (auto simp: checked_at_def resources_ok_def no_funding_resource_def list_all_iff
        storable_type_def)
  have t: "tracked m a c" by (simp add: tracked_def assms(8))
  note st = Execute_steps [OF assms(6)]
  from position_run [OF st(1) nf assms(7) t assms(9)] checked_throws_nothing [OF st(1) k(1)] st(2) r assms(8)
  show ?thesis by (auto simp: position_def tracked_def net_received_def)
qed

lemma send_executes:
  "\<exists>m'. Execute send_ready_machine = Inr m' \<and> balance_of send_ready_machine ''a'' ''COIN'' = Some 10 \<and>
     Postings m' = [\<lparr>vp_Source = ''a'', vp_Destination = ''b'', vp_Amount = Some 3, vp_Asset = ''COIN''\<rparr>]"
  "OP_SAVE \<notin> fst ` set (run_log send_ready_machine)"
  by (simp_all add: Execute_def send_ready_machine_def NewMachine_def send_program_def run_simps Total_def)

theorem compiled_scripts_conserve_witness:
  "\<exists>m'. Execute send_ready_machine = Inr m' \<and> balance_of m' ''a'' ''COIN'' = Some 7"
proof -
  have t: "tree_script send_script" "distinct (map fst (declared (ProgResources send_program)))"
    "amounts_known send_ready_machine"
    by (simp_all add: send_script_def tree_script_def slice_def send_program_def amounts_known_def
        send_ready_machine_def)
  from send_executes(1) obtain m' where m': "Execute send_ready_machine = Inr m'"
    "balance_of send_ready_machine ''a'' ''COIN'' = Some 10"
    "Postings m' = [\<lparr>vp_Source = ''a'', vp_Destination = ''b'', vp_Amount = Some 3, vp_Asset = ''COIN''\<rparr>]"
    by blast
  have "''a'' \<noteq> ''world''" by simp
  from compiled_scripts_conserve [OF send_compiles t(1,2) send_ready_Inr t(3) m'(1) this m'(2) send_executes(2)]
  have "balance_of m' ''a'' ''COIN'' = Some 7" by (simp add: m'(3) net_received_def)
  with m'(1) show ?thesis by blast
qed

section \<open>Saving a sum\<close>

text \<open>Visiting an expression without pushing it appends no code.\<close>

lemma AllocateResource_instructions:
  "AllocateResource r p = Inr (a, p') \<Longrightarrow> instructions p' = instructions p"
  by (auto simp: AllocateResource_def append_resource_def raise_def
      split: resource.splits option.splits if_splits)

lemma VisitExpr_silent:
  "VisitExpr e b p = Inr (x, p') \<Longrightarrow> \<not> b \<Longrightarrow> instructions p' = instructions p"
  "VisitLit l b p = Inr (x, p') \<Longrightarrow> \<not> b \<Longrightarrow> instructions p' = instructions p"
proof (induction e b p and l b p arbitrary: x p' and x p' rule: VisitExpr_VisitLit.induct)
  case (1 lhs op rhs b p)
  from "1.prems"(1) obtain lt la p1 where l: "VisitExpr lhs b p = Inr ((lt, la), p1)"
    by (auto simp: result_simps)
  with "1.prems"(1) obtain y p2 where r: "VisitExpr rhs b p1 = Inr (y, p2)"
    and p': "p' = p2" and lt: "lt = TypeNumber \<or> lt = TypeMonetary"
    using "1.prems"(2) by (auto simp: result_simps arith_code_def split: if_splits)
  have "instructions p2 = instructions p1"
    using "1.IH"(2,3) r lt "1.prems"(2) by (auto split: if_splits)
  with "1.IH"(1) [OF l "1.prems"(2)] p' show ?case by simp
next
  case (3 v b p)
  then show ?case by (auto simp: VisitVariable_def raise_def split: option.splits if_splits)
next
  case (9 asset amt b p)
  from "9.prems"(1) obtain t a p1 where e: "VisitExpr asset False p = Inr ((t, a), p1)"
    by (auto simp: result_simps)
  with "9.prems"(1) obtain aa n where m: "visit_monetary aa n b p1 = Inr (x, p')"
    by (auto simp: raise_def split: if_splits sum.splits option.splits)
  then have "instructions p' = instructions p1"
    using "9.prems"(2) by (auto simp: visit_monetary_def bindr_eq_Inr dest: AllocateResource_instructions
        split: option.splits)
  with "9.IH" [OF e] show ?case by simp
qed (auto simp: visit_constant_def bindr_eq_Inr raise_def dest: AllocateResource_instructions
      split: sum.splits option.splits)

lemma push_address_of_code:
  assumes "push_address_of e t p = Inr p'"
  obtains a p1 where "VisitExpr e False p = Inr ((t, Some a), p1)"
    "instructions p' = instructions p @ [1] @ ToBytes a"
proof -
  from assms obtain a p1 where a: "VisitExpr e False p = Inr ((t, Some a), p1)" "p' = PushAddress a p1"
    by (auto simp: push_address_of_def bindr_eq_Inr raise_def split: if_splits option.splits)
  with VisitExpr_silent(1) [OF a(1)] that show ?thesis by (simp add: PushAddress_def)
qed

text \<open>
  Saving a sum or a difference saves its left operand only: the code of
  \<open>save l + r from acc\<close> is one push of the address of \<open>l\<close>, one of the account and the
  instruction, and no addition. The machine therefore saves \<open>l\<close>.
\<close>

lemma save_of_a_sum_saves_the_left_operand:
  assumes "VisitSaveFromAccount (Mon (ExprAddSub l op r)) acc p = Inr p'"
  shows "\<exists>a b p1. VisitExpr l False p = Inr ((TypeMonetary, Some a), p1) \<and>
    instructions p' = instructions p @ [1] @ ToBytes a @ [1] @ ToBytes b @ [opcode_byte OP_SAVE]"
proof -
  from assms obtain p2 p3 where m: "push_address_of (ExprAddSub l op r) TypeMonetary p = Inr p2"
    and a: "push_address_of acc TypeAccount p2 = Inr p3" and p': "p' = AppendInstruction OP_SAVE p3"
    by (auto simp: VisitSaveFromAccount_def bindr_eq_Inr)
  from m obtain x q where x: "VisitExpr (ExprAddSub l op r) False p = Inr ((TypeMonetary, Some x), q)"
    "instructions p2 = instructions p @ [1] @ ToBytes x" by (rule push_address_of_code)
  from a obtain y q2 where y: "instructions p3 = instructions p2 @ [1] @ ToBytes y"
    by (rule push_address_of_code)
  from x(1) have "\<exists>p1. VisitExpr l False p = Inr ((TypeMonetary, Some x), p1)"
    by (auto simp: result_simps split: if_splits)
  with x(2) y show ?thesis by (auto simp: p' AppendInstruction_def)
qed

end
