(* ===== verification/Nested_Maps.thy ===== *)
theory Nested_Maps
  imports Ledger_Prelude
begin

text \<open>
  Maps of maps, as Go code keeps them (\<open>map[string]map[string]T\<close>): lookup, assignment that makes
  the inner map when it is missing, and the flat list of their entries. A loop that maps a
  fallible function over a slice.
\<close>

section \<open>Fallible maps over slices\<close>

fun mapr :: "('a \<Rightarrow> ('e, 'b) result) \<Rightarrow> 'a list \<Rightarrow> ('e, 'b list) result" where
  "mapr f [] = Inr []"
| "mapr f (x # xs) = bindr (f x) (\<lambda>y. bindr (mapr f xs) (\<lambda>ys. Inr (y # ys)))"

lemma mapr_total: "(\<And>x. x \<in> set xs \<Longrightarrow> f x = Inr (g x)) \<Longrightarrow> mapr f xs = Inr (map g xs)"
  by (induction xs) auto

lemma mapr_Inr: "mapr f xs = Inr ys \<Longrightarrow> list_all2 (\<lambda>x y. f x = Inr y) xs ys"
  by (induction xs arbitrary: ys) (auto simp: result_simps)

section \<open>Maps of maps\<close>

type_synonym ('a, 'b, 'c) nested = "('a \<times> ('b \<times> 'c) list) list"

definition inner :: "('a, 'b, 'c) nested \<Rightarrow> 'a \<Rightarrow> ('b \<times> 'c) list" where
  "inner m a = (case map_of m a of None \<Rightarrow> [] | Some l \<Rightarrow> l)"

definition nget :: "('a, 'b, 'c) nested \<Rightarrow> 'a \<Rightarrow> 'b \<Rightarrow> 'c option" where
  "nget m a b = map_of (inner m a) b"

definition nput :: "'a \<Rightarrow> 'b \<Rightarrow> 'c \<Rightarrow> ('a, 'b, 'c) nested \<Rightarrow> ('a, 'b, 'c) nested" where
  "nput a b x m = AList.update a (AList.update b x (inner m a)) m"

text \<open>The maps have distinct keys, as Go maps do.\<close>

definition nkeys :: "('a, 'b, 'c) nested \<Rightarrow> bool" where
  "nkeys m \<longleftrightarrow> distinct (map fst m) \<and> (\<forall>(a, l) \<in> set m. distinct (map fst l))"

lemma nget_Nil [simp]: "nget [] a b = None"
  by (simp add: nget_def inner_def)

lemma nget_nput [simp]:
  "nget (nput a b x m) a' b' = (if a' = a \<and> b' = b then Some x else nget m a' b')"
  by (simp add: nget_def nput_def inner_def alist_simps)

lemma nkeys_Nil [simp]: "nkeys []"
  by (simp add: nkeys_def)

lemma set_AList_update: "set (AList.update k v al) \<subseteq> insert (k, v) (set al)"
  by (induction al) auto

lemma nkeys_inner: "nkeys m \<Longrightarrow> distinct (map fst (inner m a))"
  by (auto simp: nkeys_def inner_def split: option.splits dest!: map_of_SomeD)

lemma nkeys_nput [simp]:
  assumes "nkeys m"
  shows "nkeys (nput a b x m)"
proof -
  have d: "distinct (map fst (AList.update b x (inner m a)))"
    by (rule distinct_keys_update) (rule nkeys_inner [OF assms])
  have "distinct (map fst l)" if "(a', l) \<in> set (nput a b x m)" for a' l
  proof -
    from that have "(a', l) \<in> insert (a, AList.update b x (inner m a)) (set m)"
      using set_AList_update unfolding nput_def by (rule rev_subsetD)
    with d assms show ?thesis by (auto simp: nkeys_def)
  qed
  moreover have "distinct (map fst (nput a b x m))"
    using assms unfolding nkeys_def nput_def by (intro distinct_keys_update) blast
  ultimately show ?thesis unfolding nkeys_def by blast
qed

text \<open>The entries, one after the other.\<close>

definition entries :: "('a, 'b, 'c) nested \<Rightarrow> ('a \<times> 'b \<times> 'c) list" where
  "entries m = concat (map (\<lambda>(a, l). map (\<lambda>(b, x). (a, b, x)) l) m)"

lemma entries_nget:
  assumes "nkeys m"
  shows "(a, b, x) \<in> set (entries m) \<longleftrightarrow> nget m a b = Some x"
proof -
  have "(a, b, x) \<in> set (entries m) \<longleftrightarrow> (\<exists>l. (a, l) \<in> set m \<and> (b, x) \<in> set l)"
    by (auto simp: entries_def)
  also have "\<dots> \<longleftrightarrow> (\<exists>l. map_of m a = Some l \<and> map_of l b = Some x)"
    using assms by (fastforce simp: nkeys_def dest: map_of_SomeD intro: map_of_is_SomeI)
  also have "\<dots> \<longleftrightarrow> nget m a b = Some x"
    by (auto simp: nget_def inner_def split: option.splits)
  finally show ?thesis .
qed

lemma entries_distinct:
  assumes "nkeys m"
  shows "distinct (map (\<lambda>(a, b, x). (a, b)) (entries m))"
  using assms
proof (induction m)
  case (Cons p m)
  obtain a l where p: "p = (a, l)" by (cases p)
  have k: "nkeys m" "distinct (map fst l)" "a \<notin> fst ` set m"
    using Cons.prems by (auto simp: nkeys_def p)
  let ?E = "map (\<lambda>(a, b, x). (a, b)) (entries m)"
  have e: "map (\<lambda>(a, b, x). (a, b)) (entries (p # m)) = map (Pair a) (map fst l) @ ?E"
    by (auto simp: entries_def p)
  have "distinct (map (Pair a) (map fst l))"
    using k(2) by (simp add: distinct_map inj_on_def)
  moreover have "a' \<in> fst ` set m" if "(a', b', x') \<in> set (entries m)" for a' b' x'
    using that by (force simp: entries_def)
  then have "set (map (Pair a) (map fst l)) \<inter> set ?E = {}" using k(3) by auto
  ultimately show ?case unfolding e distinct_append using Cons.IH [OF k(1)] by blast
qed (simp add: entries_def)

text \<open>A map is empty exactly when nothing was put.\<close>

lemma nput_not_Nil [simp]: "nput a b x m \<noteq> []"
  by (cases m) (auto simp: nput_def)

lemma nget_not_Nil: "nget m a b \<noteq> None \<Longrightarrow> m \<noteq> []"
  by auto

end
