(* ===== verification/Ledger_Core.thy ===== *)
theory Ledger_Core
  imports Nested_Maps Accounts_Assets "HOL-Library.List_Lexorder" "HOL-Library.Char_ord"
    "HOL-Library.Product_Lexorder"
begin

text \<open>
  The data of the ledger: postings, volumes, transactions and moves (\<open>internal/posting.go\<close>,
  \<open>volumes.go\<close>, \<open>transaction.go\<close>, \<open>moves.go\<close>, \<open>account.go\<close>), and what their operations do to
  money: a transaction's volume updates are its postings summed by account and asset, inputs and
  outputs balance, and subtracting the postings gives the volumes before them.
\<close>

section \<open>Postings\<close>

text \<open>An amount is a pointer: \<open>None\<close> is nil.\<close>

record posting =
  p_Source :: string
  p_Destination :: string
  p_Amount :: "int option"
  p_Asset :: string

definition NewPosting :: "string \<Rightarrow> string \<Rightarrow> string \<Rightarrow> int option \<Rightarrow> posting" where
  "NewPosting source destination asset n =
     \<lparr>p_Source = source, p_Destination = destination, p_Amount = n, p_Asset = asset\<rparr>"

definition swap_posting :: "posting \<Rightarrow> posting" where
  "swap_posting p = p\<lparr>p_Source := p_Destination p, p_Destination := p_Source p\<rparr>"

definition Postings_Reverse :: "posting list \<Rightarrow> posting list" where
  "Postings_Reverse ps = rev (map swap_posting ps)"

datatype posting_error = NoAmount | NegativeAmount | InvalidSource | InvalidDestination | InvalidAsset

text \<open>The index and the error of the first posting that is not valid.\<close>

fun Postings_Validate :: "nat \<Rightarrow> posting list \<Rightarrow> (nat \<times> posting_error, unit) result" where
  "Postings_Validate i [] = Inr ()"
| "Postings_Validate i (p # ps) =
     (case p_Amount p of
        None \<Rightarrow> raise (i, NoAmount)
      | Some n \<Rightarrow>
          if n < 0 then raise (i, NegativeAmount)
          else if \<not> ValidateAddress (p_Source p) then raise (i, InvalidSource)
          else if \<not> ValidateAddress (p_Destination p) then raise (i, InvalidDestination)
          else if \<not> assets_IsValid (p_Asset p) then raise (i, InvalidAsset)
          else Postings_Validate (Suc i) ps)"

text \<open>What is valid, and how much of an asset postings bring to an account and take from it.\<close>

definition valid_posting :: "posting \<Rightarrow> bool" where
  "valid_posting p \<longleftrightarrow> (\<exists>n. p_Amount p = Some n \<and> 0 \<le> n) \<and> ValidateAddress (p_Source p) \<and>
     ValidateAddress (p_Destination p) \<and> assets_IsValid (p_Asset p)"

definition has_amount :: "posting \<Rightarrow> bool" where
  "has_amount p \<longleftrightarrow> p_Amount p \<noteq> None"

definition amt :: "posting \<Rightarrow> int" where
  "amt p = (case p_Amount p of None \<Rightarrow> 0 | Some n \<Rightarrow> n)"

definition received :: "string \<Rightarrow> string \<Rightarrow> posting list \<Rightarrow> int" where
  "received a c ps = sum_list (map (\<lambda>p. if p_Destination p = a \<and> p_Asset p = c then amt p else 0) ps)"

definition sent :: "string \<Rightarrow> string \<Rightarrow> posting list \<Rightarrow> int" where
  "sent a c ps = sum_list (map (\<lambda>p. if p_Source p = a \<and> p_Asset p = c then amt p else 0) ps)"

definition involves :: "posting \<Rightarrow> string \<Rightarrow> string \<Rightarrow> bool" where
  "involves p a c \<longleftrightarrow> p_Asset p = c \<and> (p_Source p = a \<or> p_Destination p = a)"

lemma received_simps [simp]:
  "received a c [] = 0"
  "received a c (p # ps) = (if p_Destination p = a \<and> p_Asset p = c then amt p else 0) + received a c ps"
  "received a c (ps @ qs) = received a c ps + received a c qs"
  by (simp_all add: received_def)

lemma sent_simps [simp]:
  "sent a c [] = 0"
  "sent a c (p # ps) = (if p_Source p = a \<and> p_Asset p = c then amt p else 0) + sent a c ps"
  "sent a c (ps @ qs) = sent a c ps + sent a c qs"
  by (simp_all add: sent_def)

lemma swap_posting_simps [simp]:
  "p_Source (swap_posting p) = p_Destination p" "p_Destination (swap_posting p) = p_Source p"
  "p_Amount (swap_posting p) = p_Amount p" "p_Asset (swap_posting p) = p_Asset p"
  "swap_posting (swap_posting p) = p" "amt (swap_posting p) = amt p"
  by (simp_all add: swap_posting_def amt_def)

lemma not_involved:
  "\<not> (\<exists>p \<in> set ps. involves p a c) \<Longrightarrow> received a c ps = 0 \<and> sent a c ps = 0"
  by (induction ps) (auto simp: involves_def)

lemma reverse_received: "received a c (Postings_Reverse ps) = sent a c ps"
  and reverse_sent: "sent a c (Postings_Reverse ps) = received a c ps"
  by (induction ps) (auto simp: Postings_Reverse_def)

lemma reverse_reverse: "Postings_Reverse (Postings_Reverse ps) = ps"
  by (simp add: Postings_Reverse_def rev_map [symmetric] o_def)

lemma Postings_Validate_ok: "Postings_Validate i ps = Inr () \<longleftrightarrow> list_all valid_posting ps"
  by (induction i ps rule: Postings_Validate.induct) (auto simp: valid_posting_def split: option.splits)

lemma Validate_step:
  "valid_posting p \<Longrightarrow> Postings_Validate i (p # ps) = Postings_Validate (Suc i) ps"
  "\<not> valid_posting p \<Longrightarrow> \<exists>e. Postings_Validate i (p # ps) = Inl (Raised (i, e))"
  by (auto simp: valid_posting_def raise_def split: option.splits)

lemma Postings_Validate_first:
  "Postings_Validate i ps = Inl x \<Longrightarrow>
     \<exists>j e. x = Raised (i + j, e) \<and> j < length ps \<and> list_all valid_posting (take j ps) \<and>
       \<not> valid_posting (ps ! j)"
proof (induction ps arbitrary: i)
  case (Cons p ps)
  show ?case
  proof (cases "valid_posting p")
    case True
    with Cons.prems have "Postings_Validate (Suc i) ps = Inl x" by (simp only: Validate_step)
    from Cons.IH [OF this] obtain j e where "x = Raised (Suc i + j, e)" "j < length ps"
      "list_all valid_posting (take j ps)" "\<not> valid_posting (ps ! j)" by blast
    with True show ?thesis by (intro exI [of _ "Suc j"] exI [of _ e]) simp
  next
    case False
    with Validate_step(2) [OF False, of i ps] Cons.prems obtain e where "x = Raised (i, e)" by auto
    with False show ?thesis by (intro exI [of _ 0] exI [of _ e]) simp
  qed
qed simp

section \<open>Volumes\<close>

text \<open>
  Volumes read from the store or made by \<open>NewEmptyVolumes\<close> have no nil field; the zero value of the
  struct, which a lookup of a missing key gives, has two, and copying it panics.
\<close>

record volumes =
  v_Input :: int
  v_Output :: int

definition NewVolumesInt64 :: "int \<Rightarrow> int \<Rightarrow> volumes" where
  "NewVolumesInt64 input output = \<lparr>v_Input = input, v_Output = output\<rparr>"

definition NewEmptyVolumes :: volumes where
  "NewEmptyVolumes = NewVolumesInt64 0 0"

definition Volumes_Balance :: "volumes \<Rightarrow> int" where
  "Volumes_Balance v = v_Input v - v_Output v"

definition Volumes_Value :: "volumes \<Rightarrow> string" where
  "Volumes_Value v = ''('' @ show_int (v_Input v) @ '', '' @ show_int (v_Output v) @ '')''"

definition Volumes_Scan :: "string \<Rightarrow> (string, volumes) result" where
  "Volumes_Scan s =
     (if length s < 2 then panic
      else case split_on CHR '','' (butlast (tl s)) of
        i # rest \<Rightarrow>
          (case parse_int i of
             None \<Rightarrow> raise ''unable to parse input''
           | Some input \<Rightarrow>
               (case rest of
                  [] \<Rightarrow> panic
                | out # _ \<Rightarrow>
                    (case parse_int out of
                       None \<Rightarrow> raise ''unable to parse output''
                     | Some output \<Rightarrow> Inr \<lparr>v_Input = input, v_Output = output\<rparr>)))
      | [] \<Rightarrow> panic)"

type_synonym volumes_by_assets = "(string \<times> volumes) list"
type_synonym post_commit_volumes = "(string, string, volumes) nested"

definition Balances_by_assets :: "volumes_by_assets \<Rightarrow> (string \<times> int) list" where
  "Balances_by_assets v = map (\<lambda>(asset, vv). (asset, Volumes_Balance vv)) v"

definition AddInput :: "string \<Rightarrow> string \<Rightarrow> int \<Rightarrow> post_commit_volumes \<Rightarrow> ('e, post_commit_volumes) result" where
  "AddInput account asset n a =
     (case nget a account asset of
        None \<Rightarrow> panic
      | Some v \<Rightarrow> Inr (nput account asset (v\<lparr>v_Input := v_Input v + n\<rparr>) a))"

definition AddOutput :: "string \<Rightarrow> string \<Rightarrow> int \<Rightarrow> post_commit_volumes \<Rightarrow> ('e, post_commit_volumes) result" where
  "AddOutput account asset n a =
     (case nget a account asset of
        None \<Rightarrow> panic
      | Some v \<Rightarrow> Inr (nput account asset (v\<lparr>v_Output := v_Output v + n\<rparr>) a))"

fun subtract_loop :: "posting list \<Rightarrow> post_commit_volumes \<Rightarrow> ('e, post_commit_volumes) result" where
  "subtract_loop [] ret = Inr ret"
| "subtract_loop (p # ps) ret =
     (case p_Amount p of
        None \<Rightarrow> panic
      | Some n \<Rightarrow>
          bindr (AddOutput (p_Source p) (p_Asset p) (- n) ret) (\<lambda>ret.
          bindr (AddInput (p_Destination p) (p_Asset p) (- n) ret) (subtract_loop ps)))"

definition SubtractPostings :: "post_commit_volumes \<Rightarrow> posting list \<Rightarrow> ('e, post_commit_volumes) result" where
  "SubtractPostings a ps = (if a = [] then Inr [] else subtract_loop ps a)"

definition merge_asset :: "string \<Rightarrow> string \<times> volumes \<Rightarrow> post_commit_volumes \<Rightarrow> post_commit_volumes" where
  "merge_asset account = (\<lambda>(asset, v) a.
     let w = (case nget a account asset of None \<Rightarrow> NewEmptyVolumes | Some w \<Rightarrow> w) in
     nput account asset \<lparr>v_Input = v_Input w + v_Input v, v_Output = v_Output w + v_Output v\<rparr> a)"

fun Merge :: "post_commit_volumes \<Rightarrow> post_commit_volumes \<Rightarrow> post_commit_volumes" where
  "Merge a [] = a"
| "Merge a ((account, by_assets) # vs) =
     Merge (fold (merge_asset account) by_assets
              (if map_of a account = None then AList.update account [] a else a)) vs"

text \<open>Taking postings away from volumes undoes what they added.\<close>

definition less_postings :: "posting list \<Rightarrow> string \<Rightarrow> string \<Rightarrow> volumes \<Rightarrow> volumes" where
  "less_postings ps a c v = \<lparr>v_Input = v_Input v - received a c ps, v_Output = v_Output v - sent a c ps\<rparr>"

definition covers :: "post_commit_volumes \<Rightarrow> posting list \<Rightarrow> bool" where
  "covers m ps \<longleftrightarrow> (\<forall>p \<in> set ps. nget m (p_Source p) (p_Asset p) \<noteq> None \<and>
     nget m (p_Destination p) (p_Asset p) \<noteq> None)"

lemma AddOutput_Some:
  "nget m a c = Some v \<Longrightarrow> AddOutput a c n m = Inr (nput a c (v\<lparr>v_Output := v_Output v + n\<rparr>) m)"
  by (simp add: AddOutput_def)

lemma AddInput_Some:
  "nget m a c = Some v \<Longrightarrow> AddInput a c n m = Inr (nput a c (v\<lparr>v_Input := v_Input v + n\<rparr>) m)"
  by (simp add: AddInput_def)

lemma subtract_loop_spec:
  "list_all has_amount ps \<Longrightarrow> covers m ps \<Longrightarrow> \<exists>m'. subtract_loop ps m = (Inr m' :: ('e, _) result) \<and>
     (\<forall>a c. nget m' a c = map_option (less_postings ps a c) (nget m a c))"
proof (induction ps arbitrary: m)
  case Nil
  have "less_postings [] a c = (\<lambda>v. v)" for a c by (auto simp: less_postings_def)
  then show ?case by (simp add: option.map_ident)
next
  case (Cons p ps)
  from Cons.prems obtain n where n: "p_Amount p = Some n" by (auto simp: has_amount_def)
  from Cons.prems(2) obtain v where v: "nget m (p_Source p) (p_Asset p) = Some v"
    by (auto simp: covers_def)
  let ?m1 = "nput (p_Source p) (p_Asset p) (v\<lparr>v_Output := v_Output v + - n\<rparr>) m"
  have "nget ?m1 (p_Destination p) (p_Asset p) \<noteq> None"
    using Cons.prems(2) by (auto simp: covers_def)
  then obtain w where w: "nget ?m1 (p_Destination p) (p_Asset p) = Some w" by blast
  let ?m2 = "nput (p_Destination p) (p_Asset p) (w\<lparr>v_Input := v_Input w + - n\<rparr>) ?m1"
  have s: "subtract_loop (p # ps) m = (subtract_loop ps ?m2 :: ('e, _) result)"
    by (simp add: n AddOutput_Some [OF v] AddInput_Some [OF w] del: add_uminus_conv_diff)
  have "covers ?m2 ps" using Cons.prems(2) by (auto simp: covers_def)
  moreover have "list_all has_amount ps" using Cons.prems(1) by simp
  ultimately obtain m' where m': "subtract_loop ps ?m2 = (Inr m' :: ('e, _) result)"
    "\<forall>a c. nget m' a c = map_option (less_postings ps a c) (nget ?m2 a c)"
    using Cons.IH by blast
  have "nget m' a c = map_option (less_postings (p # ps) a c) (nget m a c)" for a c
    using m'(2) [rule_format, of a c] v w
    by (cases "nget m a c") (auto simp: less_postings_def amt_def n split: if_splits)
  then show ?case unfolding s m'(1) by blast
qed

lemma SubtractPostings_spec:
  assumes "list_all has_amount ps" "covers m ps"
  shows "\<exists>m'. SubtractPostings m ps = Inr m' \<and>
     (\<forall>a c. nget m' a c = map_option (less_postings ps a c) (nget m a c))"
  using subtract_loop_spec [OF assms] by (auto simp: SubtractPostings_def)

text \<open>Merging adds, entry by entry.\<close>

definition add_volumes :: "volumes option \<Rightarrow> volumes option \<Rightarrow> volumes option" where
  "add_volumes v w =
     (case w of None \<Rightarrow> v
      | Some y \<Rightarrow> (case v of None \<Rightarrow> Some y
          | Some x \<Rightarrow> Some \<lparr>v_Input = v_Input x + v_Input y, v_Output = v_Output x + v_Output y\<rparr>))"

lemma nget_fold_merge:
  "distinct (map fst l) \<Longrightarrow> nget (fold (merge_asset b) l m) a c =
     (if a = b then add_volumes (nget m a c) (map_of l c) else nget m a c)"
proof (induction l arbitrary: m)
  case (Cons p l)
  obtain d v where p: "p = (d, v)" by (cases p)
  with Cons.prems have d: "d \<notin> fst ` set l" "distinct (map fst l)" by auto
  then have "map_of l d = None" by (simp add: map_of_eq_None_iff)
  with Cons.IH [OF d(2)] show ?case
    by (auto simp: p merge_asset_def Let_def add_volumes_def NewEmptyVolumes_def NewVolumesInt64_def
        split: option.splits)
qed (simp add: add_volumes_def)

lemma nget_Merge:
  "nkeys vs \<Longrightarrow> nget (Merge m vs) a c = add_volumes (nget m a c) (nget vs a c)"
proof (induction m vs rule: Merge.induct)
  case (2 m b l vs)
  let ?m = "if map_of m b = None then AList.update b [] m else m"
  from 2(2) have k: "nkeys vs" "distinct (map fst l)" "b \<notin> fst ` set vs"
    by (auto simp: nkeys_def)
  have m: "nget ?m a c = nget m a c" for a c
    by (auto simp: nget_def inner_def alist_simps split: option.splits)
  have vs: "nget ((b, l) # vs) a c = (if a = b then map_of l c else nget vs a c)" for a c
    by (simp add: nget_def inner_def)
  have "map_of vs b = None" using k(3) by (simp add: map_of_eq_None_iff)
  then have "nget vs b c = None" by (simp add: nget_def inner_def)
  moreover have "nget (Merge m ((b, l) # vs)) a c =
      add_volumes (nget (fold (merge_asset b) l ?m) a c) (nget vs a c)"
    using 2(1) [OF k(1)] by simp
  ultimately show ?case
    unfolding vs nget_fold_merge [OF k(2)] m by (auto simp: add_volumes_def)
qed (simp add: add_volumes_def)

section \<open>Transactions\<close>

type_synonym time = int

definition zero_time :: time where
  "zero_time = 0"

type_synonym metadata_map = "(string \<times> string) list"

record transaction =
  tx_ID :: "nat option"
  tx_Postings :: "posting list"
  tx_Metadata :: metadata_map
  tx_Timestamp :: time
  tx_Reference :: string
  tx_InsertedAt :: time
  tx_UpdatedAt :: time
  tx_RevertedAt :: "time option"
  tx_PostCommitVolumes :: post_commit_volumes
  tx_PostCommitEffectiveVolumes :: post_commit_volumes
  tx_Template :: string

definition NewTransaction :: transaction where
  "NewTransaction =
     \<lparr>tx_ID = None, tx_Postings = [], tx_Metadata = [], tx_Timestamp = zero_time, tx_Reference = [],
      tx_InsertedAt = zero_time, tx_UpdatedAt = zero_time, tx_RevertedAt = None,
      tx_PostCommitVolumes = [], tx_PostCommitEffectiveVolumes = [], tx_Template = []\<rparr>"

definition WithPostings :: "posting list \<Rightarrow> transaction \<Rightarrow> transaction" where
  "WithPostings ps tx = tx\<lparr>tx_Postings := tx_Postings tx @ ps\<rparr>"

definition Transaction_Reverse :: "transaction \<Rightarrow> transaction" where
  "Transaction_Reverse tx = WithPostings (Postings_Reverse (tx_Postings tx)) NewTransaction"

definition IsReverted :: "transaction \<Rightarrow> bool" where
  "IsReverted tx \<longleftrightarrow> (case tx_RevertedAt tx of None \<Rightarrow> False | Some t \<Rightarrow> t \<noteq> zero_time)"

text \<open>\<open>sort.Strings\<close> followed by \<open>slices.Compact\<close>.\<close>

definition sort_compact :: "string list \<Rightarrow> string list" where
  "sort_compact xs = remdups_adj (sort xs)"

definition InvolvedAccounts :: "transaction \<Rightarrow> string list" where
  "InvolvedAccounts tx = sort_compact (concat (map (\<lambda>p. [p_Source p, p_Destination p]) (tx_Postings tx)))"

fun add_destinations :: "posting list \<Rightarrow> (string \<times> string list) list \<Rightarrow> (string \<times> string list) list" where
  "add_destinations [] ret = ret"
| "add_destinations (p # ps) ret =
     add_destinations ps (AList.update (p_Destination p)
       ((case map_of ret (p_Destination p) of None \<Rightarrow> [] | Some l \<Rightarrow> l) @ [p_Asset p]) ret)"

definition InvolvedDestinations :: "transaction \<Rightarrow> (string \<times> string list) list" where
  "InvolvedDestinations tx =
     map (\<lambda>(account, assets). (account, sort_compact assets)) (add_destinations (tx_Postings tx) [])"

text \<open>The postings of each account and asset, then their sums, sorted by account and asset.\<close>

record accounts_volumes =
  av_Account :: string
  av_Asset :: string
  av_Input :: int
  av_Output :: int

definition add_posting ::
    "string \<Rightarrow> posting \<Rightarrow> (string, string, posting list) nested \<Rightarrow> (string, string, posting list) nested" where
  "add_posting account p agg =
     nput account (p_Asset p)
       ((case nget agg account (p_Asset p) of None \<Rightarrow> [] | Some l \<Rightarrow> l) @ [p]) agg"

fun aggregate ::
    "posting list \<Rightarrow> (string, string, posting list) nested \<Rightarrow> (string, string, posting list) nested" where
  "aggregate [] agg = agg"
| "aggregate (p # ps) agg =
     (let agg = add_posting (p_Source p) p agg in
      aggregate ps (if p_Source p = p_Destination p then agg else add_posting (p_Destination p) p agg))"

fun sum_volumes :: "string \<Rightarrow> posting list \<Rightarrow> volumes \<Rightarrow> ('e, volumes) result" where
  "sum_volumes account [] v = Inr v"
| "sum_volumes account (p # ps) v =
     (case p_Amount p of
        None \<Rightarrow> if account = p_Source p \<or> account = p_Destination p then panic else sum_volumes account ps v
      | Some n \<Rightarrow>
          sum_volumes account ps
            (let v = (if account = p_Source p then v\<lparr>v_Output := v_Output v + n\<rparr> else v) in
             if account = p_Destination p then v\<lparr>v_Input := v_Input v + n\<rparr> else v))"

definition av_key :: "accounts_volumes \<Rightarrow> string \<times> string" where
  "av_key u = (av_Account u, av_Asset u)"

definition VolumeUpdates :: "transaction \<Rightarrow> ('e, accounts_volumes list) result" where
  "VolumeUpdates tx =
     bindr (mapr (\<lambda>(account, asset, ps).
         bindr (sum_volumes account ps NewEmptyVolumes) (\<lambda>v.
           Inr \<lparr>av_Account = account, av_Asset = asset, av_Input = v_Input v, av_Output = v_Output v\<rparr>))
       (entries (aggregate (tx_Postings tx) [])))
     (\<lambda>ret. Inr (sort_key av_key ret))"

text \<open>What each account and asset of the postings receives and sends.\<close>

definition volume_update :: "posting list \<Rightarrow> string \<Rightarrow> string \<Rightarrow> accounts_volumes" where
  "volume_update ps a c =
     \<lparr>av_Account = a, av_Asset = c, av_Input = received a c ps, av_Output = sent a c ps\<rparr>"

definition involving :: "string \<Rightarrow> string \<Rightarrow> posting list \<Rightarrow> posting list" where
  "involving a c ps = filter (\<lambda>p. involves p a c) ps"

definition append_found :: "'a list option \<Rightarrow> 'a list \<Rightarrow> 'a list option" where
  "append_found v l = (if l = [] then v else Some ((case v of None \<Rightarrow> [] | Some k \<Rightarrow> k) @ l))"

lemma append_found_append: "append_found (append_found v l) k = append_found v (l @ k)"
  by (auto simp: append_found_def split: option.splits)

lemma nget_add_posting:
  "nget (add_posting b p m) a c = append_found (nget m a c) (if a = b \<and> c = p_Asset p then [p] else [])"
  by (auto simp: add_posting_def append_found_def)

lemma nget_aggregate: "nget (aggregate ps m) a c = append_found (nget m a c) (involving a c ps)"
proof (induction ps arbitrary: m)
  case (Cons p ps)
  have "nget (aggregate (p # ps) m) a c =
      append_found (append_found (nget m a c) (if involves p a c then [p] else [])) (involving a c ps)"
    by (auto simp: Cons.IH Let_def nget_add_posting append_found_append involves_def append_found_def)
  also have "\<dots> = append_found (nget m a c) (involving a c (p # ps))"
    by (simp add: append_found_append involving_def)
  finally show ?case .
qed (simp add: involving_def append_found_def)

lemma nkeys_aggregate: "nkeys m \<Longrightarrow> nkeys (aggregate ps m)"
  by (induction ps arbitrary: m) (simp_all add: Let_def add_posting_def)

lemma involving_keep: "involving a c (involving a c ps) = involving a c ps"
  by (simp add: involving_def)

lemma received_involving: "received a c (involving a c ps) = received a c ps"
  and sent_involving: "sent a c (involving a c ps) = sent a c ps"
  by (induction ps) (auto simp: involving_def involves_def)

lemma sum_volumes_total:
  "list_all has_amount ps \<Longrightarrow> list_all (\<lambda>p. p_Asset p = c) ps \<Longrightarrow> sum_volumes a ps v =
     Inr \<lparr>v_Input = v_Input v + received a c ps, v_Output = v_Output v + sent a c ps\<rparr>"
proof (induction ps arbitrary: v)
  case (Cons p ps)
  from Cons.prems(1) obtain n where n: "p_Amount p = Some n" by (auto simp: has_amount_def)
  with Cons show ?case by (auto simp: amt_def Let_def)
qed simp

lemma sum_volumes_involving:
  assumes "list_all has_amount ps"
  shows "sum_volumes a (involving a c ps) NewEmptyVolumes =
     Inr \<lparr>v_Input = received a c ps, v_Output = sent a c ps\<rparr>"
proof -
  have "list_all has_amount (involving a c ps)" "list_all (\<lambda>p. p_Asset p = c) (involving a c ps)"
    using assms by (auto simp: list_all_iff involving_def involves_def)
  from sum_volumes_total [OF this, of a NewEmptyVolumes] show ?thesis
    by (simp add: received_involving sent_involving NewEmptyVolumes_def NewVolumesInt64_def)
qed

lemma aggregate_entry:
  "(a, c, l) \<in> set (entries (aggregate ps [])) \<longleftrightarrow> l = involving a c ps \<and> l \<noteq> []"
  by (auto simp: entries_nget [OF nkeys_aggregate] nget_aggregate append_found_def split: if_splits)

definition unsorted_updates :: "posting list \<Rightarrow> accounts_volumes list" where
  "unsorted_updates ps = map (\<lambda>(a, c, l). volume_update ps a c) (entries (aggregate ps []))"

lemma VolumeUpdates_total:
  assumes "list_all has_amount (tx_Postings tx)"
  shows "VolumeUpdates tx = Inr (sort_key av_key (unsorted_updates (tx_Postings tx)))"
  unfolding VolumeUpdates_def unsorted_updates_def
  by (subst mapr_total [where g = "\<lambda>(a, c, l). volume_update (tx_Postings tx) a c"])
    (auto simp: aggregate_entry sum_volumes_involving [OF assms] volume_update_def)

lemma unsorted_distinct: "distinct (map av_key (unsorted_updates ps))"
proof -
  have "map av_key (unsorted_updates ps) = map (\<lambda>(a, c, l). (a, c)) (entries (aggregate ps []))"
    by (auto simp: unsorted_updates_def av_key_def volume_update_def)
  with entries_distinct [OF nkeys_aggregate [OF nkeys_Nil]] show ?thesis by metis
qed

lemma set_unsorted:
  "u \<in> set (unsorted_updates ps) \<longleftrightarrow> (\<exists>p \<in> set ps. \<exists>a. involves p a (p_Asset p) \<and>
     u = volume_update ps a (p_Asset p))"
proof -
  have "u \<in> set (unsorted_updates ps) \<longleftrightarrow>
      (\<exists>a c l. (a, c, l) \<in> set (entries (aggregate ps [])) \<and> u = volume_update ps a c)"
    by (force simp: unsorted_updates_def)
  also have "\<dots> \<longleftrightarrow> (\<exists>a c. involving a c ps \<noteq> [] \<and> u = volume_update ps a c)"
    by (simp add: aggregate_entry)
  also have "\<dots> \<longleftrightarrow> (\<exists>p \<in> set ps. \<exists>a. involves p a (p_Asset p) \<and> u = volume_update ps a (p_Asset p))"
    by (auto simp: involving_def filter_empty_conv involves_def)
  finally show ?thesis .
qed

lemma VolumeUpdates_spec:
  assumes "list_all has_amount (tx_Postings tx)"
  shows "\<exists>us. VolumeUpdates tx = Inr us \<and> sorted (map av_key us) \<and> distinct (map av_key us) \<and>
     set us = {u. \<exists>p \<in> set (tx_Postings tx). \<exists>a. involves p a (p_Asset p) \<and>
       u = volume_update (tx_Postings tx) a (p_Asset p)}"
proof (intro exI conjI)
  let ?us = "unsorted_updates (tx_Postings tx)"
  show "VolumeUpdates tx = Inr (sort_key av_key ?us)" by (rule VolumeUpdates_total [OF assms])
  show "distinct (map av_key (sort_key av_key ?us))"
    using unsorted_distinct by (metis distinct_map distinct_sort set_sort)
  show "set (sort_key av_key ?us) = {u. \<exists>p \<in> set (tx_Postings tx). \<exists>a. involves p a (p_Asset p) \<and>
       u = volume_update (tx_Postings tx) a (p_Asset p)}"
    unfolding set_sort set_eq_iff set_unsorted mem_Collect_eq by blast
qed simp

text \<open>Double entry: what the accounts receive of an asset is what the accounts send.\<close>

definition moved :: "string \<Rightarrow> posting list \<Rightarrow> int" where
  "moved c ps = sum_list (map (\<lambda>p. if p_Asset p = c then amt p else 0) ps)"

lemma moved_simps [simp]:
  "moved c [] = 0" "moved c (p # ps) = (if p_Asset p = c then amt p else 0) + moved c ps"
  "moved c (ps @ qs) = moved c ps + moved c qs"
  by (simp_all add: moved_def)

lemma sum_received:
  "finite A \<Longrightarrow> p_Destination ` set ps \<subseteq> A \<Longrightarrow> (\<Sum>a\<in>A. received a c ps) = moved c ps"
  by (induction ps) (auto simp: sum.distrib if_distrib [of "\<lambda>b. b \<and> _"] sum.delta)

lemma sum_sent:
  "finite A \<Longrightarrow> p_Source ` set ps \<subseteq> A \<Longrightarrow> (\<Sum>a\<in>A. sent a c ps) = moved c ps"
  by (induction ps) (auto simp: sum.distrib sum.delta)


definition asset_total :: "string \<Rightarrow> (accounts_volumes \<Rightarrow> int) \<Rightarrow> accounts_volumes list \<Rightarrow> int" where
  "asset_total c f us = sum_list (map (\<lambda>u. if av_Asset u = c then f u else 0) us)"

lemma asset_total_accounts:
  assumes us: "distinct (map av_key us)"
    "\<And>u. u \<in> set us \<longleftrightarrow> (\<exists>p \<in> set ps. \<exists>a. involves p a (p_Asset p) \<and> u = volume_update ps a (p_Asset p))"
    and f: "\<And>a. f (volume_update ps a c) = g a"
  shows "asset_total c f us = (\<Sum>a \<in> {a. \<exists>p \<in> set ps. involves p a c}. g a)"
proof -
  let ?A = "{a. \<exists>p \<in> set ps. involves p a c}"
  have img: "{u \<in> set us. av_Asset u = c} = (\<lambda>a. volume_update ps a c) ` ?A"
    unfolding us(2) by (auto simp: volume_update_def involves_def image_iff)
  have inj: "inj_on (\<lambda>a. volume_update ps a c) ?A" by (auto simp: inj_on_def volume_update_def)
  have "asset_total c f us = (\<Sum>u \<in> set us. if av_Asset u = c then f u else 0)"
    unfolding asset_total_def using us(1) by (subst sum_list_distinct_conv_sum_set) (auto simp: distinct_map)
  also have "\<dots> = (\<Sum>u \<in> {u \<in> set us. av_Asset u = c}. f u)"
    by (simp add: sum.inter_filter)
  also have "\<dots> = (\<Sum>a \<in> ?A. g a)"
    unfolding img by (simp add: sum.reindex [OF inj] f)
  finally show ?thesis .
qed

lemma involved_finite: "finite {a. \<exists>p \<in> set ps. involves p a c}"
  by (rule finite_subset [where B = "p_Source ` set ps \<union> p_Destination ` set ps"]) (auto simp: involves_def)

lemma sum_received_involved: "(\<Sum>a \<in> {a. \<exists>p \<in> set ps. involves p a c}. received a c ps) = moved c ps"
proof -
  let ?A = "{a. \<exists>p \<in> set ps. involves p a c}"
  let ?B = "?A \<union> p_Destination ` set ps"
  have "(\<Sum>a \<in> ?A. received a c ps) = (\<Sum>a \<in> ?B. received a c ps)"
    by (rule sum.mono_neutral_left) (use involved_finite not_involved in auto)
  also have "\<dots> = moved c ps" by (rule sum_received) (use involved_finite in auto)
  finally show ?thesis .
qed

lemma sum_sent_involved: "(\<Sum>a \<in> {a. \<exists>p \<in> set ps. involves p a c}. sent a c ps) = moved c ps"
proof -
  let ?A = "{a. \<exists>p \<in> set ps. involves p a c}"
  let ?B = "?A \<union> p_Source ` set ps"
  have "(\<Sum>a \<in> ?A. sent a c ps) = (\<Sum>a \<in> ?B. sent a c ps)"
    by (rule sum.mono_neutral_left) (use involved_finite not_involved in auto)
  also have "\<dots> = moved c ps" by (rule sum_sent) (use involved_finite in auto)
  finally show ?thesis .
qed

lemma VolumeUpdates_balanced:
  assumes "list_all has_amount (tx_Postings tx)" "VolumeUpdates tx = (Inr us :: ('e, _) result)"
  shows "asset_total c av_Input us = moved c (tx_Postings tx)"
    "asset_total c av_Output us = moved c (tx_Postings tx)"
proof -
  let ?ps = "tx_Postings tx"
  obtain us' where "VolumeUpdates tx = (Inr us' :: ('e, _) result)" "distinct (map av_key us')"
    "set us' = {u. \<exists>p \<in> set ?ps. \<exists>a. involves p a (p_Asset p) \<and> u = volume_update ?ps a (p_Asset p)}"
    using VolumeUpdates_spec [OF assms(1)] by blast
  with assms(2) have us: "distinct (map av_key us)"
    "\<And>u. u \<in> set us \<longleftrightarrow> (\<exists>p \<in> set ?ps. \<exists>a. involves p a (p_Asset p) \<and> u = volume_update ?ps a (p_Asset p))"
    by auto
  show "asset_total c av_Input us = moved c ?ps"
    by (subst asset_total_accounts [OF us, where g = "\<lambda>a. received a c ?ps"])
      (simp_all add: volume_update_def sum_received_involved)
  show "asset_total c av_Output us = moved c ?ps"
    by (subst asset_total_accounts [OF us, where g = "\<lambda>a. sent a c ?ps"])
      (simp_all add: volume_update_def sum_sent_involved)
qed

section \<open>Involved accounts\<close>

lemma sorted_distinct_remdups_adj: "sorted xs \<Longrightarrow> distinct (remdups_adj xs)"
proof (induction xs rule: remdups_adj.induct)
  case (3 x y xs)
  then show ?case by (cases "x = y") auto
qed simp_all

lemma sort_compact_spec:
  "sorted (sort_compact xs) \<and> distinct (sort_compact xs) \<and> set (sort_compact xs) = set xs"
proof -
  have "distinct (remdups_adj (sort xs))"
    by (rule sorted_distinct_remdups_adj) simp
  then show ?thesis by (simp add: sort_compact_def sorted_remdups_adj)
qed

lemma InvolvedAccounts_spec:
  "sorted (InvolvedAccounts tx) \<and> distinct (InvolvedAccounts tx) \<and>
   set (InvolvedAccounts tx) = p_Source ` set (tx_Postings tx) \<union> p_Destination ` set (tx_Postings tx)"
  using sort_compact_spec unfolding InvolvedAccounts_def by auto

lemma add_destinations_spec:
  "map_of (add_destinations ps m) a = append_found (map_of m a)
     (map p_Asset (filter (\<lambda>p. p_Destination p = a) ps))"
  by (induction ps arbitrary: m) (auto simp: append_found_def update_conv split: option.splits)

lemma InvolvedDestinations_spec:
  "map_of (InvolvedDestinations tx) a =
     (if \<exists>p \<in> set (tx_Postings tx). p_Destination p = a
      then Some (sort_compact (map p_Asset (filter (\<lambda>p. p_Destination p = a) (tx_Postings tx)))) else None)"
proof -
  have "map_of (InvolvedDestinations tx) a =
      map_option sort_compact (map_of (add_destinations (tx_Postings tx) []) a)"
    unfolding InvolvedDestinations_def by (rule map_of_map [THEN fun_cong, simplified o_def])
  then show ?thesis by (auto simp: add_destinations_spec append_found_def filter_empty_conv)
qed


section \<open>Moves\<close>

record move =
  mv_TransactionID :: nat
  mv_IsSource :: bool
  mv_Account :: string
  mv_Amount :: int
  mv_Asset :: string
  mv_InsertionDate :: time
  mv_EffectiveDate :: time
  mv_PostCommitVolumes :: "volumes option"
  mv_PostCommitEffectiveVolumes :: "volumes option"

definition mv_key :: "move \<Rightarrow> string \<times> string" where
  "mv_key m = (mv_Account m, mv_Asset m)"

fun compute_effective ::
    "move list \<Rightarrow> (string \<times> string) list \<Rightarrow> post_commit_volumes \<Rightarrow> ('e, post_commit_volumes) result" where
  "compute_effective [] visited ret = Inr ret"
| "compute_effective (m # ms) visited ret =
     (if List.member visited (mv_key m) then compute_effective ms visited ret
      else case mv_PostCommitEffectiveVolumes m of
        None \<Rightarrow> panic
      | Some v \<Rightarrow> compute_effective ms (mv_key m # visited) (Merge ret [(mv_Account m, [(mv_Asset m, v)])]))"

text \<open>The receiver is reversed in place: the caller's slice is the second component.\<close>

definition ComputePostCommitEffectiveVolumes ::
    "move list \<Rightarrow> ('e, post_commit_volumes) result \<times> move list" where
  "ComputePostCommitEffectiveVolumes ms = (compute_effective (rev ms) [] [], rev ms)"

definition effective_of :: "move list \<Rightarrow> string \<times> string \<Rightarrow> volumes option" where
  "effective_of ms k = Option.bind (find (\<lambda>m. mv_key m = k) ms) mv_PostCommitEffectiveVolumes"

lemma compute_effective_spec:
  assumes "list_all (\<lambda>m. mv_PostCommitEffectiveVolumes m \<noteq> None) ms"
    "\<And>a c. (a, c) \<notin> set visited \<Longrightarrow> nget ret a c = None"
  shows "\<exists>vs. compute_effective ms visited ret = (Inr vs :: ('e, _) result) \<and>
    (\<forall>a c. nget vs a c = (if (a, c) \<in> set visited then nget ret a c else effective_of ms (a, c)))"
  using assms
proof (induction ms arbitrary: visited ret)
  case Nil
  then show ?case by (simp add: effective_of_def)
next
  case (Cons m ms)
  have k: "mv_key m = (mv_Account m, mv_Asset m)" by (simp add: mv_key_def)
  have ms: "list_all (\<lambda>m. mv_PostCommitEffectiveVolumes m \<noteq> None) ms" using Cons.prems(1) by simp
  show ?case
  proof (cases "mv_key m \<in> set visited")
    case True
    then have "compute_effective (m # ms) visited ret = (compute_effective ms visited ret :: ('e, _) result)"
      by simp
    moreover have "(if (a, c) \<in> set visited then nget ret a c else effective_of (m # ms) (a, c)) =
        (if (a, c) \<in> set visited then nget ret a c else effective_of ms (a, c))" for a c
      using True by (auto simp: effective_of_def)
    ultimately show ?thesis using Cons.IH [OF ms Cons.prems(2)] by auto
  next
    case False
    from Cons.prems(1) obtain v where v: "mv_PostCommitEffectiveVolumes m = Some v" by auto
    let ?ret = "Merge ret [(mv_Account m, [(mv_Asset m, v)])]"
    have n: "nget ?ret a c = (if (a, c) = mv_key m then Some v else nget ret a c)" for a c
      using False Cons.prems(2) [of "mv_Account m" "mv_Asset m"]
      by (subst nget_Merge) (auto simp: nkeys_def k add_volumes_def nget_def inner_def)
    have "nget ?ret a c = None" if "(a, c) \<notin> set (mv_key m # visited)" for a c
      unfolding n using that Cons.prems(2) by auto
    from Cons.IH [OF ms this] obtain vs where vs:
      "compute_effective ms (mv_key m # visited) ?ret = (Inr vs :: ('e, _) result)"
      "\<forall>a c. nget vs a c = (if (a, c) \<in> set (mv_key m # visited) then nget ?ret a c
         else effective_of ms (a, c))" by blast
    have "compute_effective (m # ms) visited ret = (Inr vs :: ('e, _) result)"
      using False vs(1) by (simp add: v)
    moreover have "nget vs a c = (if (a, c) \<in> set visited then nget ret a c
        else effective_of (m # ms) (a, c))" for a c
      unfolding vs(2) [rule_format] n using False by (auto simp: effective_of_def v)
    ultimately show ?thesis by blast
  qed
qed

lemma effective_volumes_are_those_of_the_last_moves:
  assumes "list_all (\<lambda>m. mv_PostCommitEffectiveVolumes m \<noteq> None) ms"
  shows "\<exists>vs. fst (ComputePostCommitEffectiveVolumes ms) = (Inr vs :: ('e, _) result) \<and>
    (\<forall>a c. nget vs a c = effective_of (rev ms) (a, c))"
  using compute_effective_spec [of "rev ms" "[]" "[]"] assms
  by (simp add: ComputePostCommitEffectiveVolumes_def)

end
