(* ===== verification/Chart.thy ===== *)
theory Chart
  imports Ledger_Core
begin

text \<open>
  The chart of accounts (\<open>internal/chart.go\<close>): the tree of address segments a schema allows, its
  JSON form, and the lookup that decides whether an address is in the chart. A JSON text is its
  tree: object members in the order of the text, numbers as their text. A regular expression of
  the chart is user input: \<open>compile\<close> stands for \<open>regexp.Compile\<close> and the match it gives.
\<close>

section \<open>JSON values\<close>

datatype json =
    JNull
  | JBool bool
  | JNum string
  | JStr string
  | JArr "json list"
  | JObj "(string \<times> json) list"

text \<open>
  Decoding into a Go map: \<open>null\<close> is a nil map, an object stores its members one after the other, so
  the last of equal keys is kept.
\<close>

fun json_map :: "json \<Rightarrow> (string \<times> json) list option" where
  "json_map JNull = Some []"
| "json_map (JObj kvs) = Some (fold (\<lambda>(k, v). AList.update k v) kvs [])"
| "json_map _ = None"

section \<open>The tree of segments\<close>

record chart_account =
  ca_Metadata :: "(string \<times> string option) list option"

datatype chart_segment =
  ChartSegment (cs_VariableSegment: "chart_variable option")
    (cs_FixedSegments: "(string \<times> chart_segment) list") (cs_Account: "chart_account option")
and chart_variable =
  ChartVariableSegment (cv_Segment: chart_segment) (cv_Pattern: "string option") (cv_Label: string)

type_synonym chart = "(string \<times> chart_segment) list"

definition PATTERN_KEY :: string where "PATTERN_KEY = ''.pattern''"
definition SELF_KEY :: string where "SELF_KEY = ''.self''"
definition RULES_KEY :: string where "RULES_KEY = ''.rules''"
definition METADATA_KEY :: string where "METADATA_KEY = ''.metadata''"

definition starts_with :: "char \<Rightarrow> string \<Rightarrow> bool" where
  "starts_with c s \<longleftrightarrow> s \<noteq> [] \<and> hd s = c"

text \<open>\<open>^(\$|\.)?[a-zA-Z0-9_-]+$\<close>\<close>

definition ChartSegmentRegexp :: regex where
  "ChartSegmentRegexp =
     RSeq (ROpt (RAlt (RChar CHR ''$'') (RChar CHR ''.''))) (RPlus (RClass segment_char))"

definition ValidateSegment :: "string \<Rightarrow> bool" where
  "ValidateSegment addr = re_match ChartSegmentRegexp addr"

section \<open>Decoding\<close>

datatype chart_error =
    NotAnObject
  | InvalidSegmentName string
  | RootVariable string
  | RootAccount string
  | PatternOnFixed
  | PatternNotString
  | InvalidPattern string
  | TwoVariables
  | SelfNotEmpty
  | InvalidDefaultMetadata
  | InvalidRules
  | MetadataOnNonAccount
  | RulesOnNonAccount

definition to_lower :: "string \<Rightarrow> string" where
  "to_lower s = map (\<lambda>c. if is_upper c then (char_of (of_char c + 32 :: nat)) else c) s"

text \<open>\<open>ChartAccountMetadata\<close>: field names match whatever their case.\<close>

fun decode_default :: "(string \<times> json) list \<Rightarrow> string option \<Rightarrow> string option option" where
  "decode_default [] d = Some d"
| "decode_default ((k, v) # kvs) d =
     (if to_lower k = ''default''
      then (case v of JNull \<Rightarrow> decode_default kvs None
                    | JStr s \<Rightarrow> decode_default kvs (Some s)
                    | _ \<Rightarrow> None)
      else decode_default kvs d)"

fun decode_account_metadata :: "json \<Rightarrow> string option option" where
  "decode_account_metadata JNull = Some None"
| "decode_account_metadata (JObj kvs) = decode_default kvs None"
| "decode_account_metadata _ = None"

fun decode_entries :: "(string \<times> json) list \<Rightarrow> (string \<times> string option) list \<Rightarrow>
    (string \<times> string option) list option" where
  "decode_entries [] m = Some m"
| "decode_entries ((k, v) # kvs) m =
     Option.bind (decode_account_metadata v) (\<lambda>d. decode_entries kvs (AList.update k d m))"

fun decode_metadata :: "json \<Rightarrow> (string \<times> string option) list option option" where
  "decode_metadata JNull = Some None"
| "decode_metadata (JObj kvs) = map_option Some (decode_entries kvs [])"
| "decode_metadata _ = None"

fun decode_rules :: "json \<Rightarrow> bool" where
  "decode_rules JNull = True"
| "decode_rules (JObj _) = True"
| "decode_rules _ = False"

text \<open>The \<open>.pattern\<close> of a segment's value.\<close>

definition segment_pattern ::
    "(string \<Rightarrow> (string \<Rightarrow> bool) option) \<Rightarrow> json \<Rightarrow> (chart_error, string option) result" where
  "segment_pattern compile value =
     (case json_map value of
        None \<Rightarrow> raise NotAnObject
      | Some m \<Rightarrow>
          (case map_of m PATTERN_KEY of
             None \<Rightarrow> Inr None
           | Some (JStr pat) \<Rightarrow>
               (case compile pat of None \<Rightarrow> raise (InvalidPattern pat) | Some _ \<Rightarrow> Inr (Some pat))
           | Some _ \<Rightarrow> raise PatternNotString))"

text \<open>The variables of the loop over the members.\<close>

record segment_loop =
  sl_isLeaf :: bool
  sl_isAccount :: bool
  sl_account :: chart_account
  sl_fixed :: "(string \<times> chart_segment) list"
  sl_variable :: "chart_variable option"

definition segment_loop_start :: segment_loop where
  "segment_loop_start = \<lparr>sl_isLeaf = True, sl_isAccount = False, sl_account = \<lparr>ca_Metadata = None\<rparr>,
     sl_fixed = [], sl_variable = None\<rparr>"

definition add_subsegment ::
    "string \<Rightarrow> string option \<Rightarrow> chart_segment \<Rightarrow> segment_loop \<Rightarrow> (chart_error, segment_loop) result" where
  "add_subsegment key pattern segment s =
     (if starts_with CHR ''$'' key
      then if sl_variable s \<noteq> None then raise TwoVariables
           else Inr (s\<lparr>sl_variable := Some (ChartVariableSegment segment pattern (tl key)),
                       sl_isLeaf := False\<rparr>)
      else if pattern \<noteq> None then raise PatternOnFixed
      else Inr (s\<lparr>sl_fixed := AList.update key segment (sl_fixed s), sl_isLeaf := False\<rparr>))"

definition add_property :: "string \<Rightarrow> json \<Rightarrow> segment_loop \<Rightarrow> (chart_error, segment_loop) result" where
  "add_property key value s =
     (if key = SELF_KEY
      then if json_map value = Some [] then Inr (s\<lparr>sl_isAccount := True\<rparr>) else raise SelfNotEmpty
      else if key = METADATA_KEY
      then (case decode_metadata value of
              None \<Rightarrow> raise InvalidDefaultMetadata
            | Some m \<Rightarrow> Inr (s\<lparr>sl_account := (sl_account s)\<lparr>ca_Metadata := m\<rparr>\<rparr>))
      else if key = RULES_KEY
      then if decode_rules value then Inr s else raise InvalidRules
      else Inr s)"

text \<open>After the loop; \<open>keys\<close> are the members' names.\<close>

definition finish_segment :: "string list \<Rightarrow> segment_loop \<Rightarrow> (chart_error, chart_segment) result" where
  "finish_segment keys s =
     (let isAccount = sl_isAccount s \<or> sl_isLeaf s in
      if List.member keys METADATA_KEY \<and> \<not> isAccount then raise MetadataOnNonAccount
      else if List.member keys RULES_KEY \<and> \<not> isAccount then raise RulesOnNonAccount
      else Inr (ChartSegment (sl_variable s) (sl_fixed s) (if isAccount then Some (sl_account s) else None)))"

text \<open>Of equal keys only the last is in the decoded map, so the loop passes over the others.\<close>

fun segment_Unmarshal ::
      "(string \<Rightarrow> (string \<Rightarrow> bool) option) \<Rightarrow> json \<Rightarrow> (chart_error, chart_segment) result"
  and segment_members ::
      "(string \<Rightarrow> (string \<Rightarrow> bool) option) \<Rightarrow> (string \<times> json) list \<Rightarrow> segment_loop \<Rightarrow>
       (chart_error, segment_loop) result" where
  "segment_Unmarshal compile JNull = finish_segment [] segment_loop_start"
| "segment_Unmarshal compile (JObj kvs) =
     bindr (segment_members compile kvs segment_loop_start) (finish_segment (map fst kvs))"
| "segment_Unmarshal compile (JBool _) = raise NotAnObject"
| "segment_Unmarshal compile (JNum _) = raise NotAnObject"
| "segment_Unmarshal compile (JStr _) = raise NotAnObject"
| "segment_Unmarshal compile (JArr _) = raise NotAnObject"
| "segment_members compile [] s = Inr s"
| "segment_members compile ((key, value) # kvs) s =
     (if List.member (map fst kvs) key then segment_members compile kvs s
      else bindr
        (if \<not> starts_with CHR ''.'' key
         then if \<not> ValidateSegment key then raise (InvalidSegmentName key)
              else bindr (segment_pattern compile value) (\<lambda>pattern.
                   bindr (segment_Unmarshal compile value) (\<lambda>segment.
                   add_subsegment key pattern segment s))
         else add_property key value s)
        (segment_members compile kvs))"

fun chart_members ::
    "(string \<Rightarrow> (string \<Rightarrow> bool) option) \<Rightarrow> (string \<times> json) list \<Rightarrow> chart \<Rightarrow> (chart_error, chart) result" where
  "chart_members compile [] out = Inr out"
| "chart_members compile ((key, value) # kvs) out =
     (if \<not> ValidateSegment key then raise (InvalidSegmentName key)
      else if starts_with CHR ''$'' key then raise (RootVariable key)
      else if starts_with CHR ''.'' key then raise (RootAccount key)
      else case json_map value of
        None \<Rightarrow> raise NotAnObject
      | Some m \<Rightarrow>
          if map_of m PATTERN_KEY \<noteq> None then raise PatternOnFixed
          else bindr (segment_Unmarshal compile value) (\<lambda>seg.
               chart_members compile kvs (AList.update key seg out)))"

definition ChartOfAccounts_Unmarshal ::
    "(string \<Rightarrow> (string \<Rightarrow> bool) option) \<Rightarrow> json \<Rightarrow> (chart_error, chart) result" where
  "ChartOfAccounts_Unmarshal compile data =
     (case json_map data of
        None \<Rightarrow> raise NotAnObject
      | Some segment \<Rightarrow> chart_members compile segment [])"

section \<open>Encoding\<close>

definition account_metadata_json :: "string \<times> string option \<Rightarrow> string \<times> json" where
  "account_metadata_json = (\<lambda>(k, d). (k, JObj (case d of None \<Rightarrow> [] | Some s \<Rightarrow> [(''default'', JStr s)])))"

text \<open>The rules are an empty struct, so they never differ from its zero value and are not written.\<close>

definition account_members :: "bool \<Rightarrow> chart_account \<Rightarrow> (string \<times> json) list" where
  "account_members branches account =
     (case ca_Metadata account of
        None \<Rightarrow> []
      | Some m \<Rightarrow> [(METADATA_KEY, JObj (map account_metadata_json m))]) @
     (if branches then [(SELF_KEY, JObj [])] else [])"

fun marshalJsonObject :: "chart_segment \<Rightarrow> (string \<times> json) list"
  and variable_Marshal :: "chart_variable \<Rightarrow> json"
  and fixed_members :: "(string \<times> chart_segment) list \<Rightarrow> (string \<times> json) list" where
  "marshalJsonObject (ChartSegment v fs acc) =
     fixed_members fs @
     (case v of None \<Rightarrow> [] | Some x \<Rightarrow> [(CHR ''$'' # cv_Label x, variable_Marshal x)]) @
     (case acc of None \<Rightarrow> [] | Some a \<Rightarrow> account_members (fs \<noteq> [] \<or> v \<noteq> None) a)"
| "variable_Marshal (ChartVariableSegment s pattern label) =
     JObj (marshalJsonObject s @ (case pattern of None \<Rightarrow> [] | Some p \<Rightarrow> [(PATTERN_KEY, JStr p)]))"
| "fixed_members [] = []"
| "fixed_members ((k, s) # fs) = (k, JObj (marshalJsonObject s)) # fixed_members fs"

definition ChartOfAccounts_Marshal :: "chart \<Rightarrow> json" where
  "ChartOfAccounts_Marshal c = JObj (fixed_members c)"

section \<open>Finding an account\<close>

record ErrInvalidAccount =
  ia_path :: "string list"
  ia_segment :: string
  ia_hasSubsegments :: bool
  ia_patternMismatch :: bool

datatype find_error = InvalidAccount ErrInvalidAccount | BadPattern string

definition pattern_matches ::
    "(string \<Rightarrow> (string \<Rightarrow> bool) option) \<Rightarrow> string option \<Rightarrow> string \<Rightarrow> (find_error, bool) result" where
  "pattern_matches compile pattern segment =
     (case pattern of
        None \<Rightarrow> Inr True
      | Some pat \<Rightarrow> (case compile pat of None \<Rightarrow> raise (BadPattern pat) | Some f \<Rightarrow> Inr (f segment)))"

text \<open>\<open>rest\<close> is \<open>account[1:]\<close>: the caller never passes an empty slice.\<close>

fun findAccountSchema ::
    "(string \<Rightarrow> (string \<Rightarrow> bool) option) \<Rightarrow> string list \<Rightarrow> (string \<times> chart_segment) list \<Rightarrow>
     chart_variable option \<Rightarrow> string list \<Rightarrow> (find_error, chart_account) result" where
  "findAccountSchema compile path fixedSegments variableSegment [] = panic"
| "findAccountSchema compile path fixedSegments variableSegment (nextSegment # rest) =
     (let err = (\<lambda>mismatch. raise (InvalidAccount \<lparr>ia_path = path, ia_segment = nextSegment,
            ia_hasSubsegments = (rest \<noteq> []), ia_patternMismatch = mismatch\<rparr>));
          enter = (\<lambda>s. if rest \<noteq> []
             then findAccountSchema compile (path @ [nextSegment]) (cs_FixedSegments s)
                    (cs_VariableSegment s) rest
             else case cs_Account s of Some a \<Rightarrow> Inr a | None \<Rightarrow> err False)
      in case map_of fixedSegments nextSegment of
           Some segment \<Rightarrow> enter segment
         | None \<Rightarrow>
             (case variableSegment of
                None \<Rightarrow> err False
              | Some v \<Rightarrow>
                  bindr (pattern_matches compile (cv_Pattern v) nextSegment) (\<lambda>m.
                    if m then enter (cv_Segment v) else err True)))"

definition FindAccountSchema ::
    "(string \<Rightarrow> (string \<Rightarrow> bool) option) \<Rightarrow> chart \<Rightarrow> string \<Rightarrow> (find_error, chart_account) result" where
  "FindAccountSchema compile c account = findAccountSchema compile [] c None (split_on CHR '':'' account)"

definition ValidatePosting ::
    "(string \<Rightarrow> (string \<Rightarrow> bool) option) \<Rightarrow> chart \<Rightarrow> posting \<Rightarrow> (find_error, unit) result" where
  "ValidatePosting compile c p =
     bindr (FindAccountSchema compile c (p_Source p)) (\<lambda>_.
     bindr (FindAccountSchema compile c (p_Destination p)) (\<lambda>_. Inr ()))"

definition DefaultMetadata :: "chart_account \<Rightarrow> metadata_map" where
  "DefaultMetadata a =
     (case ca_Metadata a of
        None \<Rightarrow> []
      | Some m \<Rightarrow> concat (map (\<lambda>(k, d). case d of None \<Rightarrow> [] | Some s \<Rightarrow> [(k, s)]) m))"

definition ErrInvalidAccount_Error :: "ErrInvalidAccount \<Rightarrow> string" where
  "ErrInvalidAccount_Error e =
     (if ia_path e = []
      then if ia_hasSubsegments e
           then ''account starting with `'' @ ia_segment e @ ''` is not defined in the chart of accounts''
           else ''account `'' @ ia_segment e @ ''` is not defined in the chart of accounts''
      else if ia_patternMismatch e
      then ''segment `'' @ ia_segment e @ ''` defined by the chart of accounts at `'' @
           join_with CHR '':'' (ia_path e) @ ''` does not match the pattern''
      else ''segment `'' @ ia_segment e @ ''` is not allowed by the chart of accounts at `'' @
           join_with CHR '':'' (ia_path e) @ ''`'')"


section \<open>What a decoded chart satisfies\<close>

definition fixed_key :: "string \<Rightarrow> bool" where
  "fixed_key k \<longleftrightarrow> ValidateSegment k \<and> \<not> starts_with CHR ''$'' k \<and> \<not> starts_with CHR ''.'' k"

definition wf_account :: "chart_account option \<Rightarrow> bool" where
  "wf_account acc \<longleftrightarrow> (\<forall>a m. acc = Some a \<longrightarrow> ca_Metadata a = Some m \<longrightarrow> distinct (map fst m))"

definition good_pattern :: "(string \<Rightarrow> (string \<Rightarrow> bool) option) \<Rightarrow> string option \<Rightarrow> bool" where
  "good_pattern compile p \<longleftrightarrow> (\<forall>pat. p = Some pat \<longrightarrow> compile pat \<noteq> None)"

fun wf_segment :: "(string \<Rightarrow> (string \<Rightarrow> bool) option) \<Rightarrow> chart_segment \<Rightarrow> bool"
  and wf_variable :: "(string \<Rightarrow> (string \<Rightarrow> bool) option) \<Rightarrow> chart_variable \<Rightarrow> bool"
  and wf_fixed :: "(string \<Rightarrow> (string \<Rightarrow> bool) option) \<Rightarrow> (string \<times> chart_segment) list \<Rightarrow> bool" where
  "wf_segment compile (ChartSegment v fs acc) \<longleftrightarrow>
     wf_fixed compile fs \<and> (case v of None \<Rightarrow> True | Some x \<Rightarrow> wf_variable compile x) \<and>
     (acc = None \<longrightarrow> fs \<noteq> [] \<or> v \<noteq> None) \<and> wf_account acc"
| "wf_variable compile (ChartVariableSegment s p label) \<longleftrightarrow>
     wf_segment compile s \<and> good_pattern compile p \<and> ValidateSegment (CHR ''$'' # label)"
| "wf_fixed compile [] \<longleftrightarrow> True"
| "wf_fixed compile ((k, s) # fs) \<longleftrightarrow>
     fixed_key k \<and> k \<notin> fst ` set fs \<and> wf_segment compile s \<and> wf_fixed compile fs"

lemmas key_defs = PATTERN_KEY_def SELF_KEY_def RULES_KEY_def METADATA_KEY_def

lemma update_new: "k \<notin> fst ` set m \<Longrightarrow> AList.update k v m = m @ [(k, v)]"
  by (induction m) auto

lemma fold_update_distinct:
  "distinct (map fst (m @ kvs)) \<Longrightarrow> fold (\<lambda>(k, v). AList.update k v) kvs m = m @ kvs"
proof (induction kvs arbitrary: m)
  case (Cons p kvs)
  obtain k v where p: "p = (k, v)" by (cases p)
  have "AList.update k v m = m @ [(k, v)]"
    using Cons.prems by (intro update_new) (simp add: p)
  with Cons.IH [of "m @ [(k, v)]"] Cons.prems show ?case by (simp add: p)
qed simp

lemma map_of_fold_update:
  "map_of (fold (\<lambda>(k, v). AList.update k v) kvs m) = map_of m ++ map_of (rev kvs)"
  by (induction kvs arbitrary: m) (auto simp: alist_simps map_add_def fun_eq_iff split: option.splits)

lemma json_map_keys:
  "json_map (JObj kvs) = Some m \<Longrightarrow> distinct (map fst m) \<and> fst ` set m = fst ` set kvs"
proof -
  have "distinct (map fst m) \<Longrightarrow> distinct (map fst (fold (\<lambda>(k, v). AList.update k v) kvs m)) \<and>
      fst ` set (fold (\<lambda>(k, v). AList.update k v) kvs m) = fst ` set m \<union> fst ` set kvs" for m
    by (induction kvs arbitrary: m) (simp_all add: alist_simps split_def)
  from this [of "[]"] show "json_map (JObj kvs) = Some m \<Longrightarrow> distinct (map fst m) \<and> fst ` set m = fst ` set kvs"
    by simp
qed

section \<open>Encoding and decoding\<close>

lemma fixed_keys: "map fst (fixed_members fs) = map fst fs"
  by (induction fs) auto

lemma wf_fixed_keys: "wf_fixed compile fs \<Longrightarrow> list_all fixed_key (map fst fs) \<and> distinct (map fst fs)"
  by (induction fs) (simp_all add: split_paired_all)

definition member_key :: "string \<Rightarrow> bool" where
  "member_key k \<longleftrightarrow> \<not> starts_with CHR ''.'' k \<or> k = METADATA_KEY \<or> k = SELF_KEY"

lemma marshal_keys:
  assumes "wf_segment compile s"
  shows "(\<forall>k \<in> fst ` set (marshalJsonObject s). member_key k) \<and> distinct (map fst (marshalJsonObject s))"
proof (cases s)
  case (ChartSegment v fs acc)
  define K where "K = map fst fs"
  have "wf_fixed compile fs" using assms by (simp add: ChartSegment)
  from wf_fixed_keys [OF this] have "list_all fixed_key K" "distinct K" by (simp_all add: K_def)
  then have K: "\<forall>k \<in> set K. fixed_key k" "distinct K" by (simp_all add: list_all_iff)
  have "map fst (marshalJsonObject s) = K @
      (case v of None \<Rightarrow> [] | Some x \<Rightarrow> [CHR ''$'' # cv_Label x]) @
      (case acc of None \<Rightarrow> [] | Some a \<Rightarrow> (if ca_Metadata a = None then [] else [METADATA_KEY]) @
         (if fs \<noteq> [] \<or> v \<noteq> None then [SELF_KEY] else []))"
    by (auto simp: ChartSegment K_def fixed_keys account_members_def split: option.splits)
  then have "(\<forall>k \<in> set (map fst (marshalJsonObject s)). member_key k) \<and>
      distinct (map fst (marshalJsonObject s))"
    using K by (auto simp: member_key_def fixed_key_def starts_with_def key_defs split: option.splits)
  then show ?thesis by simp
qed

lemma marshal_no_pattern:
  assumes "wf_segment compile s"
  shows "PATTERN_KEY \<notin> fst ` set (marshalJsonObject s)" "RULES_KEY \<notin> fst ` set (marshalJsonObject s)"
proof -
  have "\<not> member_key PATTERN_KEY" "\<not> member_key RULES_KEY"
    by (simp_all add: member_key_def key_defs starts_with_def)
  then show "PATTERN_KEY \<notin> fst ` set (marshalJsonObject s)" "RULES_KEY \<notin> fst ` set (marshalJsonObject s)"
    using marshal_keys [OF assms] by blast+
qed

lemma account_metadata_round: "decode_account_metadata (snd (account_metadata_json (k, d))) = Some d"
  by (cases d) (auto simp: account_metadata_json_def to_lower_def is_upper_def char_in_def)

lemma decode_entries_round:
  "distinct (map fst (l @ m)) \<Longrightarrow> decode_entries (map account_metadata_json m) l = Some (l @ m)"
proof (induction m arbitrary: l)
  case (Cons p m)
  obtain k d where p: "p = (k, d)" by (cases p)
  have j: "account_metadata_json p = (k, snd (account_metadata_json (k, d)))"
    by (simp add: p account_metadata_json_def)
  have "AList.update k d l = l @ [(k, d)]" using Cons.prems by (intro update_new) (simp add: p)
  with Cons.IH [of "l @ [(k, d)]"] Cons.prems show ?case
    by (simp add: j account_metadata_round) (simp add: p)
qed simp

lemma decode_metadata_round:
  "distinct (map fst m) \<Longrightarrow> decode_metadata (JObj (map account_metadata_json m)) = Some (Some m)"
  using decode_entries_round [of "[]" m] by simp

lemma segment_pattern_round:
  assumes "wf_segment compile s" "good_pattern compile p"
  shows "segment_pattern compile (JObj (marshalJsonObject s @
    (case p of None \<Rightarrow> [] | Some pat \<Rightarrow> [(PATTERN_KEY, JStr pat)]))) = Inr p"
proof -
  have "map_of (rev (marshalJsonObject s)) PATTERN_KEY = None"
    using marshal_no_pattern(1) [OF assms(1)] by (simp add: map_of_eq_None_iff)
  then show ?thesis using assms(2)
    by (auto simp: segment_pattern_def map_of_fold_update good_pattern_def split: option.splits)
qed

lemma segment_members_append:
  "fst ` set kvs \<inter> fst ` set kvs' = {} \<Longrightarrow> segment_members compile (kvs @ kvs') st =
     bindr (segment_members compile kvs st) (segment_members compile kvs')"
proof (induction kvs arbitrary: st)
  case (Cons p kvs)
  obtain k v where p: "p = (k, v)" by (cases p)
  have d: "fst ` set kvs \<inter> fst ` set kvs' = {}" "k \<notin> fst ` set kvs'" using Cons.prems by (auto simp: p)
  have "segment_members compile (kvs @ kvs') =
      (\<lambda>st. bindr (segment_members compile kvs st) (segment_members compile kvs'))"
    using Cons.IH [OF d(1)] by (simp add: fun_eq_iff)
  with d(2) show ?case by (simp add: p bindr_assoc)
qed simp

lemma segment_members_append3:
  assumes "distinct (map fst (a @ b @ c))"
  shows "segment_members compile (a @ b @ c) st =
    bindr (segment_members compile a st) (\<lambda>st. bindr (segment_members compile b st) (segment_members compile c))"
proof -
  have "fst ` set a \<inter> fst ` set (b @ c) = {}" "fst ` set b \<inter> fst ` set c = {}"
    using assms by (simp_all add: Int_Un_distrib image_Un)
  note m = segment_members_append [OF this(1), of compile st] segment_members_append [OF this(2), of compile]
  then show ?thesis by (simp only: m(1)) (metis m(2))
qed

lemma segment_members_skip_pattern:
  "segment_members compile [(PATTERN_KEY, v)] st = Inr st"
  by (simp add: add_property_def key_defs starts_with_def)

text \<open>The properties of an account, decoded after the subsegments.\<close>

lemma account_members_round:
  assumes "wf_account (Some a)"
  shows "segment_members compile (account_members b a) st = (Inr (st\<lparr>
     sl_isAccount := sl_isAccount st \<or> b,
     sl_account := (case ca_Metadata a of None \<Rightarrow> sl_account st | Some m \<Rightarrow> (sl_account st)\<lparr>ca_Metadata := Some m\<rparr>)\<rparr>))"
proof (cases "ca_Metadata a")
  case None
  then show ?thesis by (simp add: account_members_def add_property_def key_defs starts_with_def)
next
  case (Some m)
  with assms have "decode_entries (map account_metadata_json m) [] = Some m"
    using decode_entries_round [of "[]" m] by (simp add: wf_account_def)
  with Some show ?thesis
    by (simp add: account_members_def add_property_def key_defs starts_with_def)
qed

definition pattern_member :: "string option \<Rightarrow> (string \<times> json) list" where
  "pattern_member p = (case p of None \<Rightarrow> [] | Some pat \<Rightarrow> [(PATTERN_KEY, JStr pat)])"

definition after_fixed :: "(string \<times> chart_segment) list \<Rightarrow> segment_loop \<Rightarrow> segment_loop" where
  "after_fixed fs st = st\<lparr>sl_fixed := sl_fixed st @ fs, sl_isLeaf := (sl_isLeaf st \<and> fs = [])\<rparr>"

lemma fixed_member_step:
  assumes "fixed_key k" "k \<notin> fst ` set kvs" "k \<notin> fst ` set (sl_fixed st)"
    "segment_pattern compile j = Inr None" "segment_Unmarshal compile j = Inr seg"
  shows "segment_members compile ((k, j) # kvs) st = segment_members compile kvs (after_fixed [(k, seg)] st)"
  using assms by (simp add: fixed_key_def add_subsegment_def update_new after_fixed_def)

lemma variable_member_step:
  assumes "ValidateSegment (CHR ''$'' # l)" "sl_variable st = None" "CHR ''$'' # l \<notin> fst ` set kvs"
    "segment_pattern compile j = Inr p" "segment_Unmarshal compile j = Inr seg"
  shows "segment_members compile ((CHR ''$'' # l, j) # kvs) st = segment_members compile kvs
    (st\<lparr>sl_variable := Some (ChartVariableSegment seg p l), sl_isLeaf := False\<rparr>)"
  using assms by (simp add: add_subsegment_def starts_with_def)

lemma dollar_not_fixed: "list_all fixed_key ks \<Longrightarrow> CHR ''$'' # l \<notin> set ks"
  by (auto simp: list_all_iff fixed_key_def starts_with_def)

text \<open>A segment from what its parts decode to.\<close>

lemma segment_round:
  assumes wf: "wf_segment compile (ChartSegment v fs acc)"
    and fs: "\<And>st. distinct (map fst (sl_fixed st @ fs)) \<Longrightarrow>
        segment_members compile (fixed_members fs) st = Inr (after_fixed fs st)"
    and v: "\<And>x. v = Some x \<Longrightarrow> segment_pattern compile (variable_Marshal x) = Inr (cv_Pattern x) \<and>
        segment_Unmarshal compile (variable_Marshal x) = Inr (cv_Segment x)"
  shows "segment_Unmarshal compile (JObj (marshalJsonObject (ChartSegment v fs acc) @ pattern_member p)) =
    Inr (ChartSegment v fs acc)"
proof -
  let ?s = "ChartSegment v fs acc"
  let ?V = "case v of None \<Rightarrow> [] | Some x \<Rightarrow> [(CHR ''$'' # cv_Label x, variable_Marshal x)]"
  let ?A = "case acc of None \<Rightarrow> [] | Some a \<Rightarrow> account_members (fs \<noteq> [] \<or> v \<noteq> None) a"
  have w: "wf_fixed compile fs" "acc = None \<Longrightarrow> fs \<noteq> [] \<or> v \<noteq> None" "wf_account acc"
    "\<And>x. v = Some x \<Longrightarrow> ValidateSegment (CHR ''$'' # cv_Label x)"
    using wf by (auto elim: wf_variable.elims)
  have d: "distinct (map fst (marshalJsonObject ?s))" using marshal_keys [OF wf] by blast
  have P: "fst ` set (marshalJsonObject ?s) \<inter> fst ` set (pattern_member p) = {}"
    using marshal_no_pattern(1) [OF wf]
    by (cases p) (simp_all add: pattern_member_def del: marshalJsonObject.simps)
  let ?st = "segment_loop_start\<lparr>sl_fixed := fs, sl_isLeaf := (fs = [])\<rparr>"
  let ?sv = "case v of None \<Rightarrow> ?st | Some x \<Rightarrow> ?st\<lparr>sl_variable := Some x, sl_isLeaf := False\<rparr>"
  have "segment_members compile (fixed_members fs) segment_loop_start = Inr ?st"
    using fs [of segment_loop_start] wf_fixed_keys [OF w(1)]
    by (simp add: segment_loop_start_def after_fixed_def)
  moreover have "segment_members compile ?V ?st = Inr ?sv"
  proof (cases v)
    case (Some x)
    obtain seg q l where x: "x = ChartVariableSegment seg q l" by (cases x)
    show ?thesis using variable_member_step [OF w(4) [OF Some], of ?st "[]"] v [OF Some]
      by (simp add: Some x segment_loop_start_def)
  qed simp
  moreover have "segment_members compile ?A ?sv = Inr (case acc of None \<Rightarrow> ?sv | Some a \<Rightarrow>
      ?sv\<lparr>sl_isAccount := (fs \<noteq> [] \<or> v \<noteq> None), sl_account := a\<rparr>)"
    using w(3) account_members_round
    by (cases acc; cases v)
      (auto simp: segment_loop_start_def split: option.splits intro!: chart_account.equality)
  moreover have "segment_members compile (marshalJsonObject ?s) st =
      bindr (segment_members compile (fixed_members fs) st) (\<lambda>st.
      bindr (segment_members compile ?V st) (segment_members compile ?A))" for st
    using d unfolding marshalJsonObject.simps by (rule segment_members_append3)
  ultimately have m: "segment_members compile (marshalJsonObject ?s) segment_loop_start = Inr
      (case acc of None \<Rightarrow> ?sv | Some a \<Rightarrow> ?sv\<lparr>sl_isAccount := (fs \<noteq> [] \<or> v \<noteq> None), sl_account := a\<rparr>)"
    by simp
  have "segment_members compile (pattern_member p) st = Inr st" for st
    using segment_members_skip_pattern by (simp add: pattern_member_def split: option.splits)
  with m have "segment_members compile (marshalJsonObject ?s @ pattern_member p) segment_loop_start = Inr
      (case acc of None \<Rightarrow> ?sv | Some a \<Rightarrow> ?sv\<lparr>sl_isAccount := (fs \<noteq> [] \<or> v \<noteq> None), sl_account := a\<rparr>)"
    using segment_members_append [OF P] by (simp del: marshalJsonObject.simps)
  moreover have "\<not> List.member (map fst (marshalJsonObject ?s @ pattern_member p)) RULES_KEY"
    using marshal_no_pattern(2) [OF wf]
    by (cases p) (simp_all add: pattern_member_def key_defs del: marshalJsonObject.simps)
  moreover have dot: "\<not> fixed_key METADATA_KEY" by (simp add: fixed_key_def starts_with_def key_defs)
  have "METADATA_KEY \<notin> set (map fst fs)"
    using wf_fixed_keys [OF w(1)] dot by (metis list_all_iff)
  then have "acc = None \<Longrightarrow> \<not> List.member (map fst (marshalJsonObject ?s @ pattern_member p)) METADATA_KEY"
    by (cases p; cases v) (simp_all add: fixed_keys pattern_member_def key_defs flip: set_map)
  ultimately show ?thesis using w(2)
    by (cases acc; cases v) (auto simp: finish_segment_def segment_loop_start_def Let_def
      simp del: marshalJsonObject.simps)
qed

lemma segment_roundtrip:
  "wf_segment compile s \<Longrightarrow> segment_Unmarshal compile (JObj (marshalJsonObject s @ pattern_member p)) = Inr s"
and variable_roundtrip:
  "wf_variable compile x \<Longrightarrow> segment_pattern compile (variable_Marshal x) = Inr (cv_Pattern x) \<and>
     segment_Unmarshal compile (variable_Marshal x) = Inr (cv_Segment x)"
and fixed_roundtrip:
  "wf_fixed compile fs \<Longrightarrow> distinct (map fst (sl_fixed st @ fs)) \<Longrightarrow>
     segment_members compile (fixed_members fs) st = Inr (after_fixed fs st)"
proof (induction s and x and fs arbitrary: p and and st rule: marshalJsonObject_variable_Marshal_fixed_members.induct)
  case (1 v fs acc)
  from 1(3) have w: "wf_fixed compile fs" "\<And>x. v = Some x \<Longrightarrow> wf_variable compile x" by auto
  show ?case by (rule segment_round [OF 1(3)]) (use 1(1) [OF w(1)] 1(2) w(2) in blast)+
next
  case (2 s pattern label)
  then show ?case
    using segment_pattern_round [of compile s pattern] by (simp add: pattern_member_def)
next
  case 3
  then show ?case by (simp add: after_fixed_def)
next
  case (4 k s fs)
  have w: "fixed_key k" "k \<notin> fst ` set fs" "wf_segment compile s" "wf_fixed compile fs"
    using 4(3) by auto
  have "segment_members compile (fixed_members ((k, s) # fs)) st =
      segment_members compile (fixed_members fs) (after_fixed [(k, s)] st)"
    unfolding fixed_members.simps
  proof (rule fixed_member_step [OF w(1)])
    show "k \<notin> fst ` set (fixed_members fs)" using w(2) fixed_keys by (metis set_map)
    show "k \<notin> fst ` set (sl_fixed st)" using 4(4) by auto
    show "segment_pattern compile (JObj (marshalJsonObject s)) = Inr None"
      using segment_pattern_round [OF w(3), of None] by (simp add: good_pattern_def)
    show "segment_Unmarshal compile (JObj (marshalJsonObject s)) = Inr s"
      using 4(1) [OF w(3), of None] by (simp add: pattern_member_def)
  qed
  also have "\<dots> = Inr (after_fixed ((k, s) # fs) st)"
    using 4(2) [OF w(4), of "after_fixed [(k, s)] st"] 4(4) by (simp add: after_fixed_def)
  finally show ?case .
qed

definition wf_chart :: "(string \<Rightarrow> (string \<Rightarrow> bool) option) \<Rightarrow> chart \<Rightarrow> bool" where
  "wf_chart compile c = wf_fixed compile c"

lemma wf_no_pattern:
  "wf_segment compile s \<Longrightarrow> map_of (rev (marshalJsonObject s)) PATTERN_KEY = None"
  using marshal_no_pattern(1) by (simp add: map_of_eq_None_iff)

lemma chart_members_round:
  "wf_fixed compile c \<Longrightarrow> distinct (map fst (out @ c)) \<Longrightarrow>
     chart_members compile (fixed_members c) out = Inr (out @ c)"
proof (induction c arbitrary: out)
  case (Cons x c)
  obtain k s where x: "x = (k, s)" by (cases x)
  have w: "fixed_key k" "wf_segment compile s" "wf_fixed compile c" using Cons.prems(1) by (auto simp: x)
  have "segment_Unmarshal compile (JObj (marshalJsonObject s)) = Inr s"
    using segment_roundtrip [OF w(2), of None] by (simp add: pattern_member_def)
  moreover have "AList.update k s out = out @ [(k, s)]"
    using Cons.prems(2) by (intro update_new) (simp add: x)
  moreover have "distinct (map fst ((out @ [(k, s)]) @ c))" using Cons.prems(2) by (simp add: x)
  ultimately show ?case
    using w(1) Cons.IH [OF w(3), of "out @ [(k, s)]"] wf_no_pattern [OF w(2)]
    by (simp add: x fixed_key_def map_of_fold_update)
qed simp

lemma chart_decodes_its_encoding:
  assumes "wf_chart compile c"
  shows "ChartOfAccounts_Unmarshal compile (ChartOfAccounts_Marshal c) = Inr c"
proof -
  have d: "distinct (map fst (fixed_members c))" "wf_fixed compile c" "distinct (map fst c)"
    using assms wf_fixed_keys [of compile c] by (simp_all add: wf_chart_def fixed_keys)
  have "fold (\<lambda>(k, v). AList.update k v) (fixed_members c) [] = fixed_members c"
    using fold_update_distinct [of "[]" "fixed_members c"] d by simp
  then show ?thesis using chart_members_round [OF d(2), of "[]"] d(3)
    by (simp add: ChartOfAccounts_Unmarshal_def ChartOfAccounts_Marshal_def)
qed

lemma wf_fixed_update:
  "wf_fixed compile fs \<Longrightarrow> fixed_key k \<Longrightarrow> wf_segment compile s \<Longrightarrow> wf_fixed compile (AList.update k s fs)"
proof (induction fs)
  case (Cons x fs)
  obtain j t where x: "x = (j, t)" by (cases x)
  show ?case
  proof (cases "j = k")
    case False
    with Cons have "wf_fixed compile (AList.update k s fs)" by (simp add: x)
    with False Cons.prems show ?thesis by (simp add: x alist_simps)
  qed (use Cons.prems in \<open>simp add: x\<close>)
qed simp

definition wf_loop :: "(string \<Rightarrow> (string \<Rightarrow> bool) option) \<Rightarrow> segment_loop \<Rightarrow> bool" where
  "wf_loop compile st \<longleftrightarrow> wf_fixed compile (sl_fixed st) \<and>
     (\<forall>x. sl_variable st = Some x \<longrightarrow> wf_variable compile x) \<and> wf_account (Some (sl_account st)) \<and>
     (sl_isLeaf st \<or> sl_fixed st \<noteq> [] \<or> sl_variable st \<noteq> None)"

lemma wf_loop_start: "wf_loop compile segment_loop_start"
  by (simp add: wf_loop_def segment_loop_start_def wf_account_def)

lemma update_not_Nil: "AList.update k v al \<noteq> []"
  by simp

lemma decode_entries_distinct:
  "decode_entries kvs m = Some m' \<Longrightarrow> distinct (map fst m) \<Longrightarrow> distinct (map fst m')"
  by (induction kvs arbitrary: m) (auto simp: alist_simps split: bind_splits)

lemma decode_metadata_distinct:
  "decode_metadata v = Some (Some m) \<Longrightarrow> distinct (map fst m)"
  by (cases v) (auto dest: decode_entries_distinct)

lemma add_property_wf:
  "add_property k v st = Inr st' \<Longrightarrow> wf_loop compile st \<Longrightarrow> wf_loop compile st'"
  by (auto simp: add_property_def wf_loop_def wf_account_def dest: decode_metadata_distinct
      split: if_splits option.splits)

lemma add_subsegment_wf:
  "add_subsegment k p seg st = Inr st' \<Longrightarrow> wf_loop compile st \<Longrightarrow> ValidateSegment k \<Longrightarrow>
     \<not> starts_with CHR ''.'' k \<Longrightarrow> good_pattern compile p \<Longrightarrow> wf_segment compile seg \<Longrightarrow>
     wf_loop compile st'"
  by (cases k) (auto simp: add_subsegment_def wf_loop_def starts_with_def fixed_key_def wf_fixed_update
      split: if_splits)

lemma segment_pattern_good: "segment_pattern compile v = Inr p \<Longrightarrow> good_pattern compile p"
  by (auto simp: segment_pattern_def good_pattern_def split: option.splits json.splits if_splits)

lemma finish_segment_wf:
  "finish_segment ks st = Inr s \<Longrightarrow> wf_loop compile st \<Longrightarrow> wf_segment compile s"
  by (auto simp: finish_segment_def wf_loop_def wf_account_def Let_def split: if_splits option.splits)

lemma segment_Unmarshal_wf: "segment_Unmarshal compile j = Inr s \<Longrightarrow> wf_segment compile s"
  and segment_members_wf:
    "segment_members compile kvs st = Inr st' \<Longrightarrow> wf_loop compile st \<Longrightarrow> wf_loop compile st'"
proof (induction compile j and compile kvs st arbitrary: s and st' rule: segment_Unmarshal_segment_members.induct)
  case (1 compile)
  then show ?case using finish_segment_wf wf_loop_start by fastforce
next
  case (2 compile kvs)
  then show ?case using finish_segment_wf wf_loop_start by (fastforce simp: result_simps)
next
  case (8 compile key val kvs s)
  show ?case
  proof (cases "List.member (map fst kvs) key")
    case True
    with 8 show ?thesis by simp
  next
    case False
    let ?step = "if \<not> starts_with CHR ''.'' key
       then if \<not> ValidateSegment key then raise (InvalidSegmentName key)
            else bindr (segment_pattern compile val) (\<lambda>pattern.
                 bindr (segment_Unmarshal compile val) (\<lambda>segment.
                 add_subsegment key pattern segment s))
       else add_property key val s"
    from 8(4) False have "bindr ?step (segment_members compile kvs) = Inr st'"
      by (simp only: segment_members.simps if_False)
    then obtain s1 where s1: "?step = Inr s1" "segment_members compile kvs s1 = Inr st'"
      unfolding bindr_eq_Inr by blast
    have "wf_loop compile s1"
    proof (cases "starts_with CHR ''.'' key")
      case True
      with s1(1) 8(5) show ?thesis using add_property_wf by simp
    next
      case dot: False
      with s1(1) obtain p seg where q: "ValidateSegment key" "segment_pattern compile val = Inr p"
        "segment_Unmarshal compile val = Inr seg" "add_subsegment key p seg s = Inr s1"
        by (auto simp: result_simps split: if_splits)
      show ?thesis
        by (rule add_subsegment_wf [OF q(4) 8(5) q(1) dot segment_pattern_good [OF q(2)]])
          (use 8(2) False dot q in auto)
    qed
    with 8(3) False s1(2) show ?thesis by blast
  qed
qed simp_all

lemma chart_members_wf:
  "chart_members compile kvs out = Inr c \<Longrightarrow> wf_chart compile out \<Longrightarrow> wf_chart compile c"
proof (induction compile kvs out rule: chart_members.induct)
  case (2 compile key val kvs out)
  from 2(2) obtain m seg where q: "fixed_key key" "json_map val = Some m" "map_of m PATTERN_KEY = None"
    "segment_Unmarshal compile val = Inr seg"
    "chart_members compile kvs (AList.update key seg out) = Inr c"
    by (auto simp: fixed_key_def result_simps split: if_splits option.splits)
  have "wf_chart compile (AList.update key seg out)"
    using 2(3) q(1) segment_Unmarshal_wf [OF q(4)] by (simp add: wf_chart_def wf_fixed_update)
  with 2(1) q show ?case by (auto simp: fixed_key_def)
qed simp

lemma ChartOfAccounts_Unmarshal_wf:
  "ChartOfAccounts_Unmarshal compile j = Inr c \<Longrightarrow> wf_chart compile c"
  by (auto simp: ChartOfAccounts_Unmarshal_def wf_chart_def split: option.splits
      dest!: chart_members_wf)

section \<open>Finding accounts\<close>

lemma wf_fixed_get: "wf_fixed compile fs \<Longrightarrow> map_of fs k = Some s \<Longrightarrow> wf_segment compile s"
  by (induction fs) (auto split: if_splits)

lemma wf_segment_parts:
  "wf_segment compile s \<Longrightarrow> wf_fixed compile (cs_FixedSegments s) \<and>
     (\<forall>x. cs_VariableSegment s = Some x \<longrightarrow> wf_variable compile x)"
  by (cases s) auto

lemma wf_variable_parts:
  "wf_variable compile x \<Longrightarrow> wf_segment compile (cv_Segment x) \<and> good_pattern compile (cv_Pattern x)"
  by (cases x) auto

lemma pattern_matches_good: "good_pattern compile p \<Longrightarrow> \<exists>b. pattern_matches compile p k = Inr b"
  by (auto simp: pattern_matches_def good_pattern_def split: option.splits)

lemma findAccountSchema_errors:
  "wf_fixed compile fs \<Longrightarrow> (\<forall>x. v = Some x \<longrightarrow> wf_variable compile x) \<Longrightarrow> account \<noteq> [] \<Longrightarrow>
     findAccountSchema compile path fs v account = Inl e \<Longrightarrow> \<exists>i. e = Raised (InvalidAccount i)"
proof (induction compile path fs v account rule: findAccountSchema.induct)
  case (2 compile path fs v k rest)
  have enter: "\<exists>i. e = Raised (InvalidAccount i)"
    if "wf_segment compile s"
      "(if rest \<noteq> [] then findAccountSchema compile (path @ [k]) (cs_FixedSegments s) (cs_VariableSegment s) rest
        else case cs_Account s of Some a \<Rightarrow> Inr a | None \<Rightarrow> raise (InvalidAccount i)) = Inl e" for s i
  proof (cases "rest = []")
    case True
    with that show ?thesis by (auto simp: raise_def split: option.splits)
  next
    case False
    with that(2) have "findAccountSchema compile (path @ [k]) (cs_FixedSegments s) (cs_VariableSegment s) rest = Inl e"
      by simp
    with 2(1) [OF refl False] wf_segment_parts [OF that(1)] False show ?thesis by blast
  qed
  show ?case
  proof (cases "map_of fs k")
    case (Some s)
    have w: "wf_segment compile s" by (rule wf_fixed_get [OF 2(2) Some])
    show ?thesis
      by (rule enter [OF w]) (use 2(5) Some in \<open>simp add: Let_def\<close>)
  next
    case None
    show ?thesis
    proof (cases v)
      case v: (Some x)
      have w: "wf_segment compile (cv_Segment x)" "good_pattern compile (cv_Pattern x)"
        using 2(3) v wf_variable_parts by blast+
      from pattern_matches_good [OF w(2)] obtain b where b: "pattern_matches compile (cv_Pattern x) k = Inr b"
        by blast
      show ?thesis
      proof (cases b)
        case True
        show ?thesis
          by (rule enter [OF w(1)]) (use 2(5) None v b True in \<open>simp add: Let_def\<close>)
      next
        case False
        with 2(5) None v b show ?thesis by (auto simp: Let_def raise_def)
      qed
    qed (use 2(5) None in \<open>auto simp: Let_def raise_def\<close>)
  qed
qed simp

lemma FindAccountSchema_errors:
  assumes "wf_chart compile c" "FindAccountSchema compile c account = Inl e"
  shows "\<exists>i. e = Raised (InvalidAccount i)"
  using findAccountSchema_errors [of compile c None "split_on CHR '':'' account" "[]" e] assms
  by (simp add: wf_chart_def FindAccountSchema_def)

text \<open>
  Claim C40. A decoded chart survives being written and read again: encoding it and decoding the
  result gives the same chart, and looking an address up in it never fails with a bad pattern
  or a panic, only with the address not being in the chart.
\<close>

theorem decoded_charts_are_stable:
  assumes "ChartOfAccounts_Unmarshal compile j = Inr c"
  shows "ChartOfAccounts_Unmarshal compile (ChartOfAccounts_Marshal c) = Inr c \<and>
    (\<forall>account e. FindAccountSchema compile c account = Inl e \<longrightarrow> (\<exists>i. e = Raised (InvalidAccount i)))"
  using chart_decodes_its_encoding FindAccountSchema_errors ChartOfAccounts_Unmarshal_wf [OF assms]
  by blast

definition sample_chart_json :: json where
  "sample_chart_json = JObj [(''bank'', JObj [(''.metadata'', JObj [(''kind'', JObj [(''default'', JStr ''b'')])]),
     (''$id'', JObj [(''.pattern'', JStr ''p''), (''main'', JObj [])]), (''.self'', JObj [])])]"

definition sample_chart :: chart where
  "sample_chart = [(''bank'', ChartSegment
     (Some (ChartVariableSegment (ChartSegment None [(''main'', ChartSegment None [] (Some \<lparr>ca_Metadata = None\<rparr>))] None)
       (Some ''p'') ''id''))
     [] (Some \<lparr>ca_Metadata = Some [(''kind'', Some ''b'')]\<rparr>))]"

lemma sample_chart_decodes:
  "ChartOfAccounts_Unmarshal (\<lambda>_. Some (\<lambda>s. s = ''7'')) sample_chart_json = Inr sample_chart"
  by code_simp

theorem decoded_charts_are_stable_witness:
  "ChartOfAccounts_Unmarshal (\<lambda>_. Some (\<lambda>s. s = ''7'')) (ChartOfAccounts_Marshal sample_chart) = Inr sample_chart \<and>
   FindAccountSchema (\<lambda>_. Some (\<lambda>s. s = ''7'')) sample_chart ''bank:7:main'' = Inr \<lparr>ca_Metadata = None\<rparr>"
proof
  show "ChartOfAccounts_Unmarshal (\<lambda>_. Some (\<lambda>s. s = ''7'')) (ChartOfAccounts_Marshal sample_chart) = Inr sample_chart"
    using decoded_charts_are_stable [OF sample_chart_decodes] by blast
  show "FindAccountSchema (\<lambda>_. Some (\<lambda>s. s = ''7'')) sample_chart ''bank:7:main'' = Inr \<lparr>ca_Metadata = None\<rparr>"
    by code_simp
qed

end
