(* ===== verification/Ledger_Log.thy ===== *)
theory Ledger_Log
  imports Chart
begin

text \<open>
  Schemas (\<open>internal/schema.go\<close>, \<open>transaction_templates.go\<close>), accounts to upsert
  (\<open>transaction.go\<close>) and logs (\<open>internal/log.go\<close>): their payloads, mementos, the chain of hashes
  and the validation of a log against a schema, which compares the postings of a created transaction with the
  chart and nothing of the other payloads. JSON encoding followed by SHA-256 is the parameter \<open>sha256\<close> on the
  values that are encoded, one after the other; the last section takes it apart into an encoder and a digest.
\<close>

section \<open>Schemas\<close>

text \<open>The runtimes are strings; the two the code knows are \<open>RuntimeType\<close> constants.\<close>

definition RuntimeMachine :: string where
  "RuntimeMachine = ''machine''"

definition RuntimeExperimentalInterpreter :: string where
  "RuntimeExperimentalInterpreter = ''experimental-interpreter''"

record transaction_template =
  tt_Description :: string
  tt_Script :: string
  tt_Runtime :: string

definition runtime_known :: "string \<Rightarrow> bool" where
  "runtime_known r \<longleftrightarrow> List.member [[], RuntimeMachine, RuntimeExperimentalInterpreter] r"

fun TransactionTemplates_Validate ::
    "(string \<times> transaction_template) list \<Rightarrow> (string, unit) result" where
  "TransactionTemplates_Validate [] = Inr ()"
| "TransactionTemplates_Validate ((_, t) # ts) =
     (if \<not> runtime_known (tt_Runtime t)
      then raise (''unexpected runtime `'' @ tt_Runtime t @ ''`'')
      else TransactionTemplates_Validate ts)"

text \<open>A chart that is \<open>None\<close> is a nil map. Query templates are kept as their JSON.\<close>

record schema_data =
  sd_Chart :: "chart option"
  sd_Transactions :: "(string \<times> transaction_template) list"
  sd_Queries :: "(string \<times> json) list"

record schema = schema_data +
  sc_Version :: string
  sc_CreatedAt :: time

definition schema_chart :: "schema \<Rightarrow> chart" where
  "schema_chart s = (case sd_Chart s of None \<Rightarrow> [] | Some c \<Rightarrow> c)"

text \<open>\<open>validate_queries\<close> is \<open>QueryTemplates.Validate\<close>: the first error of a query template.\<close>

definition NewSchema ::
    "((string \<times> json) list \<Rightarrow> string option) \<Rightarrow> string \<Rightarrow> schema_data \<Rightarrow> (string, schema) result" where
  "NewSchema validate_queries version data =
     (if sd_Chart data = None then raise ''missing chart of accounts''
      else bindr (TransactionTemplates_Validate (sd_Transactions data)) (\<lambda>_.
        case validate_queries (sd_Queries data) of
          Some e \<Rightarrow> raise e
        | None \<Rightarrow> Inr \<lparr>sd_Chart = sd_Chart data, sd_Transactions = sd_Transactions data,
            sd_Queries = sd_Queries data, sc_Version = version, sc_CreatedAt = zero_time\<rparr>))"

section \<open>Accounts of a transaction\<close>

record account =
  ac_Address :: string
  ac_Metadata :: metadata_map
  ac_FirstUsage :: time
  ac_InsertionDate :: time
  ac_UpdatedAt :: time

record account_with_default = account +
  ac_DefaultMetadata :: metadata_map

type_synonym account_metadata = "(string \<times> metadata_map) list"

definition default_metadata ::
    "(string \<Rightarrow> (string \<Rightarrow> bool) option) \<Rightarrow> schema option \<Rightarrow> string \<Rightarrow> metadata_map" where
  "default_metadata compile schema address =
     (case schema of
        None \<Rightarrow> []
      | Some s \<Rightarrow> (case FindAccountSchema compile (schema_chart s) address of
            Inr a \<Rightarrow> DefaultMetadata a
          | Inl _ \<Rightarrow> []))"

definition AccountsWithDefaultMetadata ::
    "(string \<Rightarrow> (string \<Rightarrow> bool) option) \<Rightarrow> transaction \<Rightarrow> schema option \<Rightarrow> account_metadata \<Rightarrow>
     account_with_default list" where
  "AccountsWithDefaultMetadata compile tx schema accountMetadata =
     map (\<lambda>address. \<lparr>ac_Address = address,
            ac_Metadata = (case map_of accountMetadata address of None \<Rightarrow> [] | Some m \<Rightarrow> m),
            ac_FirstUsage = tx_Timestamp tx, ac_InsertionDate = tx_InsertedAt tx,
            ac_UpdatedAt = tx_InsertedAt tx,
            ac_DefaultMetadata = default_metadata compile schema address\<rparr>)
       (sort_compact (InvolvedAccounts tx @ map fst accountMetadata))"

section \<open>Log payloads\<close>

datatype log_type =
    SetMetadataLogType
  | NewTransactionLogType
  | RevertedTransactionLogType
  | DeleteMetadataLogType
  | InsertedSchemaLogType

definition log_type_String :: "log_type \<Rightarrow> string" where
  "log_type_String lt =
     (case lt of
        SetMetadataLogType \<Rightarrow> ''SET_METADATA''
      | NewTransactionLogType \<Rightarrow> ''NEW_TRANSACTION''
      | RevertedTransactionLogType \<Rightarrow> ''REVERTED_TRANSACTION''
      | DeleteMetadataLogType \<Rightarrow> ''DELETE_METADATA''
      | InsertedSchemaLogType \<Rightarrow> ''INSERTED_SCHEMA'')"

definition LogTypeFromString :: "string \<Rightarrow> (unit, log_type) result" where
  "LogTypeFromString s =
     (if s = ''SET_METADATA'' then Inr SetMetadataLogType
      else if s = ''NEW_TRANSACTION'' then Inr NewTransactionLogType
      else if s = ''REVERTED_TRANSACTION'' then Inr RevertedTransactionLogType
      else if s = ''DELETE_METADATA'' then Inr DeleteMetadataLogType
      else if s = ''INSERTED_SCHEMA'' then Inr InsertedSchemaLogType
      else panic)"

definition MetaTargetTypeAccount :: string where
  "MetaTargetTypeAccount = ''ACCOUNT''"

definition MetaTargetTypeTransaction :: string where
  "MetaTargetTypeTransaction = ''TRANSACTION''"

text \<open>The target of metadata is of type \<open>any\<close>: an address or a transaction id.\<close>

datatype target_id = TargetAddress string | TargetTransaction nat

datatype log_payload =
    CreatedTransaction transaction account_metadata
  | SavedMetadata string target_id metadata_map
  | DeletedMetadata string target_id string
  | RevertedTransaction transaction transaction
  | InsertedSchema schema

fun payload_Type :: "log_payload \<Rightarrow> log_type" where
  "payload_Type (CreatedTransaction _ _) = NewTransactionLogType"
| "payload_Type (SavedMetadata _ _ _) = SetMetadataLogType"
| "payload_Type (DeletedMetadata _ _ _) = DeleteMetadataLogType"
| "payload_Type (RevertedTransaction _ _) = RevertedTransactionLogType"
| "payload_Type (InsertedSchema _) = InsertedSchemaLogType"

fun NeedsSchema :: "log_type \<Rightarrow> bool" where
  "NeedsSchema InsertedSchemaLogType = False"
| "NeedsSchema _ = True"

fun postings_match ::
    "(string \<Rightarrow> (string \<Rightarrow> bool) option) \<Rightarrow> chart \<Rightarrow> posting list \<Rightarrow> (find_error, unit) result" where
  "postings_match compile c [] = Inr ()"
| "postings_match compile c (p # ps) = bindr (ValidatePosting compile c p) (\<lambda>_. postings_match compile c ps)"

fun ValidateWithSchema ::
    "(string \<Rightarrow> (string \<Rightarrow> bool) option) \<Rightarrow> log_payload \<Rightarrow> schema \<Rightarrow> (find_error, unit) result" where
  "ValidateWithSchema compile (CreatedTransaction tx _) schema =
     postings_match compile (schema_chart schema) (tx_Postings tx)"
| "ValidateWithSchema compile _ schema = Inr ()"

section \<open>Logs and their hashes\<close>

text \<open>What of a transaction takes part in the hash: \<open>transactionResume\<close>.\<close>

record transaction_resume =
  tr_Postings :: "posting list"
  tr_Metadata :: metadata_map
  tr_Timestamp :: time
  tr_Reference :: string
  tr_ID :: "nat option"
  tr_Reverted :: bool

definition resume :: "transaction \<Rightarrow> transaction_resume" where
  "resume tx = \<lparr>tr_Postings = tx_Postings tx, tr_Metadata = tx_Metadata tx,
     tr_Timestamp = tx_Timestamp tx, tr_Reference = tx_Reference tx, tr_ID = tx_ID tx,
     tr_Reverted = False\<rparr>"

datatype memento =
    CreatedMemento transaction_resume account_metadata
  | RevertedMemento nat transaction_resume
  | PayloadMemento log_payload

fun GetMemento :: "log_payload \<Rightarrow> ('e, memento) result" where
  "GetMemento (CreatedTransaction tx am) = Inr (CreatedMemento (resume tx) am)"
| "GetMemento (RevertedTransaction reverted tx) =
     (case tx_ID reverted of None \<Rightarrow> panic | Some i \<Rightarrow> Inr (RevertedMemento i (resume tx)))"
| "GetMemento p = Inr (PayloadMemento p)"

type_synonym hash = string

record log =
  lg_Type :: log_type
  lg_Data :: log_payload
  lg_Date :: time
  lg_IdempotencyKey :: string
  lg_IdempotencyHash :: string
  lg_ID :: "nat option"
  lg_Hash :: hash
  lg_SchemaVersion :: string

definition NewLog :: "log_payload \<Rightarrow> log" where
  "NewLog p = \<lparr>lg_Type = payload_Type p, lg_Data = p, lg_Date = zero_time, lg_IdempotencyKey = [],
     lg_IdempotencyHash = [], lg_ID = None, lg_Hash = [], lg_SchemaVersion = []\<rparr>"

text \<open>The values given to the encoder: the previous hash and the log without its id.\<close>

datatype encoded =
    EncodedHash hash
  | EncodedLog log_type memento time string hash string

definition ComputeHash ::
    "(encoded list \<Rightarrow> hash) \<Rightarrow> log option \<Rightarrow> log \<Rightarrow> ('e, log) result" where
  "ComputeHash sha256 previous l =
     bindr (GetMemento (lg_Data l)) (\<lambda>m.
       Inr (l\<lparr>lg_Hash := sha256
         ((case previous of None \<Rightarrow> [] | Some p \<Rightarrow> [EncodedHash (lg_Hash p)]) @
          [EncodedLog (lg_Type l) m (lg_Date l) (lg_IdempotencyKey l) (lg_Hash l) (lg_SchemaVersion l)])\<rparr>))"

definition ChainLog ::
    "(encoded list \<Rightarrow> hash) \<Rightarrow> log option \<Rightarrow> log \<Rightarrow> ('e, log) result" where
  "ChainLog sha256 previous l =
     bindr (ComputeHash sha256 previous l) (\<lambda>l.
       case previous of
         None \<Rightarrow> Inr (l\<lparr>lg_ID := Some 1\<rparr>)
       | Some p \<Rightarrow> (case lg_ID p of None \<Rightarrow> panic | Some i \<Rightarrow> Inr (l\<lparr>lg_ID := Some (i + 1)\<rparr>)))"

lemma log_type_round: "LogTypeFromString (log_type_String lt) = Inr lt"
  by (cases lt) (simp_all add: LogTypeFromString_def log_type_String_def)

lemma postings_match_all:
  "postings_match compile c ps = Inr () \<longleftrightarrow> list_all (\<lambda>p. ValidatePosting compile c p = Inr ()) ps"
  by (induction ps) (auto simp: result_simps)

section \<open>The chain is tamper-evident\<close>

fun chain_logs :: "(encoded list \<Rightarrow> hash) \<Rightarrow> log option \<Rightarrow> log list \<Rightarrow> (unit, log list) result" where
  "chain_logs sha256 previous [] = Inr []"
| "chain_logs sha256 previous (l # ls) =
     bindr (ChainLog sha256 previous l) (\<lambda>c. bindr (chain_logs sha256 (Some c) ls) (\<lambda>cs. Inr (c # cs)))"

text \<open>
  The hash of \<open>ComputeHash\<close>: an encoder of JSON writes the values one after the other into a digest. The two
  are parameters. Of the encoder the chain needs what the documentation of \<open>encoding/json\<close> says: \<open>Encode\<close>
  writes the value followed by a newline and nothing else on several lines (control characters are escaped in
  strings), and the base64 of different hashes is different. It may write different values alike, as two maps
  that list the same keys in another order. Nothing is needed of the digest.
\<close>

definition hash_of :: "(string \<Rightarrow> hash) \<Rightarrow> (encoded \<Rightarrow> string) \<Rightarrow> encoded list \<Rightarrow> hash" where
  "hash_of digest encode es = digest (concat (map encode es))"

definition newline :: char where
  "newline = CHR 0x0A"

definition encodes_lines :: "(encoded \<Rightarrow> string) \<Rightarrow> bool" where
  "encodes_lines encode \<longleftrightarrow> (\<forall>e. \<exists>line. encode e = line @ [newline] \<and> newline \<notin> set line)"

definition encodes_hashes :: "(encoded \<Rightarrow> string) \<Rightarrow> bool" where
  "encodes_hashes encode \<longleftrightarrow> (\<forall>h h'. encode (EncodedHash h) = encode (EncodedHash h') \<longrightarrow> h = h')"

text \<open>What of a log the hash depends on, its line of JSON, and the bytes that go into the digest.\<close>

definition hashed :: "log \<Rightarrow> (unit, encoded) result" where
  "hashed l = bindr (GetMemento (lg_Data l)) (\<lambda>m. Inr
     (EncodedLog (lg_Type l) m (lg_Date l) (lg_IdempotencyKey l) (lg_Hash l) (lg_SchemaVersion l)))"

definition log_line :: "(encoded \<Rightarrow> string) \<Rightarrow> log \<Rightarrow> string" where
  "log_line encode l = (case hashed l of Inl _ \<Rightarrow> [] | Inr e \<Rightarrow> encode e)"

definition previous_line :: "(encoded \<Rightarrow> string) \<Rightarrow> log option \<Rightarrow> string" where
  "previous_line encode previous = (case previous of None \<Rightarrow> [] | Some p \<Rightarrow> encode (EncodedHash (lg_Hash p)))"

definition digest_input :: "(encoded \<Rightarrow> string) \<Rightarrow> log option \<Rightarrow> log \<Rightarrow> string" where
  "digest_input encode previous l = previous_line encode previous @ log_line encode l"

text \<open>The inputs of the digest along the chain \<open>cs\<close> that was made of the logs \<open>ls\<close>.\<close>

definition digest_inputs :: "(encoded \<Rightarrow> string) \<Rightarrow> log list \<Rightarrow> log list \<Rightarrow> string list" where
  "digest_inputs encode cs ls = map2 (digest_input encode) (None # map Some cs) ls"

definition last_log :: "log list \<Rightarrow> log option" where
  "last_log cs = (if cs = [] then None else Some (last cs))"

lemma ChainLog_hash:
  assumes "ChainLog (hash_of digest encode) p l = (Inr c :: (unit, _) result)"
  shows "\<exists>e. hashed l = Inr e \<and> lg_Hash c = digest (digest_input encode p l)"
  using assms
  by (auto simp: ChainLog_def ComputeHash_def hashed_def digest_input_def previous_line_def log_line_def hash_of_def
      result_simps split: option.splits)

lemma ChainLog_id:
  assumes "ChainLog sha256 p l = (Inr c :: (unit, _) result)"
  shows "lg_ID c = Some (case p of None \<Rightarrow> 1 | Some q \<Rightarrow> (case lg_ID q of None \<Rightarrow> 1 | Some i \<Rightarrow> i + 1))"
  using assms by (auto simp: ChainLog_def ComputeHash_def result_simps split: option.splits)

lemma chain_length: "chain_logs sha256 p ls = Inr cs \<Longrightarrow> length cs = length ls"
  by (induction ls arbitrary: p cs) (auto simp: result_simps)

lemma chain_ids:
  assumes "chain_logs sha256 p ls = Inr cs" "\<forall>q. p = Some q \<longrightarrow> lg_ID q = Some n" "p = None \<Longrightarrow> n = 0"
  shows "map lg_ID cs = map Some [Suc n..<Suc n + length ls]"
  using assms
proof (induction ls arbitrary: p cs n)
  case (Cons l ls)
  from Cons.prems(1) obtain c ds where c: "ChainLog sha256 p l = (Inr c :: (unit, _) result)"
    "chain_logs sha256 (Some c) ls = Inr ds" "cs = c # ds" by (auto simp: result_simps)
  have i: "lg_ID c = Some (Suc n)"
    using ChainLog_id [OF c(1)] Cons.prems(2,3) by (cases p) auto
  with Cons.IH [OF c(2), of "Suc n"] have "map lg_ID ds = map Some [Suc (Suc n)..<Suc (Suc n) + length ls]"
    by simp
  moreover have "[Suc n..<Suc n + length (l # ls)] = Suc n # [Suc (Suc n)..<Suc (Suc n) + length ls]"
    by (subst upt_conv_Cons) simp_all
  ultimately show ?case by (simp add: c(3) i del: upt_Suc)
qed simp

text \<open>A chain from its end.\<close>

lemma chain_snoc:
  assumes "chain_logs sha256 p (ls @ [l]) = Inr cs"
  shows "\<exists>ds c. chain_logs sha256 p ls = Inr ds \<and>
    ChainLog sha256 (if ds = [] then p else Some (last ds)) l = (Inr c :: (unit, _) result) \<and> cs = ds @ [c]"
  using assms
proof (induction ls arbitrary: p cs)
  case (Cons k ls)
  from Cons.prems obtain b bs where b: "ChainLog sha256 p k = (Inr b :: (unit, _) result)"
    "chain_logs sha256 (Some b) (ls @ [l]) = Inr bs" "cs = b # bs" by (auto simp: result_simps)
  from Cons.IH [OF b(2)] obtain ds c where d: "chain_logs sha256 (Some b) ls = Inr ds"
    "ChainLog sha256 (if ds = [] then Some b else Some (last ds)) l = (Inr c :: (unit, _) result)" "bs = ds @ [c]" by blast
  have "(if ds = [] then Some b else Some (last ds)) = Some (last (b # ds))" by simp
  then show ?case using b d by (auto simp: result_simps)
qed (auto simp: result_simps)

lemma inputs_snoc:
  assumes "length ds = length ls"
  shows "map2 f (p # map Some (ds @ [c])) (ls @ [l]) =
    map2 f (p # map Some ds) ls @ [f (if ds = [] then p else Some (last ds)) l]"
  using assms by (induction ds ls arbitrary: p rule: list_induct2) auto

lemma chain_end:
  assumes "chain_logs (hash_of digest encode) None (ls @ [l]) = Inr cs"
  obtains ds where "chain_logs (hash_of digest encode) None ls = Inr ds"
    "lg_Hash (last cs) = digest (digest_input encode (last_log ds) l)" "\<exists>e. hashed l = Inr e"
    "digest_inputs encode cs (ls @ [l]) = digest_inputs encode ds ls @ [digest_input encode (last_log ds) l]"
proof -
  obtain ds c where d: "chain_logs (hash_of digest encode) None ls = Inr ds"
    "ChainLog (hash_of digest encode) (last_log ds) l = (Inr c :: (unit, _) result)" "cs = ds @ [c]"
    using chain_snoc [OF assms] by (auto simp: last_log_def)
  have "digest_inputs encode cs (ls @ [l]) = digest_inputs encode ds ls @ [digest_input encode (last_log ds) l]"
    unfolding digest_inputs_def d(3) inputs_snoc [OF chain_length [OF d(1)]] by (simp add: last_log_def)
  then show thesis using d ChainLog_hash [OF d(2)] by (intro that) auto
qed

text \<open>The lines of a log and of the hash before it are told apart in the input of the digest.\<close>

lemma line_unique:
  assumes "encodes_lines encode" "u @ encode x = v @ encode y" "u = [] \<or> last u = newline" "v = [] \<or> last v = newline"
  shows "u = v \<and> encode x = encode y"
proof -
  obtain a b where ab: "encode x = a @ [newline]" "newline \<notin> set a" "encode y = b @ [newline]" "newline \<notin> set b"
    using assms(1) by (metis encodes_lines_def)
  then have "u @ a = v @ b" using assms(2) by simp
  then obtain w where "u = v @ w \<and> w @ a = b \<or> u @ w = v \<and> a = w @ b" by (auto simp: append_eq_append_conv2)
  moreover have "w = []" if "newline \<notin> set w" "u = v @ w \<or> u @ w = v"
    using that assms(3,4) by (metis append_is_Nil_conv last_appendR last_in_set)
  ultimately have "w = [] \<and> u = v" using ab(2,4) by fastforce
  then show ?thesis using ab \<open>u @ a = v @ b\<close> by simp
qed

lemma digest_input_unique:
  assumes "encodes_lines encode" "encodes_hashes encode" "\<exists>e. hashed l = Inr e" "\<exists>e. hashed l' = Inr e"
    "digest_input encode p l = digest_input encode p' l'"
  shows "log_line encode l = log_line encode l' \<and> (p = None \<longleftrightarrow> p' = None) \<and>
    (\<forall>q q'. p = Some q \<longrightarrow> p' = Some q' \<longrightarrow> lg_Hash q = lg_Hash q')"
proof -
  obtain e e' where e: "hashed l = Inr e" "hashed l' = Inr e'" using assms(3,4) by blast
  have lines: "encode x \<noteq> [] \<and> last (encode x) = newline" for x using assms(1) by (metis encodes_lines_def last_snoc snoc_eq_iff_butlast)
  have ends: "previous_line encode q = [] \<or> last (previous_line encode q) = newline" for q
    using lines by (cases q) (simp_all add: previous_line_def)
  have "previous_line encode p @ encode e = previous_line encode p' @ encode e'"
    using assms(5) e by (simp add: digest_input_def log_line_def)
  from line_unique [OF assms(1) this ends ends]
  have eq: "previous_line encode p = previous_line encode p'" "encode e = encode e'" by simp_all
  have "log_line encode l = log_line encode l'" using e eq(2) by (simp add: log_line_def)
  moreover have "(p = None \<longleftrightarrow> p' = None) \<and> (\<forall>q q'. p = Some q \<longrightarrow> p' = Some q' \<longrightarrow> lg_Hash q = lg_Hash q')"
    using eq(1) lines [THEN conjunct1] lines [THEN conjunct1, THEN not_sym] assms(2)
    by (cases p; cases p') (simp_all add: previous_line_def encodes_hashes_def)
  ultimately show ?thesis by blast
qed

lemma chains_with_the_same_end:
  assumes "encodes_lines encode" "encodes_hashes encode"
  shows "chain_logs (hash_of digest encode) None ls = Inr cs \<Longrightarrow> chain_logs (hash_of digest encode) None ls' = Inr cs' \<Longrightarrow>
    (cs = [] \<longleftrightarrow> cs' = []) \<Longrightarrow> (cs \<noteq> [] \<longrightarrow> lg_Hash (last cs) = lg_Hash (last cs')) \<Longrightarrow>
    \<forall>x \<in> set (digest_inputs encode cs ls). \<forall>y \<in> set (digest_inputs encode cs' ls'). digest x = digest y \<longrightarrow> x = y \<Longrightarrow>
    map (log_line encode) ls = map (log_line encode) ls'"
proof (induction ls arbitrary: cs ls' cs' rule: rev_induct)
  case Nil
  then show ?case using chain_length [OF Nil(2)] by simp
next
  case (snoc l ls)
  have "cs \<noteq> []" using chain_length [OF snoc.prems(1)] by auto
  then have last: "lg_Hash (last cs) = lg_Hash (last cs')" and "cs' \<noteq> []" using snoc.prems(3,4) by simp_all
  then have "ls' \<noteq> []" using chain_length [OF snoc.prems(2)] by auto
  then obtain ks k where ls': "ls' = ks @ [k]" by (cases ls' rule: rev_cases) auto
  obtain ds where d: "chain_logs (hash_of digest encode) None ls = Inr ds"
    "lg_Hash (last cs) = digest (digest_input encode (last_log ds) l)" "\<exists>e. hashed l = Inr e"
    "digest_inputs encode cs (ls @ [l]) = digest_inputs encode ds ls @ [digest_input encode (last_log ds) l]"
    using snoc.prems(1) by (rule chain_end)
  obtain ds' where d': "chain_logs (hash_of digest encode) None ks = Inr ds'"
    "lg_Hash (last cs') = digest (digest_input encode (last_log ds') k)" "\<exists>e. hashed k = Inr e"
    "digest_inputs encode cs' ls' = digest_inputs encode ds' ks @ [digest_input encode (last_log ds') k]"
    using snoc.prems(2) unfolding ls' by (rule chain_end)
  have "digest_input encode (last_log ds) l = digest_input encode (last_log ds') k"
    using snoc.prems(5) last d(2,4) d'(2,4) by simp
  note q = digest_input_unique [OF assms d(3) d'(3) this]
  have "(ds = [] \<longleftrightarrow> ds' = []) \<and> (ds \<noteq> [] \<longrightarrow> lg_Hash (last ds) = lg_Hash (last ds'))"
    using q by (auto simp: last_log_def split: if_splits)
  then show ?case using snoc.IH [OF d(1) d'(1)] snoc.prems(5) d(4) d'(4) q by (simp add: ls')
qed

text \<open>
  Claim C39. A chain of logs built from nothing has the ids 1, 2, 3 and so on, and it cannot be rewritten
  unnoticed: when two chains, of any lengths, end with the same hash, they have the same number of logs and every
  log has the same line of JSON in both (its type, memento, date, idempotency key and schema version), or two
  different texts that were hashed when the two chains were made have the same digest.
\<close>

theorem log_chain_is_tamper_evident:
  assumes "encodes_lines encode" "encodes_hashes encode"
    "chain_logs (hash_of digest encode) None ls = Inr cs" "chain_logs (hash_of digest encode) None ls' = Inr cs'"
    "ls \<noteq> []" "ls' \<noteq> []" "lg_Hash (last cs) = lg_Hash (last cs')"
  shows "map lg_ID cs = map Some [1..<1 + length ls] \<and>
    (length ls = length ls' \<and> map (log_line encode) ls = map (log_line encode) ls' \<or>
     (\<exists>x \<in> set (digest_inputs encode cs ls). \<exists>y \<in> set (digest_inputs encode cs' ls'). x \<noteq> y \<and> digest x = digest y))"
proof -
  have "(cs = [] \<longleftrightarrow> cs' = []) \<and> (cs \<noteq> [] \<longrightarrow> lg_Hash (last cs) = lg_Hash (last cs'))"
    using assms(5-7) chain_length [OF assms(3)] chain_length [OF assms(4)] by auto
  then have "map (log_line encode) ls = map (log_line encode) ls' \<or>
     (\<exists>x \<in> set (digest_inputs encode cs ls). \<exists>y \<in> set (digest_inputs encode cs' ls'). x \<noteq> y \<and> digest x = digest y)"
    using chains_with_the_same_end [OF assms(1-4)] by blast
  then show ?thesis using chain_ids [OF assms(3), of 0] map_eq_imp_length_eq by auto
qed

definition sample_sha :: "encoded list \<Rightarrow> hash" where
  "sample_sha es = concat (map (\<lambda>e. case e of EncodedHash h \<Rightarrow> h | EncodedLog t m d k h v \<Rightarrow> k @ v) es)"

definition sample_log :: "string \<Rightarrow> log" where
  "sample_log k = (NewLog (SavedMetadata MetaTargetTypeAccount (TargetAddress ''bank'') [(''k'', ''v'')]))
     \<lparr>lg_IdempotencyKey := k\<rparr>"

text \<open>
  An encoder for the example: it escapes newlines, and sorts the keys of a map, so that logs whose metadata are
  the same map are encoded alike.
\<close>

fun escape :: "string \<Rightarrow> string" where
  "escape [] = []"
| "escape (c # cs) = (if c = newline then ''~n'' else if c = CHR ''~'' then ''~~'' else [c]) @ escape cs"

fun sample_line :: "encoded \<Rightarrow> string" where
  "sample_line (EncodedHash h) = h"
| "sample_line (EncodedLog t (PayloadMemento (SavedMetadata _ _ m)) _ k _ v) =
     log_type_String t @ concat (map (\<lambda>(k, v). k @ '':'' @ v) (sort_key fst m)) @ k @ v"
| "sample_line (EncodedLog t _ _ k _ v) = log_type_String t @ k @ v"

definition sample_encode :: "encoded \<Rightarrow> string" where
  "sample_encode e = escape (sample_line e) @ [newline]"

lemma newline_escaped: "newline \<notin> set (escape s)"
  by (induction s) (auto simp: newline_def)

lemma escape_inject: "escape s = escape t \<Longrightarrow> s = t"
proof (induction s arbitrary: t)
  case Nil
  then show ?case by (cases t) (auto split: if_splits)
next
  case (Cons c s)
  then obtain d u where t: "t = d # u" by (cases t) (auto split: if_splits)
  have "newline \<noteq> CHR ''~''" "CHR ''n'' \<noteq> CHR ''~''" by (simp_all add: newline_def)
  with Cons t show ?case by (auto split: if_splits)
qed

lemma sample_encoder: "encodes_lines sample_encode" "encodes_hashes sample_encode"
  using newline_escaped escape_inject by (auto simp: encodes_lines_def encodes_hashes_def sample_encode_def)

definition sample_metadata :: "metadata_map \<Rightarrow> log" where
  "sample_metadata m = NewLog (SavedMetadata MetaTargetTypeAccount (TargetAddress ''bank'') m)"

theorem log_chain_is_tamper_evident_witness:
  "sample_metadata [(''a'', ''1''), (''b'', ''2'')] \<noteq> sample_metadata [(''b'', ''2''), (''a'', ''1'')] \<and>
   (\<exists>cs. chain_logs (hash_of id sample_encode) None
       [sample_metadata [(''a'', ''1''), (''b'', ''2'')], sample_log ''x''] = Inr cs \<and> map lg_ID cs = map Some [1..<3]) \<and>
   log_line sample_encode (sample_metadata [(''a'', ''1''), (''b'', ''2'')]) =
     log_line sample_encode (sample_metadata [(''b'', ''2''), (''a'', ''1'')])"
proof -
  let ?m = "sample_metadata [(''a'', ''1''), (''b'', ''2'')]" and ?m' = "sample_metadata [(''b'', ''2''), (''a'', ''1'')]"
  have "case (chain_logs (hash_of id sample_encode) None [?m, sample_log ''x''],
      chain_logs (hash_of id sample_encode) None [?m', sample_log ''x'']) of
      (Inr cs, Inr cs') \<Rightarrow> lg_Hash (last cs) = lg_Hash (last cs') | _ \<Rightarrow> False"
    by code_simp
  then obtain cs cs' where cs: "chain_logs (hash_of id sample_encode) None [?m, sample_log ''x''] = Inr cs"
    "chain_logs (hash_of id sample_encode) None [?m', sample_log ''x''] = Inr cs'" "lg_Hash (last cs) = lg_Hash (last cs')"
    by (auto split: sum.splits)
  from log_chain_is_tamper_evident [OF sample_encoder cs(1,2) _ _ cs(3)]
  have "map lg_ID cs = map Some [1..<3]" "log_line sample_encode ?m = log_line sample_encode ?m'"
    by (auto simp: numeral_3_eq_3)
  moreover have "?m \<noteq> ?m'" by (simp add: sample_metadata_def NewLog_def)
  ultimately show ?thesis using cs(1) by blast
qed

end
