(* ===== verification/Ledger_Store.thy ===== *)
theory Ledger_Store
  imports Ledger_Log
begin

text \<open>
  The store of one ledger (\<open>internal/storage/ledger\<close>): its tables, the SQL transaction a session
  is in, and the operations the controller calls, each with the effect of its SQL statements and
  of the triggers of the bucket. Every statement of the code is restricted to the rows of the
  ledger, so the tables hold those rows only. An action keeps the session when it fails.
\<close>

section \<open>Tables and sessions\<close>

datatype store_error =
    ReferenceConflict string
  | ConcurrentTransaction nat
  | IdempotencyKeyConflict string
  | NotFound
  | ConstraintsFailed string
  | DeadlockDetected
  | SerializationFailure
  | SqlFailure string

text \<open>Rows in the order of their sequence numbers; volumes by account and asset.\<close>

record tables =
  t_volumes :: post_commit_volumes
  t_transactions :: "transaction list"
  t_moves :: "move list"
  t_accounts :: "(string \<times> account) list"
  t_logs :: "log list"
  t_schemas :: "schema list"

definition empty_tables :: tables where
  "empty_tables = \<lparr>t_volumes = [], t_transactions = [], t_moves = [], t_accounts = [], t_logs = [],
     t_schemas = []\<rparr>"

text \<open>The features of a ledger (\<open>HasFeature\<close>) the store looks at.\<close>

record features =
  MovesHistory :: bool
  EffectiveVolumes :: bool
  HashLogs :: bool

text \<open>
  A session sees \<open>s_tx\<close>; \<open>s_base\<close> is what is committed, which other connections write to. The
  sequences are outside transactions. \<open>s_fault\<close> makes a later statement fail: the number of
  statements before it, and its error. After an error the SQL transaction cannot be committed.
\<close>

record session =
  s_tx :: tables
  s_base :: tables
  s_txSeq :: nat
  s_logSeq :: nat
  s_now :: time
  s_fault :: "(nat \<times> store_error) option"
  s_aborted :: bool

type_synonym ('e, 'a) action = "session \<Rightarrow> ('e, 'a) result \<times> session"

definition returnS :: "'a \<Rightarrow> ('e, 'a) action" where
  "returnS x s = (Inr x, s)"

definition raiseS :: "'e \<Rightarrow> ('e, 'a) action" where
  "raiseS e s = (raise e, s)"

definition panicS :: "('e, 'a) action" where
  "panicS s = (panic, s)"

definition bindS :: "('e, 'a) action \<Rightarrow> ('a \<Rightarrow> ('e, 'b) action) \<Rightarrow> ('e, 'b) action" where
  "bindS m f s = (case m s of (Inl e, s) \<Rightarrow> (Inl e, s) | (Inr x, s) \<Rightarrow> f x s)"

definition liftS :: "('e, 'a) result \<Rightarrow> ('e, 'a) action" where
  "liftS r s = (r, s)"

definition getS :: "(session \<Rightarrow> 'a) \<Rightarrow> ('e, 'a) action" where
  "getS f s = (Inr (f s), s)"

definition modifyS :: "(session \<Rightarrow> session) \<Rightarrow> ('e, unit) action" where
  "modifyS f s = (Inr (), f s)"

definition whenS :: "bool \<Rightarrow> ('e, unit) action \<Rightarrow> ('e, unit) action" where
  "whenS b m = (if b then m else returnS ())"

fun map_failure :: "('e \<Rightarrow> 'f) \<Rightarrow> ('e, 'a) result \<Rightarrow> ('f, 'a) result" where
  "map_failure h (Inl (Raised e)) = Inl (Raised (h e))"
| "map_failure h (Inl Panic) = Inl Panic"
| "map_failure h (Inr x) = Inr x"

text \<open>An error of a statement aborts the SQL transaction.\<close>

definition failS :: "store_error \<Rightarrow> (store_error, 'a) action" where
  "failS e s = (raise e, s\<lparr>s_aborted := True\<rparr>)"

definition statement :: "(store_error, unit) action" where
  "statement s =
     (case s_fault s of
        None \<Rightarrow> (Inr (), s)
      | Some (0, e) \<Rightarrow> (raise e, s\<lparr>s_fault := None, s_aborted := True\<rparr>)
      | Some (Suc n, e) \<Rightarrow> (Inr (), s\<lparr>s_fault := Some (n, e)\<rparr>))"

section \<open>Volumes\<close>

definition upsert_volume :: "accounts_volumes \<Rightarrow> post_commit_volumes \<Rightarrow> post_commit_volumes" where
  "upsert_volume u m = nput (av_Account u) (av_Asset u)
     (case nget m (av_Account u) (av_Asset u) of
        None \<Rightarrow> \<lparr>v_Input = av_Input u, v_Output = av_Output u\<rparr>
      | Some v \<Rightarrow> \<lparr>v_Input = v_Input v + av_Input u, v_Output = v_Output v + av_Output u\<rparr>) m"

text \<open>The updated rows, which the statement returns into the volumes it was given.\<close>

definition returned_volumes :: "accounts_volumes list \<Rightarrow> post_commit_volumes \<Rightarrow> post_commit_volumes" where
  "returned_volumes us m =
     fold (\<lambda>u ret. case nget m (av_Account u) (av_Asset u) of
         None \<Rightarrow> ret
       | Some v \<Rightarrow> nput (av_Account u) (av_Asset u) v ret) us []"

definition UpdateVolumes :: "accounts_volumes list \<Rightarrow> (store_error, post_commit_volumes) action" where
  "UpdateVolumes us =
     (if us = [] then failS (SqlFailure ''empty slice'')
      else bindS statement (\<lambda>_.
        if \<not> distinct (map av_key us) then failS (SqlFailure ''row affected twice'')
        else bindS (modifyS (\<lambda>s. s\<lparr>s_tx := (s_tx s)\<lparr>t_volumes := fold upsert_volume us (t_volumes (s_tx s))\<rparr>\<rparr>)) (\<lambda>_.
             getS (\<lambda>s. returned_volumes us (t_volumes (s_tx s))))))"

text \<open>
  Missing rows are inserted with zero volumes, so that they can be locked. The rows read are
  those from before the insertion; the others are filled in with zero. A query is a map: an
  account is in it once.
\<close>

definition queried_pairs :: "(string \<times> string list) list \<Rightarrow> (string \<times> string) list" where
  "queried_pairs q = concat (map (\<lambda>(account, assets). map (Pair account) assets) (AList.clearjunk q))"

definition zero_row :: "string \<times> string \<Rightarrow> post_commit_volumes \<Rightarrow> post_commit_volumes" where
  "zero_row = (\<lambda>(a, c) m. case nget m a c of None \<Rightarrow> nput a c NewEmptyVolumes m | Some _ \<Rightarrow> m)"

definition table_balance :: "tables \<Rightarrow> string \<Rightarrow> string \<Rightarrow> int" where
  "table_balance t a c = (case nget (t_volumes t) a c of None \<Rightarrow> 0 | Some v \<Rightarrow> Volumes_Balance v)"

definition read_balances :: "tables \<Rightarrow> (string \<times> string list) list \<Rightarrow> (string, string, int) nested" where
  "read_balances t q = fold (\<lambda>(a, c) m. nput a c (table_balance t a c) m) (queried_pairs q) []"

definition Store_GetBalances ::
    "(string \<times> string list) list \<Rightarrow> (store_error, (string, string, int) nested) action" where
  "Store_GetBalances q =
     (if queried_pairs q = [] then failS (SqlFailure ''empty slice'')
      else bindS statement (\<lambda>_.
        bindS (getS (\<lambda>s. read_balances (s_tx s) q)) (\<lambda>balances.
        bindS (modifyS (\<lambda>s. s\<lparr>s_tx := (s_tx s)\<lparr>t_volumes := fold zero_row (queried_pairs q) (t_volumes (s_tx s))\<rparr>\<rparr>)) (\<lambda>_.
        returnS balances))))"

section \<open>Transactions\<close>

definition or_default :: "time \<Rightarrow> time \<Rightarrow> time" where
  "or_default t now = (if t = zero_time then now else t)"

definition stamp :: "time \<Rightarrow> transaction \<Rightarrow> transaction" where
  "stamp now tx =
     (let inserted = or_default (tx_InsertedAt tx) now in
      tx\<lparr>tx_Timestamp := or_default (tx_Timestamp tx) now, tx_InsertedAt := inserted,
         tx_UpdatedAt := or_default (tx_UpdatedAt tx) inserted\<rparr>)"

definition next_tx_id :: "transaction \<Rightarrow> (store_error, nat) action" where
  "next_tx_id tx =
     (case tx_ID tx of
        Some i \<Rightarrow> returnS i
      | None \<Rightarrow> bindS (getS s_txSeq) (\<lambda>i.
          bindS (modifyS (\<lambda>s. s\<lparr>s_txSeq := i + 1\<rparr>)) (\<lambda>_. returnS i)))"

text \<open>
  The unique indexes \<open>transactions_ledger\<close> (id) and \<open>transactions_reference\<close>. The error for a
  duplicate id dereferences the id of the transaction, nil when the sequence gave it. The
  effective volumes are not a column of the table.
\<close>

definition stored :: "transaction \<Rightarrow> transaction" where
  "stored tx = tx\<lparr>tx_PostCommitEffectiveVolumes := []\<rparr>"

definition insert_row :: "transaction \<Rightarrow> nat \<Rightarrow> (store_error, transaction) action" where
  "insert_row tx i =
     bindS (getS (\<lambda>s. (t_transactions (s_tx s), s_now s))) (\<lambda>(rows, now).
       if list_ex (\<lambda>r. tx_ID r = Some i) rows
       then (case tx_ID tx of
               None \<Rightarrow> bindS (modifyS (\<lambda>s. s\<lparr>s_aborted := True\<rparr>)) (\<lambda>_. panicS)
             | Some j \<Rightarrow> failS (ConcurrentTransaction j))
       else if tx_Reference tx \<noteq> [] \<and> list_ex (\<lambda>r. tx_Reference r = tx_Reference tx) rows
       then failS (ReferenceConflict (tx_Reference tx))
       else
         (let row = (stamp now tx)\<lparr>tx_ID := Some i\<rparr> in
          bindS (modifyS (\<lambda>s. s\<lparr>s_tx := (s_tx s)\<lparr>t_transactions := rows @ [stored row]\<rparr>\<rparr>)) (\<lambda>_.
          returnS row)))"

definition InsertTransaction :: "transaction \<Rightarrow> (store_error, transaction) action" where
  "InsertTransaction tx = bindS statement (\<lambda>_. bindS (next_tx_id tx) (insert_row tx))"

section \<open>Moves\<close>

definition new_move :: "transaction \<Rightarrow> nat \<Rightarrow> bool \<Rightarrow> posting \<Rightarrow> int \<Rightarrow> volumes \<Rightarrow> move" where
  "new_move tx i is_source p n v =
     \<lparr>mv_TransactionID = i, mv_IsSource = is_source,
      mv_Account = (if is_source then p_Source p else p_Destination p), mv_Amount = n,
      mv_Asset = p_Asset p, mv_InsertionDate = tx_InsertedAt tx, mv_EffectiveDate = tx_Timestamp tx,
      mv_PostCommitVolumes = Some v, mv_PostCommitEffectiveVolumes = None\<rparr>"

text \<open>The loop of \<open>CommitTransaction\<close> over the reversed postings, from the final volumes back.\<close>

fun build_moves ::
    "transaction \<Rightarrow> nat \<Rightarrow> posting list \<Rightarrow> post_commit_volumes \<Rightarrow> ('e, move list) result" where
  "build_moves tx i [] pcv = Inr []"
| "build_moves tx i (p # ps) pcv =
     (case (nget pcv (p_Destination p) (p_Asset p), p_Amount p) of
        (Some v, Some n) \<Rightarrow>
          bindr (AddInput (p_Destination p) (p_Asset p) (- n) pcv) (\<lambda>pcv.
            case nget pcv (p_Source p) (p_Asset p) of
              None \<Rightarrow> panic
            | Some w \<Rightarrow>
                bindr (AddOutput (p_Source p) (p_Asset p) (- n) pcv) (\<lambda>pcv.
                bindr (build_moves tx i ps pcv) (\<lambda>ms.
                  Inr (new_move tx i False p n v # new_move tx i True p n w # ms))))
      | _ \<Rightarrow> panic)"

definition transaction_moves ::
    "transaction \<Rightarrow> nat \<Rightarrow> post_commit_volumes \<Rightarrow> ('e, move list) result" where
  "transaction_moves tx i pcv =
     bindr (build_moves tx i (rev (tx_Postings tx)) pcv) (\<lambda>ms. Inr (rev ms))"

text \<open>
  The triggers \<open>set_effective_volumes\<close>, before the insertion of each row, and
  \<open>update_effective_volumes\<close>, after the statement, for each row.
\<close>

definition move_volumes :: "move \<Rightarrow> volumes \<Rightarrow> volumes" where
  "move_volumes m v =
     \<lparr>v_Input = v_Input v + (if mv_IsSource m then 0 else mv_Amount m),
      v_Output = v_Output v + (if mv_IsSource m then mv_Amount m else 0)\<rparr>"

fun latest_move :: "(string \<times> string) \<Rightarrow> time \<Rightarrow> move list \<Rightarrow> move option" where
  "latest_move k d [] = None"
| "latest_move k d (m # ms) =
     (case latest_move k d ms of
        Some m' \<Rightarrow>
          if mv_key m = k \<and> mv_EffectiveDate m \<le> d \<and> mv_EffectiveDate m' < mv_EffectiveDate m
          then Some m else Some m'
      | None \<Rightarrow> if mv_key m = k \<and> mv_EffectiveDate m \<le> d then Some m else None)"

definition set_effective_volumes :: "move list \<Rightarrow> move \<Rightarrow> move" where
  "set_effective_volumes rows m =
     m\<lparr>mv_PostCommitEffectiveVolumes := Some (move_volumes m
        (case Option.bind (latest_move (mv_key m) (mv_EffectiveDate m) rows) mv_PostCommitEffectiveVolumes of
           None \<Rightarrow> NewEmptyVolumes | Some v \<Rightarrow> v))\<rparr>"

fun insert_rows :: "move list \<Rightarrow> move list \<Rightarrow> move list \<Rightarrow> move list \<times> move list" where
  "insert_rows rows [] new = (rows, new)"
| "insert_rows rows (m # ms) new =
     (let m = set_effective_volumes rows m in insert_rows (rows @ [m]) ms (new @ [m]))"

definition update_effective_volumes :: "move \<Rightarrow> move list \<Rightarrow> move list" where
  "update_effective_volumes m rows =
     map (\<lambda>r. if mv_key r = mv_key m \<and> mv_EffectiveDate m < mv_EffectiveDate r
              then r\<lparr>mv_PostCommitEffectiveVolumes :=
                       map_option (move_volumes m) (mv_PostCommitEffectiveVolumes r)\<rparr>
              else r) rows"

definition InsertMoves :: "features \<Rightarrow> move list \<Rightarrow> (store_error, move list) action" where
  "InsertMoves f ms =
     (if ms = [] then failS (SqlFailure ''empty slice'')
      else bindS statement (\<lambda>_.
        bindS (getS (\<lambda>s. t_moves (s_tx s))) (\<lambda>rows.
          let (rows', new) = (if EffectiveVolumes f
                then (let (rows', new) = insert_rows rows ms [] in (fold update_effective_volumes new rows', new))
                else (rows @ ms, ms)) in
          bindS (modifyS (\<lambda>s. s\<lparr>s_tx := (s_tx s)\<lparr>t_moves := rows'\<rparr>\<rparr>)) (\<lambda>_. returnS new))))"

section \<open>Committing a transaction\<close>

text \<open>\<open>HasFeature\<close> of the moves history; the effective volumes are read from the moves inserted.\<close>

definition commit_moves :: "features \<Rightarrow> post_commit_volumes \<Rightarrow> transaction \<Rightarrow> (store_error, transaction) action" where
  "commit_moves f pcv tx =
     (if \<not> MovesHistory f then returnS tx
      else case tx_ID tx of
        None \<Rightarrow> panicS
      | Some i \<Rightarrow>
          bindS (liftS (transaction_moves tx i pcv)) (\<lambda>ms.
          bindS (InsertMoves f ms) (\<lambda>ms.
            if EffectiveVolumes f
            then bindS (liftS (fst (ComputePostCommitEffectiveVolumes ms))) (\<lambda>v.
                   returnS (tx\<lparr>tx_PostCommitEffectiveVolumes := v\<rparr>))
            else returnS tx)))"

definition CommitTransaction :: "features \<Rightarrow> transaction \<Rightarrow> (store_error, transaction) action" where
  "CommitTransaction f tx =
     bindS (liftS (VolumeUpdates tx)) (\<lambda>us.
     bindS (UpdateVolumes us) (\<lambda>pcv.
     bindS (InsertTransaction (tx\<lparr>tx_PostCommitVolumes := pcv\<rparr>)) (commit_moves f pcv)))"


section \<open>Updating transactions\<close>

text \<open>The row after the update, or the row as it is when the update touches none.\<close>

definition updateTxWithRetrieve ::
    "nat \<Rightarrow> (transaction \<Rightarrow> bool) \<Rightarrow> (time \<Rightarrow> transaction \<Rightarrow> transaction) \<Rightarrow>
     (store_error, transaction \<times> bool) action" where
  "updateTxWithRetrieve i cond upd =
     bindS statement (\<lambda>_. bindS (getS (\<lambda>s. (t_transactions (s_tx s), s_now s))) (\<lambda>(rows, now).
       case find (\<lambda>r. tx_ID r = Some i) rows of
         None \<Rightarrow> raiseS NotFound
       | Some r \<Rightarrow>
           if cond r
           then bindS (modifyS (\<lambda>s. s\<lparr>s_tx := (s_tx s)\<lparr>t_transactions :=
                    map (\<lambda>r. if tx_ID r = Some i then upd now r else r) rows\<rparr>\<rparr>)) (\<lambda>_.
                  returnS (upd now r, True))
           else returnS (r, False)))"

definition Store_RevertTransaction :: "nat \<Rightarrow> time \<Rightarrow> (store_error, transaction \<times> bool) action" where
  "Store_RevertTransaction i at_time = updateTxWithRetrieve i (\<lambda>r. tx_RevertedAt r = None)
     (\<lambda>now r. r\<lparr>tx_RevertedAt := Some (or_default at_time now), tx_UpdatedAt := or_default at_time now\<rparr>)"

text \<open>\<open>metadata || m\<close> and \<open>metadata @> m\<close> on objects of strings.\<close>

definition merge_meta :: "metadata_map \<Rightarrow> metadata_map \<Rightarrow> metadata_map" where
  "merge_meta old m = fold (\<lambda>(k, v). AList.update k v) m old"

definition contains_meta :: "metadata_map \<Rightarrow> metadata_map \<Rightarrow> bool" where
  "contains_meta old m \<longleftrightarrow> list_all (\<lambda>(k, v). map_of old k = Some v) m"

definition Store_UpdateTransactionMetadata ::
    "nat \<Rightarrow> metadata_map \<Rightarrow> time \<Rightarrow> (store_error, transaction \<times> bool) action" where
  "Store_UpdateTransactionMetadata i m at_time = updateTxWithRetrieve i (\<lambda>r. \<not> contains_meta (tx_Metadata r) m)
     (\<lambda>now r. r\<lparr>tx_Metadata := merge_meta (tx_Metadata r) m, tx_UpdatedAt := or_default at_time now\<rparr>)"

definition Store_DeleteTransactionMetadata ::
    "nat \<Rightarrow> string \<Rightarrow> time \<Rightarrow> (store_error, transaction \<times> bool) action" where
  "Store_DeleteTransactionMetadata i key at_time = updateTxWithRetrieve i (\<lambda>r. map_of (tx_Metadata r) key \<noteq> None)
     (\<lambda>now r. r\<lparr>tx_Metadata := AList.delete key (tx_Metadata r), tx_UpdatedAt := or_default at_time now\<rparr>)"

section \<open>Accounts\<close>

text \<open>A zero time is NULL: \<open>LEAST\<close> and \<open><\<close> leave it out.\<close>

definition earlier :: "time \<Rightarrow> time \<Rightarrow> bool" where
  "earlier d a \<longleftrightarrow> d \<noteq> zero_time \<and> d < a"

definition upsert_account ::
    "time \<Rightarrow> account_with_default \<Rightarrow> (string \<times> account) list \<Rightarrow> (string \<times> account) list" where
  "upsert_account now d rows =
     (case map_of rows (ac_Address d) of
        Some a \<Rightarrow>
          if earlier (ac_FirstUsage d) (ac_FirstUsage a) \<or> \<not> contains_meta (ac_Metadata a) (ac_Metadata d)
          then AList.update (ac_Address d)
                 (a\<lparr>ac_Metadata := merge_meta (ac_Metadata a) (ac_Metadata d),
                    ac_FirstUsage := (if earlier (ac_FirstUsage d) (ac_FirstUsage a) then ac_FirstUsage d
                                      else ac_FirstUsage a),
                    ac_UpdatedAt := or_default (ac_UpdatedAt d) now\<rparr>) rows
          else rows
      | None \<Rightarrow> AList.update (ac_Address d)
          \<lparr>ac_Address = ac_Address d, ac_Metadata = merge_meta (ac_DefaultMetadata d) (ac_Metadata d),
           ac_FirstUsage = or_default (ac_FirstUsage d) now,
           ac_InsertionDate = or_default (ac_InsertionDate d) now,
           ac_UpdatedAt = or_default (ac_UpdatedAt d) now\<rparr> rows)"

text \<open>
  The batch holds an address once. \<open>on_base\<close> is the store outside the SQL transaction: its
  statement commits by itself, and both the session and the others see the rows at once.
\<close>

definition UpsertAccounts :: "bool \<Rightarrow> account_with_default list \<Rightarrow> (store_error, unit) action" where
  "UpsertAccounts on_base ds =
     (if ds = [] then failS (SqlFailure ''empty slice'')
      else bindS statement (\<lambda>_. modifyS (\<lambda>s.
        let put = (\<lambda>t. t\<lparr>t_accounts := fold (upsert_account (s_now s)) ds (t_accounts t)\<rparr>) in
        s\<lparr>s_tx := put (s_tx s), s_base := (if on_base then put (s_base s) else s_base s)\<rparr>)))"

definition update_account_metadata ::
    "time \<Rightarrow> time \<Rightarrow> string \<times> metadata_map \<Rightarrow> (string \<times> account) list \<Rightarrow> (string \<times> account) list" where
  "update_account_metadata at_time now = (\<lambda>(address, m) rows.
     case map_of rows address of
       None \<Rightarrow> AList.update address
         \<lparr>ac_Address = address, ac_Metadata = m, ac_FirstUsage = or_default at_time now,
          ac_InsertionDate = or_default at_time now, ac_UpdatedAt = or_default at_time now\<rparr> rows
     | Some a \<Rightarrow>
         if contains_meta (ac_Metadata a) m then rows
         else AList.update address
           (a\<lparr>ac_Metadata := merge_meta (ac_Metadata a) m, ac_UpdatedAt := or_default at_time now,
              ac_FirstUsage := (if or_default at_time now < ac_FirstUsage a then or_default at_time now
                                else ac_FirstUsage a)\<rparr>) rows)"

definition UpdateAccountsMetadata :: "account_metadata \<Rightarrow> time \<Rightarrow> (store_error, unit) action" where
  "UpdateAccountsMetadata m at_time =
     (if m = [] then failS (SqlFailure ''empty slice'')
      else bindS statement (\<lambda>_. modifyS (\<lambda>s. s\<lparr>s_tx := (s_tx s)\<lparr>t_accounts :=
             fold (update_account_metadata at_time (s_now s)) m (t_accounts (s_tx s))\<rparr>\<rparr>)))"

definition Store_DeleteAccountMetadata :: "string \<Rightarrow> string \<Rightarrow> (store_error, unit) action" where
  "Store_DeleteAccountMetadata address key =
     bindS statement (\<lambda>_. modifyS (\<lambda>s. s\<lparr>s_tx := (s_tx s)\<lparr>t_accounts :=
       map (\<lambda>(a, row). (a, if a = address
              then row\<lparr>ac_Metadata := AList.delete key (ac_Metadata row)\<rparr> else row)) (t_accounts (s_tx s))\<rparr>\<rparr>))"

section \<open>Logs\<close>

definition next_log_id :: "log \<Rightarrow> (store_error, nat) action" where
  "next_log_id l =
     (case lg_ID l of
        Some i \<Rightarrow> returnS i
      | None \<Rightarrow> bindS (getS s_logSeq) (\<lambda>i.
          bindS (modifyS (\<lambda>s. s\<lparr>s_logSeq := i + 1\<rparr>)) (\<lambda>_. returnS i)))"

definition last_opt :: "'a list \<Rightarrow> 'a option" where
  "last_opt xs = (if xs = [] then None else Some (last xs))"

text \<open>
  The trigger \<open>set_log_hash\<close> chains the row to the last one. Of the two unique indexes only the
  idempotency key's error is returned: another failed constraint is passed over, the SQL
  transaction is aborted and the log is left without an id.
\<close>

definition insert_log_row ::
    "(encoded list \<Rightarrow> hash) \<Rightarrow> features \<Rightarrow> log \<Rightarrow> nat \<Rightarrow> (store_error, log) action" where
  "insert_log_row sha256 f l i =
     bindS (getS (\<lambda>s. (t_logs (s_tx s), s_now s))) (\<lambda>(rows, now).
       let row = l\<lparr>lg_ID := Some i, lg_Date := or_default (lg_Date l) now\<rparr> in
       bindS (liftS (if HashLogs f then ComputeHash sha256 (last_opt rows) (row\<lparr>lg_Hash := []\<rparr>) else Inr row)) (\<lambda>row.
       if list_ex (\<lambda>r. lg_ID r = Some i) rows
       then bindS (modifyS (\<lambda>s. s\<lparr>s_aborted := True\<rparr>)) (\<lambda>_. returnS l)
       else if lg_IdempotencyKey l \<noteq> [] \<and> list_ex (\<lambda>r. lg_IdempotencyKey r = lg_IdempotencyKey l) rows
       then failS (IdempotencyKeyConflict (lg_IdempotencyKey l))
       else bindS (modifyS (\<lambda>s. s\<lparr>s_tx := (s_tx s)\<lparr>t_logs := rows @ [row]\<rparr>\<rparr>)) (\<lambda>_. returnS row)))"

definition InsertLog :: "(encoded list \<Rightarrow> hash) \<Rightarrow> features \<Rightarrow> log \<Rightarrow> (store_error, log) action" where
  "InsertLog sha256 f l =
     bindS (liftS (GetMemento (lg_Data l))) (\<lambda>_.
     bindS statement (\<lambda>_. bindS (next_log_id l) (insert_log_row sha256 f l)))"

definition find_log :: "string \<Rightarrow> tables \<Rightarrow> log option" where
  "find_log key t = find (\<lambda>l. key \<noteq> [] \<and> lg_IdempotencyKey l = key) (t_logs t)"

definition ReadLogWithIdempotencyKey :: "string \<Rightarrow> (store_error, log) action" where
  "ReadLogWithIdempotencyKey key =
     bindS (getS (\<lambda>s. find_log key (s_tx s))) (\<lambda>r. case r of None \<Rightarrow> raiseS NotFound | Some l \<Rightarrow> returnS l)"

section \<open>Schemas\<close>

definition Store_InsertSchema :: "schema \<Rightarrow> (store_error, schema) action" where
  "Store_InsertSchema sc =
     bindS statement (\<lambda>_. bindS (getS (\<lambda>s. (t_schemas (s_tx s), s_now s))) (\<lambda>(rows, now).
       if list_ex (\<lambda>r. sc_Version r = sc_Version sc) rows then failS (ConstraintsFailed ''schemas_pkey'')
       else (let row = sc\<lparr>sc_CreatedAt := or_default (sc_CreatedAt sc) now\<rparr> in
         bindS (modifyS (\<lambda>s. s\<lparr>s_tx := (s_tx s)\<lparr>t_schemas := rows @ [row]\<rparr>\<rparr>)) (\<lambda>_. returnS row))))"

definition find_schema :: "string \<Rightarrow> tables \<Rightarrow> schema option" where
  "find_schema version t = find (\<lambda>r. sc_Version r = version) (t_schemas t)"

definition FindSchema :: "string \<Rightarrow> (store_error, schema) action" where
  "FindSchema version =
     bindS (getS (\<lambda>s. find_schema version (s_tx s))) (\<lambda>r. case r of None \<Rightarrow> raiseS NotFound | Some x \<Rightarrow> returnS x)"

text \<open>\<open>order by created_at desc limit 1\<close>; among equal dates the row inserted last.\<close>

fun latest_schema :: "schema list \<Rightarrow> schema option" where
  "latest_schema [] = None"
| "latest_schema (r # rs) =
     (case latest_schema rs of
        None \<Rightarrow> Some r
      | Some q \<Rightarrow> if sc_CreatedAt q < sc_CreatedAt r then Some r else Some q)"

definition FindLatestSchemaVersion :: "(store_error, string option) action" where
  "FindLatestSchemaVersion = getS (\<lambda>s. map_option sc_Version (latest_schema (t_schemas (s_tx s))))"

section \<open>SQL transactions\<close>

definition BeginTX :: "tables \<Rightarrow> nat \<Rightarrow> nat \<Rightarrow> time \<Rightarrow> (nat \<times> store_error) option \<Rightarrow> session" where
  "BeginTX t txSeq logSeq now fault =
     \<lparr>s_tx = t, s_base = t, s_txSeq = txSeq, s_logSeq = logSeq, s_now = now, s_fault = fault, s_aborted = False\<rparr>"

text \<open>The error of a commit is the driver's own, which is none of the errors the store resolves.\<close>

definition unresolved :: "(store_error, 'a) action \<Rightarrow> (store_error, 'a) action" where
  "unresolved m s = (case m s of (r, s) \<Rightarrow> (map_failure (\<lambda>_. SqlFailure ''driver'') r, s))"

definition Commit :: "(store_error, unit) action" where
  "Commit = bindS (unresolved statement) (\<lambda>_. bindS (getS s_aborted) (\<lambda>b.
     if b then failS (SqlFailure ''commit unexpectedly resulted in rollback'')
     else modifyS (\<lambda>s. s\<lparr>s_base := s_tx s\<rparr>)))"

definition Rollback :: "(store_error, unit) action" where
  "Rollback = modifyS (\<lambda>s. s\<lparr>s_tx := s_base s\<rparr>)"

end
