(* ===== verification/Store_Laws.thy ===== *)
theory Store_Laws
  imports Ledger_Store
begin

text \<open>
  What the store's operations promise: the volumes table after a commit, the volumes of the moves,
  what stays as it is, and the balances \<open>GetBalances\<close> answers.
\<close>

named_theorems action_simps "when an action returns a value"
named_theorems keeps_intro "what an action leaves as it is"

section \<open>Actions\<close>

lemma bindS_Inr [action_simps]:
  "bindS m f s = (Inr y, s') \<longleftrightarrow> (\<exists>x s1. m s = (Inr x, s1) \<and> f x s1 = (Inr y, s'))"
  by (auto simp: bindS_def split: prod.splits sum.splits)

lemma bindS_Inl [action_simps]:
  "bindS m f s = (Inl e, s') \<longleftrightarrow> m s = (Inl e, s') \<or> (\<exists>x s1. m s = (Inr x, s1) \<and> f x s1 = (Inl e, s'))"
  by (auto simp: bindS_def split: prod.splits sum.splits)

lemma simple_actions [action_simps, simp]:
  "returnS x s = (r, s') \<longleftrightarrow> r = Inr x \<and> s' = s"
  "raiseS e s = (r', s') \<longleftrightarrow> r' = raise e \<and> s' = s"
  "panicS s = (r', s') \<longleftrightarrow> r' = panic \<and> s' = s"
  "getS g s = (r'', s') \<longleftrightarrow> r'' = Inr (g s) \<and> s' = s"
  "modifyS h s = (u, s') \<longleftrightarrow> u = Inr () \<and> s' = h s"
  "liftS q s = (q', s') \<longleftrightarrow> q = q' \<and> s' = s"
  by (auto simp: returnS_def raiseS_def panicS_def getS_def modifyS_def liftS_def)

lemma failS_eq [action_simps, simp]:
  "failS e s = (r, s') \<longleftrightarrow> r = raise e \<and> s' = s\<lparr>s_aborted := True\<rparr>"
  by (auto simp: failS_def)

lemma statement_Inr:
  "statement s = (Inr u, s') \<longleftrightarrow> (s_fault s = None \<and> s' = s) \<or>
     (\<exists>n e. s_fault s = Some (Suc n, e) \<and> s' = s\<lparr>s_fault := Some (n, e)\<rparr>)"
  by (auto simp: statement_def split: option.splits prod.splits nat.splits)

lemma statement_Inl:
  "statement s = (Inl x, s') \<longleftrightarrow> (\<exists>e. s_fault s = Some (0, e) \<and> x = Raised e \<and>
     s' = s\<lparr>s_fault := None, s_aborted := True\<rparr>)"
  by (auto simp: statement_def raise_def split: option.splits prod.splits nat.splits)

text \<open>A part of the session that an action leaves as it is, also when it fails.\<close>

definition keeps :: "(session \<Rightarrow> 'b) \<Rightarrow> ('e, 'a) action \<Rightarrow> bool" where
  "keeps g m \<longleftrightarrow> (\<forall>s. g (snd (m s)) = g s)"

lemma keepsD: "keeps g m \<Longrightarrow> m s = (r, s') \<Longrightarrow> g s' = g s"
  by (metis keeps_def snd_conv)

lemma keeps_bind [keeps_intro]: "keeps g m \<Longrightarrow> (\<And>x. keeps g (f x)) \<Longrightarrow> keeps g (bindS m f)"
  by (auto simp: keeps_def bindS_def split: prod.splits sum.splits) (metis snd_conv)+

lemma keeps_simple [keeps_intro]:
  "keeps g (returnS x)" "keeps g (raiseS e)" "keeps g panicS" "keeps g (getS h)" "keeps g (liftS r)"
  by (simp_all add: keeps_def returnS_def raiseS_def panicS_def getS_def liftS_def)

lemma keeps_modify: "(\<And>s. g (h s) = g s) \<Longrightarrow> keeps g (modifyS h)"
  by (simp add: keeps_def modifyS_def)

lemma keeps_if [keeps_intro]: "(b \<Longrightarrow> keeps g m) \<Longrightarrow> (\<not> b \<Longrightarrow> keeps g n) \<Longrightarrow> keeps g (if b then m else n)"
  by simp

lemma keeps_option [keeps_intro]:
  "keeps g m \<Longrightarrow> (\<And>x. keeps g (f x)) \<Longrightarrow> keeps g (case v of None \<Rightarrow> m | Some x \<Rightarrow> f x)"
  by (cases v) auto

lemma keeps_prod [keeps_intro]: "(\<And>x y. keeps g (f x y)) \<Longrightarrow> keeps g (case p of (x, y) \<Rightarrow> f x y)"
  by (cases p) auto

lemma keeps_Let [keeps_intro]: "keeps g (f x) \<Longrightarrow> keeps g (let y = x in f y)"
  by simp

text \<open>The committed tables, and the committed tables but for the accounts.\<close>

definition base_core :: "session \<Rightarrow> tables" where
  "base_core s = (s_base s)\<lparr>t_accounts := []\<rparr>"

lemma keeps_base_fail [keeps_intro]: "keeps s_base (failS e)" "keeps s_base statement"
  by (auto simp: keeps_def failS_def statement_def split: option.splits prod.splits nat.splits)

lemma keeps_base_modify [keeps_intro]: "(\<And>s. s_base (h s) = s_base s) \<Longrightarrow> keeps s_base (modifyS h)"
  by (rule keeps_modify)

lemma keeps_core: "keeps s_base m \<Longrightarrow> keeps base_core m"
  by (simp add: keeps_def base_core_def)

lemma store_keeps_base [keeps_intro]:
  "keeps s_base (UpdateVolumes us)" "keeps s_base (Store_GetBalances q)"
  "keeps s_base (InsertTransaction tx)" "keeps s_base (InsertMoves f ms)"
  "keeps s_base (updateTxWithRetrieve i c u)" "keeps s_base (UpdateAccountsMetadata am d)"
  "keeps s_base (Store_DeleteAccountMetadata a k)" "keeps s_base (InsertLog sha f l)"
  "keeps s_base (ReadLogWithIdempotencyKey k)" "keeps s_base (Store_InsertSchema sc)"
  "keeps s_base (FindSchema v)" "keeps s_base FindLatestSchemaVersion"
  unfolding UpdateVolumes_def Store_GetBalances_def InsertTransaction_def insert_row_def InsertMoves_def next_tx_id_def
    updateTxWithRetrieve_def UpdateAccountsMetadata_def Store_DeleteAccountMetadata_def InsertLog_def insert_log_row_def
    ReadLogWithIdempotencyKey_def Store_InsertSchema_def FindSchema_def FindLatestSchemaVersion_def
    next_log_id_def
  by (intro keeps_intro; simp)+

lemma store_keeps_base' [keeps_intro]:
  "keeps s_base (Store_RevertTransaction i d)" "keeps s_base (Store_UpdateTransactionMetadata i m d)"
  "keeps s_base (Store_DeleteTransactionMetadata i k d)" "keeps s_base (CommitTransaction f tx)"
  unfolding Store_RevertTransaction_def Store_UpdateTransactionMetadata_def
    Store_DeleteTransactionMetadata_def CommitTransaction_def commit_moves_def
  by (intro keeps_intro)+

lemma UpsertAccounts_keeps_core: "keeps base_core (UpsertAccounts b ds)"
proof -
  have "keeps base_core (failS e)" "keeps base_core statement" for e
    by (intro keeps_core keeps_base_fail)+
  moreover have "keeps base_core (modifyS (\<lambda>s.
      let put = (\<lambda>t. t\<lparr>t_accounts := fold (upsert_account (s_now s)) ds (t_accounts t)\<rparr>) in
      s\<lparr>s_tx := put (s_tx s), s_base := (if b then put (s_base s) else s_base s)\<rparr>))"
    by (rule keeps_modify) (simp add: base_core_def Let_def)
  ultimately show ?thesis unfolding UpsertAccounts_def by (intro keeps_intro)
qed

section \<open>Volumes\<close>

definition vol_at :: "post_commit_volumes \<Rightarrow> string \<Rightarrow> string \<Rightarrow> volumes" where
  "vol_at m a c = (case nget m a c of None \<Rightarrow> NewEmptyVolumes | Some v \<Rightarrow> v)"

definition plus_postings :: "posting list \<Rightarrow> string \<Rightarrow> string \<Rightarrow> volumes \<Rightarrow> volumes" where
  "plus_postings ps a c v = \<lparr>v_Input = v_Input v + received a c ps, v_Output = v_Output v + sent a c ps\<rparr>"

definition involved :: "posting list \<Rightarrow> string \<Rightarrow> string \<Rightarrow> bool" where
  "involved ps a c \<longleftrightarrow> (\<exists>p \<in> set ps. involves p a c)"

lemma not_involved_zero: "\<not> involved ps a c \<Longrightarrow> received a c ps = 0 \<and> sent a c ps = 0"
  unfolding involved_def by (rule not_involved)

lemma less_plus [simp]: "less_postings ps a c (plus_postings ps a c v) = v"
  by (simp add: less_postings_def plus_postings_def)

lemma vol_at_nput [simp]: "vol_at (nput a b x m) a' b' = (if a' = a \<and> b' = b then x else vol_at m a' b')"
  by (simp add: vol_at_def)

lemma nget_upsert:
  "nget (upsert_volume u m) a c = (if (a, c) = av_key u
     then Some \<lparr>v_Input = v_Input (vol_at m a c) + av_Input u, v_Output = v_Output (vol_at m a c) + av_Output u\<rparr>
     else nget m a c)"
  by (auto simp: upsert_volume_def av_key_def vol_at_def NewEmptyVolumes_def NewVolumesInt64_def
      split: option.splits)

definition transaction_updates :: "posting list \<Rightarrow> accounts_volumes list \<Rightarrow> bool" where
  "transaction_updates ps us \<longleftrightarrow> distinct (map av_key us) \<and>
     (\<forall>u. u \<in> set us \<longleftrightarrow> (\<exists>a c. involved ps a c \<and> u = volume_update ps a c))"

lemma VolumeUpdates_updates:
  assumes "list_all has_amount (tx_Postings tx)"
  shows "\<exists>us. VolumeUpdates tx = (Inr us :: ('e, _) result) \<and> transaction_updates (tx_Postings tx) us"
proof -
  obtain us where us: "VolumeUpdates tx = (Inr us :: ('e, _) result)" "distinct (map av_key us)"
    "set us = {u. \<exists>p \<in> set (tx_Postings tx). \<exists>a. involves p a (p_Asset p) \<and>
       u = volume_update (tx_Postings tx) a (p_Asset p)}"
    using VolumeUpdates_spec [OF assms] by blast
  then have "transaction_updates (tx_Postings tx) us"
    unfolding transaction_updates_def involved_def involves_def by auto
  with us(1) show ?thesis by blast
qed

lemma av_key_volume_update [simp]: "av_key (volume_update ps a c) = (a, c)"
  by (simp add: av_key_def volume_update_def)

lemma nget_fold_upsert_other:
  "(a, c) \<notin> av_key ` set us \<Longrightarrow> nget (fold upsert_volume us m) a c = nget m a c"
  by (induction us arbitrary: m) (auto simp: nget_upsert)

lemma nget_fold_upsert:
  "distinct (map av_key us) \<Longrightarrow> u \<in> set us \<Longrightarrow> av_key u = (a, c) \<Longrightarrow>
     nget (fold upsert_volume us m) a c =
       Some \<lparr>v_Input = v_Input (vol_at m a c) + av_Input u, v_Output = v_Output (vol_at m a c) + av_Output u\<rparr>"
proof (induction us arbitrary: m)
  case (Cons x us)
  show ?case
  proof (cases "u = x")
    case True
    with Cons.prems have "(a, c) \<notin> av_key ` set us" by auto
    with True Cons.prems(3) show ?thesis by (simp add: nget_fold_upsert_other nget_upsert)
  next
    case False
    with Cons.prems have u: "u \<in> set us" "av_key x \<noteq> (a, c)" by (auto simp: image_iff)
    have "vol_at (upsert_volume x m) a c = vol_at m a c"
      unfolding vol_at_def using u(2) by (auto simp: nget_upsert)
    with Cons.IH [OF _ u(1) Cons.prems(3)] Cons.prems(1) show ?thesis by simp
  qed
qed simp

lemma upserted_volumes:
  assumes "transaction_updates ps us"
  shows "nget (fold upsert_volume us m) a c =
    (if involved ps a c then Some (plus_postings ps a c (vol_at m a c)) else nget m a c)"
proof (cases "involved ps a c")
  case True
  with assms have "volume_update ps a c \<in> set us" "distinct (map av_key us)"
    by (auto simp: transaction_updates_def)
  from nget_fold_upsert [OF this(2,1) av_key_volume_update] True show ?thesis
    by (simp add: volume_update_def plus_postings_def)
next
  case False
  with assms have "(a, c) \<notin> av_key ` set us"
    unfolding transaction_updates_def by (force simp: av_key_def volume_update_def)
  with False show ?thesis by (simp add: nget_fold_upsert_other)
qed

lemma nget_returned:
  assumes "\<forall>u \<in> set us. nget m (av_Account u) (av_Asset u) \<noteq> None"
  shows "nget (returned_volumes us m) a c = (if (a, c) \<in> av_key ` set us then nget m a c else None)"
proof -
  have "nget (fold (\<lambda>u ret. case nget m (av_Account u) (av_Asset u) of
         None \<Rightarrow> ret | Some v \<Rightarrow> nput (av_Account u) (av_Asset u) v ret) us r) a c =
      (if (a, c) \<in> av_key ` set us then nget m a c else nget r a c)" for r
    using assms by (induction us arbitrary: r) (auto simp: av_key_def split: option.splits)
  then show ?thesis by (simp add: returned_volumes_def)
qed

lemma returned_after_upsert:
  assumes "transaction_updates ps us"
  shows "nget (returned_volumes us (fold upsert_volume us m)) a c =
    (if involved ps a c then Some (plus_postings ps a c (vol_at m a c)) else None)"
proof -
  have k: "(a, c) \<in> av_key ` set us \<longleftrightarrow> involved ps a c" for a c
    using assms unfolding transaction_updates_def image_iff by (metis av_key_volume_update prod.inject)
  have "\<forall>u \<in> set us. nget (fold upsert_volume us m) (av_Account u) (av_Asset u) \<noteq> None"
    using assms unfolding upserted_volumes [OF assms] transaction_updates_def
    by (auto simp: volume_update_def)
  from nget_returned [OF this] show ?thesis by (simp add: k upserted_volumes [OF assms])
qed

text \<open>A transaction whose updates could be computed has all its amounts.\<close>

lemma sum_volumes_amounts:
  "sum_volumes a ps v = Inr w \<Longrightarrow> p \<in> set ps \<Longrightarrow> p_Source p = a \<or> p_Destination p = a \<Longrightarrow> has_amount p"
  by (induction ps arbitrary: v) (auto simp: has_amount_def split: option.splits if_splits)

lemma mapr_Inr_in: "mapr f xs = Inr ys \<Longrightarrow> x \<in> set xs \<Longrightarrow> \<exists>y. f x = Inr y"
  by (induction xs arbitrary: ys) (auto simp: result_simps)

lemma VolumeUpdates_amounts:
  assumes "VolumeUpdates tx = (Inr us :: ('e, _) result)"
  shows "list_all has_amount (tx_Postings tx)"
  unfolding list_all_iff
proof
  fix p assume p: "p \<in> set (tx_Postings tx)"
  let ?ps = "tx_Postings tx" and ?a = "p_Source p" and ?c = "p_Asset p"
  have e: "(?a, ?c, involving ?a ?c ?ps) \<in> set (entries (aggregate ?ps []))"
    using p by (auto simp: aggregate_entry involving_def involves_def filter_empty_conv)
  from assms obtain ret where "mapr (\<lambda>(account, asset, ps).
         bindr (sum_volumes account ps NewEmptyVolumes) (\<lambda>v.
           Inr \<lparr>av_Account = account, av_Asset = asset, av_Input = v_Input v, av_Output = v_Output v\<rparr>))
       (entries (aggregate ?ps [])) = (Inr ret :: ('e, _) result)"
    by (auto simp: VolumeUpdates_def result_simps)
  from mapr_Inr_in [OF this e] obtain v where
    "sum_volumes ?a (involving ?a ?c ?ps) NewEmptyVolumes = (Inr v :: ('e, _) result)"
    by (auto simp: result_simps)
  from sum_volumes_amounts [OF this, of p] p show "has_amount p"
    by (simp add: involving_def involves_def)
qed

section \<open>Commits\<close>

lemma statement_keeps: "statement s = (r, s') \<Longrightarrow> s_tx s' = s_tx s \<and> s_now s' = s_now s \<and> s_base s' = s_base s"
  by (auto simp: statement_def split: option.splits prod.splits nat.splits)

lemma UpdateVolumes_Inr:
  assumes "UpdateVolumes us s = (Inr pcv, s')" "transaction_updates ps us"
  shows "\<exists>vs. (\<forall>a c. nget vs a c = (if involved ps a c then Some (plus_postings ps a c (vol_at (t_volumes (s_tx s)) a c))
      else nget (t_volumes (s_tx s)) a c)) \<and> s_tx s' = (s_tx s)\<lparr>t_volumes := vs\<rparr>"
    and "nget pcv a c = (if involved ps a c then Some (plus_postings ps a c (vol_at (t_volumes (s_tx s)) a c)) else None)"
    and "s_now s' = s_now s"
proof -
  let ?vs = "fold upsert_volume us (t_volumes (s_tx s))"
  from assms(1) obtain s1 where s1: "statement s = (Inr (), s1)"
    "s' = s1\<lparr>s_tx := (s_tx s1)\<lparr>t_volumes := fold upsert_volume us (t_volumes (s_tx s1))\<rparr>\<rparr>"
    "pcv = returned_volumes us (t_volumes (s_tx s'))"
    by (auto simp: UpdateVolumes_def action_simps split: if_splits)
  from statement_keeps [OF s1(1)] s1(2,3) have e: "s_tx s' = (s_tx s)\<lparr>t_volumes := ?vs\<rparr>"
    "pcv = returned_volumes us ?vs" "s_now s' = s_now s" by auto
  from e(1) upserted_volumes [OF assms(2), of "t_volumes (s_tx s)"]
  show "\<exists>vs. (\<forall>a c. nget vs a c = (if involved ps a c then Some (plus_postings ps a c (vol_at (t_volumes (s_tx s)) a c))
      else nget (t_volumes (s_tx s)) a c)) \<and> s_tx s' = (s_tx s)\<lparr>t_volumes := vs\<rparr>" by blast
  show "nget pcv a c = (if involved ps a c then Some (plus_postings ps a c (vol_at (t_volumes (s_tx s)) a c)) else None)"
    unfolding e(2) by (rule returned_after_upsert [OF assms(2)])
  show "s_now s' = s_now s" by (rule e(3))
qed

definition fresh_row :: "tables \<Rightarrow> transaction \<Rightarrow> bool" where
  "fresh_row t row \<longleftrightarrow> (\<exists>i. tx_ID row = Some i) \<and>
     (\<forall>r \<in> set (t_transactions t). tx_ID r \<noteq> tx_ID row \<and> (tx_Reference row \<noteq> [] \<longrightarrow> tx_Reference r \<noteq> tx_Reference row))"

lemma next_tx_id_Inr: "next_tx_id tx s = (Inr i, s') \<Longrightarrow> s_tx s' = s_tx s \<and> s_now s' = s_now s"
  by (auto simp: next_tx_id_def action_simps split: option.splits)

lemma stored_sel [simp]:
  "tx_ID (stored tx) = tx_ID tx" "tx_Postings (stored tx) = tx_Postings tx"
  "tx_Reference (stored tx) = tx_Reference tx" "tx_PostCommitVolumes (stored tx) = tx_PostCommitVolumes tx"
  by (simp_all add: stored_def)

lemma insert_row_Inr:
  "insert_row tx i s = (Inr row, s') \<Longrightarrow> row = (stamp (s_now s) tx)\<lparr>tx_ID := Some i\<rparr> \<and>
     fresh_row (s_tx s) (stored row) \<and>
     s' = s\<lparr>s_tx := (s_tx s)\<lparr>t_transactions := t_transactions (s_tx s) @ [stored row]\<rparr>\<rparr>"
  by (auto simp: insert_row_def stored_def action_simps Let_def fresh_row_def list_ex_iff stamp_def
      split: if_splits option.splits)

lemma InsertTransaction_Inr:
  assumes "InsertTransaction tx s = (Inr row, s')"
  shows "\<exists>i. row = (stamp (s_now s) tx)\<lparr>tx_ID := Some i\<rparr> \<and> fresh_row (s_tx s) (stored row) \<and> s_now s' = s_now s \<and>
    s_tx s' = (s_tx s)\<lparr>t_transactions := t_transactions (s_tx s) @ [stored row]\<rparr>"
proof -
  from assms obtain s1 i s2 where s1: "statement s = (Inr (), s1)" "next_tx_id tx s1 = (Inr i, s2)"
    and r: "insert_row tx i s2 = (Inr row, s')"
    by (auto simp: InsertTransaction_def action_simps)
  from statement_keeps [OF s1(1)] next_tx_id_Inr [OF s1(2)] insert_row_Inr [OF r]
  show ?thesis by (intro exI [of _ i]) auto
qed

lemma InsertMoves_Inr:
  "InsertMoves f ms s = (Inr new, s') \<Longrightarrow> s_now s' = s_now s \<and> (\<exists>rows. s_tx s' = (s_tx s)\<lparr>t_moves := rows\<rparr>)"
  by (auto simp: InsertMoves_def action_simps Let_def split: if_splits prod.splits dest!: statement_keeps)

lemma commit_moves_Inr:
  assumes "commit_moves f pcv tx s = (Inr tx', s')"
  shows "s_now s' = s_now s \<and> (\<exists>rows. s_tx s' = (s_tx s)\<lparr>t_moves := rows\<rparr>) \<and>
    (\<exists>v. tx' = tx\<lparr>tx_PostCommitEffectiveVolumes := v\<rparr>)"
proof -
  have same: "\<exists>v. tx = tx\<lparr>tx_PostCommitEffectiveVolumes := v\<rparr>" "\<exists>rows. t = t\<lparr>t_moves := rows\<rparr>" for t :: tables
    by (metis transaction.surjective transaction.update_convs(10)) (metis tables.surjective tables.update_convs(3))
  show ?thesis using assms same
    by (auto simp: commit_moves_def action_simps split: if_splits option.splits dest!: InsertMoves_Inr)
qed

text \<open>What a commit does to the tables, and the transaction it returns.\<close>

definition committed :: "tables \<Rightarrow> transaction \<Rightarrow> tables \<Rightarrow> transaction \<Rightarrow> bool" where
  "committed t tx t' tx' \<longleftrightarrow>
     list_all has_amount (tx_Postings tx) \<and> tx_Postings tx' = tx_Postings tx \<and>
     (\<forall>a c. nget (t_volumes t') a c = (if involved (tx_Postings tx) a c
        then Some (plus_postings (tx_Postings tx) a c (vol_at (t_volumes t) a c)) else nget (t_volumes t) a c)) \<and>
     (\<forall>a c. nget (tx_PostCommitVolumes tx') a c = (if involved (tx_Postings tx) a c
        then nget (t_volumes t') a c else None)) \<and>
     (\<exists>row. fresh_row t row \<and> t_transactions t' = t_transactions t @ [row] \<and>
        (\<exists>v. tx' = row\<lparr>tx_PostCommitEffectiveVolumes := v\<rparr>)) \<and>
     t_accounts t' = t_accounts t \<and> t_logs t' = t_logs t \<and> t_schemas t' = t_schemas t"

lemma CommitTransaction_Inr:
  assumes "CommitTransaction f tx s = (Inr tx', s')"
  shows "committed (s_tx s) tx (s_tx s') tx'" and "s_now s' = s_now s"
    and "tx_Metadata tx' = tx_Metadata tx" "tx_Reference tx' = tx_Reference tx"
    "tx_Template tx' = tx_Template tx" "tx_Timestamp tx' = or_default (tx_Timestamp tx) (s_now s)"
    "tx_RevertedAt tx' = tx_RevertedAt tx"
proof -
  from assms obtain us pcv s1 row s2 where us: "VolumeUpdates tx = (Inr us :: (store_error, _) result)"
    and u: "UpdateVolumes us s = (Inr pcv, s1)"
    and i: "InsertTransaction (tx\<lparr>tx_PostCommitVolumes := pcv\<rparr>) s1 = (Inr row, s2)"
    and m: "commit_moves f pcv row s2 = (Inr tx', s')"
    by (auto simp: CommitTransaction_def action_simps)
  have am: "list_all has_amount (tx_Postings tx)" by (rule VolumeUpdates_amounts [OF us])
  from VolumeUpdates_updates [OF am] us have tu: "transaction_updates (tx_Postings tx) us"
    by (metis sum.inject(2))
  note U = UpdateVolumes_Inr [OF u tu] and I = InsertTransaction_Inr [OF i] and M = commit_moves_Inr [OF m]
  from U(1) obtain vs where vs: "s_tx s1 = (s_tx s)\<lparr>t_volumes := vs\<rparr>"
    "\<forall>a c. nget vs a c = (if involved (tx_Postings tx) a c
       then Some (plus_postings (tx_Postings tx) a c (vol_at (t_volumes (s_tx s)) a c))
       else nget (t_volumes (s_tx s)) a c)" by blast
  from I obtain j where I': "row = (stamp (s_now s1) (tx\<lparr>tx_PostCommitVolumes := pcv\<rparr>))\<lparr>tx_ID := Some j\<rparr>"
    "fresh_row (s_tx s1) (stored row)" "s_now s2 = s_now s1"
    "s_tx s2 = (s_tx s1)\<lparr>t_transactions := t_transactions (s_tx s1) @ [stored row]\<rparr>" by blast
  from M obtain rows v where M': "s_now s' = s_now s2" "s_tx s' = (s_tx s2)\<lparr>t_moves := rows\<rparr>"
    "tx' = row\<lparr>tx_PostCommitEffectiveVolumes := v\<rparr>" by blast
  have row: "tx_Postings row = tx_Postings tx" "tx_PostCommitVolumes row = pcv"
    by (simp_all add: I'(1) stamp_def Let_def)
  have "fresh_row (s_tx s) (stored row)" using I'(2) by (simp add: vs(1) fresh_row_def)
  moreover have "tx' = (stored row)\<lparr>tx_PostCommitEffectiveVolumes := v\<rparr>" by (simp add: M'(3) stored_def)
  ultimately show "committed (s_tx s) tx (s_tx s') tx'"
    using am U(2) vs(2) row unfolding committed_def
    by (simp add: vs(1) I'(4) M'(2,3)) blast
  show "s_now s' = s_now s" using M' I' U(3) by simp
  show "tx_Metadata tx' = tx_Metadata tx" "tx_Reference tx' = tx_Reference tx"
    "tx_Template tx' = tx_Template tx" "tx_Timestamp tx' = or_default (tx_Timestamp tx) (s_now s)"
    "tx_RevertedAt tx' = tx_RevertedAt tx"
    using U(3) by (simp_all add: M'(3) I'(1) stamp_def Let_def)
qed

section \<open>The volumes of moves\<close>

text \<open>What moves do to the volumes of an account and asset, one after the other.\<close>

definition apply_moves :: "move list \<Rightarrow> string \<times> string \<Rightarrow> volumes \<Rightarrow> volumes" where
  "apply_moves ms k v = fold (\<lambda>m v. if mv_key m = k then move_volumes m v else v) ms v"

text \<open>Each move holds the volumes right after it, from those before the first.\<close>

definition traced :: "(string \<times> string \<Rightarrow> volumes) \<Rightarrow> move list \<Rightarrow> bool" where
  "traced b ms \<longleftrightarrow> (\<forall>k < length ms. mv_PostCommitVolumes (ms ! k) =
     Some (apply_moves (take (Suc k) ms) (mv_key (ms ! k)) (b (mv_key (ms ! k)))))"

lemma traced_snoc:
  "traced b (ms @ [m]) \<longleftrightarrow> traced b ms \<and>
     mv_PostCommitVolumes m = Some (apply_moves (ms @ [m]) (mv_key m) (b (mv_key m)))"
  unfolding traced_def by (auto simp: nth_append less_Suc_eq)

lemma apply_moves_append: "apply_moves (ms @ ns) k v = apply_moves ns k (apply_moves ms k v)"
  by (simp add: apply_moves_def)

lemma new_move_sel [simp]:
  "mv_PostCommitVolumes (new_move tx i b p n v) = Some v"
  "mv_key (new_move tx i b p n v) = (if b then p_Source p else p_Destination p, p_Asset p)"
  "mv_IsSource (new_move tx i b p n v) = b" "mv_Amount (new_move tx i b p n v) = n"
  "mv_EffectiveDate (new_move tx i b p n v) = tx_Timestamp tx"
  "mv_TransactionID (new_move tx i b p n v) = i"
  by (simp_all add: new_move_def mv_key_def)

definition half :: "move \<Rightarrow> bool \<times> (string \<times> string) \<times> int" where
  "half m = (mv_IsSource m, mv_key m, mv_Amount m)"

definition halves :: "posting list \<Rightarrow> (bool \<times> (string \<times> string) \<times> int) list" where
  "halves ps = concat (map (\<lambda>p. [(True, (p_Source p, p_Asset p), amt p),
     (False, (p_Destination p, p_Asset p), amt p)]) ps)"

lemma build_moves_Cons:
  assumes "p_Amount p = Some n" "nget m (p_Destination p) (p_Asset p) = Some v"
    "nget (nput (p_Destination p) (p_Asset p) (v\<lparr>v_Input := v_Input v + - n\<rparr>) m) (p_Source p) (p_Asset p) = Some w"
  shows "build_moves tx i (p # ps) m =
    bindr (build_moves tx i ps (nput (p_Source p) (p_Asset p) (w\<lparr>v_Output := v_Output w + - n\<rparr>)
        (nput (p_Destination p) (p_Asset p) (v\<lparr>v_Input := v_Input v + - n\<rparr>) m))) (\<lambda>ms.
      Inr (new_move tx i False p n v # new_move tx i True p n w # ms))"
  using assms by (simp add: AddInput_Some AddOutput_Some del: add_uminus_conv_diff)

lemma build_moves_traced:
  assumes "list_all has_amount ps"
    "\<And>a c. involved ps a c \<Longrightarrow> (a, c) \<in> K"
    "\<And>a c. (a, c) \<in> K \<Longrightarrow> nget m a c = Some (plus_postings ps a c (b (a, c)))"
  shows "\<exists>ms. build_moves tx i (rev ps) m = (Inr (rev ms) :: ('e, _) result) \<and> traced b ms \<and>
    map half ms = halves ps \<and> (\<forall>a c v. apply_moves ms (a, c) v = plus_postings ps a c v) \<and>
    (\<forall>x \<in> set ms. mv_TransactionID x = i \<and> mv_EffectiveDate x = tx_Timestamp tx)"
  using assms
proof (induction ps arbitrary: m rule: rev_induct)
  case Nil
  then show ?case by (simp add: traced_def halves_def apply_moves_def plus_postings_def)
next
  case (snoc p ps)
  have ps: "list_all has_amount ps" using snoc.prems(1) by simp
  from snoc.prems(1) obtain n where n: "p_Amount p = Some n" by (auto simp: has_amount_def)
  have a: "amt p = n" by (simp add: amt_def n)
  let ?s = "p_Source p" and ?d = "p_Destination p" and ?c = "p_Asset p"
  have K: "(?s, ?c) \<in> K" "(?d, ?c) \<in> K"
    using snoc.prems(2) by (auto simp: involved_def involves_def)
  let ?v = "plus_postings (ps @ [p]) ?d ?c (b (?d, ?c))"
  have v: "nget m ?d ?c = Some ?v" by (rule snoc.prems(3) [OF K(2)])
  let ?m1 = "nput ?d ?c (?v\<lparr>v_Input := v_Input ?v + - n\<rparr>) m"
  let ?w = "\<lparr>v_Input = v_Input (b (?s, ?c)) + received ?s ?c ps,
     v_Output = v_Output (b (?s, ?c)) + sent ?s ?c (ps @ [p])\<rparr>"
  have w: "nget ?m1 ?s ?c = Some ?w"
    using snoc.prems(3) [OF K(1)] a by (auto simp: plus_postings_def)
  let ?m2 = "nput ?s ?c (?w\<lparr>v_Output := v_Output ?w + - n\<rparr>) ?m1"
  have m2: "nget ?m2 a c = Some (plus_postings ps a c (b (a, c)))" if "(a, c) \<in> K" for a c
    using snoc.prems(3) [OF that] a by (auto simp: plus_postings_def)
  have inv: "(a, c) \<in> K" if "involved ps a c" for a c
    using that snoc.prems(2) by (auto simp: involved_def)
  from snoc.IH [OF ps inv m2] obtain ms where ms:
    "build_moves tx i (rev ps) ?m2 = (Inr (rev ms) :: ('e, _) result)" "traced b ms" "map half ms = halves ps"
    "\<forall>a c v. apply_moves ms (a, c) v = plus_postings ps a c v"
    "\<forall>x \<in> set ms. mv_TransactionID x = i \<and> mv_EffectiveDate x = tx_Timestamp tx" by blast
  let ?src = "new_move tx i True p n ?w" and ?dst = "new_move tx i False p n ?v"
  have "build_moves tx i (rev (ps @ [p])) m = (Inr (rev (ms @ [?src, ?dst])) :: ('e, _) result)"
  proof -
    have e: "rev (ps @ [p]) = p # rev ps" "rev (ms @ [?src, ?dst]) = ?dst # ?src # rev ms" by simp_all
    show ?thesis unfolding e by (simp only: build_moves_Cons [OF n v w] ms(1) bindr.simps)
  qed
  moreover have "traced b (ms @ [?src, ?dst])"
  proof -
    have "traced b (ms @ [?src])"
      using ms(2,4) a by (simp add: traced_snoc apply_moves_append)
        (simp add: apply_moves_def move_volumes_def plus_postings_def)
    moreover have "apply_moves (ms @ [?src, ?dst]) (?d, ?c) (b (?d, ?c)) = ?v"
      using ms(4) a by (simp add: apply_moves_append)
        (auto simp: apply_moves_def move_volumes_def plus_postings_def)
    ultimately show ?thesis
      using traced_snoc [of b "ms @ [?src]" ?dst] by simp
  qed
  moreover have "map half (ms @ [?src, ?dst]) = halves (ps @ [p])"
    using ms(3) a by (simp add: halves_def half_def)
  moreover have "apply_moves (ms @ [?src, ?dst]) (a', c') v' = plus_postings (ps @ [p]) a' c' v'" for a' c' v'
    using ms(4) a by (simp add: apply_moves_append)
      (auto simp: apply_moves_def move_volumes_def plus_postings_def)
  ultimately show ?case using ms(5) by (intro exI [of _ "ms @ [?src, ?dst]"]) auto
qed

end
