(* ===== verification/Store_Books.thy ===== *)
theory Store_Books
  imports Store_Laws Vm_Resolve
begin

text \<open>
  The invariant of the tables: the volumes are the sums of the postings of the transactions, ids
  and references are unique, and so the balances of every asset add up to zero. Every operation
  keeps it. \<open>GetBalances\<close> is a store of the virtual machine's interface.
\<close>

section \<open>The books\<close>

definition all_postings :: "tables \<Rightarrow> posting list" where
  "all_postings t = concat (map tx_Postings (t_transactions t))"

definition references :: "tables \<Rightarrow> string list" where
  "references t = filter (\<lambda>r. r \<noteq> []) (map tx_Reference (t_transactions t))"

definition books :: "tables \<Rightarrow> bool" where
  "books t \<longleftrightarrow> (\<forall>a c. vol_at (t_volumes t) a c = plus_postings (all_postings t) a c NewEmptyVolumes) \<and>
     list_all has_amount (all_postings t) \<and> None \<notin> tx_ID ` set (t_transactions t) \<and>
     distinct (map tx_ID (t_transactions t)) \<and> distinct (references t)"

lemma plus_postings_append:
  "plus_postings (ps @ qs) a c v = plus_postings qs a c (plus_postings ps a c v)"
  by (simp add: plus_postings_def)

lemma plus_postings_none: "\<not> involved ps a c \<Longrightarrow> plus_postings ps a c v = v"
  using not_involved_zero [of ps a c] by (simp add: plus_postings_def)

lemma books_empty: "books empty_tables"
  by (simp add: books_def empty_tables_def all_postings_def references_def vol_at_def plus_postings_def
      NewEmptyVolumes_def NewVolumesInt64_def)

lemma committed_books:
  assumes "committed t tx t' tx'" "books t"
  shows "books t'"
proof -
  from assms(1) obtain row v where row: "fresh_row t row" "t_transactions t' = t_transactions t @ [row]"
    "tx' = row\<lparr>tx_PostCommitEffectiveVolumes := v\<rparr>" and am: "list_all has_amount (tx_Postings tx)"
    and ps: "tx_Postings tx' = tx_Postings tx"
    and vs: "\<forall>a c. nget (t_volumes t') a c = (if involved (tx_Postings tx) a c
      then Some (plus_postings (tx_Postings tx) a c (vol_at (t_volumes t) a c)) else nget (t_volumes t) a c)"
    unfolding committed_def by blast
  have r: "tx_Postings row = tx_Postings tx" using ps row(3) by simp
  have all: "all_postings t' = all_postings t @ tx_Postings tx"
    by (simp add: all_postings_def row(2) r)
  have "vol_at (t_volumes t') a c = plus_postings (tx_Postings tx) a c (vol_at (t_volumes t) a c)" for a c
    using vs plus_postings_none [of "tx_Postings tx" a c] unfolding vol_at_def by simp
  then have "vol_at (t_volumes t') a c = plus_postings (all_postings t') a c NewEmptyVolumes" for a c
    using assms(2) by (simp add: all plus_postings_append books_def)
  moreover have "distinct (references t')"
    using assms(2) row(1) unfolding books_def references_def fresh_row_def
    by (auto simp: row(2))
  ultimately show ?thesis
    using assms(2) am row(1) unfolding books_def
    by (auto simp: all row(2) fresh_row_def)
qed

text \<open>The operations that change rows but no postings.\<close>

lemma books_update:
  assumes "books t" "\<And>r. tx_Postings (u r) = tx_Postings r \<and> tx_ID (u r) = tx_ID r \<and> tx_Reference (u r) = tx_Reference r"
  shows "books (t\<lparr>t_transactions := map (\<lambda>r. if tx_ID r = Some i then u r else r) (t_transactions t)\<rparr>)"
proof -
  let ?u = "\<lambda>r. if tx_ID r = Some i then u r else r"
  have m: "map tx_Postings (map ?u rs) = map tx_Postings rs" "map tx_ID (map ?u rs) = map tx_ID rs"
    "map tx_Reference (map ?u rs) = map tx_Reference rs" for rs
    using assms(2) by (simp_all cong: if_cong)
  let ?t = "t\<lparr>t_transactions := map ?u (t_transactions t)\<rparr>"
  have t: "t_transactions ?t = map ?u (t_transactions t)" by simp
  have e: "all_postings ?t = all_postings t" "references ?t = references t"
    "map tx_ID (t_transactions ?t) = map tx_ID (t_transactions t)"
    unfolding all_postings_def references_def t m by (rule refl)+
  have "tx_ID ` set (t_transactions ?t) = tx_ID ` set (t_transactions t)"
    using arg_cong [OF e(3), of set] unfolding set_map .
  moreover have "t_volumes ?t = t_volumes t" by simp
  ultimately show ?thesis using assms(1) unfolding books_def e by simp
qed

lemma books_cong:
  "t_transactions t' = t_transactions t \<Longrightarrow> (\<And>a c. vol_at (t_volumes t') a c = vol_at (t_volumes t) a c) \<Longrightarrow>
     books t' = books t"
  by (simp add: books_def all_postings_def references_def)

lemma vol_at_zero_row: "vol_at (zero_row k m) a c = vol_at m a c"
  by (cases k) (auto simp: zero_row_def vol_at_def split: option.splits)

lemma vol_at_zero_rows: "vol_at (fold zero_row ks m) a c = vol_at m a c"
  by (induction ks arbitrary: m) (simp_all add: vol_at_zero_row)

lemma GetBalances_Inr:
  assumes "Store_GetBalances q s = (Inr bs, s')"
  shows "bs = read_balances (s_tx s) q" "s_now s' = s_now s"
    "s_tx s' = (s_tx s)\<lparr>t_volumes := fold zero_row (queried_pairs q) (t_volumes (s_tx s))\<rparr>"
proof -
  from assms obtain s1 where s1: "statement s = (Inr (), s1)" "bs = read_balances (s_tx s1) q"
    "s' = s1\<lparr>s_tx := (s_tx s1)\<lparr>t_volumes := fold zero_row (queried_pairs q) (t_volumes (s_tx s1))\<rparr>\<rparr>"
    by (auto simp: Store_GetBalances_def action_simps split: if_splits)
  from statement_keeps [OF s1(1)] s1(2,3) show "bs = read_balances (s_tx s) q" "s_now s' = s_now s"
    "s_tx s' = (s_tx s)\<lparr>t_volumes := fold zero_row (queried_pairs q) (t_volumes (s_tx s))\<rparr>" by auto
qed

text \<open>An action that keeps the books whenever it returns a value.\<close>

definition keeps_books :: "('e, 'a) action \<Rightarrow> bool" where
  "keeps_books m \<longleftrightarrow> (\<forall>s x s'. books (s_tx s) \<longrightarrow> m s = (Inr x, s') \<longrightarrow> books (s_tx s'))"

lemma keeps_booksD: "keeps_books m \<Longrightarrow> books (s_tx s) \<Longrightarrow> m s = (Inr x, s') \<Longrightarrow> books (s_tx s')"
  by (auto simp: keeps_books_def)

named_theorems books_intro "actions that keep the books"

lemma books_bind [books_intro]: "keeps_books m \<Longrightarrow> (\<And>x. keeps_books (f x)) \<Longrightarrow> keeps_books (bindS m f)"
proof -
  assume m: "keeps_books m" and f: "\<And>x. keeps_books (f x)"
  have "books (s_tx s')" if "books (s_tx s)" "bindS m f s = (Inr y, s')" for s y s'
  proof -
    from that(2) obtain x s1 where "m s = (Inr x, s1)" "f x s1 = (Inr y, s')" unfolding bindS_Inr by blast
    with keeps_booksD [OF m that(1)] keeps_booksD [OF f] show ?thesis by blast
  qed
  then show "keeps_books (bindS m f)" unfolding keeps_books_def by blast
qed

lemma books_simple [books_intro]:
  "keeps_books (returnS x)" "keeps_books (raiseS e)" "keeps_books panicS" "keeps_books (getS h)"
  "keeps_books (liftS r)" "keeps_books (failS e')" "keeps_books statement"
  by (auto simp: keeps_books_def dest!: statement_keeps)

lemma books_if [books_intro]:
  "(b \<Longrightarrow> keeps_books m) \<Longrightarrow> (\<not> b \<Longrightarrow> keeps_books n) \<Longrightarrow> keeps_books (if b then m else n)"
  by simp

lemma books_option [books_intro]:
  "keeps_books m \<Longrightarrow> (\<And>x. keeps_books (f x)) \<Longrightarrow> keeps_books (case v of None \<Rightarrow> m | Some x \<Rightarrow> f x)"
  by (cases v) auto

lemma books_prod [books_intro]: "(\<And>x y. keeps_books (f x y)) \<Longrightarrow> keeps_books (case p of (x, y) \<Rightarrow> f x y)"
  by (cases p) auto

lemma books_Let [books_intro]: "keeps_books (f x) \<Longrightarrow> keeps_books (let y = x in f y)"
  by simp

lemma books_modify: "(\<And>s. books (s_tx s) \<Longrightarrow> books (s_tx (h s))) \<Longrightarrow> keeps_books (modifyS h)"
  by (simp add: keeps_books_def)

lemma CommitTransaction_books [books_intro]: "keeps_books (CommitTransaction f tx)"
  unfolding keeps_books_def using CommitTransaction_Inr(1) committed_books by blast

lemma GetBalances_books [books_intro]: "keeps_books (Store_GetBalances q)"
  unfolding keeps_books_def
proof (intro allI impI)
  fix s x s' assume "books (s_tx s)" "Store_GetBalances q s = (Inr x, s')"
  then show "books (s_tx s')"
    using books_cong [of "s_tx s'" "s_tx s"] by (simp add: GetBalances_Inr vol_at_zero_rows)
qed

lemma updateTx_books:
  assumes "\<And>now r. tx_Postings (u now r) = tx_Postings r \<and> tx_ID (u now r) = tx_ID r \<and> tx_Reference (u now r) = tx_Reference r"
  shows "keeps_books (updateTxWithRetrieve i c u)"
  unfolding keeps_books_def
proof (intro allI impI)
  fix s x s' assume b: "books (s_tx s)" and u: "updateTxWithRetrieve i c u s = (Inr x, s')"
  from u obtain s1 where s1: "statement s = (Inr (), s1)" and
    "s_tx s' = s_tx s1 \<or> s_tx s' = (s_tx s1)\<lparr>t_transactions :=
       map (\<lambda>r. if tx_ID r = Some i then u (s_now s1) r else r) (t_transactions (s_tx s1))\<rparr>"
    by (auto simp: updateTxWithRetrieve_def action_simps split: option.splits if_splits)
  with statement_keeps [OF s1] b books_update [OF b, of "u (s_now s1)" i] assms show "books (s_tx s')" by auto
qed

lemma metadata_books [books_intro]:
  "keeps_books (Store_RevertTransaction i d)" "keeps_books (Store_UpdateTransactionMetadata i m d)"
  "keeps_books (Store_DeleteTransactionMetadata i k d)"
  unfolding Store_RevertTransaction_def Store_UpdateTransactionMetadata_def Store_DeleteTransactionMetadata_def
  by (intro updateTx_books; simp)+

lemma books_other: "books (t\<lparr>t_accounts := as\<rparr>) = books t" "books (t\<lparr>t_logs := ls\<rparr>) = books t"
  "books (t\<lparr>t_schemas := ss\<rparr>) = books t" "books (t\<lparr>t_moves := ms\<rparr>) = books t"
  by (intro books_cong; simp)+

lemma accounts_books [books_intro]:
  "keeps_books (UpsertAccounts b ds)" "keeps_books (UpdateAccountsMetadata am d)"
  "keeps_books (Store_DeleteAccountMetadata a k)"
  unfolding UpsertAccounts_def UpdateAccountsMetadata_def Store_DeleteAccountMetadata_def
  by (intro books_intro books_modify; simp add: books_other Let_def)+

lemma logs_books [books_intro]:
  "keeps_books (InsertLog sha f l)" "keeps_books (ReadLogWithIdempotencyKey k)"
  "keeps_books (Store_InsertSchema sc)" "keeps_books (FindSchema v)" "keeps_books FindLatestSchemaVersion"
  unfolding InsertLog_def insert_log_row_def next_log_id_def ReadLogWithIdempotencyKey_def Store_InsertSchema_def FindSchema_def
    FindLatestSchemaVersion_def
  by (intro books_intro books_modify; simp add: books_other Let_def)+

section \<open>Balances add up to zero\<close>

lemma table_balance_vol: "table_balance t a c = Volumes_Balance (vol_at (t_volumes t) a c)"
  by (simp add: table_balance_def vol_at_def NewEmptyVolumes_def NewVolumesInt64_def Volumes_Balance_def
      split: option.splits)

lemma books_balance:
  "books t \<Longrightarrow> table_balance t a c = received a c (all_postings t) - sent a c (all_postings t)"
  by (simp add: table_balance_vol books_def plus_postings_def Volumes_Balance_def NewEmptyVolumes_def
      NewVolumesInt64_def)

lemma no_row_no_balance: "a \<notin> fst ` set (t_volumes t) \<Longrightarrow> table_balance t a c = 0"
proof -
  assume "a \<notin> fst ` set (t_volumes t)"
  then have "map_of (t_volumes t) a = None" by (simp add: map_of_eq_None_iff)
  then show ?thesis by (simp add: table_balance_def nget_def inner_def)
qed

lemma balances_sum_to_zero:
  assumes "books t"
  shows "(\<Sum>a \<in> fst ` set (t_volumes t). table_balance t a c) = 0"
proof -
  let ?ps = "all_postings t" and ?K = "fst ` set (t_volumes t)"
  let ?A = "?K \<union> p_Source ` set ?ps \<union> p_Destination ` set ?ps"
  have "(\<Sum>a \<in> ?K. table_balance t a c) = (\<Sum>a \<in> ?A. table_balance t a c)"
    by (rule sum.mono_neutral_left) (use no_row_no_balance in auto)
  also have "\<dots> = (\<Sum>a \<in> ?A. received a c ?ps) - (\<Sum>a \<in> ?A. sent a c ?ps)"
    by (simp add: books_balance [OF assms] sum_subtractf)
  also have "(\<Sum>a \<in> ?A. received a c ?ps) = moved c ?ps" by (rule sum_received) auto
  also have "(\<Sum>a \<in> ?A. sent a c ?ps) = moved c ?ps" by (rule sum_sent) auto
  also have "moved c ?ps - moved c ?ps = 0" by simp
  finally show ?thesis .
qed

section \<open>The store of the virtual machine\<close>

lemma queried_pairs_iff: "(a, c) \<in> set (queried_pairs q) \<longleftrightarrow> queried q a c"
proof -
  have "(a, c) \<in> set (queried_pairs q) \<longleftrightarrow> (\<exists>cs. (a, cs) \<in> set (AList.clearjunk q) \<and> c \<in> set cs)"
    by (auto simp: queried_pairs_def)
  also have "\<dots> \<longleftrightarrow> queried q a c"
    unfolding queried_def
    by (metis AList.distinct_clearjunk AList.map_of_clearjunk map_of_eq_Some_iff)
  finally show ?thesis .
qed

lemma read_loop:
  "nkeys m \<Longrightarrow> nkeys (fold (\<lambda>(a, c) m. nput a c (g a c) m) ks m) \<and>
     nget (fold (\<lambda>(a, c) m. nput a c (g a c) m) ks m) a c =
       (if (a, c) \<in> set ks then Some (g a c) else nget m a c)"
  by (induction ks arbitrary: m) (auto split: prod.splits)

lemma read_balances_facts:
  "nkeys (read_balances t q)"
  "nget (read_balances t q) a c = (if queried q a c then Some (table_balance t a c) else None)"
  using read_loop [of "[]" "table_balance t" "queried_pairs q"]
  by (simp_all add: read_balances_def queried_pairs_iff)

lemma read_balances_entry:
  "(\<exists>ab. (a, ab) \<in> set (read_balances t q) \<and> (c, x) \<in> set ab) \<longleftrightarrow> queried q a c \<and> x = table_balance t a c"
proof -
  have "(\<exists>ab. (a, ab) \<in> set (read_balances t q) \<and> (c, x) \<in> set ab) \<longleftrightarrow> (a, c, x) \<in> set (entries (read_balances t q))"
    by (force simp: entries_def)
  then show ?thesis using entries_nget [OF read_balances_facts(1)] read_balances_facts(2) by auto
qed

text \<open>What the adapter answers the machine from the tables (\<open>vmStoreAdapter\<close>).\<close>

definition answer_balances :: "tables \<Rightarrow> balance_query \<Rightarrow> (string, store_balances) result" where
  "answer_balances t q = (if queried_pairs q = [] then raise ''empty slice'' else Inr (read_balances t q))"

interpretation ledger_balances: balance_store "answer_balances t" "table_balance t" for t
proof
  fix q bs a ab c x
  assume "answer_balances t q = Inr bs" "(a, ab) \<in> set bs" "(c, x) \<in> set ab"
  then show "x = table_balance t a c" "queried q a c"
    using read_balances_entry [of a t q c x] by (auto simp: answer_balances_def split: if_splits)
next
  fix q bs a c assume "answer_balances t q = Inr bs" "queried q a c"
  then show "\<exists>ab x. (a, ab) \<in> set bs \<and> (c, x) \<in> set ab"
    using read_balances_entry [of a t q c "table_balance t a c"] by (auto simp: answer_balances_def split: if_splits)
qed

end
