(* ===== verification/Store_Claims.thy ===== *)
theory Store_Claims
  imports Store_Books
begin

text \<open>
  The properties of postings, volumes and commits: what a transaction does to the volumes, the
  balances and the moves, and what its volumes say of the state before it.
\<close>

section \<open>Postings and their volumes\<close>

text \<open>
  The volume updates of a transaction are the sums of its postings: one row for each
  account and asset a posting involves, sorted and without repetition, its input what the
  account receives and its output what it sends; and for every asset the inputs and the outputs
  of all rows both add up to what the postings move.
\<close>

lemma volume_updates_are_balanced:
  assumes "list_all has_amount (tx_Postings tx)"
  shows "\<exists>us. VolumeUpdates tx = (Inr us :: (store_error, _) result) \<and> sorted (map av_key us) \<and>
    distinct (map av_key us) \<and>
    set us = {u. \<exists>p \<in> set (tx_Postings tx). \<exists>a. involves p a (p_Asset p) \<and>
      u = volume_update (tx_Postings tx) a (p_Asset p)} \<and>
    asset_total c av_Input us = moved c (tx_Postings tx) \<and>
    asset_total c av_Output us = moved c (tx_Postings tx)"
proof -
  from VolumeUpdates_spec [OF assms] obtain us where
    us: "VolumeUpdates tx = (Inr us :: (store_error, _) result)" "sorted (map av_key us)" "distinct (map av_key us)"
    "set us = {u. \<exists>p \<in> set (tx_Postings tx). \<exists>a. involves p a (p_Asset p) \<and>
      u = volume_update (tx_Postings tx) a (p_Asset p)}" by blast
  with VolumeUpdates_balanced [OF assms us(1)] show ?thesis by blast
qed

definition sample_postings :: "posting list" where
  "sample_postings = [NewPosting ''world'' ''bank'' ''USD'' (Some 10), NewPosting ''bank'' ''fees'' ''USD'' (Some 3)]"

lemma sample_amounts: "list_all has_amount sample_postings"
  by (simp add: sample_postings_def has_amount_def NewPosting_def)

text \<open>
  \<open>Postings.Validate\<close> accepts exactly the postings with a non-negative amount, valid
  addresses and a valid asset, and otherwise names the first posting that is not valid.
\<close>

lemma Validate_names_the_first_invalid_posting:
  "(Postings_Validate 0 ps = Inr () \<longleftrightarrow> list_all valid_posting ps) \<and>
   (\<forall>x. Postings_Validate 0 ps = Inl x \<longrightarrow> (\<exists>j e. x = Raised (j, e) \<and> j < length ps \<and>
      list_all valid_posting (take j ps) \<and> \<not> valid_posting (ps ! j)))"
  using Postings_Validate_ok [of 0 ps] Postings_Validate_first [of 0 ps] by auto

section \<open>Commits\<close>

text \<open>The abstract ledger: balances by account and asset, which postings transfer.\<close>

type_synonym abstract_ledger = "string \<Rightarrow> string \<Rightarrow> int"

definition transfer :: "posting \<Rightarrow> abstract_ledger \<Rightarrow> abstract_ledger" where
  "transfer p b = (\<lambda>a c. b a c
     - (if p_Source p = a \<and> p_Asset p = c then amt p else 0)
     + (if p_Destination p = a \<and> p_Asset p = c then amt p else 0))"

lemma fold_transfer: "fold transfer ps b a c = b a c + received a c ps - sent a c ps"
  by (induction ps arbitrary: b) (simp_all add: transfer_def)

lemma committed_balance:
  assumes "committed t tx t' tx'"
  shows "table_balance t' a c = table_balance t a c + received a c (tx_Postings tx) - sent a c (tx_Postings tx)"
proof -
  from assms have "vol_at (t_volumes t') a c = plus_postings (tx_Postings tx) a c (vol_at (t_volumes t) a c)"
    using plus_postings_none [of "tx_Postings tx" a c] unfolding committed_def vol_at_def by auto
  then show ?thesis by (simp add: table_balance_vol plus_postings_def Volumes_Balance_def)
qed

text \<open>
  Claim C3. Committing a transaction refines the abstract ledger, in which a posting takes its
  amount from the source and gives it to the destination: the balances of the tables after the
  commit are the transfers of the postings on the balances before, and the transaction is
  recorded with a new id and a reference no other transaction has.
\<close>

theorem commit_refines_transfers:
  assumes "CommitTransaction f tx s = (Inr tx', s')"
  shows "table_balance (s_tx s') = fold transfer (tx_Postings tx) (table_balance (s_tx s)) \<and>
    (\<exists>row. t_transactions (s_tx s') = t_transactions (s_tx s) @ [row] \<and> fresh_row (s_tx s) row \<and>
       tx_Postings row = tx_Postings tx)"
proof -
  note C = CommitTransaction_Inr(1) [OF assms]
  have "table_balance (s_tx s') a c = fold transfer (tx_Postings tx) (table_balance (s_tx s)) a c" for a c
    by (simp add: committed_balance [OF C] fold_transfer)
  moreover from C obtain row v where "fresh_row (s_tx s) row"
    "t_transactions (s_tx s') = t_transactions (s_tx s) @ [row]"
    "tx' = row\<lparr>tx_PostCommitEffectiveVolumes := v\<rparr>" "tx_Postings tx' = tx_Postings tx"
    unfolding committed_def by blast
  ultimately show ?thesis by (auto simp: fun_eq_iff)
qed

definition all_features :: features where
  "all_features = \<lparr>MovesHistory = True, EffectiveVolumes = True, HashLogs = True\<rparr>"

definition sample_session :: session where
  "sample_session = BeginTX empty_tables 1 1 100 None"

definition sample_tx :: transaction where
  "sample_tx = WithPostings sample_postings NewTransaction"

lemma sample_commits: "\<exists>tx s. CommitTransaction all_features sample_tx sample_session = (Inr tx, s)"
proof -
  have "(case CommitTransaction all_features sample_tx sample_session of (Inr _, _) \<Rightarrow> True | _ \<Rightarrow> False)"
    by code_simp
  then show ?thesis by (auto split: prod.splits sum.splits)
qed

theorem commit_refines_transfers_witness:
  "\<exists>tx s. CommitTransaction all_features sample_tx sample_session = (Inr tx, s) \<and>
     table_balance (s_tx s) ''bank'' ''USD'' = 7"
proof -
  from sample_commits obtain tx s where c: "CommitTransaction all_features sample_tx sample_session = (Inr tx, s)"
    by blast
  from commit_refines_transfers [OF c]
  have "table_balance (s_tx s) ''bank'' ''USD'' =
      fold transfer (tx_Postings sample_tx) (table_balance (s_tx sample_session)) ''bank'' ''USD''" by simp
  also have "\<dots> = 7"
    by (simp add: sample_tx_def WithPostings_def NewTransaction_def sample_postings_def NewPosting_def
        transfer_def amt_def sample_session_def BeginTX_def empty_tables_def table_balance_def)
  finally show ?thesis using c by blast
qed


lemma covers_involved:
  "(\<And>a c. involved ps a c \<Longrightarrow> nget m a c \<noteq> None) \<Longrightarrow> covers m ps"
  by (auto simp: covers_def involved_def involves_def)

text \<open>
  The volumes a committed transaction carries lead back to the state before it:
  \<open>SubtractPostings\<close> of the post-commit volumes never panics and gives, for every account and
  asset the transaction involves, the volumes in the tables before the commit.
\<close>

lemma pre_commit_volumes_are_the_volumes_before:
  assumes "CommitTransaction f tx s = (Inr tx', s')"
  shows "\<exists>m. SubtractPostings (tx_PostCommitVolumes tx') (tx_Postings tx') = (Inr m :: (store_error, _) result) \<and>
    (\<forall>a c. nget m a c = (if involved (tx_Postings tx) a c then Some (vol_at (t_volumes (s_tx s)) a c) else None))"
proof -
  from CommitTransaction_Inr(1) [OF assms] have am: "list_all has_amount (tx_Postings tx)"
    and ps: "tx_Postings tx' = tx_Postings tx"
    and v: "\<And>a c. nget (tx_PostCommitVolumes tx') a c = (if involved (tx_Postings tx) a c
      then Some (plus_postings (tx_Postings tx) a c (vol_at (t_volumes (s_tx s)) a c)) else None)"
    unfolding committed_def by auto
  have "covers (tx_PostCommitVolumes tx') (tx_Postings tx)"
    by (rule covers_involved) (simp add: v)
  from SubtractPostings_spec [OF am this] obtain m where
    m: "SubtractPostings (tx_PostCommitVolumes tx') (tx_Postings tx) = (Inr m :: (store_error, _) result)"
    "\<forall>a c. nget m a c = map_option (less_postings (tx_Postings tx) a c) (nget (tx_PostCommitVolumes tx') a c)"
    by blast
  then show ?thesis unfolding ps by (intro exI [of _ m]) (simp add: v)
qed

section \<open>Moves\<close>

text \<open>A move without its effective volumes, which triggers set and change.\<close>

definition core :: "move \<Rightarrow> move" where
  "core m = m\<lparr>mv_PostCommitEffectiveVolumes := None\<rparr>"

lemma core_set_effective [simp]: "core (set_effective_volumes rows m) = core m"
  by (simp add: core_def set_effective_volumes_def)

lemma core_update_effective: "map core (update_effective_volumes m rows) = map core rows"
  by (simp add: core_def update_effective_volumes_def)

lemma core_fold_update: "map core (fold update_effective_volumes ms rows) = map core rows"
  by (induction ms arbitrary: rows) (simp_all add: core_update_effective)

lemma core_insert_rows:
  "insert_rows rows ms new = (rows', new') \<Longrightarrow> map core rows' = map core rows @ map core ms \<and>
     map core new' = map core new @ map core ms"
  by (induction rows ms new rule: insert_rows.induct) (auto simp: Let_def)

lemma InsertMoves_core:
  assumes "InsertMoves f ms s = (Inr new, s')"
  shows "map core (t_moves (s_tx s')) = map core (t_moves (s_tx s)) @ map core ms"
proof -
  from assms obtain s1 where s1: "statement s = (Inr (), s1)" and
    "map core (t_moves (s_tx s')) = map core (t_moves (s_tx s1)) @ map core ms"
    by (auto simp: InsertMoves_def action_simps Let_def core_fold_update
        split: if_splits prod.splits dest!: core_insert_rows)
  with statement_keeps [OF s1] show ?thesis by simp
qed

lemma core_sel:
  "mv_PostCommitVolumes (core m) = mv_PostCommitVolumes m" "mv_key (core m) = mv_key m"
  "mv_IsSource (core m) = mv_IsSource m" "mv_Amount (core m) = mv_Amount m"
  "half (core m) = half m" "mv_TransactionID (core m) = mv_TransactionID m"
  by (simp_all add: core_def half_def mv_key_def)

lemma apply_moves_core: "apply_moves (map core ms) k v = apply_moves ms k v"
  by (induction ms arbitrary: v) (simp_all add: apply_moves_def core_sel move_volumes_def)

lemma traced_core: "traced b (map core ms) = traced b ms"
  by (simp add: traced_def core_sel apply_moves_core take_map)

text \<open>
  Claim C38. When the ledger keeps its moves, a commit appends two moves for every posting, the
  source's and then the destination's, in the order of the postings, and each carries the
  volumes of its account and asset right after it, counted from the volumes before the commit,
  although the code computes them backwards from the volumes after it.
\<close>

theorem moves_trace_the_volumes:
  assumes "CommitTransaction f tx s = (Inr tx', s')" "MovesHistory f"
  shows "\<exists>ms. map core (t_moves (s_tx s')) = map core (t_moves (s_tx s)) @ ms \<and>
    map half ms = halves (tx_Postings tx) \<and>
    traced (\<lambda>(a, c). vol_at (t_volumes (s_tx s)) a c) ms \<and>
    list_all (\<lambda>m. Some (mv_TransactionID m) = tx_ID tx') ms"
proof -
  from assms(1) obtain us pcv s1 row s2 where us: "VolumeUpdates tx = (Inr us :: (store_error, _) result)"
    and u: "UpdateVolumes us s = (Inr pcv, s1)"
    and i: "InsertTransaction (tx\<lparr>tx_PostCommitVolumes := pcv\<rparr>) s1 = (Inr row, s2)"
    and m: "commit_moves f pcv row s2 = (Inr tx', s')"
    by (auto simp: CommitTransaction_def action_simps)
  let ?ps = "tx_Postings tx" and ?b = "\<lambda>(a, c). vol_at (t_volumes (s_tx s)) a c"
  have am: "list_all has_amount ?ps" by (rule VolumeUpdates_amounts [OF us])
  from VolumeUpdates_updates [OF am] us have tu: "transaction_updates ?ps us" by (metis sum.inject(2))
  have pcv: "nget pcv a c = Some (plus_postings ?ps a c (?b (a, c)))"
    if "(a, c) \<in> {(a, c). involved ?ps a c}" for a c
    using that UpdateVolumes_Inr(2) [OF u tu, of a c] by simp
  from InsertTransaction_Inr [OF i] obtain j where
    row: "row = (stamp (s_now s1) (tx\<lparr>tx_PostCommitVolumes := pcv\<rparr>))\<lparr>tx_ID := Some j\<rparr>"
    "s_tx s2 = (s_tx s1)\<lparr>t_transactions := t_transactions (s_tx s1) @ [stored row]\<rparr>" by blast
  have rp: "tx_Postings row = ?ps" "tx_ID row = Some j" by (simp_all add: row(1) stamp_def Let_def)
  from UpdateVolumes_Inr(1) [OF u tu] row(2) have mv: "t_moves (s_tx s2) = t_moves (s_tx s)" by auto
  from build_moves_traced [OF am, of "{(a, c). involved ?ps a c}" pcv ?b row j] pcv obtain ms where
    ms: "build_moves row j (rev ?ps) pcv = (Inr (rev ms) :: (store_error, _) result)" "traced ?b ms"
    "map half ms = halves ?ps" "\<forall>x \<in> set ms. mv_TransactionID x = j \<and> mv_EffectiveDate x = tx_Timestamp row"
    by blast
  have "transaction_moves row j pcv = (Inr ms :: (store_error, _) result)"
    by (simp add: transaction_moves_def rp ms(1))
  with m assms(2) rp obtain new s3 where n: "InsertMoves f ms s2 = (Inr new, s3)" "s_tx s' = s_tx s3"
    "tx_ID tx' = tx_ID row"
    by (auto simp: commit_moves_def action_simps split: if_splits)
  have "map core (t_moves (s_tx s')) = map core (t_moves (s_tx s)) @ map core ms"
    using InsertMoves_core [OF n(1)] by (simp add: n(2) mv)
  moreover have "map half (map core ms) = halves ?ps" using ms(3) by (simp add: core_sel comp_def)
  moreover have "list_all (\<lambda>m. Some (mv_TransactionID m) = tx_ID tx') (map core ms)"
    using ms(4) by (simp add: list_all_iff core_sel n(3) rp)
  ultimately show ?thesis using ms(2) traced_core by blast
qed

theorem moves_trace_the_volumes_witness:
  "\<exists>tx s ms. CommitTransaction all_features sample_tx sample_session = (Inr tx, s) \<and>
     map core (t_moves (s_tx s)) = ms \<and> length ms = 4 \<and>
     traced (\<lambda>(a, c). NewEmptyVolumes) ms"
proof -
  from sample_commits obtain tx s where c: "CommitTransaction all_features sample_tx sample_session = (Inr tx, s)"
    by blast
  have e: "t_moves (s_tx sample_session) = []" "(\<lambda>(a, c). vol_at (t_volumes (s_tx sample_session)) a c) = (\<lambda>(a, c). NewEmptyVolumes)"
    by (auto simp: sample_session_def BeginTX_def empty_tables_def vol_at_def)
  have p: "tx_Postings sample_tx = sample_postings"
    by (simp add: sample_tx_def WithPostings_def NewTransaction_def)
  have "MovesHistory all_features" by (simp add: all_features_def)
  from moves_trace_the_volumes [OF c this] obtain ms where ms: "map core (t_moves (s_tx s)) = ms"
    "map half ms = halves sample_postings" "traced (\<lambda>(a, c). NewEmptyVolumes) ms"
    unfolding e p by auto
  from arg_cong [OF ms(2), of length] have "length ms = 4"
    by (simp add: halves_def sample_postings_def)
  with ms c show ?thesis by blast
qed

end
