(* ===== verification/Ledger_Controller.thy ===== *)
theory Ledger_Controller
  imports Store_Books Numscript_Compiler
begin

text \<open>
  The controller of a ledger (\<open>internal/controller/ledger/controller_default.go\<close>,
  \<open>log_process.go\<close>, \<open>numscript_runtime.go\<close>, \<open>store.go\<close>): its operations run in SQL transactions,
  end with a log, answer a repeated idempotency key from the log, and are tried again when the
  database reports a deadlock. What the other sessions and the database do is a schedule of
  attempts.
\<close>

section \<open>Errors and inputs\<close>

datatype validation_reason =
    MustUseTemplate
  | TemplateNotFound string
  | TemplatesNotAllowed
  | NotInChart "find_error failure"

datatype ctl_error =
    StoreError store_error
  | SchemaNotFound string "string option"
  | SchemaNotSpecified string
  | SchemaValidationError string validation_reason
  | InvalidIdempotencyInput string string string
  | NoPostings
  | MetadataOverride string
  | CompilationFailed compile_error
  | ParsingFailed
  | ScriptError vm_error
  | AlreadyReverted nat
  | InsufficientFund string string
  | InvalidSchema string
  | SchemaAlreadyExists string
  | ImportError string
  | InvalidHash nat hash hash

record create_input =
  ci_Plain :: string
  ci_Vars :: "(string \<times> string) list"
  ci_Timestamp :: time
  ci_Metadata :: metadata_map
  ci_Reference :: string
  ci_AccountMetadata :: account_metadata
  ci_Runtime :: string
  ci_Template :: string

record revert_input =
  ri_Force :: bool
  ri_AtEffectiveDate :: bool
  ri_TransactionID :: nat
  ri_Metadata :: metadata_map

datatype ctl_input =
    InputCreate create_input
  | InputRevert revert_input
  | InputSaveTransactionMetadata nat metadata_map
  | InputSaveAccountMetadata string metadata_map
  | InputDeleteTransactionMetadata nat string
  | InputDeleteAccountMetadata string string
  | InputInsertSchema string schema_data

record parameters =
  pm_DryRun :: bool
  pm_SchemaVersion :: string
  pm_IdempotencyKey :: string
  pm_Input :: ctl_input

text \<open>The results of a script, and the runtimes that give them.\<close>

record exec_result =
  er_Postings :: "posting list"
  er_Metadata :: metadata_map
  er_AccountMetadata :: account_metadata

type_synonym runtime = "(string \<times> string) list \<Rightarrow> (ctl_error, exec_result) action"
type_synonym numscript_parser = "string \<Rightarrow> (ctl_error, runtime) result"

text \<open>
  What the controller is made with. \<open>c_pooled\<close> tells whether its own store is a pool of connections:
  it is a single connection, or an SQL transaction, after \<open>LockLedger\<close> and \<open>BeginTX\<close>.
  \<open>c_compile\<close> is of the chart's regular expressions.
\<close>

record controller =
  c_features :: features
  c_strict :: bool
  c_pooled :: bool
  c_parser :: numscript_parser
  c_machineParser :: numscript_parser
  c_interpreterParser :: numscript_parser
  c_compile :: "string \<Rightarrow> (string \<Rightarrow> bool) option"
  c_sha256 :: "encoded list \<Rightarrow> hash"
  c_inputHash :: "ctl_input \<Rightarrow> string"
  c_validateQueries :: "(string \<times> json) list \<Rightarrow> string option"

definition getParser :: "controller \<Rightarrow> string \<Rightarrow> numscript_parser" where
  "getParser c runtime =
     (if runtime = RuntimeExperimentalInterpreter then c_interpreterParser c
      else if runtime = RuntimeMachine then c_machineParser c
      else c_parser c)"

definition fromStore :: "(store_error, 'a) action \<Rightarrow> (ctl_error, 'a) action" where
  "fromStore m s = (case m s of (r, s') \<Rightarrow> (map_failure StoreError r, s'))"

definition mapErr :: "('e \<Rightarrow> 'f) \<Rightarrow> ('e, 'a) action \<Rightarrow> ('f, 'a) action" where
  "mapErr h m s = (case m s of (r, s') \<Rightarrow> (map_failure h r, s'))"

section \<open>The virtual machine as a runtime\<close>

definition vm_store_of :: "tables \<Rightarrow> vm_store" where
  "vm_store_of t =
     \<lparr>GetBalances = answer_balances t,
      GetAccount = (\<lambda>a. case map_of (t_accounts t) a of
         None \<Rightarrow> raise ''not found'' | Some row \<Rightarrow> Inr (ac_Metadata row))\<rparr>"

text \<open>The query \<open>ResolveBalances\<close> sends to the store.\<close>

definition resolve_query :: "vm_machine \<Rightarrow> balance_query vm_result" where
  "resolve_query m =
     bindr (query_unresolved m (UnresolvedResourceBalances m) ([], [])) (\<lambda>(q, assigned).
       query_needed m (NeededBalances (Program m)) q)"

definition execution_error :: "vm_error \<Rightarrow> ctl_error" where
  "execution_error e = (case e of ErrMetadataOverride k \<Rightarrow> MetadataOverride k | _ \<Rightarrow> ScriptError e)"

definition ledger_posting :: "vm_posting \<Rightarrow> posting" where
  "ledger_posting p = NewPosting (vp_Source p) (vp_Destination p) (vp_Asset p) (vp_Amount p)"

definition MachineExecute :: "program \<Rightarrow> runtime" where
  "MachineExecute p vars =
     bindS (getS (\<lambda>s. vm_store_of (s_tx s))) (\<lambda>st.
     bindS (liftS (map_failure ScriptError (SetVarsFromJSON (NewMachine p) vars))) (\<lambda>m.
     bindS (liftS (map_failure ScriptError (ResolveResources st m))) (\<lambda>m.
     bindS (liftS (map_failure ScriptError (resolve_query m))) (\<lambda>q.
     bindS (if q = [] then returnS () else bindS (fromStore (Store_GetBalances q)) (\<lambda>_. returnS ())) (\<lambda>_.
     bindS (liftS (map_failure ScriptError (ResolveBalances st m))) (\<lambda>m.
     bindS (liftS (map_failure execution_error (Execute m))) (\<lambda>m.
     bindS (liftS (map_failure ScriptError (GetTxMetaJSON m))) (\<lambda>txMeta.
     bindS (liftS (map_failure ScriptError (GetAccountsMetaJSON m))) (\<lambda>accMeta.
       returnS \<lparr>er_Postings = map ledger_posting (Postings m), er_Metadata = txMeta,
         er_AccountMetadata = accMeta\<rparr>)))))))))"

text \<open>The machine's parser: the grammar's parser \<open>parse\<close>, then the compiler.\<close>

definition machine_parser :: "(string \<Rightarrow> script option) \<Rightarrow> numscript_parser" where
  "machine_parser parse plain =
     (case parse plain of
        None \<Rightarrow> raise ParsingFailed
      | Some ast \<Rightarrow> bindr (map_failure CompilationFailed (Compile ast)) (\<lambda>p. Inr (MachineExecute p)))"

section \<open>Creating a transaction\<close>

fun add_metadata :: "metadata_map \<Rightarrow> metadata_map \<Rightarrow> (ctl_error, metadata_map) result" where
  "add_metadata [] final = Inr final"
| "add_metadata ((k, v) # kvs) final =
     (if map_of final k \<noteq> None \<and> map_of final k \<noteq> Some [] then raise (MetadataOverride k)
      else add_metadata kvs (AList.update k v final))"

definition add_account_metadata :: "account_metadata \<Rightarrow> account_metadata \<Rightarrow> account_metadata" where
  "add_account_metadata new old =
     fold (\<lambda>(account, values) m.
         AList.update account (merge_meta (case map_of m account of None \<Rightarrow> [] | Some k \<Rightarrow> k) values) m) new old"

text \<open>The script and runtime to run, from the input or from a template of the schema.\<close>

definition select_script ::
    "controller \<Rightarrow> parameters \<Rightarrow> create_input \<Rightarrow> schema option \<Rightarrow> (ctl_error, string \<times> string) result" where
  "select_script c pm input schema =
     (let templates = (case schema of None \<Rightarrow> [] | Some s \<Rightarrow> sd_Transactions s) in
      if templates \<noteq> []
      then if ci_Template input = [] \<and> c_strict c
           then raise (SchemaValidationError (pm_SchemaVersion pm) MustUseTemplate)
           else (case map_of templates (ci_Template input) of
                   Some t \<Rightarrow> Inr (tt_Script t, if ci_Runtime input = [] then tt_Runtime t else ci_Runtime input)
                 | None \<Rightarrow> raise (SchemaValidationError (pm_SchemaVersion pm) (TemplateNotFound (ci_Template input))))
      else if ci_Template input \<noteq> []
      then raise (SchemaValidationError (pm_SchemaVersion pm) TemplatesNotAllowed)
      else Inr (ci_Plain input, ci_Runtime input))"

text \<open>
  The accounts are written with the controller's own store, not with the one it is given: from a
  pool that is another connection, outside the SQL transaction.
\<close>

definition upsertTransactionAccounts ::
    "controller \<Rightarrow> schema option \<Rightarrow> transaction \<Rightarrow> account_metadata \<Rightarrow> (ctl_error, unit) action" where
  "upsertTransactionAccounts c schema tx am =
     fromStore (UpsertAccounts (c_pooled c) (AccountsWithDefaultMetadata (c_compile c) tx schema am))"

definition transaction_of :: "create_input \<Rightarrow> posting list \<Rightarrow> metadata_map \<Rightarrow> transaction" where
  "transaction_of input ps meta =
     (WithPostings ps NewTransaction)\<lparr>tx_Metadata := meta, tx_Timestamp := ci_Timestamp input,
        tx_Reference := ci_Reference input, tx_Template := ci_Template input\<rparr>"

definition run_script ::
    "controller \<Rightarrow> parameters \<Rightarrow> create_input \<Rightarrow> schema option \<Rightarrow> (ctl_error, exec_result) action" where
  "run_script c pm input schema =
     bindS (liftS (select_script c pm input schema)) (\<lambda>(plain, runtime).
     bindS (liftS (getParser c runtime plain)) (\<lambda>m. m (ci_Vars input)))"

definition record_result ::
    "controller \<Rightarrow> create_input \<Rightarrow> schema option \<Rightarrow> exec_result \<Rightarrow> (ctl_error, log_payload) action" where
  "record_result c input schema result =
     (if er_Postings result = [] then raiseS NoPostings
      else
        bindS (liftS (add_metadata (ci_Metadata input) (er_Metadata result))) (\<lambda>meta.
        let am = add_account_metadata (ci_AccountMetadata input) (er_AccountMetadata result) in
        bindS (fromStore (CommitTransaction (c_features c) (transaction_of input (er_Postings result) meta))) (\<lambda>tx.
        bindS (upsertTransactionAccounts c schema tx am) (\<lambda>_.
          returnS (CreatedTransaction tx am)))))"

definition createTransaction ::
    "controller \<Rightarrow> parameters \<Rightarrow> create_input \<Rightarrow> schema option \<Rightarrow> (ctl_error, log_payload) action" where
  "createTransaction c pm input schema =
     bindS (run_script c pm input schema) (record_result c input schema)"

section \<open>Reverting a transaction\<close>

definition revert_metadata :: "metadata_map \<Rightarrow> nat \<Rightarrow> metadata_map" where
  "revert_metadata m i = merge_meta m [(''com.formance.spec/state/reverts'', show_nat i)]"

text \<open>The reversed postings, applied to the balances that were read. A nil balance panics.\<close>

fun settle :: "posting list \<Rightarrow> (string, string, int) nested \<Rightarrow> ('e, (string, string, int) nested) result" where
  "settle [] balances = Inr balances"
| "settle (p # ps) balances =
     (case (p_Amount p, nget balances (p_Source p) (p_Asset p)) of
        (Some n, Some x) \<Rightarrow>
          (let balances = nput (p_Source p) (p_Asset p) (x - n) balances in
           if map_of balances (p_Destination p) = None then settle ps balances
           else case nget balances (p_Destination p) (p_Asset p) of
                  None \<Rightarrow> panic
                | Some y \<Rightarrow> settle ps (nput (p_Destination p) (p_Asset p) (y + n) balances))
      | _ \<Rightarrow> panic)"

definition overdrawn :: "(string, string, int) nested \<Rightarrow> (string \<times> string \<times> int) option" where
  "overdrawn balances = find (\<lambda>(a, c, x). x < 0 \<and> a \<noteq> ''world'') (entries balances)"

definition check_funds ::
    "posting list \<Rightarrow> (string, string, int) nested \<Rightarrow> (ctl_error, unit) result" where
  "check_funds ps balances =
     bindr (settle ps balances) (\<lambda>b. case overdrawn b of
        None \<Rightarrow> Inr ()
      | Some (a, c, x) \<Rightarrow> raise (InsufficientFund a c))"

definition reversal :: "revert_input \<Rightarrow> transaction \<Rightarrow> transaction" where
  "reversal input original =
     (Transaction_Reverse original)\<lparr>
        tx_Timestamp := (if ri_AtEffectiveDate input then tx_Timestamp original
          else (case tx_RevertedAt original of None \<Rightarrow> zero_time | Some d \<Rightarrow> d)),
        tx_Metadata := revert_metadata (ri_Metadata input)
          (case tx_ID original of None \<Rightarrow> 0 | Some i \<Rightarrow> i)\<rparr>"

definition revertTransaction ::
    "controller \<Rightarrow> revert_input \<Rightarrow> (ctl_error, log_payload) action" where
  "revertTransaction c input =
     bindS (fromStore (Store_RevertTransaction (ri_TransactionID input) zero_time)) (\<lambda>(original, reverted).
       if \<not> reverted then raiseS (AlreadyReverted (ri_TransactionID input))
       else
         bindS (fromStore (Store_GetBalances (InvolvedDestinations original))) (\<lambda>balances.
         let tx = reversal input original in
         bindS (if ri_Force input then returnS () else liftS (check_funds (tx_Postings tx) balances)) (\<lambda>_.
         bindS (fromStore (CommitTransaction (c_features c) tx)) (\<lambda>tx.
           returnS (RevertedTransaction original tx)))))"

section \<open>Metadata and schemas\<close>

definition saveTransactionMetadata :: "nat \<Rightarrow> metadata_map \<Rightarrow> (ctl_error, log_payload) action" where
  "saveTransactionMetadata i m =
     bindS (fromStore (Store_UpdateTransactionMetadata i m zero_time)) (\<lambda>_.
       returnS (SavedMetadata MetaTargetTypeTransaction (TargetTransaction i) m))"

definition saveAccountMetadata ::
    "controller \<Rightarrow> string \<Rightarrow> metadata_map \<Rightarrow> schema option \<Rightarrow> (ctl_error, log_payload) action" where
  "saveAccountMetadata c address m schema =
     bindS (fromStore (UpsertAccounts False
        [\<lparr>ac_Address = address, ac_Metadata = m, ac_FirstUsage = zero_time, ac_InsertionDate = zero_time,
          ac_UpdatedAt = zero_time, ac_DefaultMetadata = default_metadata (c_compile c) schema address\<rparr>])) (\<lambda>_.
       returnS (SavedMetadata MetaTargetTypeAccount (TargetAddress address) m))"

definition deleteTransactionMetadata :: "nat \<Rightarrow> string \<Rightarrow> (ctl_error, log_payload) action" where
  "deleteTransactionMetadata i key =
     bindS (fromStore (Store_DeleteTransactionMetadata i key zero_time)) (\<lambda>(_, modified).
       if \<not> modified then raiseS (StoreError NotFound)
       else returnS (DeletedMetadata MetaTargetTypeTransaction (TargetTransaction i) key))"

definition deleteAccountMetadata :: "string \<Rightarrow> string \<Rightarrow> (ctl_error, log_payload) action" where
  "deleteAccountMetadata address key =
     bindS (fromStore (Store_DeleteAccountMetadata address key)) (\<lambda>_.
       returnS (DeletedMetadata MetaTargetTypeAccount (TargetAddress address) key))"

fun parse_templates :: "controller \<Rightarrow> (string \<times> transaction_template) list \<Rightarrow> (ctl_error, unit) result" where
  "parse_templates c [] = Inr ()"
| "parse_templates c ((i, t) # ts) =
     (case getParser c (tt_Runtime t) (tt_Script t) of
        Inl (Raised e) \<Rightarrow> raise (InvalidSchema i)
      | Inl Panic \<Rightarrow> panic
      | Inr _ \<Rightarrow> parse_templates c ts)"

definition schema_conflict :: "string \<Rightarrow> ctl_error \<Rightarrow> ctl_error" where
  "schema_conflict version e =
     (case e of StoreError (ConstraintsFailed _) \<Rightarrow> SchemaAlreadyExists version | _ \<Rightarrow> e)"

definition insertSchema :: "controller \<Rightarrow> string \<Rightarrow> schema_data \<Rightarrow> (ctl_error, log_payload) action" where
  "insertSchema c version data =
     bindS (liftS (map_failure InvalidSchema (NewSchema (c_validateQueries c) version data))) (\<lambda>schema.
     bindS (liftS (parse_templates c (sd_Transactions schema))) (\<lambda>_.
     bindS (mapErr (schema_conflict version) (fromStore (Store_InsertSchema schema))) (\<lambda>schema.
       returnS (InsertedSchema schema))))"

section \<open>Dispatch\<close>

fun handler ::
    "controller \<Rightarrow> parameters \<Rightarrow> schema option \<Rightarrow> ctl_input \<Rightarrow> (ctl_error, log_payload) action" where
  "handler c pm schema (InputCreate i) = createTransaction c pm i schema"
| "handler c pm schema (InputRevert i) = revertTransaction c i"
| "handler c pm schema (InputSaveTransactionMetadata i m) = saveTransactionMetadata i m"
| "handler c pm schema (InputSaveAccountMetadata a m) = saveAccountMetadata c a m schema"
| "handler c pm schema (InputDeleteTransactionMetadata i k) = deleteTransactionMetadata i k"
| "handler c pm schema (InputDeleteAccountMetadata a k) = deleteAccountMetadata a k"
| "handler c pm schema (InputInsertSchema v d) = insertSchema c v d"

text \<open>The type of the payload an operation logs: the processor's \<open>OUTPUT\<close>.\<close>

fun output_type :: "ctl_input \<Rightarrow> log_type" where
  "output_type (InputCreate _) = NewTransactionLogType"
| "output_type (InputRevert _) = RevertedTransactionLogType"
| "output_type (InputSaveTransactionMetadata _ _) = SetMetadataLogType"
| "output_type (InputSaveAccountMetadata _ _) = SetMetadataLogType"
| "output_type (InputDeleteTransactionMetadata _ _) = DeleteMetadataLogType"
| "output_type (InputDeleteAccountMetadata _ _) = DeleteMetadataLogType"
| "output_type (InputInsertSchema _ _) = InsertedSchemaLogType"

end
