(* ===== verification/Log_Process.thy ===== *)
theory Log_Process
  imports Ledger_Controller
begin

text \<open>
  The log processor (\<open>internal/controller/ledger/log_process.go\<close>): an operation runs in an SQL
  transaction, its payload is validated and inserted as a log, a repeated idempotency key is
  answered from its log, and deadlocks and lost races are tried again. Each SQL transaction is an
  attempt of a schedule, which says when it happens, whether one of its statements fails, and
  what the other sessions commit afterwards. \<open>None\<close> is the result of a loop that is still running
  when the schedule ends. Keys longer than the 256 characters of their column, which PostgreSQL refuses, are the
  fault of the statement that inserts the log.
\<close>

section \<open>Worlds and attempts\<close>

record world =
  w_tables :: tables
  w_txSeq :: nat
  w_logSeq :: nat

record attempt =
  at_now :: time
  at_fault :: "(nat \<times> store_error) option"
  at_others :: "tables \<Rightarrow> tables"

definition begin_attempt :: "attempt \<Rightarrow> world \<Rightarrow> session" where
  "begin_attempt a w = BeginTX (w_tables w) (w_txSeq w) (w_logSeq w) (at_now a) (at_fault a)"

definition end_attempt :: "attempt \<Rightarrow> session \<Rightarrow> world" where
  "end_attempt a s = \<lparr>w_tables = at_others a (s_base s), w_txSeq = s_txSeq s, w_logSeq = s_logSeq s\<rparr>"

section \<open>One log\<close>

definition lookup_schema :: "controller \<Rightarrow> parameters \<Rightarrow> (ctl_error, schema option) action" where
  "lookup_schema c pm =
     (if pm_SchemaVersion pm \<noteq> []
      then bindS (getS (\<lambda>s. find_schema (pm_SchemaVersion pm) (s_tx s))) (\<lambda>r.
             case r of
               Some sc \<Rightarrow> returnS (Some sc)
             | None \<Rightarrow> bindS (fromStore FindLatestSchemaVersion) (\<lambda>latest.
                 raiseS (SchemaNotFound (pm_SchemaVersion pm) latest)))
      else if NeedsSchema (output_type (pm_Input pm))
      then bindS (fromStore FindLatestSchemaVersion) (\<lambda>latest.
             case latest of
               None \<Rightarrow> returnS None
             | Some v \<Rightarrow> if c_strict c then raiseS (SchemaNotSpecified v) else returnS None)
      else returnS None)"

definition validate_log ::
    "controller \<Rightarrow> parameters \<Rightarrow> schema option \<Rightarrow> log_payload \<Rightarrow> (ctl_error, unit) result" where
  "validate_log c pm schema output =
     (case schema of
        None \<Rightarrow> Inr ()
      | Some sc \<Rightarrow>
          (case ValidateWithSchema (c_compile c) output sc of
             Inr _ \<Rightarrow> Inr ()
           | Inl Panic \<Rightarrow> panic
           | Inl (Raised e) \<Rightarrow>
               if c_strict c
               then raise (SchemaValidationError (pm_SchemaVersion pm) (NotInChart (Raised e)))
               else Inr ()))"

definition new_log :: "controller \<Rightarrow> parameters \<Rightarrow> log_payload \<Rightarrow> log" where
  "new_log c pm output =
     (NewLog output)\<lparr>lg_IdempotencyKey := pm_IdempotencyKey pm,
        lg_IdempotencyHash := c_inputHash c (pm_Input pm), lg_SchemaVersion := pm_SchemaVersion pm\<rparr>"

text \<open>The id of the inserted log is read for a trace: nil when the insertion was passed over.\<close>

definition insert_new_log :: "controller \<Rightarrow> log \<Rightarrow> (ctl_error, log) action" where
  "insert_new_log c l =
     bindS (fromStore (InsertLog (c_sha256 c) (c_features c) l)) (\<lambda>l.
       if lg_ID l = None then panicS else returnS l)"

definition runLog :: "controller \<Rightarrow> parameters \<Rightarrow> (ctl_error, log \<times> log_payload) action" where
  "runLog c pm =
     bindS (lookup_schema c pm) (\<lambda>schema.
     bindS (handler c pm schema (pm_Input pm)) (\<lambda>output.
     bindS (liftS (validate_log c pm schema output)) (\<lambda>_.
     bindS (insert_new_log c (new_log c pm output)) (\<lambda>l. returnS (l, output)))))"

definition fetchLogWithIK ::
    "controller \<Rightarrow> parameters \<Rightarrow> tables \<Rightarrow> (ctl_error, (log \<times> log_payload) option) result" where
  "fetchLogWithIK c pm t =
     (case find_log (pm_IdempotencyKey pm) t of
        None \<Rightarrow> Inr None
      | Some l \<Rightarrow>
          if lg_IdempotencyHash l \<noteq> [] \<and> lg_IdempotencyHash l \<noteq> c_inputHash c (pm_Input pm)
          then raise (InvalidIdempotencyInput (lg_IdempotencyKey l) (lg_IdempotencyHash l)
                        (c_inputHash c (pm_Input pm)))
          else if payload_Type (lg_Data l) \<noteq> output_type (pm_Input pm) then panic
          else Inr (Some (l, lg_Data l)))"

section \<open>SQL transactions\<close>

text \<open>
  The end of an attempt: rolled back after an error or for a dry run, committed otherwise. A panic
  leaves the SQL transaction to be dropped, which rolls it back too.
\<close>

definition settle_attempt ::
    "parameters \<Rightarrow> (ctl_error, log \<times> log_payload) result \<Rightarrow> session \<Rightarrow>
     (ctl_error, log \<times> log_payload) result \<times> session" where
  "settle_attempt pm r s =
     (case r of
        Inl e \<Rightarrow> (Inl e, snd (Rollback s))
      | Inr out \<Rightarrow>
          if pm_DryRun pm then (Inr out, snd (Rollback s))
          else (case fromStore Commit s of
                  (Inl e, s) \<Rightarrow> (Inl e, s)
                | (Inr _, s) \<Rightarrow> (Inr out, s)))"

definition runTx ::
    "controller \<Rightarrow> parameters \<Rightarrow> attempt \<Rightarrow> world \<Rightarrow> (ctl_error, log \<times> log_payload) result \<times> world" where
  "runTx c pm a w =
     (case runLog c pm (begin_attempt a w) of
        (r, s) \<Rightarrow> (case settle_attempt pm r s of (r, s) \<Rightarrow> (r, end_attempt a s)))"

type_synonym forged = "(ctl_error, log \<times> log_payload \<times> bool) result"

fun forgeLogRetry ::
    "controller \<Rightarrow> parameters \<Rightarrow> attempt list \<Rightarrow> world \<Rightarrow> (forged \<times> world) option" where
  "forgeLogRetry c pm [] w = None"
| "forgeLogRetry c pm (a # schedule) w =
     (case runTx c pm a w of
        (Inr (l, output), w) \<Rightarrow> Some (Inr (l, output, False), w)
      | (Inl (Raised (StoreError DeadlockDetected)), w) \<Rightarrow> forgeLogRetry c pm schedule w
      | (Inl (Raised (StoreError (IdempotencyKeyConflict k))), w) \<Rightarrow>
          (case fetchLogWithIK c pm (w_tables w) of
             Inl e \<Rightarrow> Some (Inl e, w)
           | Inr None \<Rightarrow> Some (panic, w)
           | Inr (Some (l, output)) \<Rightarrow> Some (Inr (l, output, True), w))
      | (Inl e, w) \<Rightarrow> Some (Inl e, w))"

fun retried :: "ctl_error failure \<Rightarrow> bool" where
  "retried (Raised (StoreError DeadlockDetected)) = True"
| "retried (Raised (StoreError (IdempotencyKeyConflict k))) = True"
| "retried _ = False"

text \<open>
  The first SQL transaction also looks the key up. An error while it commits is not tried again.
\<close>

fun forgeLog ::
    "controller \<Rightarrow> parameters \<Rightarrow> attempt list \<Rightarrow> world \<Rightarrow> (forged \<times> world) option" where
  "forgeLog c pm [] w = None"
| "forgeLog c pm (a # schedule) w =
     (let s = begin_attempt a w in
      case (if pm_IdempotencyKey pm \<noteq> [] then fetchLogWithIK c pm (s_tx s) else Inr None) of
        Inl e \<Rightarrow> Some (Inl e, end_attempt a (snd (Rollback s)))
      | Inr (Some (l, output)) \<Rightarrow> Some (Inr (l, output, True), end_attempt a (snd (Rollback s)))
      | Inr None \<Rightarrow>
          (case runLog c pm s of
             (Inl e, s) \<Rightarrow>
               (let w = end_attempt a (snd (Rollback s)) in
                if retried e then forgeLogRetry c pm schedule w else Some (Inl e, w))
           | (Inr out, s) \<Rightarrow>
               (case settle_attempt pm (Inr out) s of
                  (Inl e, s) \<Rightarrow> Some (Inl e, end_attempt a s)
                | (Inr (l, output), s) \<Rightarrow> Some (Inr (l, output, False), end_attempt a s))))"

end
