(* ===== verification/Controller_Safe.thy ===== *)
theory Controller_Safe
  imports Log_Process Store_Claims
begin

text \<open>
  What the controller's operations keep: the committed tables when an operation fails or is a dry
  run, the books, the logs but for the one an operation inserts, and the absence of deadlocks
  that no statement reported.
\<close>

section \<open>Actions without a reported error\<close>

text \<open>Unless a statement is made to fail, an action does not raise an error of \<open>E\<close>.\<close>

definition quiet :: "('e \<Rightarrow> bool) \<Rightarrow> ('e, 'a) action \<Rightarrow> bool" where
  "quiet E m \<longleftrightarrow> (\<forall>s. s_fault s = None \<longrightarrow> s_fault (snd (m s)) = None \<and>
     (\<forall>e. fst (m s) = Inl (Raised e) \<longrightarrow> \<not> E e))"

lemma quietD:
  "quiet E m \<Longrightarrow> s_fault s = None \<Longrightarrow> m s = (r, s') \<Longrightarrow> s_fault s' = None \<and> (\<forall>e. r = Inl (Raised e) \<longrightarrow> \<not> E e)"
  by (metis quiet_def fst_conv snd_conv)

named_theorems quiet_intro "actions without a reported error"

lemma quiet_bind [quiet_intro]:
  assumes "quiet E m" "\<And>x. quiet E (f x)"
  shows "quiet E (bindS m f)"
  unfolding quiet_def
proof (intro allI impI)
  fix s :: session assume s: "s_fault s = None"
  obtain r s1 where m: "m s = (r, s1)" by (cases "m s")
  note q = quietD [OF assms(1) s m]
  show "s_fault (snd (bindS m f s)) = None \<and> (\<forall>e. fst (bindS m f s) = Inl (Raised e) \<longrightarrow> \<not> E e)"
  proof (cases r)
    case (Inl e)
    with q m show ?thesis by (simp add: bindS_def)
  next
    case (Inr x)
    with q m assms(2) [of x] show ?thesis by (simp add: bindS_def quiet_def)
  qed
qed

lemma quiet_simple [quiet_intro]:
  "quiet E (returnS x)" "\<not> E e \<Longrightarrow> quiet E (raiseS e)" "quiet E panicS" "quiet E (getS h)"
  "(\<And>e. r = Inl (Raised e) \<Longrightarrow> \<not> E e) \<Longrightarrow> quiet E (liftS r)"
  by (auto simp: quiet_def returnS_def raiseS_def panicS_def getS_def liftS_def raise_def panic_def)

lemma quiet_if [quiet_intro]: "(b \<Longrightarrow> quiet E m) \<Longrightarrow> (\<not> b \<Longrightarrow> quiet E n) \<Longrightarrow> quiet E (if b then m else n)"
  by simp

lemma quiet_option [quiet_intro]:
  "quiet E m \<Longrightarrow> (\<And>x. quiet E (f x)) \<Longrightarrow> quiet E (case v of None \<Rightarrow> m | Some x \<Rightarrow> f x)"
  by (cases v) auto

lemma quiet_prod [quiet_intro]: "(\<And>x y. quiet E (f x y)) \<Longrightarrow> quiet E (case p of (x, y) \<Rightarrow> f x y)"
  by (cases p) auto

lemma quiet_Let [quiet_intro]: "quiet E (f x) \<Longrightarrow> quiet E (let y = x in f y)"
  by simp

lemma quiet_modify: "(\<And>s. s_fault s = None \<Longrightarrow> s_fault (h s) = None) \<Longrightarrow> quiet E (modifyS h)"
  by (simp add: quiet_def modifyS_def)

definition store_deadlock :: "store_error \<Rightarrow> bool" where
  "store_deadlock e \<longleftrightarrow> e = DeadlockDetected"

definition ctl_deadlock :: "ctl_error \<Rightarrow> bool" where
  "ctl_deadlock e \<longleftrightarrow> e = StoreError DeadlockDetected"

lemma quiet_store [quiet_intro]:
  "\<not> E e \<Longrightarrow> quiet E (failS e)" "quiet E' statement"
  by (auto simp: quiet_def failS_def statement_def raise_def)

lemma quiet_unresolved [quiet_intro]: "quiet E (unresolved statement)"
  by (simp add: quiet_def unresolved_def statement_def)

lemma unresolved_keeps: "unresolved statement s = (r, s') \<Longrightarrow> s_tx s' = s_tx s \<and> s_base s' = s_base s"
  by (cases "statement s") (auto simp: unresolved_def dest!: statement_keeps)

lemma pure_no_error:
  "VolumeUpdates tx = (Inl (Raised e) :: (store_error, _) result) \<Longrightarrow> False"
  "transaction_moves tx i pcv = (Inl (Raised e) :: (store_error, _) result) \<Longrightarrow> False"
  "fst (ComputePostCommitEffectiveVolumes ms) = (Inl (Raised e) :: (store_error, _) result) \<Longrightarrow> False"
  "GetMemento p = (Inl (Raised e) :: (store_error, _) result) \<Longrightarrow> False"
  "ComputeHash sha prev l = (Inl (Raised e) :: (store_error, _) result) \<Longrightarrow> False"
proof -
  have sv: "sum_volumes a ps v \<noteq> (Inl (Raised e) :: (store_error, _) result)" for a ps v
    by (induction ps arbitrary: v) (auto split: option.splits simp: panic_def)
  have mp: "mapr g xs = Inl (Raised e) \<Longrightarrow> \<exists>x \<in> set xs. g x = Inl (Raised e)" for g :: "_ \<Rightarrow> (store_error, accounts_volumes) result" and xs
    by (induction xs) (auto simp: result_simps)
  show "VolumeUpdates tx = (Inl (Raised e) :: (store_error, _) result) \<Longrightarrow> False"
    using sv by (auto simp: VolumeUpdates_def result_simps dest!: mp)
  have bm: "build_moves tx i ps m \<noteq> (Inl (Raised e) :: (store_error, _) result)" for ps m
    by (induction ps arbitrary: m)
      (auto simp: result_simps AddInput_def AddOutput_def panic_def split: option.splits)
  then show "transaction_moves tx i pcv = (Inl (Raised e) :: (store_error, _) result) \<Longrightarrow> False"
    by (auto simp: transaction_moves_def result_simps)
  have ce: "compute_effective ms vis ret \<noteq> (Inl (Raised e) :: (store_error, _) result)" for ms vis ret
    by (induction ms arbitrary: vis ret) (auto simp: panic_def split: option.splits)
  then show "fst (ComputePostCommitEffectiveVolumes ms) = (Inl (Raised e) :: (store_error, _) result) \<Longrightarrow> False"
    by (simp add: ComputePostCommitEffectiveVolumes_def)
  have gm: "GetMemento p \<noteq> (Inl (Raised e) :: (store_error, _) result)" for p
    by (cases p) (auto simp: panic_def split: option.splits)
  then show "GetMemento p = (Inl (Raised e) :: (store_error, _) result) \<Longrightarrow> False" by blast
  show "ComputeHash sha prev l = (Inl (Raised e) :: (store_error, _) result) \<Longrightarrow> False"
    using gm by (auto simp: ComputeHash_def result_simps)
qed


lemma quiet_updates [quiet_intro]:
  "quiet store_deadlock (UpdateVolumes us)" "quiet store_deadlock (Store_GetBalances q)"
  "quiet store_deadlock (InsertTransaction tx)" "quiet store_deadlock (InsertMoves f ms)"
  "quiet store_deadlock (updateTxWithRetrieve i cnd u)" "quiet store_deadlock (UpsertAccounts b ds)"
  "quiet store_deadlock (Store_DeleteAccountMetadata a k)" "quiet store_deadlock (InsertLog sha f l)"
  "quiet store_deadlock (Store_InsertSchema sc)" "quiet store_deadlock FindLatestSchemaVersion"
  unfolding UpdateVolumes_def Store_GetBalances_def InsertTransaction_def insert_row_def InsertMoves_def
    next_tx_id_def updateTxWithRetrieve_def UpsertAccounts_def Store_DeleteAccountMetadata_def InsertLog_def insert_log_row_def
    next_log_id_def Store_InsertSchema_def FindLatestSchemaVersion_def
  by (intro quiet_intro quiet_modify; auto simp: store_deadlock_def Let_def dest: pure_no_error split: if_splits)+

lemma quiet_commit [quiet_intro]:
  "quiet store_deadlock (CommitTransaction f tx)" "quiet store_deadlock (Store_RevertTransaction i d)"
  "quiet store_deadlock (Store_UpdateTransactionMetadata i m d)"
  "quiet store_deadlock (Store_DeleteTransactionMetadata i k d)" "quiet store_deadlock Commit"
  unfolding CommitTransaction_def commit_moves_def Store_RevertTransaction_def
    Store_UpdateTransactionMetadata_def Store_DeleteTransactionMetadata_def Commit_def
  by (intro quiet_intro quiet_modify; auto simp: store_deadlock_def dest: pure_no_error)+

lemma map_failure_Raised: "map_failure h r = Inl (Raised x) \<longleftrightarrow> (\<exists>e. r = Inl (Raised e) \<and> x = h e)"
  by (cases "(h, r)" rule: map_failure.cases) auto

lemma map_failure_Inr: "map_failure h r = Inr x \<longleftrightarrow> r = Inr x"
  by (cases "(h, r)" rule: map_failure.cases) auto

lemma quiet_fromStore [quiet_intro]: "quiet store_deadlock m \<Longrightarrow> quiet ctl_deadlock (fromStore m)"
proof -
  assume q: "quiet store_deadlock m"
  show "quiet ctl_deadlock (fromStore m)"
    unfolding quiet_def
  proof (intro allI impI)
    fix s :: session assume s: "s_fault s = None"
    obtain r s1 where m: "m s = (r, s1)" by (cases "m s")
    from quietD [OF q s m] show "s_fault (snd (fromStore m s)) = None \<and>
        (\<forall>e. fst (fromStore m s) = Inl (Raised e) \<longrightarrow> \<not> ctl_deadlock e)"
      by (auto simp: fromStore_def m map_failure_Raised ctl_deadlock_def store_deadlock_def)
  qed
qed

section \<open>The log rows\<close>

definition log_rows :: "session \<Rightarrow> log list" where
  "log_rows s = t_logs (s_tx s)"

lemma keeps_logs_basic [keeps_intro]: "keeps log_rows (failS e)" "keeps log_rows statement"
  by (auto simp: keeps_def log_rows_def failS_def statement_def split: option.splits prod.splits nat.splits)

lemma keeps_logs_modify [keeps_intro]: "(\<And>s. log_rows (h s) = log_rows s) \<Longrightarrow> keeps log_rows (modifyS h)"
  by (rule keeps_modify)

lemma store_keeps_logs [keeps_intro]:
  "keeps log_rows (UpdateVolumes us)" "keeps log_rows (Store_GetBalances q)"
  "keeps log_rows (InsertTransaction tx)" "keeps log_rows (InsertMoves f ms)"
  "keeps log_rows (updateTxWithRetrieve i c u)" "keeps log_rows (UpsertAccounts b ds)"
  "keeps log_rows (Store_DeleteAccountMetadata a k)" "keeps log_rows (Store_InsertSchema sc)"
  "keeps log_rows FindLatestSchemaVersion"
  unfolding UpdateVolumes_def Store_GetBalances_def InsertTransaction_def insert_row_def InsertMoves_def
    next_tx_id_def updateTxWithRetrieve_def UpsertAccounts_def Store_DeleteAccountMetadata_def
    Store_InsertSchema_def FindLatestSchemaVersion_def
  by (intro keeps_intro; simp add: log_rows_def Let_def)+

lemma store_keeps_logs' [keeps_intro]:
  "keeps log_rows (Store_RevertTransaction i d)" "keeps log_rows (Store_UpdateTransactionMetadata i m d)"
  "keeps log_rows (Store_DeleteTransactionMetadata i k d)" "keeps log_rows (CommitTransaction f tx)"
  unfolding Store_RevertTransaction_def Store_UpdateTransactionMetadata_def
    Store_DeleteTransactionMetadata_def CommitTransaction_def commit_moves_def
  by (intro keeps_intro)+

section \<open>The controller's actions\<close>

lemma keeps_fromStore [keeps_intro]: "keeps g m \<Longrightarrow> keeps g (fromStore m)"
  by (auto simp: keeps_def fromStore_def split: prod.splits) (metis snd_conv)

lemma books_fromStore [books_intro]: "keeps_books m \<Longrightarrow> keeps_books (fromStore m)"
  unfolding keeps_books_def fromStore_def
proof (intro allI impI)
  fix s x s' assume m: "\<forall>s x s'. books (s_tx s) \<longrightarrow> m s = (Inr x, s') \<longrightarrow> books (s_tx s')"
    and b: "books (s_tx s)" and e: "(case m s of (r, s') \<Rightarrow> (map_failure StoreError r, s')) = (Inr x, s')"
  obtain r s1 where r: "m s = (r, s1)" by (cases "m s")
  with e have "r = Inr x" "s1 = s'" by (simp_all add: map_failure_Inr)
  with m b r show "books (s_tx s')" by blast
qed

text \<open>What is asked of a runtime, and that the virtual machine is one.\<close>

definition runtime_ok :: "runtime \<Rightarrow> bool" where
  "runtime_ok m \<longleftrightarrow> (\<forall>vars. keeps s_base (m vars) \<and> keeps log_rows (m vars) \<and> keeps_books (m vars) \<and>
     quiet ctl_deadlock (m vars))"

definition parsers_ok :: "controller \<Rightarrow> bool" where
  "parsers_ok c \<longleftrightarrow> (\<forall>rt plain m. getParser c rt plain = Inr m \<longrightarrow> runtime_ok m) \<and>
     (\<forall>rt plain e. getParser c rt plain = Inl (Raised e) \<longrightarrow> \<not> ctl_deadlock e)"

lemma not_deadlock:
  "\<not> ctl_deadlock (ScriptError e)" "\<not> ctl_deadlock (execution_error e)" "\<not> ctl_deadlock NoPostings"
  "\<not> ctl_deadlock (AlreadyReverted i)" "\<not> ctl_deadlock (SchemaNotFound v l)" "\<not> ctl_deadlock (SchemaNotSpecified v)"
  "\<not> ctl_deadlock (StoreError NotFound)" "\<not> ctl_deadlock (CompilationFailed ce)" "\<not> ctl_deadlock ParsingFailed"
  "\<not> ctl_deadlock (InvalidSchema i')" "\<not> ctl_deadlock (SchemaAlreadyExists v)"
  by (simp_all add: ctl_deadlock_def execution_error_def split: vm_error.splits)

lemma MachineExecute_ok: "runtime_ok (MachineExecute p)"
  unfolding runtime_ok_def MachineExecute_def
  by (intro allI conjI keeps_intro books_intro quiet_intro; auto simp: map_failure_Raised not_deadlock)

lemma machine_parser_ok:
  assumes "c_parser c = machine_parser parse" "c_machineParser c = machine_parser parse"
    "c_interpreterParser c = machine_parser parse"
  shows "parsers_ok c"
proof -
  have "getParser c rt plain = machine_parser parse plain" for rt plain
    using assms by (simp add: getParser_def)
  then show ?thesis
    unfolding parsers_ok_def
    by (auto simp: machine_parser_def bindr_eq_Inr bindr_eq_Inl map_failure_Raised MachineExecute_ok not_deadlock raise_def
        split: option.splits)
qed

text \<open>A value computed without touching the session is known in what follows.\<close>

lemma keeps_bind_lift: "(\<And>x. r = Inr x \<Longrightarrow> keeps g (f x)) \<Longrightarrow> keeps g (bindS (liftS r) f)"
  by (cases r) (auto simp: keeps_def bindS_def liftS_def)

lemma books_bind_lift: "(\<And>x. r = Inr x \<Longrightarrow> keeps_books (f x)) \<Longrightarrow> keeps_books (bindS (liftS r) f)"
  by (cases r) (auto simp: keeps_books_def bindS_def liftS_def)

lemma quiet_bind_lift:
  "(\<And>x. r = Inr x \<Longrightarrow> quiet E (f x)) \<Longrightarrow> (\<And>e. r = Inl (Raised e) \<Longrightarrow> \<not> E e) \<Longrightarrow> quiet E (bindS (liftS r) f)"
  by (cases r) (auto simp: quiet_def bindS_def liftS_def)

lemma parsers_okD:
  "parsers_ok c \<Longrightarrow> getParser c rt plain = Inr m \<Longrightarrow> keeps s_base (m vars) \<and> keeps log_rows (m vars) \<and>
     keeps_books (m vars) \<and> quiet ctl_deadlock (m vars)"
  unfolding parsers_ok_def runtime_ok_def by blast

lemma UpsertAccounts_core [keeps_intro]: "keeps base_core (fromStore (UpsertAccounts b ds))"
  by (intro keeps_fromStore UpsertAccounts_keeps_core)

lemma core_fromStore: "keeps s_base m \<Longrightarrow> keeps base_core (fromStore m)"
  by (intro keeps_core keeps_fromStore)

text \<open>The errors of the computations between the statements.\<close>

lemma pure_not_deadlock:
  "select_script c pm i schema = Inl (Raised e) \<Longrightarrow> \<not> ctl_deadlock e"
  "add_metadata new meta = Inl (Raised e) \<Longrightarrow> \<not> ctl_deadlock e"
  "check_funds ps b = Inl (Raised e) \<Longrightarrow> \<not> ctl_deadlock e"
  "parse_templates c ts = Inl (Raised e) \<Longrightarrow> \<not> ctl_deadlock e"
  "validate_log c pm schema' output = Inl (Raised e) \<Longrightarrow> \<not> ctl_deadlock e"
proof -
  show "select_script c pm i schema = Inl (Raised e) \<Longrightarrow> \<not> ctl_deadlock e"
    by (auto simp: select_script_def ctl_deadlock_def Let_def split: if_splits option.splits)
  show "add_metadata new meta = Inl (Raised e) \<Longrightarrow> \<not> ctl_deadlock e"
    by (induction new meta rule: add_metadata.induct) (auto simp: ctl_deadlock_def split: if_splits)
  have s: "settle ps b \<noteq> (Inl (Raised e') :: (ctl_error, _) result)" for ps b e'
    by (induction ps arbitrary: b) (auto simp: panic_def Let_def split: option.splits)
  show "check_funds ps b = Inl (Raised e) \<Longrightarrow> \<not> ctl_deadlock e"
    using s by (auto simp: check_funds_def ctl_deadlock_def bindr_eq_Inl split: option.splits)
  show "parse_templates c ts = Inl (Raised e) \<Longrightarrow> \<not> ctl_deadlock e"
    by (induction ts) (auto simp: ctl_deadlock_def panic_def split: sum.splits failure.splits)
  show "validate_log c pm schema' output = Inl (Raised e) \<Longrightarrow> \<not> ctl_deadlock e"
    by (auto simp: validate_log_def ctl_deadlock_def panic_def split: option.splits sum.splits failure.splits if_splits)
qed

lemma run_script_facts:
  assumes "parsers_ok c"
  shows "keeps s_base (run_script c pm i schema)" "keeps log_rows (run_script c pm i schema)"
    "keeps_books (run_script c pm i schema)" "quiet ctl_deadlock (run_script c pm i schema)"
  unfolding run_script_def
  by (rule keeps_bind_lift, simp only: split_paired_all prod.case, rule keeps_bind_lift,
      use parsers_okD [OF assms] in blast)+
    (rule books_bind_lift, simp only: split_paired_all prod.case, rule books_bind_lift,
      use parsers_okD [OF assms] in blast,
     rule quiet_bind_lift, simp only: split_paired_all prod.case, rule quiet_bind_lift,
      use parsers_okD [OF assms] assms pure_not_deadlock(1) in \<open>auto simp: parsers_ok_def\<close>)

lemma record_result_facts:
  "keeps base_core (record_result c i schema r)" "keeps log_rows (record_result c i schema r)"
  "keeps_books (record_result c i schema r)" "quiet ctl_deadlock (record_result c i schema r)"
  unfolding record_result_def upsertTransactionAccounts_def
  by (intro keeps_intro books_intro quiet_intro core_fromStore;
      auto simp: not_deadlock dest: pure_not_deadlock)+

lemma createTransaction_facts:
  assumes "parsers_ok c"
  shows "keeps base_core (createTransaction c pm i schema)" "keeps log_rows (createTransaction c pm i schema)"
    "keeps_books (createTransaction c pm i schema)" "quiet ctl_deadlock (createTransaction c pm i schema)"
  unfolding createTransaction_def
  by (intro keeps_bind books_bind quiet_bind keeps_core run_script_facts [OF assms] record_result_facts)+

lemma other_handlers_base:
  "keeps s_base (revertTransaction c ri)" "keeps s_base (saveTransactionMetadata i m)"
  "keeps s_base (deleteTransactionMetadata i k)" "keeps s_base (deleteAccountMetadata a k)"
  unfolding revertTransaction_def saveTransactionMetadata_def deleteTransactionMetadata_def
    deleteAccountMetadata_def
  by (intro keeps_intro)+

lemma other_handlers_logs:
  "keeps log_rows (revertTransaction c ri)" "keeps log_rows (saveTransactionMetadata i m)"
  "keeps log_rows (deleteTransactionMetadata i k)" "keeps log_rows (deleteAccountMetadata a k)"
  "keeps log_rows (saveAccountMetadata c a m schema)"
  unfolding revertTransaction_def saveTransactionMetadata_def deleteTransactionMetadata_def
    deleteAccountMetadata_def saveAccountMetadata_def
  by (intro keeps_intro)+

lemma other_handlers_books:
  "keeps_books (revertTransaction c ri)" "keeps_books (saveTransactionMetadata i m)"
  "keeps_books (deleteTransactionMetadata i k)" "keeps_books (deleteAccountMetadata a k)"
  "keeps_books (saveAccountMetadata c a m schema)"
  unfolding revertTransaction_def saveTransactionMetadata_def deleteTransactionMetadata_def
    deleteAccountMetadata_def saveAccountMetadata_def
  by (intro books_intro)+

lemma other_handlers_quiet:
  "quiet ctl_deadlock (revertTransaction c ri)" "quiet ctl_deadlock (saveTransactionMetadata i m)"
  "quiet ctl_deadlock (deleteTransactionMetadata i k)" "quiet ctl_deadlock (deleteAccountMetadata a k)"
  "quiet ctl_deadlock (saveAccountMetadata c a m schema)"
  unfolding revertTransaction_def saveTransactionMetadata_def deleteTransactionMetadata_def
    deleteAccountMetadata_def saveAccountMetadata_def
  by (intro quiet_intro; auto simp: not_deadlock dest: pure_not_deadlock)+

lemma mapErr_facts:
  "keeps g m \<Longrightarrow> keeps g (mapErr h m)" "keeps_books m \<Longrightarrow> keeps_books (mapErr h m)"
  "quiet E m \<Longrightarrow> (\<And>e. \<not> E e \<Longrightarrow> \<not> F (h e)) \<Longrightarrow> quiet F (mapErr h m)"
proof -
  show "keeps g m \<Longrightarrow> keeps g (mapErr h m)"
    by (auto simp: keeps_def mapErr_def split: prod.splits) (metis snd_conv)
  show "keeps_books m \<Longrightarrow> keeps_books (mapErr h m)"
    by (auto simp: keeps_books_def mapErr_def map_failure_Inr split: prod.splits)
  assume q: "quiet E m" and h: "\<And>e. \<not> E e \<Longrightarrow> \<not> F (h e)"
  show "quiet F (mapErr h m)"
    unfolding quiet_def
  proof (intro allI impI)
    fix s :: session assume s: "s_fault s = None"
    obtain r s1 where m: "m s = (r, s1)" by (cases "m s")
    from quietD [OF q s m] h show "s_fault (snd (mapErr h m s)) = None \<and>
        (\<forall>e. fst (mapErr h m s) = Inl (Raised e) \<longrightarrow> \<not> F e)"
      by (auto simp: mapErr_def m map_failure_Raised)
  qed
qed

lemma quiet_schema_conflict:
  "quiet ctl_deadlock m \<Longrightarrow> quiet ctl_deadlock (mapErr (schema_conflict v) m)"
  by (erule mapErr_facts(3)) (auto simp: schema_conflict_def ctl_deadlock_def split: ctl_error.splits store_error.splits)

lemma insertSchema_facts:
  "keeps s_base (insertSchema c v d)" "keeps log_rows (insertSchema c v d)"
  "keeps_books (insertSchema c v d)" "quiet ctl_deadlock (insertSchema c v d)"
  unfolding insertSchema_def
  by (intro keeps_intro books_intro quiet_intro mapErr_facts(1,2) quiet_schema_conflict;
      auto simp: not_deadlock map_failure_Raised dest: pure_not_deadlock)+

lemma saveAccountMetadata_core: "keeps base_core (saveAccountMetadata c a m schema)"
  unfolding saveAccountMetadata_def by (intro keeps_intro)

lemma handler_facts:
  assumes "parsers_ok c"
  shows "keeps base_core (handler c pm schema i)" "keeps log_rows (handler c pm schema i)"
    "keeps_books (handler c pm schema i)" "quiet ctl_deadlock (handler c pm schema i)"
  by (cases i; simp add: createTransaction_facts [OF assms] keeps_core other_handlers_base other_handlers_logs
      other_handlers_books other_handlers_quiet insertSchema_facts saveAccountMetadata_core)+

lemma fromStore_Inr [action_simps]: "fromStore m s = (Inr x, s') \<longleftrightarrow> m s = (Inr x, s')"
  by (auto simp: fromStore_def map_failure_Inr split: prod.splits)

lemma handler_type:
  "handler c pm schema i s = (Inr output, s') \<Longrightarrow> payload_Type output = output_type i"
  by (cases i)
    (auto simp: createTransaction_def record_result_def revertTransaction_def saveTransactionMetadata_def
      saveAccountMetadata_def deleteTransactionMetadata_def deleteAccountMetadata_def insertSchema_def
      action_simps Let_def split: if_splits prod.splits)

section \<open>Running a log\<close>

lemma lookup_schema_facts:
  "keeps s_base (lookup_schema c pm)" "keeps log_rows (lookup_schema c pm)" "keeps_books (lookup_schema c pm)"
  "quiet ctl_deadlock (lookup_schema c pm)"
  unfolding lookup_schema_def
  by (intro keeps_intro books_intro quiet_intro; simp add: not_deadlock)+

lemma insert_new_log_facts:
  "keeps s_base (insert_new_log c l)" "keeps_books (insert_new_log c l)" "quiet ctl_deadlock (insert_new_log c l)"
  unfolding insert_new_log_def
  by (intro keeps_intro books_intro quiet_intro)+

lemma runLog_facts:
  assumes "parsers_ok c"
  shows "keeps base_core (runLog c pm)" "keeps_books (runLog c pm)" "quiet ctl_deadlock (runLog c pm)"
  unfolding runLog_def
  by (intro keeps_intro books_intro quiet_intro keeps_core [OF lookup_schema_facts(1)] lookup_schema_facts
      handler_facts [OF assms] keeps_core [OF insert_new_log_facts(1)] insert_new_log_facts;
      auto dest: pure_not_deadlock)+

text \<open>The row an insertion adds, when the id of the log is the sequence's.\<close>

lemma next_log_id_Inr: "next_log_id l s = (Inr i, s') \<Longrightarrow> s_tx s' = s_tx s \<and> s_now s' = s_now s"
  by (auto simp: next_log_id_def action_simps split: option.splits)

definition logged :: "log list \<Rightarrow> log \<Rightarrow> log \<Rightarrow> bool" where
  "logged rows l row \<longleftrightarrow> lg_Data row = lg_Data l \<and> lg_IdempotencyKey row = lg_IdempotencyKey l \<and>
     lg_IdempotencyHash row = lg_IdempotencyHash l \<and> lg_SchemaVersion row = lg_SchemaVersion l \<and>
     (\<exists>i. lg_ID row = Some i \<and> (\<forall>r \<in> set rows. lg_ID r \<noteq> Some i)) \<and>
     (lg_IdempotencyKey l \<noteq> [] \<longrightarrow> (\<forall>r \<in> set rows. lg_IdempotencyKey r \<noteq> lg_IdempotencyKey l))"

lemma insert_log_row_Inr:
  assumes "insert_log_row sha f l i s = (Inr row, s')" "lg_ID l = None"
  shows "(row = l \<and> s_tx s' = s_tx s \<and> s_aborted s') \<or>
    (logged (log_rows s) l row \<and> s_tx s' = (s_tx s)\<lparr>t_logs := log_rows s @ [row]\<rparr>)"
proof (cases "list_ex (\<lambda>r. lg_ID r = Some i) (t_logs (s_tx s))")
  case True
  with assms have "row = l \<and> s_tx s' = s_tx s \<and> s_aborted s'"
    by (auto simp: insert_log_row_def action_simps Let_def split: if_splits)
  then show ?thesis ..
next
  case False
  let ?row = "l\<lparr>lg_ID := Some i, lg_Date := or_default (lg_Date l) (s_now s)\<rparr>"
  from False assms obtain r where r: "(if HashLogs f then ComputeHash sha (last_opt (t_logs (s_tx s)))
        (?row\<lparr>lg_Hash := []\<rparr>) else Inr ?row) = (Inr r :: (store_error, _) result)"
    and k: "\<not> (lg_IdempotencyKey l \<noteq> [] \<and> list_ex (\<lambda>r. lg_IdempotencyKey r = lg_IdempotencyKey l) (t_logs (s_tx s)))"
    and e: "row = r" "s' = s\<lparr>s_tx := (s_tx s)\<lparr>t_logs := t_logs (s_tx s) @ [r]\<rparr>\<rparr>"
    unfolding insert_log_row_def Let_def by (auto simp: action_simps simp del: if_split split: if_split_asm)
  from r have "\<exists>h. r = ?row\<lparr>lg_Hash := h\<rparr> \<or> r = ?row"
    by (auto simp: ComputeHash_def bindr_eq_Inr split: if_splits)
  with False k have "logged (log_rows s) l row"
    by (auto simp: logged_def log_rows_def list_ex_iff e(1))
  then show ?thesis by (simp add: e log_rows_def)
qed

lemma InsertLog_Inr:
  assumes "InsertLog sha f l s = (Inr row, s')" "lg_ID l = None" "lg_ID row \<noteq> None"
  shows "logged (log_rows s) l row" "s_tx s' = (s_tx s)\<lparr>t_logs := log_rows s @ [row]\<rparr>"
proof -
  from assms(1) obtain s1 i s2 where s1: "statement s = (Inr (), s1)" "next_log_id l s1 = (Inr i, s2)"
    and r: "insert_log_row sha f l i s2 = (Inr row, s')"
    by (auto simp: InsertLog_def action_simps)
  from statement_keeps [OF s1(1)] next_log_id_Inr [OF s1(2)] have e: "s_tx s2 = s_tx s" by simp
  from insert_log_row_Inr [OF r assms(2)] assms(2,3) e
  show "logged (log_rows s) l row" "s_tx s' = (s_tx s)\<lparr>t_logs := log_rows s @ [row]\<rparr>"
    by (auto simp: log_rows_def)
qed

lemma runLog_Inr:
  assumes "parsers_ok c" "runLog c pm s = (Inr (l, output), s')"
  shows "logged (log_rows s) (new_log c pm output) l" "log_rows s' = log_rows s @ [l]"
    "payload_Type output = output_type (pm_Input pm)"
proof -
  from assms(2) obtain schema s1 s2 where r: "lookup_schema c pm s = (Inr schema, s1)"
    "handler c pm schema (pm_Input pm) s1 = (Inr output, s2)"
    "insert_new_log c (new_log c pm output) s2 = (Inr l, s')"
    by (auto simp: runLog_def action_simps)
  have rows: "log_rows s2 = log_rows s"
    using keepsD [OF lookup_schema_facts(2) r(1)] keepsD [OF handler_facts(2) [OF assms(1)] r(2)] by simp
  from r(3) have i: "InsertLog (c_sha256 c) (c_features c) (new_log c pm output) s2 = (Inr l, s')" "lg_ID l \<noteq> None"
    by (auto simp: insert_new_log_def action_simps split: if_splits)
  have "lg_ID (new_log c pm output) = None" by (simp add: new_log_def NewLog_def)
  from InsertLog_Inr [OF i(1) this i(2)] rows
  show "logged (log_rows s) (new_log c pm output) l" "log_rows s' = log_rows s @ [l]"
    by (simp_all add: log_rows_def)
  show "payload_Type output = output_type (pm_Input pm)" by (rule handler_type [OF r(2)])
qed

section \<open>Attempts\<close>

definition without_accounts :: "tables \<Rightarrow> tables" where
  "without_accounts t = t\<lparr>t_accounts := []\<rparr>"

lemma base_core_begin [simp]: "base_core (begin_attempt a w) = without_accounts (w_tables w)"
  by (simp add: base_core_def begin_attempt_def BeginTX_def without_accounts_def)

lemma base_core_rollback [simp]: "base_core (snd (Rollback s)) = base_core s" "s_base (snd (Rollback s)) = s_base s"
  by (simp_all add: Rollback_def modifyS_def base_core_def)

lemma Commit_Inr: "Commit s = (Inr u, s') \<Longrightarrow> s_base s' = s_tx s"
  by (auto simp: Commit_def action_simps split: if_splits dest!: unresolved_keeps)

lemma Commit_Inl: "Commit s = (Inl e, s') \<Longrightarrow> s_base s' = s_base s"
  by (auto simp: Commit_def action_simps split: if_splits dest!: unresolved_keeps)

lemma fromStore_Commit_Inl: "fromStore Commit s = (Inl e, s') \<Longrightarrow> s_base s' = s_base s"
proof -
  assume c: "fromStore Commit s = (Inl e, s')"
  obtain r s1 where r: "Commit s = (r, s1)" by (cases "Commit s")
  with c show ?thesis by (cases r) (auto simp: fromStore_def dest: Commit_Inl)
qed

lemma settle_attempt_cases:
  assumes "settle_attempt pm r s = (r', s')"
  shows "(\<exists>e. r' = Inl e) \<or> pm_DryRun pm \<Longrightarrow> base_core s' = base_core s"
    and "r' = Inr out \<Longrightarrow> r = Inr out \<and> (if pm_DryRun pm then s_base s' = s_base s else s_base s' = s_tx s)"
  using assms
  by (auto simp: settle_attempt_def base_core_def fromStore_Inr split: sum.splits if_splits prod.splits
      dest!: Commit_Inr fromStore_Commit_Inl)

text \<open>The log an operation appends, and what a forged log does to the committed tables.\<close>

definition appended :: "controller \<Rightarrow> parameters \<Rightarrow> log list \<Rightarrow> log \<Rightarrow> log_payload \<Rightarrow> log list \<Rightarrow> bool" where
  "appended c pm rows l out rows' \<longleftrightarrow> rows' = rows @ [l] \<and> logged rows (new_log c pm out) l \<and>
     payload_Type out = output_type (pm_Input pm)"

fun kept_result :: "parameters \<Rightarrow> forged \<Rightarrow> bool" where
  "kept_result pm (Inl e) = True"
| "kept_result pm (Inr (l, out, hit)) = (hit \<or> pm_DryRun pm)"

definition effect :: "controller \<Rightarrow> parameters \<Rightarrow> tables \<Rightarrow> forged \<Rightarrow> tables \<Rightarrow> bool" where
  "effect c pm t x t' \<longleftrightarrow>
     (kept_result pm x \<longrightarrow> without_accounts t' = without_accounts t) \<and>
     (\<forall>l out. x = Inr (l, out, False) \<longrightarrow> \<not> pm_DryRun pm \<longrightarrow> appended c pm (t_logs t) l out (t_logs t'))"

lemma without_accounts_logs: "without_accounts t' = without_accounts t \<Longrightarrow> t_logs t' = t_logs t"
  by (drule arg_cong [where f = t_logs]) (simp add: without_accounts_def)

lemma without_accounts_books: "without_accounts t' = without_accounts t \<Longrightarrow> books t' = books t"
  by (metis books_other(1) without_accounts_def)

lemma effect_after: "without_accounts t1 = without_accounts t \<Longrightarrow> effect c pm t1 x t' \<Longrightarrow> effect c pm t x t'"
  unfolding effect_def using without_accounts_logs [of t1 t] by metis

fun as_forged :: "(ctl_error, log \<times> log_payload) result \<Rightarrow> forged" where
  "as_forged (Inl e) = Inl e"
| "as_forged (Inr (l, out)) = Inr (l, out, False)"

lemma runTx_facts:
  assumes "parsers_ok c" "runTx c pm a w = (r, w')"
  shows "\<exists>t. w_tables w' = at_others a t \<and> effect c pm (w_tables w) (as_forged r) t \<and>
    (books (w_tables w) \<longrightarrow> books t)"
proof -
  obtain r0 s0 where l: "runLog c pm (begin_attempt a w) = (r0, s0)" by (cases "runLog c pm (begin_attempt a w)")
  obtain r1 s1 where s: "settle_attempt pm r0 s0 = (r1, s1)" by (cases "settle_attempt pm r0 s0")
  from assms(2) l s have e: "r = r1" "w' = end_attempt a s1" by (simp_all add: runTx_def)
  have core: "base_core s0 = without_accounts (w_tables w)"
    using keepsD [OF runLog_facts(1) [OF assms(1)] l] by simp
  have kept: "without_accounts (s_base s1) = without_accounts (w_tables w)"
    if "(\<exists>x. r1 = Inl x) \<or> pm_DryRun pm"
    using settle_attempt_cases(1) [OF s that] core by (simp add: base_core_def without_accounts_def)
  have fin: "appended c pm (t_logs (w_tables w)) k out (t_logs (s_base s1)) \<and> (books (w_tables w) \<longrightarrow> books (s_base s1))"
    if "r1 = Inr (k, out)" "\<not> pm_DryRun pm" for k out
  proof -
    from settle_attempt_cases(2) [OF s that(1)] that(2) have q: "r0 = Inr (k, out)" "s_base s1 = s_tx s0" by simp_all
    have b: "log_rows (begin_attempt a w) = t_logs (w_tables w)" "s_tx (begin_attempt a w) = w_tables w"
      by (simp_all add: log_rows_def begin_attempt_def BeginTX_def)
    from runLog_Inr [OF assms(1) l [unfolded q(1)]] b q(2)
      keeps_booksD [OF runLog_facts(2) [OF assms(1)] _ l [unfolded q(1)]]
    show ?thesis by (simp add: appended_def log_rows_def)
  qed
  have "effect c pm (w_tables w) (as_forged r) (s_base s1) \<and> (books (w_tables w) \<longrightarrow> books (s_base s1))"
  proof (cases "(\<exists>x. r1 = Inl x) \<or> pm_DryRun pm")
    case True
    have "without_accounts (s_base s1) = without_accounts (w_tables w)" by (rule kept [OF True])
    with True without_accounts_books [OF this] show ?thesis
      by (cases r1) (auto simp: effect_def e)
  next
    case False
    then obtain k out where k: "r1 = Inr (k, out)" "\<not> pm_DryRun pm" by (cases r1) auto
    from fin [OF k] k show ?thesis by (simp add: effect_def e)
  qed
  then show ?thesis by (intro exI [of _ "s_base s1"]) (simp add: e end_attempt_def)
qed

text \<open>The other sessions leave the tables alone, or at least the books.\<close>

definition alone :: "attempt list \<Rightarrow> bool" where
  "alone schedule \<longleftrightarrow> (\<forall>a \<in> set schedule. at_others a = id)"

definition others_keep_books :: "attempt list \<Rightarrow> bool" where
  "others_keep_books schedule \<longleftrightarrow> (\<forall>a \<in> set schedule. \<forall>t. books t \<longrightarrow> books (at_others a t))"

lemma forgeLogRetry_cases:
  assumes "forgeLogRetry c pm (a # schedule) w = Some (x, w')"
  obtains (more) e w1 where "runTx c pm a w = (Inl e, w1)" "forgeLogRetry c pm schedule w1 = Some (x, w')"
    | (final) r where "runTx c pm a w = (r, w')" "x = as_forged r"
    | (fetched) e where "runTx c pm a w = (Inl e, w')" "kept_result pm x"
proof -
  obtain r w1 where r: "runTx c pm a w = (r, w1)" by (cases "runTx c pm a w")
  show ?thesis
  proof (cases r)
    case (Inr p)
    with assms r that(2) show ?thesis by (cases p) auto
  next
    case (Inl e)
    show ?thesis
    proof (cases "retried e")
      case True
      with assms r Inl that(1,3) show ?thesis
        by (cases e rule: retried.cases) (auto split: sum.splits option.splits simp: panic_def)
    next
      case False
      with assms r Inl that(2) show ?thesis by (cases e rule: retried.cases) auto
    qed
  qed
qed

lemma forgeLogRetry_effect:
  assumes "parsers_ok c" "forgeLogRetry c pm schedule w = Some (x, w')"
  shows "alone schedule \<Longrightarrow> effect c pm (w_tables w) x (w_tables w')"
    and "others_keep_books schedule \<Longrightarrow> books (w_tables w) \<Longrightarrow> books (w_tables w')"
  using assms(2)
proof (induction schedule arbitrary: w)
  case (Cons a schedule)
  {
    case 1
    then have a: "alone schedule" "at_others a = id" by (auto simp: alone_def)
    from 1(2) show ?case
    proof (cases rule: forgeLogRetry_cases)
      case (more e w1)
      from runTx_facts [OF assms(1) more(1)] a(2) have "effect c pm (w_tables w) (Inl e) (w_tables w1)" by auto
      then have "without_accounts (w_tables w1) = without_accounts (w_tables w)" by (simp add: effect_def)
      from effect_after [OF this Cons.IH(1) [OF a(1) more(2)]] show ?thesis .
    next
      case (final r)
      from runTx_facts [OF assms(1) final(1)] a(2) final(2) show ?thesis by auto
    next
      case (fetched e)
      from runTx_facts [OF assms(1) fetched(1)] a(2) have "effect c pm (w_tables w) (Inl e) (w_tables w')" by auto
      with fetched(2) show ?thesis by (cases "(pm, x)" rule: kept_result.cases) (auto simp: effect_def)
    qed
  next
    case 2
    then have a: "others_keep_books schedule" "\<And>t. books t \<Longrightarrow> books (at_others a t)"
      by (auto simp: others_keep_books_def)
    from 2(3) show ?case
    proof (cases rule: forgeLogRetry_cases)
      case (more e w1)
      from runTx_facts [OF assms(1) more(1)] a(2) 2(2) have "books (w_tables w1)" by metis
      from Cons.IH(2) [OF a(1) this more(2)] show ?thesis .
    next
      case (final r)
      from runTx_facts [OF assms(1) final(1)] a(2) 2(2) show ?thesis by metis
    next
      case (fetched e)
      from runTx_facts [OF assms(1) fetched(1)] a(2) 2(2) show ?thesis by metis
    qed
  }
qed simp_all

end
