(* ===== verification/Controller_Claims.thy ===== *)
theory Controller_Claims
  imports Controller_Safe
begin

text \<open>
  The properties of the controller: an operation that fails or is a dry run, the books of the
  ledger, idempotency keys, and the end of the loop that tries again.
\<close>

section \<open>Forging a log\<close>

lemma forgeLog_cases:
  assumes "forgeLog c pm (a # schedule) w = Some (x, w')"
  obtains (answered) "w' = end_attempt a (snd (Rollback (begin_attempt a w)))" "kept_result pm x"
      "\<forall>l out. x \<noteq> Inr (l, out, False)"
    | (retry) e w1 where "runTx c pm a w = (Inl e, w1)" "forgeLogRetry c pm schedule w1 = Some (x, w')"
    | (final) r where "runTx c pm a w = (r, w')" "x = as_forged r"
proof -
  let ?s = "begin_attempt a w"
  let ?f = "if pm_IdempotencyKey pm \<noteq> [] then fetchLogWithIK c pm (s_tx ?s) else Inr None"
  show ?thesis
  proof (cases ?f)
    case (Inl e)
    with assms have "w' = end_attempt a (snd (Rollback (begin_attempt a w)))" "x = Inl e" by (auto simp: Let_def)
    then show ?thesis by (intro that(1)) simp_all
  next
    case (Inr v)
    show ?thesis
    proof (cases v)
      case (Some p)
      with assms Inr have "w' = end_attempt a (snd (Rollback (begin_attempt a w)))" "x = Inr (fst p, snd p, True)"
        by (auto simp: Let_def split: prod.splits)
      then show ?thesis by (intro that(1)) simp_all
    next
      case None
      obtain r s where r: "runLog c pm ?s = (r, s)" by (cases "runLog c pm ?s")
      show ?thesis
      proof (cases r)
        case (Inl e)
        then have t: "runTx c pm a w = (Inl e, end_attempt a (snd (Rollback s)))"
          by (simp add: runTx_def r settle_attempt_def)
        with assms Inr None r Inl that(2,3) show ?thesis
          by (auto simp: Let_def split: if_splits)
      next
        case (Inr out)
        obtain q s1 where q: "settle_attempt pm (Inr out) s = (q, s1)" by (cases "settle_attempt pm (Inr out) s")
        have "runTx c pm a w = (q, end_attempt a s1)" by (simp add: runTx_def r Inr q)
        with assms \<open>?f = Inr v\<close> None r Inr q that(3) show ?thesis
          by (cases q) (auto simp: Let_def)
      qed
    qed
  qed
qed

lemma end_of_answer [simp]:
  "w_tables (end_attempt a (snd (Rollback (begin_attempt a w)))) = at_others a (w_tables w)"
  by (simp add: end_attempt_def begin_attempt_def BeginTX_def)

lemma forgeLog_effect:
  assumes "parsers_ok c" "forgeLog c pm schedule w = Some (x, w')"
  shows "alone schedule \<Longrightarrow> effect c pm (w_tables w) x (w_tables w')"
    and "others_keep_books schedule \<Longrightarrow> books (w_tables w) \<Longrightarrow> books (w_tables w')"
proof -
  from assms(2) obtain a rest where s: "schedule = a # rest" by (cases schedule) auto
  note f = assms(2) [unfolded s]
  {
    assume "alone schedule"
    then have a: "alone rest" "at_others a = id" by (auto simp: alone_def s)
    from f show "effect c pm (w_tables w) x (w_tables w')"
    proof (cases rule: forgeLog_cases)
      case answered
      with a(2) show ?thesis by (cases "(pm, x)" rule: kept_result.cases) (auto simp: effect_def)
    next
      case (retry e w1)
      from runTx_facts [OF assms(1) retry(1)] a(2) have "effect c pm (w_tables w) (Inl e) (w_tables w1)" by auto
      then have "without_accounts (w_tables w1) = without_accounts (w_tables w)" by (simp add: effect_def)
      from effect_after [OF this forgeLogRetry_effect(1) [OF assms(1) retry(2) a(1)]] show ?thesis .
    next
      case (final r)
      from runTx_facts [OF assms(1) final(1)] a(2) final(2) show ?thesis by auto
    qed
  next
    assume "others_keep_books schedule" and b: "books (w_tables w)"
    then have a: "others_keep_books rest" "\<And>t. books t \<Longrightarrow> books (at_others a t)"
      by (auto simp: others_keep_books_def s)
    from f show "books (w_tables w')"
    proof (cases rule: forgeLog_cases)
      case answered
      with a(2) b show ?thesis by simp
    next
      case (retry e w1)
      from runTx_facts [OF assms(1) retry(1)] a(2) b have "books (w_tables w1)" by metis
      from forgeLogRetry_effect(2) [OF assms(1) retry(2) a(1) this] show ?thesis .
    next
      case (final r)
      from runTx_facts [OF assms(1) final(1)] a(2) b show ?thesis by metis
    qed
  }
qed

section \<open>A concrete ledger\<close>

text \<open>A runtime for the examples: it sends 10 USD from the world to the bank.\<close>

definition sample_runtime :: runtime where
  "sample_runtime vars = returnS \<lparr>er_Postings = [NewPosting ''world'' ''bank'' ''USD'' (Some 10)],
     er_Metadata = [], er_AccountMetadata = []\<rparr>"

definition sample_controller :: controller where
  "sample_controller = \<lparr>c_features = all_features, c_strict = True, c_pooled = True,
     c_parser = (\<lambda>_. Inr sample_runtime), c_machineParser = (\<lambda>_. Inr sample_runtime),
     c_interpreterParser = (\<lambda>_. Inr sample_runtime), c_compile = (\<lambda>_. None), c_sha256 = sample_sha,
     c_inputHash = (\<lambda>i. case i of InputCreate j \<Rightarrow> ''create'' @ ci_Reference j | _ \<Rightarrow> ''other''),
     c_validateQueries = (\<lambda>_. None)\<rparr>"

definition sample_input :: create_input where
  "sample_input = \<lparr>ci_Plain = ''send'', ci_Vars = [], ci_Timestamp = 5, ci_Metadata = [], ci_Reference = [],
     ci_AccountMetadata = [], ci_Runtime = [], ci_Template = []\<rparr>"

definition sample_parameters :: "bool \<Rightarrow> parameters" where
  "sample_parameters dry = \<lparr>pm_DryRun = dry, pm_SchemaVersion = [], pm_IdempotencyKey = ''key'',
     pm_Input = InputCreate sample_input\<rparr>"

definition sample_world :: world where
  "sample_world = \<lparr>w_tables = empty_tables, w_txSeq = 1, w_logSeq = 1\<rparr>"

definition sample_attempt :: "time \<Rightarrow> (nat \<times> store_error) option \<Rightarrow> attempt" where
  "sample_attempt now fault = \<lparr>at_now = now, at_fault = fault, at_others = id\<rparr>"

lemma sample_parsers_ok: "parsers_ok sample_controller"
  by (auto simp: parsers_ok_def runtime_ok_def getParser_def sample_controller_def sample_runtime_def
      intro!: keeps_intro books_intro quiet_intro split: if_splits)

lemma sample_alone: "alone [sample_attempt n f]" "alone [sample_attempt n f, sample_attempt n' f']"
  by (simp_all add: alone_def sample_attempt_def)

section \<open>Failures and dry runs\<close>

text \<open>
  Claim C5. An operation that fails, that is a dry run, or that is answered from the log of its
  idempotency key leaves the committed volumes, transactions, moves, logs and schemas as they
  were, whatever statement of whatever attempt fails; an operation that succeeds appends exactly
  one log, with the operation's payload, idempotency key and input hash, a new id, and a key no
  other log has.
\<close>

theorem operations_are_atomic_but_for_accounts:
  assumes "parsers_ok c" "alone schedule" "forgeLog c pm schedule w = Some (x, w')"
  shows "(kept_result pm x \<longrightarrow> without_accounts (w_tables w') = without_accounts (w_tables w)) \<and>
    (\<forall>l out. x = Inr (l, out, False) \<longrightarrow> \<not> pm_DryRun pm \<longrightarrow>
       appended c pm (t_logs (w_tables w)) l out (t_logs (w_tables w')))"
  using forgeLog_effect(1) [OF assms(1,3,2)] unfolding effect_def .

lemma forged_anew:
  assumes "case y of Some (Inr (l, out, False), w') \<Rightarrow> P w' | _ \<Rightarrow> False"
  shows "\<exists>l out w'. y = Some (Inr (l, out, False), w') \<and> P w'"
  using assms by (auto split: option.splits prod.splits sum.splits bool.splits)

lemma sample_dry_run:
  "\<exists>l out w'. forgeLog sample_controller (sample_parameters True) [sample_attempt 100 None] sample_world =
     Some (Inr (l, out, False), w') \<and> map fst (t_accounts (w_tables w')) = [''bank'', ''world'']"
  by (rule forged_anew) code_simp

theorem operations_are_atomic_but_for_accounts_witness:
  "\<exists>l out w'. forgeLog sample_controller (sample_parameters True) [sample_attempt 100 None] sample_world =
     Some (Inr (l, out, False), w') \<and> t_transactions (w_tables w') = [] \<and> t_logs (w_tables w') = []"
proof -
  from sample_dry_run obtain l out w' where
    f: "forgeLog sample_controller (sample_parameters True) [sample_attempt 100 None] sample_world =
      Some (Inr (l, out, False), w')" by blast
  from operations_are_atomic_but_for_accounts [OF sample_parsers_ok sample_alone(1) f]
  have "without_accounts (w_tables w') = without_accounts (w_tables sample_world)"
    by (simp add: sample_parameters_def)
  then have "t_transactions (w_tables w') = []" "t_logs (w_tables w') = []"
    by (auto simp: without_accounts_def sample_world_def empty_tables_def tables.defs
        dest!: arg_cong [where f = "\<lambda>t. (t_transactions t, t_logs t)"])
  with f show ?thesis by blast
qed

text \<open>
  A dry run of a transaction writes the accounts of its postings: they are upserted with
  the controller's own store, outside the SQL transaction that is rolled back.
\<close>

lemma dry_runs_create_accounts:
  "\<exists>l out w'. forgeLog sample_controller (sample_parameters True) [sample_attempt 100 None] sample_world =
     Some (Inr (l, out, False), w') \<and>
   t_accounts (w_tables sample_world) = [] \<and> map fst (t_accounts (w_tables w')) = [''bank'', ''world'']"
  using sample_dry_run by (auto simp: sample_world_def empty_tables_def)

section \<open>The books\<close>

text \<open>
  Claim C4. Whatever the operation and however it ends, when the runtimes and the other sessions
  keep the books, the committed volumes stay the sums of the postings of the committed
  transactions, no id or reference is taken twice, and the balances of every asset add up to zero.
\<close>

theorem operations_keep_the_books:
  assumes "parsers_ok c" "others_keep_books schedule" "books (w_tables w)"
    and "forgeLog c pm schedule w = Some (x, w')"
  shows "books (w_tables w') \<and>
    (\<forall>a. (\<Sum>account \<in> fst ` set (t_volumes (w_tables w')). table_balance (w_tables w') account a) = 0)"
proof -
  have "books (w_tables w')" by (rule forgeLog_effect(2) [OF assms(1,4,2,3)])
  then show ?thesis using balances_sum_to_zero by blast
qed

lemma sample_create:
  "\<exists>l out w'. forgeLog sample_controller (sample_parameters False) [sample_attempt 100 None] sample_world =
     Some (Inr (l, out, False), w') \<and> table_balance (w_tables w') ''bank'' ''USD'' = 10"
  by (rule forged_anew) code_simp

lemma sample_others: "others_keep_books [sample_attempt n f]"
  by (simp add: others_keep_books_def sample_attempt_def)

theorem operations_keep_the_books_witness:
  "\<exists>l out w'. forgeLog sample_controller (sample_parameters False) [sample_attempt 100 None] sample_world =
     Some (Inr (l, out, False), w') \<and> books (w_tables w') \<and> table_balance (w_tables w') ''bank'' ''USD'' = 10"
proof -
  from sample_create obtain l out w' where
    f: "forgeLog sample_controller (sample_parameters False) [sample_attempt 100 None] sample_world =
      Some (Inr (l, out, False), w')" and b: "table_balance (w_tables w') ''bank'' ''USD'' = 10" by blast
  have "books (w_tables sample_world)" by (simp add: sample_world_def books_empty)
  from operations_keep_the_books [OF sample_parsers_ok sample_others this f] f b show ?thesis by blast
qed

section \<open>Idempotency keys\<close>

lemma fetch_of_the_key:
  assumes "appended c pm rows l out rows'" "t_logs t = rows' @ later" "pm_IdempotencyKey pm \<noteq> []"
    "pm_IdempotencyKey pm' = pm_IdempotencyKey pm"
  shows "find_log (pm_IdempotencyKey pm') t = Some l \<and> lg_Data l = out \<and>
    lg_IdempotencyHash l = c_inputHash c (pm_Input pm) \<and> lg_IdempotencyKey l = pm_IdempotencyKey pm \<and>
    payload_Type out = output_type (pm_Input pm)"
proof -
  from assms(1) have l: "rows' = rows @ [l]" "lg_Data l = out" "lg_IdempotencyKey l = pm_IdempotencyKey pm"
    "lg_IdempotencyHash l = c_inputHash c (pm_Input pm)" "payload_Type out = output_type (pm_Input pm)"
    and fresh: "\<forall>r \<in> set rows. lg_IdempotencyKey r \<noteq> pm_IdempotencyKey pm"
    using assms(3) by (auto simp: appended_def logged_def new_log_def NewLog_def)
  have "find (\<lambda>l. lg_IdempotencyKey l = pm_IdempotencyKey pm) (rows @ l # later) = Some l"
    using fresh l(3) by (induction rows) auto
  then show ?thesis using assms(2-4) l by (simp add: find_log_def)
qed

lemma forgeLog_answers:
  assumes "pm_IdempotencyKey pm \<noteq> []" "fetchLogWithIK c pm (w_tables w) = Inr (Some (l, out))"
  shows "\<exists>w'. forgeLog c pm (a # schedule) w = Some (Inr (l, out, True), w') \<and> w_tables w' = at_others a (w_tables w)"
  using assms by (simp add: Let_def begin_attempt_def BeginTX_def Rollback_def modifyS_def end_attempt_def)

lemma forgeLog_refuses:
  assumes "pm_IdempotencyKey pm \<noteq> []" "fetchLogWithIK c pm (w_tables w) = Inl e"
  shows "\<exists>w'. forgeLog c pm (a # schedule) w = Some (Inl e, w') \<and> w_tables w' = at_others a (w_tables w)"
  using assms by (simp add: Let_def begin_attempt_def BeginTX_def Rollback_def modifyS_def end_attempt_def)

text \<open>
  Claim C6. An operation that succeeded under an idempotency key, called again with the same key
  and input after any number of other logs, changes nothing and returns the log and the output of
  the first call. Called with an input of another hash it is refused.
\<close>

theorem idempotency_keys_replay:
  assumes "parsers_ok c" "alone schedule" "forgeLog c pm schedule w = Some (Inr (l, out, False), w')"
    and "pm_IdempotencyKey pm \<noteq> []" "\<not> pm_DryRun pm"
    and "t_logs (w_tables w2) = t_logs (w_tables w') @ later"
    and "pm_IdempotencyKey pm2 = pm_IdempotencyKey pm" "at_others a = id"
  shows "(pm_Input pm2 = pm_Input pm \<longrightarrow>
      (\<exists>w3. forgeLog c pm2 (a # rest) w2 = Some (Inr (l, out, True), w3) \<and> w_tables w3 = w_tables w2)) \<and>
    (c_inputHash c (pm_Input pm) \<noteq> [] \<and> c_inputHash c (pm_Input pm2) \<noteq> c_inputHash c (pm_Input pm) \<longrightarrow>
      (\<exists>w3. forgeLog c pm2 (a # rest) w2 = Some (raise (InvalidIdempotencyInput (pm_IdempotencyKey pm)
          (c_inputHash c (pm_Input pm)) (c_inputHash c (pm_Input pm2))), w3) \<and> w_tables w3 = w_tables w2))"
proof -
  have "appended c pm (t_logs (w_tables w)) l out (t_logs (w_tables w'))"
    using forgeLog_effect(1) [OF assms(1,3,2)] assms(5) unfolding effect_def by blast
  from fetch_of_the_key [OF this assms(6,4,7)]
  have f: "find_log (pm_IdempotencyKey pm2) (w_tables w2) = Some l" "lg_Data l = out"
    "lg_IdempotencyHash l = c_inputHash c (pm_Input pm)" "lg_IdempotencyKey l = pm_IdempotencyKey pm"
    "payload_Type out = output_type (pm_Input pm)" by simp_all
  have k: "pm_IdempotencyKey pm2 \<noteq> []" using assms(4,7) by simp
  show ?thesis
  proof (intro conjI impI)
    assume "pm_Input pm2 = pm_Input pm"
    with f have "fetchLogWithIK c pm2 (w_tables w2) = Inr (Some (l, out))" by (simp add: fetchLogWithIK_def)
    from forgeLog_answers [OF k this, of a rest] assms(8)
    show "\<exists>w3. forgeLog c pm2 (a # rest) w2 = Some (Inr (l, out, True), w3) \<and> w_tables w3 = w_tables w2" by simp
  next
    assume "c_inputHash c (pm_Input pm) \<noteq> [] \<and> c_inputHash c (pm_Input pm2) \<noteq> c_inputHash c (pm_Input pm)"
    with f have "fetchLogWithIK c pm2 (w_tables w2) = raise (InvalidIdempotencyInput (pm_IdempotencyKey pm)
        (c_inputHash c (pm_Input pm)) (c_inputHash c (pm_Input pm2)))" by (auto simp: fetchLogWithIK_def)
    from forgeLog_refuses [OF k this [unfolded raise_def], of a rest] assms(8)
    show "\<exists>w3. forgeLog c pm2 (a # rest) w2 = Some (raise (InvalidIdempotencyInput (pm_IdempotencyKey pm)
        (c_inputHash c (pm_Input pm)) (c_inputHash c (pm_Input pm2))), w3) \<and> w_tables w3 = w_tables w2"
      by (simp add: raise_def)
  qed
qed

theorem idempotency_keys_replay_witness:
  "\<exists>l out w1 w2. forgeLog sample_controller (sample_parameters False) [sample_attempt 100 None] sample_world =
     Some (Inr (l, out, False), w1) \<and>
   forgeLog sample_controller (sample_parameters False) [sample_attempt 200 None] w1 = Some (Inr (l, out, True), w2) \<and>
   w_tables w2 = w_tables w1"
proof -
  from sample_create obtain l out w1 where
    f: "forgeLog sample_controller (sample_parameters False) [sample_attempt 100 None] sample_world =
      Some (Inr (l, out, False), w1)" by blast
  have p: "pm_IdempotencyKey (sample_parameters False) \<noteq> []" "\<not> pm_DryRun (sample_parameters False)"
    "at_others (sample_attempt 200 None) = id" by (simp_all add: sample_parameters_def sample_attempt_def)
  have "t_logs (w_tables w1) = t_logs (w_tables w1) @ []" by simp
  from idempotency_keys_replay [OF sample_parsers_ok sample_alone(1) f p(1,2) this refl p(3)] f show ?thesis
    by blast
qed


section \<open>Schemas\<close>

text \<open>
  Claim C37. With strict enforcement, an operation that creates a transaction and is given a schema version only
  logs a transaction all of whose postings have a source and a destination that are accounts of the chart of that
  schema, and whose template is one of the schema's when the schema has any; an operation given no version only
  logs while the ledger has no schema, unless it inserts one. Reverts and metadata are not compared with the chart.
\<close>

theorem strict_schemas_are_enforced:
  assumes "c_strict c" "NeedsSchema (output_type (pm_Input pm))" "runLog c pm s = (Inr (l, out), s')"
  shows "if pm_SchemaVersion pm = [] then t_schemas (s_tx s) = []
    else \<exists>sc. find_schema (pm_SchemaVersion pm) (s_tx s) = Some sc \<and>
      (\<forall>i. pm_Input pm = InputCreate i \<longrightarrow>
        (\<exists>tx am. out = CreatedTransaction tx am \<and>
          (\<forall>p \<in> set (tx_Postings tx). \<forall>address \<in> {p_Source p, p_Destination p}.
             \<exists>a. FindAccountSchema (c_compile c) (schema_chart sc) address = Inr a)) \<and>
        (sd_Transactions sc \<noteq> [] \<longrightarrow> ci_Template i \<noteq> [] \<and> map_of (sd_Transactions sc) (ci_Template i) \<noteq> None))"
proof -
  from assms(3) obtain schema s1 s2 where r: "lookup_schema c pm s = (Inr schema, s1)"
    "handler c pm schema (pm_Input pm) s1 = (Inr out, s2)" "validate_log c pm schema out = Inr ()"
    by (auto simp: runLog_def action_simps)
  show ?thesis
  proof (cases "pm_SchemaVersion pm = []")
    case True
    from r(1) True assms(1,2) have "latest_schema (t_schemas (s_tx s)) = None"
      by (auto simp: lookup_schema_def action_simps fromStore_Inr FindLatestSchemaVersion_def split: option.splits)
    then show ?thesis using True by (cases "t_schemas (s_tx s)") (auto split: option.splits if_splits)
  next
    case False
    from r(1) False obtain sc where sc: "schema = Some sc" "find_schema (pm_SchemaVersion pm) (s_tx s) = Some sc"
      by (auto simp: lookup_schema_def action_simps split: option.splits)
    from r(3) assms(1) have v: "ValidateWithSchema (c_compile c) out sc = Inr ()"
      by (auto simp: validate_log_def sc(1) raise_def panic_def split: sum.splits failure.splits)
    have chart: "\<exists>tx am. out = CreatedTransaction tx am \<and> (\<forall>p \<in> set (tx_Postings tx).
        \<forall>address \<in> {p_Source p, p_Destination p}. \<exists>a. FindAccountSchema (c_compile c) (schema_chart sc) address = Inr a)"
      if i: "pm_Input pm = InputCreate i" for i
    proof -
      obtain tx am where out: "out = CreatedTransaction tx am"
        using handler_type [OF r(2)] i by (cases out) simp_all
      have "ValidatePosting (c_compile c) (schema_chart sc) p = Inr ()" if "p \<in> set (tx_Postings tx)" for p
        using v that by (simp add: out postings_match_all list_all_iff)
      then show ?thesis by (auto simp: out ValidatePosting_def bindr_eq_Inr)
    qed
    have "ci_Template i \<noteq> [] \<and> map_of (sd_Transactions sc) (ci_Template i) \<noteq> None"
      if i: "pm_Input pm = InputCreate i" "sd_Transactions sc \<noteq> []" for i
    proof -
      from r(2) i(1) obtain script where "select_script c pm i (Some sc) = Inr script"
        by (auto simp: createTransaction_def run_script_def action_simps sc(1))
      with i(2) assms(1) show ?thesis
        by (auto simp: select_script_def Let_def raise_def split: if_splits option.splits)
    qed
    with False sc(2) chart show ?thesis by simp
  qed
qed

definition sample_schema :: schema where
  "sample_schema = \<lparr>sd_Chart = Some [(''world'', ChartSegment None [] (Some \<lparr>ca_Metadata = None\<rparr>)),
     (''bank'', ChartSegment None [] (Some \<lparr>ca_Metadata = None\<rparr>))],
     sd_Transactions = [(''deposit'', \<lparr>tt_Description = [], tt_Script = ''send'', tt_Runtime = []\<rparr>)],
     sd_Queries = [], sc_Version = ''v1'', sc_CreatedAt = 1\<rparr>"

definition schema_parameters :: "string \<Rightarrow> parameters" where
  "schema_parameters template = \<lparr>pm_DryRun = False, pm_SchemaVersion = ''v1'', pm_IdempotencyKey = [],
     pm_Input = InputCreate (sample_input\<lparr>ci_Template := template\<rparr>)\<rparr>"

definition schema_session :: session where
  "schema_session = BeginTX (empty_tables\<lparr>t_schemas := [sample_schema]\<rparr>) 1 1 100 None"

lemma schema_runs:
  "\<exists>l out s. runLog sample_controller (schema_parameters ''deposit'') schema_session = (Inr (l, out), s)"
proof -
  have "case runLog sample_controller (schema_parameters ''deposit'') schema_session of
      (Inr (l, out), _) \<Rightarrow> True | _ \<Rightarrow> False" by code_simp
  then show ?thesis by (auto split: prod.splits sum.splits)
qed

theorem strict_schemas_are_enforced_witness:
  "\<exists>l tx am s. runLog sample_controller (schema_parameters ''deposit'') schema_session =
       (Inr (l, CreatedTransaction tx am), s) \<and>
     find_schema ''v1'' (s_tx schema_session) = Some sample_schema \<and>
     (\<forall>p \<in> set (tx_Postings tx). \<exists>a. FindAccountSchema (\<lambda>_. None) (schema_chart sample_schema) (p_Destination p) = Inr a) \<and>
     map_of (sd_Transactions sample_schema) ''deposit'' \<noteq> None"
proof -
  from schema_runs obtain l out s where
    r: "runLog sample_controller (schema_parameters ''deposit'') schema_session = (Inr (l, out), s)" by blast
  have p: "c_strict sample_controller" "NeedsSchema (output_type (pm_Input (schema_parameters ''deposit'')))"
    "find_schema ''v1'' (s_tx schema_session) = Some sample_schema" "sd_Transactions sample_schema \<noteq> []"
    "c_compile sample_controller = (\<lambda>_. None)"
    by (simp_all add: sample_controller_def schema_parameters_def schema_session_def BeginTX_def
        find_schema_def sample_schema_def)
  from strict_schemas_are_enforced [OF p(1,2) r] p(3-5) r show ?thesis
    by (auto simp: schema_parameters_def)
qed

text \<open>The chart is looked at: another runtime's postings to an account that is not in it are refused.\<close>

lemma strict_schemas_refuse:
  "\<exists>e s. runLog (sample_controller\<lparr>c_parser := (\<lambda>_. Inr (\<lambda>_. returnS \<lparr>er_Postings =
       [NewPosting ''world'' ''shop'' ''USD'' (Some 10)], er_Metadata = [], er_AccountMetadata = []\<rparr>))\<rparr>)
     (schema_parameters ''deposit'') schema_session = (raise (SchemaValidationError ''v1'' e), s)"
proof -
  have "case runLog (sample_controller\<lparr>c_parser := (\<lambda>_. Inr (\<lambda>_. returnS \<lparr>er_Postings =
       [NewPosting ''world'' ''shop'' ''USD'' (Some 10)], er_Metadata = [], er_AccountMetadata = []\<rparr>))\<rparr>)
     (schema_parameters ''deposit'') schema_session of
      (Inl (Raised (SchemaValidationError v e)), _) \<Rightarrow> v = ''v1'' | _ \<Rightarrow> False" by code_simp
  then show ?thesis by (auto simp: raise_def split: prod.splits sum.splits failure.splits ctl_error.splits)
qed

end
