(* ===== verification/Revert_Claims.thy ===== *)
theory Revert_Claims
  imports Controller_Claims
begin

text \<open>
  The end of the loop that forges a log, and the safety of reverts: the postings go back, no
  account but the world's is left below zero unless the revert is forced, and a transaction is
  reverted once.
\<close>

section \<open>The loop ends\<close>

lemma runTx_quiet:
  assumes "parsers_ok c" "at_fault a = None" "runTx c pm a w = (Inl (Raised e), w')"
  shows "\<not> ctl_deadlock e"
proof -
  let ?s = "begin_attempt a w"
  obtain r s where r: "runLog c pm ?s = (r, s)" by (cases "runLog c pm ?s")
  have "s_fault ?s = None" using assms(2) by (simp add: begin_attempt_def BeginTX_def)
  from quietD [OF runLog_facts(3) [OF assms(1)] this r]
  have q: "s_fault s = None" "\<And>e. r = Inl (Raised e) \<Longrightarrow> \<not> ctl_deadlock e" by auto
  show ?thesis
  proof (cases r)
    case (Inl x)
    with assms(3) q r show ?thesis by (simp add: runTx_def settle_attempt_def)
  next
    case (Inr out)
    obtain v s1 where v: "fromStore Commit s = (v, s1)" by (cases "fromStore Commit s")
    from quietD [OF quiet_fromStore [OF quiet_commit(5)] q(1) v] assms(3) r Inr v show ?thesis
      by (auto simp: runTx_def settle_attempt_def split: if_splits sum.splits)
  qed
qed

lemma forgeLogRetry_step:
  "(\<exists>r. forgeLogRetry c pm (a # schedule) w = Some r) \<or>
   (\<exists>w1. runTx c pm a w = (Inl (Raised (StoreError DeadlockDetected)), w1) \<and>
      forgeLogRetry c pm (a # schedule) w = forgeLogRetry c pm schedule w1)"
proof -
  obtain r w1 where r: "runTx c pm a w = (r, w1)" by (cases "runTx c pm a w")
  show ?thesis
  proof (cases r)
    case (Inr p)
    with r show ?thesis by (cases p) simp
  next
    case (Inl e)
    with r show ?thesis by (cases e rule: retried.cases) (auto split: sum.splits option.splits)
  qed
qed

lemma forgeLogRetry_ends:
  assumes "parsers_ok c" "a \<in> set schedule" "at_fault a = None"
  shows "\<exists>r. forgeLogRetry c pm schedule w = Some r"
  using assms(2)
proof (induction schedule arbitrary: w)
  case (Cons b schedule)
  from forgeLogRetry_step [of c pm b schedule w] show ?case
  proof (elim disjE exE conjE)
    fix w1 assume t: "runTx c pm b w = (Inl (Raised (StoreError DeadlockDetected)), w1)"
      and e: "forgeLogRetry c pm (b # schedule) w = forgeLogRetry c pm schedule w1"
    have "b \<noteq> a" using runTx_quiet [OF assms(1) _ t] assms(3) by (auto simp: ctl_deadlock_def)
    with Cons show ?case unfolding e by simp
  qed blast
qed simp

lemma forgeLog_ends:
  assumes "parsers_ok c" "a \<in> set (tl schedule)" "at_fault a = None"
  shows "\<exists>x. forgeLog c pm schedule w = Some x"
proof -
  from assms(2) obtain b rest where s: "schedule = b # rest" "a \<in> set rest" by (cases schedule) auto
  have "\<exists>r. forgeLogRetry c pm rest w = Some r" for w by (rule forgeLogRetry_ends [OF assms(1) s(2) assms(3)])
  then show ?thesis by (auto simp: s(1) Let_def split: sum.splits option.splits prod.splits)
qed

text \<open>
  Claim C9. An operation ends as soon as one attempt after the first runs without a failing
  statement: only a reported deadlock makes it try again, and without one nothing in an operation
  reports a deadlock.
\<close>

theorem operations_end:
  assumes "parsers_ok c" "a \<in> set (tl schedule)" "at_fault a = None"
  shows "\<exists>x w'. forgeLog c pm schedule w = Some (x, w')"
  using forgeLog_ends [OF assms] by auto

definition busy_schedule :: "attempt list" where
  "busy_schedule = [sample_attempt 100 (Some (2, DeadlockDetected)), sample_attempt 101 (Some (0, DeadlockDetected)),
     sample_attempt 102 None]"

theorem operations_end_witness:
  "\<exists>x w'. forgeLog sample_controller (sample_parameters False) busy_schedule sample_world = Some (x, w')"
  by (rule operations_end [OF sample_parsers_ok, of "sample_attempt 102 None"])
    (simp_all add: busy_schedule_def sample_attempt_def)

section \<open>Reverts\<close>

lemma queried_destinations:
  "queried (InvolvedDestinations tx) a c \<longleftrightarrow> (\<exists>p \<in> set (tx_Postings tx). p_Destination p = a \<and> p_Asset p = c)"
  using sort_compact_spec by (auto simp: queried_def InvolvedDestinations_spec)

lemma nget_map_of: "nget m a c = Some x \<Longrightarrow> map_of m a \<noteq> None"
  by (auto simp: nget_def inner_def split: option.splits)

lemma settle_spec:
  assumes "settle ps m = (Inr m' :: ('e, _) result)" "nkeys m"
  shows "nkeys m' \<and> (\<forall>a c x. nget m a c = Some x \<longrightarrow> nget m' a c = Some (x + received a c ps - sent a c ps))"
  using assms
proof (induction ps arbitrary: m)
  case (Cons p ps)
  from Cons.prems(1) obtain n x where n: "p_Amount p = Some n" "nget m (p_Source p) (p_Asset p) = Some x"
    by (auto simp: panic_def split: option.splits)
  let ?m = "nput (p_Source p) (p_Asset p) (x - n) m"
  have "amt p = n" by (simp add: amt_def n)
  have k: "nkeys ?m" using Cons.prems(2) by simp
  show ?case
  proof (cases "map_of ?m (p_Destination p)")
    case None
    with Cons.prems(1) n have s: "settle ps ?m = (Inr m' :: ('e, _) result)" by (simp add: Let_def)
    have d: "a \<noteq> p_Destination p" if "nget ?m a c = Some y" for a c y
      using nget_map_of [OF that] None by auto
    show ?thesis
    proof (intro conjI allI impI)
      show "nkeys m'" using Cons.IH [OF s k] by blast
      fix a c y assume y: "nget m a c = Some y"
      let ?z = "if a = p_Source p \<and> c = p_Asset p then x - n else y"
      have z: "nget ?m a c = Some ?z" using y by auto
      from Cons.IH [OF s k] z have "nget m' a c = Some (?z + received a c ps - sent a c ps)" by blast
      with d [OF z] y n \<open>amt p = n\<close> show "nget m' a c = Some (y + received a c (p # ps) - sent a c (p # ps))"
        by (auto split: if_splits)
    qed
  next
    case (Some v)
    with Cons.prems(1) n obtain w where w: "nget ?m (p_Destination p) (p_Asset p) = Some w"
      and s: "settle ps (nput (p_Destination p) (p_Asset p) (w + n) ?m) = (Inr m' :: ('e, _) result)"
      by (auto simp: Let_def panic_def split: option.splits)
    let ?n = "nput (p_Destination p) (p_Asset p) (w + n) ?m"
    from k have k: "nkeys ?n" by simp
    show ?thesis
    proof (intro conjI allI impI)
      show "nkeys m'" using Cons.IH [OF s k] by blast
      fix a c y assume y: "nget m a c = Some y"
      let ?z = "y - (if p_Source p = a \<and> p_Asset p = c then n else 0) +
        (if p_Destination p = a \<and> p_Asset p = c then n else 0)"
      have z: "nget ?n a c = Some ?z" using y w n(2) by (auto split: if_splits)
      from Cons.IH [OF s k] z have "nget m' a c = Some (?z + received a c ps - sent a c ps)" by blast
      then show "nget m' a c = Some (y + received a c (p # ps) - sent a c (p # ps))"
        using \<open>amt p = n\<close> by simp
    qed
  qed
qed simp

lemma check_funds_Inr:
  assumes "check_funds ps m = Inr ()" "nkeys m" "nget m a c = Some x" "a \<noteq> ''world''"
  shows "0 \<le> x + received a c ps - sent a c ps"
proof -
  from assms(1) obtain b where b: "settle ps m = (Inr b :: (ctl_error, _) result)"
    "(case overdrawn b of None \<Rightarrow> Inr () | Some (a, c, x) \<Rightarrow> raise (InsufficientFund a c)) = Inr ()"
    unfolding check_funds_def bindr_eq_Inr by blast
  from b(2) have o: "overdrawn b = None" by (auto simp: raise_def split: option.splits)
  from settle_spec [OF b(1) assms(2)] assms(3) have "nkeys b" "nget b a c = Some (x + received a c ps - sent a c ps)"
    by auto
  then have "(a, c, x + received a c ps - sent a c ps) \<in> set (entries b)" by (simp add: entries_nget)
  with o assms(4) show ?thesis by (force simp: overdrawn_def find_None_iff)
qed

lemma updateTx_Inr:
  assumes "updateTxWithRetrieve i cnd u s = (Inr (r, modified), s')"
  shows "s_now s' = s_now s" "t_volumes (s_tx s') = t_volumes (s_tx s)"
    "\<exists>r0. find (\<lambda>r. tx_ID r = Some i) (t_transactions (s_tx s)) = Some r0 \<and> modified = cnd r0 \<and>
      r = (if modified then u (s_now s) r0 else r0) \<and>
      t_transactions (s_tx s') = (if modified
        then map (\<lambda>r. if tx_ID r = Some i then u (s_now s) r else r) (t_transactions (s_tx s))
        else t_transactions (s_tx s))"
proof -
  from assms obtain s1 where s1: "statement s = (Inr (), s1)"
    and u: "s_now s' = s_now s1" "t_volumes (s_tx s') = t_volumes (s_tx s1)"
    "\<exists>r0. find (\<lambda>r. tx_ID r = Some i) (t_transactions (s_tx s1)) = Some r0 \<and> modified = cnd r0 \<and>
      r = (if modified then u (s_now s1) r0 else r0) \<and>
      t_transactions (s_tx s') = (if modified
        then map (\<lambda>r. if tx_ID r = Some i then u (s_now s1) r else r) (t_transactions (s_tx s1))
        else t_transactions (s_tx s1))"
    by (auto simp: updateTxWithRetrieve_def action_simps split: option.splits if_splits)
  from statement_keeps [OF s1] have "s_tx s1 = s_tx s" "s_now s1 = s_now s" by simp_all
  note u = u [unfolded this]
  show "s_now s' = s_now s" "t_volumes (s_tx s') = t_volumes (s_tx s)" by (rule u(1), rule u(2))
  show "\<exists>r0. find (\<lambda>r. tx_ID r = Some i) (t_transactions (s_tx s)) = Some r0 \<and> modified = cnd r0 \<and>
      r = (if modified then u (s_now s) r0 else r0) \<and>
      t_transactions (s_tx s') = (if modified
        then map (\<lambda>r. if tx_ID r = Some i then u (s_now s) r else r) (t_transactions (s_tx s))
        else t_transactions (s_tx s))" by (rule u(3))
qed

lemma reversal_postings: "tx_Postings (reversal input original) = Postings_Reverse (tx_Postings original)"
  by (simp add: reversal_def Transaction_Reverse_def WithPostings_def NewTransaction_def)

lemma revertTransaction_Inr:
  assumes "revertTransaction c input s = (Inr out, s')"
  obtains original s1 s2 tx where
    "Store_RevertTransaction (ri_TransactionID input) zero_time s = (Inr (original, True), s1)"
    "Store_GetBalances (InvolvedDestinations original) s1 = (Inr (read_balances (s_tx s1) (InvolvedDestinations original)), s2)"
    "ri_Force input \<or> check_funds (Postings_Reverse (tx_Postings original))
       (read_balances (s_tx s1) (InvolvedDestinations original)) = Inr ()"
    "CommitTransaction (c_features c) (reversal input original) s2 = (Inr tx, s')"
    "out = RevertedTransaction original tx"
proof -
  from assms obtain original b s1 bs s2 tx where r:
    "Store_RevertTransaction (ri_TransactionID input) zero_time s = (Inr (original, b), s1)" "b"
    "Store_GetBalances (InvolvedDestinations original) s1 = (Inr bs, s2)"
    "ri_Force input \<or> check_funds (tx_Postings (reversal input original)) bs = Inr ()"
    "CommitTransaction (c_features c) (reversal input original) s2 = (Inr tx, s')"
    "out = RevertedTransaction original tx"
    by (auto simp: revertTransaction_def action_simps Let_def split: if_splits prod.splits)
  with GetBalances_Inr(1) [OF r(3)] that show ?thesis by (simp add: reversal_postings)
qed

text \<open>
  Claim C7. A revert transfers the money of the transaction's postings back, from each destination
  to its source; unless it is forced, it leaves no account but the world's that had received money
  below zero in the asset it had received.
\<close>

theorem reverts_leave_nobody_overdrawn:
  assumes "revertTransaction c input s = (Inr out, s')"
  shows "\<exists>original tx. out = RevertedTransaction original tx \<and>
    table_balance (s_tx s') = fold transfer (Postings_Reverse (tx_Postings original)) (table_balance (s_tx s)) \<and>
    (\<forall>p \<in> set (tx_Postings original). \<not> ri_Force input \<longrightarrow> p_Destination p \<noteq> ''world'' \<longrightarrow>
       0 \<le> table_balance (s_tx s') (p_Destination p) (p_Asset p))"
proof -
  from assms obtain original s1 s2 tx where
    r: "Store_RevertTransaction (ri_TransactionID input) zero_time s = (Inr (original, True), s1)"
    and g: "Store_GetBalances (InvolvedDestinations original) s1 =
       (Inr (read_balances (s_tx s1) (InvolvedDestinations original)), s2)"
    and f: "ri_Force input \<or> check_funds (Postings_Reverse (tx_Postings original))
       (read_balances (s_tx s1) (InvolvedDestinations original)) = Inr ()"
    and m: "CommitTransaction (c_features c) (reversal input original) s2 = (Inr tx, s')"
    and out: "out = RevertedTransaction original tx"
    by (rule revertTransaction_Inr)
  have b1: "table_balance (s_tx s1) a b = table_balance (s_tx s) a b" for a b
    using updateTx_Inr(2) [OF r [unfolded Store_RevertTransaction_def]] by (simp add: table_balance_def)
  have "table_balance (s_tx s2) a b = table_balance (s_tx s1) a b" for a b
    by (simp add: GetBalances_Inr(3) [OF g] table_balance_vol vol_at_zero_rows)
  with b1 committed_balance [OF CommitTransaction_Inr(1) [OF m]]
  have bal: "table_balance (s_tx s') a b = table_balance (s_tx s1) a b +
      received a b (Postings_Reverse (tx_Postings original)) - sent a b (Postings_Reverse (tx_Postings original))" for a b
    by (simp add: reversal_postings)
  have "0 \<le> table_balance (s_tx s') (p_Destination p) (p_Asset p)"
    if p: "p \<in> set (tx_Postings original)" "\<not> ri_Force input" "p_Destination p \<noteq> ''world''" for p
  proof -
    from p(1) have "queried (InvolvedDestinations original) (p_Destination p) (p_Asset p)"
      by (auto simp: queried_destinations)
    then have "nget (read_balances (s_tx s1) (InvolvedDestinations original)) (p_Destination p) (p_Asset p) =
        Some (table_balance (s_tx s1) (p_Destination p) (p_Asset p))" by (simp add: read_balances_facts)
    from check_funds_Inr [OF _ read_balances_facts(1) this p(3)] f p(2) bal show ?thesis by simp
  qed
  with out bal b1 show ?thesis by (intro exI [of _ original] exI [of _ tx]) (auto simp: fun_eq_iff fold_transfer)
qed

definition sample_committed :: session where
  "sample_committed = snd (CommitTransaction all_features sample_tx sample_session)"

definition sample_revert :: revert_input where
  "sample_revert = \<lparr>ri_Force = False, ri_AtEffectiveDate = False, ri_TransactionID = 1, ri_Metadata = []\<rparr>"

lemma ended_well:
  assumes "case y of (Inr x, s) \<Rightarrow> P s | _ \<Rightarrow> False"
  shows "\<exists>x s. y = (Inr x, s) \<and> P s"
  using assms by (auto split: prod.splits sum.splits)

lemma sample_reverts:
  "\<exists>x s. revertTransaction sample_controller sample_revert sample_committed = (Inr x, s) \<and>
     table_balance (s_tx s) ''bank'' ''USD'' = 0 \<and> s_fault s = None"
  by (rule ended_well) code_simp

theorem reverts_leave_nobody_overdrawn_witness:
  "\<exists>original tx s. revertTransaction sample_controller sample_revert sample_committed =
     (Inr (RevertedTransaction original tx), s) \<and>
   table_balance (s_tx s) = fold transfer (Postings_Reverse (tx_Postings original)) (table_balance (s_tx sample_committed))"
proof -
  from sample_reverts obtain x s where r: "revertTransaction sample_controller sample_revert sample_committed = (Inr x, s)"
    by blast
  from reverts_leave_nobody_overdrawn [OF r] r show ?thesis by blast
qed

lemma find_map_updated:
  "find (\<lambda>r. tx_ID r = Some i) rows = Some r0 \<Longrightarrow> tx_ID (f r0) = Some i \<Longrightarrow>
   find (\<lambda>r. tx_ID r = Some i) (map (\<lambda>r. if tx_ID r = Some i then f r else r) rows @ more_rows) = Some (f r0)"
  by (induction rows) (auto split: if_splits)

text \<open>A transaction that brings USD to an account and takes EUR from it.\<close>

definition exchange :: transaction where
  "exchange = WithPostings [NewPosting ''world'' ''desk'' ''USD'' (Some 10),
     NewPosting ''desk'' ''client'' ''EUR'' (Some 9)] NewTransaction"

text \<open>
  A committed transaction that brings one asset to an account and takes another from it
  cannot be reverted without force: the balances read are those of the assets received, and
  adding to the missing one panics.
\<close>

lemma reverts_of_exchanges_panic:
  "\<exists>tx s. CommitTransaction all_features exchange sample_session = (Inr tx, s) \<and> tx_ID tx = Some 1 \<and>
     fst (revertTransaction sample_controller sample_revert s) = panic"
proof -
  have "case CommitTransaction all_features exchange sample_session of
      (Inr tx, s) \<Rightarrow> tx_ID tx = Some 1 \<and> (case revertTransaction sample_controller sample_revert s of
        (Inl Panic, _) \<Rightarrow> True | _ \<Rightarrow> False) | _ \<Rightarrow> False"
    by code_simp
  then show ?thesis by (auto simp: panic_def split: prod.splits sum.splits failure.splits)
qed

end
