(* ===== verification/Revert_Once.thy ===== *)
theory Revert_Once
  imports Revert_Claims
begin

text \<open>
  A transaction is reverted once: no operation of a ledger takes the mark of a revert back, so that after one
  that was committed, and any operations after it, no revert of the same transaction is ever logged again.
\<close>

section \<open>The mark of a revert\<close>

definition reverted :: "nat \<Rightarrow> tables \<Rightarrow> bool" where
  "reverted i t \<longleftrightarrow> (\<exists>r. find (\<lambda>r. tx_ID r = Some i) (t_transactions t) = Some r \<and> tx_RevertedAt r \<noteq> None)"

lemma reverted_cong: "t_transactions t' = t_transactions t \<Longrightarrow> reverted i t' = reverted i t"
  by (simp add: reverted_def)

lemma reverted_without_accounts [simp]: "reverted i (without_accounts t) = reverted i t"
  by (simp add: reverted_def without_accounts_def)

text \<open>An action that leaves the mark of a transaction, whether it fails or not.\<close>

definition stays_reverted :: "nat \<Rightarrow> ('e, 'a) action \<Rightarrow> bool" where
  "stays_reverted i m \<longleftrightarrow> (\<forall>s. reverted i (s_tx s) \<longrightarrow> reverted i (s_tx (snd (m s))))"

named_theorems stays_intro "actions that leave the mark of a revert"

lemma staysD: "stays_reverted i m \<Longrightarrow> reverted i (s_tx s) \<Longrightarrow> m s = (r, s') \<Longrightarrow> reverted i (s_tx s')"
  by (metis stays_reverted_def snd_conv)

abbreviation tx_rows :: "session \<Rightarrow> transaction list" where
  "tx_rows s \<equiv> t_transactions (s_tx s)"

lemma stays_kept: "keeps tx_rows m \<Longrightarrow> stays_reverted i m"
  by (simp add: stays_reverted_def reverted_def keeps_def)

lemma stays_bind [stays_intro]:
  assumes "stays_reverted i m" "\<And>x. stays_reverted i (f x)"
  shows "stays_reverted i (bindS m f)"
  unfolding stays_reverted_def
proof (intro allI impI)
  fix s :: session
  assume s: "reverted i (s_tx s)"
  obtain r s1 where m: "m s = (r, s1)" by (cases "m s")
  note q = staysD [OF assms(1) s m]
  show "reverted i (s_tx (snd (bindS m f s)))"
  proof (cases r)
    case (Inl e)
    with q m show ?thesis by (simp add: bindS_def)
  next
    case (Inr x)
    with q m assms(2) [of x] show ?thesis by (simp add: bindS_def stays_reverted_def)
  qed
qed

lemma stays_simple [stays_intro]:
  "stays_reverted i (returnS x)" "stays_reverted i (raiseS e)" "stays_reverted i panicS" "stays_reverted i (getS h)"
  "stays_reverted i (liftS r)"
  by (rule stays_kept, rule keeps_simple)+

lemma stays_store [stays_intro]: "stays_reverted i (failS e)" "stays_reverted i statement"
  by (auto simp: stays_reverted_def failS_def statement_def split: option.splits prod.splits nat.splits)

lemma stays_if [stays_intro]:
  "(b \<Longrightarrow> stays_reverted i m) \<Longrightarrow> (\<not> b \<Longrightarrow> stays_reverted i n) \<Longrightarrow> stays_reverted i (if b then m else n)"
  by simp

lemma stays_option [stays_intro]:
  "stays_reverted i m \<Longrightarrow> (\<And>x. stays_reverted i (f x)) \<Longrightarrow> stays_reverted i (case v of None \<Rightarrow> m | Some x \<Rightarrow> f x)"
  by (cases v) auto

lemma stays_prod [stays_intro]: "(\<And>x y. stays_reverted i (f x y)) \<Longrightarrow> stays_reverted i (case p of (x, y) \<Rightarrow> f x y)"
  by (cases p) auto

lemma stays_Let [stays_intro]: "stays_reverted i (f x) \<Longrightarrow> stays_reverted i (let y = x in f y)"
  by simp

lemma stays_modify: "(\<And>s. tx_rows (h s) = tx_rows s) \<Longrightarrow> stays_reverted i (modifyS h)"
  by (rule stays_kept) (rule keeps_modify)

lemma stays_fromStore [stays_intro]: "stays_reverted i m \<Longrightarrow> stays_reverted i (fromStore m)"
  by (auto simp: stays_reverted_def fromStore_def split: prod.splits)

lemma stays_mapErr [stays_intro]: "stays_reverted i m \<Longrightarrow> stays_reverted i (mapErr h m)"
  by (auto simp: stays_reverted_def mapErr_def split: prod.splits)

section \<open>The store\<close>

lemma find_updated:
  "find (\<lambda>r. tx_ID r = Some i) rows = Some r \<Longrightarrow> (\<And>r. tx_ID (u r) = tx_ID r) \<Longrightarrow>
   find (\<lambda>r. tx_ID r = Some i) (map (\<lambda>r. if tx_ID r = Some j then u r else r) rows) =
     Some (if i = j then u r else r)"
  by (induction rows) (auto split: if_splits)

lemma stays_update:
  assumes "\<And>now r. tx_ID (u now r) = tx_ID r" "\<And>now r. tx_RevertedAt r \<noteq> None \<Longrightarrow> tx_RevertedAt (u now r) \<noteq> None"
  shows "stays_reverted i (updateTxWithRetrieve j cnd u)"
proof -
  have u: "reverted i (s_tx (snd (modifyS (\<lambda>s. s\<lparr>s_tx := (s_tx s)\<lparr>t_transactions :=
      map (\<lambda>r. if tx_ID r = Some j then u now r else r) rows\<rparr>\<rparr>) s)))" if marked: "reverted i (s_tx s)" "rows = tx_rows s" for now rows s
  proof -
    obtain r where r: "find (\<lambda>r. tx_ID r = Some i) rows = Some r" "tx_RevertedAt r \<noteq> None"
      using marked by (auto simp: reverted_def)
    have "tx_RevertedAt (if i = j then u now r else r) \<noteq> None" using assms(2) r(2) by simp
    then show ?thesis using find_updated [where u = "u now" and j = j, OF r(1) assms(1)] by (simp add: modifyS_def reverted_def)
  qed
  show ?thesis
    unfolding stays_reverted_def
  proof (intro allI impI)
    fix s :: session
    assume s: "reverted i (s_tx s)"
    obtain v s1 where v: "statement s = (v, s1)" by (cases "statement s")
    have s1: "reverted i (s_tx s1)" by (rule staysD [OF stays_store(2) s v])
    show "reverted i (s_tx (snd (updateTxWithRetrieve j cnd u s)))"
      using s1 u [OF s1 refl]
      by (cases v) (auto simp: updateTxWithRetrieve_def bindS_def v getS_def returnS_def raiseS_def failS_def modifyS_def
        split: option.splits)
  qed
qed

lemma stays_insert_row: "stays_reverted i (insert_row tx j)"
proof -
  have "find P (rows @ xs) = Some r" if "find P rows = Some r" for P :: "transaction \<Rightarrow> bool" and rows xs r
    using that by (induction rows) auto
  then show ?thesis
    by (auto simp: stays_reverted_def insert_row_def bindS_def getS_def returnS_def failS_def panicS_def modifyS_def
      Let_def reverted_def split: option.splits)
qed

lemma stays_tables [stays_intro]:
  "stays_reverted i (UpdateVolumes us)" "stays_reverted i (Store_GetBalances q)" "stays_reverted i (InsertTransaction tx)"
  "stays_reverted i (InsertMoves f ms)" "stays_reverted i (UpsertAccounts b ds)"
  "stays_reverted i (Store_DeleteAccountMetadata a k)" "stays_reverted i (InsertLog sha f l)"
  "stays_reverted i (Store_InsertSchema sc)" "stays_reverted i FindLatestSchemaVersion"
  unfolding UpdateVolumes_def Store_GetBalances_def InsertTransaction_def InsertMoves_def next_tx_id_def UpsertAccounts_def
    Store_DeleteAccountMetadata_def InsertLog_def insert_log_row_def next_log_id_def Store_InsertSchema_def
    FindLatestSchemaVersion_def
  by (intro stays_intro stays_insert_row stays_modify; simp add: Let_def)+

lemma stays_transactions [stays_intro]:
  "stays_reverted i (Store_RevertTransaction j d)" "stays_reverted i (Store_UpdateTransactionMetadata j m d)"
  "stays_reverted i (Store_DeleteTransactionMetadata j k d)" "stays_reverted i (CommitTransaction f tx)"
  unfolding Store_RevertTransaction_def Store_UpdateTransactionMetadata_def Store_DeleteTransactionMetadata_def
    CommitTransaction_def commit_moves_def
  by (intro stays_intro stays_update; simp)+

section \<open>The operations\<close>

text \<open>The runtimes read the ledger: they do not write transactions. The virtual machine does not.\<close>

definition runtimes_read :: "controller \<Rightarrow> bool" where
  "runtimes_read c \<longleftrightarrow> (\<forall>rt plain m vars. getParser c rt plain = Inr m \<longrightarrow> keeps tx_rows (m vars))"

lemma machine_reads: "keeps tx_rows (MachineExecute p vars)"
proof -
  have "keeps tx_rows (Store_GetBalances q)" for q
    unfolding Store_GetBalances_def
    by (intro keeps_intro keeps_modify)
      (auto simp: keeps_def failS_def statement_def split: option.splits prod.splits nat.splits)
  then show ?thesis unfolding MachineExecute_def by (intro keeps_intro)
qed

lemma stays_script: "runtimes_read c \<Longrightarrow> stays_reverted i (run_script c pm input schema)"
proof -
  assume c: "runtimes_read c"
  have "stays_reverted i (bindS (liftS (getParser c rt plain)) (\<lambda>m. m vars))" for rt plain vars
    using c by (cases "getParser c rt plain")
      (auto simp: runtimes_read_def bindS_def liftS_def stays_reverted_def keeps_def reverted_def)
  then show ?thesis
    unfolding run_script_def by (intro stays_bind [OF stays_simple(5)]) (simp add: split_paired_all)
qed

lemma stays_handlers:
  "stays_reverted i (record_result c input schema r)" "stays_reverted i (revertTransaction c ri)"
  "stays_reverted i (saveTransactionMetadata j m)" "stays_reverted i (saveAccountMetadata c a m schema)"
  "stays_reverted i (deleteTransactionMetadata j k)" "stays_reverted i (deleteAccountMetadata a k)"
  "stays_reverted i (insertSchema c v d)"
  unfolding record_result_def upsertTransactionAccounts_def revertTransaction_def saveTransactionMetadata_def
    saveAccountMetadata_def deleteTransactionMetadata_def deleteAccountMetadata_def insertSchema_def
  by (intro stays_intro)+

lemma stays_handler: "runtimes_read c \<Longrightarrow> stays_reverted i (handler c pm schema input)"
  by (cases input) (simp_all add: createTransaction_def stays_handlers stays_bind stays_script)

lemma stays_lookup: "stays_reverted i (lookup_schema c pm)"
  unfolding lookup_schema_def by (intro stays_intro)

lemma stays_insert_log: "stays_reverted i (insert_new_log c l)"
  unfolding insert_new_log_def by (intro stays_intro)

lemma stays_runLog: "runtimes_read c \<Longrightarrow> stays_reverted i (runLog c pm)"
  unfolding runLog_def by (intro stays_intro stays_lookup stays_handler stays_insert_log)

text \<open>A revert that ends well found no mark, and leaves one.\<close>

lemma Store_RevertTransaction_marks:
  assumes "Store_RevertTransaction i d s = (Inr (original, True), s')"
  shows "\<not> reverted i (s_tx s) \<and> reverted i (s_tx s')"
proof -
  let ?u = "\<lambda>r. r\<lparr>tx_RevertedAt := Some (or_default d (s_now s)), tx_UpdatedAt := or_default d (s_now s)\<rparr>"
  obtain r0 where r0: "find (\<lambda>r. tx_ID r = Some i) (t_transactions (s_tx s)) = Some r0" "tx_RevertedAt r0 = None"
    "t_transactions (s_tx s') = map (\<lambda>r. if tx_ID r = Some i then ?u r else r) (t_transactions (s_tx s))"
    using updateTx_Inr(3) [OF assms [unfolded Store_RevertTransaction_def]] by auto
  then show ?thesis using find_updated [OF r0(1), of ?u i] by (simp add: reverted_def)
qed

lemma runLog_revert:
  assumes "runLog c pm s = (Inr out, s')" "pm_Input pm = InputRevert input" "runtimes_read c"
  shows "\<not> reverted (ri_TransactionID input) (s_tx s) \<and> reverted (ri_TransactionID input) (s_tx s')"
proof -
  let ?i = "ri_TransactionID input"
  obtain schema s1 payload s2 l where r: "lookup_schema c pm s = (Inr schema, s1)"
    "revertTransaction c input s1 = (Inr payload, s2)" "insert_new_log c (new_log c pm payload) s2 = (Inr l, s')"
    using assms(1,2) by (auto simp: runLog_def action_simps)
  obtain original s3 s4 tx where m: "Store_RevertTransaction ?i zero_time s1 = (Inr (original, True), s3)"
    "Store_GetBalances (InvolvedDestinations original) s3 =
       (Inr (read_balances (s_tx s3) (InvolvedDestinations original)), s4)"
    "CommitTransaction (c_features c) (reversal input original) s4 = (Inr tx, s2)"
    using r(2) by (rule revertTransaction_Inr)
  note marks = Store_RevertTransaction_marks [OF m(1)]
  have "\<not> reverted ?i (s_tx s)" using staysD [OF stays_lookup _ r(1)] marks by blast
  moreover have "reverted ?i (s_tx s4)" using staysD [OF stays_tables(2) _ m(2)] marks by blast
  then have "reverted ?i (s_tx s2)" by (rule staysD [OF stays_transactions(4) _ m(3)])
  then have "reverted ?i (s_tx s')" by (rule staysD [OF stays_insert_log _ r(3)])
  ultimately show ?thesis ..
qed

section \<open>Attempts\<close>

definition others_keep_reverted :: "nat \<Rightarrow> attempt list \<Rightarrow> bool" where
  "others_keep_reverted i schedule \<longleftrightarrow> (\<forall>a \<in> set schedule. \<forall>t. reverted i t \<longrightarrow> reverted i (at_others a t))"

lemma ended_tables: "w_tables (end_attempt a s) = at_others a (s_base s)"
  by (simp add: end_attempt_def)

lemma reverted_core: "base_core s' = base_core s \<Longrightarrow> reverted i (s_base s') = reverted i (s_base s)"
  using reverted_without_accounts by (metis base_core_def without_accounts_def)

lemma begun_tables [simp]: "s_tx (begin_attempt a w) = w_tables w" "s_base (begin_attempt a w) = w_tables w"
  by (simp_all add: begin_attempt_def BeginTX_def)

text \<open>What an SQL transaction leaves: of a marked transaction the mark, and the mark of the one it reverted.\<close>

lemma runTx_reverted:
  assumes "parsers_ok c" "runtimes_read c" "\<forall>t. reverted i t \<longrightarrow> reverted i (at_others a t)" "runTx c pm a w = (r, w')"
  shows "reverted i (w_tables w) \<Longrightarrow> reverted i (w_tables w')"
    and "reverted i (w_tables w) \<Longrightarrow> pm_Input pm = InputRevert input \<Longrightarrow> ri_TransactionID input = i \<Longrightarrow> \<exists>e. r = Inl e"
    and "pm_Input pm = InputRevert input \<Longrightarrow> ri_TransactionID input = i \<Longrightarrow> r = Inr out \<Longrightarrow> \<not> pm_DryRun pm \<Longrightarrow>
      reverted i (w_tables w')"
proof -
  obtain q s where q: "runLog c pm (begin_attempt a w) = (q, s)" by fastforce
  obtain r' s1 where t: "settle_attempt pm q s = (r', s1)" by fastforce
  have r: "r = r'" "w' = end_attempt a s1" using assms(4) q t by (simp_all add: runTx_def)
  have base: "base_core s = base_core (begin_attempt a w)" using keepsD [OF runLog_facts(1) [OF assms(1)] q] .
  have marked: "reverted i (s_tx s)" if "reverted i (w_tables w)"
    using staysD [OF stays_runLog [OF assms(2)] _ q] that by simp
  note settled = settle_attempt_cases [OF t]
  show keep: "reverted i (w_tables w')" if w: "reverted i (w_tables w)"
  proof -
    have "reverted i (s_base s)" using w reverted_core [OF base] by simp
    moreover have "reverted i (s_base s1)" if "(\<exists>e. r' = Inl e) \<or> pm_DryRun pm"
      using settled(1) [OF that] reverted_core calculation by blast
    moreover have "reverted i (s_base s1)" if "r' = Inr out" for out
      using settled(2) [OF that] marked [OF w] calculation(1) by (auto split: if_splits)
    ultimately have "reverted i (s_base s1)" by (cases r') auto
    then show ?thesis using assms(3) by (simp add: r(2) ended_tables)
  qed
  have ended: "q = Inr out" if "r = Inr out" for out using that settled(2) r(1) by simp
  show "\<exists>e. r = Inl e" if w: "reverted i (w_tables w)" and input: "pm_Input pm = InputRevert input" "ri_TransactionID input = i"
  proof (cases r)
    case (Inr out)
    then show ?thesis using runLog_revert [OF _ input(1) assms(2)] q ended w input(2) by fastforce
  qed simp
  show "reverted i (w_tables w')"
    if input: "pm_Input pm = InputRevert input" "ri_TransactionID input = i" and out: "r = Inr out" "\<not> pm_DryRun pm"
  proof -
    have "reverted i (s_tx s)" using runLog_revert [OF _ input(1) assms(2)] q ended [OF out(1)] input(2) by blast
    moreover have "s_base s1 = s_tx s" using settled(2) out r(1) by simp
    ultimately show ?thesis using assms(3) by (simp add: r(2) ended_tables)
  qed
qed

section \<open>Operations\<close>

lemma others_keep_reverted_Cons [simp]:
  "others_keep_reverted i (a # schedule) \<longleftrightarrow>
     (\<forall>t. reverted i t \<longrightarrow> reverted i (at_others a t)) \<and> others_keep_reverted i schedule"
  by (simp add: others_keep_reverted_def)

lemma forgeLogRetry_reverted:
  assumes "parsers_ok c" "runtimes_read c"
  shows "others_keep_reverted i schedule \<Longrightarrow> forgeLogRetry c pm schedule w = Some (x, w') \<Longrightarrow>
    (reverted i (w_tables w) \<longrightarrow> reverted i (w_tables w')) \<and>
    (pm_Input pm = InputRevert input \<and> ri_TransactionID input = i \<and> x = Inr (l, out, False) \<longrightarrow>
      \<not> reverted i (w_tables w) \<and> (\<not> pm_DryRun pm \<longrightarrow> reverted i (w_tables w')))"
proof (induction schedule arbitrary: w)
  case (Cons a schedule)
  obtain r w1 where r: "runTx c pm a w = (r, w1)" by fastforce
  have others: "\<forall>t. reverted i t \<longrightarrow> reverted i (at_others a t)" using Cons.prems(1) by simp
  note tx = runTx_reverted [OF assms others r]
  show ?case
  proof (cases r)
    case (Inr v)
    then have "w' = w1" "x = Inr (fst v, snd v, False)" using Cons.prems(2) r by (auto split: prod.splits)
    then show ?thesis using tx Inr by (metis Inl_Inr_False)
  next
    case (Inl e)
    show ?thesis
    proof (cases "e = Raised (StoreError DeadlockDetected)")
      case True
      then have "forgeLogRetry c pm schedule w1 = Some (x, w')" using Cons.prems(2) r Inl by simp
      then show ?thesis using Cons.IH [of w1] Cons.prems(1) tx(1) by auto
    next
      case False
      then have "w' = w1 \<and> (\<forall>l out. x \<noteq> Inr (l, out, False))"
        using Cons.prems(2) r Inl by (cases e rule: retried.cases) (auto simp: panic_def split: sum.splits option.splits)
      then show ?thesis using tx(1) by blast
    qed
  qed
qed simp

lemma forgeLog_reverted:
  assumes "parsers_ok c" "runtimes_read c" "others_keep_reverted i schedule" "forgeLog c pm schedule w = Some (x, w')"
  shows "(reverted i (w_tables w) \<longrightarrow> reverted i (w_tables w')) \<and>
    (pm_Input pm = InputRevert input \<and> ri_TransactionID input = i \<and> x = Inr (l, out, False) \<longrightarrow>
      \<not> reverted i (w_tables w) \<and> (\<not> pm_DryRun pm \<longrightarrow> reverted i (w_tables w')))"
proof -
  obtain a rest where s: "schedule = a # rest" using assms(4) by (cases schedule) auto
  have others: "\<forall>t. reverted i t \<longrightarrow> reverted i (at_others a t)" "others_keep_reverted i rest"
    using assms(3) by (simp_all add: s)
  from assms(4) [unfolded s] show ?thesis
  proof (cases rule: forgeLog_cases)
    case answered
    then show ?thesis using others(1) by simp
  next
    case (retry e w1)
    show ?thesis
      using runTx_reverted(1) [OF assms(1,2) others(1) retry(1)]
        forgeLogRetry_reverted [OF assms(1,2) others(2) retry(2), of input l out] by blast
  next
    case (final r)
    note tx = runTx_reverted [OF assms(1,2) others(1) final(1)]
    show ?thesis
    proof (cases r)
      case (Inl e)
      then show ?thesis using tx(1) final(2) by (cases e rule: retried.cases) auto
    next
      case (Inr v)
      then show ?thesis using tx by (metis Inl_Inr_False)
    qed
  qed
qed

text \<open>A sequence of operations; \<open>None\<close> when one of them has not ended within its attempts.\<close>

fun operated :: "controller \<Rightarrow> (parameters \<times> attempt list) list \<Rightarrow> world \<Rightarrow> world option" where
  "operated c [] w = Some w"
| "operated c ((pm, schedule) # ops) w =
     (case forgeLog c pm schedule w of None \<Rightarrow> None | Some (_, w) \<Rightarrow> operated c ops w)"

lemma operated_reverted:
  assumes "parsers_ok c" "runtimes_read c"
  shows "\<forall>(pm, schedule) \<in> set ops. others_keep_reverted i schedule \<Longrightarrow> operated c ops w = Some w' \<Longrightarrow>
    reverted i (w_tables w) \<Longrightarrow> reverted i (w_tables w')"
proof (induction ops arbitrary: w)
  case (Cons op ops)
  obtain pm schedule where op: "op = (pm, schedule)" by (cases op)
  obtain x w1 where x: "forgeLog c pm schedule w = Some (x, w1)" "operated c ops w1 = Some w'"
    using Cons.prems(2) by (auto simp: op split: option.splits)
  have "reverted i (w_tables w1)" using forgeLog_reverted [OF assms _ x(1)] Cons.prems(1,3) by (auto simp: op)
  then show ?case using Cons.IH [OF _ x(2)] Cons.prems(1) by simp
qed simp

text \<open>A revert of a marked transaction, when no statement fails and no schema is asked for.\<close>

lemma revert_refused:
  assumes "reverted (ri_TransactionID input) (s_tx s)" "s_fault s = None"
  shows "revertTransaction c input s = (raise (AlreadyReverted (ri_TransactionID input)), s)"
  using assms by (auto simp: reverted_def revertTransaction_def Store_RevertTransaction_def updateTxWithRetrieve_def
    bindS_def fromStore_def statement_def getS_def returnS_def raiseS_def raise_def)

lemma forgeLog_refused:
  assumes "reverted (ri_TransactionID input) (w_tables w)" "pm_Input pm = InputRevert input" "at_fault a = None"
    "pm_IdempotencyKey pm = []" "pm_SchemaVersion pm = []" "\<not> c_strict c \<or> t_schemas (w_tables w) = []"
  shows "\<exists>w'. forgeLog c pm (a # rest) w = Some (raise (AlreadyReverted (ri_TransactionID input)), w') \<and>
    w_tables w' = at_others a (w_tables w)"
proof -
  let ?s = "begin_attempt a w"
  have tables: "s_tx ?s = w_tables w" "s_fault ?s = None" "s_base ?s = w_tables w"
    using assms(3) by (simp_all add: begin_attempt_def BeginTX_def)
  have "lookup_schema c pm ?s = (Inr None, ?s)"
    using assms(2,5,6) by (auto simp: lookup_schema_def FindLatestSchemaVersion_def fromStore_def bindS_def getS_def
      returnS_def tables split: option.splits)
  then have "runLog c pm ?s = (raise (AlreadyReverted (ri_TransactionID input)), ?s)"
    using revert_refused [of input ?s c] assms(1,2) by (simp add: runLog_def bindS_def tables raise_def)
  then show ?thesis using assms(4) by (simp add: Let_def raise_def end_attempt_def Rollback_def modifyS_def tables)
qed

text \<open>
  Claim C36. A transaction is reverted once: after a revert of it was committed and whatever operations after that,
  however they ended, no other revert of the same transaction succeeds, forced or not, dry run or not, whatever
  statement of it fails and however often it is tried, unless it is answered from the log of its idempotency key.
  It fails because the transaction is already reverted, and writes nothing, when no statement fails, it has no
  idempotency key, names no schema and is not refused for the want of one. The runtimes do not write transactions
  and the other sessions do not take the mark of the revert back.
\<close>

theorem a_transaction_is_reverted_once:
  assumes "parsers_ok c" "runtimes_read c" "pm_Input pm = InputRevert input" "\<not> pm_DryRun pm"
    and "forgeLog c pm schedule w = Some (Inr (l, out, False), w1)" "operated c ops w1 = Some w2"
    and "pm_Input pm2 = InputRevert input2" "ri_TransactionID input2 = ri_TransactionID input"
    and "forgeLog c pm2 (a # rest) w2 = Some (x, w3)"
    and "\<forall>attempts \<in> {schedule, a # rest} \<union> snd ` set ops. others_keep_reverted (ri_TransactionID input) attempts"
  shows "(\<forall>l2 out2 hit. x = Inr (l2, out2, hit) \<longrightarrow> hit) \<and>
    (at_fault a = None \<and> pm_IdempotencyKey pm2 = [] \<and> pm_SchemaVersion pm2 = [] \<and>
       (\<not> c_strict c \<or> t_schemas (w_tables w2) = []) \<longrightarrow>
     x = raise (AlreadyReverted (ri_TransactionID input)) \<and> w_tables w3 = at_others a (w_tables w2))"
proof -
  have "reverted (ri_TransactionID input) (w_tables w1)"
    using forgeLog_reverted [OF assms(1,2) _ assms(5)] assms(3,4,10) by blast
  then have marked: "reverted (ri_TransactionID input) (w_tables w2)"
    using operated_reverted [OF assms(1,2) _ assms(6)] assms(10) by fastforce
  have "hit" if "x = Inr (l2, out2, hit)" for l2 out2 hit
    using forgeLog_reverted [OF assms(1,2) _ assms(9)] marked assms(7,8,10) that by (cases hit) blast+
  then show ?thesis using forgeLog_refused [of input2 w2 pm2 a c rest] marked assms(7-9) by auto
qed

text \<open>A deposit is made and reverted, another one is made, and the first cannot be reverted again by force.\<close>

lemma sample_runtimes_read: "runtimes_read sample_controller"
  by (auto simp: runtimes_read_def getParser_def sample_controller_def sample_runtime_def intro!: keeps_intro
    split: if_splits)

definition revert_parameters :: "bool \<Rightarrow> parameters" where
  "revert_parameters force = \<lparr>pm_DryRun = False, pm_SchemaVersion = [], pm_IdempotencyKey = [],
     pm_Input = InputRevert (sample_revert\<lparr>ri_Force := force\<rparr>)\<rparr>"

definition other_parameters :: parameters where
  "other_parameters = (sample_parameters False)\<lparr>pm_IdempotencyKey := ''other''\<rparr>"

lemma sample_reverts_once:
  "\<exists>w l out w1 w2. forgeLog sample_controller (revert_parameters False) [sample_attempt 200 None] w =
       Some (Inr (l, out, False), w1) \<and>
     operated sample_controller [(other_parameters, [sample_attempt 300 None])] w1 = Some w2 \<and>
     t_schemas (w_tables w2) = [] \<and> length (t_transactions (w_tables w2)) = 3 \<and>
     (\<exists>x w3. forgeLog sample_controller (revert_parameters True) [sample_attempt 400 None] w2 = Some (x, w3))"
proof -
  have "case operated sample_controller [(sample_parameters False, [sample_attempt 100 None])] sample_world of None \<Rightarrow> False
    | Some w \<Rightarrow> (case forgeLog sample_controller (revert_parameters False) [sample_attempt 200 None] w of
        Some (Inr (l, out, False), w1) \<Rightarrow>
          (case operated sample_controller [(other_parameters, [sample_attempt 300 None])] w1 of None \<Rightarrow> False
           | Some w2 \<Rightarrow> t_schemas (w_tables w2) = [] \<and> length (t_transactions (w_tables w2)) = 3 \<and>
              forgeLog sample_controller (revert_parameters True) [sample_attempt 400 None] w2 \<noteq> None)
      | _ \<Rightarrow> False)"
    by code_simp
  then obtain w where "case forgeLog sample_controller (revert_parameters False) [sample_attempt 200 None] w of
        Some (Inr (l, out, False), w1) \<Rightarrow>
          (case operated sample_controller [(other_parameters, [sample_attempt 300 None])] w1 of None \<Rightarrow> False
           | Some w2 \<Rightarrow> t_schemas (w_tables w2) = [] \<and> length (t_transactions (w_tables w2)) = 3 \<and>
              forgeLog sample_controller (revert_parameters True) [sample_attempt 400 None] w2 \<noteq> None)
      | _ \<Rightarrow> False" by (auto split: option.splits)
  from forged_anew [OF this] obtain l out w1 where
    r: "forgeLog sample_controller (revert_parameters False) [sample_attempt 200 None] w = Some (Inr (l, out, False), w1)"
    "case operated sample_controller [(other_parameters, [sample_attempt 300 None])] w1 of None \<Rightarrow> False
     | Some w2 \<Rightarrow> t_schemas (w_tables w2) = [] \<and> length (t_transactions (w_tables w2)) = 3 \<and>
        forgeLog sample_controller (revert_parameters True) [sample_attempt 400 None] w2 \<noteq> None" by blast
  then obtain w2 where "operated sample_controller [(other_parameters, [sample_attempt 300 None])] w1 = Some w2"
    "t_schemas (w_tables w2) = []" "length (t_transactions (w_tables w2)) = 3"
    "forgeLog sample_controller (revert_parameters True) [sample_attempt 400 None] w2 \<noteq> None"
    by (cases "operated sample_controller [(other_parameters, [sample_attempt 300 None])] w1") auto
  then show ?thesis using r(1) by (metis not_None_eq surj_pair)
qed

theorem a_transaction_is_reverted_once_witness:
  "\<exists>w l out w1 w2 w3. forgeLog sample_controller (revert_parameters False) [sample_attempt 200 None] w =
       Some (Inr (l, out, False), w1) \<and>
     operated sample_controller [(other_parameters, [sample_attempt 300 None])] w1 = Some w2 \<and>
     length (t_transactions (w_tables w2)) = 3 \<and>
     forgeLog sample_controller (revert_parameters True) [sample_attempt 400 None] w2 =
       Some (raise (AlreadyReverted 1), w3) \<and> w_tables w3 = w_tables w2"
proof -
  from sample_reverts_once obtain w l out w1 w2 x w3 where
    r: "forgeLog sample_controller (revert_parameters False) [sample_attempt 200 None] w = Some (Inr (l, out, False), w1)"
    "operated sample_controller [(other_parameters, [sample_attempt 300 None])] w1 = Some w2"
    "t_schemas (w_tables w2) = []" "length (t_transactions (w_tables w2)) = 3"
    "forgeLog sample_controller (revert_parameters True) [sample_attempt 400 None] w2 = Some (x, w3)" by blast
  have input: "pm_Input (revert_parameters b) = InputRevert (sample_revert\<lparr>ri_Force := b\<rparr>)" for b
    by (simp add: revert_parameters_def)
  have others: "\<forall>attempts \<in> {[sample_attempt 200 None], [sample_attempt 400 None]} \<union>
      snd ` set [(other_parameters, [sample_attempt 300 None])].
    others_keep_reverted (ri_TransactionID (sample_revert\<lparr>ri_Force := False\<rparr>)) attempts"
    by (simp add: others_keep_reverted_def sample_attempt_def)
  have "\<not> pm_DryRun (revert_parameters False)" by (simp add: revert_parameters_def)
  from a_transaction_is_reverted_once [OF sample_parsers_ok sample_runtimes_read input this r(1,2) input _ r(5) others]
  have "x = raise (AlreadyReverted 1) \<and> w_tables w3 = w_tables w2"
    using r(3) by (simp add: revert_parameters_def sample_attempt_def sample_revert_def)
  with r show ?thesis by blast
qed

end
