(* ===== verification/Ledger_Import.thy ===== *)
theory Ledger_Import
  imports Log_Process
begin

text \<open>
  Exports and imports of logs (\<open>internal/controller/ledger/controller_default.go\<close>,
  \<open>export.go\<close>), and the facade that ties them to the state of a ledger
  (\<open>internal/controller/system/state_tracker.go\<close>): a ledger takes imports until its first
  operation, which sets the sequences after the imported ids.
\<close>

section \<open>Importing a log\<close>

definition find_log_schema :: "log \<Rightarrow> (ctl_error, schema option) action" where
  "find_log_schema l =
     (if lg_SchemaVersion l \<noteq> []
      then bindS (fromStore (FindSchema (lg_SchemaVersion l))) (\<lambda>sc. returnS (Some sc))
      else returnS None)"

text \<open>The payload of a log, applied to the store. A target of the wrong type fails its assertion.\<close>

fun import_payload :: "controller \<Rightarrow> log \<Rightarrow> log_payload \<Rightarrow> (ctl_error, unit) action" where
  "import_payload c l (InsertedSchema sc) =
     bindS (fromStore (Store_InsertSchema sc)) (\<lambda>_. returnS ())"
| "import_payload c l (CreatedTransaction tx am) =
     (if tx_ID tx = None then panicS
      else bindS (find_log_schema l) (\<lambda>schema.
           bindS (fromStore (CommitTransaction (c_features c) tx)) (\<lambda>tx.
           upsertTransactionAccounts c schema tx am)))"
| "import_payload c l (RevertedTransaction original tx) =
     (case (tx_ID original, tx_RevertedAt original) of
        (Some i, Some d) \<Rightarrow>
          bindS (fromStore (Store_RevertTransaction i d)) (\<lambda>_.
          bindS (fromStore (CommitTransaction (c_features c) tx)) (\<lambda>_. returnS ()))
      | _ \<Rightarrow> panicS)"
| "import_payload c l (SavedMetadata target_type target m) =
     (if target_type = MetaTargetTypeTransaction
      then case target of
             TargetTransaction i \<Rightarrow>
               bindS (fromStore (Store_UpdateTransactionMetadata i m (lg_Date l))) (\<lambda>_. returnS ())
           | TargetAddress _ \<Rightarrow> panicS
      else if target_type = MetaTargetTypeAccount
      then case target of
             TargetAddress a \<Rightarrow> fromStore (UpdateAccountsMetadata [(a, m)] (lg_Date l))
           | TargetTransaction _ \<Rightarrow> panicS
      else returnS ())"
| "import_payload c l (DeletedMetadata target_type target key) =
     (if target_type = MetaTargetTypeTransaction
      then case target of
             TargetTransaction i \<Rightarrow>
               bindS (fromStore (Store_DeleteTransactionMetadata i key (lg_Date l))) (\<lambda>_. returnS ())
           | TargetAddress _ \<Rightarrow> panicS
      else if target_type = MetaTargetTypeAccount
      then case target of
             TargetAddress a \<Rightarrow> fromStore (Store_DeleteAccountMetadata a key)
           | TargetTransaction _ \<Rightarrow> panicS
      else returnS ())"

text \<open>The hash the insertion computed is compared with the one the log came with.\<close>

definition check_hash :: "controller \<Rightarrow> log \<Rightarrow> nat \<Rightarrow> log \<Rightarrow> (ctl_error, unit) action" where
  "check_hash c l i row =
     (if HashLogs (c_features c) \<and> lg_Hash row \<noteq> lg_Hash l
      then raiseS (InvalidHash i (lg_Hash l) (lg_Hash row)) else returnS ())"

definition importLog :: "controller \<Rightarrow> log \<Rightarrow> (ctl_error, unit) action" where
  "importLog c l =
     bindS (import_payload c l (lg_Data l)) (\<lambda>_.
       case lg_ID l of
         None \<Rightarrow> panicS
       | Some i \<Rightarrow> bindS (fromStore (InsertLog (c_sha256 c) (c_features c) l)) (check_hash c l i))"

section \<open>Importing a stream\<close>

text \<open>Each log is imported in an SQL transaction of its own.\<close>

definition import_error :: "ctl_error failure \<Rightarrow> ctl_error failure" where
  "import_error e =
     (case e of
        Raised (StoreError SerializationFailure) \<Rightarrow> Raised (ImportError ''concurrent transaction'')
      | Raised (StoreError (ConcurrentTransaction _)) \<Rightarrow> Raised (ImportError ''concurrent transaction'')
      | _ \<Rightarrow> e)"

definition import_tx :: "controller \<Rightarrow> log \<Rightarrow> attempt \<Rightarrow> world \<Rightarrow> (ctl_error, unit) result \<times> world" where
  "import_tx c l a w =
     (case importLog c l (begin_attempt a w) of
        (Inl e, s) \<Rightarrow> (Inl (import_error e), end_attempt a (snd (Rollback s)))
      | (Inr _, s) \<Rightarrow> (case fromStore Commit s of (r, s) \<Rightarrow> (r, end_attempt a s)))"

fun import_loop ::
    "controller \<Rightarrow> nat option \<Rightarrow> (log \<times> attempt) list \<Rightarrow> world \<Rightarrow> (ctl_error, unit) result \<times> world" where
  "import_loop c lastLogID [] w = (Inr (), w)"
| "import_loop c lastLogID ((l, a) # stream) w =
     (case (lastLogID, lg_ID l) of
        (Some _, None) \<Rightarrow> (panic, w)
      | (Some i, Some j) \<Rightarrow>
          if j \<le> i then (raise (ImportError ''log already exists''), w)
          else (case import_tx c l a w of
                  (Inl e, w) \<Rightarrow> (Inl e, w)
                | (Inr _, w) \<Rightarrow> import_loop c (lg_ID l) stream w)
      | (None, _) \<Rightarrow>
          (case import_tx c l a w of
             (Inl e, w) \<Rightarrow> (Inl e, w)
           | (Inr _, w) \<Rightarrow> import_loop c (lg_ID l) stream w))"

text \<open>The log with the greatest id: the first of the first page, in the default order.\<close>

definition row_id :: "log \<Rightarrow> nat" where
  "row_id l = (case lg_ID l of None \<Rightarrow> 0 | Some i \<Rightarrow> i)"

definition last_log_id :: "tables \<Rightarrow> nat option" where
  "last_log_id t = (if t_logs t = [] then None else Some (fold max (map row_id (t_logs t)) 0))"

definition Import :: "controller \<Rightarrow> (log \<times> attempt) list \<Rightarrow> world \<Rightarrow> (ctl_error, unit) result \<times> world" where
  "Import c stream w = import_loop c (last_log_id (w_tables w)) stream w"

section \<open>Exporting\<close>

text \<open>The logs in the order of their ids, until the writer fails.\<close>

fun write_logs :: "(log \<Rightarrow> 'e option) \<Rightarrow> log list \<Rightarrow> log list \<times> ('e, unit) result" where
  "write_logs wr [] = ([], Inr ())"
| "write_logs wr (l # ls) =
     (case wr l of
        Some e \<Rightarrow> ([], raise e)
      | None \<Rightarrow> (case write_logs wr ls of (out, r) \<Rightarrow> (l # out, r)))"

definition Export :: "(log \<Rightarrow> 'e option) \<Rightarrow> tables \<Rightarrow> log list \<times> ('e, unit) result" where
  "Export wr t = write_logs wr (sort_key row_id (t_logs t))"

section \<open>The state of a ledger\<close>

datatype ledger_state = StateInitializing | StateInUse

text \<open>
  The facade keeps a copy of the ledger, read when it was made; \<open>fc_state\<close> is the row of the
  system store.
\<close>

record facade =
  fc_cached :: ledger_state
  fc_state :: ledger_state
  fc_world :: world

text \<open>\<open>setval\<close> of the greatest id, so that the next one follows it; null changes nothing.\<close>

definition after_ids :: "nat list \<Rightarrow> nat \<Rightarrow> nat" where
  "after_ids ids next_id = (if ids = [] then next_id else fold max ids 0 + 1)"

definition set_sequences :: "world \<Rightarrow> world" where
  "set_sequences w = w\<lparr>
     w_txSeq := after_ids (map (\<lambda>r. case tx_ID r of None \<Rightarrow> 0 | Some i \<Rightarrow> i) (t_transactions (w_tables w))) (w_txSeq w),
     w_logSeq := after_ids (map row_id (t_logs (w_tables w))) (w_logSeq w)\<rparr>"

text \<open>
  \<open>handleState\<close>, for an operation \<open>f\<close>. In the outer SQL transaction the operation's own ones are
  savepoints, so a rollback takes back the tables but not the sequences.
\<close>

definition handleState ::
    "bool \<Rightarrow> (world \<Rightarrow> (forged \<times> world) option) \<Rightarrow> facade \<Rightarrow> (forged \<times> facade) option" where
  "handleState dryRun f fc =
     (if fc_cached fc = StateInUse
      then map_option (\<lambda>(r, w). (r, fc\<lparr>fc_world := w\<rparr>)) (f (fc_world fc))
      else
        (let w = (if fc_state fc = StateInitializing then set_sequences (fc_world fc) else fc_world fc) in
         map_option (\<lambda>(r, w').
             case r of
               Inl e \<Rightarrow> (r, fc\<lparr>fc_world := w'\<lparr>w_tables := w_tables w\<rparr>\<rparr>)
             | Inr _ \<Rightarrow>
                 if dryRun then (r, fc\<lparr>fc_world := w'\<lparr>w_tables := w_tables w\<rparr>\<rparr>)
                 else (r, fc\<lparr>fc_cached := StateInUse, fc_state := StateInUse, fc_world := w'\<rparr>))
           (f w)))"

definition facade_forge ::
    "controller \<Rightarrow> parameters \<Rightarrow> attempt list \<Rightarrow> facade \<Rightarrow> (forged \<times> facade) option" where
  "facade_forge c pm schedule fc =
     handleState (pm_DryRun pm) (forgeLog (c\<lparr>c_pooled := fc_cached fc = StateInUse\<rparr>) pm schedule) fc"

text \<open>The facade's import reads the ledger again, into its copy.\<close>

definition facade_Import ::
    "controller \<Rightarrow> (log \<times> attempt) list \<Rightarrow> facade \<Rightarrow> (ctl_error, unit) result \<times> facade" where
  "facade_Import c stream fc =
     (let fc = fc\<lparr>fc_cached := fc_state fc\<rparr> in
      if fc_cached fc \<noteq> StateInitializing
      then (raise (ImportError ''ledger is not in initializing state''), fc)
      else case Import (c\<lparr>c_pooled := False\<rparr>) stream (fc_world fc) of (r, w) \<Rightarrow> (r, fc\<lparr>fc_world := w\<rparr>))"

end
