(* ===== verification/Log_Replay.thy ===== *)
theory Log_Replay
  imports Ledger_Import Controller_Safe
begin

text \<open>
  Replaying a log does again what the operation that wrote it did: on tables that differ in the
  accounts and in rows of zero volumes only, the import of the log succeeds and leaves the same
  transactions, moves, volumes, logs and schemas.
\<close>

section \<open>Tables that differ in accounts only\<close>

definition same_tables :: "tables \<Rightarrow> tables \<Rightarrow> bool" where
  "same_tables t t' \<longleftrightarrow> t_transactions t' = t_transactions t \<and> t_moves t' = t_moves t \<and>
     t_logs t' = t_logs t \<and> t_schemas t' = t_schemas t \<and>
     (\<forall>a c. vol_at (t_volumes t') a c = vol_at (t_volumes t) a c)"

lemma same_refl [simp]: "same_tables t t"
  by (simp add: same_tables_def)

lemma same_sym: "same_tables t t' \<Longrightarrow> same_tables t' t"
  by (simp add: same_tables_def)

lemma same_trans: "same_tables t t1 \<Longrightarrow> same_tables t1 t2 \<Longrightarrow> same_tables t t2"
  by (simp add: same_tables_def)

lemma same_accounts [simp]:
  "same_tables t (t'\<lparr>t_accounts := as\<rparr>) = same_tables t t'" "same_tables (t\<lparr>t_accounts := as\<rparr>) t' = same_tables t t'"
  by (simp_all add: same_tables_def)

lemma same_without_accounts:
  "without_accounts t' = without_accounts t \<Longrightarrow> same_tables t t'"
  by (metis same_accounts(1,2) same_refl without_accounts_def)

lemma same_zero_rows: "same_tables t (t\<lparr>t_volumes := fold zero_row ks (t_volumes t)\<rparr>)"
  by (simp add: same_tables_def vol_at_zero_rows)

definition healthy :: "session \<Rightarrow> bool" where
  "healthy s \<longleftrightarrow> s_fault s = None \<and> \<not> s_aborted s"

definition sim :: "session \<Rightarrow> session \<Rightarrow> bool" where
  "sim s t \<longleftrightarrow> same_tables (s_tx s) (s_tx t) \<and> healthy t"

lemma healthy_statement: "healthy t \<Longrightarrow> statement t = (Inr (), t)"
  by (simp add: healthy_def statement_def)

section \<open>The operations of the store\<close>

lemma UpdateVolumes_replay:
  assumes "UpdateVolumes us s = (Inr pcv, s')" "transaction_updates ps us" "sim s t"
  shows "\<exists>t'. UpdateVolumes us t = (Inr pcv, t') \<and> sim s' t' \<and> s_now t' = s_now t"
proof -
  from assms(1) obtain s1 where s1: "statement s = (Inr (), s1)" "us \<noteq> []" "distinct (map av_key us)"
    "s' = s1\<lparr>s_tx := (s_tx s1)\<lparr>t_volumes := fold upsert_volume us (t_volumes (s_tx s1))\<rparr>\<rparr>"
    "pcv = returned_volumes us (t_volumes (s_tx s'))"
    by (auto simp: UpdateVolumes_def action_simps split: if_splits)
  from statement_keeps [OF s1(1)] have e: "s_tx s1 = s_tx s" by simp
  let ?t = "t\<lparr>s_tx := (s_tx t)\<lparr>t_volumes := fold upsert_volume us (t_volumes (s_tx t))\<rparr>\<rparr>"
  have v: "vol_at (t_volumes (s_tx t)) a c = vol_at (t_volumes (s_tx s)) a c" for a c
    using assms(3) by (simp add: sim_def same_tables_def)
  have at_us: "nget (fold upsert_volume us (t_volumes (s_tx t))) (av_Account u) (av_Asset u) =
      nget (fold upsert_volume us (t_volumes (s_tx s))) (av_Account u) (av_Asset u)" if "u \<in> set us" for u
    using nget_fold_upsert [OF s1(3) that] v by (simp add: av_key_def)
  have "returned_volumes us (fold upsert_volume us (t_volumes (s_tx t))) = pcv"
    unfolding s1(5) returned_volumes_def by (rule List.fold_cong) (simp_all add: s1(4) e at_us)
  then have r: "UpdateVolumes us t = (Inr pcv, ?t)"
    using assms(3) s1(2,3)
    by (simp add: UpdateVolumes_def healthy_statement sim_def bindS_def modifyS_def getS_def)
  have "vol_at (fold upsert_volume us m) a c =
      (if involved ps a c then plus_postings ps a c (vol_at m a c) else vol_at m a c)" for m a c
    unfolding vol_at_def upserted_volumes [OF assms(2)] by simp
  with v have "same_tables (s_tx s') (s_tx ?t)"
    using assms(3) by (simp add: s1(4) e sim_def same_tables_def)
  with r assms(3) show ?thesis by (intro exI [of _ ?t]) (simp add: sim_def healthy_def)
qed

lemma InsertTransaction_replay:
  assumes "InsertTransaction tx s = (Inr row, s')" "tx_ID tx = None" "s_now s \<noteq> zero_time" "sim s t"
    and "tx2 = row\<lparr>tx_PostCommitEffectiveVolumes := v\<rparr>"
  shows "\<exists>t'. InsertTransaction tx2 t = (Inr tx2, t') \<and> sim s' t' \<and> s_now t' = s_now t"
proof -
  from InsertTransaction_Inr [OF assms(1)] obtain i where
    row: "row = (stamp (s_now s) tx)\<lparr>tx_ID := Some i\<rparr>" "fresh_row (s_tx s) (stored row)"
    "s_tx s' = (s_tx s)\<lparr>t_transactions := t_transactions (s_tx s) @ [stored row]\<rparr>" by blast
  have d: "tx_ID tx2 = Some i" "stored tx2 = stored row" "tx_Reference tx2 = tx_Reference row"
    "tx_Timestamp tx2 \<noteq> zero_time" "tx_InsertedAt tx2 \<noteq> zero_time" "tx_UpdatedAt tx2 \<noteq> zero_time"
    using assms(3) by (simp_all add: assms(5) row(1) stored_def stamp_def Let_def or_default_def)
  have st: "(stamp n tx2)\<lparr>tx_ID := Some i\<rparr> = tx2" for n
    using d by (simp add: stamp_def Let_def or_default_def)
  have rows: "t_transactions (s_tx t) = t_transactions (s_tx s)" using assms(4) by (simp add: sim_def same_tables_def)
  have fresh: "\<not> list_ex (\<lambda>r. tx_ID r = Some i) (t_transactions (s_tx t))"
    "\<not> (tx_Reference tx2 \<noteq> [] \<and> list_ex (\<lambda>r. tx_Reference r = tx_Reference tx2) (t_transactions (s_tx t)))"
    using row(2) d(3) by (auto simp: fresh_row_def rows list_ex_iff row(1))
  let ?t = "t\<lparr>s_tx := (s_tx t)\<lparr>t_transactions := t_transactions (s_tx t) @ [stored tx2]\<rparr>\<rparr>"
  have "insert_row tx2 i t = (Inr tx2, ?t)"
    using fresh by (simp add: insert_row_def bindS_def getS_def modifyS_def returnS_def st Let_def)
  then have "InsertTransaction tx2 t = (Inr tx2, ?t)"
    using assms(4) by (simp add: InsertTransaction_def healthy_statement sim_def next_tx_id_def d(1)
        bindS_def returnS_def)
  moreover have "sim s' ?t"
    using assms(4) by (simp add: sim_def healthy_def same_tables_def row(3) d(2))
  ultimately show ?thesis by (intro exI [of _ ?t]) simp
qed

lemma InsertMoves_replay:
  assumes "InsertMoves f ms s = (Inr new, s')" "sim s t"
  shows "\<exists>t'. InsertMoves f ms t = (Inr new, t') \<and> sim s' t' \<and> s_now t' = s_now t"
proof -
  define ins where "ins rows = (if EffectiveVolumes f
    then (let (rows', new) = insert_rows rows ms [] in (fold update_effective_volumes new rows', new))
    else (rows @ ms, ms))" for rows
  have I: "InsertMoves f ms = (if ms = [] then failS (SqlFailure ''empty slice'')
      else bindS statement (\<lambda>_. bindS (getS (\<lambda>s. t_moves (s_tx s))) (\<lambda>rows.
        let (rows', new) = ins rows in
        bindS (modifyS (\<lambda>s. s\<lparr>s_tx := (s_tx s)\<lparr>t_moves := rows'\<rparr>\<rparr>)) (\<lambda>_. returnS new))))"
    unfolding InsertMoves_def ins_def ..
  from assms(1) obtain s1 where s1: "statement s = (Inr (), s1)" "ms \<noteq> []"
    "new = snd (ins (t_moves (s_tx s1)))" "s' = s1\<lparr>s_tx := (s_tx s1)\<lparr>t_moves := fst (ins (t_moves (s_tx s1)))\<rparr>\<rparr>"
    unfolding I by (auto simp: action_simps Let_def case_prod_beta split: if_splits)
  from statement_keeps [OF s1(1)] have e: "s_tx s1 = s_tx s" by simp
  have m: "t_moves (s_tx t) = t_moves (s_tx s)" using assms(2) by (simp add: sim_def same_tables_def)
  let ?t = "t\<lparr>s_tx := (s_tx t)\<lparr>t_moves := fst (ins (t_moves (s_tx t)))\<rparr>\<rparr>"
  have "InsertMoves f ms t = (Inr new, ?t)"
    using assms(2) s1(2) unfolding I
    by (simp add: healthy_statement sim_def bindS_def getS_def modifyS_def returnS_def s1(3) e m case_prod_beta Let_def)
  moreover have "sim s' ?t"
    using assms(2) by (simp add: sim_def healthy_def same_tables_def s1(4) e m)
  ultimately show ?thesis by (intro exI [of _ ?t]) simp
qed


lemma ComputeEffective_only: "commit_moves f pcv tx s = (Inr tx', s') \<Longrightarrow> \<exists>v. tx' = tx\<lparr>tx_PostCommitEffectiveVolumes := v\<rparr>"
  using commit_moves_Inr by blast

lemma commit_moves_replay:
  assumes "commit_moves f pcv row s = (Inr tx', s')" "sim s t" "tx_ID row = Some i"
    and "tx2 = row\<lparr>tx_PostCommitEffectiveVolumes := v\<rparr>" "\<not> MovesHistory f \<or> \<not> EffectiveVolumes f \<Longrightarrow> v = tx_PostCommitEffectiveVolumes row"
  shows "\<exists>t'. commit_moves f pcv tx2 t = (Inr tx', t') \<and> sim s' t' \<and> s_now t' = s_now t"
proof (cases "MovesHistory f")
  case False
  with assms show ?thesis by (auto simp: commit_moves_def returnS_def)
next
  case True
  from assms(1,3) True obtain ms new s1 where ms: "transaction_moves row i pcv = (Inr ms :: (store_error, _) result)"
    "InsertMoves f ms s = (Inr new, s1)" "s' = s1"
    "if EffectiveVolumes f then (\<exists>e. fst (ComputePostCommitEffectiveVolumes new) = (Inr e :: (store_error, _) result) \<and>
        tx' = row\<lparr>tx_PostCommitEffectiveVolumes := e\<rparr>) else tx' = row"
    by (auto simp: commit_moves_def action_simps split: if_splits)
  from InsertMoves_replay [OF ms(2) assms(2)] obtain t' where
    t: "InsertMoves f ms t = (Inr new, t')" "sim s' t'" "s_now t' = s_now t" by (auto simp: ms(3))
  have b: "build_moves tx2 i ps m = (build_moves row i ps m :: (store_error, _) result)" for ps m
  proof (induction ps arbitrary: m)
    case (Cons p ps)
    have "new_move tx2 i b q n w = new_move row i b q n w" for b q n w by (simp add: new_move_def assms(4))
    with Cons.IH show ?case by (simp only: build_moves.simps)
  qed simp
  have "transaction_moves tx2 i pcv = (Inr ms :: (store_error, _) result)"
    using ms(1) by (simp add: transaction_moves_def b) (simp add: assms(4))
  then have "commit_moves f pcv tx2 t = (Inr tx', t')"
    using True t(1) ms(4) assms(3,5)
    by (auto simp: commit_moves_def bindS_def liftS_def returnS_def assms(4) split: if_splits)
  with t show ?thesis by blast
qed

text \<open>Committing a transaction that was committed before, with the id and the dates it was given.\<close>

lemma CommitTransaction_replay:
  assumes "CommitTransaction f tx s = (Inr tx', s')" "tx_ID tx = None" "tx_PostCommitEffectiveVolumes tx = []"
    and "s_now s \<noteq> zero_time" "sim s t"
  shows "\<exists>t'. CommitTransaction f tx' t = (Inr tx', t') \<and> sim s' t' \<and> s_now t' = s_now t"
proof -
  from assms(1) obtain us pcv s1 row s2 where us: "VolumeUpdates tx = (Inr us :: (store_error, _) result)"
    and u: "UpdateVolumes us s = (Inr pcv, s1)"
    and i: "InsertTransaction (tx\<lparr>tx_PostCommitVolumes := pcv\<rparr>) s1 = (Inr row, s2)"
    and m: "commit_moves f pcv row s2 = (Inr tx', s')"
    by (auto simp: CommitTransaction_def action_simps)
  have am: "list_all has_amount (tx_Postings tx)" by (rule VolumeUpdates_amounts [OF us])
  from VolumeUpdates_updates [OF am] us have tu: "transaction_updates (tx_Postings tx) us"
    by (metis sum.inject(2))
  from UpdateVolumes_replay [OF u tu assms(5)] obtain t1 where
    t1: "UpdateVolumes us t = (Inr pcv, t1)" "sim s1 t1" "s_now t1 = s_now t" by blast
  have now: "s_now s1 \<noteq> zero_time" using UpdateVolumes_Inr(3) [OF u tu] assms(4) by simp
  from InsertTransaction_Inr [OF i] obtain j where row: "row = (stamp (s_now s1) (tx\<lparr>tx_PostCommitVolumes := pcv\<rparr>))\<lparr>tx_ID := Some j\<rparr>"
    by blast
  have r: "tx_ID row = Some j" "tx_PostCommitVolumes row = pcv" "tx_PostCommitEffectiveVolumes row = []"
    "tx_Postings row = tx_Postings tx"
    using assms(3) by (simp_all add: row stamp_def Let_def)
  from ComputeEffective_only [OF m] obtain v where v: "tx' = row\<lparr>tx_PostCommitEffectiveVolumes := v\<rparr>" by blast
  have "tx_ID (tx\<lparr>tx_PostCommitVolumes := pcv\<rparr>) = None" using assms(2) by simp
  from InsertTransaction_replay [OF i this now t1(2) v] obtain t2 where
    t2: "InsertTransaction tx' t1 = (Inr tx', t2)" "sim s2 t2" "s_now t2 = s_now t1" by blast
  have "v = tx_PostCommitEffectiveVolumes row" if "\<not> MovesHistory f \<or> \<not> EffectiveVolumes f"
  proof -
    from m r(1) that have "tx' = row" by (auto simp: commit_moves_def action_simps split: if_splits)
    with arg_cong [OF v, of tx_PostCommitEffectiveVolumes] show ?thesis by simp
  qed
  from commit_moves_replay [OF m t2(2) r(1) v this] obtain t' where
    t': "commit_moves f pcv tx' t2 = (Inr tx', t')" "sim s' t'" "s_now t' = s_now t2" by blast
  have "tx'\<lparr>tx_PostCommitVolumes := pcv\<rparr> = tx'" using r(2) by (simp add: v)
  moreover have "VolumeUpdates tx' = (Inr us :: (store_error, _) result)"
    using us r(4) by (simp add: VolumeUpdates_def v)
  ultimately have "CommitTransaction f tx' t = (Inr tx', t')"
    by (simp add: CommitTransaction_def bindS_def liftS_def t1(1) t2(1) t'(1))
  with t' t2(3) t1(3) show ?thesis by (intro exI [of _ t']) simp
qed

lemma updateTx_replay:
  assumes "updateTxWithRetrieve i cnd u s = (Inr (r, b), s')" "sim s t" "u (s_now s) = u2 (s_now t)"
  shows "\<exists>t'. updateTxWithRetrieve i cnd u2 t = (Inr (r, b), t') \<and> sim s' t' \<and> s_now t' = s_now t"
proof -
  let ?upd = "map (\<lambda>r. if tx_ID r = Some i then u (s_now s) r else r) (t_transactions (s_tx s))"
  from assms(1) obtain s1 r0 where s1: "statement s = (Inr (), s1)"
    and f: "find (\<lambda>r. tx_ID r = Some i) (t_transactions (s_tx s1)) = Some r0"
    and c: "if cnd r0 then b \<and> r = u (s_now s1) r0 \<and> s' = s1\<lparr>s_tx := (s_tx s1)\<lparr>t_transactions :=
         map (\<lambda>r. if tx_ID r = Some i then u (s_now s1) r else r) (t_transactions (s_tx s1))\<rparr>\<rparr>
       else \<not> b \<and> r = r0 \<and> s' = s1"
    by (auto simp: updateTxWithRetrieve_def action_simps split: option.splits if_splits)
  from statement_keeps [OF s1] have e: "s_tx s1 = s_tx s" "s_now s1 = s_now s" by simp_all
  note f = f [unfolded e] and c = c [unfolded e]
  let ?t = "if cnd r0 then t\<lparr>s_tx := (s_tx t)\<lparr>t_transactions := ?upd\<rparr>\<rparr> else t"
  have rows: "t_transactions (s_tx t) = t_transactions (s_tx s)" using assms(2) by (simp add: sim_def same_tables_def)
  have "updateTxWithRetrieve i cnd u2 t = (Inr (r, b), ?t)"
    using assms(2) f c unfolding assms(3)
    by (simp add: updateTxWithRetrieve_def sim_def healthy_statement bindS_def getS_def modifyS_def returnS_def rows
        split: if_splits)
  moreover have "sim s' ?t"
    using assms(2) c by (auto simp: sim_def healthy_def same_tables_def e split: if_splits)
  ultimately show ?thesis by (intro exI [of _ ?t]) simp
qed


section \<open>The clock and the sequence of logs\<close>

definition clock :: "session \<Rightarrow> time \<times> nat" where
  "clock s = (s_now s, s_logSeq s)"

lemma keeps_clock_basic [keeps_intro]: "keeps clock (failS e)" "keeps clock statement"
  by (auto simp: keeps_def clock_def failS_def statement_def split: option.splits prod.splits nat.splits)

lemma keeps_clock_modify [keeps_intro]: "(\<And>s. clock (h s) = clock s) \<Longrightarrow> keeps clock (modifyS h)"
  by (rule keeps_modify)

lemma store_keeps_clock [keeps_intro]:
  "keeps clock (UpdateVolumes us)" "keeps clock (Store_GetBalances q)"
  "keeps clock (InsertTransaction tx)" "keeps clock (InsertMoves f ms)"
  "keeps clock (updateTxWithRetrieve i c u)" "keeps clock (UpsertAccounts b ds)"
  "keeps clock (Store_DeleteAccountMetadata a k)" "keeps clock (Store_InsertSchema sc)"
  "keeps clock FindLatestSchemaVersion" "keeps clock (UpdateAccountsMetadata am d)"
  unfolding UpdateVolumes_def Store_GetBalances_def InsertTransaction_def insert_row_def InsertMoves_def
    next_tx_id_def updateTxWithRetrieve_def UpsertAccounts_def Store_DeleteAccountMetadata_def
    Store_InsertSchema_def FindLatestSchemaVersion_def UpdateAccountsMetadata_def
  by (intro keeps_intro; simp add: clock_def Let_def)+

lemma store_keeps_clock' [keeps_intro]:
  "keeps clock (Store_RevertTransaction i d)" "keeps clock (Store_UpdateTransactionMetadata i m d)"
  "keeps clock (Store_DeleteTransactionMetadata i k d)" "keeps clock (CommitTransaction f tx)"
  unfolding Store_RevertTransaction_def Store_UpdateTransactionMetadata_def
    Store_DeleteTransactionMetadata_def CommitTransaction_def commit_moves_def
  by (intro keeps_intro)+

text \<open>What a replay asks of a runtime: it reads, and changes no more than rows of zero volumes.\<close>

definition reads_only :: "runtime \<Rightarrow> bool" where
  "reads_only m \<longleftrightarrow> (\<forall>vars. keeps clock (m vars) \<and>
     (\<forall>s x s'. m vars s = (Inr x, s') \<longrightarrow> same_tables (s_tx s) (s_tx s')))"

definition parsers_read :: "controller \<Rightarrow> bool" where
  "parsers_read c \<longleftrightarrow> (\<forall>rt plain m. getParser c rt plain = Inr m \<longrightarrow> reads_only m)"

lemma GetBalances_same: "Store_GetBalances q s = (Inr bs, s') \<Longrightarrow> same_tables (s_tx s) (s_tx s')"
  by (simp add: GetBalances_Inr(3) same_zero_rows)

lemma MachineExecute_reads: "reads_only (MachineExecute p)"
  unfolding reads_only_def
proof (intro allI conjI impI)
  fix vars show "keeps clock (MachineExecute p vars)"
    unfolding MachineExecute_def by (intro keeps_intro)
  fix s x s' assume "MachineExecute p vars s = (Inr x, s')"
  then have "s' = s \<or> (\<exists>q bs. Store_GetBalances q s = (Inr bs, s'))"
    by (auto simp: MachineExecute_def action_simps fromStore_Inr split: if_splits)
  then show "same_tables (s_tx s) (s_tx s')" using GetBalances_same by auto
qed

lemma run_script_reads:
  assumes "parsers_read c" "run_script c pm i schema s = (Inr x, s')"
  shows "same_tables (s_tx s) (s_tx s')"
  using assms by (auto simp: run_script_def parsers_read_def reads_only_def action_simps split: prod.splits)

lemma run_script_clock: "parsers_read c \<Longrightarrow> keeps clock (run_script c pm i schema)"
  unfolding run_script_def
  by (rule keeps_bind_lift, simp only: split_paired_all prod.case, rule keeps_bind_lift)
    (auto simp: parsers_read_def reads_only_def)

lemma other_handlers_clock:
  "keeps clock (revertTransaction c ri)" "keeps clock (saveTransactionMetadata i m)"
  "keeps clock (deleteTransactionMetadata i k)" "keeps clock (deleteAccountMetadata a k)"
  "keeps clock (saveAccountMetadata c a m schema)" "keeps clock (record_result c ci schema r)"
  unfolding revertTransaction_def saveTransactionMetadata_def deleteTransactionMetadata_def
    deleteAccountMetadata_def saveAccountMetadata_def record_result_def upsertTransactionAccounts_def
  by (intro keeps_intro)+

lemma insertSchema_clock: "keeps clock (insertSchema c v d)"
  unfolding insertSchema_def by (intro keeps_intro mapErr_facts(1))

lemma handler_clock: "parsers_read c \<Longrightarrow> keeps clock (handler c pm schema i)"
  by (cases i) (simp_all add: other_handlers_clock insertSchema_clock createTransaction_def keeps_bind run_script_clock)

lemma lookup_schema_clock: "keeps clock (lookup_schema c pm)"
  unfolding lookup_schema_def by (intro keeps_intro)

section \<open>Accounts, schemas and logs\<close>

lemma accounts_same:
  "UpsertAccounts b ds s = (r, s') \<Longrightarrow> same_tables (s_tx s) (s_tx s')"
  "Store_DeleteAccountMetadata a k s = (r', s') \<Longrightarrow> same_tables (s_tx s) (s_tx s')"
  by (auto simp: UpsertAccounts_def Store_DeleteAccountMetadata_def bindS_def modifyS_def failS_def Let_def
      split: if_splits prod.splits sum.splits dest!: statement_keeps)

lemma accounts_run:
  assumes "healthy t"
  shows "ds \<noteq> [] \<Longrightarrow> \<exists>t'. UpsertAccounts b ds t = (Inr (), t') \<and> same_tables (s_tx t) (s_tx t') \<and> healthy t'"
    and "am \<noteq> [] \<Longrightarrow> \<exists>t'. UpdateAccountsMetadata am d t = (Inr (), t') \<and> same_tables (s_tx t) (s_tx t') \<and> healthy t'"
    and "\<exists>t'. Store_DeleteAccountMetadata a k t = (Inr (), t') \<and> same_tables (s_tx t) (s_tx t') \<and> healthy t'"
  using assms
  by (auto simp: UpsertAccounts_def UpdateAccountsMetadata_def Store_DeleteAccountMetadata_def bindS_def modifyS_def
      healthy_statement Let_def healthy_def)

lemma sim_move:
  "sim s t \<Longrightarrow> same_tables (s_tx s) (s_tx s') \<Longrightarrow> same_tables (s_tx t) (s_tx t') \<Longrightarrow> healthy t' \<Longrightarrow> sim s' t'"
  unfolding sim_def by (metis same_sym same_trans)

lemma sim_left: "sim s t \<Longrightarrow> same_tables (s_tx s) (s_tx s') \<Longrightarrow> sim s' t"
  unfolding sim_def by (metis same_sym same_trans)

lemma InsertSchema_replay:
  assumes "Store_InsertSchema sc s = (Inr row, s')" "s_now s \<noteq> zero_time" "sim s t"
  shows "\<exists>t'. Store_InsertSchema row t = (Inr row, t') \<and> sim s' t'"
proof -
  from assms(1) obtain s1 where s1: "statement s = (Inr (), s1)"
    "\<not> list_ex (\<lambda>r. sc_Version r = sc_Version sc) (t_schemas (s_tx s1))"
    "row = sc\<lparr>sc_CreatedAt := or_default (sc_CreatedAt sc) (s_now s1)\<rparr>"
    "s' = s1\<lparr>s_tx := (s_tx s1)\<lparr>t_schemas := t_schemas (s_tx s1) @ [row]\<rparr>\<rparr>"
    by (auto simp: Store_InsertSchema_def action_simps Let_def split: if_splits)
  from statement_keeps [OF s1(1)] have e: "s_tx s1 = s_tx s" "s_now s1 = s_now s" by simp_all
  have r: "t_schemas (s_tx t) = t_schemas (s_tx s)" using assms(3) by (simp add: sim_def same_tables_def)
  let ?t = "t\<lparr>s_tx := (s_tx t)\<lparr>t_schemas := t_schemas (s_tx t) @ [row]\<rparr>\<rparr>"
  have "sc_Version row = sc_Version sc" "row\<lparr>sc_CreatedAt := or_default (sc_CreatedAt row) n\<rparr> = row" for n
    using assms(2) by (simp_all add: s1(3) e or_default_def)
  then have "Store_InsertSchema row t = (Inr row, ?t)"
    using assms(3) s1(2) by (simp add: Store_InsertSchema_def sim_def healthy_statement bindS_def getS_def modifyS_def
        returnS_def r e Let_def)
  moreover have "sim s' ?t" using assms(3) by (simp add: sim_def healthy_def same_tables_def s1(4) e)
  ultimately show ?thesis by blast
qed

lemma InsertLog_replay:
  assumes "InsertLog sha f l0 s = (Inr l, s')" "lg_ID l0 = None" "lg_ID l \<noteq> None" "lg_Hash l0 = []"
    and "s_now s \<noteq> zero_time" "sim s t"
  shows "\<exists>t'. InsertLog sha f l t = (Inr l, t') \<and> sim s' t'"
    and "lg_Date l = or_default (lg_Date l0) (s_now s)" "lg_ID l = Some (s_logSeq s)" "s_logSeq s' = s_logSeq s + 1"
    and "lg_SchemaVersion l = lg_SchemaVersion l0"
proof -
  from assms(1) obtain mem s1 i s2 where s1: "GetMemento (lg_Data l0) = (Inr mem :: (store_error, _) result)"
    "statement s = (Inr (), s1)" "next_log_id l0 s1 = (Inr i, s2)" "insert_log_row sha f l0 i s2 = (Inr l, s')"
    by (auto simp: InsertLog_def action_simps)
  have "clock s1 = clock s" using keepsD [OF keeps_clock_basic(2) s1(2)] .
  with statement_keeps [OF s1(2)] s1(3) assms(2) have s2: "s_tx s2 = s_tx s" "s_now s2 = s_now s"
    "s_logSeq s2 = s_logSeq s + 1" "i = s_logSeq s"
    by (auto simp: next_log_id_def action_simps clock_def)
  let ?row = "l0\<lparr>lg_ID := Some i, lg_Date := or_default (lg_Date l0) (s_now s)\<rparr>"
  let ?rows = "t_logs (s_tx s)"
  have i: "\<not> list_ex (\<lambda>r. lg_ID r = Some i) ?rows"
    using s1(4) assms(2,3) s2(1) by (auto simp: insert_log_row_def action_simps Let_def split: if_splits)
  from s1(4) i have h: "(if HashLogs f then ComputeHash sha (last_opt ?rows) (?row\<lparr>lg_Hash := []\<rparr>) else Inr ?row)
        = (Inr l :: (store_error, _) result)"
    and k: "\<not> (lg_IdempotencyKey l0 \<noteq> [] \<and> list_ex (\<lambda>r. lg_IdempotencyKey r = lg_IdempotencyKey l0) ?rows)"
    and s': "s' = s2\<lparr>s_tx := (s_tx s)\<lparr>t_logs := ?rows @ [l]\<rparr>\<rparr>"
    unfolding insert_log_row_def Let_def
    by (auto simp: action_simps s2(1,2) simp del: if_split split: if_split_asm)
  define r0 where "r0 = ?row"
  have row: "r0\<lparr>lg_Hash := []\<rparr> = r0" using assms(4) by (cases l0) (simp add: r0_def)
  note h = h [folded r0_def, unfolded row]
  have "\<exists>hash. l = r0\<lparr>lg_Hash := hash\<rparr>"
  proof (cases "HashLogs f")
    case True
    with h show ?thesis by (auto simp: ComputeHash_def bindr_eq_Inr)
  next
    case False
    with h have "l = r0" by simp
    then show ?thesis using row by metis
  qed
  then obtain hash where l: "l = r0\<lparr>lg_Hash := hash\<rparr>" by blast
  then have l0: "l\<lparr>lg_Hash := []\<rparr> = r0" using row by simp
  have f: "lg_Data l = lg_Data l0" "lg_ID l = Some i" "lg_Date l = or_default (lg_Date l0) (s_now s)"
    "lg_IdempotencyKey l = lg_IdempotencyKey l0" "lg_SchemaVersion l = lg_SchemaVersion l0"
    by (simp_all add: l r0_def)
  show "lg_Date l = or_default (lg_Date l0) (s_now s)" "lg_ID l = Some (s_logSeq s)" "s_logSeq s' = s_logSeq s + 1"
    "lg_SchemaVersion l = lg_SchemaVersion l0" using f s2 by (simp_all add: s')
  have "lg_Date l \<noteq> zero_time" using assms(5) by (simp add: f or_default_def)
  then have same: "l\<lparr>lg_ID := Some i, lg_Date := or_default (lg_Date l) n\<rparr> = l" for n
    using f(2) by (simp add: or_default_def)
  have again: "(if HashLogs f then ComputeHash sha (last_opt ?rows) (l\<lparr>lg_Hash := []\<rparr>) else Inr l) =
      (Inr l :: (store_error, _) result)"
    using h by (simp add: l0 split: if_splits)
  have rows: "t_logs (s_tx t) = ?rows" using assms(6) by (simp add: sim_def same_tables_def)
  let ?t = "t\<lparr>s_tx := (s_tx t)\<lparr>t_logs := ?rows @ [l]\<rparr>\<rparr>"
  have "insert_log_row sha f l i t = (Inr l, ?t)"
    unfolding insert_log_row_def bindS_def getS_def rows prod.case sum.case Let_def same liftS_def again
    by (simp only: i k f(4) if_False simp_thms modifyS_def returnS_def prod.case sum.case)
  then have "InsertLog sha f l t = (Inr l, ?t)"
    using assms(6) s1(1) by (simp add: InsertLog_def f(1,2) bindS_def liftS_def sim_def healthy_statement next_log_id_def
        returnS_def)
  moreover have "sim s' ?t" using assms(6) by (simp add: sim_def healthy_def same_tables_def s')
  ultimately show "\<exists>t'. InsertLog sha f l t = (Inr l, t') \<and> sim s' t'" by blast
qed


section \<open>Operations\<close>

lemma AccountsWithDefaultMetadata_not_empty:
  "tx_Postings tx \<noteq> [] \<Longrightarrow> AccountsWithDefaultMetadata compile tx schema am \<noteq> []"
proof -
  assume "tx_Postings tx \<noteq> []"
  then obtain p where "p \<in> set (tx_Postings tx)" by (cases "tx_Postings tx") auto
  then have "p_Source p \<in> set (InvolvedAccounts tx)" using InvolvedAccounts_spec [of tx] by auto
  then have "p_Source p \<in> set (sort_compact (InvolvedAccounts tx @ map fst am))"
    using sort_compact_spec by auto
  then show ?thesis by (auto simp: AccountsWithDefaultMetadata_def)
qed

lemma find_log_schema_replay:
  assumes "lg_SchemaVersion l = [] \<or> find_schema (lg_SchemaVersion l) (s_tx t) \<noteq> None"
  shows "\<exists>sc. find_log_schema l t = (Inr sc, t)"
  using assms
  by (auto simp: find_log_schema_def fromStore_def FindSchema_def bindS_def getS_def returnS_def)

lemma createTransaction_replay:
  assumes "parsers_read c" "createTransaction c pm i schema s = (Inr out, s')" "s_now s \<noteq> zero_time" "sim s t"
    and "lg_SchemaVersion l = [] \<or> find_schema (lg_SchemaVersion l) (s_tx t) \<noteq> None"
  shows "\<exists>t'. import_payload (c\<lparr>c_pooled := pooled\<rparr>) l out t = (Inr (), t') \<and> sim s' t'"
proof -
  from assms(2) obtain r s1 where r: "run_script c pm i schema s = (Inr r, s1)"
    "record_result c i schema r s1 = (Inr out, s')"
    by (auto simp: createTransaction_def action_simps)
  have s1: "sim s1 t" "s_now s1 = s_now s"
    using sim_left [OF assms(4) run_script_reads [OF assms(1) r(1)]]
      keepsD [OF run_script_clock [OF assms(1)] r(1)] by (simp_all add: clock_def)
  from r(2) obtain m tx s2 am where e: "er_Postings r \<noteq> []"
    and c: "CommitTransaction (c_features c) (transaction_of i (er_Postings r) m) s1 = (Inr tx, s2)"
    and u: "upsertTransactionAccounts c schema tx am s2 = (Inr (), s')"
    and out: "out = CreatedTransaction tx am"
    by (auto simp: record_result_def action_simps Let_def fromStore_Inr split: if_splits)
  have n: "tx_ID (transaction_of i ps m) = None" "tx_PostCommitEffectiveVolumes (transaction_of i ps m) = []"
    "tx_Postings (transaction_of i ps m) = ps" for ps m
    by (simp_all add: transaction_of_def WithPostings_def NewTransaction_def)
  have "s_now s1 \<noteq> zero_time" using s1(2) assms(3) by simp
  from CommitTransaction_replay [OF c n(1,2) this s1(1)] obtain t2 where
    t2: "CommitTransaction (c_features c) tx t = (Inr tx, t2)" "sim s2 t2" by blast
  have C: "committed (s_tx s1) (transaction_of i (er_Postings r) m) (s_tx s2) tx" by (rule CommitTransaction_Inr(1) [OF c])
  then have ps: "tx_Postings tx \<noteq> []" "tx_ID tx \<noteq> None"
    using e unfolding committed_def fresh_row_def by (auto simp: n(3))
  have h: "healthy t2" using t2(2) by (simp add: sim_def)
  from find_log_schema_replay [OF assms(5)] obtain sc where sc: "find_log_schema l t = (Inr sc, t)" by blast
  from accounts_run(1) [OF h AccountsWithDefaultMetadata_not_empty [OF ps(1)], of pooled "c_compile c" sc am]
  obtain t' where t': "UpsertAccounts pooled (AccountsWithDefaultMetadata (c_compile c) tx sc am) t2 = (Inr (), t')"
    "same_tables (s_tx t2) (s_tx t')" "healthy t'" by blast
  have "import_payload (c\<lparr>c_pooled := pooled\<rparr>) l out t = (Inr (), t')"
    using ps(2) by (simp add: out bindS_def sc fromStore_def t2(1) upsertTransactionAccounts_def t'(1))
  moreover have "same_tables (s_tx s2) (s_tx s')"
    using u accounts_same(1) by (auto simp: upsertTransactionAccounts_def fromStore_Inr)
  ultimately show ?thesis using sim_move [OF t2(2) _ t'(2,3)] by blast
qed

lemma revertTransaction_replay:
  assumes "revertTransaction c input s = (Inr out, s')" "s_now s \<noteq> zero_time" "sim s t"
  shows "\<exists>t'. import_payload (c\<lparr>c_pooled := pooled\<rparr>) l out t = (Inr (), t') \<and> sim s' t'"
proof -
  let ?i = "ri_TransactionID input"
  from assms(1) obtain original s1 bs s2 tx where
    r: "Store_RevertTransaction ?i zero_time s = (Inr (original, True), s1)"
    and g: "Store_GetBalances (InvolvedDestinations original) s1 = (Inr bs, s2)"
    and m: "CommitTransaction (c_features c) (reversal input original) s2 = (Inr tx, s')"
    and out: "out = RevertedTransaction original tx"
    by (auto simp: revertTransaction_def action_simps fromStore_Inr Let_def split: if_splits prod.splits)
  from r obtain r0 s0 where "statement s = (Inr (), s0)"
    "original = r0\<lparr>tx_RevertedAt := Some (or_default zero_time (s_now s0)), tx_UpdatedAt := or_default zero_time (s_now s0)\<rparr>"
    "find (\<lambda>r. tx_ID r = Some ?i) (t_transactions (s_tx s0)) = Some r0"
    by (auto simp: Store_RevertTransaction_def updateTxWithRetrieve_def action_simps split: option.splits if_splits)
  with statement_keeps have o: "tx_ID original = Some ?i" "tx_RevertedAt original = Some (s_now s)"
    by (auto simp: find_Some_iff or_default_def zero_time_def)
  from updateTx_replay [OF r [unfolded Store_RevertTransaction_def] assms(3)] assms(2)
  obtain t1 where t1: "Store_RevertTransaction ?i (s_now s) t = (Inr (original, True), t1)" "sim s1 t1"
    unfolding Store_RevertTransaction_def by (fastforce simp: or_default_def)
  have s2: "sim s2 t1" "s_now s2 = s_now s"
    using sim_left [OF t1(2) GetBalances_same [OF g]] keepsD [OF store_keeps_clock(2) g]
      keepsD [OF store_keeps_clock'(1) r] by (simp_all add: clock_def)
  have n: "tx_ID (reversal input original) = None" "tx_PostCommitEffectiveVolumes (reversal input original) = []"
    by (simp_all add: reversal_def Transaction_Reverse_def WithPostings_def NewTransaction_def)
  from s2(2) assms(2) have "s_now s2 \<noteq> zero_time" by simp
  from CommitTransaction_replay [OF m n this s2(1)] obtain t' where
    t': "CommitTransaction (c_features c) tx t1 = (Inr tx, t')" "sim s' t'" by blast
  have "import_payload (c\<lparr>c_pooled := pooled\<rparr>) l out t = (Inr (), t')"
    by (simp add: out o bindS_def fromStore_def t1(1) t'(1) returnS_def)
  with t'(2) show ?thesis by blast
qed


lemma date_of: "n \<noteq> zero_time \<Longrightarrow> or_default n m = n" "or_default zero_time n = n"
  by (simp_all add: or_default_def)

lemma metadata_replay:
  assumes "s_now s \<noteq> zero_time" "sim s t" "lg_Date l = s_now s"
  shows "saveTransactionMetadata i m s = (Inr out, s') \<Longrightarrow> \<exists>t'. import_payload (c\<lparr>c_pooled := pooled\<rparr>) l out t = (Inr (), t') \<and> sim s' t'"
    and "deleteTransactionMetadata i k s = (Inr out, s') \<Longrightarrow> \<exists>t'. import_payload (c\<lparr>c_pooled := pooled\<rparr>) l out t = (Inr (), t') \<and> sim s' t'"
proof -
  assume "saveTransactionMetadata i m s = (Inr out, s')"
  then obtain r b where u: "Store_UpdateTransactionMetadata i m zero_time s = (Inr (r, b), s')"
    and out: "out = SavedMetadata MetaTargetTypeTransaction (TargetTransaction i) m"
    by (auto simp: saveTransactionMetadata_def action_simps fromStore_Inr)
  from updateTx_replay [OF u [unfolded Store_UpdateTransactionMetadata_def] assms(2)] assms(1)
  obtain t' where "Store_UpdateTransactionMetadata i m (s_now s) t = (Inr (r, b), t')" "sim s' t'"
    unfolding Store_UpdateTransactionMetadata_def by (fastforce simp: date_of)
  then show "\<exists>t'. import_payload (c\<lparr>c_pooled := pooled\<rparr>) l out t = (Inr (), t') \<and> sim s' t'"
    by (simp add: out bindS_def fromStore_def returnS_def assms(3))
next
  assume "deleteTransactionMetadata i k s = (Inr out, s')"
  then obtain r b where u: "Store_DeleteTransactionMetadata i k zero_time s = (Inr (r, b), s')"
    and out: "out = DeletedMetadata MetaTargetTypeTransaction (TargetTransaction i) k"
    by (auto simp: deleteTransactionMetadata_def action_simps fromStore_Inr split: if_splits)
  from updateTx_replay [OF u [unfolded Store_DeleteTransactionMetadata_def] assms(2)] assms(1)
  obtain t' where "Store_DeleteTransactionMetadata i k (s_now s) t = (Inr (r, b), t')" "sim s' t'"
    unfolding Store_DeleteTransactionMetadata_def by (fastforce simp: date_of)
  then show "\<exists>t'. import_payload (c\<lparr>c_pooled := pooled\<rparr>) l out t = (Inr (), t') \<and> sim s' t'"
    by (simp add: out bindS_def fromStore_def returnS_def assms(3))
qed

lemma target_types: "MetaTargetTypeAccount \<noteq> MetaTargetTypeTransaction"
  by (simp add: MetaTargetTypeAccount_def MetaTargetTypeTransaction_def)

lemma account_metadata_replay:
  assumes "sim s t"
  shows "saveAccountMetadata c a m schema s = (Inr out, s') \<Longrightarrow> \<exists>t'. import_payload (c\<lparr>c_pooled := pooled\<rparr>) l out t = (Inr (), t') \<and> sim s' t'"
    and "deleteAccountMetadata a k s = (Inr out, s') \<Longrightarrow> \<exists>t'. import_payload (c\<lparr>c_pooled := pooled\<rparr>) l out t = (Inr (), t') \<and> sim s' t'"
proof -
  have h: "healthy t" using assms by (simp add: sim_def)
  assume "saveAccountMetadata c a m schema s = (Inr out, s')"
  then obtain ds where "UpsertAccounts False ds s = (Inr (), s')"
    and out: "out = SavedMetadata MetaTargetTypeAccount (TargetAddress a) m"
    by (auto simp: saveAccountMetadata_def action_simps fromStore_Inr)
  from accounts_same(1) [OF this(1)] accounts_run(2) [OF h, of "[(a, m)]" "lg_Date l"] sim_move [OF assms]
  show "\<exists>t'. import_payload (c\<lparr>c_pooled := pooled\<rparr>) l out t = (Inr (), t') \<and> sim s' t'"
    by (auto simp: out fromStore_def target_types target_types [symmetric])
next
  have h: "healthy t" using assms by (simp add: sim_def)
  assume "deleteAccountMetadata a k s = (Inr out, s')"
  then obtain u where "Store_DeleteAccountMetadata a k s = (Inr u, s')"
    and out: "out = DeletedMetadata MetaTargetTypeAccount (TargetAddress a) k"
    by (auto simp: deleteAccountMetadata_def action_simps fromStore_Inr)
  from accounts_same(2) [OF this(1)] accounts_run(3) [OF h, of a k] sim_move [OF assms]
  show "\<exists>t'. import_payload (c\<lparr>c_pooled := pooled\<rparr>) l out t = (Inr (), t') \<and> sim s' t'"
    by (auto simp: out fromStore_def target_types target_types [symmetric])
qed

lemma insertSchema_replay:
  assumes "insertSchema c v d s = (Inr out, s')" "s_now s \<noteq> zero_time" "sim s t"
  shows "\<exists>t'. import_payload (c\<lparr>c_pooled := pooled\<rparr>) l out t = (Inr (), t') \<and> sim s' t'"
proof -
  from assms(1) obtain sc row where "mapErr (schema_conflict v) (fromStore (Store_InsertSchema sc)) s = (Inr row, s')"
    and out: "out = InsertedSchema row"
    by (auto simp: insertSchema_def action_simps)
  then have i: "Store_InsertSchema sc s = (Inr row, s')"
    by (auto simp: mapErr_def fromStore_def map_failure_Inr split: prod.splits)
  from InsertSchema_replay [OF i assms(2,3)] show ?thesis
    by (auto simp: out bindS_def fromStore_def returnS_def)
qed

lemma handler_replay:
  assumes "parsers_read c" "handler c pm schema i s = (Inr out, s')" "s_now s \<noteq> zero_time" "sim s t"
    and "lg_SchemaVersion l = [] \<or> find_schema (lg_SchemaVersion l) (s_tx t) \<noteq> None" "lg_Date l = s_now s"
  shows "\<exists>t'. import_payload (c\<lparr>c_pooled := pooled\<rparr>) l out t = (Inr (), t') \<and> sim s' t'"
  using assms(2)
  by (cases i)
    (simp_all add: createTransaction_replay [OF assms(1) _ assms(3-5)] revertTransaction_replay [OF _ assms(3,4)]
      metadata_replay [OF assms(3,4,6)] account_metadata_replay [OF assms(4)] insertSchema_replay [OF _ assms(3,4)])

text \<open>The log of an operation does, where it is imported, what the operation did.\<close>

lemma runLog_replay:
  assumes "parsers_read c" "runLog c pm s = (Inr (l, out), s')" "s_now s \<noteq> zero_time" "sim s t"
  shows "\<exists>t'. importLog (c\<lparr>c_pooled := pooled\<rparr>) l t = (Inr (), t') \<and> sim s' t'" and "lg_ID l = Some (s_logSeq s)"
    and "s_logSeq s' = s_logSeq s + 1"
proof -
  from assms(2) obtain schema s1 s2 where r: "lookup_schema c pm s = (Inr schema, s1)"
    "handler c pm schema (pm_Input pm) s1 = (Inr out, s2)"
    "insert_new_log c (new_log c pm out) s2 = (Inr l, s')"
    by (auto simp: runLog_def action_simps)
  have s1: "s1 = s" "pm_SchemaVersion pm = [] \<or> find_schema (pm_SchemaVersion pm) (s_tx s) \<noteq> None"
    using r(1) by (auto simp: lookup_schema_def action_simps fromStore_Inr FindLatestSchemaVersion_def
        split: if_splits option.splits)
  have now: "s_now s2 = s_now s" "s_logSeq s2 = s_logSeq s"
    using keepsD [OF handler_clock [OF assms(1)] r(2)] by (simp_all add: s1(1) clock_def)
  from r(3) have i: "InsertLog (c_sha256 c) (c_features c) (new_log c pm out) s2 = (Inr l, s')" "lg_ID l \<noteq> None"
    by (auto simp: insert_new_log_def action_simps fromStore_Inr split: if_splits)
  have n: "lg_ID (new_log c pm out) = None" "lg_Hash (new_log c pm out) = []" "lg_Date (new_log c pm out) = zero_time"
    "lg_SchemaVersion (new_log c pm out) = pm_SchemaVersion pm"
    by (simp_all add: new_log_def NewLog_def)
  have n2: "s_now s2 \<noteq> zero_time" using now(1) assms(3) by simp
  note I = InsertLog_replay [OF i(1) n(1) i(2) n(2) n2]
  have l: "lg_SchemaVersion l = pm_SchemaVersion pm" "lg_Date l = s_now s" "lg_ID l = Some (s_logSeq s)"
    "s_logSeq s' = s_logSeq s + 1" "lg_Data l = out"
  proof -
    obtain u where "sim s2 u" unfolding sim_def healthy_def
      by (metis same_refl session.select_convs(1,6,7))
    from I(2-5) [OF this] n(3,4) now show "lg_SchemaVersion l = pm_SchemaVersion pm" "lg_Date l = s_now s"
      "lg_ID l = Some (s_logSeq s)" "s_logSeq s' = s_logSeq s + 1" by (simp_all add: date_of)
    show "lg_Data l = out" using InsertLog_Inr(1) [OF i(1) n(1) i(2)] by (simp add: logged_def new_log_def NewLog_def)
  qed
  then show "lg_ID l = Some (s_logSeq s)" "s_logSeq s' = s_logSeq s + 1" by blast+
  have "t_schemas (s_tx t) = t_schemas (s_tx s)" using assms(4) by (simp add: sim_def same_tables_def)
  then have "lg_SchemaVersion l = [] \<or> find_schema (lg_SchemaVersion l) (s_tx t) \<noteq> None"
    using s1(2) by (simp add: l(1) find_schema_def)
  from handler_replay [OF assms(1) r(2) [unfolded s1(1)] assms(3,4) this l(2)] obtain t1 where
    t1: "import_payload (c\<lparr>c_pooled := pooled\<rparr>) l out t = (Inr (), t1)" "sim s2 t1" by blast
  from I(1) [OF t1(2)] obtain t' where
    t': "InsertLog (c_sha256 c) (c_features c) l t1 = (Inr l, t')" "sim s' t'" by blast
  have "importLog (c\<lparr>c_pooled := pooled\<rparr>) l t = (Inr (), t')"
    by (simp add: importLog_def l(3,5) bindS_def t1(1) fromStore_def t'(1) check_hash_def returnS_def)
  with t'(2) show "\<exists>t'. importLog (c\<lparr>c_pooled := pooled\<rparr>) l t = (Inr (), t') \<and> sim s' t'" by blast
qed

end
