(* ===== verification/Import_Claims.thy ===== *)
theory Import_Claims
  imports Log_Replay Revert_Claims
begin

text \<open>
  Exports and imports of whole ledgers: the ledgers that operations reach from an empty one, the
  logs they leave, and the claims about imports.
\<close>

section \<open>The sequence of logs\<close>

lemma insert_log_row_clock: "keeps clock (insert_log_row sha f l i)"
  unfolding insert_log_row_def Let_def by (intro keeps_intro; simp add: clock_def)

definition seq_grows :: "('e, 'a) action \<Rightarrow> bool" where
  "seq_grows m \<longleftrightarrow> (\<forall>s. s_logSeq s \<le> s_logSeq (snd (m s)))"

lemma seq_growsD: "seq_grows m \<Longrightarrow> m s = (r, s') \<Longrightarrow> s_logSeq s \<le> s_logSeq s'"
  by (metis seq_grows_def snd_conv)

lemma seq_grows_clock: "keeps clock m \<Longrightarrow> seq_grows m"
  by (simp add: seq_grows_def keeps_def clock_def)

lemma seq_grows_bind: "seq_grows m \<Longrightarrow> (\<And>x. seq_grows (f x)) \<Longrightarrow> seq_grows (bindS m f)"
  unfolding seq_grows_def bindS_def by (auto split: prod.splits sum.splits) (metis order_trans snd_conv)+

lemma seq_grows_fromStore: "seq_grows m \<Longrightarrow> seq_grows (fromStore m)"
  by (simp add: seq_grows_def fromStore_def split: prod.splits) (metis snd_conv)

lemma next_log_id_seq: "seq_grows (next_log_id l)"
  by (simp add: seq_grows_def next_log_id_def bindS_def getS_def modifyS_def returnS_def split: option.splits)

lemma InsertLog_seq: "seq_grows (InsertLog sha f l)"
  unfolding InsertLog_def
  by (intro seq_grows_bind next_log_id_seq seq_grows_clock [OF insert_log_row_clock]; rule seq_grows_clock; intro keeps_intro)

lemma runLog_seq: "parsers_read c \<Longrightarrow> seq_grows (runLog c pm)"
  unfolding runLog_def insert_new_log_def
  by (intro seq_grows_bind seq_grows_fromStore InsertLog_seq seq_grows_clock [OF lookup_schema_clock]
      seq_grows_clock [OF handler_clock]; (assumption | rule seq_grows_clock | simp); intro keeps_intro)

text \<open>What an operation does to the world, whatever its attempts: nothing, or a run of \<open>runLog\<close>.\<close>

definition ran :: "controller \<Rightarrow> parameters \<Rightarrow> world \<Rightarrow> forged \<Rightarrow> world \<Rightarrow> bool" where
  "ran c pm w x w' \<longleftrightarrow>
     (kept_result pm x \<longrightarrow> without_accounts (w_tables w') = without_accounts (w_tables w) \<and> w_logSeq w \<le> w_logSeq w') \<and>
     (\<not> kept_result pm x \<longrightarrow> (\<exists>s l out s'. without_accounts (s_tx s) = without_accounts (w_tables w) \<and>
        w_logSeq w \<le> s_logSeq s \<and> s_now s \<noteq> zero_time \<and> runLog c pm s = (Inr (l, out), s') \<and>
        w_tables w' = s_tx s' \<and> w_logSeq w' = s_logSeq s'))"

lemma ran_after:
  "without_accounts (w_tables w1) = without_accounts (w_tables w) \<Longrightarrow> w_logSeq w \<le> w_logSeq w1 \<Longrightarrow>
   ran c pm w1 x w' \<Longrightarrow> ran c pm w x w'"
  unfolding ran_def by (metis order_trans)

lemma Commit_seq: "fromStore Commit s = (r, s') \<Longrightarrow> s_logSeq s' = s_logSeq s"
  by (auto simp: fromStore_def Commit_def unresolved_def bindS_def getS_def failS_def modifyS_def statement_def
      split: prod.splits sum.splits if_splits option.splits nat.splits)

lemma settle_attempt_seq: "settle_attempt pm r s = (r', s') \<Longrightarrow> s_logSeq s' = s_logSeq s"
  by (auto simp: settle_attempt_def Rollback_def modifyS_def split: sum.splits if_splits prod.splits dest: Commit_seq)

lemma runTx_ran:
  assumes "parsers_ok c" "parsers_read c" "runTx c pm a w = (r, w')" "at_others a = id" "at_now a \<noteq> zero_time"
  shows "ran c pm w (as_forged r) w'"
proof -
  obtain r0 s0 where l: "runLog c pm (begin_attempt a w) = (r0, s0)" by (cases "runLog c pm (begin_attempt a w)")
  obtain r1 s1 where s: "settle_attempt pm r0 s0 = (r1, s1)" by (cases "settle_attempt pm r0 s0")
  from assms(3,4) l s have e: "r = r1" "w_tables w' = s_base s1" "w_logSeq w' = s_logSeq s0"
    by (auto simp: runTx_def end_attempt_def settle_attempt_seq)
  have b: "s_tx (begin_attempt a w) = w_tables w" "s_logSeq (begin_attempt a w) = w_logSeq w"
    "s_now (begin_attempt a w) = at_now a" by (simp_all add: begin_attempt_def BeginTX_def)
  have grows: "w_logSeq w \<le> w_logSeq w'" using seq_growsD [OF runLog_seq [OF assms(2)] l] by (simp add: e b)
  from runTx_facts [OF assms(1,3)] assms(4) have k: "kept_result pm (as_forged r) \<Longrightarrow>
    without_accounts (w_tables w') = without_accounts (w_tables w)" by (auto simp: effect_def)
  {
    assume n: "\<not> kept_result pm (as_forged r)"
    then obtain k out where r: "r1 = Inr (k, out)" "\<not> pm_DryRun pm" by (cases r1) (auto simp: e(1))
    from settle_attempt_cases(2) [OF s r(1)] r(2) have "r0 = Inr (k, out)" "s_base s1 = s_tx s0" by simp_all
    with l b e(2,3) assms(5) have "\<exists>s l out s'. without_accounts (s_tx s) = without_accounts (w_tables w) \<and>
        w_logSeq w \<le> s_logSeq s \<and> s_now s \<noteq> zero_time \<and> runLog c pm s = (Inr (l, out), s') \<and>
        w_tables w' = s_tx s' \<and> w_logSeq w' = s_logSeq s'"
      by (metis order_refl)
  }
  with k grows show ?thesis unfolding ran_def by blast
qed

definition dated :: "attempt list \<Rightarrow> bool" where
  "dated schedule \<longleftrightarrow> (\<forall>a \<in> set schedule. at_now a \<noteq> zero_time)"

lemma ran_failed: "ran c pm w (as_forged (Inl e)) w1 \<Longrightarrow>
  without_accounts (w_tables w1) = without_accounts (w_tables w) \<and> w_logSeq w \<le> w_logSeq w1"
  by (simp add: ran_def)

lemma forgeLogRetry_ran:
  assumes "parsers_ok c" "parsers_read c"
  shows "forgeLogRetry c pm schedule w = Some (x, w') \<Longrightarrow> alone schedule \<Longrightarrow> dated schedule \<Longrightarrow> ran c pm w x w'"
proof (induction schedule arbitrary: w)
  case (Cons a schedule)
  then have a: "alone schedule" "dated schedule" "at_others a = id" "at_now a \<noteq> zero_time"
    by (auto simp: alone_def dated_def)
  note R = runTx_ran [OF assms _ a(3,4)]
  from Cons.prems(1) show ?case
  proof (cases rule: forgeLogRetry_cases)
    case (more e w1)
    from ran_failed [OF R [OF more(1)]] Cons.IH [OF more(2) a(1,2)] show ?thesis by (metis ran_after)
  next
    case (final r)
    from R [OF final(1)] final(2) show ?thesis by simp
  next
    case (fetched e)
    from ran_failed [OF R [OF fetched(1)]] fetched(2) show ?thesis by (simp add: ran_def)
  qed
qed simp

lemma forgeLog_ran:
  assumes "parsers_ok c" "parsers_read c" "forgeLog c pm schedule w = Some (x, w')" "alone schedule" "dated schedule"
  shows "ran c pm w x w'"
proof -
  from assms(3) obtain a rest where s: "schedule = a # rest" by (cases schedule) auto
  with assms(4,5) have a: "alone rest" "dated rest" "at_others a = id" "at_now a \<noteq> zero_time"
    by (auto simp: alone_def dated_def)
  note R = runTx_ran [OF assms(1,2) _ a(3,4)]
  from assms(3) [unfolded s] show ?thesis
  proof (cases rule: forgeLog_cases)
    case answered
    with a(3) show ?thesis
      by (simp add: ran_def end_attempt_def Rollback_def modifyS_def begin_attempt_def BeginTX_def)
  next
    case (retry e w1)
    from ran_failed [OF R [OF retry(1)]] forgeLogRetry_ran [OF assms(1,2) retry(2) a(1,2)] show ?thesis
      by (metis ran_after)
  next
    case (final r)
    from R [OF final(1)] final(2) show ?thesis by simp
  qed
qed


section \<open>Ledgers that can be imported\<close>

text \<open>Every log has its number, the numbers grow, and the next one is greater.\<close>

definition numbered :: "world \<Rightarrow> bool" where
  "numbered w \<longleftrightarrow> (\<forall>l \<in> set (t_logs (w_tables w)). lg_ID l \<noteq> None \<and> row_id l < w_logSeq w) \<and>
     sorted_wrt (<) (map row_id (t_logs (w_tables w)))"

definition undisturbed :: "attempt list \<Rightarrow> bool" where
  "undisturbed as \<longleftrightarrow> (\<forall>a \<in> set as. at_fault a = None \<and> at_others a = id)"

definition rebuilds :: "controller \<Rightarrow> tables \<Rightarrow> bool" where
  "rebuilds c t \<longleftrightarrow> (\<forall>as w0. length as = length (t_logs t) \<longrightarrow> undisturbed as \<longrightarrow> w_tables w0 = empty_tables \<longrightarrow>
     (\<exists>w. import_loop (c\<lparr>c_pooled := False\<rparr>) None (zip (t_logs t) as) w0 = (Inr (), w) \<and> same_tables t (w_tables w)))"

definition importable :: "controller \<Rightarrow> world \<Rightarrow> bool" where
  "importable c w \<longleftrightarrow> numbered w \<and> rebuilds c (w_tables w)"

lemma same_core: "without_accounts t' = without_accounts t \<Longrightarrow> same_tables t' u = same_tables t u"
  by (metis same_sym same_trans same_without_accounts)

lemma rebuilds_core: "without_accounts t' = without_accounts t \<Longrightarrow> rebuilds c t \<Longrightarrow> rebuilds c t'"
  unfolding rebuilds_def by (simp only: without_accounts_logs [of t' t] same_core [of t' t])

lemma import_loop_append:
  assumes "import_loop c k xs w = (Inr (), w1)"
  shows "import_loop c k (xs @ ys) w = import_loop c (if xs = [] then k else lg_ID (fst (last xs))) ys w1"
  using assms
  by (induction c k xs w rule: import_loop.induct) (auto split: option.splits prod.splits sum.splits if_splits)

lemma import_tx_clean:
  assumes "importLog c l (begin_attempt a w) = (Inr (), t)" "healthy t" "at_others a = id"
  shows "import_tx c l a w = (Inr (), \<lparr>w_tables = s_tx t, w_txSeq = s_txSeq t, w_logSeq = s_logSeq t\<rparr>)"
  using assms
  by (simp add: import_tx_def fromStore_def Commit_def unresolved_def healthy_statement bindS_def getS_def modifyS_def
      healthy_def end_attempt_def)

lemma begin_sim:
  assumes "same_tables (s_tx s) (w_tables w)" "at_fault a = None"
  shows "sim s (begin_attempt a w)"
  using assms by (simp add: sim_def healthy_def begin_attempt_def BeginTX_def)

lemma parsers_pooled [simp]:
  "parsers_ok (c\<lparr>c_pooled := b\<rparr>) = parsers_ok c" "parsers_read (c\<lparr>c_pooled := b\<rparr>) = parsers_read c"
  by (simp_all add: parsers_ok_def parsers_read_def getParser_def)

lemma rebuilds_step:
  assumes "parsers_read c" "runLog (c\<lparr>c_pooled := b\<rparr>) pm s = (Inr (l, out), s')" "s_now s \<noteq> zero_time"
    and "rebuilds c t" "without_accounts (s_tx s) = without_accounts t" "t_logs (s_tx s') = t_logs t @ [l]"
    and "t_logs t = [] \<or> (\<exists>i. lg_ID (last (t_logs t)) = Some i \<and> i < s_logSeq s)"
  shows "rebuilds c (s_tx s')"
  unfolding rebuilds_def
proof (intro allI impI)
  fix as :: "attempt list" and w0 :: world
  let ?c = "c\<lparr>c_pooled := False\<rparr>"
  assume as: "length as = length (t_logs (s_tx s'))" "undisturbed as" "w_tables w0 = empty_tables"
  then obtain as0 a where a: "as = as0 @ [a]" "length as0 = length (t_logs t)" using assms(6)
    by (cases as rule: rev_cases) auto
  with as(2) have u: "undisturbed as0" "at_fault a = None" "at_others a = id" by (auto simp: undisturbed_def)
  from assms(4) a(2) u(1) as(3) obtain w where w: "import_loop ?c None (zip (t_logs t) as0) w0 = (Inr (), w)"
    "same_tables t (w_tables w)" unfolding rebuilds_def by blast
  have "sim s (begin_attempt a w)" using begin_sim u(2) w(2) same_core [OF assms(5)] by blast
  from runLog_replay(1) [where pooled = False, OF _ assms(2,3) this] runLog_replay(2) [OF _ assms(2,3) this] assms(1)
  obtain u1 where u1: "importLog ?c l (begin_attempt a w) = (Inr (), u1)" "sim s' u1" and l: "lg_ID l = Some (s_logSeq s)"
    by auto
  from import_tx_clean [OF u1(1) _ u(3)] u1(2) obtain w1 where w1: "import_tx ?c l a w = (Inr (), w1)"
    "w_tables w1 = s_tx u1" by (auto simp: sim_def)
  have z: "zip (t_logs (s_tx s')) as = zip (t_logs t) as0 @ [(l, a)]" using a by (simp add: assms(6))
  have k: "zip (t_logs t) as0 \<noteq> [] \<Longrightarrow> fst (last (zip (t_logs t) as0)) = last (t_logs t)"
    using a(2) by (cases "t_logs t" rule: rev_cases; cases as0 rule: rev_cases) auto
  have "import_loop ?c None (zip (t_logs (s_tx s')) as) w0 = (Inr (), w1)"
    unfolding z import_loop_append [OF w(1)] using assms(7) a(2) k
    by (auto simp: l w1(1))
  with w1(2) u1(2) show "\<exists>w. import_loop ?c None (zip (t_logs (s_tx s')) as) w0 = (Inr (), w) \<and> same_tables (s_tx s') (w_tables w)"
    by (auto simp: sim_def)
qed

lemma importable_ran:
  assumes "parsers_ok c" "parsers_read c" "ran (c\<lparr>c_pooled := b\<rparr>) pm w x w'" "importable c w"
  shows "importable c w'"
proof (cases "kept_result pm x")
  case True
  with assms(3) have "without_accounts (w_tables w') = without_accounts (w_tables w)" "w_logSeq w \<le> w_logSeq w'"
    by (simp_all add: ran_def)
  with assms(4) rebuilds_core [OF this(1)] without_accounts_logs [OF this(1)] show ?thesis
    by (auto simp: importable_def numbered_def)
next
  case False
  with assms(3) obtain s l out s' where s: "without_accounts (s_tx s) = without_accounts (w_tables w)"
    "w_logSeq w \<le> s_logSeq s" "s_now s \<noteq> zero_time" "runLog (c\<lparr>c_pooled := b\<rparr>) pm s = (Inr (l, out), s')"
    "w_tables w' = s_tx s'" "w_logSeq w' = s_logSeq s'"
    by (auto simp: ran_def)
  let ?rows = "t_logs (w_tables w)"
  have rows: "t_logs (s_tx s') = ?rows @ [l]"
    using runLog_Inr [OF _ s(4)] assms(1) without_accounts_logs [OF s(1)]
    by (simp add: log_rows_def)
  have p: "parsers_read (c\<lparr>c_pooled := b\<rparr>)" using assms(2) by simp
  obtain u where "sim s u" unfolding sim_def healthy_def
    by (metis same_refl session.select_convs(1,6,7))
  from runLog_replay(2,3) [OF p s(4,3) this] have l: "lg_ID l = Some (s_logSeq s)" "s_logSeq s' = s_logSeq s + 1" .
  have n: "numbered w" "rebuilds c (w_tables w)" using assms(4) by (simp_all add: importable_def)
  have g: "lg_ID r \<noteq> None \<and> row_id r < s_logSeq s" if "r \<in> set ?rows" for r
    using n(1) s(2) that by (auto simp: numbered_def)
  then have "row_id r < s_logSeq s + 1" if "r \<in> set ?rows" for r using that by force
  with g have "numbered w'"
    using n(1) by (auto simp: numbered_def s(5,6) rows l sorted_wrt_append row_id_def [of l])
  moreover have "?rows = [] \<or> (\<exists>i. lg_ID (last ?rows) = Some i \<and> i < s_logSeq s)"
    using g [of "last ?rows"] by (cases "?rows = []") (auto simp: row_id_def)
  ultimately show ?thesis
    using rebuilds_step [OF assms(2) s(4,3) n(2) s(1) rows] by (simp add: importable_def s(5))
qed


section \<open>The ledgers that operations make\<close>

definition new_ledger :: facade where
  "new_ledger = \<lparr>fc_cached = StateInitializing, fc_state = StateInitializing,
     fc_world = \<lparr>w_tables = empty_tables, w_txSeq = 1, w_logSeq = 1\<rparr>\<rparr>"

inductive used :: "controller \<Rightarrow> facade \<Rightarrow> bool" for c where
  used_new: "used c new_ledger"
| used_operation: "used c fc \<Longrightarrow> facade_forge c pm schedule fc = Some (x, fc') \<Longrightarrow> alone schedule \<Longrightarrow> dated schedule \<Longrightarrow>
    used c fc'"

lemma fold_max: "(n::nat) \<le> fold max xs n" "x \<in> set xs \<Longrightarrow> x \<le> fold max xs n"
proof (induction xs arbitrary: n)
  case (Cons y xs)
  { case 1 show ?case using Cons.IH(1) [of "max y n"] by simp }
  { case 2 then show ?case using Cons.IH(1) [of "max y n"] Cons.IH(2) [of "max y n"] by (auto simp: max_def split: if_splits) }
qed simp_all

lemma set_sequences_seq:
  "w_tables (set_sequences w) = w_tables w"
  "l \<in> set (t_logs (w_tables w)) \<Longrightarrow> row_id l < w_logSeq (set_sequences w)"
  using fold_max(2) [of "row_id l" "map row_id (t_logs (w_tables w))" 0]
  by (auto simp: set_sequences_def after_ids_def)

lemma set_sequences_importable: "importable c w \<Longrightarrow> importable c (set_sequences w)"
  using set_sequences_seq [where w = w] by (auto simp: importable_def numbered_def)

lemma importable_kept:
  assumes "parsers_ok c" "parsers_read c" "ran (c\<lparr>c_pooled := b\<rparr>) pm w x w'" "importable c w"
    and "kept_result pm x"
  shows "importable c (w'\<lparr>w_tables := w_tables w\<rparr>)"
  using importable_ran [OF assms(1-4)] assms(3,4,5) rebuilds_core [of "w_tables w'" "w_tables w"]
    without_accounts_logs [of "w_tables w'" "w_tables w"]
  by (auto simp: importable_def numbered_def ran_def)

lemma facade_forge_cases:
  assumes "facade_forge c pm schedule fc = Some (x, fc')"
  obtains (used) w' where "forgeLog (c\<lparr>c_pooled := True\<rparr>) pm schedule (fc_world fc) = Some (x, w')"
      "fc' = fc\<lparr>fc_world := w'\<rparr>" "fc_cached fc = StateInUse"
    | (unused) w w' where "w = (if fc_state fc = StateInitializing then set_sequences (fc_world fc) else fc_world fc)"
      "forgeLog (c\<lparr>c_pooled := False\<rparr>) pm schedule w = Some (x, w')" "fc_cached fc = StateInitializing"
      "if (\<exists>e. x = Inl e) \<or> pm_DryRun pm then fc' = fc\<lparr>fc_world := w'\<lparr>w_tables := w_tables w\<rparr>\<rparr>
       else fc' = fc\<lparr>fc_cached := StateInUse, fc_state := StateInUse, fc_world := w'\<rparr>"
proof (cases "fc_cached fc")
  case StateInUse
  with assms that(1) show ?thesis by (auto simp: facade_forge_def handleState_def)
next
  case StateInitializing
  define w where "w = (if fc_state fc = StateInitializing then set_sequences (fc_world fc) else fc_world fc)"
  from assms StateInitializing obtain r w' where "forgeLog (c\<lparr>c_pooled := False\<rparr>) pm schedule w = Some (r, w')"
    "r = x"
    unfolding facade_forge_def handleState_def w_def [symmetric] Let_def
    by (cases "forgeLog (c\<lparr>c_pooled := False\<rparr>) pm schedule w") (auto, case_tac a, auto split: if_splits)
  then have w': "forgeLog (c\<lparr>c_pooled := False\<rparr>) pm schedule w = Some (x, w')" by simp
  have "if (\<exists>e. x = Inl e) \<or> pm_DryRun pm then fc' = fc\<lparr>fc_world := w'\<lparr>w_tables := w_tables w\<rparr>\<rparr>
       else fc' = fc\<lparr>fc_cached := StateInUse, fc_state := StateInUse, fc_world := w'\<rparr>"
    using assms StateInitializing w' unfolding facade_forge_def handleState_def w_def [symmetric] Let_def
    by (cases x) auto
  with that(2) [OF w_def w' StateInitializing] show ?thesis by blast
qed

lemma used_importable:
  assumes "used c fc" "parsers_ok c" "parsers_read c"
  shows "importable c (fc_world fc)"
  using assms(1)
proof induction
  case used_new
  show ?case by (simp add: importable_def numbered_def rebuilds_def new_ledger_def empty_tables_def)
next
  case (used_operation fc pm schedule x fc')
  note R = forgeLog_ran [OF _ _ _ used_operation(3,4)]
  from used_operation(2) show ?case
  proof (cases rule: facade_forge_cases)
    case (used w')
    with R [OF _ _ used(1)] importable_ran [OF assms(2,3) _ used_operation.IH] assms(2,3) show ?thesis by simp
  next
    case (unused w w')
    have w: "importable c w" using unused(1) set_sequences_importable used_operation.IH by simp
    have r: "ran (c\<lparr>c_pooled := False\<rparr>) pm w x w'" using R [OF _ _ unused(2)] assms(2,3) by simp
    show ?thesis
    proof (cases "(\<exists>e. x = Inl e) \<or> pm_DryRun pm")
      case True
      then have "kept_result pm x" by (cases "(pm, x)" rule: kept_result.cases) auto
      with importable_kept [OF assms(2,3) r w] unused(4) True show ?thesis by simp
    next
      case False
      with importable_ran [OF assms(2,3) r w] unused(4) show ?thesis by simp
    qed
  qed
qed


section \<open>Exports rebuild ledgers\<close>

lemma sort_key_sorted: "sorted (map f xs) \<Longrightarrow> sort_key f xs = xs"
  by (induction xs) (auto simp: insort_is_Cons)

lemma write_all: "write_logs (\<lambda>_. None) ls = (ls, Inr ())"
  by (induction ls) auto

lemma export_numbered: "numbered w \<Longrightarrow> Export (\<lambda>_. None) (w_tables w) = (t_logs (w_tables w), Inr ())"
  by (simp add: Export_def write_all numbered_def sort_key_sorted strict_sorted_imp_sorted)

text \<open>
  Claim C8. The export of a ledger made by any sequence of operations writes all of its logs, and
  their import into a new ledger, when no statement fails, succeeds and leaves the same
  transactions, moves, logs with their hashes, schemas and volumes.
\<close>

theorem imports_rebuild_the_ledger:
  assumes "used c fc" "parsers_ok c" "parsers_read c" "undisturbed as" "length as = length (t_logs (w_tables (fc_world fc)))"
  shows "\<exists>exported fc'. Export (\<lambda>_. None :: string option) (w_tables (fc_world fc)) = (exported, Inr ()) \<and>
    facade_Import c (zip exported as) new_ledger = (Inr (), fc') \<and>
    same_tables (w_tables (fc_world fc)) (w_tables (fc_world fc'))"
proof -
  from used_importable [OF assms(1-3)] have i: "numbered (fc_world fc)" "rebuilds c (w_tables (fc_world fc))"
    by (simp_all add: importable_def)
  from i(2) assms(4,5) obtain w where
    "import_loop (c\<lparr>c_pooled := False\<rparr>) None (zip (t_logs (w_tables (fc_world fc))) as) (fc_world new_ledger) = (Inr (), w)"
    "same_tables (w_tables (fc_world fc)) (w_tables w)"
    unfolding rebuilds_def by (metis facade.select_convs(3) new_ledger_def world.select_convs(1))
  then show ?thesis
    by (simp add: export_numbered [OF i(1)] facade_Import_def Import_def last_log_id_def new_ledger_def empty_tables_def Let_def)
qed

lemma sample_parsers_read: "parsers_read sample_controller"
  by (auto simp: parsers_read_def reads_only_def getParser_def sample_controller_def sample_runtime_def returnS_def
      keeps_def split: if_splits)

lemma sample_dated: "n \<noteq> zero_time \<Longrightarrow> dated [sample_attempt n f]"
  by (simp add: dated_def sample_attempt_def)

lemma sample_facade:
  "\<exists>l out fc. facade_forge sample_controller (sample_parameters False) [sample_attempt 100 None] new_ledger =
     Some (Inr (l, out, False), fc) \<and> length (t_logs (w_tables (fc_world fc))) = 1 \<and>
     vol_at (t_volumes (w_tables (fc_world fc))) ''bank'' ''USD'' = \<lparr>v_Input = 10, v_Output = 0\<rparr>"
  by (rule forged_anew) code_simp

theorem imports_rebuild_the_ledger_witness:
  "\<exists>fc exported fc'. used sample_controller fc \<and>
     Export (\<lambda>_. None :: string option) (w_tables (fc_world fc)) = (exported, Inr ()) \<and>
     facade_Import sample_controller (zip exported [sample_attempt 300 None]) new_ledger = (Inr (), fc') \<and>
     vol_at (t_volumes (w_tables (fc_world fc'))) ''bank'' ''USD'' = \<lparr>v_Input = 10, v_Output = 0\<rparr>"
proof -
  from sample_facade obtain l out fc where
    f: "facade_forge sample_controller (sample_parameters False) [sample_attempt 100 None] new_ledger =
      Some (Inr (l, out, False), fc)" "length (t_logs (w_tables (fc_world fc))) = 1"
    "vol_at (t_volumes (w_tables (fc_world fc))) ''bank'' ''USD'' = \<lparr>v_Input = 10, v_Output = 0\<rparr>" by blast
  have d: "dated [sample_attempt 100 None]" by (rule sample_dated) (simp add: zero_time_def)
  have u: "used sample_controller fc" by (rule used_operation [OF used_new f(1) sample_alone(1) d])
  have a: "undisturbed [sample_attempt 300 None]" "length [sample_attempt 300 None] = length (t_logs (w_tables (fc_world fc)))"
    by (simp_all add: undisturbed_def sample_attempt_def f(2))
  from imports_rebuild_the_ledger [OF u sample_parsers_ok sample_parsers_read a] u f(3) show ?thesis
    by (auto simp: same_tables_def)
qed


section \<open>The first operation closes the ledger to imports\<close>

lemma runLog_log_id:
  assumes "parsers_read c" "runLog c pm s = (Inr (l, out), s')" "s_now s \<noteq> zero_time"
  shows "lg_ID l = Some (s_logSeq s)" "t_logs (s_tx s') = t_logs (s_tx s) @ [l] \<or> \<not> parsers_ok c"
proof -
  obtain u where "sim s u" unfolding sim_def healthy_def
    by (metis same_refl session.select_convs(1,6,7))
  from runLog_replay(2) [OF assms this] show "lg_ID l = Some (s_logSeq s)" .
  show "t_logs (s_tx s') = t_logs (s_tx s) @ [l] \<or> \<not> parsers_ok c"
    using runLog_Inr(2) [OF _ assms(2)] by (auto simp: log_rows_def)
qed

text \<open>
  Claim C10. Whatever ids an import has given the logs of a ledger, its first operation that is
  kept takes an id after all of them and appends its log, and from then on imports are refused and
  change nothing.
\<close>

theorem first_operation_follows_the_import:
  assumes "parsers_ok c" "parsers_read c" "alone schedule" "dated schedule"
    and "fc_cached fc = StateInitializing" "fc_state fc = StateInitializing"
    and "facade_forge c pm schedule fc = Some (x, fc')" "\<not> kept_result pm x"
  shows "(\<exists>l i. t_logs (w_tables (fc_world fc')) = t_logs (w_tables (fc_world fc)) @ [l] \<and> lg_ID l = Some i \<and>
      (\<forall>r \<in> set (t_logs (w_tables (fc_world fc))). row_id r < i)) \<and>
    facade_Import c stream fc' = (raise (ImportError ''ledger is not in initializing state''), fc')"
  using assms(7)
proof (cases rule: facade_forge_cases)
  case (unused w w')
  have w: "w = set_sequences (fc_world fc)" using unused(1) assms(6) by simp
  have n: "\<not> ((\<exists>e. x = Inl e) \<or> pm_DryRun pm)" using assms(8) by (cases x) auto
  with unused(4) have fc': "fc' = fc\<lparr>fc_cached := StateInUse, fc_state := StateInUse, fc_world := w'\<rparr>" by simp
  have p: "parsers_ok (c\<lparr>c_pooled := False\<rparr>)" "parsers_read (c\<lparr>c_pooled := False\<rparr>)" using assms(1,2) by simp_all
  from forgeLog_ran [OF p unused(2) assms(3,4)] assms(8) obtain s l out s' where
    s: "without_accounts (s_tx s) = without_accounts (w_tables w)" "w_logSeq w \<le> s_logSeq s" "s_now s \<noteq> zero_time"
    "runLog (c\<lparr>c_pooled := False\<rparr>) pm s = (Inr (l, out), s')" "w_tables w' = s_tx s'"
    unfolding ran_def by blast
  note i = runLog_log_id [OF p(2) s(4,3)]
  have rows: "t_logs (s_tx s) = t_logs (w_tables (fc_world fc))"
    using without_accounts_logs [OF s(1)] by (simp add: w set_sequences_seq(1))
  have "row_id r < s_logSeq s" if "r \<in> set (t_logs (w_tables (fc_world fc)))" for r
    using set_sequences_seq(2) [OF that] s(2) by (simp add: w)
  with i rows p(1) s(5) show ?thesis
    by (auto simp: fc' facade_Import_def Let_def)
qed (use assms(5) in simp)

theorem first_operation_follows_the_import_witness:
  "\<exists>x fc l. facade_forge sample_controller (sample_parameters False) [sample_attempt 100 None] new_ledger = Some (x, fc) \<and>
     t_logs (w_tables (fc_world fc)) = [l] \<and>
     facade_Import sample_controller [] fc = (raise (ImportError ''ledger is not in initializing state''), fc)"
proof -
  from sample_facade obtain l out fc where
    f: "facade_forge sample_controller (sample_parameters False) [sample_attempt 100 None] new_ledger =
      Some (Inr (l, out, False), fc)" by blast
  have d: "dated [sample_attempt 100 None]" by (rule sample_dated) (simp add: zero_time_def)
  have n: "fc_cached new_ledger = StateInitializing" "fc_state new_ledger = StateInitializing"
    "\<not> kept_result (sample_parameters False) (Inr (l, out, False))"
    by (simp_all add: new_ledger_def sample_parameters_def)
  from first_operation_follows_the_import [OF sample_parsers_ok sample_parsers_read sample_alone(1) d n(1,2) f n(3), of "[]"] f
  show ?thesis by (auto simp: new_ledger_def empty_tables_def)
qed

section \<open>Default metadata\<close>

definition tiered_schema :: schema_data where
  "tiered_schema = \<lparr>sd_Chart = Some [(''bank'', ChartSegment None []
     (Some \<lparr>ca_Metadata = Some [(''tier'', Some ''gold'')]\<rparr>))], sd_Transactions = [], sd_Queries = []\<rparr>"

definition tier_of :: "facade \<Rightarrow> string option" where
  "tier_of fc = (case map_of (t_accounts (w_tables (fc_world fc))) ''bank'' of
     None \<Rightarrow> None | Some a \<Rightarrow> map_of (ac_Metadata a) ''tier'')"

definition tiered_ledger :: "facade option" where
  "tiered_ledger =
     (case facade_forge sample_controller \<lparr>pm_DryRun = False, pm_SchemaVersion = [], pm_IdempotencyKey = [],
         pm_Input = InputInsertSchema ''v1'' tiered_schema\<rparr> [sample_attempt 100 None] new_ledger of
        Some (Inr _, fc) \<Rightarrow>
          map_option snd (facade_forge sample_controller \<lparr>pm_DryRun = False, pm_SchemaVersion = ''v1'',
            pm_IdempotencyKey = [], pm_Input = InputSaveAccountMetadata ''bank'' [(''k'', ''v'')]\<rparr>
            [sample_attempt 200 None] fc)
      | _ \<Rightarrow> None)"

text \<open>
  Imports lose default metadata: an account that got the default of its schema when its
  metadata were first saved is without it in the ledger its export is imported into.
\<close>

lemma imports_lose_default_metadata:
  "case tiered_ledger of
     None \<Rightarrow> False
   | Some fc \<Rightarrow> tier_of fc = Some ''gold'' \<and>
       (case facade_Import sample_controller
          (zip (fst (Export (\<lambda>_. None :: string option) (w_tables (fc_world fc))))
            [sample_attempt 300 None, sample_attempt 400 None]) new_ledger of
          (Inr _, fc') \<Rightarrow> length (t_logs (w_tables (fc_world fc'))) = 2 \<and> tier_of fc' = None
        | _ \<Rightarrow> False)"
  by code_simp

end
