(* ===== verification/Tx_Script.thy ===== *)
theory Tx_Script
  imports Ledger_Controller
begin

text \<open>
  The script of a list of postings (\<open>TxToScriptData\<close> of
  \<open>internal/controller/ledger/numscript.go\<close>): one variable per account and per amount, one
  statement per posting. The two maps keep the order in which their keys are assigned; the names
  are sorted before they are written, and the variables are a map again.
\<close>

section \<open>Variables\<close>

record script_variable =
  sv_name :: string
  sv_value :: string

record run_script_data =
  rs_Plain :: string
  rs_Template :: string
  rs_Vars :: "(string \<times> string) list"
  rs_Timestamp :: time
  rs_Metadata :: metadata_map
  rs_Reference :: string

text \<open>\<open>big.Int.String\<close>, of a nil pointer too.\<close>

definition amount_text :: "int option \<Rightarrow> string" where
  "amount_text n = (case n of None \<Rightarrow> ''<nil>'' | Some i \<Rightarrow> show_int i)"

definition monetary_key :: "posting \<Rightarrow> string" where
  "monetary_key p = ''['' @ amount_text (p_Amount p) @ '' '' @ p_Asset p @ '']''"

definition add_account_var ::
    "string \<Rightarrow> (string \<times> script_variable) list \<times> nat \<Rightarrow> (string \<times> script_variable) list \<times> nat" where
  "add_account_var a = (\<lambda>(vars, i).
     if map_of vars a = None \<and> a \<noteq> ''world''
     then (vars @ [(a, \<lparr>sv_name = ''va'' @ show_nat i, sv_value = a\<rparr>)], i + 1) else (vars, i))"

definition add_monetary_var ::
    "posting \<Rightarrow> (string \<times> script_variable) list \<times> nat \<Rightarrow> (string \<times> script_variable) list \<times> nat" where
  "add_monetary_var p = (\<lambda>(vars, j).
     if map_of vars (monetary_key p) = None
     then (vars @ [(monetary_key p, \<lparr>sv_name = ''vm'' @ show_nat j,
             sv_value = p_Asset p @ '' '' @ amount_text (p_Amount p)\<rparr>)], j + 1)
     else (vars, j))"

fun collect_vars ::
    "posting list \<Rightarrow> (string \<times> script_variable) list \<times> nat \<Rightarrow> (string \<times> script_variable) list \<times> nat \<Rightarrow>
     (string \<times> script_variable) list \<times> (string \<times> script_variable) list" where
  "collect_vars [] accounts monetaries = (fst accounts, fst monetaries)"
| "collect_vars (p # ps) accounts monetaries =
     collect_vars ps (add_account_var (p_Destination p) (add_account_var (p_Source p) accounts))
       (add_monetary_var p monetaries)"

section \<open>Text\<close>

definition NL :: string where
  "NL = [CHR 0x0A]"

definition TAB :: string where
  "TAB = [CHR 0x09]"

definition declarations :: "string \<Rightarrow> (string \<times> script_variable) list \<Rightarrow> string" where
  "declarations type vars =
     concat (map (\<lambda>name. TAB @ type @ '' $'' @ name @ NL) (sort (map (sv_name \<circ> snd) vars)))"

text \<open>The text of a side of a statement; an account without a variable is a panic.\<close>

definition source_text :: "bool \<Rightarrow> (string \<times> script_variable) list \<Rightarrow> string \<Rightarrow> ('e, string) result" where
  "source_text unbounded accounts a =
     (if a = ''world'' then Inr (TAB @ ''source = @world'' @ NL)
      else case map_of accounts a of
        None \<Rightarrow> panic
      | Some v \<Rightarrow> Inr (TAB @ ''source = $'' @ sv_name v @
          (if unbounded then '' allowing unbounded overdraft'' else []) @ NL))"

definition destination_text :: "(string \<times> script_variable) list \<Rightarrow> string \<Rightarrow> ('e, string) result" where
  "destination_text accounts a =
     (if a = ''world'' then Inr (TAB @ ''destination = @world'' @ NL)
      else case map_of accounts a of
        None \<Rightarrow> panic
      | Some v \<Rightarrow> Inr (TAB @ ''destination = $'' @ sv_name v @ NL))"

definition send_text ::
    "bool \<Rightarrow> (string \<times> script_variable) list \<Rightarrow> (string \<times> script_variable) list \<Rightarrow> posting \<Rightarrow> ('e, string) result" where
  "send_text unbounded accounts monetaries p =
     (case map_of monetaries (monetary_key p) of
        None \<Rightarrow> panic
      | Some mon \<Rightarrow>
          bindr (source_text unbounded accounts (p_Source p)) (\<lambda>src.
          bindr (destination_text accounts (p_Destination p)) (\<lambda>dest.
            Inr (''send $'' @ sv_name mon @ '' ('' @ NL @ src @ dest @ '')'' @ NL))))"

fun sends_text ::
    "bool \<Rightarrow> (string \<times> script_variable) list \<Rightarrow> (string \<times> script_variable) list \<Rightarrow> posting list \<Rightarrow> ('e, string) result" where
  "sends_text unbounded accounts monetaries [] = Inr []"
| "sends_text unbounded accounts monetaries (p # ps) =
     bindr (send_text unbounded accounts monetaries p) (\<lambda>s.
     bindr (sends_text unbounded accounts monetaries ps) (\<lambda>rest. Inr (s @ rest)))"

definition TxToScriptData ::
    "posting list \<Rightarrow> time \<Rightarrow> string \<Rightarrow> metadata_map \<Rightarrow> bool \<Rightarrow> ('e, run_script_data) result" where
  "TxToScriptData ps timestamp reference meta unbounded =
     (case collect_vars ps ([], 0) ([], 0) of (accounts, monetaries) \<Rightarrow>
        bindr (sends_text unbounded accounts monetaries ps) (\<lambda>sends. Inr
          \<lparr>rs_Plain = ''vars {'' @ NL @ declarations ''account'' accounts @ declarations ''monetary'' monetaries @
             ''}'' @ NL @ sends,
           rs_Template = [],
           rs_Vars = map (\<lambda>(_, v). (sv_name v, sv_value v)) (accounts @ monetaries),
           rs_Timestamp = timestamp, rs_Metadata = meta, rs_Reference = reference\<rparr>))"

section \<open>The variables name the accounts and the amounts\<close>

lemma show_nat_inj [simp]: "show_nat i = show_nat j \<longleftrightarrow> i = j"
  by (metis digits_value_show_nat)

lemma amount_text_inj [simp]: "amount_text m = amount_text n \<longleftrightarrow> m = n"
proof -
  have "show_int i \<noteq> ''<nil>''" for i
    using parse_show_int [of i] by (auto simp: parse_int_def all_digits_def char_class_defs)
  then show ?thesis
    by (auto simp: amount_text_def split: option.splits) (metis option.inject parse_show_int)+
qed

lemma amount_text_no_space: "CHR '' '' \<notin> set (amount_text n)"
  by (auto simp: amount_text_def show_int_no_space split: option.splits)

lemma monetary_key_inj: "monetary_key p = monetary_key q \<longleftrightarrow> p_Amount p = p_Amount q \<and> p_Asset p = p_Asset q"
proof
  assume "monetary_key p = monetary_key q"
  then have "amount_text (p_Amount p) @ CHR '' '' # p_Asset p = amount_text (p_Amount q) @ CHR '' '' # p_Asset q"
    by (simp add: monetary_key_def)
  then have "split_first (CHR '' '') (amount_text (p_Amount p) @ CHR '' '' # p_Asset p) =
      split_first (CHR '' '') (amount_text (p_Amount q) @ CHR '' '' # p_Asset q)" by simp
  then show "p_Amount p = p_Amount q \<and> p_Asset p = p_Asset q"
    by (simp add: split_first_Some amount_text_no_space)
qed (simp add: monetary_key_def)

text \<open>The state of one of the two maps: the \<open>n\<close>-th key has the \<open>n\<close>-th name.\<close>

definition var_table :: "string \<Rightarrow> (string \<times> script_variable) list \<times> nat \<Rightarrow> bool" where
  "var_table pre = (\<lambda>(vars, i). i = length vars \<and> distinct (map fst vars) \<and>
     (\<forall>n < length vars. sv_name (snd (vars ! n)) = pre @ show_nat n))"

lemma var_table_snoc:
  "var_table pre (vars, i) \<Longrightarrow> map_of vars k = None \<Longrightarrow>
   var_table pre (vars @ [(k, \<lparr>sv_name = pre @ show_nat i, sv_value = v\<rparr>)], i + 1)"
  by (auto simp: var_table_def nth_append map_of_eq_None_iff)

lemma add_var_table:
  "var_table ''va'' st \<Longrightarrow> var_table ''va'' (add_account_var a st)"
  "var_table ''vm'' st \<Longrightarrow> var_table ''vm'' (add_monetary_var p st)"
  using var_table_snoc [of "''va''"] var_table_snoc [of "''vm''"]
  by (cases st; simp add: add_account_var_def add_monetary_var_def)+

lemma collect_vars_table:
  "var_table ''va'' as \<Longrightarrow> var_table ''vm'' ms \<Longrightarrow> collect_vars ps as ms = (vs, ws) \<Longrightarrow>
   var_table ''va'' (vs, length vs) \<and> var_table ''vm'' (ws, length ws)"
proof (induction ps as ms rule: collect_vars.induct)
  case (1 as ms)
  then show ?case by (cases as; cases ms) (auto simp: var_table_def)
next
  case (2 p ps as ms)
  then show ?case by (simp add: add_var_table)
qed

lemma var_table_names:
  assumes "var_table pre (vars, n)"
  shows "distinct (map (sv_name \<circ> snd) vars)" "x \<in> set vars \<Longrightarrow> take (length pre) (sv_name (snd x)) = pre"
  using assms by (auto simp: var_table_def distinct_conv_nth in_set_conv_nth)

text \<open>What the entries hold, and that entries stay.\<close>

definition account_entries :: "(string \<times> script_variable) list \<Rightarrow> bool" where
  "account_entries vars \<longleftrightarrow> (\<forall>(k, v) \<in> set vars. sv_value v = k)"

definition monetary_entries :: "(string \<times> script_variable) list \<Rightarrow> bool" where
  "monetary_entries vars \<longleftrightarrow>
     (\<forall>(k, v) \<in> set vars. \<exists>p. k = monetary_key p \<and> sv_value v = p_Asset p @ '' '' @ amount_text (p_Amount p))"

lemma collect_vars_entries:
  "account_entries (fst as) \<Longrightarrow> monetary_entries (fst ms) \<Longrightarrow> collect_vars ps as ms = (vs, ws) \<Longrightarrow>
   account_entries vs \<and> monetary_entries ws"
proof (induction ps as ms rule: collect_vars.induct)
  case (2 p ps as ms)
  have "account_entries (fst (add_account_var a st))" if "account_entries (fst st)" for a st
    using that by (cases st) (auto simp: add_account_var_def account_entries_def)
  moreover have "monetary_entries (fst (add_monetary_var p ms))"
    using 2(3) by (cases ms) (auto simp: add_monetary_var_def monetary_entries_def)
  ultimately show ?case using 2 by simp
qed auto

lemma add_var_keeps:
  "map_of (fst st) k \<noteq> None \<Longrightarrow> map_of (fst (add_account_var a st)) k = map_of (fst st) k"
  "map_of (fst st) k \<noteq> None \<Longrightarrow> map_of (fst (add_monetary_var p st)) k = map_of (fst st) k"
  by (auto simp: add_account_var_def add_monetary_var_def case_prod_beta map_add_def split: option.splits)

lemma add_var_adds:
  "a \<noteq> ''world'' \<Longrightarrow> map_of (fst (add_account_var a st)) a \<noteq> None"
  "map_of (fst (add_monetary_var p st)) (monetary_key p) \<noteq> None"
  by (auto simp: add_account_var_def add_monetary_var_def case_prod_beta map_add_def)

lemma collect_vars_keeps:
  "collect_vars ps as ms = (vs, ws) \<Longrightarrow>
   (map_of (fst as) k \<noteq> None \<longrightarrow> map_of vs k \<noteq> None) \<and> (map_of (fst ms) k \<noteq> None \<longrightarrow> map_of ws k \<noteq> None)"
  by (induction ps as ms rule: collect_vars.induct) (auto simp: add_var_keeps)

lemma add_account_var_stays: "map_of (fst st) k \<noteq> None \<Longrightarrow> map_of (fst (add_account_var a st)) k \<noteq> None"
  by (simp add: add_var_keeps)

lemma collect_vars_covers:
  "collect_vars ps as ms = (vs, ws) \<Longrightarrow> p \<in> set ps \<Longrightarrow>
   (p_Source p \<noteq> ''world'' \<longrightarrow> map_of vs (p_Source p) \<noteq> None) \<and>
   (p_Destination p \<noteq> ''world'' \<longrightarrow> map_of vs (p_Destination p) \<noteq> None) \<and>
   map_of ws (monetary_key p) \<noteq> None"
proof (induction ps as ms rule: collect_vars.induct)
  case (2 q ps as ms)
  note k = collect_vars_keeps [OF 2(2) [unfolded collect_vars.simps]]
  show ?case
  proof (cases "p = q")
    case True
    have "map_of vs (p_Source q) \<noteq> None" if "p_Source q \<noteq> ''world''"
      using k [of "p_Source q"] add_account_var_stays [OF add_var_adds(1) [OF that]] by blast
    moreover have "map_of vs (p_Destination q) \<noteq> None" if "p_Destination q \<noteq> ''world''"
      using k [of "p_Destination q"] add_var_adds(1) [OF that] by blast
    ultimately show ?thesis using True k [of "monetary_key q"] add_var_adds(2) by blast
  next
    case False
    with 2(3) have "p \<in> set ps" by simp
    from 2(1) [OF 2(2) [unfolded collect_vars.simps] this] show ?thesis .
  qed
qed simp

section \<open>The script reads back as the postings\<close>

text \<open>A statement of the script, and what its names stand for.\<close>

record send_statement =
  ss_monetary :: string
  ss_source :: "string option"
  ss_destination :: "string option"

definition statement_text :: "bool \<Rightarrow> send_statement \<Rightarrow> string" where
  "statement_text unbounded s =
     ''send $'' @ ss_monetary s @ '' ('' @ NL @
     (case ss_source s of
        None \<Rightarrow> TAB @ ''source = @world'' @ NL
      | Some n \<Rightarrow> TAB @ ''source = $'' @ n @ (if unbounded then '' allowing unbounded overdraft'' else []) @ NL) @
     (case ss_destination s of
        None \<Rightarrow> TAB @ ''destination = @world'' @ NL
      | Some n \<Rightarrow> TAB @ ''destination = $'' @ n @ NL) @ '')'' @ NL"

definition stands_for :: "(string \<times> string) list \<Rightarrow> string option \<Rightarrow> string \<Rightarrow> bool" where
  "stands_for vars name a \<longleftrightarrow>
     (case name of None \<Rightarrow> a = ''world'' | Some n \<Rightarrow> a \<noteq> ''world'' \<and> map_of vars n = Some a)"

definition reads_as :: "(string \<times> string) list \<Rightarrow> send_statement \<Rightarrow> posting \<Rightarrow> bool" where
  "reads_as vars s p \<longleftrightarrow>
     map_of vars (ss_monetary s) = Some (p_Asset p @ '' '' @ amount_text (p_Amount p)) \<and>
     stands_for vars (ss_source s) (p_Source p) \<and> stands_for vars (ss_destination s) (p_Destination p)"

definition statement_of ::
    "(string \<times> script_variable) list \<Rightarrow> (string \<times> script_variable) list \<Rightarrow> posting \<Rightarrow> send_statement" where
  "statement_of accounts monetaries p =
     \<lparr>ss_monetary = sv_name (the (map_of monetaries (monetary_key p))),
      ss_source = (if p_Source p = ''world'' then None else map_option sv_name (map_of accounts (p_Source p))),
      ss_destination = (if p_Destination p = ''world'' then None else map_option sv_name (map_of accounts (p_Destination p)))\<rparr>"

definition vars_of :: "(string \<times> script_variable) list \<Rightarrow> (string \<times> string) list" where
  "vars_of = map (\<lambda>(_, v). (sv_name v, sv_value v))"

lemma fst_vars_of: "map fst (vars_of vars) = map (sv_name \<circ> snd) vars"
  by (simp add: vars_of_def case_prod_beta o_def)

lemma vars_of_distinct:
  assumes "var_table ''va'' (vs, n)" "var_table ''vm'' (ws, m)"
  shows "distinct (map fst (vars_of (vs @ ws)))"
proof -
  have "False" if "x \<in> set vs" "y \<in> set ws" "sv_name (snd x) = sv_name (snd y)" for x y
    using var_table_names(2) [OF assms(1) that(1)] var_table_names(2) [OF assms(2) that(2)] that(3) by simp
  then show ?thesis
    using var_table_names(1) [OF assms(1)] var_table_names(1) [OF assms(2)]
    by (auto simp: fst_vars_of)
qed

lemma vars_of_lookup:
  "distinct (map fst (vars_of vars)) \<Longrightarrow> (k, v) \<in> set vars \<Longrightarrow> map_of (vars_of vars) (sv_name v) = Some (sv_value v)"
  by (rule map_of_is_SomeI) (force simp: vars_of_def)+

lemma statement_reads:
  assumes "distinct (map fst (vars_of (vs @ ws)))" "account_entries vs" "monetary_entries ws"
    and "p_Source p \<noteq> ''world'' \<longrightarrow> map_of vs (p_Source p) \<noteq> None"
    and "p_Destination p \<noteq> ''world'' \<longrightarrow> map_of vs (p_Destination p) \<noteq> None"
    and "map_of ws (monetary_key p) \<noteq> None"
  shows "reads_as (vars_of (vs @ ws)) (statement_of vs ws p) p"
    and "send_text unbounded vs ws p = Inr (statement_text unbounded (statement_of vs ws p))"
proof -
  have acc: "map_of (vars_of (vs @ ws)) (sv_name v) = Some a" if "map_of vs a = Some v" for a v
    using vars_of_lookup [OF assms(1), of a v] map_of_SomeD [OF that] assms(2) by (auto simp: account_entries_def)
  have mon: "map_of (vars_of (vs @ ws)) (sv_name v) = Some (p_Asset p @ '' '' @ amount_text (p_Amount p))"
    if "map_of ws (monetary_key p) = Some v" for v
    using vars_of_lookup [OF assms(1), of "monetary_key p" v] map_of_SomeD [OF that] assms(3)
    by (fastforce simp: monetary_entries_def monetary_key_inj)
  show "reads_as (vars_of (vs @ ws)) (statement_of vs ws p) p"
    using assms(4-6) acc mon by (auto simp: reads_as_def stands_for_def statement_of_def)
  show "send_text unbounded vs ws p = Inr (statement_text unbounded (statement_of vs ws p))"
    using assms(4-6)
    by (auto simp: send_text_def source_text_def destination_text_def statement_text_def statement_of_def)
qed


lemma sends_text_statements:
  assumes "\<forall>p \<in> set ps. send_text u vs ws p = (Inr (statement_text u (statement_of vs ws p)) :: ('e, _) result)"
  shows "sends_text u vs ws ps = (Inr (concat (map (\<lambda>p. statement_text u (statement_of vs ws p)) ps)) :: ('e, _) result)"
  using assms by (induction ps) simp_all

definition var_lines :: "string \<Rightarrow> string list \<Rightarrow> string" where
  "var_lines ty names = concat (map (\<lambda>n. TAB @ ty @ '' $'' @ n @ NL) names)"

definition written_script ::
    "(string \<times> script_variable) list \<Rightarrow> (string \<times> script_variable) list \<Rightarrow> posting list \<Rightarrow>
     time \<Rightarrow> string \<Rightarrow> metadata_map \<Rightarrow> bool \<Rightarrow> run_script_data" where
  "written_script vs ws ps timestamp reference meta unbounded = \<lparr>rs_Plain = ''vars {'' @ NL @ var_lines ''account'' (sort (map (sv_name \<circ> snd) vs)) @
         var_lines ''monetary'' (sort (map (sv_name \<circ> snd) ws)) @ ''}'' @ NL @
         concat (map (statement_text unbounded) (map (statement_of vs ws) ps)),
       rs_Template = [], rs_Vars = vars_of (vs @ ws), rs_Timestamp = timestamp, rs_Metadata = meta,
       rs_Reference = reference\<rparr>"

text \<open>The two maps of a list of postings, and the script made from them.\<close>

lemma TxToScriptData_parts:
  fixes ps :: "posting list"
  obtains vs ws where "distinct (map fst (vars_of (vs @ ws)))" "list_all2 (reads_as (vars_of (vs @ ws))) (map (statement_of vs ws) ps) ps"
    "\<And>timestamp reference meta unbounded. TxToScriptData ps timestamp reference meta unbounded = (Inr (written_script vs ws ps timestamp reference meta unbounded) :: ('e, _) result)"
proof -
  obtain vs ws where c: "collect_vars ps ([], 0) ([], 0) = (vs, ws)" by fastforce
  have t: "var_table ''va'' (vs, length vs)" "var_table ''vm'' (ws, length ws)"
    using collect_vars_table [OF _ _ c] by (simp_all add: var_table_def)
  have e: "account_entries vs" "monetary_entries ws"
    using collect_vars_entries [OF _ _ c] by (simp_all add: account_entries_def monetary_entries_def)
  have d: "distinct (map fst (vars_of (vs @ ws)))" by (rule vars_of_distinct [OF t])
  note r = statement_reads [OF d e]
  have s: "send_text unbounded vs ws p = (Inr (statement_text unbounded (statement_of vs ws p)) :: ('e, _) result)"
    "reads_as (vars_of (vs @ ws)) (statement_of vs ws p) p" if "p \<in> set ps" for p unbounded
    using collect_vars_covers [OF c that] r by blast+
  show ?thesis
  proof (rule that [OF d])
    show "list_all2 (reads_as (vars_of (vs @ ws))) (map (statement_of vs ws) ps) ps"
      by (simp add: list_all2_conv_all_nth s(2))
    fix timestamp reference meta unbounded
    show "TxToScriptData ps timestamp reference meta unbounded = (Inr (written_script vs ws ps timestamp reference meta unbounded) :: ('e, _) result)"
      using sends_text_statements [of ps unbounded vs ws, where 'e = 'e] s(1)
      by (simp add: TxToScriptData_def written_script_def c declarations_def var_lines_def vars_of_def o_def)
  qed
qed

text \<open>
  Claim C32. The script made of postings reads back as the postings: it never panics, its text is a
  block that declares every variable once, then one statement per posting in their order, and the
  variables it is run with give the names of a statement the source, the destination, the asset
  and the amount of its posting; only the world is written as itself.
\<close>

theorem scripts_of_postings_read_back:
  "\<exists>rs accounts monetaries sends. TxToScriptData ps timestamp reference meta unbounded = (Inr rs :: ('e, _) result) \<and>
     rs_Plain rs = ''vars {'' @ NL @ var_lines ''account'' accounts @ var_lines ''monetary'' monetaries @ ''}'' @ NL @
       concat (map (statement_text unbounded) sends) \<and>
     list_all2 (reads_as (rs_Vars rs)) sends ps \<and>
     distinct (map fst (rs_Vars rs)) \<and> distinct (accounts @ monetaries) \<and>
     set (accounts @ monetaries) = fst ` set (rs_Vars rs)"
proof -
  obtain vs ws where d: "distinct (map fst (vars_of (vs @ ws)))"
    and r: "list_all2 (reads_as (vars_of (vs @ ws))) (map (statement_of vs ws) ps) ps"
    and x: "\<And>timestamp reference meta unbounded. TxToScriptData ps timestamp reference meta unbounded = (Inr (written_script vs ws ps timestamp reference meta unbounded) :: ('e, _) result)"
    using TxToScriptData_parts [of ps, where 'e = 'e] by metis
  let ?as = "sort (map (sv_name \<circ> snd) vs)" and ?ms = "sort (map (sv_name \<circ> snd) ws)"
  have "distinct (?as @ ?ms)" "set (?as @ ?ms) = fst ` set (vars_of (vs @ ws))"
    using d by (simp_all add: fst_vars_of) (simp_all add: vars_of_def image_image case_prod_beta image_Un)
  with d r x show ?thesis unfolding written_script_def by (metis run_script_data.select_convs(1,3))
qed

end
