(* ===== verification/Bulk_Elements.thy ===== *)
theory Bulk_Elements
  imports Tx_Script
begin

text \<open>
  The elements of a bulk (\<open>internal/api/bulking/elements.go\<close>), the values of script variables
  (\<open>internal/machine/vm/run.go\<close>), the text stream of scripts (\<open>text_stream.go\<close>) and the response
  (\<open>handler_json.go\<close>). A JSON number is its literal; how Go prints the float it decodes to, and the
  integer it truncates to, are parameters.
\<close>

section \<open>Values of variables\<close>

record go_floats =
  gf_text :: "string \<Rightarrow> string"
  gf_int :: "string \<Rightarrow> int"

text \<open>The members of a decoded object, in the order \<open>fmt\<close> prints a map.\<close>

definition spaced :: "string list \<Rightarrow> string" where
  "spaced = join_with (CHR '' '')"

function sprint :: "go_floats \<Rightarrow> json \<Rightarrow> string" where
  "sprint g JNull = ''<nil>''"
| "sprint g (JBool b) = (if b then ''true'' else ''false'')"
| "sprint g (JNum n) = gf_text g n"
| "sprint g (JStr s) = s"
| "sprint g (JArr js) = ''['' @ spaced (map (sprint g) js) @ '']''"
| "sprint g (JObj kvs) =
     ''map['' @ spaced (map (\<lambda>(k, v). k @ '':'' @ v)
        (sort_key fst (fold (\<lambda>(k, v). AList.update k v) (map (\<lambda>(k, v). (k, sprint g v)) kvs) []))) @ '']''"
  by pat_completeness auto
termination
proof (relation "measure (size \<circ> snd)", goal_cases)
  case (3 g kvs x k v)
  then have "size v \<le> size_list (size_prod (\<lambda>x. 0) size) kvs"
    by (induction kvs) auto
  then show ?case by simp
qed (auto simp: less_Suc_eq_le size_list_estimation')

text \<open>The verb \<open>%s\<close>: only a string is itself, any other operand is reported.\<close>

function sprint_s :: "go_floats \<Rightarrow> json \<Rightarrow> string" where
  "sprint_s g JNull = ''<nil>''"
| "sprint_s g (JBool b) = ''%!s(bool='' @ (if b then ''true'' else ''false'') @ '')''"
| "sprint_s g (JNum n) = ''%!s(float64='' @ gf_text g n @ '')''"
| "sprint_s g (JStr s) = s"
| "sprint_s g (JArr js) = ''['' @ spaced (map (sprint_s g) js) @ '']''"
| "sprint_s g (JObj kvs) =
     ''map['' @ spaced (map (\<lambda>(k, v). k @ '':'' @ v)
        (sort_key fst (fold (\<lambda>(k, v). AList.update k v) (map (\<lambda>(k, v). (k, sprint_s g v)) kvs) []))) @ '']''"
  by pat_completeness auto
termination
proof (relation "measure (size \<circ> snd)", goal_cases)
  case (3 g kvs x k v)
  then have "size v \<le> size_list (size_prod (\<lambda>x. 0) size) kvs"
    by (induction kvs) auto
  then show ?case by simp
qed (auto simp: less_Suc_eq_le size_list_estimation')

definition format_s :: "go_floats \<Rightarrow> json option \<Rightarrow> string" where
  "format_s g v = (case v of None \<Rightarrow> ''%!s(<nil>)'' | Some JNull \<Rightarrow> ''%!s(<nil>)'' | Some j \<Rightarrow> sprint_s g j)"

text \<open>\<open>ScriptV1.ToCore\<close>: an object that has no amount gives no variable.\<close>

definition core_var :: "go_floats \<Rightarrow> json \<Rightarrow> string option" where
  "core_var g v =
     (case v of
        JStr s \<Rightarrow> Some s
      | JObj kvs \<Rightarrow>
          (let m = fold (\<lambda>(k, v). AList.update k v) kvs [] in
           case map_of m ''amount'' of
             Some (JStr a) \<Rightarrow> Some (format_s g (map_of m ''asset'') @ '' '' @ a)
           | Some (JNum n) \<Rightarrow> Some (format_s g (map_of m ''asset'') @ '' '' @ show_int (gf_int g n))
           | _ \<Rightarrow> None)
      | _ \<Rightarrow> Some (sprint g v))"

definition ScriptV1_ToCore :: "go_floats \<Rightarrow> (string \<times> json) list \<Rightarrow> (string \<times> string) list" where
  "ScriptV1_ToCore g vars =
     concat (map (\<lambda>(k, v). case core_var g v of None \<Rightarrow> [] | Some s \<Rightarrow> [(k, s)]) vars)"

section \<open>Elements\<close>

record transaction_request =
  tr_Postings :: "posting list"
  tr_Plain :: string
  tr_Template :: string
  tr_Vars :: "(string \<times> json) list"
  tr_Timestamp :: time
  tr_Reference :: string
  tr_Metadata :: metadata_map
  tr_AccountMetadata :: account_metadata
  tr_Runtime :: string
  tr_Force :: bool

text \<open>The id of a target is JSON that is decoded later; it may be missing.\<close>

datatype bulk_data =
    TransactionRequest transaction_request
  | AddMetadataRequest string "json option" metadata_map
  | RevertTransactionRequest revert_input
  | DeleteMetadataRequest string "json option" string

record bulk_element =
  be_IdempotencyKey :: string
  be_Data :: bulk_data

definition ActionCreateTransaction :: string where "ActionCreateTransaction = ''CREATE_TRANSACTION''"
definition ActionAddMetadata :: string where "ActionAddMetadata = ''ADD_METADATA''"
definition ActionRevertTransaction :: string where "ActionRevertTransaction = ''REVERT_TRANSACTION''"
definition ActionDeleteMetadata :: string where "ActionDeleteMetadata = ''DELETE_METADATA''"

text \<open>The action of an element: decoding gives it the data its action asks for, or fails.\<close>

fun GetAction :: "bulk_data \<Rightarrow> string" where
  "GetAction (TransactionRequest _) = ActionCreateTransaction"
| "GetAction (AddMetadataRequest _ _ _) = ActionAddMetadata"
| "GetAction (RevertTransactionRequest _) = ActionRevertTransaction"
| "GetAction (DeleteMetadataRequest _ _ _) = ActionDeleteMetadata"

datatype bulk_error =
    InvalidPosting nat posting_error
  | BadJSON
  | InvalidTargetType string
  | BulkController ctl_error
  | BulkCanceled
  | BulkDeadlineExceeded

text \<open>The script of a request, from its postings when it has any.\<close>

definition create_of_script :: "transaction_request \<Rightarrow> run_script_data \<Rightarrow> create_input" where
  "create_of_script req rs =
     \<lparr>ci_Plain = rs_Plain rs, ci_Vars = rs_Vars rs, ci_Timestamp = rs_Timestamp rs, ci_Metadata = rs_Metadata rs,
      ci_Reference = rs_Reference rs, ci_AccountMetadata = tr_AccountMetadata req, ci_Runtime = tr_Runtime req,
      ci_Template = rs_Template rs\<rparr>"

definition TransactionRequest_ToCore :: "go_floats \<Rightarrow> transaction_request \<Rightarrow> (bulk_error, create_input) result" where
  "TransactionRequest_ToCore g req =
     (case Postings_Validate 0 (tr_Postings req) of
        Inl Panic \<Rightarrow> panic
      | Inl (Raised (i, e)) \<Rightarrow> raise (InvalidPosting i e)
      | Inr _ \<Rightarrow>
          bindr (if tr_Postings req \<noteq> []
                 then TxToScriptData (tr_Postings req) (tr_Timestamp req) (tr_Reference req) (tr_Metadata req) (tr_Force req)
                 else Inr \<lparr>rs_Plain = tr_Plain req, rs_Template = tr_Template req,
                        rs_Vars = ScriptV1_ToCore g (tr_Vars req), rs_Timestamp = tr_Timestamp req,
                        rs_Metadata = tr_Metadata req, rs_Reference = tr_Reference req\<rparr>)
            (\<lambda>rs. Inr (create_of_script req rs)))"

section \<open>The text stream\<close>

text \<open>
  \<open>bufio.ScanLines\<close>: lines without their end, the last one when it is not empty.
\<close>

definition drop_cr :: "string \<Rightarrow> string" where
  "drop_cr s = (if s \<noteq> [] \<and> last s = CHR 0x0D then butlast s else s)"

definition scan_lines :: "string \<Rightarrow> string list" where
  "scan_lines s =
     (let ls = split_on (CHR 0x0A) s in
      map drop_cr (if last ls = [] then butlast ls else ls))"

text \<open>\<open>strings.TrimSpace\<close> on ASCII.\<close>

definition is_white :: "char \<Rightarrow> bool" where
  "is_white c \<longleftrightarrow> c \<in> {CHR 0x09, CHR 0x0A, CHR 0x0B, CHR 0x0C, CHR 0x0D, CHR 0x20}"

definition TrimSpace :: "string \<Rightarrow> string" where
  "TrimSpace s = rev (dropWhile is_white (rev (dropWhile is_white s)))"

definition has_prefix :: "string \<Rightarrow> string \<Rightarrow> bool" where
  "has_prefix p s \<longleftrightarrow> take (length p) s = p"

datatype stream_error = InvalidHeader | UnknownHeaderKey string | KeyAlreadySet | ReadError

fun header_parts :: "string list \<Rightarrow> string \<Rightarrow> (stream_error, string) result" where
  "header_parts [] ik = Inr ik"
| "header_parts (part # parts) ik =
     (case split_on (CHR ''='') part of
        [] \<Rightarrow> panic
      | key # vals \<Rightarrow>
          if key \<noteq> ''ik'' then raise (UnknownHeaderKey key)
          else if ik \<noteq> [] then raise KeyAlreadySet
          else (case vals of [] \<Rightarrow> panic | v # _ \<Rightarrow> header_parts parts v))"

definition script_header :: "string \<Rightarrow> (stream_error, string) result" where
  "script_header text =
     (let rest = TrimSpace (drop (length ''//script'') text) in
      if rest = [] then Inr [] else header_parts (split_on (CHR '','') rest) [])"

text \<open>The lines up to \<open>//end\<close>, whether it was there, and what is left.\<close>

fun script_body :: "string list \<Rightarrow> string \<Rightarrow> string \<times> bool \<times> string list" where
  "script_body [] plain = (plain, False, [])"
| "script_body (line # lines) plain =
     (if line = ''//end'' then (plain, True, lines) else script_body lines (plain @ line @ NL))"

text \<open>The element of a script; the last newline is cut off, which fails on an empty text.\<close>

definition script_request :: "string \<Rightarrow> transaction_request" where
  "script_request plain =
     \<lparr>tr_Postings = [], tr_Plain = plain, tr_Template = [], tr_Vars = [], tr_Timestamp = zero_time, tr_Reference = [],
      tr_Metadata = [], tr_AccountMetadata = [], tr_Runtime = [], tr_Force = False\<rparr>"

definition script_element :: "string \<Rightarrow> string \<Rightarrow> ('e, bulk_element option) result" where
  "script_element ik plain =
     (if plain = [] then panic
      else Inr (Some \<lparr>be_IdempotencyKey = ik, be_Data = TransactionRequest (script_request (butlast plain))\<rparr>))"

text \<open>\<open>failed\<close> tells whether reading the lines ended with an error.\<close>

fun ParseTextStream :: "bool \<Rightarrow> string list \<Rightarrow> (stream_error, bulk_element option) result \<times> string list" where
  "ParseTextStream failed [] = (if failed then raise ReadError else Inr None, [])"
| "ParseTextStream failed (line # lines) =
     (let text = TrimSpace line in
      if text = [] then ParseTextStream failed lines
      else if has_prefix ''//script'' text
      then (case script_header text of
              Inl e \<Rightarrow> (Inl e, lines)
            | Inr ik \<Rightarrow>
                (case script_body lines [] of
                   (plain, True, rest) \<Rightarrow> (script_element ik plain, rest)
                 | (plain, False, rest) \<Rightarrow>
                     (if failed then raise ReadError else script_element ik plain, rest)))
      else (raise InvalidHeader, lines))"

lemma script_body_shorter: "script_body lines plain = (p, b, rest) \<Longrightarrow> length rest \<le> length lines"
  by (induction lines plain rule: script_body.induct) (auto split: if_splits)

lemma ParseTextStream_shorter:
  "ParseTextStream failed lines = (Inr (Some e), rest) \<Longrightarrow> length rest < length lines"
  by (induction failed lines rule: ParseTextStream.induct)
    (auto simp: Let_def script_element_def dest!: script_body_shorter split: if_splits sum.splits prod.splits bool.splits)

text \<open>The goroutine of \<open>TextStreamBulkHandler.GetChannels\<close>: the elements sent, and how it ends.\<close>

function text_stream :: "bool \<Rightarrow> string list \<Rightarrow> bulk_element list \<times> (stream_error, unit) result" where
  "text_stream failed lines =
     (case ParseTextStream failed lines of
        (Inl e, _) \<Rightarrow> ([], Inl e)
      | (Inr None, _) \<Rightarrow> ([], Inr ())
      | (Inr (Some e), rest) \<Rightarrow> (case text_stream failed rest of (es, r) \<Rightarrow> (e # es, r)))"
  by pat_completeness auto
termination
  by (relation "measure (length \<circ> snd)") (auto dest: ParseTextStream_shorter [OF sym])

declare text_stream.simps [simp del]

section \<open>The text stream reads scripts back\<close>

text \<open>A stream of scripts: the key and the lines of each.\<close>

definition script_lines :: "string \<times> string list \<Rightarrow> string list" where
  "script_lines s = (if fst s = [] then ''//script'' else ''//script ik='' @ fst s) # snd s @ [''//end'']"

definition plain_line :: "string \<Rightarrow> bool" where
  "plain_line l \<longleftrightarrow> CHR 0x0A \<notin> set l \<and> (l \<noteq> [] \<longrightarrow> last l \<noteq> CHR 0x0D)"

definition plain_script :: "string \<times> string list \<Rightarrow> bool" where
  "plain_script s \<longleftrightarrow> (\<forall>c \<in> set (fst s). \<not> is_white c \<and> c \<noteq> CHR '','' \<and> c \<noteq> CHR ''='') \<and>
     snd s \<noteq> [] \<and> ''//end'' \<notin> set (snd s) \<and> list_all plain_line (snd s)"

definition element_of_script :: "string \<times> string list \<Rightarrow> bulk_element" where
  "element_of_script s = \<lparr>be_IdempotencyKey = fst s,
     be_Data = TransactionRequest (script_request (join_with (CHR 0x0A) (snd s)))\<rparr>"

definition stream_text :: "(string \<times> string list) list \<Rightarrow> string" where
  "stream_text scripts = concat (map (\<lambda>l. l @ NL) (concat (map script_lines scripts)))"

lemma join_with_lines: "ls \<noteq> [] \<Longrightarrow> concat (map (\<lambda>l. l @ [c]) ls) = join_with c ls @ [c]"
  by (induction c ls rule: join_with.induct) auto

lemma script_body_lines:
  "''//end'' \<notin> set ls \<Longrightarrow> script_body (ls @ ''//end'' # rest) plain = (plain @ concat (map (\<lambda>l. l @ NL) ls), True, rest)"
  by (induction ls arbitrary: plain) auto

lemma TrimSpace_key:
  assumes "\<forall>c \<in> set k. \<not> is_white c" "k \<noteq> []"
  shows "TrimSpace (''//script ik='' @ k) = ''//script ik='' @ k" "TrimSpace ('' ik='' @ k) = ''ik='' @ k"
proof -
  obtain c cs where r: "rev k = c # cs" using assms(2) by (cases "rev k") auto
  then have "\<not> is_white c" using assms(1) by (metis list.set_intros(1) set_rev)
  then show "TrimSpace (''//script ik='' @ k) = ''//script ik='' @ k" "TrimSpace ('' ik='' @ k) = ''ik='' @ k"
    using r by (simp_all add: TrimSpace_def is_white_def)
qed

lemma ParseTextStream_script:
  assumes "plain_script s"
  shows "ParseTextStream failed (script_lines s @ rest) = (Inr (Some (element_of_script s)), rest)"
proof -
  let ?plain = "concat (map (\<lambda>l. l @ NL) (snd s))"
  have p: "?plain \<noteq> []" "butlast ?plain = join_with (CHR 0x0A) (snd s)"
    using assms join_with_lines [of "snd s" "CHR 0x0A"] by (simp_all add: plain_script_def NL_def)
  have b: "script_body (snd s @ ''//end'' # rest) [] = (?plain, True, rest)"
    using script_body_lines [of "snd s" rest "[]"] assms by (simp add: plain_script_def)
  have e: "script_element (fst s) ?plain = (Inr (Some (element_of_script s)) :: (stream_error, _) result)"
    using p by (simp add: script_element_def element_of_script_def)
  show ?thesis
  proof (cases "fst s = []")
    case True
    have "TrimSpace ''//script'' = ''//script''" by code_simp
    then show ?thesis
      using b e True by (simp add: script_lines_def has_prefix_def script_header_def TrimSpace_def [of "[]"])
  next
    case False
    have k: "\<forall>c \<in> set (fst s). \<not> is_white c" "CHR '','' \<notin> set (fst s)" "CHR ''='' \<notin> set (fst s)"
      using assms by (auto simp: plain_script_def)
    note t = TrimSpace_key [OF k(1) False]
    have "script_header (''//script ik='' @ fst s) = Inr (fst s)"
      using t(2) k(2,3) by (simp add: script_header_def split_on_no_sep)
    with t(1) b e False show ?thesis by (simp add: script_lines_def has_prefix_def)
  qed
qed

lemma text_stream_scripts:
  "list_all plain_script scripts \<Longrightarrow>
   text_stream False (concat (map script_lines scripts)) = (map element_of_script scripts, Inr ())"
proof (induction scripts)
  case Nil
  show ?case by (simp add: text_stream.simps)
next
  case (Cons s scripts)
  then show ?case
    using ParseTextStream_script [of s False "concat (map script_lines scripts)"]
    by (subst text_stream.simps) simp
qed

lemma split_lines:
  "\<forall>l \<in> set ls. CHR 0x0A \<notin> set l \<Longrightarrow> split_on (CHR 0x0A) (concat (map (\<lambda>l. l @ NL) ls)) = ls @ [[]]"
  by (induction ls) (simp_all add: NL_def split_on_append)

lemma scan_lines_text: "list_all plain_line ls \<Longrightarrow> scan_lines (concat (map (\<lambda>l. l @ NL) ls)) = ls"
  using split_lines [of ls]
  by (auto simp: scan_lines_def plain_line_def list_all_iff drop_cr_def intro!: map_idI)

lemma script_lines_plain: "plain_script s \<Longrightarrow> list_all plain_line (script_lines s)"
proof -
  assume s: "plain_script s"
  then have "plain_line (''//script ik='' @ fst s)" if "fst s \<noteq> []"
    using that last_in_set [OF that] by (auto simp: plain_script_def plain_line_def is_white_def)
  with s show ?thesis by (auto simp: script_lines_def plain_script_def plain_line_def)
qed

text \<open>
  A text stream of scripts, each with its idempotency key and at least one line, is read
  back as one element per script, in order, with the key and the lines of the script.
\<close>

lemma text_streams_read_back:
  assumes "list_all plain_script scripts"
  shows "text_stream False (scan_lines (stream_text scripts)) = (map element_of_script scripts, Inr ())"
proof -
  have "list_all plain_line (concat (map script_lines scripts))"
    using assms script_lines_plain by (induction scripts) auto
  then show ?thesis
    using text_stream_scripts [OF assms] by (simp add: stream_text_def scan_lines_text)
qed

text \<open>
  A script without lines panics the goroutine that reads the stream, which nothing
  recovers, and so does a key without a value in a header.
\<close>

lemma empty_scripts_panic_the_stream:
  "text_stream failed (''//script'' # ''//end'' # rest) = ([], panic) \<and>
   text_stream failed (''//script ik'' # rest) = ([], panic)"
proof -
  have t: "TrimSpace ''//script'' = ''//script''" "TrimSpace ''//script ik'' = ''//script ik''"
    "TrimSpace '' ik'' = ''ik''" "TrimSpace [] = []" by code_simp+
  show ?thesis
    by (subst (1 2) text_stream.simps)
      (simp add: t has_prefix_def script_header_def script_element_def panic_def)
qed

end
