(* ===== verification/Bulker.thy ===== *)
theory Bulker
  imports Bulk_Elements Ledger_Import
begin

text \<open>
  Bulks (\<open>internal/api/bulking/bulker.go\<close>, \<open>handler_json.go\<close>, \<open>handler_stream_json.go\<close>). A controller is
  a function that runs an operation on its state: the facade of a ledger, or the controller inside
  an SQL transaction. The workers of a bulk take its elements in order and run them interleaved, beside the end of
  the context of the request.
\<close>

section \<open>Operations of an element\<close>

type_synonym 'w control = "parameters \<Rightarrow> attempt list \<Rightarrow> 'w \<Rightarrow> (forged \<times> 'w) option"

record bulking_options =
  bo_ContinueOnFailure :: bool
  bo_Atomic :: bool
  bo_Parallel :: bool
  bo_SchemaVersion :: string

definition options_Validate :: "bulking_options \<Rightarrow> bool" where
  "options_Validate opts \<longleftrightarrow> \<not> (bo_Atomic opts \<and> bo_Parallel opts)"

text \<open>\<open>json.Unmarshal\<close> of a target id into a string and into a \<open>uint64\<close>: \<open>null\<close> leaves the zero value.\<close>

definition target_address :: "json option \<Rightarrow> (bulk_error, string) result" where
  "target_address j = (case j of Some (JStr s) \<Rightarrow> Inr s | Some JNull \<Rightarrow> Inr [] | _ \<Rightarrow> raise BadJSON)"

definition target_transaction :: "json option \<Rightarrow> (bulk_error, nat) result" where
  "target_transaction j =
     (case j of
        Some (JNum n) \<Rightarrow> if all_digits n \<and> digits_value n < 2 ^ 64 then Inr (digits_value n) else raise BadJSON
      | Some JNull \<Rightarrow> Inr 0
      | _ \<Rightarrow> raise BadJSON)"

text \<open>The operation an element asks for.\<close>

fun element_input :: "go_floats \<Rightarrow> bulk_data \<Rightarrow> (bulk_error, ctl_input) result" where
  "element_input g (TransactionRequest req) = bindr (TransactionRequest_ToCore g req) (\<lambda>i. Inr (InputCreate i))"
| "element_input g (AddMetadataRequest target_type target m) =
     (if target_type = MetaTargetTypeAccount
      then bindr (target_address target) (\<lambda>a. Inr (InputSaveAccountMetadata a m))
      else if target_type = MetaTargetTypeTransaction
      then bindr (target_transaction target) (\<lambda>i. Inr (InputSaveTransactionMetadata i m))
      else raise (InvalidTargetType target_type))"
| "element_input g (RevertTransactionRequest req) = Inr (InputRevert req)"
| "element_input g (DeleteMetadataRequest target_type target k) =
     (if target_type = MetaTargetTypeAccount
      then bindr (target_address target) (\<lambda>a. Inr (InputDeleteAccountMetadata a k))
      else if target_type = MetaTargetTypeTransaction
      then bindr (target_transaction target) (\<lambda>i. Inr (InputDeleteTransactionMetadata i k))
      else raise (InvalidTargetType target_type))"

definition element_parameters :: "string \<Rightarrow> string \<Rightarrow> ctl_input \<Rightarrow> parameters" where
  "element_parameters version ik input =
     \<lparr>pm_DryRun = False, pm_SchemaVersion = version, pm_IdempotencyKey = ik, pm_Input = input\<rparr>"

text \<open>What is returned of the log of an operation.\<close>

fun element_data :: "log_payload \<Rightarrow> transaction option" where
  "element_data (CreatedTransaction tx _) = Some tx"
| "element_data (RevertedTransaction _ tx) = Some tx"
| "element_data _ = None"

definition processElement ::
    "go_floats \<Rightarrow> 'w control \<Rightarrow> string \<Rightarrow> bulk_element \<times> attempt list \<Rightarrow> 'w \<Rightarrow>
     ((bulk_error, transaction option \<times> nat) result \<times> 'w) option" where
  "processElement g ctrl version e w =
     (case element_input g (be_Data (fst e)) of
        Inl x \<Rightarrow> Some (Inl x, w)
      | Inr input \<Rightarrow>
          map_option (\<lambda>(r, w). (case r of
               Inl Panic \<Rightarrow> panic
             | Inl (Raised x) \<Rightarrow> raise (BulkController x)
             | Inr (l, out, _) \<Rightarrow> (case lg_ID l of None \<Rightarrow> panic | Some i \<Rightarrow> Inr (element_data out, i)), w))
           (ctrl (element_parameters version (be_IdempotencyKey (fst e)) input) (snd e) w))"

section \<open>Workers\<close>

text \<open>
  The result of an element, with its index in the bulk: the code knows it, but leaves \<open>ElementID\<close>
  at zero.
\<close>

record element_result =
  el_Error :: "bulk_error option"
  el_Data :: "transaction option"
  el_LogID :: nat
  el_ElementID :: nat
  el_index :: nat

definition failed_result :: "nat \<Rightarrow> bulk_error \<Rightarrow> element_result" where
  "failed_result i e = \<lparr>el_Error = Some e, el_Data = None, el_LogID = 0, el_ElementID = 0, el_index = i\<rparr>"

definition good_result :: "nat \<Rightarrow> transaction option \<times> nat \<Rightarrow> element_result" where
  "good_result i d = \<lparr>el_Error = None, el_Data = fst d, el_LogID = snd d, el_ElementID = 0, el_index = i\<rparr>"

text \<open>The two errors of a context that is done: cancelled, or past its deadline.\<close>

definition context_error :: "bulk_error \<Rightarrow> bool" where
  "context_error x \<longleftrightarrow> x = BulkCanceled \<or> x = BulkDeadlineExceeded"

text \<open>
  A task of the pool: a worker has taken its element; it has found the context not to be done; it has read
  that it may run; it has run, and has not told of its error; it sends its result. The pool recovers a panic
  of a task, which then sends nothing; \<open>bk_lost\<close> are the elements lost in this way. \<open>bk_ctx\<close> is the error of
  the context of the request, once it is done.
\<close>

datatype task =
    Taken nat "bulk_element \<times> attempt list"
  | Entered nat "bulk_element \<times> attempt list"
  | Loaded nat "bulk_element \<times> attempt list"
  | Processed element_result
  | Sending element_result

record 'w bulk_state =
  bk_queue :: "(nat \<times> bulk_element \<times> attempt list) list"
  bk_tasks :: "task list"
  bk_hasError :: bool
  bk_ctx :: "bulk_error option"
  bk_results :: "element_result list"
  bk_lost :: "nat list"
  bk_world :: 'w

text \<open>
  The steps of the workers, \<open>parallelism\<close> of them, each with at most one task, and the context that is done at
  any moment. Each read of shared state is a step of its own, so that the flag one worker sets can be read by
  one that took an earlier element. What a cancelled context does to the statements of an operation is in the
  faults of its attempts. The results are received as they are sent. \<open>without i xs\<close> are the other tasks.
\<close>

definition without :: "nat \<Rightarrow> 'a list \<Rightarrow> 'a list" where
  "without i xs = take i xs @ drop (Suc i) xs"

inductive bulk_step ::
    "go_floats \<Rightarrow> 'w control \<Rightarrow> string \<Rightarrow> bool \<Rightarrow> nat \<Rightarrow> 'w bulk_state \<Rightarrow> 'w bulk_state \<Rightarrow> bool"
  for g ctrl version continueOnFailure parallelism where
  expire: "bk_ctx s = None \<Longrightarrow> context_error x \<Longrightarrow>
     bulk_step g ctrl version continueOnFailure parallelism s (s\<lparr>bk_ctx := Some x\<rparr>)"
| take_one: "bk_queue s = (i, e) # queue \<Longrightarrow> length (bk_tasks s) < parallelism \<Longrightarrow>
     bulk_step g ctrl version continueOnFailure parallelism s
       (s\<lparr>bk_queue := queue, bk_tasks := bk_tasks s @ [Taken i e]\<rparr>)"
| give_up: "n < length (bk_tasks s) \<Longrightarrow> bk_tasks s ! n = Taken i e \<Longrightarrow> bk_ctx s = Some x \<Longrightarrow>
     bulk_step g ctrl version continueOnFailure parallelism s
       (s\<lparr>bk_tasks := (bk_tasks s)[n := Sending (failed_result i x)]\<rparr>)"
| enter: "n < length (bk_tasks s) \<Longrightarrow> bk_tasks s ! n = Taken i e \<Longrightarrow> bk_ctx s = None \<Longrightarrow>
     bulk_step g ctrl version continueOnFailure parallelism s
       (s\<lparr>bk_tasks := (bk_tasks s)[n := Entered i e]\<rparr>)"
| load: "n < length (bk_tasks s) \<Longrightarrow> bk_tasks s ! n = Entered i e \<Longrightarrow>
     t = (if bk_hasError s \<and> \<not> continueOnFailure then Sending (failed_result i BulkCanceled) else Loaded i e) \<Longrightarrow>
     bulk_step g ctrl version continueOnFailure parallelism s
       (s\<lparr>bk_tasks := (bk_tasks s)[n := t]\<rparr>)"
| succeed: "n < length (bk_tasks s) \<Longrightarrow> bk_tasks s ! n = Loaded i e \<Longrightarrow>
     processElement g ctrl version e (bk_world s) = Some (Inr d, w) \<Longrightarrow>
     bulk_step g ctrl version continueOnFailure parallelism s
       (s\<lparr>bk_tasks := (bk_tasks s)[n := Sending (good_result i d)], bk_world := w\<rparr>)"
| fail: "n < length (bk_tasks s) \<Longrightarrow> bk_tasks s ! n = Loaded i e \<Longrightarrow>
     processElement g ctrl version e (bk_world s) = Some (Inl (Raised x), w) \<Longrightarrow>
     bulk_step g ctrl version continueOnFailure parallelism s
       (s\<lparr>bk_tasks := (bk_tasks s)[n := Processed (failed_result i x)], bk_world := w\<rparr>)"
| panicked: "n < length (bk_tasks s) \<Longrightarrow> bk_tasks s ! n = Loaded i e \<Longrightarrow>
     processElement g ctrl version e (bk_world s) = Some (Inl Panic, w) \<Longrightarrow>
     bulk_step g ctrl version continueOnFailure parallelism s
       (s\<lparr>bk_tasks := without n (bk_tasks s), bk_lost := i # bk_lost s, bk_world := w\<rparr>)"
| tell: "n < length (bk_tasks s) \<Longrightarrow> bk_tasks s ! n = Processed r \<Longrightarrow>
     bulk_step g ctrl version continueOnFailure parallelism s
       (s\<lparr>bk_tasks := (bk_tasks s)[n := Sending r], bk_hasError := True\<rparr>)"
| send: "n < length (bk_tasks s) \<Longrightarrow> bk_tasks s ! n = Sending r \<Longrightarrow>
     bulk_step g ctrl version continueOnFailure parallelism s
       (s\<lparr>bk_tasks := without n (bk_tasks s), bk_results := bk_results s @ [r]\<rparr>)"

definition bulk_start :: "(bulk_element \<times> attempt list) list \<Rightarrow> 'w \<Rightarrow> 'w bulk_state" where
  "bulk_start bulk w =
     \<lparr>bk_queue = enumerate 0 bulk, bk_tasks = [], bk_hasError = False, bk_ctx = None, bk_results = [], bk_lost = [], bk_world = w\<rparr>"

definition bulk_stopped :: "'w bulk_state \<Rightarrow> bool" where
  "bulk_stopped s \<longleftrightarrow> bk_queue s = [] \<and> bk_tasks s = []"

text \<open>One worker runs the elements one after the other, as long as the context is not done.\<close>

fun run_sequential ::
    "go_floats \<Rightarrow> 'w control \<Rightarrow> string \<Rightarrow> bool \<Rightarrow> (nat \<times> bulk_element \<times> attempt list) list \<Rightarrow>
     bool \<times> element_result list \<times> 'w \<Rightarrow> (bool \<times> element_result list \<times> 'w) option" where
  "run_sequential g ctrl version cont [] st = Some st"
| "run_sequential g ctrl version cont ((i, e) # bulk) (hasError, results, w) =
     (if hasError \<and> \<not> cont
      then run_sequential g ctrl version cont bulk (hasError, results @ [failed_result i BulkCanceled], w)
      else (case processElement g ctrl version e w of
        None \<Rightarrow> None
      | Some (Inr d, w) \<Rightarrow> run_sequential g ctrl version cont bulk (hasError, results @ [good_result i d], w)
      | Some (Inl (Raised x), w) \<Rightarrow> run_sequential g ctrl version cont bulk (True, results @ [failed_result i x], w)
      | Some (Inl Panic, w) \<Rightarrow> run_sequential g ctrl version cont bulk (hasError, results, w)))"

section \<open>Bulks\<close>

text \<open>
  A panic in an operation leaves the SQL transaction it began as it is. Alone it is dropped with
  its connection; inside the transaction of an atomic bulk it is a savepoint, whose writes stay,
  and when the database had aborted it everything after it fails. The flag is of an aborted
  transaction.
\<close>

definition left_open :: "attempt \<Rightarrow> session \<Rightarrow> world \<times> bool" where
  "left_open a s = (\<lparr>w_tables = at_others a (s_tx s), w_txSeq = s_txSeq s, w_logSeq = s_logSeq s\<rparr>, s_aborted s)"

fun retry_left :: "controller \<Rightarrow> parameters \<Rightarrow> attempt list \<Rightarrow> world \<Rightarrow> world \<times> bool" where
  "retry_left c pm [] w = (w, False)"
| "retry_left c pm (a # schedule) w =
     (case runLog c pm (begin_attempt a w) of
        (Inl Panic, s) \<Rightarrow> left_open a s
      | (Inl (Raised (StoreError DeadlockDetected)), s) \<Rightarrow> retry_left c pm schedule (end_attempt a (snd (Rollback s)))
      | (_, s) \<Rightarrow> (end_attempt a (snd (Rollback s)), False))"

fun left_by_panic :: "controller \<Rightarrow> parameters \<Rightarrow> attempt list \<Rightarrow> world \<Rightarrow> world \<times> bool" where
  "left_by_panic c pm [] w = (w, False)"
| "left_by_panic c pm (a # schedule) w =
     (if pm_IdempotencyKey pm \<noteq> [] \<and> fetchLogWithIK c pm (w_tables w) \<noteq> Inr None
      then left_open a (begin_attempt a w)
      else (case runLog c pm (begin_attempt a w) of
        (Inl Panic, s) \<Rightarrow> left_open a s
      | (_, s) \<Rightarrow> retry_left c pm schedule (end_attempt a (snd (Rollback s)))))"

definition aborted_error :: ctl_error where
  "aborted_error = StoreError (SqlFailure ''current transaction is aborted'')"

definition nested_forge :: "controller \<Rightarrow> (world \<times> bool) control" where
  "nested_forge c pm schedule = (\<lambda>(w, aborted).
     if aborted then Some (raise aborted_error, w, True)
     else (case forgeLog c pm schedule w of
        None \<Rightarrow> None
      | Some (Inl Panic, _) \<Rightarrow> Some (panic, left_by_panic c pm schedule w)
      | Some (r, w) \<Rightarrow> Some (r, w, False)))"

datatype bulk_failure = AtomicParallelConflict | CommitFailed

text \<open>
  \<open>Run\<close> without workers in parallel, for a request that is not cancelled. The SQL transaction of an atomic bulk is begun by the
  controller under the facade, so the facade does not see its operations. A rollback takes back
  the tables and not the sequences; \<open>commit_fails\<close> tells whether the database refuses the commit.
\<close>

definition bulk_Run ::
    "go_floats \<Rightarrow> controller \<Rightarrow> bulking_options \<Rightarrow> bool \<Rightarrow> (bulk_element \<times> attempt list) list \<Rightarrow> facade \<Rightarrow>
     ((bulk_failure, unit) result \<times> element_result list \<times> facade) option" where
  "bulk_Run g c opts commit_fails bulk fc =
     (if \<not> options_Validate opts then Some (raise AtomicParallelConflict, [], fc)
      else if bo_Atomic opts
      then map_option (\<lambda>(hasError, results, w, aborted).
             let back = fc\<lparr>fc_world := w\<lparr>w_tables := w_tables (fc_world fc)\<rparr>\<rparr> in
             if hasError then (Inr (), results, back)
             else if commit_fails \<or> aborted then (raise CommitFailed, results, back)
             else (Inr (), results, fc\<lparr>fc_world := w\<rparr>))
           (run_sequential g (nested_forge (c\<lparr>c_pooled := False\<rparr>)) (bo_SchemaVersion opts) (bo_ContinueOnFailure opts)
             (enumerate 0 bulk) (False, [], fc_world fc, False))
      else map_option (\<lambda>(_, results, fc). (Inr (), results, fc))
           (run_sequential g (facade_forge c) (bo_SchemaVersion opts) (bo_ContinueOnFailure opts)
             (enumerate 0 bulk) (False, [], fc)))"

text \<open>\<open>JsonBulkHandler\<close> takes a bulk of at most \<open>bulkMaxSize\<close> elements, unless that is zero.\<close>

definition bulk_size_exceeded :: "nat \<Rightarrow> 'a list \<Rightarrow> bool" where
  "bulk_size_exceeded bulkMaxSize elements \<longleftrightarrow> bulkMaxSize \<noteq> 0 \<and> length elements > bulkMaxSize"

section \<open>The response\<close>

record api_result =
  ar_ErrorCode :: string
  ar_Error :: "bulk_error option"
  ar_Data :: "transaction option"
  ar_ResponseType :: string
  ar_LogID :: nat

fun error_code :: "bulk_error \<Rightarrow> string" where
  "error_code (BulkController (InsufficientFund _ _)) = ''INSUFFICIENT_FUND''"
| "error_code (BulkController (ScriptError (ErrInsufficientFund _))) = ''INSUFFICIENT_FUND''"
| "error_code (BulkController (ScriptError (ErrInvalidVars _))) = ''COMPILATION_FAILED''"
| "error_code (BulkController (ScriptError (ErrBadVars _))) = ''COMPILATION_FAILED''"
| "error_code (BulkController (CompilationFailed _)) = ''COMPILATION_FAILED''"
| "error_code (BulkController (MetadataOverride _)) = ''METADATA_OVERRIDE''"
| "error_code (BulkController NoPostings) = ''NO_POSTINGS''"
| "error_code (BulkController (StoreError (ReferenceConflict _))) = ''CONFLICT''"
| "error_code (BulkController ParsingFailed) = ''INTERPRETER_PARSE''"
| "error_code _ = ''INTERNAL''"

definition map_result :: "string \<Rightarrow> element_result \<Rightarrow> api_result" where
  "map_result action r =
     \<lparr>ar_ErrorCode = (case el_Error r of None \<Rightarrow> [] | Some e \<Rightarrow> error_code e), ar_Error = el_Error r,
      ar_Data = el_Data r, ar_ResponseType = (if el_Error r = None then action else ''ERROR''), ar_LogID = el_LogID r\<rparr>"

text \<open>
  \<open>writeJSONResponse\<close>: the status, the results, and the code of an error of the stream. The sort
  leaves results of equal ids where they are. The \<open>n\<close>-th result takes the \<open>n\<close>-th action, so a
  result without one is a panic.
\<close>

definition writeJSONResponse ::
    "string list \<Rightarrow> element_result list \<Rightarrow> bool \<Rightarrow> ('e, nat \<times> api_result list \<times> string) result" where
  "writeJSONResponse actions results stream_failed =
     (if length actions < length results then panic
      else Inr (if list_ex (\<lambda>r. el_Error r \<noteq> None) results then 400 else 200,
        map2 map_result actions (sort_key el_ElementID results),
        if stream_failed then ''VALIDATION'' else []))"

text \<open>
  The goroutine of \<open>JSONStreamBulkHandler.GetChannels\<close> decodes until the decoder fails; at the end
  of the input it fails too, and the error is kept.
\<close>

fun json_stream :: "bulk_element option list \<Rightarrow> bulk_element list \<times> bool" where
  "json_stream (Some e # ds) = (case json_stream ds of (es, failed) \<Rightarrow> (e # es, failed))"
| "json_stream _ = ([], True)"

end
