(* ===== verification/Bulk_Claims.thy ===== *)
theory Bulk_Claims
  imports Bulker Import_Claims "HOL-Library.Multiset"
begin

text \<open>
  What bulks keep: a controller's invariant, in any interleaving of the workers; one result per
  element; with one worker, the sequential run. Atomic bulks are all or nothing, but for what a
  panic leaves and what the facade does not see.
\<close>

section \<open>What a controller keeps\<close>

fun task_element :: "task \<Rightarrow> (bulk_element \<times> attempt list) option" where
  "task_element (Taken i e) = Some e"
| "task_element (Entered i e) = Some e"
| "task_element (Loaded i e) = Some e"
| "task_element _ = None"

lemma without_subset: "set (without n xs) \<subseteq> set xs"
  by (auto simp: without_def dest: in_set_takeD in_set_dropD)

text \<open>A property of the elements still to be run is kept by every step of a worker.\<close>

definition pending :: "'w bulk_state \<Rightarrow> (bulk_element \<times> attempt list) set" where
  "pending s = snd ` set (bk_queue s) \<union> {e. \<exists>t \<in> set (bk_tasks s). task_element t = Some e}"

lemma pending_start: "pending (bulk_start bulk w) = set bulk"
proof -
  have "snd ` set (enumerate 0 bulk) = set (map snd (enumerate 0 bulk))" by (simp only: set_map)
  then show ?thesis by (simp add: pending_def bulk_start_def)
qed

lemma pending_update:
  assumes "n < length (bk_tasks s)" "\<And>e. task_element t = Some e \<Longrightarrow> task_element (bk_tasks s ! n) = Some e"
  shows "pending (s\<lparr>bk_tasks := (bk_tasks s)[n := t]\<rparr>) \<subseteq> pending s"
  using assms nth_mem [OF assms(1)]
  by (auto simp: pending_def dest!: set_update_subset_insert [THEN subsetD])

lemma pending_without: "pending (s\<lparr>bk_tasks := without n (bk_tasks s)\<rparr>) \<subseteq> pending s"
  using without_subset [of n "bk_tasks s"] by (auto simp: pending_def)

lemma pending_fields [simp]:
  "pending (s\<lparr>bk_world := w\<rparr>) = pending s" "pending (s\<lparr>bk_hasError := b\<rparr>) = pending s" "pending (s\<lparr>bk_ctx := c\<rparr>) = pending s"
  "pending (s\<lparr>bk_lost := l\<rparr>) = pending s" "pending (s\<lparr>bk_results := r\<rparr>) = pending s"
  by (simp_all add: pending_def)

lemma step_pending: "bulk_step g ctrl version cont p s t \<Longrightarrow> pending t \<subseteq> pending s"
proof (induction rule: bulk_step.induct)
  case (take_one s i e queue)
  then show ?case by (auto simp: pending_def)
next
  case (give_up n s i e x)
  then show ?case by (intro pending_update) simp_all
next
  case (enter n s i e)
  then show ?case by (intro pending_update) simp_all
next
  case (load n s i e t)
  then show ?case by (intro pending_update) (simp_all split: if_splits)
next
  case (succeed n s i e d w)
  then show ?case using pending_update [of n s "Sending (good_result i d)"] by simp
next
  case (fail n s i e x w)
  then show ?case using pending_update [of n s "Processed (failed_result i x)"] by simp
next
  case (panicked n s i e w)
  then show ?case using pending_without [of n s] by simp
next
  case (tell n s r)
  then show ?case using pending_update [of n s "Sending r"] by simp
next
  case (send n s r)
  then show ?case using pending_without [of n s] by simp
qed simp

lemma loaded_pending: "n < length (bk_tasks s) \<Longrightarrow> bk_tasks s ! n = Loaded i e \<Longrightarrow> e \<in> pending s"
  unfolding pending_def using nth_mem by fastforce

locale bulk_control =
  fixes ctrl :: "'w control" and I :: "'w \<Rightarrow> bool" and fits :: "attempt list \<Rightarrow> bool"
  assumes keeps_I: "I w \<Longrightarrow> fits schedule \<Longrightarrow> ctrl pm schedule w = Some (r, w') \<Longrightarrow> I w'"
begin

lemma processElement_keeps:
  "processElement g ctrl version e w = Some (r, w') \<Longrightarrow> I w \<Longrightarrow> fits (snd e) \<Longrightarrow> I w'"
  by (cases "element_input g (be_Data (fst e))") (auto simp: processElement_def dest: keeps_I)

lemma step_keeps:
  assumes "bulk_step g ctrl version cont p s t" and "\<forall>e \<in> pending s. fits (snd e)" and "I (bk_world s)"
  shows "I (bk_world t)"
  using assms
proof (induction rule: bulk_step.induct)
  case (succeed n s i e d w)
  then show ?case using loaded_pending [OF succeed(1,2)] processElement_keeps [OF succeed(3)] by simp
next
  case (fail n s i e x w)
  then show ?case using loaded_pending [OF fail(1,2)] processElement_keeps [OF fail(3)] by simp
next
  case (panicked n s i e w)
  then show ?case using loaded_pending [OF panicked(1,2)] processElement_keeps [OF panicked(3)] by simp
qed simp_all

lemma steps_keep:
  assumes "(bulk_step g ctrl version cont p)\<^sup>*\<^sup>* (bulk_start bulk w) s" "I w" "\<forall>e \<in> set bulk. fits (snd e)"
  shows "I (bk_world s)"
proof -
  from assms(1) have "(\<forall>e \<in> pending s. fits (snd e)) \<and> I (bk_world s)"
  proof (induction rule: rtranclp_induct)
    case base
    then show ?case using assms(2,3) by (simp add: pending_start) (simp add: bulk_start_def)
  next
    case (step s t)
    then show ?case using step_keeps [OF step(2)] step_pending [OF step(2)] by blast
  qed
  then show ?thesis ..
qed

lemma run_sequential_keeps:
  "run_sequential g ctrl version cont es (b, rs, w) = Some (b', rs', w') \<Longrightarrow> I w \<Longrightarrow> \<forall>(i, e) \<in> set es. fits (snd e) \<Longrightarrow> I w'"
proof (induction es arbitrary: b rs w)
  case (Cons ie es)
  obtain i e where ie: "ie = (i, e)" by (cases ie)
  from Cons.prems show ?case
    using processElement_keeps [of g version e w]
    by (auto simp: ie split: if_splits option.splits prod.splits sum.splits failure.splits intro: Cons.IH)
qed simp

end

text \<open>The facade keeps the books, whatever the others do to the rest.\<close>

definition facade_books :: "facade \<Rightarrow> bool" where
  "facade_books fc \<longleftrightarrow> books (w_tables (fc_world fc))"

lemma facade_forge_books:
  assumes "parsers_ok c" "facade_books fc" "others_keep_books schedule" "facade_forge c pm schedule fc = Some (x, fc')"
  shows "facade_books fc'"
  using assms(4)
proof (cases rule: facade_forge_cases)
  case (used w')
  with forgeLog_effect(2) [OF _ used(1) assms(3)] assms(1,2) show ?thesis by (simp add: facade_books_def)
next
  case (unused w w')
  have "books (w_tables w)" using assms(2) unused(1) by (simp add: facade_books_def set_sequences_seq(1))
  with forgeLog_effect(2) [OF _ unused(2) assms(3)] assms(1) unused(4) show ?thesis
    by (auto simp: facade_books_def split: if_splits)
qed

interpretation facade_bulk: bulk_control "facade_forge c" "\<lambda>fc. parsers_ok c \<and> facade_books fc" others_keep_books for c
  by unfold_locales (auto dest: facade_forge_books)

interpretation used_bulk: bulk_control "facade_forge c" "used c" "\<lambda>schedule. alone schedule \<and> dated schedule" for c
  by unfold_locales (auto intro: used_operation)

text \<open>
  Bulks keep the books: after any number of steps of any number of workers, the volumes
  are the sums of the postings, as long as the other sessions keep them so.
\<close>

lemma bulks_keep_the_books:
  assumes "(bulk_step g (facade_forge c) version cont parallelism)\<^sup>*\<^sup>* (bulk_start bulk fc) s"
    and "parsers_ok c" "facade_books fc" "\<forall>e \<in> set bulk. others_keep_books (snd e)"
  shows "facade_books (bk_world s)"
  using facade_bulk.steps_keep [OF assms(1)] assms(2-4) by blast

section \<open>One result per element\<close>

fun task_index :: "task \<Rightarrow> nat" where
  "task_index (Taken i e) = i"
| "task_index (Entered i e) = i"
| "task_index (Loaded i e) = i"
| "task_index (Processed r) = el_index r"
| "task_index (Sending r) = el_index r"

definition indexes :: "'w bulk_state \<Rightarrow> nat multiset" where
  "indexes s = mset (map fst (bk_queue s)) + mset (map task_index (bk_tasks s)) +
     mset (map el_index (bk_results s)) + mset (bk_lost s)"

lemma result_index [simp]: "el_index (failed_result i x) = i" "el_index (good_result i d) = i"
  "el_Error (failed_result i x) = Some x" "el_Error (good_result i d) = None"
  "el_ElementID (failed_result i x) = 0" "el_ElementID (good_result i d) = 0"
  by (simp_all add: failed_result_def good_result_def)

lemma mset_without:
  assumes "n < length xs"
  shows "mset (map f xs) = add_mset (f (xs ! n)) (mset (map f (without n xs)))"
proof -
  have "mset (map f (take n xs @ xs ! n # drop (Suc n) xs)) = add_mset (f (xs ! n)) (mset (map f (without n xs)))"
    by (simp add: without_def)
  then show ?thesis using id_take_nth_drop [OF assms] by simp
qed

lemma map_update_same: "n < length xs \<Longrightarrow> f y = f (xs ! n) \<Longrightarrow> map f (xs[n := y]) = map f xs"
  by (simp add: map_update) (metis list_update_id length_map nth_map)

lemma step_indexes: "bulk_step g ctrl version cont p s t \<Longrightarrow> indexes t = indexes s"
proof (induction rule: bulk_step.induct)
  case (panicked n s i e w)
  then show ?case using mset_without [of n "bk_tasks s" task_index] by (simp add: indexes_def)
next
  case (send n s r)
  then show ?case using mset_without [of n "bk_tasks s" task_index] by (simp add: indexes_def)
qed (simp_all add: indexes_def map_update_same)

text \<open>The flag and the errors.\<close>

definition sent_or_sending :: "'w bulk_state \<Rightarrow> element_result set" where
  "sent_or_sending s = set (bk_results s) \<union> {r. Sending r \<in> set (bk_tasks s)}"

definition operation_error :: "element_result \<Rightarrow> bool" where
  "operation_error r \<longleftrightarrow> (\<exists>x. el_Error r = Some x \<and> \<not> context_error x)"

text \<open>What an answer tells of the flag and of the context.\<close>

definition answer_ok :: "bool \<Rightarrow> bool \<Rightarrow> bulk_error option \<Rightarrow> element_result \<Rightarrow> bool" where
  "answer_ok cont hasError ctx r \<longleftrightarrow> el_ElementID r = 0 \<and>
     (\<not> hasError \<longrightarrow> el_Error r = None \<or> el_Error r = ctx) \<and>
     (cont \<longrightarrow> operation_error r \<or> el_Error r = None \<or> el_Error r = ctx)"

definition flag_ok :: "bool \<Rightarrow> 'w bulk_state \<Rightarrow> bool" where
  "flag_ok cont s \<longleftrightarrow>
     (\<forall>x. bk_ctx s = Some x \<longrightarrow> context_error x) \<and>
     (\<forall>r \<in> sent_or_sending s. answer_ok cont (bk_hasError s) (bk_ctx s) r) \<and>
     (\<forall>r. Processed r \<in> set (bk_tasks s) \<longrightarrow> el_ElementID r = 0 \<and> operation_error r) \<and>
     (bk_hasError s \<longrightarrow> (\<exists>r \<in> sent_or_sending s. operation_error r))"

lemma answer_ok_expired:
  "answer_ok cont b None r \<Longrightarrow> answer_ok cont b ctx r"
  "answer_ok cont b ctx r \<Longrightarrow> answer_ok cont True ctx r"
  by (auto simp: answer_ok_def)

lemma operation_errors [simp]:
  "operation_error (failed_result i x) \<longleftrightarrow> \<not> context_error x" "\<not> operation_error (good_result i d)"
  "context_error BulkCanceled"
  by (simp_all add: operation_error_def context_error_def)

lemma element_input_error:
  assumes "context_error y"
  shows "element_input g d \<noteq> Inl (Raised y)"
proof -
  have j: "target_address t \<noteq> Inl (Raised y)" "target_transaction t \<noteq> Inl (Raised y)" for t
    using assms by (auto simp: target_address_def target_transaction_def context_error_def split: option.splits json.splits)
  have "Postings_Validate 0 ps \<noteq> Inl Panic" for ps using Postings_Validate_first [of 0 ps] by fastforce
  moreover have "TxToScriptData ps ts ref m u \<noteq> Inl (Raised y)" for ps ts ref m u
    by (rule TxToScriptData_parts [of ps, where 'e = bulk_error]) simp
  ultimately show ?thesis
    using assms by (cases d) (auto simp: TransactionRequest_ToCore_def bindr_eq_Inl j context_error_def
      split: sum.splits failure.splits)
qed

lemma processElement_error:
  assumes "processElement g ctrl version e w = Some (Inl (Raised x), w')"
  shows "\<not> context_error x"
proof (cases "element_input g (be_Data (fst e))")
  case (Inl y)
  then show ?thesis using assms element_input_error by (auto simp: processElement_def)
next
  case (Inr input)
  have "\<not> context_error y" if "(case r of Inl Panic \<Rightarrow> panic | Inl (Raised x) \<Rightarrow> raise (BulkController x)
      | Inr (l, out, _) \<Rightarrow> (case lg_ID l of None \<Rightarrow> panic | Some i \<Rightarrow> Inr (element_data out, i))) = Inl (Raised y)"
    for r :: forged and y
  proof (cases r)
    case (Inl f)
    with that show ?thesis by (cases f) (auto simp: context_error_def)
  next
    case (Inr t)
    with that show ?thesis by (cases t) (simp split: option.splits)
  qed
  then show ?thesis using assms Inr by (auto simp: processElement_def)
qed

lemma update_members:
  assumes "n < length xs"
  shows "x \<in> set xs \<Longrightarrow> x \<noteq> xs ! n \<Longrightarrow> x \<in> set (xs[n := y])" "y \<in> set (xs[n := y])"
    "x \<in> set (xs[n := y]) \<Longrightarrow> x = y \<or> x \<in> set xs"
    "x \<in> set xs \<Longrightarrow> x \<noteq> xs ! n \<Longrightarrow> x \<in> set (without n xs)" "x \<in> set (without n xs) \<Longrightarrow> x \<in> set xs"
proof -
  show "x \<in> set xs \<Longrightarrow> x \<noteq> xs ! n \<Longrightarrow> x \<in> set (xs[n := y])"
    by (metis in_set_conv_nth length_list_update nth_list_update_neq)
  show "y \<in> set (xs[n := y])" using assms by (rule set_update_memI)
  show "x \<in> set (xs[n := y]) \<Longrightarrow> x = y \<or> x \<in> set xs" using set_update_subset_insert [of xs n y] by auto
  have m: "mset xs = add_mset (xs ! n) (mset (without n xs))" using mset_without [OF assms, of id] by simp
  show "x \<in> set xs \<Longrightarrow> x \<noteq> xs ! n \<Longrightarrow> x \<in> set (without n xs)"
    using m by (metis insert_iff set_mset_add_mset_insert set_mset_mset)
  show "x \<in> set (without n xs) \<Longrightarrow> x \<in> set xs"
    using m by (metis insert_iff set_mset_add_mset_insert set_mset_mset)
qed

lemma sent_update:
  assumes "n < length (bk_tasks s)" "\<forall>r. bk_tasks s ! n \<noteq> Sending r"
  shows "sent_or_sending (s\<lparr>bk_tasks := (bk_tasks s)[n := t]\<rparr>) =
     sent_or_sending s \<union> (case t of Sending r \<Rightarrow> {r} | _ \<Rightarrow> {})"
proof -
  have "Sending r \<in> set ((bk_tasks s)[n := t]) \<longleftrightarrow> t = Sending r \<or> Sending r \<in> set (bk_tasks s)" for r
    using update_members(1) [OF assms(1), of "Sending r" t] update_members(2) [OF assms(1), of t]
      update_members(3) [OF assms(1), of "Sending r" t] assms(2) by metis
  then show ?thesis by (cases t) (auto simp: sent_or_sending_def)
qed

lemma processed_update:
  "n < length (bk_tasks s) \<Longrightarrow> Processed r \<in> set ((bk_tasks s)[n := t]) \<Longrightarrow> t = Processed r \<or> Processed r \<in> set (bk_tasks s)"
  using update_members(3) [of n "bk_tasks s"] by auto

lemma flag_ok_cong:
  "sent_or_sending t = sent_or_sending s \<Longrightarrow> bk_hasError t = bk_hasError s \<Longrightarrow> bk_ctx t = bk_ctx s \<Longrightarrow>
   (\<And>r. Processed r \<in> set (bk_tasks t) \<Longrightarrow> Processed r \<in> set (bk_tasks s)) \<Longrightarrow> flag_ok cont s \<Longrightarrow> flag_ok cont t"
  by (simp add: flag_ok_def)

lemma sent_fields [simp]:
  "sent_or_sending (s\<lparr>bk_world := w\<rparr>) = sent_or_sending s" "sent_or_sending (s\<lparr>bk_hasError := b\<rparr>) = sent_or_sending s"
  "sent_or_sending (s\<lparr>bk_queue := q\<rparr>) = sent_or_sending s" "sent_or_sending (s\<lparr>bk_lost := l\<rparr>) = sent_or_sending s"
  "sent_or_sending (s\<lparr>bk_ctx := c\<rparr>) = sent_or_sending s"
  by (simp_all add: sent_or_sending_def)

text \<open>A task that comes to send an answer, or goes on without one.\<close>

lemma flag_ok_answers:
  assumes "flag_ok cont s" "n < length (bk_tasks s)" "\<forall>r. bk_tasks s ! n \<noteq> Sending r"
    and "answer_ok cont (bk_hasError s) (bk_ctx s) r"
  shows "flag_ok cont (s\<lparr>bk_tasks := (bk_tasks s)[n := Sending r]\<rparr>)"
proof -
  have "sent_or_sending (s\<lparr>bk_tasks := (bk_tasks s)[n := Sending r]\<rparr>) = insert r (sent_or_sending s)"
    using sent_update [OF assms(2,3), of "Sending r"] by simp
  then show ?thesis using assms(1,4) by (auto simp: flag_ok_def dest!: processed_update [OF assms(2)])
qed

lemma flag_ok_goes_on:
  assumes "flag_ok cont s" "n < length (bk_tasks s)" "\<forall>r. bk_tasks s ! n \<noteq> Sending r"
    and "\<forall>r. t \<noteq> Sending r" "\<And>r. t = Processed r \<Longrightarrow> el_ElementID r = 0 \<and> operation_error r"
  shows "flag_ok cont (s\<lparr>bk_tasks := (bk_tasks s)[n := t]\<rparr>)"
proof -
  have "sent_or_sending (s\<lparr>bk_tasks := (bk_tasks s)[n := t]\<rparr>) = sent_or_sending s"
    using sent_update [OF assms(2,3), of t] assms(4) by (cases t) auto
  then show ?thesis using assms(1,5) by (auto simp: flag_ok_def dest!: processed_update [OF assms(2)])
qed

lemma flag_ok_world [simp]: "flag_ok cont (s\<lparr>bk_world := w\<rparr>) = flag_ok cont s"
  by (simp add: flag_ok_def)

lemma step_flag: "bulk_step g ctrl version cont p s t \<Longrightarrow> flag_ok cont s \<Longrightarrow> flag_ok cont t"
proof (induction rule: bulk_step.induct)
  case (expire s x)
  then show ?case by (auto simp: flag_ok_def answer_ok_expired(1))
next
  case (take_one s i e queue)
  then show ?case by (auto simp: flag_ok_def sent_or_sending_def)
next
  case (give_up n s i e x)
  then show ?case by (intro flag_ok_answers) (simp_all add: answer_ok_def)
next
  case (enter n s i e)
  then show ?case by (intro flag_ok_goes_on) simp_all
next
  case (load n s i e t)
  show ?case
  proof (cases "bk_hasError s \<and> \<not> cont")
    case True
    with load show ?thesis by (simp add: answer_ok_def flag_ok_answers)
  next
    case False
    then have t: "t = Loaded i e" using load(3) by auto
    show ?thesis unfolding t using load(1,2,4) by (intro flag_ok_goes_on) simp_all
  qed
next
  case (succeed n s i e d w)
  then have "flag_ok cont (s\<lparr>bk_tasks := (bk_tasks s)[n := Sending (good_result i d)]\<rparr>)"
    by (intro flag_ok_answers) (simp_all add: answer_ok_def)
  then show ?case using flag_ok_world [of cont w "s\<lparr>bk_tasks := (bk_tasks s)[n := Sending (good_result i d)]\<rparr>"] by simp
next
  case (fail n s i e x w)
  then have "flag_ok cont (s\<lparr>bk_tasks := (bk_tasks s)[n := Processed (failed_result i x)]\<rparr>)"
    by (intro flag_ok_goes_on) (auto dest: processElement_error)
  then show ?case
    using flag_ok_world [of cont w "s\<lparr>bk_tasks := (bk_tasks s)[n := Processed (failed_result i x)]\<rparr>"] by simp
next
  case (panicked n s i e w)
  have "sent_or_sending (s\<lparr>bk_tasks := without n (bk_tasks s), bk_lost := i # bk_lost s, bk_world := w\<rparr>) = sent_or_sending s"
    using update_members [OF panicked(1)] panicked(2) by (auto simp: sent_or_sending_def)
  from flag_ok_cong [OF this _ _ _ panicked(4)] update_members(5) [OF panicked(1)] show ?case by simp
next
  case (tell n s r)
  have "Processed r \<in> set (bk_tasks s)" using tell(1,2) by (metis nth_mem)
  then have r: "el_ElementID r = 0" "operation_error r" using tell(3) by (auto simp: flag_ok_def)
  have "sent_or_sending (s\<lparr>bk_tasks := (bk_tasks s)[n := Sending r], bk_hasError := True\<rparr>) = insert r (sent_or_sending s)"
    using sent_update [OF tell(1), of "Sending r"] tell(2) by simp
  with tell(3) r show ?case
    by (auto simp: flag_ok_def answer_ok_expired(2) dest!: processed_update [OF tell(1)]) (simp_all add: answer_ok_def)
next
  case (send n s r)
  have "Sending r \<in> set (bk_tasks s)" using send(1,2) by (metis nth_mem)
  then have "sent_or_sending (s\<lparr>bk_tasks := without n (bk_tasks s), bk_results := bk_results s @ [r]\<rparr>) = sent_or_sending s"
    using update_members(4,5) [OF send(1)] send(2) by (auto simp: sent_or_sending_def)
  from flag_ok_cong [OF this _ _ _ send(3)] update_members(5) [OF send(1)] show ?case by simp
qed

text \<open>
  Claim C12. However the workers of a bulk interleave, and whenever the context of the request is cancelled
  or passes its deadline, when they stop every element has been answered once, except those whose panic the
  pool swallowed. The bulk failed exactly if a result is the error of an operation; if it did not fail, no
  result is an error but that of the context; if it was asked to go on, no element is cancelled for the
  failure of another. No result says which element it answers.
\<close>

theorem every_element_is_answered_once:
  assumes "(bulk_step g ctrl version cont parallelism)\<^sup>*\<^sup>* (bulk_start bulk w) s" "bulk_stopped s"
  shows "mset (map el_index (bk_results s)) + mset (bk_lost s) = mset [0..<length bulk] \<and>
    (bk_hasError s \<longleftrightarrow> (\<exists>r \<in> set (bk_results s). operation_error r)) \<and>
    (\<not> bk_hasError s \<longrightarrow> (\<forall>r \<in> set (bk_results s). el_Error r = None \<or> el_Error r = bk_ctx s)) \<and>
    (cont \<longrightarrow> (\<forall>r \<in> set (bk_results s). operation_error r \<or> el_Error r = None \<or> el_Error r = bk_ctx s)) \<and>
    (\<forall>r \<in> set (bk_results s). el_ElementID r = 0)"
proof -
  have "indexes (bulk_start bulk w) = mset [0..<length bulk]" "flag_ok cont (bulk_start bulk w)"
    by (simp_all add: indexes_def flag_ok_def sent_or_sending_def bulk_start_def)
  with assms(1) have s: "indexes s = mset [0..<length bulk]" "flag_ok cont s"
    by (induction rule: rtranclp_induct) (auto simp: step_indexes step_flag)
  have "sent_or_sending s = set (bk_results s)" using assms(2) by (simp add: sent_or_sending_def bulk_stopped_def)
  then have answers: "\<forall>r \<in> set (bk_results s). answer_ok cont (bk_hasError s) (bk_ctx s) r"
    and ctx: "\<forall>x. bk_ctx s = Some x \<longrightarrow> context_error x"
    and failed: "bk_hasError s \<longrightarrow> (\<exists>r \<in> set (bk_results s). operation_error r)"
    using s(2) by (simp_all add: flag_ok_def)
  have "bk_hasError s" if "r \<in> set (bk_results s)" "operation_error r" for r
    using answers ctx that by (auto simp: answer_ok_def operation_error_def)
  moreover have "mset (map el_index (bk_results s)) + mset (bk_lost s) = mset [0..<length bulk]"
    using s(1) assms(2) by (simp add: indexes_def bulk_stopped_def)
  ultimately show ?thesis using answers failed by (auto simp: answer_ok_def)
qed

section \<open>A bulk of two elements, and two workers\<close>

definition sample_floats :: go_floats where
  "sample_floats = \<lparr>gf_text = id, gf_int = (\<lambda>_. 0)\<rparr>"

definition create_element :: "bulk_element \<times> attempt list" where
  "create_element = (\<lparr>be_IdempotencyKey = [], be_Data = TransactionRequest (script_request ''send'')\<rparr>, [sample_attempt 100 None])"

definition bad_element :: "bulk_element \<times> attempt list" where
  "bad_element = (\<lparr>be_IdempotencyKey = [], be_Data = AddMetadataRequest ''LEDGER'' None []\<rparr>, [])"

lemma create_element_runs:
  "\<exists>tx fc. processElement sample_floats (facade_forge sample_controller) [] create_element new_ledger =
     Some (Inr (Some tx, 1), fc) \<and> tx_ID tx = Some 1"
proof -
  have "case processElement sample_floats (facade_forge sample_controller) [] create_element new_ledger of
     Some (Inr (Some tx, i), fc) \<Rightarrow> i = 1 \<and> tx_ID tx = Some 1 | _ \<Rightarrow> False" by code_simp
  then show ?thesis by (auto split: option.splits sum.splits prod.splits)
qed

lemma bad_element_fails:
  "processElement g ctrl version bad_element w = Some (Inl (Raised (InvalidTargetType ''LEDGER'')), w)"
  by (simp add: processElement_def bad_element_def MetaTargetTypeAccount_def MetaTargetTypeTransaction_def raise_def)

text \<open>The steps of a bulk whose context is not done, from a state that is written out.\<close>

definition bulk_at ::
    "(nat \<times> bulk_element \<times> attempt list) list \<Rightarrow> task list \<Rightarrow> bool \<Rightarrow> element_result list \<Rightarrow> 'w \<Rightarrow> 'w bulk_state" where
  "bulk_at q ts b rs w = \<lparr>bk_queue = q, bk_tasks = ts, bk_hasError = b, bk_ctx = None, bk_results = rs, bk_lost = [],
     bk_world = w\<rparr>"

lemma bulk_at_start: "bulk_start bulk w = bulk_at (enumerate 0 bulk) [] False [] w"
  by (simp add: bulk_start_def bulk_at_def)

lemma bulk_at_fields [simp]:
  "bk_queue (bulk_at q ts b rs w) = q" "bk_tasks (bulk_at q ts b rs w) = ts" "bk_hasError (bulk_at q ts b rs w) = b"
  "bk_results (bulk_at q ts b rs w) = rs" "bk_lost (bulk_at q ts b rs w) = []" "bk_world (bulk_at q ts b rs w) = w"
  "bk_ctx (bulk_at q ts b rs w) = None" "bulk_stopped (bulk_at q ts b rs w) \<longleftrightarrow> q = [] \<and> ts = []"
  by (simp_all add: bulk_at_def bulk_stopped_def)

lemma bulk_at_steps:
  "length ts < p \<Longrightarrow> bulk_step g ctrl v cont p (bulk_at ((i, e) # q) ts b rs w) (bulk_at q (ts @ [Taken i e]) b rs w)"
  "n < length ts \<Longrightarrow> ts ! n = Taken i e \<Longrightarrow>
     bulk_step g ctrl v cont p (bulk_at q ts b rs w) (bulk_at q (ts[n := Entered i e]) b rs w)"
  "n < length ts \<Longrightarrow> ts ! n = Entered i e \<Longrightarrow> \<not> b \<or> cont \<Longrightarrow>
     bulk_step g ctrl v cont p (bulk_at q ts b rs w) (bulk_at q (ts[n := Loaded i e]) b rs w)"
  "n < length ts \<Longrightarrow> ts ! n = Entered i e \<Longrightarrow> b \<and> \<not> cont \<Longrightarrow>
     bulk_step g ctrl v cont p (bulk_at q ts b rs w) (bulk_at q (ts[n := Sending (failed_result i BulkCanceled)]) b rs w)"
  "n < length ts \<Longrightarrow> ts ! n = Loaded i e \<Longrightarrow> processElement g ctrl v e w = Some (Inr d, w') \<Longrightarrow>
     bulk_step g ctrl v cont p (bulk_at q ts b rs w) (bulk_at q (ts[n := Sending (good_result i d)]) b rs w')"
  "n < length ts \<Longrightarrow> ts ! n = Loaded i e \<Longrightarrow> processElement g ctrl v e w = Some (Inl (Raised x), w') \<Longrightarrow>
     bulk_step g ctrl v cont p (bulk_at q ts b rs w) (bulk_at q (ts[n := Processed (failed_result i x)]) b rs w')"
  "n < length ts \<Longrightarrow> ts ! n = Processed r \<Longrightarrow>
     bulk_step g ctrl v cont p (bulk_at q ts b rs w) (bulk_at q (ts[n := Sending r]) True rs w)"
  "n < length ts \<Longrightarrow> ts ! n = Sending r \<Longrightarrow>
     bulk_step g ctrl v cont p (bulk_at q ts b rs w) (bulk_at q (without n ts) b (rs @ [r]) w)"
  using bulk_step.take_one [of "bulk_at ((i, e) # q) ts b rs w" i e q p g ctrl v cont]
    bulk_step.enter [of n "bulk_at q ts b rs w" i e g ctrl v cont p]
    bulk_step.load [of n "bulk_at q ts b rs w" i e "Loaded i e" cont g ctrl v p]
    bulk_step.load [of n "bulk_at q ts b rs w" i e "Sending (failed_result i BulkCanceled)" cont g ctrl v p]
    bulk_step.succeed [of n "bulk_at q ts b rs w" i e g ctrl v d w' cont p]
    bulk_step.fail [of n "bulk_at q ts b rs w" i e g ctrl v x w' cont p]
    bulk_step.tell [of n "bulk_at q ts b rs w" r g ctrl v cont p]
    bulk_step.send [of n "bulk_at q ts b rs w" r g ctrl v cont p]
  by (simp_all add: bulk_at_def)

text \<open>An element taken from the queue and allowed to run.\<close>

lemma bulk_at_loads:
  assumes "length ts < p" "\<not> b \<or> cont"
  shows "(bulk_step g ctrl v cont p)\<^sup>*\<^sup>* (bulk_at ((i, e) # q) ts b rs w) (bulk_at q (ts @ [Loaded i e]) b rs w)"
proof -
  let ?n = "length ts"
  have 1: "bulk_step g ctrl v cont p (bulk_at q (ts @ [Taken i e]) b rs w) (bulk_at q (ts @ [Entered i e]) b rs w)"
    using bulk_at_steps(2) [of ?n "ts @ [Taken i e]" i e g ctrl v cont p q b rs w] by simp
  have 2: "bulk_step g ctrl v cont p (bulk_at q (ts @ [Entered i e]) b rs w) (bulk_at q (ts @ [Loaded i e]) b rs w)"
    using bulk_at_steps(3) [of ?n "ts @ [Entered i e]" i e b cont g ctrl v p q rs w] assms(2) by simp
  show ?thesis
    by (rule converse_rtranclp_into_rtranclp [OF bulk_at_steps(1) [OF assms(1)]
      converse_rtranclp_into_rtranclp [OF 1 r_into_rtranclp [where r = "bulk_step g ctrl v cont p", OF 2]]])
qed

text \<open>A loaded element that fails, and its answer.\<close>

lemma bulk_at_fails:
  assumes "n < length ts" "ts ! n = Loaded i e" "processElement g ctrl v e w = Some (Inl (Raised x), w')"
  shows "(bulk_step g ctrl v cont p)\<^sup>*\<^sup>* (bulk_at q ts b rs w) (bulk_at q (without n ts) True (rs @ [failed_result i x]) w')"
proof -
  let ?r = "failed_result i x"
  have "without n (ts[n := t]) = without n ts" for t by (simp add: without_def)
  then have 2: "bulk_step g ctrl v cont p (bulk_at q (ts[n := Sending ?r]) True rs w') (bulk_at q (without n ts) True (rs @ [?r]) w')"
    using bulk_at_steps(8) [of n "ts[n := Sending ?r]" ?r g ctrl v cont p q True rs w'] assms(1) by simp
  have 1: "bulk_step g ctrl v cont p (bulk_at q (ts[n := Processed ?r]) b rs w') (bulk_at q (ts[n := Sending ?r]) True rs w')"
    using bulk_at_steps(7) [of n "ts[n := Processed ?r]" ?r g ctrl v cont p q b rs w'] assms(1) by simp
  show ?thesis
    by (rule converse_rtranclp_into_rtranclp [OF bulk_at_steps(6) [OF assms]
      converse_rtranclp_into_rtranclp [OF 1 r_into_rtranclp [where r = "bulk_step g ctrl v cont p", OF 2]]])
qed

text \<open>The second element overtakes the first.\<close>

lemma sample_overtaking:
  "\<exists>tx s. (bulk_step sample_floats (facade_forge sample_controller) [] False 2)\<^sup>*\<^sup>*
       (bulk_start [create_element, bad_element] new_ledger) s \<and> bulk_stopped s \<and> bk_hasError s \<and> bk_lost s = [] \<and>
     bk_results s = [failed_result 1 (InvalidTargetType ''LEDGER''), good_result 0 (Some tx, 1)] \<and> tx_ID tx = Some 1"
proof -
  let ?step = "bulk_step sample_floats (facade_forge sample_controller) [] False 2"
  let ?x = "failed_result 1 (InvalidTargetType ''LEDGER'')"
  from create_element_runs obtain tx fc where
    c: "processElement sample_floats (facade_forge sample_controller) [] create_element new_ledger = Some (Inr (Some tx, 1), fc)"
    "tx_ID tx = Some 1" by blast
  let ?r = "good_result 0 (Some tx, 1)"
  have 1: "?step\<^sup>*\<^sup>* (bulk_at [(0, create_element), (1, bad_element)] [] False [] new_ledger)
      (bulk_at [(1, bad_element)] [Loaded 0 create_element] False [] new_ledger)"
    using bulk_at_loads [of "[]" 2 False False] by simp
  have 2: "?step\<^sup>*\<^sup>* (bulk_at [(1, bad_element)] [Loaded 0 create_element] False [] new_ledger)
      (bulk_at [] [Loaded 0 create_element, Loaded 1 bad_element] False [] new_ledger)"
    using bulk_at_loads [of "[Loaded 0 create_element]" 2 False False] by simp
  have 3: "?step\<^sup>*\<^sup>* (bulk_at [] [Loaded 0 create_element, Loaded 1 bad_element] False [] new_ledger)
      (bulk_at [] [Loaded 0 create_element] True [?x] new_ledger)"
    using bulk_at_fails [where n = 1 and i = 1 and e = bad_element and ts = "[Loaded 0 create_element, Loaded 1 bad_element]" and rs = "[]" and b = False,
      OF _ _ bad_element_fails]
    by (simp add: without_def)
  have 4: "?step (bulk_at [] [Loaded 0 create_element] True [?x] new_ledger) (bulk_at [] [Sending ?r] True [?x] fc)"
    using bulk_at_steps(5) [of 0 "[Loaded 0 create_element]" 0 create_element, OF _ _ c(1)] by simp
  have 5: "?step (bulk_at [] [Sending ?r] True [?x] fc) (bulk_at [] [] True [?x, ?r] fc)"
    using bulk_at_steps(8) [where n = 0 and ts = "[Sending ?r]" and r = ?r and rs = "[?x]"] by (simp add: without_def)
  have "?step\<^sup>*\<^sup>* (bulk_start [create_element, bad_element] new_ledger) (bulk_at [] [] True [?x, ?r] fc)"
    unfolding bulk_at_start using rtranclp_trans [OF rtranclp_trans [OF 1 2] rtranclp_trans [OF 3]] 4 5
    by (simp add: converse_rtranclp_into_rtranclp)
  with c(2) show ?thesis by (intro exI [of _ tx] exI [of _ "bulk_at [] [] True [?x, ?r] fc"]) simp
qed

text \<open>The failure of an element can cancel one that was taken before it.\<close>

lemma failures_cancel_earlier_elements:
  "(bulk_step g ctrl v False 2)\<^sup>*\<^sup>* (bulk_start [create_element, bad_element] w)
     (bulk_at [] [] True [failed_result 1 (InvalidTargetType ''LEDGER''), failed_result 0 BulkCanceled] w)"
proof -
  let ?step = "bulk_step g ctrl v False 2"
  let ?x = "failed_result 1 (InvalidTargetType ''LEDGER'')" and ?c = "failed_result 0 BulkCanceled"
  have 1: "?step (bulk_at [(0, create_element), (1, bad_element)] [] False [] w)
      (bulk_at [(1, bad_element)] [Taken 0 create_element] False [] w)"
    using bulk_at_steps(1) [of "[]" 2] by simp
  have 2: "?step (bulk_at [(1, bad_element)] [Taken 0 create_element] False [] w)
      (bulk_at [(1, bad_element)] [Entered 0 create_element] False [] w)"
    using bulk_at_steps(2) [of 0 "[Taken 0 create_element]" 0 create_element] by simp
  have 3: "?step\<^sup>*\<^sup>* (bulk_at [(1, bad_element)] [Entered 0 create_element] False [] w)
      (bulk_at [] [Entered 0 create_element, Loaded 1 bad_element] False [] w)"
    using bulk_at_loads [of "[Entered 0 create_element]" 2 False False] by simp
  have 4: "?step\<^sup>*\<^sup>* (bulk_at [] [Entered 0 create_element, Loaded 1 bad_element] False [] w)
      (bulk_at [] [Entered 0 create_element] True [?x] w)"
    using bulk_at_fails [where n = 1 and i = 1 and e = bad_element and ts = "[Entered 0 create_element, Loaded 1 bad_element]" and rs = "[]" and b = False,
      OF _ _ bad_element_fails]
    by (simp add: without_def)
  have 5: "?step (bulk_at [] [Entered 0 create_element] True [?x] w) (bulk_at [] [Sending ?c] True [?x] w)"
    using bulk_at_steps(4) [where n = 0 and i = 0 and e = create_element and ts = "[Entered 0 create_element]" and b = True and cont = False] by simp
  have 6: "?step (bulk_at [] [Sending ?c] True [?x] w) (bulk_at [] [] True [?x, ?c] w)"
    using bulk_at_steps(8) [where n = 0 and ts = "[Sending ?c]" and r = ?c and rs = "[?x]"] by (simp add: without_def)
  have "?step\<^sup>*\<^sup>* (bulk_at [(0, create_element), (1, bad_element)] [] False [] w) (bulk_at [] [] True [?x, ?c] w)"
    using rtranclp_trans [OF 3 4] 1 2 5 6
    by (meson converse_rtranclp_into_rtranclp rtranclp.rtrancl_into_rtrancl)
  then show ?thesis by (simp add: bulk_at_start)
qed

theorem every_element_is_answered_once_witness:
  "\<exists>s. (bulk_step sample_floats (facade_forge sample_controller) [] False 2)\<^sup>*\<^sup>*
       (bulk_start [create_element, bad_element] new_ledger) s \<and> bk_hasError s \<and>
     mset (map el_index (bk_results s)) = {#0, 1#}"
proof -
  from sample_overtaking obtain s where s:
    "(bulk_step sample_floats (facade_forge sample_controller) [] False 2)\<^sup>*\<^sup>*
       (bulk_start [create_element, bad_element] new_ledger) s" "bulk_stopped s" "bk_hasError s" "bk_lost s = []" by blast
  from every_element_is_answered_once [OF s(1,2)] s show ?thesis by (auto simp: upt_rec)
qed

text \<open>
  The answers of a parallel bulk are given in the order in which they come, under the
  actions in the order of the elements: here the error of the second element is reported as that
  of the first, and the transaction the first one created as the result of adding metadata.
\<close>

lemma parallel_answers_are_mixed_up:
  "\<exists>s tx answers. (bulk_step sample_floats (facade_forge sample_controller) [] False 2)\<^sup>*\<^sup>*
       (bulk_start [create_element, bad_element] new_ledger) s \<and> bulk_stopped s \<and>
     writeJSONResponse (map (GetAction \<circ> be_Data \<circ> fst) [create_element, bad_element]) (bk_results s) False =
       (Inr (400, answers, []) :: (unit, _) result) \<and>
     ar_Error (answers ! 0) = Some (InvalidTargetType ''LEDGER'') \<and>
     ar_ResponseType (answers ! 1) = ActionAddMetadata \<and> ar_Data (answers ! 1) = Some tx \<and> ar_LogID (answers ! 1) = 1"
proof -
  from sample_overtaking obtain tx s where s:
    "(bulk_step sample_floats (facade_forge sample_controller) [] False 2)\<^sup>*\<^sup>*
       (bulk_start [create_element, bad_element] new_ledger) s" "bulk_stopped s"
    "bk_results s = [failed_result 1 (InvalidTargetType ''LEDGER''), good_result 0 (Some tx, 1)]" by blast
  have "writeJSONResponse (map (GetAction \<circ> be_Data \<circ> fst) [create_element, bad_element]) (bk_results s) False =
     (Inr (400, [map_result ActionCreateTransaction (failed_result 1 (InvalidTargetType ''LEDGER'')),
        map_result ActionAddMetadata (good_result 0 (Some tx, 1))], []) :: (unit, _) result)"
    by (simp add: writeJSONResponse_def s(3) create_element_def bad_element_def)
  with s(1,2) show ?thesis by (force simp: map_result_def failed_result_def good_result_def)
qed


section \<open>One worker\<close>

text \<open>
  What a single worker has before it, and what it still does when the context leaves it that much: the element
  it has taken is before it until it has found the context not to be done.
\<close>

definition before_it :: "'w bulk_state \<Rightarrow> (nat \<times> bulk_element \<times> attempt list) list" where
  "before_it s = (case bk_tasks s of [Taken i e] \<Rightarrow> (i, e) # bk_queue s | _ \<Rightarrow> bk_queue s)"

definition run_after ::
    "go_floats \<Rightarrow> 'w control \<Rightarrow> string \<Rightarrow> bool \<Rightarrow> (nat \<times> bulk_element \<times> attempt list) list \<Rightarrow> nat \<Rightarrow> bool \<Rightarrow>
     element_result list \<Rightarrow> ((bulk_error, transaction option \<times> nat) result \<times> 'w) option \<Rightarrow>
     (bool \<times> element_result list \<times> 'w) option" where
  "run_after g ctrl version cont es i b rs r =
     (case r of
        None \<Rightarrow> None
      | Some (Inr d, w) \<Rightarrow> run_sequential g ctrl version cont es (b, rs @ [good_result i d], w)
      | Some (Inl (Raised x), w) \<Rightarrow> run_sequential g ctrl version cont es (True, rs @ [failed_result i x], w)
      | Some (Inl Panic, w) \<Rightarrow> run_sequential g ctrl version cont es (b, rs, w))"

lemma run_after_simps [simp]:
  "run_after g ctrl version cont es i b rs None = None"
  "run_after g ctrl version cont es i b rs (Some (Inr d, w)) = run_sequential g ctrl version cont es (b, rs @ [good_result i d], w)"
  "run_after g ctrl version cont es i b rs (Some (Inl (Raised x), w)) =
     run_sequential g ctrl version cont es (True, rs @ [failed_result i x], w)"
  "run_after g ctrl version cont es i b rs (Some (Inl Panic, w)) = run_sequential g ctrl version cont es (b, rs, w)"
  by (simp_all add: run_after_def)

lemma run_sequential_Cons:
  "run_sequential g ctrl version cont ((i, e) # es) (b, rs, w) =
     (if b \<and> \<not> cont then run_sequential g ctrl version cont es (b, rs @ [failed_result i BulkCanceled], w)
      else run_after g ctrl version cont es i b rs (processElement g ctrl version e w))"
  by (simp add: run_after_def)

definition remaining ::
    "go_floats \<Rightarrow> 'w control \<Rightarrow> string \<Rightarrow> bool \<Rightarrow> (nat \<times> bulk_element \<times> attempt list) list \<Rightarrow> 'w bulk_state \<Rightarrow>
     (bool \<times> element_result list \<times> 'w) option" where
  "remaining g ctrl version cont es s =
     (case bk_tasks s of
        [Entered i e] \<Rightarrow> run_sequential g ctrl version cont ((i, e) # es) (bk_hasError s, bk_results s, bk_world s)
      | [Loaded i e] \<Rightarrow>
          run_after g ctrl version cont es i (bk_hasError s) (bk_results s) (processElement g ctrl version e (bk_world s))
      | [Processed r] \<Rightarrow> run_sequential g ctrl version cont es (True, bk_results s @ [r], bk_world s)
      | [Sending r] \<Rightarrow> run_sequential g ctrl version cont es (bk_hasError s, bk_results s @ [r], bk_world s)
      | _ \<Rightarrow> run_sequential g ctrl version cont es (bk_hasError s, bk_results s, bk_world s))"

lemma single_worker_simps:
  "bk_tasks s = [] \<Longrightarrow> before_it s = bk_queue s" "bk_tasks s = [Taken i e] \<Longrightarrow> before_it s = (i, e) # bk_queue s"
  "bk_tasks s = [Entered i e] \<Longrightarrow> before_it s = bk_queue s" "bk_tasks s = [Loaded i e] \<Longrightarrow> before_it s = bk_queue s"
  "bk_tasks s = [Processed r] \<Longrightarrow> before_it s = bk_queue s" "bk_tasks s = [Sending r] \<Longrightarrow> before_it s = bk_queue s"
  "bk_tasks s = [] \<Longrightarrow> remaining g ctrl version cont es s = run_sequential g ctrl version cont es (bk_hasError s, bk_results s, bk_world s)"
  "bk_tasks s = [Taken i e] \<Longrightarrow>
     remaining g ctrl version cont es s = run_sequential g ctrl version cont es (bk_hasError s, bk_results s, bk_world s)"
  "bk_tasks s = [Entered i e] \<Longrightarrow> remaining g ctrl version cont es s =
     (if bk_hasError s \<and> \<not> cont
      then run_sequential g ctrl version cont es (bk_hasError s, bk_results s @ [failed_result i BulkCanceled], bk_world s)
      else run_after g ctrl version cont es i (bk_hasError s) (bk_results s) (processElement g ctrl version e (bk_world s)))"
  "bk_tasks s = [Loaded i e] \<Longrightarrow> remaining g ctrl version cont es s =
     run_after g ctrl version cont es i (bk_hasError s) (bk_results s) (processElement g ctrl version e (bk_world s))"
  "bk_tasks s = [Processed r] \<Longrightarrow>
     remaining g ctrl version cont es s = run_sequential g ctrl version cont es (True, bk_results s @ [r], bk_world s)"
  "bk_tasks s = [Sending r] \<Longrightarrow>
     remaining g ctrl version cont es s = run_sequential g ctrl version cont es (bk_hasError s, bk_results s @ [r], bk_world s)"
  by (simp_all add: before_it_def remaining_def run_sequential_Cons del: run_sequential.simps)

text \<open>It ends as another state after \<open>k\<close> more elements: the others are answered with the error of the context.\<close>

definition ends_after ::
    "go_floats \<Rightarrow> 'w control \<Rightarrow> string \<Rightarrow> bool \<Rightarrow> 'w bulk_state \<Rightarrow> nat \<Rightarrow> 'w bulk_state \<Rightarrow> bool" where
  "ends_after g ctrl version cont t k s \<longleftrightarrow> k \<le> length (before_it s) \<and> (bk_ctx s \<noteq> None \<longrightarrow> k = 0 \<and> bk_ctx t = bk_ctx s) \<and>
     (bk_ctx t = None \<longrightarrow> k = length (before_it s)) \<and>
     (\<exists>rs. remaining g ctrl version cont (take k (before_it s)) s = Some (bk_hasError t, rs, bk_world t) \<and>
        bk_results t = rs @ map (\<lambda>(i, e). failed_result i (the (bk_ctx t))) (drop k (before_it s)))"

lemma remaining_ctx [simp]:
  "before_it (s\<lparr>bk_ctx := x\<rparr>) = before_it s"
  "remaining g ctrl version cont es (s\<lparr>bk_ctx := x\<rparr>) = remaining g ctrl version cont es s"
  by (simp_all add: before_it_def remaining_def split: list.split task.split)

lemma single_task: "n < length xs \<Longrightarrow> length xs \<le> 1 \<Longrightarrow> xs ! n = x \<Longrightarrow> xs = [x] \<and> n = 0"
  by (cases xs) auto

lemma step_single: "bulk_step g ctrl version cont 1 s t \<Longrightarrow> length (bk_tasks s) \<le> 1 \<Longrightarrow> length (bk_tasks t) \<le> 1"
  by (induction rule: bulk_step.induct) (auto simp: without_def)

lemma step_ends_after:
  assumes "bulk_step g ctrl version cont 1 s s'" "length (bk_tasks s) \<le> 1" "ends_after g ctrl version cont t k s'"
  shows "\<exists>k. ends_after g ctrl version cont t k s"
  using assms
proof (induction rule: bulk_step.induct)
  case (expire s x)
  then show ?case by (intro exI [of _ k]) (auto simp: ends_after_def)
next
  case (take_one s i e queue)
  then have "bk_tasks s = []" by simp
  with take_one show ?case by (intro exI [of _ k]) (simp add: ends_after_def single_worker_simps)
next
  case (give_up n s i e x)
  from single_task [OF give_up(1,4,2)] give_up(3,5) show ?case
    by (intro exI [of _ 0]) (auto simp: ends_after_def single_worker_simps)
next
  case (enter n s i e)
  from single_task [OF enter(1,4,2)] enter(3,5) show ?case
    by (intro exI [of _ "Suc k"])
      (simp add: ends_after_def single_worker_simps run_sequential_Cons del: run_sequential.simps cong: if_cong)
next
  case (load n s i e u)
  from single_task [OF load(1,4,2)] load(3,5) show ?case
    by (intro exI [of _ k]) (auto simp: ends_after_def single_worker_simps split: if_splits)
next
  case (succeed n s i e d w)
  from single_task [OF succeed(1,4,2)] succeed(3,5) show ?case
    by (intro exI [of _ k]) (simp add: ends_after_def single_worker_simps)
next
  case (fail n s i e x w)
  from single_task [OF fail(1,4,2)] fail(3,5) show ?case
    by (intro exI [of _ k]) (simp add: ends_after_def single_worker_simps)
next
  case (panicked n s i e w)
  from single_task [OF panicked(1,4,2)] panicked(3,5) show ?case
    by (intro exI [of _ k]) (simp add: ends_after_def single_worker_simps without_def)
next
  case (tell n s r)
  from single_task [OF tell(1,3,2)] tell(4) show ?case
    by (intro exI [of _ k]) (simp add: ends_after_def single_worker_simps)
next
  case (send n s r)
  from single_task [OF send(1,3,2)] send(4) show ?case
    by (intro exI [of _ k]) (simp add: ends_after_def single_worker_simps without_def)
qed

lemma single_worker_ends:
  assumes "(bulk_step g ctrl version cont 1)\<^sup>*\<^sup>* s t" "length (bk_tasks s) \<le> 1" "bulk_stopped t"
  shows "\<exists>k. ends_after g ctrl version cont t k s"
  using assms
proof (induction rule: converse_rtranclp_induct)
  case base
  then show ?case by (intro exI [of _ 0]) (simp add: ends_after_def single_worker_simps bulk_stopped_def)
next
  case (step s s')
  then show ?case using step_single step_ends_after by metis
qed

text \<open>
  Claim C13. A bulk with one worker runs its elements one after the other: when it stops it has the flag, the
  results and the ledger of the sequential run of its elements, up to the one that found the context of the
  request to be done; that one and those after it are answered with the error of the context.
\<close>

theorem one_worker_runs_in_order:
  assumes "(bulk_step g ctrl version cont 1)\<^sup>*\<^sup>* (bulk_start bulk w) s" "bulk_stopped s"
  shows "\<exists>k rs. k \<le> length bulk \<and> (bk_ctx s = None \<longrightarrow> k = length bulk) \<and>
    run_sequential g ctrl version cont (enumerate 0 (take k bulk)) (False, [], w) = Some (bk_hasError s, rs, bk_world s) \<and>
    bk_results s = rs @ map (\<lambda>i. failed_result i (the (bk_ctx s))) [k..<length bulk]"
proof -
  obtain k where k: "ends_after g ctrl version cont s k (bulk_start bulk w)"
    using single_worker_ends [OF assms(1) _ assms(2)] by (auto simp: bulk_start_def)
  have "map (\<lambda>(i, e). f i) (drop k (enumerate 0 bulk)) = map f [k..<length bulk]" for f :: "nat \<Rightarrow> element_result"
    by (simp add: enumerate_eq_zip drop_zip map_fst_zip_take split_def flip: map_map [unfolded comp_def])
  moreover have "take k (enumerate 0 bulk) = enumerate 0 (take k bulk)"
    using k by (simp add: ends_after_def before_it_def bulk_start_def enumerate_eq_zip take_zip)
  ultimately show ?thesis
    using k by (intro exI [of _ k]) (auto simp: ends_after_def before_it_def remaining_def bulk_start_def)
qed

theorem one_worker_runs_in_order_witness:
  "\<exists>s :: facade bulk_state. bk_results s = [failed_result 0 (InvalidTargetType ''LEDGER'')] \<and>
     run_sequential sample_floats (facade_forge sample_controller) [] False (enumerate 0 [bad_element]) (False, [], new_ledger) =
       Some (bk_hasError s, bk_results s, bk_world s)"
proof -
  let ?step = "bulk_step sample_floats (facade_forge sample_controller) [] False 1"
  let ?s = "bulk_at [] [] True [failed_result 0 (InvalidTargetType ''LEDGER'')] new_ledger"
  have "?step\<^sup>*\<^sup>* (bulk_at [(0, bad_element)] [] False [] new_ledger) (bulk_at [] [Loaded 0 bad_element] False [] new_ledger)"
    using bulk_at_loads [of "[]" 1 False False] by simp
  moreover have "?step\<^sup>*\<^sup>* (bulk_at [] [Loaded 0 bad_element] False [] new_ledger) ?s"
    using bulk_at_fails [where n = 0 and i = 0 and e = bad_element and ts = "[Loaded 0 bad_element]" and rs = "[]" and b = False, OF _ _ bad_element_fails] by (simp add: without_def)
  ultimately have "?step\<^sup>*\<^sup>* (bulk_start [bad_element] new_ledger) ?s" by (simp add: bulk_at_start)
  from one_worker_runs_in_order [OF this] show ?thesis by (intro exI [of _ ?s]) auto
qed

section \<open>Bulks stop\<close>














section \<open>Atomic bulks\<close>

lemma fetchLogWithIK_member: "fetchLogWithIK c pm t = Inr (Some (l, out)) \<Longrightarrow> l \<in> set (t_logs t)"
  by (auto simp: fetchLogWithIK_def find_log_def find_Some_iff split: option.splits if_splits)

lemma forgeLogRetry_hit:
  "forgeLogRetry c pm schedule w = Some (Inr (l, out, True), w') \<Longrightarrow> l \<in> set (t_logs (w_tables w'))"
proof (induction schedule arbitrary: w)
  case (Cons a schedule)
  obtain r w1 where r: "runTx c pm a w = (r, w1)" by (cases "runTx c pm a w")
  show ?case
  proof (cases r)
    case (Inr t)
    with Cons.prems r show ?thesis by (cases t) simp
  next
    case (Inl e)
    then show ?thesis
    proof (cases "retried e")
      case True
      then consider "e = Raised (StoreError DeadlockDetected)" | k where "e = Raised (StoreError (IdempotencyKeyConflict k))"
        by (cases e rule: retried.cases) auto
      then show ?thesis
      proof cases
        case 1
        with Cons r Inl show ?thesis by simp
      next
        case 2
        with Cons.prems r Inl show ?thesis
          by (auto dest: fetchLogWithIK_member split: sum.splits option.splits)
      qed
    next
      case False
      with Cons.prems r Inl show ?thesis by (cases e rule: retried.cases) auto
    qed
  qed
qed simp

lemma forgeLog_hit:
  assumes "forgeLog c pm schedule w = Some (Inr (l, out, True), w')" "alone schedule"
  shows "l \<in> set (t_logs (w_tables w'))"
proof -
  from assms(1) obtain a rest where s: "schedule = a # rest" by (cases schedule) auto
  let ?s = "begin_attempt a w"
  let ?f = "if pm_IdempotencyKey pm \<noteq> [] then fetchLogWithIK c pm (s_tx ?s) else Inr None"
  have t: "w_tables (end_attempt a (snd (Rollback ?s))) = s_tx ?s"
    using assms(2) by (simp add: s alone_def end_attempt_def Rollback_def modifyS_def begin_attempt_def BeginTX_def)
  show ?thesis
  proof (cases ?f)
    case (Inl e)
    with assms(1) show ?thesis by (simp add: s Let_def)
  next
    case (Inr v)
    show ?thesis
    proof (cases v)
      case (Some p)
      obtain l' out' where p: "p = (l', out')" by (cases p)
      from assms(1) Inr Some p have w: "w' = end_attempt a (snd (Rollback ?s))" "l' = l"
        by (auto simp: s Let_def)
      from Inr Some p have "fetchLogWithIK c pm (s_tx ?s) = Inr (Some (l', out'))" by (simp split: if_splits)
      with w t show ?thesis using fetchLogWithIK_member by metis
    next
      case None
      obtain r s1 where r: "runLog c pm ?s = (r, s1)" by (cases "runLog c pm ?s")
      show ?thesis
      proof (cases r)
        case (Inl e)
        with assms(1) Inr None r show ?thesis
          by (auto simp: s Let_def split: if_splits intro: forgeLogRetry_hit)
      next
        case r: (Inr t)
        with assms(1) Inr None \<open>runLog c pm ?s = (r, s1)\<close> show ?thesis
          by (auto simp: s Let_def split: sum.splits prod.splits)
      qed
    qed
  qed
qed

lemma nested_forge_Inr:
  assumes "nested_forge c pm schedule (w, ab) = Some (Inr y, w', ab')"
  shows "forgeLog c pm schedule w = Some (Inr y, w')"
proof (cases "forgeLog c pm schedule w")
  case (Some p)
  obtain r w1 where p: "p = (r, w1)" by (cases p)
  show ?thesis
  proof (cases r)
    case (Inl x)
    with assms Some p show ?thesis by (cases x) (simp_all add: nested_forge_def split: if_splits)
  next
    case (Inr z)
    with assms Some p show ?thesis by (simp add: nested_forge_def split: if_splits)
  qed
qed (use assms in \<open>simp add: nested_forge_def split: if_splits\<close>)

text \<open>An operation inside the transaction appends its log, or finds it.\<close>

lemma nested_forge_log:
  assumes "parsers_ok c" "alone schedule" "\<not> pm_DryRun pm"
    and "nested_forge c pm schedule (w, ab) = Some (Inr (l, out, hit), w', ab')"
  shows "\<exists>ls. t_logs (w_tables w') = t_logs (w_tables w) @ ls \<and> l \<in> set (t_logs (w_tables w'))"
proof -
  note f = nested_forge_Inr [OF assms(4)]
  note e = forgeLog_effect(1) [OF assms(1) f assms(2), unfolded effect_def]
  show ?thesis
  proof (cases hit)
    case True
    then have "without_accounts (w_tables w') = without_accounts (w_tables w)" using e by simp
    moreover have "forgeLog c pm schedule w = Some (Inr (l, out, True), w')" using f True by simp
    ultimately show ?thesis using without_accounts_logs forgeLog_hit assms(2) by (metis append_Nil2)
  next
    case False
    then have "appended c pm (t_logs (w_tables w)) l out (t_logs (w_tables w'))" using e assms(3) by simp
    then show ?thesis by (simp add: appended_def)
  qed
qed

lemma run_sequential_results:
  "run_sequential g ctrl version cont es (b, rs, w) = Some (b', rs', w') \<Longrightarrow>
   \<exists>more. rs' = rs @ more \<and> length more \<le> length es \<and> (b' \<longleftrightarrow> b \<or> (\<exists>r \<in> set more. el_Error r \<noteq> None \<and> el_Error r \<noteq> Some BulkCanceled))"
proof (induction es arbitrary: b rs w)
  case (Cons ie es)
  obtain i e where ie: "ie = (i, e)" by (cases ie)
  show ?case
  proof (cases "b \<and> \<not> cont")
    case True
    with Cons.prems Cons.IH [of True "rs @ [failed_result i BulkCanceled]" w] show ?thesis
      by (auto simp: ie)
  next
    case False
    with Cons.prems obtain r w1 where r: "processElement g ctrl version e w = Some (r, w1)"
      by (auto simp: ie split: option.splits)
    consider d where "r = Inr d" | x where "r = Inl (Raised x)" | "r = Inl Panic"
      by (cases r; cases "projl r") auto
    then show ?thesis
    proof cases
      case 1
      with False Cons.prems r Cons.IH [of b "rs @ [good_result i d]" w1] show ?thesis by (auto simp: ie)
    next
      case 2
      with False Cons.prems r Cons.IH [of True "rs @ [failed_result i x]" w1] processElement_error [of g ctrl version e w x w1]
      show ?thesis by (auto simp: ie)
    next
      case 3
      with False Cons.prems r Cons.IH [of b rs w1] show ?thesis by (auto simp: ie)
    qed
  qed
qed simp


lemma run_sequential_canceled:
  "run_sequential g ctrl version cont es (b, rs, w) = Some (b', rs', w') \<Longrightarrow>
   \<exists>r \<in> set rs'. el_Error r \<noteq> None \<Longrightarrow> (\<exists>r \<in> set rs. el_Error r \<noteq> None) \<or> b'"
proof (induction es arbitrary: b rs w)
  case (Cons ie es)
  obtain i e where ie: "ie = (i, e)" by (cases ie)
  show ?case
  proof (cases "b \<and> \<not> cont")
    case True
    with Cons.prems(1) have run: "run_sequential g ctrl version cont es (True, rs @ [failed_result i BulkCanceled], w) = Some (b', rs', w')"
      by (simp add: ie)
    from run_sequential_results [OF run] show ?thesis by auto
  next
    case False
    with Cons.prems obtain r w1 where r: "processElement g ctrl version e w = Some (r, w1)"
      by (auto simp: ie split: option.splits)
    consider d where "r = Inr d" | x where "r = Inl (Raised x)" | "r = Inl Panic"
      by (cases r; cases "projl r") auto
    then show ?thesis
    proof cases
      case 1
      with False Cons.prems r Cons.IH [of b "rs @ [good_result i d]" w1] show ?thesis by (auto simp: ie)
    next
      case 2
      with False Cons.prems(1) r have run: "run_sequential g ctrl version cont es (True, rs @ [failed_result i x], w1) = Some (b', rs', w')"
        by (auto simp: ie)
      from run_sequential_results [OF run] show ?thesis by auto
    next
      case 3
      with False Cons.prems r Cons.IH [of b rs w1] show ?thesis by (auto simp: ie)
    qed
  qed
qed simp

lemma run_nested_logs:
  assumes "parsers_ok c"
  shows "run_sequential g (nested_forge c) version cont es (False, rs, w, ab) = Some (b', rs @ new_rs, w', ab') \<Longrightarrow>
   \<forall>(i, e) \<in> set es. alone (snd e) \<Longrightarrow> length new_rs = length es \<Longrightarrow> \<forall>r \<in> set new_rs. el_Error r = None \<Longrightarrow>
   \<exists>ls. t_logs (w_tables w') = t_logs (w_tables w) @ ls \<and>
     (\<forall>r \<in> set new_rs. \<exists>l \<in> set (t_logs (w_tables w')). lg_ID l = Some (el_LogID r))"
proof (induction es arbitrary: rs w ab new_rs)
  case (Cons ie es)
  obtain i e where ie: "ie = (i, e)" by (cases ie)
  let ?run = "run_sequential g (nested_forge c) version cont es"
  from Cons.prems(1) obtain r w1 ab1 where r: "processElement g (nested_forge c) version e (w, ab) = Some (r, w1, ab1)"
    by (auto simp: ie split: option.splits)
  consider d where "r = Inr d" | x where "r = Inl (Raised x)" | "r = Inl Panic"
    by (cases r; cases "projl r") auto
  then show ?case
  proof cases
    case 1
    from Cons.prems(1) r 1 have run: "?run (False, rs @ [good_result i d], w1, ab1) = Some (b', rs @ new_rs, w', ab')"
      by (simp add: ie)
    from run_sequential_results [OF run] obtain ms where new_rs: "new_rs = good_result i d # ms" by auto
    from r 1 obtain input l out hit where op: "element_input g (be_Data (fst e)) = Inr input"
      "nested_forge c (element_parameters version (be_IdempotencyKey (fst e)) input) (snd e) (w, ab) = Some (Inr (l, out, hit), w1, ab1)"
      "lg_ID l = Some (snd d)"
    proof (cases "element_input g (be_Data (fst e))")
      case (Inr input)
      with r 1 obtain x where x: "nested_forge c (element_parameters version (be_IdempotencyKey (fst e)) input) (snd e) (w, ab) = Some (x, w1, ab1)"
        "(case x of Inl Panic \<Rightarrow> panic | Inl (Raised x) \<Rightarrow> raise (BulkController x)
         | Inr (l, out, _) \<Rightarrow> (case lg_ID l of None \<Rightarrow> panic | Some i \<Rightarrow> Inr (element_data out, i))) = Inr d"
        by (auto simp: processElement_def)
      then obtain t where t: "x = Inr t" by (cases x) (auto split: failure.splits)
      obtain l out hit where "t = (l, out, hit)" by (cases t) auto
      with x t Inr that show ?thesis by (auto split: option.splits)
    qed (simp add: processElement_def)
    have "alone (snd e)" "\<not> pm_DryRun (element_parameters version (be_IdempotencyKey (fst e)) input)"
      using Cons.prems(2) by (simp_all add: ie element_parameters_def)
    from nested_forge_log [OF assms this op(2)] obtain ls where
      ls: "t_logs (w_tables w1) = t_logs (w_tables w) @ ls" "l \<in> set (t_logs (w_tables w1))" by blast
    have "?run (False, rs @ [good_result i d], w1, ab1) = Some (b', (rs @ [good_result i d]) @ ms, w', ab')"
      using run new_rs by simp
    from Cons.IH [OF this] Cons.prems(2-4) new_rs obtain ls' where
      "t_logs (w_tables w') = t_logs (w_tables w1) @ ls'"
      "\<forall>r \<in> set ms. \<exists>l \<in> set (t_logs (w_tables w')). lg_ID l = Some (el_LogID r)" by auto
    with ls op(3) new_rs show ?thesis by (auto simp: good_result_def)
  next
    case 2
    from Cons.prems(1) r 2 have run: "?run (True, rs @ [failed_result i x], w1, ab1) = Some (b', rs @ new_rs, w', ab')"
      by (simp add: ie)
    from run_sequential_results [OF run] Cons.prems(4) show ?thesis by auto
  next
    case 3
    from Cons.prems(1) r 3 have run: "?run (False, rs, w1, ab1) = Some (b', rs @ new_rs, w', ab')" by (simp add: ie)
    from run_sequential_results [OF run] Cons.prems(3) show ?thesis by auto
  qed
qed simp

text \<open>
  Claim C11. An atomic bulk is all or nothing, as far as its operations return: when one of its
  results is an error, or it could not be committed, the tables of the ledger are as they were;
  when every element has a result and none is an error, the log each result names has been
  committed after the logs the ledger had.
\<close>

theorem atomic_bulks_are_all_or_nothing:
  assumes "bulk_Run g c opts commit_fails bulk fc = Some (r, results, fc')" "bo_Atomic opts" "parsers_ok c"
    and "\<forall>e \<in> set bulk. alone (snd e)"
  shows "((\<exists>x \<in> set results. el_Error x \<noteq> None) \<or> r \<noteq> Inr () \<longrightarrow> w_tables (fc_world fc') = w_tables (fc_world fc)) \<and>
    ((\<forall>x \<in> set results. el_Error x = None) \<and> length results = length bulk \<and> r = Inr () \<longrightarrow>
      (\<exists>ls. t_logs (w_tables (fc_world fc')) = t_logs (w_tables (fc_world fc)) @ ls) \<and>
      (\<forall>x \<in> set results. \<exists>l \<in> set (t_logs (w_tables (fc_world fc'))). lg_ID l = Some (el_LogID x)))"
proof (cases "options_Validate opts")
  case False
  with assms(1) show ?thesis by (auto simp: bulk_Run_def)
next
  case True
  let ?run = "run_sequential g (nested_forge (c\<lparr>c_pooled := False\<rparr>)) (bo_SchemaVersion opts) (bo_ContinueOnFailure opts)
      (enumerate 0 bulk) (False, [], fc_world fc, False)"
  from assms(1,2) True obtain b w ab where run: "?run = Some (b, results, w, ab)"
    and fc': "(r, fc') = (let back = fc\<lparr>fc_world := w\<lparr>w_tables := w_tables (fc_world fc)\<rparr>\<rparr> in
       if b then (Inr (), back) else if commit_fails \<or> ab then (raise CommitFailed, back)
       else (Inr (), fc\<lparr>fc_world := w\<rparr>))"
    by (auto simp: bulk_Run_def Let_def split: if_splits)
  have "\<exists>x \<in> set results. el_Error x \<noteq> None \<Longrightarrow> b"
    using run_sequential_canceled [OF run] run_sequential_results [OF run] by auto
  moreover have "b \<Longrightarrow> \<exists>x \<in> set results. el_Error x \<noteq> None"
    using run_sequential_results [OF run] by auto
  moreover have "\<forall>(i, e) \<in> set (enumerate 0 bulk). alone (snd e)"
    using assms(4) by (auto simp: in_set_enumerate_eq) (metis nth_mem snd_conv)
  moreover have "\<forall>x \<in> set results. el_Error x = None \<Longrightarrow> length results = length bulk \<Longrightarrow>
    \<exists>ls. t_logs (w_tables w) = t_logs (w_tables (fc_world fc)) @ ls \<and>
     (\<forall>x \<in> set results. \<exists>l \<in> set (t_logs (w_tables w)). lg_ID l = Some (el_LogID x))"
    using run_nested_logs [of "c\<lparr>c_pooled := False\<rparr>" g "bo_SchemaVersion opts" "bo_ContinueOnFailure opts" "enumerate 0 bulk" "[]"
      "fc_world fc" False b results w ab] run calculation(3) assms(3) by simp
  ultimately show ?thesis using fc' by (auto simp: Let_def split: if_splits)
qed


definition atomic_options :: bulking_options where
  "atomic_options = \<lparr>bo_ContinueOnFailure = False, bo_Atomic = True, bo_Parallel = False, bo_SchemaVersion = []\<rparr>"

lemma bulk_ended:
  assumes "case y of Some (Inr _, rs, fc) \<Rightarrow> P rs fc | _ \<Rightarrow> False"
  shows "\<exists>rs fc. y = Some (Inr (), rs, fc) \<and> P rs fc"
  using assms by (auto split: option.splits prod.splits sum.splits)

lemma sample_atomic:
  "\<exists>rs fc. bulk_Run sample_floats sample_controller atomic_options False [create_element] new_ledger = Some (Inr (), rs, fc) \<and>
     length rs = 1 \<and> list_all (\<lambda>r. el_Error r = None) rs"
  by (rule bulk_ended) code_simp

theorem atomic_bulks_are_all_or_nothing_witness:
  "\<exists>rs fc. bulk_Run sample_floats sample_controller atomic_options False [create_element] new_ledger = Some (Inr (), rs, fc) \<and>
     (\<forall>x \<in> set rs. \<exists>l \<in> set (t_logs (w_tables (fc_world fc))). lg_ID l = Some (el_LogID x)) \<and> rs \<noteq> []"
proof -
  from sample_atomic obtain rs fc where
    b: "bulk_Run sample_floats sample_controller atomic_options False [create_element] new_ledger = Some (Inr (), rs, fc)"
    "length rs = 1" "list_all (\<lambda>r. el_Error r = None) rs" by blast
  have a: "bo_Atomic atomic_options" "\<forall>e \<in> set [create_element]. alone (snd e)"
    by (simp_all add: atomic_options_def create_element_def sample_alone)
  from atomic_bulks_are_all_or_nothing [OF b(1) a(1) sample_parsers_ok a(2)] b show ?thesis
    by (auto simp: list_all_iff)
qed

section \<open>What atomic bulks escape\<close>

text \<open>A ledger into which the export of one transaction has been imported.\<close>

definition imported_ledger :: facade where
  "imported_ledger =
     (case facade_forge sample_controller (sample_parameters False) [sample_attempt 100 None] new_ledger of
        Some (_, fc) \<Rightarrow> snd (facade_Import sample_controller
          (zip (t_logs (w_tables (fc_world fc))) [sample_attempt 300 None]) new_ledger)
      | None \<Rightarrow> new_ledger)"

text \<open>
  An atomic bulk escapes the state of the ledger: after it the ledger still takes
  imports, and after an import the sequences are not set for it, so that the transaction it creates
  has the id of an imported one, its element is lost to a panic and the bulk cannot be committed,
  where the same element in a bulk that is not atomic gets the next log id.
\<close>

lemma atomic_bulks_escape_the_state:
  "(case bulk_Run sample_floats sample_controller atomic_options False [create_element] new_ledger of
      Some (Inr _, [_], fc) \<Rightarrow> length (t_logs (w_tables (fc_world fc))) = 1 \<and> fc_state fc = StateInitializing \<and>
        fst (facade_Import sample_controller [] fc) = Inr ()
    | _ \<Rightarrow> False) \<and>
   (case bulk_Run sample_floats sample_controller atomic_options False [create_element] imported_ledger of
      Some (Inl (Raised CommitFailed), [], _) \<Rightarrow> True | _ \<Rightarrow> False) \<and>
   (case bulk_Run sample_floats sample_controller (atomic_options\<lparr>bo_Atomic := False\<rparr>) False [create_element] imported_ledger of
      Some (Inr _, [r], fc) \<Rightarrow> el_LogID r = 2 \<and> fc_state fc = StateInUse | _ \<Rightarrow> False)"
  by (intro conjI; code_simp)

text \<open>A controller whose scripts exchange USD for EUR, and the revert of its first transaction.\<close>

definition exchange_controller :: controller where
  "exchange_controller = sample_controller\<lparr>c_parser := (\<lambda>_. Inr (\<lambda>_. returnS
     \<lparr>er_Postings = tx_Postings exchange, er_Metadata = [], er_AccountMetadata = []\<rparr>))\<rparr>"

definition exchanged_ledger :: facade where
  "exchanged_ledger =
     (case facade_forge exchange_controller (sample_parameters False) [sample_attempt 100 None] new_ledger of
        Some (_, fc) \<Rightarrow> fc | None \<Rightarrow> new_ledger)"

definition revert_element :: "bulk_element \<times> attempt list" where
  "revert_element = (\<lparr>be_IdempotencyKey = [], be_Data = RevertTransactionRequest sample_revert\<rparr>, [sample_attempt 200 None])"

text \<open>
  An atomic bulk commits half a revert: the unforced revert of an exchange panics after
  it has marked the transaction, the pool swallows the panic, and the bulk commits without an
  error and without a result, leaving a transaction that is reverted, with no postings back and no
  log; in a bulk that is not atomic the mark is taken back.
\<close>

lemma atomic_bulks_commit_half_a_revert:
  "map tx_RevertedAt (t_transactions (w_tables (fc_world exchanged_ledger))) = [None] \<and>
   (case bulk_Run sample_floats exchange_controller atomic_options False [revert_element] exchanged_ledger of
      Some (Inr _, [], fc) \<Rightarrow> map tx_RevertedAt (t_transactions (w_tables (fc_world fc))) = [Some 200] \<and>
        length (t_logs (w_tables (fc_world fc))) = 1
    | _ \<Rightarrow> False) \<and>
   (case bulk_Run sample_floats exchange_controller (atomic_options\<lparr>bo_Atomic := False\<rparr>) False [revert_element] exchanged_ledger of
      Some (Inr _, [], fc) \<Rightarrow> map tx_RevertedAt (t_transactions (w_tables (fc_world fc))) = [None]
    | _ \<Rightarrow> False)"
  by (intro conjI; code_simp)

end
