(* ===== verification/Query_Fields.thy ===== *)
theory Query_Fields
  imports Chart
begin

text \<open>
  The fields resources can be filtered and sorted on (\<open>internal/queries/field.go\<close>, \<open>schema.go\<close>,
  \<open>resources.go\<close>), the declarations of variables (\<open>variables.go\<close>) and the validation of the
  leaves of a filter (\<open>internal/storage/common/resource.go\<close>). A Go value of type \<open>any\<close> that comes
  from JSON is one of the constructors of \<open>any_value\<close>; a \<open>float64\<close> is its rational value. The
  libraries a validation calls are a parameter: the parser of times, their JSON, the change of a
  name to snake case and the conversion of a float that has no \<open>int64\<close>.
\<close>

section \<open>Values and types\<close>

datatype any_value =
    ANil
  | AString string
  | ABool bool
  | ANumber string
  | AFloat rat
  | ABigInt int
  | ATime int
  | ASlice "any_value list"
  | AObject "(string \<times> any_value) list"

datatype page_order = OrderAsc | OrderDesc

datatype field_type =
    TypeString
  | TypeDate
  | TypeNumeric
  | TypeBoolean
  | TypeMap (underlyingType: field_type)

definition OperatorMatch :: string where "OperatorMatch = ''$match''"
definition OperatorIn :: string where "OperatorIn = ''$in''"
definition OperatorExists :: string where "OperatorExists = ''$exists''"
definition OperatorLike :: string where "OperatorLike = ''$like''"
definition OperatorLT :: string where "OperatorLT = ''$lt''"
definition OperatorGT :: string where "OperatorGT = ''$gt''"
definition OperatorLTE :: string where "OperatorLTE = ''$lte''"
definition OperatorGTE :: string where "OperatorGTE = ''$gte''"

lemmas operator_defs = OperatorMatch_def OperatorIn_def OperatorExists_def OperatorLike_def
  OperatorLT_def OperatorGT_def OperatorLTE_def OperatorGTE_def

datatype query_error =
    InvalidFieldType string
  | InvalidFieldName string
  | UnknownField string
  | UnexpectedIndexing string
  | OperatorNotAllowed string string
  | UnexpectedOperator string
  | ValueRefused string
  | ExpectedArray
  | ExistsOnlyOnMaps
  | InvalidValue field_type
  | NotAVariable string
  | NotDeclared string
  | CannotUseVariable string
  | MissingVariable string
  | NotAnInteger
  | UnexpectedVariableType
  | TemplateSyntax string
  | UnknownResource string
  | InvalidBody string
  | InvalidParams string
  | InvalidProperty string
  | NotPaginatedField string
  | OffsetTooLarge
  | OffsetOverflow
  | PartialInList string
  | UnsupportedFilter string
  | MissingFeature string

type_synonym 'a checked = "(query_error, 'a) result"

record query_libs =
  ql_ParseTime :: "string \<Rightarrow> int option"
  ql_UnmarshalTime :: "string \<Rightarrow> int option"
  ql_ToSnake :: "string \<Rightarrow> string"
  ql_int64 :: "rat \<Rightarrow> int"

definition FieldTypeFromString :: "string \<Rightarrow> field_type checked" where
  "FieldTypeFromString s =
     (if s = ''boolean'' then Inr TypeBoolean
      else if s = ''date'' then Inr TypeDate
      else if s = ''int'' then Inr TypeNumeric
      else if s = ''string'' then Inr TypeString
      else raise (InvalidFieldType s))"

fun FieldTypeToString :: "field_type \<Rightarrow> string" where
  "FieldTypeToString TypeBoolean = ''boolean''"
| "FieldTypeToString TypeDate = ''date''"
| "FieldTypeToString (TypeMap t) = ''map[string]'' @ FieldTypeToString t"
| "FieldTypeToString TypeNumeric = ''int''"
| "FieldTypeToString TypeString = ''string''"

lemma FieldTypeFromString_inverse:
  "FieldTypeFromString s = Inr t \<longleftrightarrow> FieldTypeToString t = s \<and> (\<forall>u. t \<noteq> TypeMap u)"
  by (cases t) (auto simp: FieldTypeFromString_def)

fun field_Index :: "field_type \<Rightarrow> field_type option" where
  "field_Index (TypeMap t) = Some t"
| "field_Index _ = None"

fun type_IsPaginated :: "field_type \<Rightarrow> bool" where
  "type_IsPaginated TypeDate = True"
| "type_IsPaginated TypeNumeric = True"
| "type_IsPaginated _ = False"

fun field_Operators :: "field_type \<Rightarrow> string list" where
  "field_Operators TypeString = [OperatorMatch, OperatorLike, OperatorIn]"
| "field_Operators TypeDate = [OperatorMatch, OperatorLT, OperatorGT, OperatorLTE, OperatorGTE]"
| "field_Operators TypeNumeric = [OperatorMatch, OperatorLT, OperatorGT, OperatorLTE, OperatorGTE]"
| "field_Operators TypeBoolean = [OperatorMatch]"
| "field_Operators (TypeMap t) = field_Operators t @ [OperatorMatch, OperatorExists]"

fun is_string_value :: "any_value \<Rightarrow> bool" where
  "is_string_value (AString _) = True"
| "is_string_value _ = False"

fun ValidateValue :: "query_libs \<Rightarrow> field_type \<Rightarrow> string \<Rightarrow> any_value \<Rightarrow> bool" where
  "ValidateValue ql TypeString operator value =
     (if operator = OperatorIn
      then (case value of ASlice vs \<Rightarrow> list_all is_string_value vs | _ \<Rightarrow> False)
      else is_string_value value)"
| "ValidateValue ql TypeDate _ value =
     (case value of AString s \<Rightarrow> ql_ParseTime ql s \<noteq> None | ATime _ \<Rightarrow> True | _ \<Rightarrow> False)"
| "ValidateValue ql (TypeMap t) operator value = ValidateValue ql t operator value"
| "ValidateValue ql TypeNumeric _ value =
     (case value of AFloat _ \<Rightarrow> True | ABigInt _ \<Rightarrow> True | _ \<Rightarrow> False)"
| "ValidateValue ql TypeBoolean _ value = (case value of ABool _ \<Rightarrow> True | _ \<Rightarrow> False)"

section \<open>Schemas of resources\<close>

record field =
  fd_Aliases :: "string list"
  fd_Type :: field_type
  fd_IsPaginated :: bool

type_synonym entity_schema = "(string \<times> field) list"

definition NewField :: "field_type \<Rightarrow> field" where
  "NewField t = \<lparr>fd_Aliases = [], fd_Type = t, fd_IsPaginated = False\<rparr>"

definition Paginated :: "field \<Rightarrow> field" where
  "Paginated f = f\<lparr>fd_IsPaginated := True\<rparr>"

definition WithAliases :: "string list \<Rightarrow> field \<Rightarrow> field" where
  "WithAliases aliases f = f\<lparr>fd_Aliases := fd_Aliases f @ aliases\<rparr>"

definition MatchKey :: "field \<Rightarrow> string \<Rightarrow> string \<Rightarrow> bool" where
  "MatchKey f name key \<longleftrightarrow> key = name \<or> List.member (fd_Aliases f) key"

definition GetFieldByNameOrAlias :: "entity_schema \<Rightarrow> string \<Rightarrow> (string \<times> field) option" where
  "GetFieldByNameOrAlias schema name =
     List.find (\<lambda>(fieldName, f). fieldName = name \<or> List.member (fd_Aliases f) name) schema"

datatype resource_kind = ResourceTransaction | ResourceAccount | ResourceLog | ResourceVolume

definition AccountSchema :: entity_schema where
  "AccountSchema =
     [(''address'', Paginated (NewField TypeString)),
      (''first_usage'', Paginated (NewField TypeDate)),
      (''balance'', NewField (TypeMap TypeNumeric)),
      (''metadata'', NewField (TypeMap TypeString)),
      (''insertion_date'', Paginated (NewField TypeDate)),
      (''updated_at'', Paginated (NewField TypeDate))]"

definition LogSchema :: entity_schema where
  "LogSchema =
     [(''date'', Paginated (NewField TypeDate)),
      (''id'', Paginated (NewField TypeNumeric)),
      (''type'', NewField TypeString)]"

definition TransactionSchema :: entity_schema where
  "TransactionSchema =
     [(''reverted'', NewField TypeBoolean),
      (''account'', NewField TypeString),
      (''source'', NewField TypeString),
      (''destination'', NewField TypeString),
      (''timestamp'', Paginated (NewField TypeDate)),
      (''metadata'', NewField (TypeMap TypeString)),
      (''id'', Paginated (NewField TypeNumeric)),
      (''reference'', NewField TypeString),
      (''inserted_at'', Paginated (NewField TypeDate)),
      (''updated_at'', Paginated (NewField TypeDate)),
      (''reverted_at'', Paginated (NewField TypeDate))]"

definition VolumeSchema :: entity_schema where
  "VolumeSchema =
     [(''address'', Paginated (WithAliases [''account''] (NewField TypeString))),
      (''balance'', NewField (TypeMap TypeNumeric)),
      (''first_usage'', NewField TypeDate),
      (''metadata'', NewField (TypeMap TypeString))]"

lemmas schema_defs = AccountSchema_def LogSchema_def TransactionSchema_def VolumeSchema_def
  NewField_def Paginated_def WithAliases_def

definition ResourceKind_of :: "string \<Rightarrow> resource_kind checked" where
  "ResourceKind_of s =
     (if s = ''transactions'' then Inr ResourceTransaction
      else if s = ''accounts'' then Inr ResourceAccount
      else if s = ''logs'' then Inr ResourceLog
      else if s = ''volumes'' then Inr ResourceVolume
      else raise (UnknownResource s))"

fun GetResourceSchema :: "resource_kind \<Rightarrow> entity_schema" where
  "GetResourceSchema ResourceAccount = AccountSchema"
| "GetResourceSchema ResourceLog = LogSchema"
| "GetResourceSchema ResourceTransaction = TransactionSchema"
| "GetResourceSchema ResourceVolume = VolumeSchema"

text \<open>
  \<open>^([a-z_]+)(?:\[([a-zA-Z0-9_/]+)\])?$\<close>: the name of a field and the index between brackets,
  empty when there is none.
\<close>

definition access_key_char :: "char \<Rightarrow> bool" where
  "access_key_char c \<longleftrightarrow> is_lower c \<or> c = CHR ''_''"

definition access_index_char :: "char \<Rightarrow> bool" where
  "access_index_char c \<longleftrightarrow>
     is_lower c \<or> is_upper c \<or> is_digit c \<or> c = CHR ''_'' \<or> c = CHR ''/''"

fun parse_index :: "string \<Rightarrow> string option" where
  "parse_index [] = Some []"
| "parse_index (c # cs) =
     (let i = takeWhile access_index_char cs in
      if c = CHR ''['' \<and> i \<noteq> [] \<and> dropWhile access_index_char cs = '']'' then Some i else None)"

definition parseAccess :: "string \<Rightarrow> (string \<times> string) checked" where
  "parseAccess input =
     (let key = takeWhile access_key_char input in
      case parse_index (dropWhile access_key_char input) of
        Some i \<Rightarrow> if key = [] then raise (InvalidFieldName input) else Inr (key, i)
      | None \<Rightarrow> raise (InvalidFieldName input))"

definition GetFieldType :: "entity_schema \<Rightarrow> string \<Rightarrow> field_type checked" where
  "GetFieldType schema access =
     bindr (parseAccess access) (\<lambda>(key, idx).
       case GetFieldByNameOrAlias schema key of
         None \<Rightarrow> raise (UnknownField key)
       | Some (_, f) \<Rightarrow>
           if idx = [] then Inr (fd_Type f)
           else (case field_Index (fd_Type f) of
               Some t \<Rightarrow> Inr t
             | None \<Rightarrow> raise (UnexpectedIndexing access)))"

section \<open>Declared variables\<close>

record var_decl =
  vd_Type :: field_type
  vd_Default :: any_value

text \<open>
  The cast of a value to a type, where \<open>nil\<close> is accepted: a boolean, a date that parses, a number
  that is an integer, a string; no value has a map type.
\<close>

definition integral :: "rat \<Rightarrow> bool" where
  "integral x \<longleftrightarrow> snd (quotient_of x) = 1"

fun has_type :: "query_libs \<Rightarrow> field_type \<Rightarrow> any_value \<Rightarrow> bool" where
  "has_type ql TypeBoolean v = (case v of ANil \<Rightarrow> True | ABool _ \<Rightarrow> True | _ \<Rightarrow> False)"
| "has_type ql TypeDate v =
     (case v of ANil \<Rightarrow> True | AString s \<Rightarrow> ql_ParseTime ql s \<noteq> None | _ \<Rightarrow> False)"
| "has_type ql TypeNumeric v =
     (case v of
        ANil \<Rightarrow> True
      | ANumber n \<Rightarrow> parse_int n \<noteq> None
      | AFloat f \<Rightarrow> integral f
      | ABigInt _ \<Rightarrow> True
      | _ \<Rightarrow> False)"
| "has_type ql TypeString v = (case v of ANil \<Rightarrow> True | AString _ \<Rightarrow> True | _ \<Rightarrow> False)"
| "has_type ql (TypeMap _) v = False"

definition validateValueType :: "query_libs \<Rightarrow> field_type \<Rightarrow> any_value \<Rightarrow> unit checked" where
  "validateValueType ql t v = guardr (has_type ql t v) (InvalidValue t)"

fun ValidateVarDeclarations :: "query_libs \<Rightarrow> (string \<times> var_decl) list \<Rightarrow> unit checked" where
  "ValidateVarDeclarations ql [] = Inr ()"
| "ValidateVarDeclarations ql ((_, d) # ds) =
     bindr (validateValueType ql (vd_Type d) (vd_Default d)) (\<lambda>_. ValidateVarDeclarations ql ds)"

lemma ValidateVarDeclarations_Inr:
  "ValidateVarDeclarations ql ds = Inr () \<longleftrightarrow>
     (\<forall>d \<in> snd ` set ds. has_type ql (vd_Type d) (vd_Default d))"
  by (induction ds) (auto simp: validateValueType_def result_simps)

section \<open>Filters\<close>

text \<open>
  The library that parses a filter keeps a tree of conjunctions, disjunctions and negations. Its
  \<open>Walk\<close> visits the leaves, each an operator, a key and a value it may replace, and stops at the
  first error; a filter is the list of leaves in the order of the walk.
\<close>

type_synonym leaf = "string \<times> string \<times> any_value"
type_synonym filter = "leaf list"

fun Walk :: "(leaf \<Rightarrow> any_value checked) \<Rightarrow> filter \<Rightarrow> filter checked" where
  "Walk f [] = Inr []"
| "Walk f ((operator, key, value) # ls) =
     bindr (f (operator, key, value)) (\<lambda>value'.
     bindr (Walk f ls) (\<lambda>ls'. Inr ((operator, key, value') # ls')))"

text \<open>
  The validation of the filters of a resource when a page of it is read
  (\<open>ResourceRepository.validateFilters\<close>).
\<close>

definition match_property :: "string \<Rightarrow> string \<times> field \<Rightarrow> bool" where
  "match_property key = (\<lambda>(name, property).
     MatchKey property name
       (if field_Index (fd_Type property) \<noteq> None then hd (split_on CHR ''['' key) else key))"

definition validate_leaf :: "query_libs \<Rightarrow> entity_schema \<Rightarrow> leaf \<Rightarrow> string checked" where
  "validate_leaf ql schema = (\<lambda>(operator, key, value).
     case List.find (match_property key) schema of
       None \<Rightarrow> raise (UnknownField key)
     | Some (name, property) \<Rightarrow>
         if \<not> List.member (field_Operators (fd_Type property)) operator
         then raise (OperatorNotAllowed operator name)
         else if \<not> ValidateValue ql (fd_Type property) operator value
         then raise (ValueRefused name)
         else Inr name)"

text \<open>The values of the filters, by the name of the property they are on.\<close>

definition add_filter ::
    "string \<Rightarrow> any_value \<Rightarrow> (string \<times> any_value list) list \<Rightarrow> (string \<times> any_value list) list" where
  "add_filter name value ret =
     AList.update name ((case map_of ret name of None \<Rightarrow> [] | Some vs \<Rightarrow> vs) @ [value]) ret"

definition validateFilters ::
    "query_libs \<Rightarrow> entity_schema \<Rightarrow> filter \<Rightarrow> (string \<times> any_value list) list checked" where
  "validateFilters ql schema ls =
     foldr_result (\<lambda>l ret. bindr (validate_leaf ql schema l) (\<lambda>name.
       Inr (add_filter name (snd (snd l)) ret))) ls []"

lemma validateFilters_Inr:
  "(\<exists>ret. validateFilters ql schema ls = Inr ret) \<longleftrightarrow>
     (\<forall>l \<in> set ls. \<exists>name. validate_leaf ql schema l = Inr name)"
proof -
  have "(\<exists>ret. foldr_result (\<lambda>l ret. bindr (validate_leaf ql schema l) (\<lambda>name.
       Inr (add_filter name (snd (snd l)) ret))) ls r = Inr ret) \<longleftrightarrow>
     (\<forall>l \<in> set ls. \<exists>name. validate_leaf ql schema l = Inr name)" for r
    by (induction ls arbitrary: r) (auto simp: result_simps)
  then show ?thesis by (simp add: validateFilters_def)
qed

end
