(* ===== verification/Query_Templates.thy ===== *)
theory Query_Templates
  imports Query_Fields
begin

text \<open>
  Query templates: strings with variables (\<open>internal/queries/substitution.go\<close>), the validation of
  a filter template against declared variables and its resolution with the values of a call
  (\<open>filter_template.go\<close>), and the templates a schema holds (\<open>internal/query_template.go\<close>).
\<close>

section \<open>Strings with variables\<close>

definition isVarHeadChar :: "char \<Rightarrow> bool" where
  "isVarHeadChar b = is_lower b"

definition isVarTailChar :: "char \<Rightarrow> bool" where
  "isVarTailChar b \<longleftrightarrow> isVarHeadChar b \<or> is_digit b \<or> b = CHR ''_''"

text \<open>A parser returns what it read and the rest of the string, or what it expected.\<close>

fun parseVarIdent :: "string \<Rightarrow> (string \<times> string) checked" where
  "parseVarIdent [] = raise (TemplateSyntax ''a lowercase char'')"
| "parseVarIdent (c # cs) =
     (if isVarHeadChar c then Inr (c # takeWhile isVarTailChar cs, dropWhile isVarTailChar cs)
      else raise (TemplateSyntax ''a lowercase char''))"

definition parseBracketVar :: "string \<Rightarrow> (string \<times> string) checked" where
  "parseBracketVar s =
     bindr (parseVarIdent s) (\<lambda>(ident, rest).
       case rest of
         c # cs \<Rightarrow> if c = CHR ''}'' then Inr (ident, cs) else raise (TemplateSyntax ''right brace'')
       | [] \<Rightarrow> raise (TemplateSyntax ''right brace''))"

fun parseSimpleVar :: "string \<Rightarrow> (string \<times> string) checked" where
  "parseSimpleVar [] = parseVarIdent []"
| "parseSimpleVar (c # cs) =
     (if c = CHR ''{'' then parseBracketVar cs else parseVarIdent (c # cs))"

lemma parseVarIdent_rest: "parseVarIdent s = Inr (x, r) \<Longrightarrow> length r < length s"
  by (cases s) (auto simp: less_Suc_eq_le length_dropWhile_le split: if_splits)

lemma parseBracketVar_rest:
  assumes "parseBracketVar s = Inr (x, r)"
  shows "length r < length s"
proof -
  obtain ident rest where rest: "parseVarIdent s = Inr (ident, rest)"
    using assms by (auto simp: parseBracketVar_def bindr_eq_Inr)
  show ?thesis
    using parseVarIdent_rest [OF rest] assms rest
    by (cases rest) (auto simp: parseBracketVar_def split: if_splits)
qed

lemma parseSimpleVar_rest:
  assumes "parseSimpleVar s = Inr (x, r)"
  shows "length r < length s"
proof (cases s)
  case Nil
  then show ?thesis using assms by simp
next
  case (Cons c cs)
  show ?thesis
  proof (cases "c = CHR ''{''")
    case True
    then show ?thesis using assms Cons parseBracketVar_rest [of cs x r] by simp
  next
    case False
    then show ?thesis using assms Cons parseVarIdent_rest [of s x r] by simp
  qed
qed

text \<open>
  \<open>string(b)\<close> of a byte is the UTF-8 encoding of the code point that has the value of the byte: one
  byte below 128, two above.
\<close>

definition string_of_byte :: "char \<Rightarrow> string" where
  "string_of_byte b =
     (let n = of_char b :: nat in
      if n < 128 then [b] else [char_of (192 + n div 64), char_of (128 + n mod 64)])"

function parse_template :: "string \<Rightarrow> string list \<Rightarrow> string list \<Rightarrow> string \<Rightarrow>
    (string list \<times> string list) checked" where
  "parse_template [] strs vars currentStr =
     Inr (if currentStr = [] then strs else strs @ [currentStr], vars)"
| "parse_template (b # s) strs vars currentStr =
     (if b = CHR ''$''
      then (case parseSimpleVar s of
          Inr (var, rest) \<Rightarrow> parse_template rest (strs @ [currentStr]) (vars @ [var]) []
        | Inl e \<Rightarrow> Inl e)
      else parse_template s strs vars (currentStr @ string_of_byte b))"
  by pat_completeness auto
termination
  by (relation "measure (\<lambda>(s, _). length s)") (auto dest: parseSimpleVar_rest)

definition ParseTemplate :: "string \<Rightarrow> (string list \<times> string list) checked" where
  "ParseTemplate s = parse_template s [] [] []"

definition ValidateStringTemplate :: "string \<Rightarrow> (string \<times> 'a) list \<Rightarrow> unit checked" where
  "ValidateStringTemplate s vars =
     bindr (ParseTemplate s) (\<lambda>(_, varRefs).
       foldr_result (\<lambda>name _. guardr (map_of vars name \<noteq> None) (NotDeclared name)) varRefs ())"

text \<open>A float is printed as its \<open>int64\<close>, which is its floor where it has one.\<close>

definition in_int64 :: "int \<Rightarrow> bool" where
  "in_int64 i \<longleftrightarrow> - (2 ^ 63) \<le> i \<and> i < 2 ^ 63"

definition float_int64 :: "query_libs \<Rightarrow> rat \<Rightarrow> int" where
  "float_int64 ql f = (if in_int64 \<lfloor>f\<rfloor> then \<lfloor>f\<rfloor> else ql_int64 ql f)"

definition jsonToString :: "query_libs \<Rightarrow> any_value \<Rightarrow> string checked" where
  "jsonToString ql v =
     (case v of
        AFloat f \<Rightarrow> if integral f then Inr (show_int (float_int64 ql f)) else raise NotAnInteger
      | ANumber n \<Rightarrow> Inr n
      | AString s \<Rightarrow> Inr s
      | ABool b \<Rightarrow> Inr (if b then ''true'' else ''false'')
      | _ \<Rightarrow> raise UnexpectedVariableType)"

text \<open>
  The pieces and the values of the variables, one after the other; there are as many pieces as
  variables, or one more.
\<close>

fun interleave ::
    "query_libs \<Rightarrow> (string \<times> any_value) list \<Rightarrow> string list \<Rightarrow> string list \<Rightarrow> string checked" where
  "interleave ql vars (s # strs) (x # varRefs) =
     (case map_of vars x of
        None \<Rightarrow> raise (MissingVariable x)
      | Some v \<Rightarrow> bindr (jsonToString ql v) (\<lambda>t.
          bindr (interleave ql vars strs varRefs) (\<lambda>r. Inr (s @ t @ r))))"
| "interleave ql vars [] (x # varRefs) =
     (case map_of vars x of
        None \<Rightarrow> raise (MissingVariable x)
      | Some v \<Rightarrow> jsonToString ql v)"
| "interleave ql vars strs [] = Inr (concat strs)"

definition ReplaceVariables :: "query_libs \<Rightarrow> string \<Rightarrow> (string \<times> any_value) list \<Rightarrow> string checked" where
  "ReplaceVariables ql s vars =
     bindr (ParseTemplate s) (\<lambda>(strs, varRefs). interleave ql vars strs varRefs)"

section \<open>Templates of filters\<close>

text \<open>\<open>^\${([a-z_]+)}$\<close>\<close>

definition extractVariableName :: "string \<Rightarrow> string checked" where
  "extractVariableName s =
     (let name = takeWhile access_key_char (drop 2 s) in
      if name \<noteq> [] \<and> s = ''${'' @ name @ ''}'' then Inr name else raise (NotAVariable s))"

type_synonym var_types = "(string \<times> field_type) list"

definition validateVarRef :: "field_type \<Rightarrow> string \<Rightarrow> var_types \<Rightarrow> unit checked" where
  "validateVarRef expectedType s vars =
     bindr (extractVariableName s) (\<lambda>name.
       case map_of vars name of
         None \<Rightarrow> raise (NotDeclared name)
       | Some varType \<Rightarrow> guardr (varType = expectedType) (CannotUseVariable name))"

definition validateValue :: "query_libs \<Rightarrow> field_type \<Rightarrow> any_value \<Rightarrow> var_types \<Rightarrow> unit checked" where
  "validateValue ql expectedType value vars =
     (case value of
        AString s \<Rightarrow>
          if expectedType \<noteq> TypeString then validateVarRef expectedType s vars
          else ValidateStringTemplate s vars
      | _ \<Rightarrow> validateValueType ql expectedType value)"

definition plain_operator :: "string \<Rightarrow> bool" where
  "plain_operator operator \<longleftrightarrow>
     List.member [OperatorMatch, OperatorLike, OperatorLT, OperatorGT, OperatorLTE, OperatorGTE] operator"

definition validate_template_leaf ::
    "query_libs \<Rightarrow> entity_schema \<Rightarrow> var_types \<Rightarrow> leaf \<Rightarrow> any_value checked" where
  "validate_template_leaf ql schema vars = (\<lambda>(operator, key, value).
     bindr (GetFieldType schema key) (\<lambda>fieldType.
       if operator = OperatorIn then
         (case value of
            ASlice values \<Rightarrow>
              bindr (foldr_result (\<lambda>v _. validateValue ql fieldType v vars) values ())
                (\<lambda>_. Inr value)
          | _ \<Rightarrow> raise ExpectedArray)
       else if operator = OperatorExists then
         (case fieldType of
            TypeMap t \<Rightarrow> bindr (validateValue ql t value vars) (\<lambda>_. Inr value)
          | _ \<Rightarrow> raise ExistsOnlyOnMaps)
       else if plain_operator operator then
         bindr (validateValue ql fieldType value vars) (\<lambda>_. Inr value)
       else raise (UnexpectedOperator operator)))"

text \<open>
  A body is JSON. \<open>parse\<close> is the parser of filters of the library, which is given no text when a
  template has no body: no filter, or its leaves.
\<close>

type_synonym filter_parser = "json option \<Rightarrow> filter option checked"

definition ValidateFilterBody ::
    "query_libs \<Rightarrow> filter_parser \<Rightarrow> resource_kind \<Rightarrow> json \<Rightarrow> (string \<times> var_decl) list \<Rightarrow> unit checked" where
  "ValidateFilterBody ql parse resource body varDecls =
     (let vars = map (\<lambda>(k, d). (k, vd_Type d)) varDecls in
      bindr (guardr (json_map body \<noteq> None) (InvalidBody ''object'')) (\<lambda>_.
      bindr (parse (Some body)) (\<lambda>builder.
        case builder of
          None \<Rightarrow> Inr ()
        | Some ls \<Rightarrow>
            bindr (Walk (validate_template_leaf ql (GetResourceSchema resource) vars) ls) (\<lambda>_. Inr ()))))"

text \<open>The value of a variable at a type.\<close>

definition extractVariable :: "string \<Rightarrow> (string \<times> any_value) list \<Rightarrow> (string \<times> any_value) checked" where
  "extractVariable s vars =
     bindr (extractVariableName s) (\<lambda>name.
       case map_of vars name of None \<Rightarrow> raise (MissingVariable name) | Some v \<Rightarrow> Inr (name, v))"

definition resolveValue ::
    "query_libs \<Rightarrow> field_type \<Rightarrow> string \<Rightarrow> (string \<times> any_value) list \<Rightarrow> any_value checked" where
  "resolveValue ql fieldType value vars =
     (case fieldType of
        TypeString \<Rightarrow> bindr (ReplaceVariables ql value vars) (\<lambda>s. Inr (AString s))
      | TypeBoolean \<Rightarrow> bindr (extractVariable value vars) (\<lambda>(name, v).
          case v of ABool b \<Rightarrow> Inr v | _ \<Rightarrow> raise (CannotUseVariable name))
      | TypeDate \<Rightarrow> bindr (extractVariable value vars) (\<lambda>(name, v).
          case v of AString s \<Rightarrow> Inr v | _ \<Rightarrow> raise (CannotUseVariable name))
      | TypeNumeric \<Rightarrow> bindr (extractVariable value vars) (\<lambda>(name, v).
          case v of
            ANumber n \<Rightarrow>
              (case parse_int n of Some i \<Rightarrow> Inr (ABigInt i) | None \<Rightarrow> raise NotAnInteger)
          | AFloat f \<Rightarrow> if integral f then Inr (ABigInt \<lfloor>f\<rfloor>) else raise NotAnInteger
          | _ \<Rightarrow> raise (CannotUseVariable name))
      | TypeMap _ \<Rightarrow> raise (InvalidValue fieldType))"

definition resolve_string ::
    "query_libs \<Rightarrow> field_type \<Rightarrow> any_value \<Rightarrow> (string \<times> any_value) list \<Rightarrow> any_value checked" where
  "resolve_string ql fieldType value vars =
     (case value of AString s \<Rightarrow> resolveValue ql fieldType s vars | _ \<Rightarrow> Inr value)"

fun resolve_all ::
    "query_libs \<Rightarrow> field_type \<Rightarrow> (string \<times> any_value) list \<Rightarrow> any_value list \<Rightarrow> any_value list checked" where
  "resolve_all ql fieldType vars [] = Inr []"
| "resolve_all ql fieldType vars (v # vs) =
     bindr (resolve_string ql fieldType v vars) (\<lambda>v'.
     bindr (resolve_all ql fieldType vars vs) (\<lambda>vs'. Inr (v' # vs')))"

definition resolveFilter ::
    "query_libs \<Rightarrow> string \<Rightarrow> field_type \<Rightarrow> any_value \<Rightarrow> (string \<times> any_value) list \<Rightarrow> any_value checked" where
  "resolveFilter ql operator fieldType value vars =
     (if operator = OperatorIn then
        (case value of
           ASlice values \<Rightarrow> bindr (resolve_all ql fieldType vars values) (\<lambda>vs. Inr (ASlice vs))
         | _ \<Rightarrow> raise ExpectedArray)
      else if operator = OperatorExists then
        (case fieldType of
           TypeMap t \<Rightarrow> resolve_string ql t value vars
         | _ \<Rightarrow> raise ExistsOnlyOnMaps)
      else if plain_operator operator then resolve_string ql fieldType value vars
      else raise (UnexpectedOperator operator))"

text \<open>The defaults that are not null, then the values of the call for the declared variables.\<close>

definition default_values :: "(string \<times> var_decl) list \<Rightarrow> (string \<times> any_value) list" where
  "default_values varDecls =
     map (\<lambda>(k, d). (k, vd_Default d)) (List.filter (\<lambda>(k, d). vd_Default d \<noteq> ANil) varDecls)"

definition call_values :: "query_libs \<Rightarrow> (string \<times> var_decl) list \<Rightarrow> (string \<times> any_value) list \<Rightarrow>
    (string \<times> any_value) list checked" where
  "call_values ql varDecls callVars =
     foldr_result (\<lambda>(k, v) vars.
       case map_of varDecls k of
         None \<Rightarrow> Inr vars
       | Some d \<Rightarrow> bindr (validateValueType ql (vd_Type d) v) (\<lambda>_. Inr (AList.update k v vars)))
       callVars (default_values varDecls)"

definition ResolveFilterTemplate ::
    "query_libs \<Rightarrow> filter_parser \<Rightarrow> resource_kind \<Rightarrow> json option \<Rightarrow> (string \<times> var_decl) list \<Rightarrow>
     (string \<times> any_value) list \<Rightarrow> filter option checked" where
  "ResolveFilterTemplate ql parse resourceKind body varDecls callVars =
     bindr (call_values ql varDecls callVars) (\<lambda>vars.
     bindr (parse body) (\<lambda>builder.
       case builder of
         None \<Rightarrow> Inr None
       | Some ls \<Rightarrow>
           bindr (Walk (\<lambda>(operator, key, value).
               bindr (GetFieldType (GetResourceSchema resourceKind) key) (\<lambda>fieldType.
                 resolveFilter ql operator fieldType value vars)) ls)
             (\<lambda>ls'. Inr (Some ls'))))"

section \<open>Decoding\<close>

text \<open>
  A member of an object goes to the field of a Go structure that has its name, in upper or lower
  case (of ASCII), the members in their order.
\<close>

definition to_lower :: "char \<Rightarrow> char" where
  "to_lower c = (if is_upper c then char_of ((of_char c :: nat) + 32) else c)"

definition fold_key :: "string \<Rightarrow> string" where
  "fold_key = map to_lower"

function any_of_json :: "json \<Rightarrow> any_value" where
  "any_of_json JNull = ANil"
| "any_of_json (JBool b) = ABool b"
| "any_of_json (JNum n) = ANumber n"
| "any_of_json (JStr s) = AString s"
| "any_of_json (JArr js) = ASlice (map any_of_json js)"
| "any_of_json (JObj kvs) =
     AObject (fold (\<lambda>(k, v). AList.update k v) (map (\<lambda>(k, v). (k, any_of_json v)) kvs) [])"
  by pat_completeness auto
termination
  by (relation "measure size") (auto simp: less_Suc_eq_le size_list_estimation')

definition struct_members :: "json \<Rightarrow> (string \<times> json) list checked" where
  "struct_members j = (case j of JNull \<Rightarrow> Inr [] | JObj kvs \<Rightarrow> Inr kvs | _ \<Rightarrow> raise (InvalidBody ''object''))"

definition decode_string :: "json \<Rightarrow> string \<Rightarrow> string checked" where
  "decode_string j old =
     (case j of JNull \<Rightarrow> Inr old | JStr s \<Rightarrow> Inr s | _ \<Rightarrow> raise (InvalidBody ''string''))"

definition VarDecl_member :: "string \<times> json \<Rightarrow> string \<times> any_value \<Rightarrow> (string \<times> any_value) checked" where
  "VarDecl_member = (\<lambda>(k, v) (type, default).
     if fold_key k = ''type'' then bindr (decode_string v type) (\<lambda>type'. Inr (type', default))
     else if fold_key k = ''default'' then Inr (type, any_of_json v)
     else Inr (type, default))"

definition VarDecl_UnmarshalJSON :: "json \<Rightarrow> var_decl checked" where
  "VarDecl_UnmarshalJSON j =
     (case j of
        JStr s \<Rightarrow>
          bindr (FieldTypeFromString s) (\<lambda>t. Inr \<lparr>vd_Type = t, vd_Default = ANil\<rparr>)
      | JNull \<Rightarrow>
          bindr (FieldTypeFromString []) (\<lambda>t. Inr \<lparr>vd_Type = t, vd_Default = ANil\<rparr>)
      | _ \<Rightarrow>
          bindr (struct_members j) (\<lambda>kvs.
          bindr (foldr_result VarDecl_member kvs ([], ANil)) (\<lambda>(type, default).
          bindr (FieldTypeFromString type) (\<lambda>t. Inr \<lparr>vd_Type = t, vd_Default = default\<rparr>))))"

definition decode_vars :: "json \<Rightarrow> (string \<times> var_decl) list checked" where
  "decode_vars j =
     (case json_map j of
        None \<Rightarrow> raise (InvalidBody ''map'')
      | Some kvs \<Rightarrow> foldr_result (\<lambda>(k, v) ds.
          bindr (VarDecl_UnmarshalJSON v) (\<lambda>d. Inr (ds @ [(k, d)]))) kvs [])"

text \<open>The parameters of a query; those of the schema and those of the call have the same form.\<close>

record raw_params =
  rp_PIT :: "int option"
  rp_OOT :: "int option"
  rp_Expand :: "string list"
  rp_Sort :: string
  rp_PageSize :: nat

definition no_params :: raw_params where
  "no_params = \<lparr>rp_PIT = None, rp_OOT = None, rp_Expand = [], rp_Sort = [], rp_PageSize = 0\<rparr>"

definition decode_time :: "query_libs \<Rightarrow> json \<Rightarrow> int option checked" where
  "decode_time ql j =
     (case j of
        JNull \<Rightarrow> Inr None
      | JStr s \<Rightarrow>
          (case ql_UnmarshalTime ql s of None \<Rightarrow> raise (InvalidBody ''time'') | Some t \<Rightarrow> Inr (Some t))
      | _ \<Rightarrow> raise (InvalidBody ''time''))"

definition decode_strings :: "json \<Rightarrow> string list checked" where
  "decode_strings j =
     (case j of
        JNull \<Rightarrow> Inr []
      | JArr js \<Rightarrow> foldr_result (\<lambda>v ss. bindr (decode_string v []) (\<lambda>s. Inr (ss @ [s]))) js []
      | _ \<Rightarrow> raise (InvalidBody ''strings''))"

definition decode_uint :: "json \<Rightarrow> nat \<Rightarrow> nat checked" where
  "decode_uint j old =
     (case j of
        JNull \<Rightarrow> Inr old
      | JNum n \<Rightarrow>
          if all_digits n \<and> int (digits_value n) < 2 ^ 64 then Inr (digits_value n)
          else raise (InvalidBody ''uint'')
      | _ \<Rightarrow> raise (InvalidBody ''uint''))"

definition params_member :: "query_libs \<Rightarrow> string \<times> json \<Rightarrow> raw_params \<Rightarrow> raw_params checked" where
  "params_member ql = (\<lambda>(k, v) x.
     if fold_key k = ''endtime'' then bindr (decode_time ql v) (\<lambda>t. Inr (x\<lparr>rp_PIT := t\<rparr>))
     else if fold_key k = ''starttime'' then bindr (decode_time ql v) (\<lambda>t. Inr (x\<lparr>rp_OOT := t\<rparr>))
     else if fold_key k = ''expand'' then bindr (decode_strings v) (\<lambda>ss. Inr (x\<lparr>rp_Expand := ss\<rparr>))
     else if fold_key k = ''sort'' then
       bindr (decode_string v (rp_Sort x)) (\<lambda>s. Inr (x\<lparr>rp_Sort := s\<rparr>))
     else if fold_key k = ''pagesize'' then
       bindr (decode_uint v (rp_PageSize x)) (\<lambda>n. Inr (x\<lparr>rp_PageSize := n\<rparr>))
     else Inr x)"

definition decode_params :: "query_libs \<Rightarrow> json \<Rightarrow> raw_params checked" where
  "decode_params ql j =
     bindr (struct_members j) (\<lambda>kvs. foldr_result (params_member ql) kvs no_params)"

section \<open>Parameters\<close>

record 'o query_params =
  qp_PIT :: "int option"
  qp_OOT :: "int option"
  qp_Expand :: "string list"
  qp_Opts :: 'o
  qp_SortColumn :: string
  qp_SortOrder :: "page_order option"
  qp_PageSize :: nat

text \<open>\<open>strings.TrimSpace\<close> of an ASCII string is empty.\<close>

definition blank :: "string \<Rightarrow> bool" where
  "blank s \<longleftrightarrow> list_all (\<lambda>c. List.member [9, 10, 11, 12, 13, 32 :: nat] (of_char c)) s"

definition set_sort :: "query_libs \<Rightarrow> string \<Rightarrow> 'o query_params \<Rightarrow> 'o query_params checked" where
  "set_sort ql sorting p =
     (let (column, order) = split_first CHR '':'' sorting in
      if sorting = [] then Inr p
      else if blank column then raise (InvalidParams sorting)
      else (let p' = p\<lparr>qp_SortColumn := ql_ToSnake ql column\<rparr> in
        case order of
          None \<Rightarrow> Inr p'
        | Some d \<Rightarrow>
            if map to_lower d = ''desc'' then Inr (p'\<lparr>qp_SortOrder := Some OrderDesc\<rparr>)
            else if map to_lower d = ''asc'' then Inr (p'\<lparr>qp_SortOrder := Some OrderAsc\<rparr>)
            else raise (InvalidParams d)))"

definition Params_UnmarshalJSON ::
    "query_libs \<Rightarrow> json \<Rightarrow> 'o query_params \<Rightarrow> 'o query_params checked" where
  "Params_UnmarshalJSON ql j p =
     bindr (decode_params ql j) (\<lambda>x.
       set_sort ql (rp_Sort x)
         (p\<lparr>qp_PIT := rp_PIT x, qp_OOT := rp_OOT x, qp_Expand := rp_Expand x,
            qp_PageSize := rp_PageSize x\<rparr>))"

text \<open>
  The parameters of the schema, then those of the call, over the defaults; \<open>decode\<close> is the decoding
  of the options of the resource.
\<close>

fun Overwrite :: "query_libs \<Rightarrow> (json \<Rightarrow> 'o \<Rightarrow> 'o checked) \<Rightarrow> json option list \<Rightarrow>
    'o query_params \<Rightarrow> 'o query_params checked" where
  "Overwrite ql decode [] q = Inr q"
| "Overwrite ql decode (other # others) q =
     (case other of
        None \<Rightarrow> Overwrite ql decode others q
      | Some j \<Rightarrow>
          if j = JNull then Overwrite ql decode others q
          else
            bindr (Params_UnmarshalJSON ql j q) (\<lambda>q'.
            bindr (decode j (qp_Opts q')) (\<lambda>opts.
            Overwrite ql decode others (q'\<lparr>qp_Opts := opts\<rparr>))))"

definition decode_any :: "json \<Rightarrow> any_value \<Rightarrow> any_value checked" where
  "decode_any j old = Inr (any_of_json j)"

record volumes_options =
  vo_UseInsertionDate :: bool
  vo_GroupLvl :: int

definition volumes_member :: "string \<times> json \<Rightarrow> volumes_options \<Rightarrow> volumes_options checked" where
  "volumes_member = (\<lambda>(k, v) o1.
     if fold_key k = ''insertiondate'' then
       (case v of
          JNull \<Rightarrow> Inr o1
        | JBool b \<Rightarrow> Inr (o1\<lparr>vo_UseInsertionDate := b\<rparr>)
        | _ \<Rightarrow> raise (InvalidBody ''bool''))
     else if fold_key k = ''groupby'' then
       (case v of
          JNull \<Rightarrow> Inr o1
        | JNum n \<Rightarrow>
            (case parse_int n of
               Some i \<Rightarrow>
                 if in_int64 i then Inr (o1\<lparr>vo_GroupLvl := i\<rparr>) else raise (InvalidBody ''int'')
             | None \<Rightarrow> raise (InvalidBody ''int''))
        | _ \<Rightarrow> raise (InvalidBody ''int''))
     else Inr o1)"

definition decode_volumes :: "json \<Rightarrow> volumes_options \<Rightarrow> volumes_options checked" where
  "decode_volumes j old = bindr (struct_members j) (\<lambda>kvs. foldr_result volumes_member kvs old)"
section \<open>Templates of a schema\<close>

record query_template =
  qt_Description :: string
  qt_Resource :: string
  qt_Params :: "json option"
  qt_Vars :: "(string \<times> var_decl) list"
  qt_Body :: "json option"

definition template_member :: "string \<times> json \<Rightarrow> query_template \<Rightarrow> query_template checked" where
  "template_member = (\<lambda>(k, v) t.
     if fold_key k = ''description'' then
       bindr (decode_string v (qt_Description t)) (\<lambda>s. Inr (t\<lparr>qt_Description := s\<rparr>))
     else if fold_key k = ''resource'' then
       bindr (decode_string v (qt_Resource t)) (\<lambda>s. Inr (t\<lparr>qt_Resource := s\<rparr>))
     else if fold_key k = ''params'' then Inr (t\<lparr>qt_Params := Some v\<rparr>)
     else if fold_key k = ''vars'' then bindr (decode_vars v) (\<lambda>ds. Inr (t\<lparr>qt_Vars := ds\<rparr>))
     else if fold_key k = ''body'' then Inr (t\<lparr>qt_Body := Some v\<rparr>)
     else Inr t)"

definition QueryTemplate_of_json :: "json \<Rightarrow> query_template checked" where
  "QueryTemplate_of_json j =
     bindr (struct_members j) (\<lambda>kvs.
       foldr_result template_member kvs
         \<lparr>qt_Description = [], qt_Resource = [], qt_Params = None, qt_Vars = [], qt_Body = None\<rparr>)"

definition common_fields :: "string list" where
  "common_fields = [''endTime'', ''startTime'', ''expand'', ''sort'', ''pageSize'']"

definition checkForExtraFields :: "json \<Rightarrow> string list \<Rightarrow> unit checked" where
  "checkForExtraFields params resourceSpecificFields =
     (case json_map params of
        None \<Rightarrow> raise (InvalidBody ''object'')
      | Some raw \<Rightarrow>
          foldr_result (\<lambda>(k, _) _.
            guardr (List.member (common_fields @ resourceSpecificFields) k) (UnknownField k)) raw ())"

definition zero_params :: "any_value query_params" where
  "zero_params =
     \<lparr>qp_PIT = None, qp_OOT = None, qp_Expand = [], qp_Opts = ANil, qp_SortColumn = [],
      qp_SortOrder = None, qp_PageSize = 0\<rparr>"

definition sortable :: "entity_schema \<Rightarrow> string \<Rightarrow> bool" where
  "sortable schema column \<longleftrightarrow>
     (case GetFieldByNameOrAlias schema column of None \<Rightarrow> False | Some (_, f) \<Rightarrow> fd_IsPaginated f)"

definition validate_params :: "query_libs \<Rightarrow> resource_kind \<Rightarrow> json \<Rightarrow> unit checked" where
  "validate_params ql resource params =
     bindr (Params_UnmarshalJSON ql params zero_params) (\<lambda>p.
     bindr (guardr (qp_SortColumn p = [] \<or> sortable (GetResourceSchema resource) (qp_SortColumn p))
         (InvalidParams (qp_SortColumn p))) (\<lambda>_.
     if resource = ResourceVolume then
       bindr (checkForExtraFields params [''groupBy'', ''insertionDate'']) (\<lambda>_.
       bindr (decode_volumes params \<lparr>vo_UseInsertionDate = False, vo_GroupLvl = 0\<rparr>) (\<lambda>_. Inr ()))
     else checkForExtraFields params []))"

definition QueryTemplate_Validate :: "query_libs \<Rightarrow> filter_parser \<Rightarrow> query_template \<Rightarrow> unit checked" where
  "QueryTemplate_Validate ql parse t =
     bindr (ResourceKind_of (qt_Resource t)) (\<lambda>resource.
     bindr (case qt_Params t of None \<Rightarrow> Inr () | Some p \<Rightarrow> validate_params ql resource p) (\<lambda>_.
     bindr (ValidateVarDeclarations ql (qt_Vars t)) (\<lambda>_.
       case qt_Body t of
         None \<Rightarrow> Inr ()
       | Some body \<Rightarrow> ValidateFilterBody ql parse resource body (qt_Vars t))))"

definition QueryTemplates_Validate ::
    "query_libs \<Rightarrow> filter_parser \<Rightarrow> (string \<times> query_template) list \<Rightarrow> unit checked" where
  "QueryTemplates_Validate ql parse ts =
     foldr_result (\<lambda>(_, t) _. QueryTemplate_Validate ql parse t) ts ()"

section \<open>Validated templates resolve\<close>

text \<open>
  A value of a declared variable: it has the type, it is not null and it is not a number of Go's
  \<open>big\<close>, which no JSON gives.
\<close>

definition usable :: "query_libs \<Rightarrow> field_type \<Rightarrow> any_value \<Rightarrow> bool" where
  "usable ql t v \<longleftrightarrow>
     (case v of ANil \<Rightarrow> False | ABigInt _ \<Rightarrow> False | _ \<Rightarrow> has_type ql t v)"

definition env_typed ::
    "query_libs \<Rightarrow> (string \<times> var_decl) list \<Rightarrow> (string \<times> any_value) list \<Rightarrow> bool" where
  "env_typed ql decls vars \<longleftrightarrow>
     (\<forall>k d. map_of decls k = Some d \<longrightarrow> (\<exists>v. map_of vars k = Some v \<and> usable ql (vd_Type d) v))"

definition var_types_of :: "(string \<times> var_decl) list \<Rightarrow> var_types" where
  "var_types_of decls = map (\<lambda>(k, d). (k, vd_Type d)) decls"

lemma map_of_var_types: "map_of (var_types_of decls) k = map_option vd_Type (map_of decls k)"
  by (induction decls) (auto simp: var_types_of_def)

lemma usable_type: "usable ql t v \<Longrightarrow> has_type ql t v"
  by (cases v) (auto simp: usable_def)

lemma usable_prints: "usable ql t v \<Longrightarrow> \<exists>s. jsonToString ql v = Inr s"
  by (cases t; cases v) (auto simp: usable_def jsonToString_def)

lemma interleave_succeeds:
  assumes "\<forall>x \<in> set refs. \<exists>v t. map_of vars x = Some v \<and> usable ql t v"
  shows "\<exists>s. interleave ql vars strs refs = Inr s"
  using assms
proof (induction ql vars strs refs rule: interleave.induct)
  case (1 ql vars s strs x varRefs)
  obtain v t where v: "map_of vars x = Some v" "usable ql t v" using "1.prems" by auto
  obtain p where p: "jsonToString ql v = Inr p" using usable_prints [OF v(2)] by auto
  obtain r where "interleave ql vars strs varRefs = Inr r" using 1 v(1) p by auto
  then show ?case using v(1) p by simp
next
  case (2 ql vars x varRefs)
  obtain v t where v: "map_of vars x = Some v" "usable ql t v" using "2.prems" by auto
  show ?case using usable_prints [OF v(2)] v(1) by auto
qed simp

lemma names_declared:
  assumes "foldr_result (\<lambda>name _. guardr (map_of vars name \<noteq> None) (NotDeclared name)) refs () = Inr ()"
  shows "\<forall>x \<in> set refs. map_of vars x \<noteq> None"
  using assms by (induction refs) (auto simp: result_simps)

lemma env_typed_lookup:
  assumes "env_typed ql decls vars" and "map_of (var_types_of decls) x = Some t"
  shows "\<exists>v. map_of vars x = Some v \<and> usable ql t v"
  using assms by (auto simp: env_typed_def map_of_var_types)

lemma strings_resolve:
  assumes "env_typed ql decls vars" and "ValidateStringTemplate s (var_types_of decls) = Inr ()"
  shows "\<exists>r. ReplaceVariables ql s vars = Inr r"
proof -
  obtain strs refs where p: "ParseTemplate s = Inr (strs, refs)"
    and refs: "\<forall>x \<in> set refs. map_of (var_types_of decls) x \<noteq> None"
    using assms(2) names_declared [of "var_types_of decls"]
    by (fastforce simp: ValidateStringTemplate_def bindr_eq_Inr simp del: not_None_eq)
  have "\<exists>v t. map_of vars x = Some v \<and> usable ql t v" if "x \<in> set refs" for x
    using refs that env_typed_lookup [OF assms(1)] by blast
  then show ?thesis
    using interleave_succeeds [of refs vars ql strs] p by (simp add: ReplaceVariables_def)
qed

text \<open>A string value of a validated leaf resolves to a value that its field takes.\<close>

lemma references_resolve:
  assumes env: "env_typed ql decls vars" and ref: "validateVarRef t s (var_types_of decls) = Inr ()"
    and t: "t \<noteq> TypeString"
  shows "\<exists>v. resolveValue ql t s vars = Inr v \<and> ValidateValue ql t operator v"
proof -
  obtain x where x: "extractVariableName s = Inr x" "map_of (var_types_of decls) x = Some t"
    using ref by (auto simp: validateVarRef_def result_simps split: option.splits)
  obtain v where v: "map_of vars x = Some v" "usable ql t v"
    using env_typed_lookup [OF env x(2)] by auto
  show ?thesis
    using t v x(1)
    by (cases t; cases v) (auto simp: resolveValue_def extractVariable_def usable_def)
qed

lemma values_resolve:
  assumes env: "env_typed ql decls vars"
    and ok: "validateValue ql t w0 (var_types_of decls) = Inr ()"
  shows "\<exists>v. resolve_string ql t w0 vars = Inr v \<and>
    (is_string_value w0 \<longrightarrow> operator \<noteq> OperatorIn \<longrightarrow> ValidateValue ql t operator v) \<and>
    (\<not> is_string_value w0 \<longrightarrow> v = w0)"
proof (cases "is_string_value w0")
  case False
  then show ?thesis by (cases w0) (auto simp: resolve_string_def)
next
  case True
  then obtain s where s: "w0 = AString s" by (cases w0) auto
  show ?thesis
  proof (cases "t = TypeString")
    case True
    then show ?thesis
      using strings_resolve [OF env, of s] ok s
      by (auto simp: validateValue_def resolve_string_def resolveValue_def)
  next
    case False
    then show ?thesis
      using references_resolve [OF env, of t s operator] ok s
      by (auto simp: validateValue_def resolve_string_def)
  qed
qed

lemma all_values_resolve:
  assumes "env_typed ql decls vars"
    and "foldr_result (\<lambda>v _. validateValue ql t v (var_types_of decls)) items () = Inr ()"
  shows "\<exists>vs. resolve_all ql t vars items = Inr vs"
  using assms(2)
proof (induction items)
  case (Cons v vs)
  then show ?case
    using values_resolve [OF assms(1), of t v OperatorIn] by (auto simp: bindr_eq_Inr)
qed simp

text \<open>What resolution makes of a leaf.\<close>

definition resolved_leaf :: "query_libs \<Rightarrow> entity_schema \<Rightarrow> leaf \<Rightarrow> leaf \<Rightarrow> bool" where
  "resolved_leaf ql schema = (\<lambda>(operator, key, value) (operator', key', value').
     operator' = operator \<and> key' = key \<and>
     (operator \<noteq> OperatorIn \<longrightarrow>
       (if is_string_value value
        then (\<exists>t. GetFieldType schema key = Inr t \<and> ValidateValue ql t operator value')
        else value' = value)))"

definition resolve_leaf ::
    "query_libs \<Rightarrow> entity_schema \<Rightarrow> (string \<times> any_value) list \<Rightarrow> leaf \<Rightarrow> any_value checked" where
  "resolve_leaf ql schema vars = (\<lambda>(operator, key, value).
     bindr (GetFieldType schema key) (\<lambda>fieldType.
       resolveFilter ql operator fieldType value vars))"

lemma operators_differ:
  "OperatorExists \<noteq> OperatorIn" "\<not> plain_operator OperatorIn" "\<not> plain_operator OperatorExists"
  by (simp_all add: plain_operator_def operator_defs)

lemma leaf_resolves:
  assumes env: "env_typed ql decls vars"
    and ok: "validate_template_leaf ql schema (var_types_of decls) (operator, key, w0) = Inr w"
  shows "\<exists>v. resolve_leaf ql schema vars (operator, key, w0) = Inr v \<and>
    resolved_leaf ql schema (operator, key, w0) (operator, key, v)"
proof -
  obtain t where t: "GetFieldType schema key = Inr t"
    using ok by (auto simp: validate_template_leaf_def bindr_eq_Inr)
  consider (in_op) "operator = OperatorIn" | (exists_op) "operator = OperatorExists"
    | (plain) "plain_operator operator" "operator \<noteq> OperatorIn" "operator \<noteq> OperatorExists"
    using ok t by (auto simp: validate_template_leaf_def split: if_splits)
  then show ?thesis
  proof cases
    case in_op
    then obtain items where vs: "w0 = ASlice items"
      and all: "foldr_result (\<lambda>v _. validateValue ql t v (var_types_of decls)) items () = Inr ()"
      using ok t
      by (auto simp: validate_template_leaf_def bindr_eq_Inr split: any_value.splits)
    show ?thesis
      using all_values_resolve [OF env all] t in_op vs
      by (auto simp: resolve_leaf_def resolveFilter_def resolved_leaf_def)
  next
    case exists_op
    then obtain u where u: "t = TypeMap u" "validateValue ql u w0 (var_types_of decls) = Inr ()"
      using ok t operators_differ
      by (auto simp: validate_template_leaf_def bindr_eq_Inr split: field_type.splits)
    show ?thesis
      using values_resolve [OF env u(2)] t exists_op u(1) operators_differ
      by (auto simp: resolve_leaf_def resolveFilter_def resolved_leaf_def)
  next
    case plain
    then have "validateValue ql t w0 (var_types_of decls) = Inr ()"
      using ok t by (auto simp: validate_template_leaf_def bindr_eq_Inr)
    then show ?thesis
      using values_resolve [OF env, of t w0 operator] t plain
      by (auto simp: resolve_leaf_def resolveFilter_def resolved_leaf_def)
  qed
qed

lemma filters_resolve:
  assumes env: "env_typed ql decls vars"
    and ok: "Walk (validate_template_leaf ql schema (var_types_of decls)) ls = Inr ws"
  shows "\<exists>ls'. Walk (resolve_leaf ql schema vars) ls = Inr ls' \<and>
    list_all2 (resolved_leaf ql schema) ls ls'"
  using ok
proof (induction ls arbitrary: ws)
  case Nil
  then show ?case by simp
next
  case (Cons l ls)
  obtain operator key w0 where l: "l = (operator, key, w0)" by (cases l) auto
  obtain w where w: "validate_template_leaf ql schema (var_types_of decls) (operator, key, w0) = Inr w"
    and rest: "\<exists>us. Walk (validate_template_leaf ql schema (var_types_of decls)) ls = Inr us"
    using Cons.prems l by (auto simp: bindr_eq_Inr)
  obtain v where v: "resolve_leaf ql schema vars (operator, key, w0) = Inr v"
    "resolved_leaf ql schema (operator, key, w0) (operator, key, v)"
    using leaf_resolves [OF env w] by auto
  obtain ls' where "Walk (resolve_leaf ql schema vars) ls = Inr ls'"
    "list_all2 (resolved_leaf ql schema) ls ls'"
    using rest Cons.IH by auto
  then show ?case using v l by simp
qed

text \<open>The values of a call and the defaults give every declared variable a usable value.\<close>

lemma default_values_typed:
  assumes "map_of decls k = Some d" "vd_Default d \<noteq> ANil" "distinct (map fst decls)"
  shows "map_of (default_values decls) k = Some (vd_Default d)"
  using assms(1,3)
proof (induction decls)
  case (Cons a decls)
  then show ?case using assms(2) by (cases a) (auto simp: default_values_def split: if_splits)
qed simp

definition call_step :: "query_libs \<Rightarrow> (string \<times> var_decl) list \<Rightarrow> string \<times> any_value \<Rightarrow>
    (string \<times> any_value) list \<Rightarrow> (string \<times> any_value) list checked" where
  "call_step ql decls = (\<lambda>(k, v) vars.
       case map_of decls k of
         None \<Rightarrow> Inr vars
       | Some d \<Rightarrow> bindr (validateValueType ql (vd_Type d) v) (\<lambda>_. Inr (AList.update k v vars)))"

definition typed_at ::
    "query_libs \<Rightarrow> (string \<times> var_decl) list \<Rightarrow> (string \<times> any_value) list \<Rightarrow> string \<Rightarrow> bool" where
  "typed_at ql decls vars k \<longleftrightarrow>
     (\<forall>d. map_of decls k = Some d \<longrightarrow> (\<exists>v. map_of vars k = Some v \<and> usable ql (vd_Type d) v))"

lemma typed_at_update:
  assumes "map_of decls k = Some d" and "usable ql (vd_Type d) v"
  shows "typed_at ql decls (AList.update k v vars) k' \<longleftrightarrow> k' = k \<or> typed_at ql decls vars k'"
  using assms by (auto simp: typed_at_def map_of_update)

lemma call_steps:
  assumes "\<forall>(k, v) \<in> set cs. \<forall>d. map_of decls k = Some d \<longrightarrow> usable ql (vd_Type d) v"
  shows "\<exists>vars'. foldr_result (call_step ql decls) cs vars = Inr vars' \<and>
    (\<forall>k. k \<in> fst ` set cs \<or> typed_at ql decls vars k \<longrightarrow> typed_at ql decls vars' k)"
  using assms
proof (induction cs arbitrary: vars)
  case Nil
  then show ?case by simp
next
  case (Cons c cs)
  obtain k v where c: "c = (k, v)" by (cases c)
  have IH: "\<exists>vars'. foldr_result (call_step ql decls) cs vars1 = Inr vars' \<and>
    (\<forall>k. k \<in> fst ` set cs \<or> typed_at ql decls vars1 k \<longrightarrow> typed_at ql decls vars' k)" for vars1
    using Cons by simp
  show ?case
  proof (cases "map_of decls k")
    case None
    then have "call_step ql decls c vars = Inr vars" using c by (simp add: call_step_def)
    moreover have "typed_at ql decls vs k" for vs using None by (simp add: typed_at_def)
    ultimately show ?thesis using IH [of vars] c by auto
  next
    case (Some d)
    then have u: "usable ql (vd_Type d) v" using Cons.prems c by simp
    then have "call_step ql decls c vars = Inr (AList.update k v vars)"
      using Some c by (simp add: call_step_def validateValueType_def usable_type)
    then show ?thesis
      using IH [of "AList.update k v vars"] c by (auto simp: typed_at_update [OF Some u])
  qed
qed

text \<open>
  What a call must give: values of their types for the declared variables it names, and one for
  every variable that has no default.
\<close>

definition call_complete ::
    "query_libs \<Rightarrow> (string \<times> var_decl) list \<Rightarrow> (string \<times> any_value) list \<Rightarrow> bool" where
  "call_complete ql decls cs \<longleftrightarrow>
     list_all (\<lambda>(k, v). case map_of decls k of None \<Rightarrow> True | Some d \<Rightarrow> usable ql (vd_Type d) v) cs \<and>
     list_all (\<lambda>(k, d). if vd_Default d = ANil then List.member (map fst cs) k
       else usable ql (vd_Type d) (vd_Default d)) decls"

lemma call_values_typed:
  assumes complete: "call_complete ql decls cs" and distinct: "distinct (map fst decls)"
  shows "\<exists>vars. call_values ql decls cs = Inr vars \<and> env_typed ql decls vars"
proof -
  have "\<forall>(k, v) \<in> set cs. \<forall>d. map_of decls k = Some d \<longrightarrow> usable ql (vd_Type d) v"
    using complete by (auto simp: call_complete_def list_all_iff)
  from call_steps [OF this, of "default_values decls"]
  obtain vars where vars: "foldr_result (call_step ql decls) cs (default_values decls) = Inr vars"
    and typed: "\<And>k. k \<in> fst ` set cs \<or> typed_at ql decls (default_values decls) k \<Longrightarrow>
      typed_at ql decls vars k"
    by blast
  have "typed_at ql decls vars k" for k
  proof (cases "map_of decls k")
    case None
    then show ?thesis by (simp add: typed_at_def)
  next
    case (Some d)
    then have d: "if vd_Default d = ANil then k \<in> fst ` set cs else usable ql (vd_Type d) (vd_Default d)"
      using complete map_of_SomeD [OF Some] by (auto simp: call_complete_def list_all_iff)
    show ?thesis
    proof (rule typed)
      show "k \<in> fst ` set cs \<or> typed_at ql decls (default_values decls) k"
        using d Some default_values_typed [OF Some _ distinct]
        by (auto simp: typed_at_def split: if_splits)
    qed
  qed
  then show ?thesis
    using vars by (simp add: call_values_def call_step_def env_typed_def typed_at_def)
qed

end
