(* ===== verification/Query_Claims.thy ===== *)
theory Query_Claims
  imports Query_Templates
begin

text \<open>
  The properties of query templates: what the substitution of a string is, which templates resolve
  once they are validated, what their validation leaves out, and what the parameters of a call do to
  those of the schema.
\<close>

section \<open>Substitution\<close>

text \<open>A template seen as its pieces, its text, and what it stands for.\<close>

datatype piece = Lit string | Ref string

fun written_piece :: "piece \<Rightarrow> string" where
  "written_piece (Lit s) = s"
| "written_piece (Ref x) = ''${'' @ x @ ''}''"

definition written :: "piece list \<Rightarrow> string" where
  "written ps = concat (map written_piece ps)"

fun meaning :: "query_libs \<Rightarrow> (string \<times> any_value) list \<Rightarrow> piece list \<Rightarrow> string checked" where
  "meaning ql vars [] = Inr []"
| "meaning ql vars (Lit s # ps) = bindr (meaning ql vars ps) (\<lambda>r. Inr (s @ r))"
| "meaning ql vars (Ref x # ps) =
     (case map_of vars x of
        None \<Rightarrow> raise (MissingVariable x)
      | Some v \<Rightarrow>
          bindr (jsonToString ql v) (\<lambda>t. bindr (meaning ql vars ps) (\<lambda>r. Inr (t @ r))))"

definition ascii :: "string \<Rightarrow> bool" where
  "ascii s \<longleftrightarrow> list_all (\<lambda>c. (of_char c :: nat) < 128) s"

definition is_ident :: "string \<Rightarrow> bool" where
  "is_ident x \<longleftrightarrow> x \<noteq> [] \<and> isVarHeadChar (hd x) \<and> list_all isVarTailChar (tl x)"

fun piece_ok :: "piece \<Rightarrow> bool" where
  "piece_ok (Lit s) \<longleftrightarrow> ascii s \<and> CHR ''$'' \<notin> set s"
| "piece_ok (Ref x) \<longleftrightarrow> is_ident x"

lemma string_of_byte_ascii: "(of_char c :: nat) < 128 \<Longrightarrow> string_of_byte c = [c]"
  by (simp add: string_of_byte_def)

lemma string_of_byte_other: "\<not> (of_char c :: nat) < 128 \<Longrightarrow> length (string_of_byte c) = 2"
  by (simp add: string_of_byte_def Let_def)

lemma parse_template_literal:
  "CHR ''$'' \<notin> set s \<Longrightarrow>
    parse_template (s @ r) strs vars cur =
    parse_template r strs vars (cur @ concat (map string_of_byte s))"
  by (induction s arbitrary: cur) auto

lemma ascii_bytes: "ascii s \<Longrightarrow> concat (map string_of_byte s) = s"
  by (induction s) (auto simp: ascii_def string_of_byte_ascii)

lemma parseVarIdent_ident:
  assumes "is_ident x" and "\<not> isVarTailChar c"
  shows "parseVarIdent (x @ c # r) = Inr (x, c # r)"
proof -
  obtain h t where x: "x = h # t" "isVarHeadChar h" "\<forall>a \<in> set t. isVarTailChar a"
    using assms(1) by (cases x) (auto simp: is_ident_def list_all_iff)
  have "takeWhile isVarTailChar (t @ c # r) = t" "dropWhile isVarTailChar (t @ c # r) = c # r"
    using x(3) assms(2) by (simp_all add: takeWhile_append2 dropWhile_append2)
  then show ?thesis using x by simp
qed

lemma right_brace: "\<not> isVarTailChar CHR ''}''"
  by code_simp

lemma parse_template_reference:
  "is_ident x \<Longrightarrow>
    parse_template (''${'' @ x @ ''}'' @ r) strs vars cur =
    parse_template r (strs @ [cur]) (vars @ [x]) []"
  using parseVarIdent_ident [OF _ right_brace, of x r] by (simp add: parseBracketVar_def)

text \<open>The pieces and the references \<open>ParseTemplate\<close> gives, after the text \<open>cur\<close>.\<close>

fun parts :: "string \<Rightarrow> piece list \<Rightarrow> string list \<times> string list" where
  "parts cur [] = (if cur = [] then [] else [cur], [])"
| "parts cur (Lit s # ps) = parts (cur @ s) ps"
| "parts cur (Ref x # ps) = (let (ss, xs) = parts [] ps in (cur # ss, x # xs))"

lemma parse_template_written:
  "list_all piece_ok ps \<Longrightarrow>
    parse_template (written ps) strs vars cur =
    Inr (strs @ fst (parts cur ps), vars @ snd (parts cur ps))"
proof (induction cur ps arbitrary: strs vars rule: parts.induct)
  case (1 cur)
  then show ?case by (simp add: written_def)
next
  case (2 cur s ps)
  then show ?case
    using parse_template_literal [of s "written ps" strs vars cur]
    by (simp add: written_def ascii_bytes)
next
  case (3 cur x ps)
  then show ?case
    using parse_template_reference [of x "written ps" strs vars cur]
    by (simp add: written_def case_prod_unfold Let_def)
qed

lemma interleave_parts:
  "interleave ql vars (fst (parts cur ps)) (snd (parts cur ps)) =
     bindr (meaning ql vars ps) (\<lambda>r. Inr (cur @ r))"
proof (induction cur ps rule: parts.induct)
  case (1 cur)
  then show ?case by simp
next
  case (2 cur s ps)
  then show ?case by (simp add: bindr_assoc)
next
  case (3 cur x ps)
  then show ?case
    by (cases "map_of vars x") (auto simp: case_prod_unfold Let_def bindr_assoc)
qed

text \<open>
  The substitution of a string template is the one its pieces say: \<open>ReplaceVariables\<close> on the
  text of a list of pieces, literals in ASCII without a dollar and references \<open>${x}\<close>, is the literals
  and the values of the variables in their order, with the error of the first reference that has no
  value or no text.
\<close>

lemma templates_substitute:
  "list_all piece_ok ps \<Longrightarrow> ReplaceVariables ql (written ps) vars = meaning ql vars ps"
  using interleave_parts [of ql vars "[]" ps]
  by (simp add: ReplaceVariables_def ParseTemplate_def parse_template_written case_prod_unfold)

definition sample_libs :: query_libs where
  "sample_libs =
     \<lparr>ql_ParseTime = (\<lambda>s. if s = ''now'' then Some 1 else None),
      ql_UnmarshalTime = (\<lambda>s. if s = ''now'' then Some 1 else None),
      ql_ToSnake = (\<lambda>s. s), ql_int64 = (\<lambda>_. 0)\<rparr>"

lemma literals_text:
  "CHR ''$'' \<notin> set s \<Longrightarrow> ReplaceVariables ql s vars = Inr (concat (map string_of_byte s))"
  using parse_template_literal [of s "[]" "[]" "[]" "[]"]
  by (simp add: ReplaceVariables_def ParseTemplate_def)

lemma bytes_grow: "length s \<le> length (concat (map string_of_byte s))"
  by (induction s) (auto simp: string_of_byte_def Let_def)

lemma bytes_kept: "concat (map string_of_byte s) = s \<longleftrightarrow> ascii s"
proof
  assume "concat (map string_of_byte s) = s"
  then show "ascii s"
  proof (induction s)
    case (Cons c s)
    show ?case
    proof (cases "(of_char c :: nat) < 128")
      case True
      then show ?thesis using Cons by (simp add: ascii_def string_of_byte_ascii)
    next
      case False
      have "length (concat (map string_of_byte (c # s))) > length (c # s)"
        using string_of_byte_other [OF False] bytes_grow [of s] by simp
      then show ?thesis using arg_cong [OF Cons.prems, of length] by simp
    qed
  qed (simp add: ascii_def)
qed (rule ascii_bytes)

text \<open>
  A string without variables is kept by the substitution exactly when it is ASCII: every other
  byte is taken for a code point and written as the two bytes of its encoding, so that an accented
  letter in a filter of a schema is looked for as two others.
\<close>

lemma literals_are_kept_iff_ascii:
  "CHR ''$'' \<notin> set s \<Longrightarrow> ReplaceVariables ql s vars = Inr s \<longleftrightarrow> ascii s"
  by (simp add: literals_text bytes_kept)

section \<open>Validated templates\<close>

text \<open>
  Claim C15. A template that was validated resolves: for every call that gives a value of its type to each
  declared variable without default, \<open>ResolveFilterTemplate\<close> has no error; it gives no filter when the
  body has none, and otherwise the leaves of the body, where a leaf that is no string is as it was and
  a string has become a value its field takes.
\<close>

theorem validated_templates_resolve:
  assumes body: "ValidateFilterBody ql parse resource body decls = Inr ()"
    and distinct: "distinct (map fst decls)"
    and complete: "call_complete ql decls cs"
  shows "\<exists>builder. ResolveFilterTemplate ql parse resource (Some body) decls cs = Inr builder \<and>
    (case parse (Some body) of
       Inr (Some ls) \<Rightarrow>
         \<exists>ls'. builder = Some ls' \<and> list_all2 (resolved_leaf ql (GetResourceSchema resource)) ls ls'
     | _ \<Rightarrow> builder = None)"
proof -
  obtain vars where vars: "call_values ql decls cs = Inr vars" and env: "env_typed ql decls vars"
    using call_values_typed [OF complete distinct] by auto
  obtain builder where b: "parse (Some body) = Inr builder"
    using body by (auto simp: ValidateFilterBody_def Let_def bindr_eq_Inr)
  show ?thesis
  proof (cases builder)
    case None
    then show ?thesis using vars b by (simp add: ResolveFilterTemplate_def)
  next
    case (Some ls)
    then obtain ws where
      "Walk (validate_template_leaf ql (GetResourceSchema resource) (var_types_of decls)) ls = Inr ws"
      using body b by (auto simp: ValidateFilterBody_def Let_def bindr_eq_Inr var_types_of_def)
    from filters_resolve [OF env this] show ?thesis
      using vars b Some by (auto simp: ResolveFilterTemplate_def resolve_leaf_def [symmetric])
  qed
qed

text \<open>A parser of one operator, one key and one value, enough for the examples.\<close>

definition one_leaf :: filter_parser where
  "one_leaf body =
     (case body of
        Some (JObj [(operator, JObj [(key, v)])]) \<Rightarrow> Inr (Some [(operator, key, any_of_json v)])
      | _ \<Rightarrow> Inr None)"

definition minimum_balance :: json where
  "minimum_balance = JObj [(''$gt'', JObj [(''balance[COIN]'', JStr ''${minimum}'')])]"

theorem validated_templates_resolve_witness:
  "ResolveFilterTemplate sample_libs one_leaf ResourceAccount (Some minimum_balance)
     [(''minimum'', \<lparr>vd_Type = TypeNumeric, vd_Default = ANil\<rparr>)] [(''minimum'', ANumber ''42'')] =
   Inr (Some [(''$gt'', ''balance[COIN]'', ABigInt 42)]) \<and>
   (\<exists>v. resolved_leaf sample_libs AccountSchema (''$gt'', ''balance[COIN]'', AString ''${minimum}'') v)"
proof -
  let ?decls = "[(''minimum'', \<lparr>vd_Type = TypeNumeric, vd_Default = ANil\<rparr>)]"
  have "ValidateFilterBody sample_libs one_leaf ResourceAccount minimum_balance ?decls = Inr ()"
    "distinct (map fst ?decls)" "call_complete sample_libs ?decls [(''minimum'', ANumber ''42'')]"
    by code_simp+
  from validated_templates_resolve [OF this]
  have "\<exists>v. resolved_leaf sample_libs AccountSchema (''$gt'', ''balance[COIN]'', AString ''${minimum}'') v"
    by (auto simp: one_leaf_def minimum_balance_def list_all2_Cons1)
  moreover have "ResolveFilterTemplate sample_libs one_leaf ResourceAccount (Some minimum_balance)
     ?decls [(''minimum'', ANumber ''42'')] = Inr (Some [(''$gt'', ''balance[COIN]'', ABigInt 42)])"
    by code_simp
  ultimately show ?thesis by simp
qed

section \<open>What the runtime accepts\<close>

lemma parse_index_form:
  assumes "parse_index s = Some i"
  shows "s = (if i = [] then [] else ''['' @ i @ '']'')"
proof (cases s)
  case Nil
  then show ?thesis using assms by simp
next
  case (Cons c cs)
  then have "c = CHR ''[''" "i = takeWhile access_index_char cs" "i \<noteq> []"
    "dropWhile access_index_char cs = '']''"
    using assms by (auto simp: Let_def split: if_splits)
  then show ?thesis using Cons takeWhile_dropWhile_id [of access_index_char cs] by simp
qed

lemma parseAccess_form:
  assumes "parseAccess s = Inr (k, i)"
  shows "s = k @ (if i = [] then [] else ''['' @ i @ '']'') \<and> list_all access_key_char k"
proof -
  have k: "k = takeWhile access_key_char s" and i: "parse_index (dropWhile access_key_char s) = Some i"
    using assms by (auto simp: parseAccess_def Let_def split: option.splits if_splits)
  have "s = k @ dropWhile access_key_char s" using k by simp
  then show ?thesis
    using parse_index_form [OF i] k by (auto simp: list_all_iff dest: set_takeWhileD)
qed

definition plain_names :: "entity_schema \<Rightarrow> bool" where
  "plain_names schema \<longleftrightarrow>
     list_all (\<lambda>(name, f). CHR ''['' \<notin> set name \<and> list_all (\<lambda>a. CHR ''['' \<notin> set a) (fd_Aliases f)) schema"

lemma schemas_plain: "plain_names (GetResourceSchema resource)"
  by (cases resource) (simp_all add: plain_names_def schema_defs)

lemma no_bracket: "list_all access_key_char k \<Longrightarrow> CHR ''['' \<notin> set k"
  by (auto simp: list_all_iff access_key_char_def char_class_defs)

lemma split_on_hd: "c \<notin> set s \<Longrightarrow> hd (split_on c (s @ c # t)) = s"
  by (simp add: split_on_append)

lemma match_access:
  assumes "parseAccess key = Inr (k, i)" and "CHR ''['' \<notin> set name"
    and "list_all (\<lambda>a. CHR ''['' \<notin> set a) (fd_Aliases f)"
  shows "match_property key (name, f) \<longleftrightarrow>
    (name = k \<or> List.member (fd_Aliases f) k) \<and> (i = [] \<or> field_Index (fd_Type f) \<noteq> None)"
proof -
  have key: "key = k @ (if i = [] then [] else ''['' @ i @ '']'')" and k: "CHR ''['' \<notin> set k"
    using parseAccess_form [OF assms(1)] no_bracket by auto
  show ?thesis
  proof (cases "i = []")
    case True
    then show ?thesis
      using key split_on_no_sep [OF k] by (auto simp: match_property_def MatchKey_def)
  next
    case False
    have "CHR ''['' \<in> set key" using False key by simp
    then have "name \<noteq> key" "\<not> List.member (fd_Aliases f) key"
      using assms(2,3) by (auto simp: list_all_iff)
    then show ?thesis
      using False key split_on_hd [OF k, of "i @ '']''"]
      by (auto simp: match_property_def MatchKey_def)
  qed
qed

lemma find_in_set: "List.find P xs = Some x \<Longrightarrow> x \<in> set xs \<and> P x"
  by (auto simp: find_Some_iff)

lemma find_narrower:
  "List.find P xs = Some x \<Longrightarrow> (\<And>y. y \<in> set xs \<Longrightarrow> Q y \<longrightarrow> P y) \<Longrightarrow> Q x \<Longrightarrow>
    List.find Q xs = Some x"
  by (induction xs) (auto split: if_splits)

lemma GetFieldType_property:
  assumes "GetFieldType schema key = Inr t" and "plain_names schema"
  shows "\<exists>name f. List.find (match_property key) schema = Some (name, f) \<and>
    (fd_Type f = t \<or> fd_Type f = TypeMap t)"
proof -
  obtain k i where ki: "parseAccess key = Inr (k, i)"
    using assms(1) by (auto simp: GetFieldType_def bindr_eq_Inr)
  obtain name f where f: "GetFieldByNameOrAlias schema k = Some (name, f)"
    and t: "if i = [] then fd_Type f = t else field_Index (fd_Type f) = Some t"
    using assms(1) ki
    by (auto simp: GetFieldType_def split: option.splits if_splits)
  have "match_property key p \<longrightarrow> fst p = k \<or> List.member (fd_Aliases (snd p)) k" if "p \<in> set schema" for p
    using match_access [OF ki, of "fst p" "snd p"] assms(2) that
    by (auto simp: plain_names_def list_all_iff split_beta)
  moreover have "match_property key (name, f)"
    using match_access [OF ki, of name f] assms(2) t find_in_set [OF f [unfolded GetFieldByNameOrAlias_def]]
    by (fastforce simp: plain_names_def list_all_iff split: if_splits)
  moreover have "List.find (\<lambda>p. fst p = k \<or> List.member (fd_Aliases (snd p)) k) schema = Some (name, f)"
    using f by (simp add: GetFieldByNameOrAlias_def case_prod_unfold)
  ultimately have "List.find (match_property key) schema = Some (name, f)"
    using find_narrower [of "\<lambda>p. fst p = k \<or> List.member (fd_Aliases (snd p)) k" schema "(name, f)"
        "match_property key"]
    by simp
  moreover have "fd_Type f = t \<or> fd_Type f = TypeMap t"
    using t by (cases "fd_Type f") (auto split: if_splits)
  ultimately show ?thesis by blast
qed

lemma accepted_leaf:
  assumes "GetFieldType schema key = Inr t" and "plain_names schema" and "ValidateValue ql t operator v"
  shows "(\<exists>name. validate_leaf ql schema (operator, key, v) = Inr name) \<longleftrightarrow>
    (\<exists>name f. List.find (match_property key) schema = Some (name, f) \<and>
      List.member (field_Operators (fd_Type f)) operator)"
proof -
  obtain name f where f: "List.find (match_property key) schema = Some (name, f)"
    "fd_Type f = t \<or> fd_Type f = TypeMap t"
    using GetFieldType_property [OF assms(1,2)] by blast
  then have "ValidateValue ql (fd_Type f) operator v" using assms(3) by auto
  then show ?thesis using f(1) by (simp add: validate_leaf_def)
qed

definition operator_allowed :: "entity_schema \<Rightarrow> leaf \<Rightarrow> bool" where
  "operator_allowed schema = (\<lambda>(operator, key, _).
     case List.find (match_property key) schema of
       None \<Rightarrow> False
     | Some (_, f) \<Rightarrow> List.member (field_Operators (fd_Type f)) operator)"

definition templated :: "leaf \<Rightarrow> bool" where
  "templated = (\<lambda>(operator, _, v). operator \<noteq> OperatorIn \<and> is_string_value v)"

lemma templated_accepted:
  assumes "templated l" and "resolved_leaf ql schema l l'" and "plain_names schema"
  shows "(\<exists>name. validate_leaf ql schema l' = Inr name) \<longleftrightarrow> operator_allowed schema l"
proof -
  obtain operator key v where l: "l = (operator, key, v)" by (cases l)
  then obtain v' t where v': "l' = (operator, key, v')" "GetFieldType schema key = Inr t"
    "ValidateValue ql t operator v'"
    using assms(1,2) by (cases l') (auto simp: templated_def resolved_leaf_def split: if_splits)
  show ?thesis
    using accepted_leaf [OF v'(2) assms(3) v'(3)] l v'(1)
    by (auto simp: operator_allowed_def split: option.splits)
qed

lemma templated_filters_accepted:
  assumes "list_all2 (resolved_leaf ql schema) ls ls'" and "list_all templated ls" and "plain_names schema"
  shows "(\<forall>l \<in> set ls'. \<exists>name. validate_leaf ql schema l = Inr name) \<longleftrightarrow>
    list_all (operator_allowed schema) ls"
  using assms(1,2)
proof (induction rule: list_all2_induct)
  case (Cons l ls l' ls')
  then show ?case using templated_accepted [OF _ Cons.hyps(1) assms(3)] by simp
qed simp

text \<open>
  What the validation of a template leaves to the runtime is the operators: a validated
  template whose leaves are strings is accepted by the store, for every complete call, exactly when
  each of its operators is one the field of its key has.
\<close>

lemma operators_decide_at_runtime:
  assumes body: "ValidateFilterBody ql parse resource body decls = Inr ()"
    and distinct: "distinct (map fst decls)" and complete: "call_complete ql decls cs"
    and leaves: "parse (Some body) = Inr (Some ls)" "list_all templated ls"
  shows "\<exists>ls'. ResolveFilterTemplate ql parse resource (Some body) decls cs = Inr (Some ls') \<and>
    ((\<exists>ret. validateFilters ql (GetResourceSchema resource) ls' = Inr ret) \<longleftrightarrow>
     list_all (operator_allowed (GetResourceSchema resource)) ls)"
proof -
  obtain vars where vars: "call_values ql decls cs = Inr vars" and env: "env_typed ql decls vars"
    using call_values_typed [OF complete distinct] by auto
  obtain ws where
    "Walk (validate_template_leaf ql (GetResourceSchema resource) (var_types_of decls)) ls = Inr ws"
    using body leaves(1) by (auto simp: ValidateFilterBody_def Let_def bindr_eq_Inr var_types_of_def)
  from filters_resolve [OF env this]
  obtain ls' where ls': "Walk (resolve_leaf ql (GetResourceSchema resource) vars) ls = Inr ls'"
    "list_all2 (resolved_leaf ql (GetResourceSchema resource)) ls ls'" by blast
  have "ResolveFilterTemplate ql parse resource (Some body) decls cs = Inr (Some ls')"
    using vars leaves(1) ls'(1) by (simp add: ResolveFilterTemplate_def resolve_leaf_def [symmetric])
  then show ?thesis
    using templated_filters_accepted [OF ls'(2) leaves(2) schemas_plain]
    by (simp add: validateFilters_Inr)
qed

text \<open>A template that orders addresses is saved with its schema, and every call of it is refused.\<close>

definition ordered_addresses :: query_template where
  "ordered_addresses =
     \<lparr>qt_Description = [], qt_Resource = ''accounts'', qt_Params = None, qt_Vars = [],
      qt_Body = Some (JObj [(''$lt'', JObj [(''address'', JStr ''users:'')])])\<rparr>"

lemma saved_templates_can_be_unusable:
  "QueryTemplate_Validate sample_libs one_leaf ordered_addresses = Inr ()"
  "\<exists>ls. ResolveFilterTemplate sample_libs one_leaf ResourceAccount (qt_Body ordered_addresses)
      (qt_Vars ordered_addresses) [] = Inr (Some ls) \<and>
    validateFilters sample_libs AccountSchema ls = raise (OperatorNotAllowed ''$lt'' ''address'')"
proof -
  show "QueryTemplate_Validate sample_libs one_leaf ordered_addresses = Inr ()" by code_simp
  have "ResolveFilterTemplate sample_libs one_leaf ResourceAccount (qt_Body ordered_addresses)
      (qt_Vars ordered_addresses) [] = Inr (Some [(''$lt'', ''address'', AString ''users:'')])"
    "validateFilters sample_libs AccountSchema [(''$lt'', ''address'', AString ''users:'')] =
      raise (OperatorNotAllowed ''$lt'' ''address'')"
    by code_simp+
  then show "\<exists>ls. ResolveFilterTemplate sample_libs one_leaf ResourceAccount (qt_Body ordered_addresses)
      (qt_Vars ordered_addresses) [] = Inr (Some ls) \<and>
    validateFilters sample_libs AccountSchema ls = raise (OperatorNotAllowed ''$lt'' ''address'')"
    by blast
qed

text \<open>No plain date is a value of a date field in a template: a string there must be a variable.\<close>

lemma plain_dates_are_refused:
  "\<forall>x. s \<noteq> ''${'' @ x @ ''}'' \<Longrightarrow>
    validateValue ql TypeDate (AString s) vars = raise (NotAVariable s)"
  by (simp add: validateValue_def validateVarRef_def extractVariableName_def Let_def)

section \<open>Parameters of a call\<close>

lemma set_sort_keeps:
  "set_sort ql s p = Inr p' \<Longrightarrow>
    qp_PIT p' = qp_PIT p \<and> qp_OOT p' = qp_OOT p \<and> qp_Expand p' = qp_Expand p \<and>
    qp_PageSize p' = qp_PageSize p \<and> (s = [] \<longrightarrow> p' = p)"
  by (auto simp: set_sort_def Let_def split: prod.splits option.splits if_splits)

text \<open>
  The parameters of a call replace those of the template even where they say nothing: when
  a call has parameters, the end and the start of the period, the expansions and the page size are
  those the call gives, or none, whatever the template says; only the sort of the template stays when
  the call has none.
\<close>

lemma call_params_reset_the_template:
  assumes template: "Overwrite ql decode [tpl] q = Inr q1"
    and run: "Overwrite ql decode [tpl, Some j] q = Inr q2" "j \<noteq> JNull"
    and params: "decode_params ql j = Inr x"
  shows "qp_PIT q2 = rp_PIT x \<and> qp_OOT q2 = rp_OOT x \<and> qp_Expand q2 = rp_Expand x \<and>
    qp_PageSize q2 = rp_PageSize x \<and>
    (rp_Sort x = [] \<longrightarrow> qp_SortColumn q2 = qp_SortColumn q1 \<and> qp_SortOrder q2 = qp_SortOrder q1)"
proof -
  have "Overwrite ql decode [tpl, Some j] q = bindr (Overwrite ql decode [tpl] q) (Overwrite ql decode [Some j])"
    by (cases tpl) (auto simp: bindr_assoc)
  then have "Overwrite ql decode [Some j] q1 = Inr q2" using template run(1) by simp
  then obtain q' opts where q': "set_sort ql (rp_Sort x)
      (q1\<lparr>qp_PIT := rp_PIT x, qp_OOT := rp_OOT x, qp_Expand := rp_Expand x,
          qp_PageSize := rp_PageSize x\<rparr>) = Inr q'"
    and q2: "q2 = q'\<lparr>qp_Opts := opts\<rparr>"
    using run(2) params by (auto simp: Params_UnmarshalJSON_def bindr_eq_Inr)
  show ?thesis using set_sort_keeps [OF q'] q2 by auto
qed

definition ended_template :: json where
  "ended_template = JObj [(''endTime'', JStr ''now''), (''sort'', JStr ''timestamp:asc'')]"

end
