(* ===== verification/Pagination.thy ===== *)
theory Pagination
  imports Query_Fields
begin

text \<open>
  Pages of resources (\<open>internal/storage/common\<close>): the queries a page is asked with, the two
  paginators, by column and by offset, the repository that chooses between them, and the iteration
  over all pages. A page size is a 64-bit word that the code converts to an \<open>int\<close>. A cursor is the
  query its text encodes, as JSON in base 64.

  PostgreSQL is what the statements the paginators write mean: a select has a \<open>where\<close> on the
  pagination column, an order, an offset and a limit. A limit that is not positive is left out of
  the statement. The order is that of the window of \<open>row_number()\<close>, the only one in the select that is limited;
  the select around it (\<open>expand\<close>) orders by the row number. That PostgreSQL hands the rows of such a select out
  in the order of the window, and so limits them in that order, is what the code relies on and what it does,
  although it is not promised: it is part of the meaning \<open>run_select\<close> gives to the statement.
\<close>

section \<open>Queries\<close>

record 'o resource_query =
  rq_PIT :: "int option"
  rq_OOT :: "int option"
  rq_Builder :: "filter option"
  rq_Expand :: "string list"
  rq_Opts :: 'o

record 'o initial_query =
  iq_Column :: string
  iq_Order :: "page_order option"
  iq_PageSize :: "64 word"
  iq_Options :: "'o resource_query"

record 'o offset_query = "'o initial_query" +
  oq_Offset :: "64 word"

record 'o column_query = "'o initial_query" +
  cq_Bottom :: "int option"
  cq_PaginationID :: "int option"
  cq_Reverse :: bool

datatype 'o paginated_query =
    InitialPaginated "'o initial_query"
  | OffsetPaginated "'o offset_query"
  | ColumnPaginated "'o column_query"

record ('r, 'o) cursor =
  cu_PageSize :: int
  cu_HasMore :: bool
  cu_Previous :: "'o paginated_query option"
  cu_Next :: "'o paginated_query option"
  cu_Data :: "'r list"

section \<open>Selects\<close>

datatype comparison = Below | Above | AtLeast | AtMost

fun compares :: "comparison \<Rightarrow> int \<Rightarrow> int \<Rightarrow> bool" where
  "compares Below k i \<longleftrightarrow> k < i"
| "compares Above k i \<longleftrightarrow> i < k"
| "compares AtLeast k i \<longleftrightarrow> i \<le> k"
| "compares AtMost k i \<longleftrightarrow> k \<le> i"

text \<open>\<open>sl_OrderBy\<close> is the text the statement orders by, before the direction.\<close>

record select =
  sl_OrderBy :: string
  sl_Direction :: page_order
  sl_Where :: "(comparison \<times> int) option"
  sl_Offset :: int
  sl_Limit :: int

text \<open>The order of a column: nulls come last when it ascends and first when it descends.\<close>

definition order_rows :: "('r \<Rightarrow> int option) \<Rightarrow> page_order \<Rightarrow> 'r list \<Rightarrow> 'r list" where
  "order_rows key order rows =
     (let nulls = List.filter (\<lambda>r. key r = None) rows;
          others = List.filter (\<lambda>r. key r \<noteq> None) rows in
      case order of
        OrderAsc \<Rightarrow> sort_key (\<lambda>r. the (key r)) others @ nulls
      | OrderDesc \<Rightarrow> nulls @ sort_key (\<lambda>r. - the (key r)) others)"

definition satisfies :: "('r \<Rightarrow> int option) \<Rightarrow> (comparison \<times> int) option \<Rightarrow> 'r \<Rightarrow> bool" where
  "satisfies key cond r =
     (case cond of
        None \<Rightarrow> True
      | Some (c, i) \<Rightarrow> (case key r of None \<Rightarrow> False | Some k \<Rightarrow> compares c k i))"

definition skip_rows :: "int \<Rightarrow> 'r list \<Rightarrow> 'r list" where
  "skip_rows n rows = (if 0 < n then drop (nat n) rows else rows)"

definition limit_rows :: "int \<Rightarrow> 'r list \<Rightarrow> 'r list" where
  "limit_rows n rows = (if 0 < n then take (nat n) rows else rows)"

definition run_select :: "('r \<Rightarrow> int option) \<Rightarrow> (page_order \<Rightarrow> 'r list \<Rightarrow> 'r list) \<Rightarrow> select \<Rightarrow>
    'r list \<Rightarrow> 'r list" where
  "run_select key order_by s rows =
     limit_rows (sl_Limit s) (skip_rows (sl_Offset s)
       (order_by (sl_Direction s) (List.filter (satisfies key (sl_Where s)) rows)))"

section \<open>Pages by a column\<close>

definition page_size :: "64 word \<Rightarrow> 64 word \<Rightarrow> 64 word" where
  "page_size default_size n = (if n = 0 then default_size else n)"

fun Reverse :: "page_order \<Rightarrow> page_order" where
  "Reverse OrderAsc = OrderDesc"
| "Reverse OrderDesc = OrderAsc"

definition column_condition :: "page_order \<Rightarrow> bool \<Rightarrow> comparison" where
  "column_condition originalOrder reverse =
     (if reverse then (case originalOrder of OrderAsc \<Rightarrow> Below | OrderDesc \<Rightarrow> Above)
      else (case originalOrder of OrderAsc \<Rightarrow> AtLeast | OrderDesc \<Rightarrow> AtMost))"

definition column_Paginate :: "64 word \<Rightarrow> string \<Rightarrow> 'o column_query \<Rightarrow> select checked" where
  "column_Paginate default_size fieldName q =
     (case iq_Order q of
        None \<Rightarrow> panic
      | Some originalOrder \<Rightarrow> Inr
          \<lparr>sl_OrderBy = fieldName,
           sl_Direction = (if cq_Reverse q then Reverse originalOrder else originalOrder),
           sl_Where = map_option (\<lambda>i. (column_condition originalOrder (cq_Reverse q), i))
             (cq_PaginationID q),
           sl_Offset = 0,
           sl_Limit = sint (page_size default_size (iq_PageSize q) + 1)\<rparr>)"

text \<open>
  The bounds of a page from the identifiers of its rows. An index out of range, a nil identifier and
  a comparison with a nil number panic.
\<close>

definition column_links :: "'o column_query \<Rightarrow> page_order \<Rightarrow> int list \<Rightarrow> bool \<Rightarrow>
    ('o column_query option \<times> 'o column_query option) checked" where
  "column_links q order ids hasMore =
     (if cq_Reverse q then
        (if hasMore \<and> length ids < 2 then panic
         else Inr (if hasMore then Some (q\<lparr>cq_PaginationID := Some (ids ! (length ids - 2))\<rparr>) else None,
                   Some (q\<lparr>cq_Reverse := False\<rparr>)))
      else if hasMore \<and> ids = [] then panic
      else
        (let next = (if hasMore then Some (q\<lparr>cq_PaginationID := Some (last ids)\<rparr>) else None) in
         case cq_PaginationID q of
           None \<Rightarrow> Inr (None, next)
         | Some i \<Rightarrow>
             (case cq_Bottom q of
                None \<Rightarrow> panic
              | Some b \<Rightarrow>
                  Inr (if order = OrderAsc \<and> b < i \<or> order = OrderDesc \<and> i < b
                    then Some (q\<lparr>cq_Reverse := True\<rparr>) else None, next))))"

definition column_BuildCursor :: "64 word \<Rightarrow> ('r \<Rightarrow> int option) \<Rightarrow> 'o column_query \<Rightarrow> 'r list \<Rightarrow>
    ('r, 'o) cursor checked" where
  "column_BuildCursor default_size key q ret =
     (let pageSize = sint (page_size default_size (iq_PageSize q)) in
      case iq_Order q of
        None \<Rightarrow> panic
      | Some order \<Rightarrow>
          (case those (map key ret) of
             None \<Rightarrow> panic
           | Some ids \<Rightarrow>
               (let bottom = (case cq_Bottom q of
                      None \<Rightarrow> (if ids = [] then None else Some (hd ids))
                    | Some b \<Rightarrow> Some b);
                    hasMore = int (length ret) > pageSize;
                    ret1 = (if hasMore then butlast ret else ret);
                    ret2 = (if cq_Reverse q then rev ret1 else ret1) in
                bindr (column_links (q\<lparr>cq_Bottom := bottom\<rparr>) order ids hasMore)
                  (\<lambda>(previous, next). Inr
                    \<lparr>cu_PageSize = pageSize, cu_HasMore = (next \<noteq> None),
                     cu_Previous = map_option ColumnPaginated previous,
                     cu_Next = map_option ColumnPaginated next, cu_Data = ret2\<rparr>))))"

section \<open>Pages by an offset\<close>

definition offset_Paginate :: "'o offset_query \<Rightarrow> select checked" where
  "offset_Paginate q =
     (case iq_Order q of
        None \<Rightarrow> panic
      | Some originalOrder \<Rightarrow>
          if 2147483647 < uint (oq_Offset q) then raise OffsetTooLarge
          else Inr
            \<lparr>sl_OrderBy = iq_Column q, sl_Direction = originalOrder, sl_Where = None,
             sl_Offset = (if oq_Offset q = 0 then 0 else sint (oq_Offset q)),
             sl_Limit = (if iq_PageSize q = 0 then 0 else sint (iq_PageSize q + 1))\<rparr>)"

definition offset_BuildCursor :: "'o offset_query \<Rightarrow> 'r list \<Rightarrow> ('r, 'o) cursor checked" where
  "offset_BuildCursor q ret =
     (let back = sint (oq_Offset q) - sint (iq_PageSize q);
          previous = (if oq_Offset q = 0 then None
            else Some (q\<lparr>oq_Offset := word_of_int (if back < 0 then 0 else back)\<rparr>)) in
      if iq_PageSize q \<noteq> 0 \<and> sint (iq_PageSize q) < int (length ret) then
        (if 2 ^ 64 - 1 - uint (iq_PageSize q) < uint (oq_Offset q) then raise OffsetOverflow
         else if ret = [] then panic
         else Inr
           \<lparr>cu_PageSize = sint (iq_PageSize q), cu_HasMore = True,
            cu_Previous = map_option OffsetPaginated previous,
            cu_Next = Some (OffsetPaginated (q\<lparr>oq_Offset := oq_Offset q + iq_PageSize q\<rparr>)),
            cu_Data = butlast ret\<rparr>)
      else Inr
        \<lparr>cu_PageSize = sint (iq_PageSize q), cu_HasMore = False,
         cu_Previous = map_option OffsetPaginated previous, cu_Next = None, cu_Data = ret\<rparr>)"

section \<open>Repositories\<close>

text \<open>
  A repository of resources: its schema and defaults, the rows of a query (the filtered dataset,
  projected and expanded), the identifier of a row in a column, and the order of a column.
\<close>

record ('r, 'o) repository =
  rs_Schema :: entity_schema
  rs_DefaultColumn :: string
  rs_DefaultOrder :: page_order
  rs_DefaultSize :: "64 word"
  rs_Dataset :: "'o resource_query \<Rightarrow> 'r list checked"
  rs_Key :: "string \<Rightarrow> 'r \<Rightarrow> int option"
  rs_OrderBy :: "string \<Rightarrow> page_order \<Rightarrow> 'r list \<Rightarrow> 'r list"

definition with_defaults :: "('r, 'o) repository \<Rightarrow> 'o initial_query \<Rightarrow> 'o initial_query" where
  "with_defaults rs v =
     v\<lparr>iq_Column := (if iq_Column v = [] then rs_DefaultColumn rs else iq_Column v),
       iq_Order := (case iq_Order v of None \<Rightarrow> Some (rs_DefaultOrder rs) | Some d \<Rightarrow> Some d),
       iq_PageSize := (if iq_PageSize v = 0 then rs_DefaultSize rs else iq_PageSize v)\<rparr>"

definition choose_paginator ::
    "('r, 'o) repository \<Rightarrow> 'o paginated_query \<Rightarrow> 'o paginated_query checked" where
  "choose_paginator rs q =
     (case q of
        InitialPaginated v0 \<Rightarrow>
          (let v = with_defaults rs v0 in
           case GetFieldByNameOrAlias (rs_Schema rs) (iq_Column v) of
             None \<Rightarrow> raise (InvalidProperty (iq_Column v))
           | Some (_, f) \<Rightarrow>
               if \<not> fd_IsPaginated f then raise (NotPaginatedField (iq_Column v))
               else if type_IsPaginated (fd_Type f)
               then Inr (ColumnPaginated (initial_query.extend v
                 \<lparr>cq_Bottom = None, cq_PaginationID = None, cq_Reverse = False\<rparr>))
               else Inr (OffsetPaginated (initial_query.extend v \<lparr>oq_Offset = 0\<rparr>)))
      | _ \<Rightarrow> Inr q)"

definition column_page :: "('r, 'o) repository \<Rightarrow> 'o column_query \<Rightarrow> ('r, 'o) cursor checked" where
  "column_page rs v =
     (case GetFieldByNameOrAlias (rs_Schema rs) (iq_Column v) of
        None \<Rightarrow> raise (InvalidProperty (iq_Column v))
      | Some (fieldName, _) \<Rightarrow>
          bindr (rs_Dataset rs (iq_Options v)) (\<lambda>rows.
          bindr (column_Paginate (rs_DefaultSize rs) fieldName v) (\<lambda>s.
            column_BuildCursor (rs_DefaultSize rs) (rs_Key rs (iq_Column v)) v
              (run_select (rs_Key rs fieldName) (rs_OrderBy rs (sl_OrderBy s)) s rows))))"

definition offset_page :: "('r, 'o) repository \<Rightarrow> 'o offset_query \<Rightarrow> ('r, 'o) cursor checked" where
  "offset_page rs v =
     bindr (rs_Dataset rs (iq_Options v)) (\<lambda>rows.
     bindr (offset_Paginate v) (\<lambda>s.
       offset_BuildCursor v
         (run_select (rs_Key rs (iq_Column v)) (rs_OrderBy rs (sl_OrderBy s)) s rows)))"

definition repository_Paginate ::
    "('r, 'o) repository \<Rightarrow> 'o paginated_query \<Rightarrow> ('r, 'o) cursor checked" where
  "repository_Paginate rs q =
     bindr (choose_paginator rs q) (\<lambda>q'.
       case q' of
         ColumnPaginated v \<Rightarrow> column_page rs v
       | OffsetPaginated v \<Rightarrow> offset_page rs v
       | InitialPaginated _ \<Rightarrow> panic)"

text \<open>
  All the pages, one after the other (\<open>Iterate\<close>): the fuel is the number of pages to read at most.
\<close>

fun Iterate :: "nat \<Rightarrow> ('o paginated_query \<Rightarrow> ('r, 'o) cursor checked) \<Rightarrow> 'o paginated_query \<Rightarrow>
    'r list list checked option" where
  "Iterate 0 iterator q = None"
| "Iterate (Suc n) iterator q =
     (case iterator q of
        Inl e \<Rightarrow> Some (Inl e)
      | Inr c \<Rightarrow>
          if \<not> cu_HasMore c then Some (Inr [cu_Data c])
          else
            (case cu_Next c of
               None \<Rightarrow> Some panic
             | Some q' \<Rightarrow>
                 map_option (\<lambda>r. bindr r (\<lambda>pages. Inr (cu_Data c # pages))) (Iterate n iterator q')))"

end
