(* ===== verification/Pagination_Claims.thy ===== *)
theory Pagination_Claims
  imports Pagination "HOL-Library.Multiset"
begin

text \<open>
  The properties of pages: the pages by a column, one after the other, are the rows in their order,
  each once; the previous page of the next one is the page; what rows that share an identifier or
  have none do to the iteration; what a cursor made by a client can put in the statement.
\<close>

section \<open>Sizes\<close>

definition small_size :: "64 word \<Rightarrow> bool" where
  "small_size w \<longleftrightarrow> 0 < unat w \<and> unat w < 2 ^ 63 - 1"

lemma sint_small:
  assumes "unat (w :: 64 word) < 2 ^ 63"
  shows "sint w = int (unat w)"
proof -
  have "int (unat w) < int (2 ^ 63)" using assms by (simp only: of_nat_less_iff)
  then have "int (unat w) < 2 ^ 63" by simp
  moreover have "- (2 ^ 63) \<le> int (unat w)" by (rule order_trans [of _ 0]) simp_all
  ultimately have "signed_take_bit 63 (int (unat w)) = int (unat w)"
    by (intro signed_take_bit_int_eq_self)
  then show ?thesis by (simp only: sint_uint uint_nat) simp
qed

lemma small_sizes:
  assumes "small_size w"
  shows "sint w = int (unat w)" "sint (w + 1) = int (unat w) + 1"
proof -
  have "unat (w + 1) = unat w + 1"
    using assms by (simp add: small_size_def unat_word_ariths)
  then show "sint w = int (unat w)" "sint (w + 1) = int (unat w) + 1"
    using assms sint_small [of w] sint_small [of "w + 1"] by (auto simp: small_size_def)
qed

section \<open>The order of a column\<close>

definition signed_key :: "page_order \<Rightarrow> ('r \<Rightarrow> int option) \<Rightarrow> 'r \<Rightarrow> int" where
  "signed_key d key r = (case d of OrderAsc \<Rightarrow> the (key r) | OrderDesc \<Rightarrow> - the (key r))"

definition identified :: "('r \<Rightarrow> int option) \<Rightarrow> 'r list \<Rightarrow> bool" where
  "identified key rows \<longleftrightarrow> distinct (map key rows) \<and> None \<notin> set (map key rows)"

lemma order_rows_sort:
  assumes "None \<notin> set (map key rows)"
  shows "order_rows key d rows = sort_key (signed_key d key) rows"
proof -
  have "List.filter (\<lambda>r. key r = None) rows = []" "List.filter (\<lambda>r. key r \<noteq> None) rows = rows"
    using assms by (force simp: filter_empty_conv filter_id_conv)+
  then show ?thesis
    by (cases d) (simp_all add: order_rows_def signed_key_def [abs_def] Let_def)
qed

lemma identified_key: "identified key rows \<Longrightarrow> r \<in> set rows \<Longrightarrow> \<exists>k. key r = Some k"
  by (cases "key r") (force simp: identified_def)+

lemma signed_key_inj: "identified key rows \<Longrightarrow> inj_on (signed_key d key) (set rows)"
proof (rule inj_onI)
  fix r s
  assume id: "identified key rows" and rs: "r \<in> set rows" "s \<in> set rows"
    and eq: "signed_key d key r = signed_key d key s"
  obtain i j where "key r = Some i" "key s = Some j"
    using identified_key [OF id] rs by blast
  then have "key r = key s" using eq by (cases d) (simp_all add: signed_key_def)
  then show "r = s" using id rs by (auto simp: identified_def distinct_map inj_on_def)
qed

lemma identified_filter: "identified key rows \<Longrightarrow> identified key (List.filter P rows)"
  by (auto simp: identified_def distinct_map inj_on_def)

lemma order_rows_strict:
  assumes "identified key rows"
  shows "sorted_wrt (\<lambda>r s. signed_key d key r < signed_key d key s) (order_rows key d rows)"
proof -
  let ?f = "signed_key d key" and ?L = "sort_key (signed_key d key) rows"
  have "distinct (map ?f ?L)"
    using signed_key_inj [OF assms, of d] assms
    by (simp add: distinct_map identified_def)
  then have "sorted_wrt (<) (map ?f ?L)"
    by (simp add: strict_sorted_iff)
  then show ?thesis
    using assms order_rows_sort [of key rows d] by (simp add: sorted_wrt_map identified_def)
qed

lemma order_rows_filter:
  assumes "identified key rows"
  shows "order_rows key d (List.filter P rows) = List.filter P (order_rows key d rows)"
  using assms identified_filter [OF assms, of P]
  by (simp add: order_rows_sort identified_def filter_sort)

lemma order_rows_reverse:
  assumes "identified key rows"
  shows "order_rows key (Reverse d) rows = rev (order_rows key d rows)"
proof -
  let ?L = "sort_key (signed_key d key) rows"
  have "sorted_wrt (\<lambda>r s. signed_key d key r \<le> signed_key d key s) ?L"
    using sorted_sort_key [of "signed_key d key" rows] by (simp add: sorted_wrt_map)
  then have "sorted (map (signed_key (Reverse d) key) (rev ?L))"
    by (cases d) (simp_all add: sorted_wrt_rev sorted_wrt_map signed_key_def)
  moreover have "inj_on (signed_key (Reverse d) key) (set rows)"
    by (rule signed_key_inj [OF assms])
  ultimately have "sort_key (signed_key (Reverse d) key) rows = rev ?L"
    by (intro sort_key_inj_key_eq) simp_all
  then show ?thesis using assms by (simp add: order_rows_sort identified_def)
qed

lemma set_order_rows: "set (order_rows key d rows) = set rows"
  by (cases d) (auto simp: order_rows_def Let_def)

lemma length_order_rows: "length (order_rows key d rows) = length rows"
  by (cases d) (simp_all add: order_rows_def Let_def sum_length_filter_compl
    sum_length_filter_compl [of "\<lambda>r. key r = None", simplified] add.commute)

text \<open>What the conditions of the paginator select in an ordered list.\<close>

lemma satisfies_signed:
  assumes "key r = Some k"
  shows "satisfies key (Some (column_condition d reverse, i)) r \<longleftrightarrow>
    (if reverse then signed_key d key r < (case d of OrderAsc \<Rightarrow> i | OrderDesc \<Rightarrow> - i)
     else (case d of OrderAsc \<Rightarrow> i | OrderDesc \<Rightarrow> - i) \<le> signed_key d key r)"
  using assms by (cases d) (simp_all add: satisfies_def column_condition_def signed_key_def)

lemma filter_strict:
  assumes "sorted_wrt (\<lambda>r s. f r < (f s :: int)) L" and "i < length L"
  shows "List.filter (\<lambda>r. f (L ! i) \<le> f r) L = drop i L"
    and "List.filter (\<lambda>r. f r < f (L ! i)) L = take i L"
proof -
  have split: "L = take i L @ drop i L" by simp
  have before: "f r < f (L ! i)" if "r \<in> set (take i L)" for r
    using that assms by (auto simp: in_set_conv_nth sorted_wrt_iff_nth_less)
  have after: "f (L ! i) \<le> f r" if r: "r \<in> set (drop i L)" for r
  proof -
    obtain j where j: "j < length L - i" "r = L ! (i + j)"
      using r assms(2) by (auto simp: in_set_conv_nth)
    then show ?thesis using assms by (cases j) (auto simp: sorted_wrt_iff_nth_less less_imp_le)
  qed
  have "List.filter (\<lambda>r. f (L ! i) \<le> f r) (take i L) = []"
    "List.filter (\<lambda>r. f (L ! i) \<le> f r) (drop i L) = drop i L"
    "List.filter (\<lambda>r. f r < f (L ! i)) (take i L) = take i L"
    "List.filter (\<lambda>r. f r < f (L ! i)) (drop i L) = []"
    using before after by (force simp: filter_empty_conv filter_id_conv)+
  then show "List.filter (\<lambda>r. f (L ! i) \<le> f r) L = drop i L"
    "List.filter (\<lambda>r. f r < f (L ! i)) L = take i L"
    using split by (metis append.right_neutral append_Nil filter_append)+
qed

lemma filter_satisfies:
  assumes id: "identified key rows" and i: "i < length rows"
    and k: "key (order_rows key d rows ! i) = Some k"
  shows "List.filter (satisfies key (Some (column_condition d reverse, k))) (order_rows key d rows) =
    (if reverse then take i (order_rows key d rows) else drop i (order_rows key d rows))"
proof -
  let ?L = "order_rows key d rows" and ?f = "signed_key d key"
  have len: "i < length ?L" using i by (simp add: length_order_rows)
  have fk: "(case d of OrderAsc \<Rightarrow> k | OrderDesc \<Rightarrow> - k) = ?f (?L ! i)"
    using k by (cases d) (simp_all add: signed_key_def)
  have "satisfies key (Some (column_condition d reverse, k)) r \<longleftrightarrow>
      (if reverse then ?f r < ?f (?L ! i) else ?f (?L ! i) \<le> ?f r)" if r: "r \<in> set ?L" for r
  proof -
    obtain kr where "key r = Some kr"
      using identified_key [OF id] r by (auto simp: set_order_rows)
    then show ?thesis using satisfies_signed [of key r kr d reverse k] fk by presburger
  qed
  then have "List.filter (satisfies key (Some (column_condition d reverse, k))) ?L =
      List.filter (\<lambda>r. if reverse then ?f r < ?f (?L ! i) else ?f (?L ! i) \<le> ?f r) ?L"
    by (rule filter_cong [OF refl])
  then show ?thesis
    using filter_strict [OF order_rows_strict [OF id, of d] len] by simp
qed

section \<open>A page by a column\<close>

text \<open>
  What a column query is asked of: the field, the direction, the rows of the dataset in the order of
  the column, and the size of a page.
\<close>

definition ordered_rows ::
    "('r, 'o) repository \<Rightarrow> 'o column_query \<Rightarrow> page_order \<Rightarrow> 'r list \<Rightarrow> nat \<Rightarrow> bool" where
  "ordered_rows rs v d rows n \<longleftrightarrow>
     (\<exists>f. GetFieldByNameOrAlias (rs_Schema rs) (iq_Column v) = Some (iq_Column v, f)) \<and>
     rs_OrderBy rs (iq_Column v) = order_rows (rs_Key rs (iq_Column v)) \<and>
     iq_Order v = Some d \<and> rs_Dataset rs (iq_Options v) = Inr rows \<and>
     identified (rs_Key rs (iq_Column v)) rows \<and>
     small_size (page_size (rs_DefaultSize rs) (iq_PageSize v)) \<and>
     n = unat (page_size (rs_DefaultSize rs) (iq_PageSize v))"

text \<open>The query stands at the row \<open>i\<close>: the page begins there, or ends before it when it is reversed.\<close>

definition stands_at ::
    "'o column_query \<Rightarrow> ('r \<Rightarrow> int option) \<Rightarrow> page_order \<Rightarrow> 'r list \<Rightarrow> nat \<Rightarrow> bool" where
  "stands_at v key d rows i \<longleftrightarrow>
     (i = 0 \<and> cq_PaginationID v = None \<or>
      i < length rows \<and> cq_PaginationID v = key (order_rows key d rows ! i))"

lemma nth_identified:
  assumes "identified key rows" and "i < length rows"
  shows "\<exists>k. key (order_rows key d rows ! i) = Some k"
  using identified_key [OF assms(1)] assms(2)
  by (metis length_order_rows nth_mem set_order_rows)

lemma fetched_forward:
  assumes o: "ordered_rows rs v d rows n" and at: "stands_at v (rs_Key rs (iq_Column v)) d rows i"
    and forward: "\<not> cq_Reverse v"
  shows "column_page rs v = column_BuildCursor (rs_DefaultSize rs) (rs_Key rs (iq_Column v)) v
    (take (n + 1) (drop i (order_rows (rs_Key rs (iq_Column v)) d rows)))"
proof -
  let ?key = "rs_Key rs (iq_Column v)"
  have id: "identified ?key rows" using o by (simp add: ordered_rows_def)
  have "order_rows ?key d (List.filter (satisfies ?key
      (map_option (\<lambda>i. (column_condition d False, i)) (cq_PaginationID v))) rows) =
    drop i (order_rows ?key d rows)"
  proof (cases "cq_PaginationID v")
    case None
    then have "i = 0"
      using at nth_identified [OF id, of i d] by (auto simp: stands_at_def)
    then show ?thesis using None by (simp add: satisfies_def)
  next
    case (Some k)
    then have k: "i < length rows" "?key (order_rows ?key d rows ! i) = Some k"
      using at by (auto simp: stands_at_def)
    show ?thesis
      using Some order_rows_filter [OF id] filter_satisfies [OF id k, of False] by simp
  qed
  then show ?thesis
    using o forward small_sizes [of "page_size (rs_DefaultSize rs) (iq_PageSize v)"]
    by (auto simp: ordered_rows_def column_page_def column_Paginate_def run_select_def
      skip_rows_def limit_rows_def nat_add_distrib)
qed

lemma fetched_reverse:
  assumes o: "ordered_rows rs v d rows n" and at: "i < length rows"
    "cq_PaginationID v = rs_Key rs (iq_Column v) (order_rows (rs_Key rs (iq_Column v)) d rows ! i)"
    and reverse: "cq_Reverse v"
  shows "column_page rs v = column_BuildCursor (rs_DefaultSize rs) (rs_Key rs (iq_Column v)) v
    (take (n + 1) (rev (take i (order_rows (rs_Key rs (iq_Column v)) d rows))))"
proof -
  let ?key = "rs_Key rs (iq_Column v)"
  have id: "identified ?key rows" using o by (simp add: ordered_rows_def)
  obtain k where k: "?key (order_rows ?key d rows ! i) = Some k"
    using nth_identified [OF id at(1)] by blast
  have "order_rows ?key (Reverse d) (List.filter (satisfies ?key
      (Some (column_condition d True, k))) rows) = rev (take i (order_rows ?key d rows))"
    using order_rows_reverse [OF identified_filter [OF id]] order_rows_filter [OF id]
      filter_satisfies [OF id at(1) k, of True] by simp
  then show ?thesis
    using o reverse at(2) k small_sizes [of "page_size (rs_DefaultSize rs) (iq_PageSize v)"]
    by (auto simp: ordered_rows_def column_page_def column_Paginate_def run_select_def
      skip_rows_def limit_rows_def nat_add_distrib)
qed

lemma those_keys:
  assumes "\<And>r. r \<in> set rows \<Longrightarrow> \<exists>k. key r = Some k"
  shows "those (map key rows) = Some (map (\<lambda>r. the (key r)) rows)"
  using assms
proof (induction rows)
  case (Cons r rows)
  then obtain k where "key r = Some k" by auto
  then show ?case using Cons by simp
qed simp

text \<open>The first identifier a query and its successors have seen.\<close>

definition bottom_of :: "'o column_query \<Rightarrow> ('r \<Rightarrow> int option) \<Rightarrow> 'r list \<Rightarrow> int option" where
  "bottom_of v key page = (case cq_Bottom v of
     None \<Rightarrow> (if page = [] then None else key (hd page)) | Some b \<Rightarrow> Some b)"

lemma column_links_forward:
  assumes "\<not> cq_Reverse q" and "ids \<noteq> [] \<or> \<not> hasMore \<and> cq_PaginationID q = None"
    and "cq_PaginationID q \<noteq> None \<Longrightarrow> cq_Bottom q \<noteq> None"
  shows "\<exists>previous. column_links q d ids hasMore =
      Inr (previous, if hasMore then Some (q\<lparr>cq_PaginationID := Some (last ids)\<rparr>) else None) \<and>
    (\<forall>b k. cq_Bottom q = Some b \<longrightarrow> cq_PaginationID q = Some k \<longrightarrow>
       (case d of OrderAsc \<Rightarrow> b < k | OrderDesc \<Rightarrow> k < b) \<longrightarrow>
       previous = Some (q\<lparr>cq_Reverse := True\<rparr>))"
  using assms
  by (cases d; cases "cq_PaginationID q"; cases "cq_Bottom q") (auto simp: column_links_def Let_def)

lemma build_forward:
  assumes size: "sint (page_size default_size (iq_PageSize v)) = int n" and order: "iq_Order v = Some d"
    and forward: "\<not> cq_Reverse v"
    and keys: "\<And>r. r \<in> set (page @ extra) \<Longrightarrow> \<exists>k. key r = Some k"
    and page: "length page \<le> n" "extra = [] \<or> length page = n \<and> length extra = 1"
    and stands: "page \<noteq> [] \<or> extra = [] \<and> cq_PaginationID v = None"
  shows "\<exists>c. column_BuildCursor default_size key v (page @ extra) = Inr c \<and> cu_Data c = page \<and>
    (cu_HasMore c \<longleftrightarrow> extra \<noteq> []) \<and>
    cu_Next c = (if extra = [] then None else Some (ColumnPaginated
      (v\<lparr>cq_Bottom := bottom_of v key page, cq_PaginationID := key (hd extra)\<rparr>))) \<and>
    (\<forall>b k. cq_Bottom v = Some b \<longrightarrow> cq_PaginationID v = Some k \<longrightarrow>
       (case d of OrderAsc \<Rightarrow> b < k | OrderDesc \<Rightarrow> k < b) \<longrightarrow>
       cu_Previous c = Some (ColumnPaginated (v\<lparr>cq_Reverse := True\<rparr>)))"
proof -
  let ?ids = "map (\<lambda>r. the (key r)) (page @ extra)" and ?more = "extra \<noteq> []"
  let ?v = "v\<lparr>cq_Bottom := bottom_of v key page\<rparr>"
  have ids: "those (map key (page @ extra)) = Some ?ids" using keys by (rule those_keys)
  have more: "(int (length (page @ extra)) > int n) = ?more" using page by auto
  have bottom: "(case cq_Bottom v of None \<Rightarrow> (if ?ids = [] then None else Some (hd ?ids)) | Some b \<Rightarrow> Some b) =
      bottom_of v key page"
    using stands keys [of "hd page"] by (cases page) (auto simp: bottom_of_def split: option.splits)
  have data: "(if ?more then butlast (page @ extra) else page @ extra) = page"
    using page(2) by (cases extra) auto
  have last: "Some (last ?ids) = key (hd extra)" if "extra \<noteq> []"
    using that page(2) keys [of "hd extra"] by (cases extra) auto
  have "cq_PaginationID ?v \<noteq> None \<Longrightarrow> cq_Bottom ?v \<noteq> None"
    using stands keys [of "hd page"] by (cases page) (auto simp: bottom_of_def split: option.splits)
  then obtain previous where links: "column_links ?v d ?ids ?more =
      Inr (previous, if ?more then Some (?v\<lparr>cq_PaginationID := Some (last ?ids)\<rparr>) else None)"
    and previous: "\<forall>b k. cq_Bottom ?v = Some b \<longrightarrow> cq_PaginationID ?v = Some k \<longrightarrow>
       (case d of OrderAsc \<Rightarrow> b < k | OrderDesc \<Rightarrow> k < b) \<longrightarrow>
       previous = Some (?v\<lparr>cq_Reverse := True\<rparr>)"
    using column_links_forward [of ?v ?ids ?more d] forward stands page by auto
  have prev: "previous = Some (v\<lparr>cq_Reverse := True\<rparr>)"
    if bk: "cq_Bottom v = Some b" "cq_PaginationID v = Some k"
      "case d of OrderAsc \<Rightarrow> b < k | OrderDesc \<Rightarrow> k < b" for b k
  proof -
    have "?v = v" using bk(1) by (simp add: bottom_of_def)
    then show ?thesis using previous bk by metis
  qed
  show ?thesis
    unfolding column_BuildCursor_def Let_def size order option.case ids more bottom data
    using links prev last forward by (auto simp del: map_append)
qed

lemma forward_page:
  assumes o: "ordered_rows rs v d rows n" and at: "stands_at v (rs_Key rs (iq_Column v)) d rows i"
    and forward: "\<not> cq_Reverse v"
  defines "L \<equiv> order_rows (rs_Key rs (iq_Column v)) d rows"
  shows "\<exists>c. column_page rs v = Inr c \<and> cu_Data c = take n (drop i L) \<and>
    (cu_HasMore c \<longleftrightarrow> i + n < length L) \<and>
    cu_Next c = (if i + n < length L
      then Some (ColumnPaginated (v\<lparr>cq_Bottom := bottom_of v (rs_Key rs (iq_Column v)) (drop i L),
        cq_PaginationID := rs_Key rs (iq_Column v) (L ! (i + n))\<rparr>)) else None) \<and>
    (\<forall>b k. cq_Bottom v = Some b \<longrightarrow> cq_PaginationID v = Some k \<longrightarrow>
       (case d of OrderAsc \<Rightarrow> b < k | OrderDesc \<Rightarrow> k < b) \<longrightarrow>
       cu_Previous c = Some (ColumnPaginated (v\<lparr>cq_Reverse := True\<rparr>)))"
proof -
  let ?key = "rs_Key rs (iq_Column v)" and ?page = "take n (drop i L)"
  let ?extra = "if i + n < length L then [L ! (i + n)] else []"
  have id: "identified ?key rows" and n: "0 < n" and d: "iq_Order v = Some d"
    and size: "sint (page_size (rs_DefaultSize rs) (iq_PageSize v)) = int n"
    using o small_sizes(1) by (auto simp: ordered_rows_def small_size_def)
  have rows: "take (n + 1) (drop i L) = ?page @ ?extra" by (simp add: take_Suc_conv_app_nth)
  have keys: "\<exists>k. ?key r = Some k" if r: "r \<in> set (?page @ ?extra)" for r
    using identified_key [OF id, of r] in_set_takeD [of r "n + 1" "drop i L"] in_set_dropD [of r i L] r
    unfolding rows by (auto simp: L_def set_order_rows)
  have stands: "?page \<noteq> [] \<or> ?extra = [] \<and> cq_PaginationID v = None"
    using at n by (auto simp: stands_at_def L_def length_order_rows)
  have bottom: "bottom_of v ?key ?page = bottom_of v ?key (drop i L)"
    using n by (cases "drop i L") (auto simp: bottom_of_def take_Cons' split: option.splits)
  show ?thesis
    using build_forward [where key = ?key and page = ?page and extra = ?extra,
        OF size d forward keys _ _ stands] fetched_forward [OF o at forward] rows bottom
    unfolding L_def [symmetric] by (auto split: if_splits)
qed

section \<open>The pages one after the other\<close>

text \<open>The rows cut in pages of \<open>n\<close>.\<close>

function chunks :: "nat \<Rightarrow> 'r list \<Rightarrow> 'r list list" where
  "chunks n L = (if n = 0 \<or> length L \<le> n then [L] else take n L # chunks n (drop n L))"
  by pat_completeness auto
termination
  by (relation "measure (length \<circ> snd)") auto

declare chunks.simps [simp del]

lemma chunks_facts:
  assumes "0 < n"
  shows "concat (chunks n L) = L \<and> list_all (\<lambda>p. length p = n) (butlast (chunks n L)) \<and>
    chunks n L \<noteq> [] \<and> length (last (chunks n L)) \<le> n"
  using assms
proof (induction n L rule: chunks.induct)
  case (1 n L)
  show ?case
  proof (cases "length L \<le> n")
    case True
    then show ?thesis by (subst (1 2 3 4) chunks.simps) simp
  next
    case False
    then have c: "chunks n L = take n L # chunks n (drop n L)"
      using "1.prems" by (subst chunks.simps) simp
    show ?thesis using 1 False by (simp add: c)
  qed
qed

lemma ordered_rows_cong:
  assumes "iq_Column v' = iq_Column v" "iq_Order v' = iq_Order v" "iq_PageSize v' = iq_PageSize v"
    "iq_Options v' = iq_Options v"
  shows "ordered_rows rs v' d rows n = ordered_rows rs v d rows n"
  using assms by (simp add: ordered_rows_def)

lemma repository_column: "repository_Paginate rs (ColumnPaginated v) = column_page rs v"
  by (simp add: repository_Paginate_def choose_paginator_def)

lemma first_column_page:
  assumes "GetFieldByNameOrAlias (rs_Schema rs) (iq_Column (with_defaults rs v)) = Some (name, f)"
    and "fd_IsPaginated f" "type_IsPaginated (fd_Type f)"
  shows "repository_Paginate rs (InitialPaginated v) =
    column_page rs (initial_query.extend (with_defaults rs v)
      \<lparr>cq_Bottom = None, cq_PaginationID = None, cq_Reverse = False\<rparr>)"
  using assms by (simp add: repository_Paginate_def choose_paginator_def Let_def)

lemma Iterate_first:
  "iterator q = iterator q' \<Longrightarrow> Iterate fuel iterator q = Iterate fuel iterator q'"
  by (cases fuel) simp_all

lemma extended_columns:
  "iq_Column (initial_query.extend w e) = iq_Column w" "iq_Order (initial_query.extend w e) = iq_Order w"
  "iq_PageSize (initial_query.extend w e) = iq_PageSize w"
  "iq_Options (initial_query.extend w e) = iq_Options w"
  by (simp_all add: initial_query.defs)

lemma Iterate_columns:
  assumes "ordered_rows rs v d rows n" and "stands_at v (rs_Key rs (iq_Column v)) d rows i"
    and "\<not> cq_Reverse v" and "length rows - i < fuel"
  shows "Iterate fuel (repository_Paginate rs) (ColumnPaginated v) =
    Some (Inr (chunks n (drop i (order_rows (rs_Key rs (iq_Column v)) d rows))))"
  using assms
proof (induction fuel arbitrary: v i)
  case 0
  then show ?case by simp
next
  case (Suc fuel)
  let ?key = "rs_Key rs (iq_Column v)"
  let ?L = "order_rows ?key d rows"
  have n: "0 < n" using Suc.prems(1) by (simp add: ordered_rows_def small_size_def)
  obtain c where c: "column_page rs v = Inr c" "cu_Data c = take n (drop i ?L)"
    "cu_HasMore c \<longleftrightarrow> i + n < length ?L"
    and nxt: "cu_Next c = (if i + n < length ?L
      then Some (ColumnPaginated (v\<lparr>cq_Bottom := bottom_of v ?key (drop i ?L),
        cq_PaginationID := ?key (?L ! (i + n))\<rparr>)) else None)"
    using forward_page [OF Suc.prems(1-3)] by blast
  have page: "repository_Paginate rs (ColumnPaginated v) = Inr c"
    using c(1) by (simp add: repository_column)
  show ?case
  proof (cases "i + n < length ?L")
    case False
    then have "length (drop i ?L) \<le> n" by auto
    then have "chunks n (drop i ?L) = [take n (drop i ?L)]" by (subst chunks.simps) simp
    then show ?thesis using page c False by simp
  next
    case True
    let ?v = "v\<lparr>cq_Bottom := bottom_of v ?key (drop i ?L), cq_PaginationID := ?key (?L ! (i + n))\<rparr>"
    have "Iterate fuel (repository_Paginate rs) (ColumnPaginated ?v) =
        Some (Inr (chunks n (drop (i + n) ?L)))"
      using Suc.IH [of ?v "i + n"] Suc.prems True n ordered_rows_cong [of ?v v rs d rows n]
      by (simp add: stands_at_def length_order_rows)
    moreover have "\<not> length (drop i ?L) \<le> n" using True by auto
    then have "chunks n (drop i ?L) = take n (drop i ?L) # chunks n (drop (i + n) ?L)"
      using n by (subst chunks.simps) (simp add: add.commute)
    ultimately show ?thesis using page c nxt True by simp
  qed
qed

text \<open>
  Claim C24. The pages by a column are the rows, each once and in order: when the identifiers of the
  rows of a query are there and differ, iterating from the first page over the cursors ends, after at
  most as many pages as rows and one, with pages that are the ordered rows cut in pages of the size
  asked, of which only the last is shorter.
\<close>

theorem pages_are_the_rows:
  fixes rs :: "('r, 'o) repository" and v :: "'o initial_query"
  defines "w \<equiv> with_defaults rs v"
  assumes field: "GetFieldByNameOrAlias (rs_Schema rs) (iq_Column w) = Some (iq_Column w, f)"
    "fd_IsPaginated f" "type_IsPaginated (fd_Type f)"
    and order: "rs_OrderBy rs (iq_Column w) = order_rows (rs_Key rs (iq_Column w))" "iq_Order w = Some d"
    and rows: "rs_Dataset rs (iq_Options w) = Inr rows" "identified (rs_Key rs (iq_Column w)) rows"
    and size: "small_size (iq_PageSize w)"
    and fuel: "length rows < fuel"
  shows "\<exists>pages. Iterate fuel (repository_Paginate rs) (InitialPaginated v) = Some (Inr pages) \<and>
    concat pages = order_rows (rs_Key rs (iq_Column w)) d rows \<and>
    list_all (\<lambda>p. length p = unat (iq_PageSize w)) (butlast pages) \<and>
    length (last pages) \<le> unat (iq_PageSize w)"
proof -
  let ?v = "initial_query.extend w \<lparr>cq_Bottom = None, cq_PaginationID = None, cq_Reverse = False\<rparr>"
  let ?n = "unat (iq_PageSize w)" and ?L = "order_rows (rs_Key rs (iq_Column w)) d rows"
  have n: "0 < ?n" using size by (simp add: small_size_def)
  note v = extended_columns [of w]
  have "page_size (rs_DefaultSize rs) (iq_PageSize w) = iq_PageSize w"
    using n by (auto simp: page_size_def)
  then have "ordered_rows rs ?v d rows ?n"
    unfolding ordered_rows_def v using field(1) order rows size by auto
  moreover have "stands_at ?v (rs_Key rs (iq_Column ?v)) d rows 0" "\<not> cq_Reverse ?v"
    by (simp_all add: stands_at_def initial_query.defs)
  ultimately have "Iterate fuel (repository_Paginate rs) (ColumnPaginated ?v) = Some (Inr (chunks ?n ?L))"
    using Iterate_columns [of rs ?v d rows ?n 0 fuel] fuel unfolding v by simp
  moreover have "Iterate fuel (repository_Paginate rs) (InitialPaginated v) =
      Iterate fuel (repository_Paginate rs) (ColumnPaginated ?v)"
    using first_column_page field unfolding w_def by (intro Iterate_first) (simp add: repository_column)
  ultimately show ?thesis using chunks_facts [OF n, of ?L] by auto
qed

section \<open>The page before\<close>

lemma those_exists:
  "(\<And>r. r \<in> set rows \<Longrightarrow> \<exists>k. key r = Some k) \<Longrightarrow> \<exists>ids. those (map key rows) = Some ids \<and> length ids = length rows"
  using those_keys [of rows key] by simp

lemma reverse_page:
  assumes o: "ordered_rows rs v d rows n" and at: "i < length rows" "n \<le> i"
    "cq_PaginationID v = rs_Key rs (iq_Column v) (order_rows (rs_Key rs (iq_Column v)) d rows ! i)"
    and reverse: "cq_Reverse v"
  defines "L \<equiv> order_rows (rs_Key rs (iq_Column v)) d rows"
  shows "\<exists>c. column_page rs v = Inr c \<and> cu_Data c = take n (drop (i - n) L)"
proof -
  let ?key = "rs_Key rs (iq_Column v)" and ?ret = "take (n + 1) (rev (take i L))"
  have id: "identified ?key rows" and n: "0 < n" and d: "iq_Order v = Some d"
    and size: "sint (page_size (rs_DefaultSize rs) (iq_PageSize v)) = int n"
    using o small_sizes(1) by (auto simp: ordered_rows_def small_size_def)
  have i: "i < length L" using at(1) by (simp add: L_def length_order_rows)
  have "\<exists>k. ?key r = Some k" if r: "r \<in> set ?ret" for r
    using identified_key [OF id, of r] in_set_takeD [OF r] in_set_takeD [of r i L]
    by (simp add: L_def set_order_rows)
  then obtain ids where ids: "those (map ?key ?ret) = Some ids" "length ids = length ?ret"
    using those_exists by blast
  have more: "int n < int (length ?ret) \<longleftrightarrow> n < i" using i by auto
  have data: "rev (if n < i then butlast ?ret else ?ret) = take n (drop (i - n) L)"
  proof -
    have "(if n < i then butlast ?ret else ?ret) = take n (rev (take i L))"
      using i at(2) by (auto simp: butlast_take)
    moreover have "rev (take n (rev (take i L))) = drop (i - n) (take i L)"
      using i rev_take [of n "rev (take i L)"] by (simp add: min_def)
    ultimately show ?thesis using at(2) by (simp add: take_drop)
  qed
  define B where "B = (case cq_Bottom v of None \<Rightarrow> (if ids = [] then None else Some (hd ids)) | Some b \<Rightarrow> Some b)"
  obtain p w where links: "column_links (v\<lparr>cq_Bottom := B\<rparr>) d ids (n < i) = Inr (p, w)"
    using reverse ids(2) n at(2) i by (cases "n < i") (simp_all add: column_links_def)
  have "column_BuildCursor (rs_DefaultSize rs) ?key v ?ret =
    Inr \<lparr>cu_PageSize = int n, cu_HasMore = (w \<noteq> None), cu_Previous = map_option ColumnPaginated p,
      cu_Next = map_option ColumnPaginated w, cu_Data = take n (drop (i - n) L)\<rparr>"
    unfolding column_BuildCursor_def Let_def d option.case ids(1) size more B_def [symmetric] links
    using data reverse by simp
  then show ?thesis
    using fetched_reverse [OF o at(1,3) reverse] unfolding L_def [symmetric] by simp
qed

text \<open>The lowest identifier a query knows is one of a row that is not after its page.\<close>

definition bottom_known :: "'o column_query \<Rightarrow> ('r \<Rightarrow> int option) \<Rightarrow> 'r list \<Rightarrow> nat \<Rightarrow> bool" where
  "bottom_known v key L i \<longleftrightarrow> (\<forall>b. cq_Bottom v = Some b \<longrightarrow> (\<exists>j \<le> i. j < length L \<and> key (L ! j) = Some b))"

lemma keys_ordered:
  assumes "identified key rows" and "i < j" "j < length rows"
    and "key (order_rows key d rows ! i) = Some b" "key (order_rows key d rows ! j) = Some k"
  shows "case d of OrderAsc \<Rightarrow> b < k | OrderDesc \<Rightarrow> k < b"
proof -
  have "signed_key d key (order_rows key d rows ! i) < signed_key d key (order_rows key d rows ! j)"
    using order_rows_strict [OF assms(1), of d] assms(2,3)
    by (simp add: sorted_wrt_iff_nth_less length_order_rows)
  then show ?thesis using assms(4,5) by (cases d) (simp_all add: signed_key_def)
qed

text \<open>
  Claim C25. The page before the next one is the page: from a page by a column that has a next one, the
  query of its next page gives a page whose previous query gives the same rows again.
\<close>

theorem previous_undoes_next:
  assumes o: "ordered_rows rs v d rows n" and at: "stands_at v (rs_Key rs (iq_Column v)) d rows i"
    and forward: "\<not> cq_Reverse v" and more: "i + n < length rows"
    and bottom: "bottom_known v (rs_Key rs (iq_Column v)) (order_rows (rs_Key rs (iq_Column v)) d rows) i"
  shows "\<exists>c v1 c1 v2 c2. column_page rs v = Inr c \<and> cu_Next c = Some (ColumnPaginated v1) \<and>
    column_page rs v1 = Inr c1 \<and> cu_Previous c1 = Some (ColumnPaginated v2) \<and>
    column_page rs v2 = Inr c2 \<and> cu_Data c2 = cu_Data c"
proof -
  let ?key = "rs_Key rs (iq_Column v)"
  let ?L = "order_rows ?key d rows"
  have id: "identified ?key rows" and n: "0 < n"
    using o by (auto simp: ordered_rows_def small_size_def)
  let ?v1 = "v\<lparr>cq_Bottom := bottom_of v ?key (drop i ?L), cq_PaginationID := ?key (?L ! (i + n))\<rparr>"
  let ?v2 = "?v1\<lparr>cq_Reverse := True\<rparr>"
  obtain c where c: "column_page rs v = Inr c" "cu_Data c = take n (drop i ?L)"
    "cu_Next c = Some (ColumnPaginated ?v1)"
    using forward_page [OF o at forward] more by (auto simp: length_order_rows)
  have o1: "ordered_rows rs ?v1 d rows n" and o2: "ordered_rows rs ?v2 d rows n"
    using o by (simp_all add: ordered_rows_def)
  have at1: "stands_at ?v1 (rs_Key rs (iq_Column ?v1)) d rows (i + n)"
    using more by (simp add: stands_at_def)
  obtain k where k: "?key (?L ! (i + n)) = Some k"
    using nth_identified [OF id more] by blast
  obtain k0 where k0: "?key (?L ! i) = Some k0"
    using nth_identified [OF id, of i d] more by auto
  obtain b j where b: "bottom_of v ?key (drop i ?L) = Some b" "j \<le> i" "?key (?L ! j) = Some b"
    using bottom k0 more
    by (cases "cq_Bottom v") (auto simp: bottom_known_def bottom_of_def hd_drop_conv_nth length_order_rows)
  have "case d of OrderAsc \<Rightarrow> b < k | OrderDesc \<Rightarrow> k < b"
    using keys_ordered [OF id _ more b(3) k] b(2) n by simp
  then obtain c1 where c1: "column_page rs ?v1 = Inr c1" "cu_Previous c1 = Some (ColumnPaginated ?v2)"
    using forward_page [OF o1 at1] forward b(1) k by auto
  obtain c2 where c2: "column_page rs ?v2 = Inr c2" "cu_Data c2 = take n (drop i ?L)"
    using reverse_page [OF o2, of "i + n"] more by auto
  show ?thesis using c c1 c2 by metis
qed

section \<open>Examples\<close>

definition first_query :: "string \<Rightarrow> page_order \<Rightarrow> 64 word \<Rightarrow> unit initial_query" where
  "first_query column d n = \<lparr>iq_Column = column, iq_Order = Some d, iq_PageSize = n,
     iq_Options = \<lparr>rq_PIT = None, rq_OOT = None, rq_Builder = None, rq_Expand = [], rq_Opts = ()\<rparr>\<rparr>"

definition sample_repository :: "entity_schema \<Rightarrow> ('r \<Rightarrow> int option) \<Rightarrow> 'r list \<Rightarrow> ('r, unit) repository" where
  "sample_repository schema key rows =
     \<lparr>rs_Schema = schema, rs_DefaultColumn = ''id'', rs_DefaultOrder = OrderDesc, rs_DefaultSize = 15,
      rs_Dataset = (\<lambda>_. Inr rows), rs_Key = (\<lambda>_. key), rs_OrderBy = (\<lambda>_. order_rows key)\<rparr>"

lemma log_field: "GetFieldByNameOrAlias LogSchema ''id'' = Some (''id'', Paginated (NewField TypeNumeric))"
  by (simp add: GetFieldByNameOrAlias_def schema_defs)

lemma small_two: "small_size 2"
  by (simp add: small_size_def)

theorem pages_are_the_rows_witness:
  "\<exists>pages. Iterate 6 (repository_Paginate (sample_repository LogSchema Some [3, 1, 2, 5, 4]))
     (InitialPaginated (first_query ''id'' OrderAsc 2)) = Some (Inr pages) \<and> concat pages = [1, 2, 3, 4, 5]"
proof -
  let ?rs = "sample_repository LogSchema Some [3, 1, 2, 5, 4 :: int]" and ?q = "first_query ''id'' OrderAsc 2"
  have q: "with_defaults ?rs ?q = ?q"
    by (simp add: with_defaults_def first_query_def sample_repository_def)
  have "identified Some [3, 1, 2, 5, 4 :: int]" by (simp add: identified_def)
  then have "\<exists>pages. Iterate 6 (repository_Paginate ?rs) (InitialPaginated ?q) = Some (Inr pages) \<and>
      concat pages = order_rows Some OrderAsc [3, 1, 2, 5, 4 :: int]"
    using pages_are_the_rows [of ?rs ?q "Paginated (NewField TypeNumeric)" OrderAsc "[3, 1, 2, 5, 4]" 6]
    unfolding q by (auto simp: first_query_def sample_repository_def log_field small_two Paginated_def NewField_def)
  then show ?thesis by (simp add: order_rows_def)
qed

theorem previous_undoes_next_witness:
  "\<exists>c v1 c1 v2 c2.
     column_page (sample_repository LogSchema Some [3, 1, 2]) (initial_query.extend (first_query ''id'' OrderDesc 2)
       \<lparr>cq_Bottom = None, cq_PaginationID = None, cq_Reverse = False\<rparr>) = Inr c \<and>
     cu_Next c = Some (ColumnPaginated v1) \<and>
     column_page (sample_repository LogSchema Some [3, 1, 2]) v1 = Inr c1 \<and>
     cu_Previous c1 = Some (ColumnPaginated v2) \<and>
     column_page (sample_repository LogSchema Some [3, 1, 2]) v2 = Inr c2 \<and> cu_Data c2 = cu_Data c"
proof -
  let ?rs = "sample_repository LogSchema Some [3, 1, 2 :: int]"
  let ?v = "initial_query.extend (first_query ''id'' OrderDesc 2)
    \<lparr>cq_Bottom = None, cq_PaginationID = None, cq_Reverse = False\<rparr>"
  have v: "?v = \<lparr>iq_Column = ''id'', iq_Order = Some OrderDesc, iq_PageSize = 2,
     iq_Options = \<lparr>rq_PIT = None, rq_OOT = None, rq_Builder = None, rq_Expand = [], rq_Opts = ()\<rparr>,
     cq_Bottom = None, cq_PaginationID = None, cq_Reverse = False\<rparr>"
    by (simp add: initial_query.defs first_query_def)
  have "ordered_rows ?rs ?v OrderDesc [3, 1, 2] 2"
    unfolding v ordered_rows_def
    using small_two by (simp add: sample_repository_def log_field identified_def page_size_def)
  moreover have "stands_at ?v (rs_Key ?rs (iq_Column ?v)) OrderDesc [3, 1, 2] 0" "\<not> cq_Reverse ?v"
    "bottom_known ?v (rs_Key ?rs (iq_Column ?v)) (order_rows (rs_Key ?rs (iq_Column ?v)) OrderDesc [3, 1, 2]) 0"
    unfolding v by (simp_all add: stands_at_def bottom_known_def)
  moreover have "0 + 2 < length [3, 1, 2 :: int]" by simp
  ultimately show ?thesis using previous_undoes_next [of ?rs ?v OrderDesc "[3, 1, 2]" 2 0] by blast
qed

section \<open>Rows that share an identifier, or have none\<close>

lemma tied_page:
  assumes f: "GetFieldByNameOrAlias (rs_Schema rs) (iq_Column v) = Some (iq_Column v, f)"
    and order: "rs_OrderBy rs (iq_Column v) = order_rows (rs_Key rs (iq_Column v))" "iq_Order v = Some d"
    and rows: "rs_Dataset rs (iq_Options v) = Inr rows"
    and tied: "\<And>r. r \<in> set rows \<Longrightarrow> rs_Key rs (iq_Column v) r = Some t"
    and size: "small_size (page_size (rs_DefaultSize rs) (iq_PageSize v))"
    and many: "unat (page_size (rs_DefaultSize rs) (iq_PageSize v)) < length rows"
    and v: "\<not> cq_Reverse v" "cq_PaginationID v = None \<or> cq_PaginationID v = Some t"
      "cq_Bottom v = None \<or> cq_Bottom v = Some t"
  shows "\<exists>c. column_page rs v = Inr c \<and> cu_HasMore c \<and>
    cu_Next c = Some (ColumnPaginated (v\<lparr>cq_Bottom := Some t, cq_PaginationID := Some t\<rparr>))"
proof -
  let ?key = "rs_Key rs (iq_Column v)" and ?n = "unat (page_size (rs_DefaultSize rs) (iq_PageSize v))"
  let ?L = "order_rows ?key d rows"
  have n: "0 < ?n" using size by (simp add: small_size_def)
  have len: "?n < length ?L" using many by (simp add: length_order_rows)
  have L: "?key r = Some t" if "r \<in> set ?L" for r using that tied by (simp add: set_order_rows)
  have "List.filter (satisfies ?key (map_option (\<lambda>i. (column_condition d False, i)) (cq_PaginationID v))) rows = rows"
    using v(2) tied by (auto simp: filter_id_conv satisfies_def column_condition_def split: page_order.splits)
  then have "column_page rs v = column_BuildCursor (rs_DefaultSize rs) ?key v (take (?n + 1) ?L)"
    using f order rows v(1) small_sizes(2) [OF size]
    by (simp add: column_page_def column_Paginate_def run_select_def skip_rows_def limit_rows_def nat_add_distrib)
  moreover have rows: "take (?n + 1) ?L = take ?n ?L @ [?L ! ?n]"
    using len by (simp add: take_Suc_conv_app_nth)
  moreover have "?key (?L ! ?n) = Some t" using len L by simp
  moreover have "bottom_of v ?key (take ?n ?L) = Some t"
    using v(3) n len L [of "hd (take ?n ?L)"] by (auto simp: bottom_of_def dest: in_set_takeD)
  moreover have "\<And>r. r \<in> set (take ?n ?L @ [?L ! ?n]) \<Longrightarrow> \<exists>k. ?key r = Some k"
    using L len by (auto dest: in_set_takeD)
  ultimately show ?thesis
    using build_forward [where key = ?key and page = "take ?n ?L" and extra = "[?L ! ?n]",
        OF small_sizes(1) [OF size] order(2) v(1)] n len by fastforce
qed

lemma tied_pages_loop:
  assumes "GetFieldByNameOrAlias (rs_Schema rs) (iq_Column v) = Some (iq_Column v, f)"
    and "rs_OrderBy rs (iq_Column v) = order_rows (rs_Key rs (iq_Column v))" "iq_Order v = Some d"
    and "rs_Dataset rs (iq_Options v) = Inr rows"
    and "\<And>r. r \<in> set rows \<Longrightarrow> rs_Key rs (iq_Column v) r = Some t"
    and "small_size (page_size (rs_DefaultSize rs) (iq_PageSize v))"
    and "unat (page_size (rs_DefaultSize rs) (iq_PageSize v)) < length rows"
    and "\<not> cq_Reverse v" "cq_PaginationID v = None \<or> cq_PaginationID v = Some t"
      "cq_Bottom v = None \<or> cq_Bottom v = Some t"
  shows "Iterate fuel (repository_Paginate rs) (ColumnPaginated v) = None"
  using assms
proof (induction fuel arbitrary: v)
  case 0
  then show ?case by simp
next
  case (Suc fuel)
  let ?v = "v\<lparr>cq_Bottom := Some t, cq_PaginationID := Some t\<rparr>"
  obtain c where c: "column_page rs v = Inr c" "cu_HasMore c" "cu_Next c = Some (ColumnPaginated ?v)"
    using tied_page [OF Suc.prems] by blast
  have "Iterate fuel (repository_Paginate rs) (ColumnPaginated ?v) = None"
    by (rule Suc.IH) (use Suc.prems in simp_all)
  then show ?case using c by (simp add: repository_column)
qed

text \<open>
  Claim C26. Rows that share an identifier can be more than a page, and then the pages never end: when
  every row of a query has the same identifier and there are more of them than the page size, the next
  query is the same again, and no number of pages is enough. Dates, which transactions and accounts can
  be sorted by, are such identifiers.
\<close>

theorem ties_never_end:
  fixes rs :: "('r, 'o) repository" and v :: "'o initial_query"
  defines "w \<equiv> with_defaults rs v"
  assumes field: "GetFieldByNameOrAlias (rs_Schema rs) (iq_Column w) = Some (iq_Column w, f)"
    "fd_IsPaginated f" "type_IsPaginated (fd_Type f)"
    and order: "rs_OrderBy rs (iq_Column w) = order_rows (rs_Key rs (iq_Column w))" "iq_Order w = Some d"
    and rows: "rs_Dataset rs (iq_Options w) = Inr rows"
      "\<And>r. r \<in> set rows \<Longrightarrow> rs_Key rs (iq_Column w) r = Some t"
    and size: "small_size (iq_PageSize w)" "unat (iq_PageSize w) < length rows"
  shows "Iterate fuel (repository_Paginate rs) (InitialPaginated v) = None"
proof -
  let ?v = "initial_query.extend w \<lparr>cq_Bottom = None, cq_PaginationID = None, cq_Reverse = False\<rparr>"
  have s: "page_size (rs_DefaultSize rs) (iq_PageSize w) = iq_PageSize w"
    using size(1) by (auto simp: page_size_def small_size_def)
  have "Iterate fuel (repository_Paginate rs) (ColumnPaginated ?v) = None"
    by (rule tied_pages_loop [where t = t])
      (use field(1) order rows size in \<open>simp_all add: extended_columns s\<close>, simp_all add: initial_query.defs)
  then show ?thesis
    using first_column_page field unfolding w_def
    by (subst Iterate_first [of _ _ "ColumnPaginated ?v"]) (simp_all add: repository_column w_def)
qed

lemma timestamp_field:
  "GetFieldByNameOrAlias TransactionSchema ''timestamp'' = Some (''timestamp'', Paginated (NewField TypeDate))"
  "GetFieldByNameOrAlias TransactionSchema ''reverted_at'' = Some (''reverted_at'', Paginated (NewField TypeDate))"
  by (simp_all add: GetFieldByNameOrAlias_def schema_defs)

theorem ties_never_end_witness:
  "Iterate 1000 (repository_Paginate (sample_repository TransactionSchema (\<lambda>_. Some 7) [1, 2, 3 :: nat]))
     (InitialPaginated (first_query ''timestamp'' OrderDesc 2)) = None"
proof -
  let ?rs = "sample_repository TransactionSchema (\<lambda>_. Some 7) [1, 2, 3 :: nat]"
  let ?q = "first_query ''timestamp'' OrderDesc 2"
  have q: "with_defaults ?rs ?q = ?q"
    by (simp add: with_defaults_def first_query_def sample_repository_def)
  show ?thesis
    by (rule ties_never_end [where t = 7 and f = "Paginated (NewField TypeDate)" and d = OrderDesc
          and rows = "[1, 2, 3]"], unfold q)
      (simp_all add: first_query_def sample_repository_def timestamp_field small_two Paginated_def
        NewField_def)
qed

lemma those_None: "None \<in> set xs \<Longrightarrow> those xs = None"
proof (induction xs)
  case (Cons x xs)
  then show ?case by (cases x) auto
qed simp

text \<open>
  A page with a row that has no identifier panics. In descending order those rows come first, so that
  transactions cannot be sorted by the date of their revert while one of them is not reverted.
\<close>

lemma missing_identifiers_panic:
  fixes rs :: "('r, 'o) repository" and v :: "'o initial_query"
  defines "w \<equiv> with_defaults rs v"
  assumes field: "GetFieldByNameOrAlias (rs_Schema rs) (iq_Column w) = Some (iq_Column w, f)"
    "fd_IsPaginated f" "type_IsPaginated (fd_Type f)"
    and order: "rs_OrderBy rs (iq_Column w) = order_rows (rs_Key rs (iq_Column w))"
      "iq_Order w = Some OrderDesc"
    and rows: "rs_Dataset rs (iq_Options w) = Inr rows" "r \<in> set rows" "rs_Key rs (iq_Column w) r = None"
    and size: "small_size (iq_PageSize w)"
  shows "repository_Paginate rs (InitialPaginated v) = panic"
proof -
  let ?v = "initial_query.extend w \<lparr>cq_Bottom = None, cq_PaginationID = None, cq_Reverse = False\<rparr>"
  let ?key = "rs_Key rs (iq_Column w)" and ?n = "unat (iq_PageSize w)"
  let ?L = "order_rows ?key OrderDesc rows"
  have s: "page_size (rs_DefaultSize rs) (iq_PageSize w) = iq_PageSize w"
    using size by (auto simp: page_size_def small_size_def)
  have "List.filter (\<lambda>r. ?key r = None) rows \<noteq> []" using rows(2,3) by (auto simp: filter_empty_conv)
  then obtain x xs where x: "List.filter (\<lambda>r. ?key r = None) rows = x # xs"
    by (cases "List.filter (\<lambda>r. ?key r = None) rows") auto
  then have "x \<in> set (List.filter (\<lambda>r. ?key r = None) rows)" by simp
  then have "?key x = None" by simp
  then have none: "those (map ?key (take (?n + 1) ?L)) = None"
    using x by (intro those_None) (simp add: order_rows_def Let_def)
  have "column_page rs ?v = column_BuildCursor (rs_DefaultSize rs) ?key ?v (take (?n + 1) ?L)"
    using field(1) order rows(1) small_sizes(2) [OF size]
    by (simp add: column_page_def column_Paginate_def run_select_def skip_rows_def limit_rows_def
      extended_columns s nat_add_distrib) (simp add: initial_query.defs satisfies_def)
  also have "\<dots> = panic"
    unfolding column_BuildCursor_def extended_columns order(2) option.case none by (simp add: Let_def)
  finally show ?thesis
    using first_column_page [OF field [unfolded w_def]] unfolding w_def by simp
qed

section \<open>The column of a cursor\<close>

text \<open>
  Only the column of a first query is checked: a first query is answered on a field of the
  schema that pages can be made of, but for every text there is an offset cursor that the repository
  takes and whose statement orders by that text. A cursor is not signed, so a client can write in the
  statement what it wants.
\<close>

lemma cursors_choose_their_column:
  assumes "choose_paginator rs (InitialPaginated v) = Inr q"
  shows "(case q of
       ColumnPaginated w \<Rightarrow> \<exists>name f. GetFieldByNameOrAlias (rs_Schema rs) (iq_Column w) = Some (name, f) \<and> fd_IsPaginated f
     | OffsetPaginated w \<Rightarrow> \<exists>name f. GetFieldByNameOrAlias (rs_Schema rs) (iq_Column w) = Some (name, f) \<and> fd_IsPaginated f
     | InitialPaginated _ \<Rightarrow> False) \<and>
    (\<exists>w s. choose_paginator rs (OffsetPaginated w) = Inr (OffsetPaginated w) \<and>
      offset_Paginate w = Inr s \<and> sl_OrderBy s = anything)"
proof
  show "case q of
       ColumnPaginated w \<Rightarrow> \<exists>name f. GetFieldByNameOrAlias (rs_Schema rs) (iq_Column w) = Some (name, f) \<and> fd_IsPaginated f
     | OffsetPaginated w \<Rightarrow> \<exists>name f. GetFieldByNameOrAlias (rs_Schema rs) (iq_Column w) = Some (name, f) \<and> fd_IsPaginated f
     | InitialPaginated _ \<Rightarrow> False"
    using assms
    by (auto simp: choose_paginator_def Let_def initial_query.defs split: option.splits if_splits)
  let ?w = "initial_query.extend (v\<lparr>iq_Column := anything, iq_Order := Some OrderAsc\<rparr>) \<lparr>oq_Offset = 0\<rparr>"
  have "choose_paginator rs (OffsetPaginated ?w) = Inr (OffsetPaginated ?w)"
    by (simp add: choose_paginator_def)
  moreover have "offset_Paginate ?w = Inr \<lparr>sl_OrderBy = anything, sl_Direction = OrderAsc, sl_Where = None,
      sl_Offset = 0, sl_Limit = (if iq_PageSize v = 0 then 0 else sint (iq_PageSize v + 1))\<rparr>"
    by (simp add: offset_Paginate_def initial_query.defs)
  ultimately show "\<exists>w s. choose_paginator rs (OffsetPaginated w) = Inr (OffsetPaginated w) \<and>
      offset_Paginate w = Inr s \<and> sl_OrderBy s = anything"
    by (metis select.select_convs(1))
qed

end
