(* ===== verification/Address_Filters.thy ===== *)
theory Address_Filters
  imports Query_Fields
begin

text \<open>
  Filters on the address of an account (\<open>internal/storage/ledger/utils.go\<close> and \<open>transactions.go\<close>):
  partial addresses, the SQL conditions they become on accounts and on the sources and destinations
  of transactions, and the optimisation that pushes the filters of a query into the join that looks
  for the segments of the account.

  An account row keeps its address and the list of its segments; a transaction row keeps the
  addresses of its sources and destinations and, for each, the object from the position of a
  segment to the segment, closed by a null. What a condition means on a row is what PostgreSQL
  computes: the length of a JSON array, a path that compares one segment, containment of objects.
\<close>

section \<open>Partial addresses\<close>

text \<open>\<open>strings.Join\<close> with a separator of several bytes.\<close>

fun join_text :: "string \<Rightarrow> string list \<Rightarrow> string" where
  "join_text sep [] = []"
| "join_text sep [s] = s"
| "join_text sep (s # t # ss) = s @ sep @ join_text sep (t # ss)"

abbreviation segments :: "string \<Rightarrow> string list" where
  "segments address \<equiv> split_on CHR '':'' address"

definition isPartialAddress :: "string \<Rightarrow> bool" where
  "isPartialAddress address =
     (let src = segments address in List.member src [] \<or> last src = ''...'')"

section \<open>Conditions on accounts\<close>

datatype address_condition = LengthIs nat | SegmentIs nat string | AddressIs string

definition filter_parts :: "string \<Rightarrow> address_condition list" where
  "filter_parts address =
     (if isPartialAddress address then
        (let src = segments address in
         (if last src \<noteq> [] then [LengthIs (length src)] else []) @
         map (\<lambda>(i, segment). SegmentIs i segment)
           (List.filter (\<lambda>(i, segment). segment \<noteq> [] \<and> segment \<noteq> ''...'') (enumerate 0 src)))
      else [AddressIs address])"

text \<open>The text of a condition; \<open>0x27\<close> is a quote and \<open>0x22\<close> a double quote.\<close>

fun condition_text :: "string \<Rightarrow> address_condition \<Rightarrow> string" where
  "condition_text key (LengthIs n) = ''jsonb_array_length('' @ key @ ''_array) = '' @ show_nat n"
| "condition_text key (SegmentIs i segment) =
     key @ ''_array @@ ('' @ [CHR 0x27] @ ''$['' @ show_nat i @ ''] == '' @ [CHR 0x22] @ segment @
     [CHR 0x22, CHR 0x27] @ '')::jsonpath''"
| "condition_text key (AddressIs address) = key @ '' = '' @ [CHR 0x27] @ address @ [CHR 0x27]"

definition filterAccountAddress :: "string \<Rightarrow> string \<Rightarrow> string" where
  "filterAccountAddress address key =
     (if filter_parts address = [] then ''1 = 1''
      else join_text '' and '' (map (condition_text key) (filter_parts address)))"

fun condition_holds :: "string \<Rightarrow> address_condition \<Rightarrow> bool" where
  "condition_holds account (LengthIs n) \<longleftrightarrow> length (segments account) = n"
| "condition_holds account (SegmentIs i segment) \<longleftrightarrow>
     i < length (segments account) \<and> segments account ! i = segment"
| "condition_holds account (AddressIs address) \<longleftrightarrow> account = address"

definition account_matches :: "string \<Rightarrow> string \<Rightarrow> bool" where
  "account_matches address account \<longleftrightarrow> list_all (condition_holds account) (filter_parts address)"

section \<open>Conditions on transactions\<close>

text \<open>The object of an address: its segments by position, and null after the last.\<close>

definition explodeAddress :: "string \<Rightarrow> (nat \<times> string option) list" where
  "explodeAddress address =
     (let parts = segments address in
      map (\<lambda>(i, part). (i, Some part)) (enumerate 0 parts) @ [(length parts, None)])"

text \<open>
  The object a partial address asks for. The loop stops at a last segment of dots and passes over
  empty segments.
\<close>

definition segment_object :: "string \<Rightarrow> (nat \<times> string option) list" where
  "segment_object address =
     (let src = segments address in
      map (\<lambda>(i, segment). (i, Some segment))
        (List.filter (\<lambda>(i, segment). segment \<noteq> [] \<and> \<not> (i = length src - 1 \<and> segment = ''...''))
          (enumerate 0 src)) @
      (if last src \<noteq> ''...'' then [(length src, None)] else []))"

datatype participants_condition =
    ParticipantIs string
  | ParticipantHas "(nat \<times> string option) list"

definition participants_filter :: "string \<Rightarrow> participants_condition" where
  "participants_filter address =
     (if isPartialAddress address then ParticipantHas (segment_object address) else ParticipantIs address)"

text \<open>
  \<open>filterAccountAddressOnTransactions\<close>: the condition is put on the sources, on the destinations, or
  on both with an \<open>or\<close>.
\<close>

definition filterAccountAddressOnTransactions ::
    "string \<Rightarrow> bool \<Rightarrow> bool \<Rightarrow> (string \<times> participants_condition) list" where
  "filterAccountAddressOnTransactions address source destination =
     (if source then [(''sources'', participants_filter address)] else []) @
     (if destination then [(''destinations'', participants_filter address)] else [])"

text \<open>Containment of an object in another, and of a condition in the addresses of a row.\<close>

definition object_contains :: "(nat \<times> string option) list \<Rightarrow> (nat \<times> string option) list \<Rightarrow> bool" where
  "object_contains whole part \<longleftrightarrow> list_all (\<lambda>(k, v). map_of whole k = Some v) part"

fun participant_holds :: "string \<Rightarrow> participants_condition \<Rightarrow> bool" where
  "participant_holds account (ParticipantIs address) \<longleftrightarrow> account = address"
| "participant_holds account (ParticipantHas pattern) \<longleftrightarrow> object_contains (explodeAddress account) pattern"

definition transaction_matches ::
    "(string \<times> participants_condition) list \<Rightarrow> string list \<Rightarrow> string list \<Rightarrow> bool" where
  "transaction_matches conditions sources destinations \<longleftrightarrow>
     list_ex (\<lambda>(column, c). list_ex (\<lambda>account. participant_holds account c)
       (if column = ''sources'' then sources else destinations)) conditions"

section \<open>Lists of addresses\<close>

definition assetAddressArray :: "any_value \<Rightarrow> string list checked" where
  "assetAddressArray v =
     (case v of
        ASlice vs \<Rightarrow>
          bindr (foldr_result (\<lambda>x acc. case x of AString s \<Rightarrow> Inr (acc @ [s]) | _ \<Rightarrow> panic) vs [])
            (\<lambda>addresses.
              case List.find isPartialAddress addresses of
                Some address \<Rightarrow> raise (PartialInList address)
              | None \<Rightarrow> Inr addresses)
      | _ \<Rightarrow> panic)"

definition stringArrayToPostgresArray :: "string list \<Rightarrow> string" where
  "stringArrayToPostgresArray xs =
     ''array['' @ rev (dropWhile (\<lambda>c. c = CHR '','') (rev (concat (replicate (length xs) ''?,'')))) @ '']''"

section \<open>Trees of filters\<close>

text \<open>
  The tree the library of filters parses. Its JSON has one operator per node; \<open>leaves\<close> are the leaves in
  the order of its walk.
\<close>

datatype filter_tree =
    FLeaf string string any_value
  | FAnd "filter_tree list"
  | FOr "filter_tree list"
  | FNot filter_tree

fun leaves :: "filter_tree \<Rightarrow> filter" where
  "leaves (FLeaf operator key value) = [(operator, key, value)]"
| "leaves (FAnd ts) = concat (map leaves ts)"
| "leaves (FOr ts) = concat (map leaves ts)"
| "leaves (FNot t) = leaves t"

text \<open>
  What a tree is on a row, in the logic of SQL where \<open>None\<close> is null. What the library makes of an empty
  list of conditions is the parameter \<open>empty_set\<close>.
\<close>

definition conjunction :: "bool option list \<Rightarrow> bool option" where
  "conjunction bs =
     (if List.member bs (Some False) then Some False else if List.member bs None then None else Some True)"

definition disjunction :: "bool option list \<Rightarrow> bool option" where
  "disjunction bs =
     (if List.member bs (Some True) then Some True else if List.member bs None then None else Some False)"

fun tree_holds :: "bool option \<Rightarrow> (leaf \<Rightarrow> bool option) \<Rightarrow> filter_tree \<Rightarrow> bool option" where
  "tree_holds empty_set holds (FLeaf operator key value) = holds (operator, key, value)"
| "tree_holds empty_set holds (FAnd ts) =
     (if ts = [] then empty_set else conjunction (map (tree_holds empty_set holds) ts))"
| "tree_holds empty_set holds (FOr ts) =
     (if ts = [] then empty_set else disjunction (map (tree_holds empty_set holds) ts))"
| "tree_holds empty_set holds (FNot t) = map_option Not (tree_holds empty_set holds t)"

section \<open>Pushing address filters into a join\<close>

definition isAddressKey :: "string \<Rightarrow> bool" where
  "isAddressKey key \<longleftrightarrow> key = ''address'' \<or> key = ''account''"

definition isLeafOperator :: "string \<Rightarrow> bool" where
  "isLeafOperator operator \<longleftrightarrow>
     List.member [OperatorMatch, OperatorGT, OperatorGTE, OperatorLT, OperatorLTE, OperatorLike,
       OperatorExists, OperatorIn] operator"

fun nodeContainsAddressFilter :: "filter_tree \<Rightarrow> bool" where
  "nodeContainsAddressFilter (FLeaf operator key value) \<longleftrightarrow> isLeafOperator operator \<and> isAddressKey key"
| "nodeContainsAddressFilter (FNot t) \<longleftrightarrow> nodeContainsAddressFilter t"
| "nodeContainsAddressFilter (FAnd ts) \<longleftrightarrow> list_ex nodeContainsAddressFilter ts"
| "nodeContainsAddressFilter (FOr ts) \<longleftrightarrow> list_ex nodeContainsAddressFilter ts"

fun isNodeSafeForLateral :: "filter_tree \<Rightarrow> bool \<Rightarrow> bool" where
  "isNodeSafeForLateral (FLeaf operator key value) insideNot \<longleftrightarrow>
     \<not> (isLeafOperator operator \<and> insideNot \<and> isAddressKey key)"
| "isNodeSafeForLateral (FNot t) insideNot \<longleftrightarrow> isNodeSafeForLateral t True"
| "isNodeSafeForLateral (FAnd ts) insideNot \<longleftrightarrow> list_all (\<lambda>t. isNodeSafeForLateral t insideNot) ts"
| "isNodeSafeForLateral (FOr ts) insideNot \<longleftrightarrow>
     (if insideNot then \<not> list_ex nodeContainsAddressFilter ts
      else if 1 < length ts \<and> list_ex nodeContainsAddressFilter ts \<and>
        list_ex (\<lambda>t. \<not> nodeContainsAddressFilter t) ts then False
      else list_all (\<lambda>t. isNodeSafeForLateral t insideNot) ts)"

definition canPushAddressFilterToLateral :: "filter_tree option \<Rightarrow> bool" where
  "canPushAddressFilterToLateral builder =
     (case builder of None \<Rightarrow> True | Some node \<Rightarrow> isNodeSafeForLateral node False)"

text \<open>The filters on the address of a query: those that are strings, and whether one is partial.\<close>

definition collectAddressFilters :: "(string \<times> any_value list) list \<Rightarrow> string list \<times> bool" where
  "collectAddressFilters filters =
     (let vs = (case map_of filters ''address'' of None \<Rightarrow> [] | Some vs \<Rightarrow> vs);
          addresses = List.map_filter (\<lambda>v. case v of AString s \<Rightarrow> Some s | _ \<Rightarrow> None) vs in
      (addresses, list_ex isPartialAddress addresses))"

definition buildAddressFilterForLateral :: "string list \<Rightarrow> string" where
  "buildAddressFilterForLateral addresses =
     (case addresses of
        [address] \<Rightarrow> filterAccountAddress address ''address''
      | _ \<Rightarrow> join_text '' OR '' (map (\<lambda>a. ''('' @ filterAccountAddress a ''address'' @ '')'') addresses))"

definition lateral_matches :: "string list \<Rightarrow> string \<Rightarrow> bool" where
  "lateral_matches addresses account \<longleftrightarrow> list_ex (\<lambda>a. account_matches a account) addresses"

text \<open>The accounts the join keeps.\<close>

definition applyLateralAddressFilter :: "string list \<Rightarrow> bool \<Rightarrow> string \<Rightarrow> bool" where
  "applyLateralAddressFilter addresses canPush account \<longleftrightarrow>
     (addresses \<noteq> [] \<and> canPush \<longrightarrow> lateral_matches addresses account)"

text \<open>
  The rows of a filtered dataset whose accounts are joined with (\<open>volumesResourceHandler.BuildDataset\<close>
  and the \<open>where\<close> of \<open>buildFilteredDataset\<close>): the join keeps an account or not before the filter runs. A row stands for
  one whose account is in the table of accounts: the join also drops the rows of accounts that are not there.
\<close>

definition dataset_rows :: "bool option \<Rightarrow> ('r \<Rightarrow> leaf \<Rightarrow> bool option) \<Rightarrow> ('r \<Rightarrow> string) \<Rightarrow>
    (string \<times> any_value list) list \<Rightarrow> filter_tree \<Rightarrow> 'r list \<Rightarrow> 'r list" where
  "dataset_rows empty_set holds account filters t rows =
     (let (addresses, needSegments) = collectAddressFilters filters;
          canPush = canPushAddressFilterToLateral (Some t);
          joined = (if needSegments
            then List.filter (\<lambda>r. applyLateralAddressFilter addresses canPush (account r)) rows
            else rows) in
      List.filter (\<lambda>r. tree_holds empty_set (holds r) t = Some True) joined)"

end
