(* ===== verification/Address_Claims.thy ===== *)
theory Address_Claims
  imports Address_Filters
begin

text \<open>
  The properties of address filters: what a partial address selects on accounts and on transactions,
  that an address is put in the statement as it is, and when pushing the filters into the join keeps
  the rows.
\<close>

section \<open>What a partial address selects\<close>

lemma list_all_enumerate:
  "list_all P (map f (List.filter Q (enumerate 0 xs))) \<longleftrightarrow>
     (\<forall>i < length xs. Q (i, xs ! i) \<longrightarrow> P (f (i, xs ! i)))"
  by (auto simp: list_all_iff in_set_enumerate_eq)

lemma account_matches_partial:
  assumes "isPartialAddress p"
  shows "account_matches p a \<longleftrightarrow>
    (last (segments p) \<noteq> [] \<longrightarrow> length (segments a) = length (segments p)) \<and>
    (\<forall>i < length (segments p). segments p ! i = [] \<or> segments p ! i = ''...'' \<or>
       i < length (segments a) \<and> segments a ! i = segments p ! i)"
  using assms
  by (auto simp: account_matches_def filter_parts_def Let_def list_all_enumerate split: if_splits)

lemma account_matches_full: "\<not> isPartialAddress p \<Longrightarrow> account_matches p a \<longleftrightarrow> a = p"
  by (simp add: account_matches_def filter_parts_def)

lemma exploded_lookup:
  "map_of (explodeAddress a) k =
     (if k < length (segments a) then Some (Some (segments a ! k))
      else if k = length (segments a) then Some None else None)"
proof -
  have "map_of (map (\<lambda>(i, part). (i, Some part)) (enumerate n xs)) k =
      (if n \<le> k \<and> k < n + length xs then Some (Some (xs ! (k - n))) else None)" for n and xs :: "string list"
    by (induction xs arbitrary: n) (auto simp: nth_Cons')
  from this [of 0 "segments a"] show ?thesis
    by (auto simp: explodeAddress_def Let_def map_add_def split: option.splits)
qed

lemma participant_holds_partial:
  assumes "isPartialAddress p"
  shows "participant_holds a (participants_filter p) \<longleftrightarrow>
    (last (segments p) \<noteq> ''...'' \<longrightarrow> length (segments a) = length (segments p)) \<and>
    (\<forall>i < length (segments p). segments p ! i = [] \<or> i = length (segments p) - 1 \<and> segments p ! i = ''...'' \<or>
       i < length (segments a) \<and> segments a ! i = segments p ! i)"
proof -
  have nil: "map_of (explodeAddress a) (length (segments p)) = Some None \<longleftrightarrow>
      length (segments a) = length (segments p)"
    by (auto simp: exploded_lookup)
  have at: "map_of (explodeAddress a) i = Some (Some s) \<longleftrightarrow> i < length (segments a) \<and> segments a ! i = s" for i s
    by (simp add: exploded_lookup)
  have entries: "list_all (\<lambda>(k, v). map_of (explodeAddress a) k = Some v)
      (map (\<lambda>(i, segment). (i, Some segment))
        (List.filter (\<lambda>(i, segment). segment \<noteq> [] \<and> \<not> (i = length (segments p) - 1 \<and> segment = ''...''))
          (enumerate 0 (segments p)))) \<longleftrightarrow>
    (\<forall>i < length (segments p). segments p ! i = [] \<or> i = length (segments p) - 1 \<and> segments p ! i = ''...'' \<or>
       i < length (segments a) \<and> segments a ! i = segments p ! i)"
    unfolding list_all_enumerate prod.case at by blast
  have "object_contains (explodeAddress a) (segment_object p) \<longleftrightarrow>
    (\<forall>i < length (segments p). segments p ! i = [] \<or> i = length (segments p) - 1 \<and> segments p ! i = ''...'' \<or>
       i < length (segments a) \<and> segments a ! i = segments p ! i) \<and>
    (last (segments p) \<noteq> ''...'' \<longrightarrow> length (segments a) = length (segments p))"
    unfolding object_contains_def segment_object_def Let_def list_all_append entries
    by (simp only: nil split: if_split) (simp add: nil)
  then show ?thesis using assms by (simp only: participants_filter_def if_True participant_holds.simps conj_commute)
qed

lemma partial_with_last:
  assumes "\<forall>s \<in> set ps. CHR '':'' \<notin> set s" and "q = [] \<or> q = ''...''"
  shows "segments (join_with CHR '':'' (ps @ [q])) = ps @ [q]"
    and "isPartialAddress (join_with CHR '':'' (ps @ [q]))"
proof -
  show s: "segments (join_with CHR '':'' (ps @ [q])) = ps @ [q]"
    using assms by (intro split_join) auto
  show "isPartialAddress (join_with CHR '':'' (ps @ [q]))"
    using assms(2) by (auto simp: isPartialAddress_def s Let_def )
qed

text \<open>
  Claim C29. A last segment that is empty and one of dots mean on accounts what the other means on
  transactions: dots ask for exactly one more segment on accounts and for any number on transactions,
  an empty segment the reverse.
\<close>

theorem trailing_dots_are_swapped:
  assumes "\<forall>s \<in> set ps. CHR '':'' \<notin> set s" and "''...'' \<notin> set ps"
  shows "(account_matches (join_with CHR '':'' (ps @ [''...''])) a \<longleftrightarrow>
      participant_holds a (participants_filter (join_with CHR '':'' (ps @ [[]])))) \<and>
    (account_matches (join_with CHR '':'' (ps @ [[]])) a \<longleftrightarrow>
      participant_holds a (participants_filter (join_with CHR '':'' (ps @ [''...''])))) \<and>
    (account_matches (join_with CHR '':'' (ps @ [''...''])) a \<longleftrightarrow>
      account_matches (join_with CHR '':'' (ps @ [[]])) a \<and> length (segments a) = length ps + 1)"
proof -
  let ?d = "join_with CHR '':'' (ps @ [''...''])" and ?e = "join_with CHR '':'' (ps @ [[]])"
  have d: "segments ?d = ps @ [''...'']" "isPartialAddress ?d"
    using partial_with_last [of ps "''...''"] assms(1) by simp_all
  have e: "segments ?e = ps @ [[]]" "isPartialAddress ?e"
    using partial_with_last [of ps "[]"] assms(1) by simp_all
  have ne: "ps ! i \<noteq> ''...''" if "i < length ps" for i using assms(2) that by (metis nth_mem)
  have all: "(\<forall>i < length (ps @ [q]). Q i) \<longleftrightarrow> (\<forall>i < length ps. Q i) \<and> Q (length ps)" for q :: string and Q
    by (auto simp: less_Suc_eq)
  note forms = account_matches_partial [OF d(2)] account_matches_partial [OF e(2)]
    participant_holds_partial [OF d(2)] participant_holds_partial [OF e(2)] d(1) e(1) all
  have "account_matches ?d a \<longleftrightarrow> participant_holds a (participants_filter ?e)"
    unfolding forms using ne by (auto simp: nth_append)
  moreover have "account_matches ?e a \<longleftrightarrow> participant_holds a (participants_filter ?d)"
    unfolding forms using ne by (auto simp: nth_append)
  moreover have "account_matches ?d a \<longleftrightarrow> account_matches ?e a \<and> length (segments a) = length ps + 1"
    unfolding forms using ne by (auto simp: nth_append)
  ultimately show ?thesis by blast
qed

theorem trailing_dots_are_swapped_witness:
  "\<not> account_matches ''users:...'' ''users:1:main'' \<and>
   participant_holds ''users:1:main'' (participants_filter ''users:...'')"
proof -
  have "''users:...'' = join_with CHR '':'' [''users'', ''...'']" by simp
  moreover have "account_matches (join_with CHR '':'' [''users'', []]) ''users:1:main''"
    by (simp add: account_matches_def filter_parts_def isPartialAddress_def enumerate_simps)
  ultimately show ?thesis
    using trailing_dots_are_swapped [of "[''users'']" "''users:1:main''"] by auto
qed

section \<open>Addresses in statements\<close>

text \<open>A text that ends the quoted address, puts a condition in the statement and opens the quote again.\<close>

definition escaping :: "string \<Rightarrow> string" where
  "escaping sql = [CHR 0x27] @ '' or '' @ sql @ '' or '' @ [CHR 0x27, CHR 0x27] @ '' = '' @ [CHR 0x27]"

text \<open>
  Claim C30. An address is put in the statement as it is: for every condition without a colon there is an
  address the validation of filters accepts whose filter is a disjunction with that condition.
\<close>

theorem addresses_are_written_as_they_are:
  assumes "CHR '':'' \<notin> set sql"
  shows "validate_leaf ql AccountSchema (OperatorMatch, ''address'', AString (escaping sql)) = Inr ''address'' \<and>
    filterAccountAddress (escaping sql) ''address'' =
      ''address = '' @ [CHR 0x27, CHR 0x27] @ '' or '' @ sql @ '' or '' @
      [CHR 0x27, CHR 0x27] @ '' = '' @ [CHR 0x27, CHR 0x27]"
proof
  show "validate_leaf ql AccountSchema (OperatorMatch, ''address'', AString (escaping sql)) = Inr ''address''"
    by (simp add: validate_leaf_def schema_defs match_property_def MatchKey_def operator_defs)
  have "segments (escaping sql) = [escaping sql]"
    using assms by (intro split_on_no_sep) (simp add: escaping_def)
  then have "\<not> isPartialAddress (escaping sql)"
    by (simp add: isPartialAddress_def Let_def escaping_def)
  then show "filterAccountAddress (escaping sql) ''address'' =
      ''address = '' @ [CHR 0x27, CHR 0x27] @ '' or '' @ sql @ '' or '' @
      [CHR 0x27, CHR 0x27] @ '' = '' @ [CHR 0x27, CHR 0x27]"
    by (simp add: filterAccountAddress_def filter_parts_def) (simp add: escaping_def)
qed

theorem addresses_are_written_as_they_are_witness:
  "filterAccountAddress (escaping ''pg_sleep(10) is null'') ''address'' =
     ''address = '' @ [CHR 0x27, CHR 0x27] @ '' or pg_sleep(10) is null or '' @
     [CHR 0x27, CHR 0x27] @ '' = '' @ [CHR 0x27, CHR 0x27]"
  using addresses_are_written_as_they_are [of "''pg_sleep(10) is null''"] by simp

section \<open>Filters in a join\<close>

lemma safe_inside_not: "isNodeSafeForLateral t True \<Longrightarrow> \<not> nodeContainsAddressFilter t"
  by (induction t) (auto simp: list_all_iff list_ex_iff)

lemma conjunction_True: "conjunction bs = Some True \<longleftrightarrow> (\<forall>b \<in> set bs. b = Some True)"
  by (auto simp: conjunction_def) (metis (full_types) not_Some_eq)

lemma disjunction_True: "disjunction bs = Some True \<longleftrightarrow> Some True \<in> set bs"
  by (auto simp: disjunction_def)

lemma safe_tree_has_address:
  assumes "isNodeSafeForLateral t False" and "nodeContainsAddressFilter t"
    and "tree_holds empty_set holds t = Some True"
  shows "\<exists>operator key v. (operator, key, v) \<in> set (leaves t) \<and> isAddressKey key \<and>
    holds (operator, key, v) = Some True"
  using assms
proof (induction t)
  case (FLeaf operator key v)
  then show ?case by auto
next
  case (FNot t)
  then show ?case using safe_inside_not [of t] by simp
next
  case (FAnd ts)
  obtain t where t: "t \<in> set ts" "nodeContainsAddressFilter t"
    using FAnd.prems(2) by (auto simp: list_ex_iff)
  moreover have "isNodeSafeForLateral t False" using FAnd.prems(1) t(1) by (simp add: list_all_iff)
  moreover have "tree_holds empty_set holds t = Some True"
    using FAnd.prems(3) t(1) by (auto simp: conjunction_True split: if_splits)
  ultimately show ?case using FAnd.IH [of t] by fastforce
next
  case (FOr ts)
  obtain u where u: "u \<in> set ts" "nodeContainsAddressFilter u"
    using FOr.prems(2) by (auto simp: list_ex_iff)
  obtain t where t: "t \<in> set ts" "tree_holds empty_set holds t = Some True"
    using FOr.prems(3) u(1) by (auto simp: disjunction_True split: if_splits)
  have safe: "isNodeSafeForLateral t False"
    using FOr.prems(1) t(1) by (auto simp: list_all_iff split: if_splits)
  have "nodeContainsAddressFilter t"
  proof (rule ccontr)
    assume no: "\<not> nodeContainsAddressFilter t"
    then have "t \<noteq> u" using u(2) by auto
    then have "1 < length ts" using t(1) u(1) by (cases ts; cases "tl ts") auto
    then show False using FOr.prems(1) t(1) u no by (auto simp: list_ex_iff split: if_splits)
  qed
  then show ?case using FOr.IH [OF t(1) safe _ t(2)] t(1) by fastforce
qed

text \<open>The values the validation collects for a property.\<close>

definition collected :: "(string \<times> any_value list) list \<Rightarrow> string \<Rightarrow> any_value list" where
  "collected filters name = (case map_of filters name of None \<Rightarrow> [] | Some vs \<Rightarrow> vs)"

lemma collected_add: "collected (add_filter name v filters) n = collected filters n @ (if n = name then [v] else [])"
  by (simp add: collected_def add_filter_def alist_simps)

lemma validateFilters_collects:
  assumes "validateFilters ql schema ls = Inr filters"
  shows "collected filters n = map (\<lambda>l. snd (snd l)) (List.filter (\<lambda>l. validate_leaf ql schema l = Inr n) ls)"
proof -
  have "collected ret n = collected r n @
      map (\<lambda>l. snd (snd l)) (List.filter (\<lambda>l. validate_leaf ql schema l = Inr n) ls)"
    if "foldr_result (\<lambda>l ret. bindr (validate_leaf ql schema l) (\<lambda>name.
       Inr (add_filter name (snd (snd l)) ret))) ls r = Inr ret" for r ret
    using that
    by (induction ls arbitrary: r) (auto simp: result_simps collected_add)
  from this [of "[]" filters] assms show ?thesis
    by (simp add: validateFilters_def collected_def)
qed

lemma volume_property:
  "List.find (match_property key) VolumeSchema =
     (if isAddressKey key then Some (hd VolumeSchema) else List.find (match_property key) (tl VolumeSchema))"
  by (auto simp: VolumeSchema_def match_property_def MatchKey_def isAddressKey_def NewField_def Paginated_def
    WithAliases_def)

lemma other_volume_property:
  "List.find (match_property key) (tl VolumeSchema) = Some (name, f) \<Longrightarrow> name \<noteq> ''address''"
  by (auto simp: find_Some_iff VolumeSchema_def nth_Cons' split: if_splits)

lemma volume_leaf:
  "validate_leaf ql VolumeSchema (operator, key, v) = Inr ''address'' \<longleftrightarrow>
     isAddressKey key \<and> List.member (field_Operators TypeString) operator \<and> ValidateValue ql TypeString operator v"
proof (cases "isAddressKey key")
  case True
  have "hd VolumeSchema = (''address'', \<lparr>fd_Aliases = [''account''], fd_Type = TypeString, fd_IsPaginated = True\<rparr>)"
    by (simp add: schema_defs)
  then show ?thesis
    using True by (simp add: validate_leaf_def volume_property del: field_Operators.simps ValidateValue.simps)
next
  case False
  then show ?thesis
    using other_volume_property [of key]
    by (auto simp: validate_leaf_def volume_property simp del: field_Operators.simps ValidateValue.simps
      split: option.split)
qed

lemma volume_leaf_name:
  assumes "isAddressKey key" and "validate_leaf ql VolumeSchema (operator, key, v) = Inr n"
  shows "n = ''address''"
proof -
  have "fst (hd VolumeSchema) = ''address''" by (simp add: VolumeSchema_def)
  then show ?thesis
    using assms by (simp add: validate_leaf_def volume_property split: prod.splits if_splits)
qed

lemma collect_strings: "a \<in> set (List.map_filter (\<lambda>v. case v of AString s \<Rightarrow> Some s | _ \<Rightarrow> None) vs) \<longleftrightarrow> AString a \<in> set vs"
  by (induction vs) (auto simp: List.map_filter_simps split: any_value.splits)

lemma filter_implied: "(\<And>r. r \<in> set rows \<Longrightarrow> T r \<Longrightarrow> A r) \<Longrightarrow> List.filter T (List.filter A rows) = List.filter T rows"
  by (induction rows) auto

text \<open>
  Claim C27. Where no filter on the address is \<open>$in\<close>, pushing the address filters of a valid query into the
  join keeps the rows: the dataset is the rows on which the filter is true, whatever an empty set of
  conditions means and with conditions that may be null.
\<close>

theorem pushing_address_filters_keeps_the_rows:
  assumes valid: "validateFilters ql VolumeSchema (leaves t) = Inr filters"
    and no_in: "\<And>key v. (OperatorIn, key, v) \<in> set (leaves t) \<Longrightarrow> \<not> isAddressKey key"
    and on_address: "\<And>r operator key address. r \<in> set rows \<Longrightarrow>
      (operator, key, AString address) \<in> set (leaves t) \<Longrightarrow> isAddressKey key \<Longrightarrow>
      holds r (operator, key, AString address) = Some (account_matches address (account r))"
  shows "dataset_rows empty_set holds account filters t rows =
    List.filter (\<lambda>r. tree_holds empty_set (holds r) t = Some True) rows"
proof -
  let ?addresses = "fst (collectAddressFilters filters)"
  let ?T = "\<lambda>r. tree_holds empty_set (holds r) t = Some True"
  have leaf: "validate_leaf ql VolumeSchema l \<noteq> Inl e" if "l \<in> set (leaves t)" for l e
    using validateFilters_Inr [of ql VolumeSchema "leaves t"] valid that by fastforce
  have addresses: "a \<in> set ?addresses \<longleftrightarrow> AString a \<in> set (collected filters ''address'')" for a
    by (simp only: collectAddressFilters_def collected_def Let_def fst_conv collect_strings)
  have from_leaf: "\<exists>operator key. (operator, key, AString a) \<in> set (leaves t) \<and> isAddressKey key \<and>
      isLeafOperator operator" if a: "a \<in> set ?addresses" for a
  proof -
    obtain operator key where l: "(operator, key, AString a) \<in> set (leaves t)"
      "validate_leaf ql VolumeSchema (operator, key, AString a) = Inr ''address''"
      using a unfolding addresses validateFilters_collects [OF valid] by auto
    then show ?thesis unfolding volume_leaf by (auto simp: isLeafOperator_def)
  qed
  have contains: "nodeContainsAddressFilter t" if a: "?addresses \<noteq> []"
  proof -
    have "nodeContainsAddressFilter u" if "(operator, key, v) \<in> set (leaves u)" "isAddressKey key"
      "isLeafOperator operator" for operator key v u
      using that by (induction u) (auto simp: list_ex_iff)
    moreover obtain operator key where "(operator, key, AString (hd ?addresses)) \<in> set (leaves t)"
      "isAddressKey key" "isLeafOperator operator"
      using from_leaf [of "hd ?addresses"] a by auto
    ultimately show ?thesis by blast
  qed
  have kept: "applyLateralAddressFilter ?addresses (canPushAddressFilterToLateral (Some t)) (account r)"
    if r: "r \<in> set rows" and T: "?T r" for r
    unfolding applyLateralAddressFilter_def
  proof
    assume push: "?addresses \<noteq> [] \<and> canPushAddressFilterToLateral (Some t)"
    then have safe: "isNodeSafeForLateral t False"
      by (simp add: canPushAddressFilterToLateral_def)
    obtain operator key v where l: "(operator, key, v) \<in> set (leaves t)" "isAddressKey key"
      "holds r (operator, key, v) = Some True"
      using safe_tree_has_address [OF safe contains T] push by blast
    obtain n where n: "validate_leaf ql VolumeSchema (operator, key, v) = Inr n"
      using leaf [OF l(1)] by (cases "validate_leaf ql VolumeSchema (operator, key, v)") auto
    then have "n = ''address''"
      using volume_leaf_name [OF l(2)] by blast
    then have v: "validate_leaf ql VolumeSchema (operator, key, v) = Inr ''address''" using n by simp
    then have "ValidateValue ql TypeString operator v" unfolding volume_leaf by blast
    moreover have "operator \<noteq> OperatorIn" using no_in l(1,2) by blast
    ultimately obtain a where a: "v = AString a" by (cases v) simp_all
    have "a \<in> set ?addresses"
      unfolding addresses validateFilters_collects [OF valid] using l(1) v a by force
    moreover have "account_matches a (account r)"
      using on_address [OF r l(1) [unfolded a] l(2)] l(3) a by simp
    ultimately show "lateral_matches ?addresses (account r)"
      by (auto simp: lateral_matches_def list_ex_iff)
  qed
  have "List.filter ?T (List.filter (\<lambda>r. applyLateralAddressFilter ?addresses
      (canPushAddressFilterToLateral (Some t)) (account r)) rows) = List.filter ?T rows"
    using kept by (rule filter_implied)
  then show ?thesis by (simp only: dataset_rows_def case_prod_beta Let_def split: if_split)  simp
qed

text \<open>What the leaves on an address are on an account: a text and a list of texts.\<close>

definition address_leaf_holds :: "string \<Rightarrow> leaf \<Rightarrow> bool option" where
  "address_leaf_holds account l =
     (case snd (snd l) of
        AString address \<Rightarrow> Some (account_matches address account)
      | ASlice vs \<Rightarrow> Some (List.member vs (AString account))
      | _ \<Rightarrow> None)"

definition sample_libs :: query_libs where
  "sample_libs = \<lparr>ql_ParseTime = \<lambda>_. None, ql_UnmarshalTime = \<lambda>_. None, ql_ToSnake = id, ql_int64 = floor\<rparr>"

theorem pushing_address_filters_keeps_the_rows_witness:
  "dataset_rows None address_leaf_holds id [(''address'', [AString ''users:'', AString ''world''])]
     (FOr [FLeaf OperatorMatch ''address'' (AString ''users:''), FLeaf OperatorMatch ''account'' (AString ''world'')])
     [''users:1'', ''bank'', ''world''] = [''users:1'', ''world'']"
proof -
  let ?t = "FOr [FLeaf OperatorMatch ''address'' (AString ''users:''), FLeaf OperatorMatch ''account'' (AString ''world'')]"
  have "validateFilters sample_libs VolumeSchema (leaves ?t) = Inr [(''address'', [AString ''users:'', AString ''world''])]"
    by (simp add: validateFilters_def validate_leaf_def schema_defs match_property_def MatchKey_def operator_defs
      add_filter_def)
  then have "dataset_rows None address_leaf_holds id [(''address'', [AString ''users:'', AString ''world''])] ?t
      [''users:1'', ''bank'', ''world''] =
    List.filter (\<lambda>r. tree_holds None (address_leaf_holds r) ?t = Some True) [''users:1'', ''bank'', ''world'']"
    by (rule pushing_address_filters_keeps_the_rows) (auto simp: operator_defs address_leaf_holds_def)
  then show ?thesis
    by (simp add: disjunction_def address_leaf_holds_def account_matches_def filter_parts_def isPartialAddress_def
      enumerate_simps)
qed

text \<open>
  Claim C28. With \<open>$in\<close> the optimisation loses rows: for a partial address and an account it does not
  select, the alternative of the two is a valid query that is true on the account and that is said to
  be safe, but the join drops the account, which is only looked for among the addresses that are texts.
\<close>

theorem in_filters_lose_rows:
  assumes "isPartialAddress p" and "\<not> account_matches p a"
  defines "t \<equiv> FOr [FLeaf OperatorMatch ''address'' (AString p), FLeaf OperatorIn ''address'' (ASlice [AString a])]"
  shows "canPushAddressFilterToLateral (Some t) \<and> tree_holds None (address_leaf_holds a) t = Some True \<and>
    (\<exists>filters. validateFilters ql VolumeSchema (leaves t) = Inr filters \<and>
       dataset_rows None address_leaf_holds id filters t [a] = [])"
proof (intro conjI exI)
  show "canPushAddressFilterToLateral (Some t)"
    by (simp add: t_def canPushAddressFilterToLateral_def isAddressKey_def isLeafOperator_def)
  show "tree_holds None (address_leaf_holds a) t = Some True"
    by (simp add: t_def disjunction_def address_leaf_holds_def)
  show "validateFilters ql VolumeSchema (leaves t) = Inr [(''address'', [AString p, ASlice [AString a]])]"
    by (simp add: t_def validateFilters_def validate_leaf_def schema_defs match_property_def MatchKey_def
      operator_defs add_filter_def)
  have "collectAddressFilters [(''address'', [AString p, ASlice [AString a]])] = ([p], True)"
    using assms(1) by (simp add: collectAddressFilters_def List.map_filter_simps)
  then show "dataset_rows None address_leaf_holds id [(''address'', [AString p, ASlice [AString a]])] t [a] = []"
    using \<open>canPushAddressFilterToLateral (Some t)\<close> assms(2)
    by (simp add: dataset_rows_def applyLateralAddressFilter_def lateral_matches_def)
qed

theorem in_filters_lose_rows_witness:
  "\<exists>filters. dataset_rows None address_leaf_holds id filters
     (FOr [FLeaf OperatorMatch ''address'' (AString ''users:''),
       FLeaf OperatorIn ''address'' (ASlice [AString ''world''])]) [''world''] = [] \<and>
   tree_holds None (address_leaf_holds ''world'')
     (FOr [FLeaf OperatorMatch ''address'' (AString ''users:''),
       FLeaf OperatorIn ''address'' (ASlice [AString ''world''])]) = Some True"
proof -
  have "isPartialAddress ''users:''" "\<not> account_matches ''users:'' ''world''"
    by (simp_all add: isPartialAddress_def account_matches_def filter_parts_def enumerate_simps)
  from in_filters_lose_rows [OF this] show ?thesis by blast
qed

end
