(* ===== verification/Resource_Filters.thy ===== *)
theory Resource_Filters
  imports Address_Filters
begin

text \<open>
  What the leaves of a filter become in the statement of each resource
  (\<open>internal/storage/ledger/resource_*.go\<close>): the text of a condition and its arguments, or, for the balance
  of an account, a query of its own. A leaf comes here after the validation of \<open>Query_Fields\<close>. Whether
  the ledger has the history of moves is an argument.
\<close>

section \<open>Conditions\<close>

datatype sql_arg =
    ArgValue any_value
  | ArgText string
  | ArgIn "string list"
  | ArgInValue any_value
  | ArgMetadata string any_value

text \<open>
  The query of a balance: from the moves up to a date or from the volumes of the accounts, of one asset or
  of all, and the comparison with a value.
\<close>

record balance_query =
  bq_PIT :: "int option"
  bq_Asset :: "string option"
  bq_Comparison :: string
  bq_Value :: any_value

datatype resolved =
    Where string "sql_arg list"
  | WhereParticipants "(string \<times> participants_condition) list"
  | WhereBalance balance_query

definition ConvertOperatorToSQL :: "string \<Rightarrow> string checked" where
  "ConvertOperatorToSQL operator =
     (if operator = OperatorMatch then Inr ''=''
      else if operator = OperatorLT then Inr ''<''
      else if operator = OperatorGT then Inr ''>''
      else if operator = OperatorLTE then Inr ''<=''
      else if operator = OperatorGTE then Inr ''>=''
      else if operator = OperatorLike then Inr ''like''
      else panic)"

definition compare_column :: "string \<Rightarrow> string \<Rightarrow> any_value \<Rightarrow> resolved checked" where
  "compare_column column operator value =
     bindr (ConvertOperatorToSQL operator) (\<lambda>op.
       Inr (Where (column @ '' '' @ op @ '' ?'') [ArgValue value]))"

definition as_string :: "any_value \<Rightarrow> string checked" where
  "as_string v = (case v of AString s \<Rightarrow> Inr s | _ \<Rightarrow> panic)"

section \<open>Indexed properties\<close>

text \<open>
  The first submatch of the unanchored expressions \<open>metadata\[(.+)]\<close> and \<open>balance\[(.*)]\<close>: after the first
  place of the name where it matches, the longest text of at least \<open>least\<close> characters before a closing
  bracket, on one line.
\<close>

definition last_index :: "char \<Rightarrow> string \<Rightarrow> nat option" where
  "last_index c s = (if List.member s c then Some (length s - 1 - length (takeWhile (\<lambda>x. x \<noteq> c) (rev s))) else None)"

definition capture :: "nat \<Rightarrow> string \<Rightarrow> string option" where
  "capture least s =
     (let line = takeWhile (\<lambda>c. c \<noteq> CHR 0x0A) s in
      case last_index CHR '']'' line of
        Some n \<Rightarrow> if least \<le> n then Some (take n line) else None
      | None \<Rightarrow> None)"

fun FindSubmatch :: "string \<Rightarrow> nat \<Rightarrow> string \<Rightarrow> string option" where
  "FindSubmatch name least [] = None"
| "FindSubmatch name least (c # cs) =
     (case (if take (length name + 1) (c # cs) = name @ ''[''
        then capture least (drop (length name + 1) (c # cs)) else None) of
        Some i \<Rightarrow> Some i
      | None \<Rightarrow> FindSubmatch name least cs)"

definition metadata_index :: "string \<Rightarrow> string option" where
  "metadata_index property = FindSubmatch ''metadata'' 1 property"

definition balance_index :: "string \<Rightarrow> string option" where
  "balance_index property = FindSubmatch ''balance'' 0 property"

definition metadata_filter :: "string \<Rightarrow> any_value \<Rightarrow> resolved checked" where
  "metadata_filter property value =
     (if property = ''metadata'' then Inr (Where ''metadata -> ? is not null'' [ArgValue value])
      else (case metadata_index property of
          Some key \<Rightarrow> Inr (Where ''metadata @> ?'' [ArgMetadata key value])
        | None \<Rightarrow> raise (UnsupportedFilter property)))"

section \<open>Resources\<close>

text \<open>A condition on an address column: \<open>$in\<close> takes full addresses, every other operator is a match.\<close>

definition address_filter :: "string \<Rightarrow> string \<Rightarrow> any_value \<Rightarrow> resolved checked" where
  "address_filter column operator value =
     (if operator = OperatorIn
      then bindr (assetAddressArray value) (\<lambda>addresses. Inr (Where (column @ '' IN (?)'') [ArgIn addresses]))
      else bindr (as_string value) (\<lambda>address. Inr (Where (filterAccountAddress address column) [])))"

definition logs_ResolveFilter :: "string \<Rightarrow> string \<Rightarrow> any_value \<Rightarrow> resolved checked" where
  "logs_ResolveFilter operator property value =
     (if property = ''date'' \<or> property = ''id'' \<or> property = ''type''
      then compare_column property operator value
      else raise (UnsupportedFilter property))"

definition schemas_ResolveFilter :: "string \<Rightarrow> string \<Rightarrow> any_value \<Rightarrow> resolved checked" where
  "schemas_ResolveFilter operator property value =
     (if property = ''version'' \<or> property = ''created_at''
      then compare_column property operator value
      else raise (UnsupportedFilter property))"

definition accounts_ResolveFilter ::
    "bool \<Rightarrow> int option \<Rightarrow> string \<Rightarrow> string \<Rightarrow> any_value \<Rightarrow> resolved checked" where
  "accounts_ResolveFilter movesHistory pit operator property value =
     (if property = ''address'' \<or> property = ''account'' then address_filter ''address'' operator value
      else if property = ''first_usage'' \<or> property = ''insertion_date'' \<or> property = ''updated_at''
      then compare_column property operator value
      else if balance_index property \<noteq> None \<or> property = ''balance'' then
        (if pit \<noteq> None \<and> pit \<noteq> Some 0 \<and> \<not> movesHistory then raise (MissingFeature ''MOVES_HISTORY'')
         else bindr (ConvertOperatorToSQL operator) (\<lambda>op.
           Inr (WhereBalance \<lparr>bq_PIT = (if pit = Some 0 then None else pit), bq_Asset = balance_index property,
             bq_Comparison = ''balance '' @ op @ '' ?'', bq_Value = value\<rparr>)))
      else metadata_filter property value)"

definition participants_in :: "bool \<Rightarrow> bool \<Rightarrow> string list \<Rightarrow> resolved" where
  "participants_in source destination addresses =
     (let placeholder = stringArrayToPostgresArray addresses;
          args = map ArgText addresses;
          sources = ''sources '' @ [CHR 0x5C] @ ''?| '' @ placeholder;
          destinations = ''destinations '' @ [CHR 0x5C] @ ''?| '' @ placeholder in
      if source \<and> destination then Where (sources @ '' OR '' @ destinations) (args @ args)
      else if source then Where sources args
      else Where destinations args)"

definition participants_resolve :: "bool \<Rightarrow> bool \<Rightarrow> string \<Rightarrow> any_value \<Rightarrow> resolved checked" where
  "participants_resolve source destination operator value =
     (if operator = OperatorIn
      then bindr (assetAddressArray value) (\<lambda>addresses. Inr (participants_in source destination addresses))
      else bindr (as_string value) (\<lambda>address.
        Inr (WhereParticipants (filterAccountAddressOnTransactions address source destination))))"

definition transactions_ResolveFilter :: "string \<Rightarrow> string \<Rightarrow> any_value \<Rightarrow> resolved checked" where
  "transactions_ResolveFilter operator property value =
     (if property = ''id'' then compare_column ''id'' operator value
      else if property = ''reference'' then
        (if operator = OperatorIn then Inr (Where ''reference IN (?)'' [ArgInValue value])
         else compare_column ''reference'' operator value)
      else if property = ''timestamp'' \<or> property = ''inserted_at'' \<or> property = ''updated_at''
      then compare_column property operator value
      else if property = ''reverted'' then
        (case value of
           ABool b \<Rightarrow> Inr (Where (''dataset.reverted_at is'' @ (if b then '' not'' else []) @ '' null'') [])
         | _ \<Rightarrow> panic)
      else if property = ''reverted_at'' then compare_column ''dataset.reverted_at'' operator value
      else if property = ''account'' then participants_resolve True True operator value
      else if property = ''source'' then participants_resolve True False operator value
      else if property = ''destination'' then participants_resolve False True operator value
      else metadata_filter property value)"

definition volumes_ResolveFilter :: "string \<Rightarrow> string \<Rightarrow> any_value \<Rightarrow> resolved checked" where
  "volumes_ResolveFilter operator property value =
     (if property = ''address'' \<or> property = ''account'' then address_filter ''account'' operator value
      else if property = ''first_usage'' then compare_column ''first_usage'' operator value
      else if balance_index property \<noteq> None \<or> property = ''balance'' then
        bindr (ConvertOperatorToSQL operator) (\<lambda>op.
          let clauses = (''balance '' @ op @ '' ?'') #
                (if balance_index property \<noteq> None then [''asset = ?''] else []);
              args = ArgValue value # (case balance_index property of Some a \<Rightarrow> [ArgText a] | None \<Rightarrow> []) in
          Inr (Where (''('' @ join_text '') and ('' clauses @ '')'') args))
      else metadata_filter property value)"

definition aggregated_ResolveFilter :: "string \<Rightarrow> string \<Rightarrow> any_value \<Rightarrow> resolved checked" where
  "aggregated_ResolveFilter operator property value =
     (if property = ''address'' then address_filter ''accounts_address'' operator value
      else metadata_filter property value)"

section \<open>The resources that are read\<close>

definition AggregatedBalanceSchema :: entity_schema where
  "AggregatedBalanceSchema =
     [(''address'', Paginated (NewField TypeString)), (''metadata'', NewField (TypeMap TypeString))]"

definition SchemaSchema :: entity_schema where
  "SchemaSchema =
     [(''version'', Paginated (NewField TypeString)), (''created_at'', Paginated (NewField TypeDate))]"

datatype read_resource = ReadAccounts | ReadTransactions | ReadLogs | ReadVolumes | ReadAggregated | ReadSchemas

fun resource_Schema :: "read_resource \<Rightarrow> entity_schema" where
  "resource_Schema ReadAccounts = AccountSchema"
| "resource_Schema ReadTransactions = TransactionSchema"
| "resource_Schema ReadLogs = LogSchema"
| "resource_Schema ReadVolumes = VolumeSchema"
| "resource_Schema ReadAggregated = AggregatedBalanceSchema"
| "resource_Schema ReadSchemas = SchemaSchema"

fun ResolveFilter ::
    "read_resource \<Rightarrow> bool \<Rightarrow> int option \<Rightarrow> string \<Rightarrow> string \<Rightarrow> any_value \<Rightarrow> resolved checked" where
  "ResolveFilter ReadAccounts h pit = accounts_ResolveFilter h pit"
| "ResolveFilter ReadTransactions h pit = transactions_ResolveFilter"
| "ResolveFilter ReadLogs h pit = logs_ResolveFilter"
| "ResolveFilter ReadVolumes h pit = volumes_ResolveFilter"
| "ResolveFilter ReadAggregated h pit = aggregated_ResolveFilter"
| "ResolveFilter ReadSchemas h pit = schemas_ResolveFilter"

text \<open>
  The conditions of a filter (\<open>buildFilteredDataset\<close>): the leaves are validated, then resolved in the
  order the library builds them.
\<close>

fun resolve_leaves :: "(leaf \<Rightarrow> resolved checked) \<Rightarrow> filter \<Rightarrow> resolved list checked" where
  "resolve_leaves f [] = Inr []"
| "resolve_leaves f (l # ls) =
     bindr (f l) (\<lambda>c. bindr (resolve_leaves f ls) (\<lambda>cs. Inr (c # cs)))"

definition buildFilteredDataset ::
    "query_libs \<Rightarrow> read_resource \<Rightarrow> bool \<Rightarrow> int option \<Rightarrow> filter option \<Rightarrow> resolved list checked" where
  "buildFilteredDataset ql res h pit builder =
     (case builder of
        None \<Rightarrow> Inr []
      | Some ls \<Rightarrow>
          bindr (validateFilters ql (resource_Schema res) ls) (\<lambda>_.
            resolve_leaves (\<lambda>(operator, key, value). ResolveFilter res h pit operator key value) ls))"

end
