(* ===== verification/Resource_Claims.thy ===== *)
theory Resource_Claims
  imports Resource_Filters
begin

text \<open>The properties of the filters of resources: which validated filters end in a panic.\<close>

text \<open>The properties whose operator is put in the statement without being looked at.\<close>

definition compared :: "read_resource \<Rightarrow> string \<Rightarrow> bool" where
  "compared res key \<longleftrightarrow>
     res = ReadLogs \<and> key = ''type'' \<or> res = ReadSchemas \<and> key = ''version'' \<or>
     (res = ReadAccounts \<or> res = ReadVolumes) \<and> (balance_index key \<noteq> None \<or> key = ''balance'')"

lemma validated_leaf:
  assumes "validate_leaf ql schema (operator, key, value) = Inr name"
  shows "\<exists>f. (name, f) \<in> set schema \<and> match_property key (name, f) \<and>
    List.member (field_Operators (fd_Type f)) operator \<and> ValidateValue ql (fd_Type f) operator value"
proof -
  obtain f where "List.find (match_property key) schema = Some (name, f)"
    "List.member (field_Operators (fd_Type f)) operator" "ValidateValue ql (fd_Type f) operator value"
    using assms by (auto simp: validate_leaf_def split: option.splits if_splits)
  then show ?thesis by (auto simp: find_Some_iff intro!: exI [of _ f] dest: nth_mem)
qed

lemma ConvertOperatorToSQL_panic:
  "ConvertOperatorToSQL operator = Inl Panic \<longleftrightarrow>
     \<not> List.member [OperatorMatch, OperatorLT, OperatorGT, OperatorLTE, OperatorGTE, OperatorLike] operator"
  by (simp add: ConvertOperatorToSQL_def)

lemma compare_column_panic:
  "compare_column column operator value = Inl Panic \<longleftrightarrow> ConvertOperatorToSQL operator = Inl Panic"
  by (auto simp: compare_column_def result_simps)

lemma metadata_filter_safe: "metadata_filter property value \<noteq> Inl Panic"
  by (auto simp: metadata_filter_def split: option.splits)

lemma assetAddressArray_safe:
  assumes "list_all is_string_value vs"
  shows "assetAddressArray (ASlice vs) \<noteq> Inl Panic"
proof -
  have "\<exists>ss. (foldr_result (\<lambda>x acc. case x of AString s \<Rightarrow> Inr (acc @ [s]) | _ \<Rightarrow> panic) vs acc
      :: string list checked) = Inr ss" for acc
    using assms
  proof (induction vs arbitrary: acc)
    case (Cons v vs)
    then show ?case by (cases v) simp_all
  qed simp
  from this [of "[]"] show ?thesis
    by (auto simp: assetAddressArray_def split: option.splits)
qed

text \<open>A text field with one of its operators and values: a list of texts for \<open>$in\<close>, otherwise a text.\<close>

lemma string_value_cases:
  assumes "ValidateValue ql TypeString operator value"
  obtains vs where "operator = OperatorIn" "value = ASlice vs" "list_all is_string_value vs"
  | s where "operator \<noteq> OperatorIn" "value = AString s"
  using assms by (cases "value") (auto split: if_splits)

lemma address_filter_safe:
  assumes "ValidateValue ql TypeString operator value"
  shows "address_filter column operator value \<noteq> Inl Panic"
  using assms assetAddressArray_safe
  by (elim string_value_cases) (auto simp: address_filter_def as_string_def result_simps)

lemma participants_safe:
  assumes "ValidateValue ql TypeString operator value"
  shows "participants_resolve source destination operator value \<noteq> Inl Panic"
  using assms assetAddressArray_safe
  by (elim string_value_cases) (auto simp: participants_resolve_def as_string_def result_simps)

text \<open>The key of an indexed property and those of the others.\<close>

lemma split_head: "hd (split_on CHR ''['' key) = name \<Longrightarrow> CHR ''['' \<notin> set s \<Longrightarrow> s \<noteq> name \<Longrightarrow> key \<noteq> s"
  by (auto simp: split_on_no_sep)

text \<open>What the operators of a validated leaf can be.\<close>

lemma field_Operators_convert:
  assumes "List.member (field_Operators t) operator"
  shows "ConvertOperatorToSQL operator = Inl Panic \<longleftrightarrow> operator = OperatorIn \<or> operator = OperatorExists"
proof -
  have "List.member [OperatorMatch, OperatorLike, OperatorIn, OperatorLT, OperatorGT, OperatorLTE, OperatorGTE,
      OperatorExists] operator"
    using assms by (induction t) auto
  then show ?thesis
    unfolding ConvertOperatorToSQL_panic by (auto simp: operator_defs)
qed

lemma no_list_operator:
  "t = TypeDate \<or> t = TypeNumeric \<Longrightarrow> List.member (field_Operators t) operator \<Longrightarrow>
     ConvertOperatorToSQL operator \<noteq> Inl Panic"
  using field_Operators_convert [of t operator] by (auto simp: operator_defs)

lemma logs_panic:
  assumes "validate_leaf ql LogSchema (operator, key, v) = Inr name"
  shows "logs_ResolveFilter operator key v = Inl Panic \<longleftrightarrow>
    key = ''type'' \<and> ConvertOperatorToSQL operator = Inl Panic"
proof -
  obtain f where f: "(name, f) \<in> set LogSchema" "match_property key (name, f)"
    "List.member (field_Operators (fd_Type f)) operator"
    using validated_leaf [OF assms] by blast
  then consider "key = ''date'' \<or> key = ''id''" "fd_Type f = TypeDate \<or> fd_Type f = TypeNumeric" | "key = ''type''"
    by (auto simp: schema_defs match_property_def MatchKey_def)
  then show ?thesis
    using no_list_operator [OF _ f(3)] by cases (auto simp: logs_ResolveFilter_def compare_column_panic)
qed

lemma schemas_panic:
  assumes "validate_leaf ql SchemaSchema (operator, key, v) = Inr name"
  shows "schemas_ResolveFilter operator key v = Inl Panic \<longleftrightarrow>
    key = ''version'' \<and> ConvertOperatorToSQL operator = Inl Panic"
proof -
  obtain f where f: "(name, f) \<in> set SchemaSchema" "match_property key (name, f)"
    "List.member (field_Operators (fd_Type f)) operator"
    using validated_leaf [OF assms] by blast
  then consider "key = ''created_at''" "fd_Type f = TypeDate \<or> fd_Type f = TypeNumeric" | "key = ''version''"
    by (auto simp: SchemaSchema_def schema_defs match_property_def MatchKey_def)
  then show ?thesis
    using no_list_operator [OF _ f(3)] by cases (auto simp: schemas_ResolveFilter_def compare_column_panic)
qed

lemma aggregated_panic:
  assumes "validate_leaf ql AggregatedBalanceSchema (operator, key, v) = Inr name"
  shows "aggregated_ResolveFilter operator key v \<noteq> Inl Panic"
proof (cases "key = ''address''")
  case True
  then have "ValidateValue ql TypeString operator v"
    using validated_leaf [OF assms]
    by (auto simp: AggregatedBalanceSchema_def NewField_def Paginated_def match_property_def MatchKey_def
      simp del: ValidateValue.simps)
  then show ?thesis using True address_filter_safe by (simp add: aggregated_ResolveFilter_def)
next
  case False
  then show ?thesis by (simp add: aggregated_ResolveFilter_def metadata_filter_safe)
qed

lemma volumes_panic:
  assumes "validate_leaf ql VolumeSchema (operator, key, v) = Inr name"
  shows "volumes_ResolveFilter operator key v = Inl Panic \<longleftrightarrow>
    (balance_index key \<noteq> None \<or> key = ''balance'') \<and> ConvertOperatorToSQL operator = Inl Panic"
proof -
  obtain f where f: "(name, f) \<in> set VolumeSchema" "match_property key (name, f)"
    "List.member (field_Operators (fd_Type f)) operator" "ValidateValue ql (fd_Type f) operator v"
    using validated_leaf [OF assms] by blast
  then consider (address) "key = ''address'' \<or> key = ''account''" "fd_Type f = TypeString"
    | (date) "key = ''first_usage''" "fd_Type f = TypeDate"
    | (indexed) "hd (split_on CHR ''['' key) = ''balance'' \<or> hd (split_on CHR ''['' key) = ''metadata''"
    by (auto simp: schema_defs match_property_def MatchKey_def)
  then show ?thesis
  proof cases
    case address
    then have "balance_index key = None" by (auto simp: balance_index_def)
    then show ?thesis using address f(4) address_filter_safe [of ql operator v]
      by (auto simp: volumes_ResolveFilter_def simp del: ValidateValue.simps)
  next
    case date
    then show ?thesis using no_list_operator [OF _ f(3)]
      by (simp add: volumes_ResolveFilter_def compare_column_panic balance_index_def)
  next
    case indexed
    then have "key \<noteq> ''address''" "key \<noteq> ''account''" "key \<noteq> ''first_usage''" by auto
    then show ?thesis
      by (auto simp: volumes_ResolveFilter_def metadata_filter_safe result_simps Let_def)
  qed
qed

lemma accounts_panic:
  assumes "validate_leaf ql AccountSchema (operator, key, v) = Inr name"
  shows "accounts_ResolveFilter h pit operator key v = Inl Panic \<longleftrightarrow>
    (balance_index key \<noteq> None \<or> key = ''balance'') \<and> (pit = None \<or> pit = Some 0 \<or> h) \<and>
    ConvertOperatorToSQL operator = Inl Panic"
proof -
  obtain f where f: "(name, f) \<in> set AccountSchema" "match_property key (name, f)"
    "List.member (field_Operators (fd_Type f)) operator" "ValidateValue ql (fd_Type f) operator v"
    using validated_leaf [OF assms] by blast
  then consider (address) "key = ''address''" "fd_Type f = TypeString"
    | (date) "key = ''first_usage'' \<or> key = ''insertion_date'' \<or> key = ''updated_at''" "fd_Type f = TypeDate"
    | (indexed) "hd (split_on CHR ''['' key) = ''balance'' \<or> hd (split_on CHR ''['' key) = ''metadata''"
    by (auto simp: schema_defs match_property_def MatchKey_def)
  then show ?thesis
  proof cases
    case address
    then have "balance_index key = None" by (auto simp: balance_index_def)
    then show ?thesis using address f(4) address_filter_safe [of ql operator v]
      by (auto simp: accounts_ResolveFilter_def simp del: ValidateValue.simps)
  next
    case date
    then have "balance_index key = None" by (auto simp: balance_index_def)
    then show ?thesis using date no_list_operator [OF _ f(3)]
      by (auto simp: accounts_ResolveFilter_def compare_column_panic)
  next
    case indexed
    then have "key \<noteq> ''address''" "key \<noteq> ''account''" "key \<noteq> ''first_usage''" "key \<noteq> ''insertion_date''"
      "key \<noteq> ''updated_at''" by auto
    then show ?thesis
      by (auto simp: accounts_ResolveFilter_def metadata_filter_safe result_simps)
  qed
qed

lemma transactions_panic:
  assumes "validate_leaf ql TransactionSchema (operator, key, v) = Inr name"
  shows "transactions_ResolveFilter operator key v \<noteq> Inl Panic"
proof -
  obtain f where f: "(name, f) \<in> set TransactionSchema" "match_property key (name, f)"
    "List.member (field_Operators (fd_Type f)) operator" "ValidateValue ql (fd_Type f) operator v"
    using validated_leaf [OF assms] by blast
  then consider (participant) "key = ''account'' \<or> key = ''source'' \<or> key = ''destination''" "fd_Type f = TypeString"
    | (date) "key = ''timestamp'' \<or> key = ''inserted_at'' \<or> key = ''updated_at'' \<or> key = ''reverted_at'' \<or> key = ''id''"
        "fd_Type f = TypeDate \<or> fd_Type f = TypeNumeric"
    | (reverted) "key = ''reverted''" "fd_Type f = TypeBoolean"
    | (reference) "key = ''reference''" "fd_Type f = TypeString"
    | (indexed) "hd (split_on CHR ''['' key) = ''metadata''"
    by (auto simp: schema_defs match_property_def MatchKey_def)
  then show ?thesis
  proof cases
    case participant
    then have "ValidateValue ql TypeString operator v" using f(4) by simp
    then show ?thesis using participant(1) participants_safe [of ql operator v]
      by (auto simp: transactions_ResolveFilter_def simp del: ValidateValue.simps)
  next
    case date
    then show ?thesis using no_list_operator [OF _ f(3)]
      by (auto simp: transactions_ResolveFilter_def compare_column_panic)
  next
    case reverted
    then obtain b where "v = ABool b" using f(4) by (cases v) simp_all
    then show ?thesis using reverted by (simp add: transactions_ResolveFilter_def)
  next
    case reference
    then have "operator \<noteq> OperatorExists" using f(3) by (auto simp: operator_defs)
    then show ?thesis
      using reference(1) field_Operators_convert [OF f(3)]
      by (auto simp: transactions_ResolveFilter_def compare_column_panic)
  next
    case indexed
    then have "key \<noteq> s" if "CHR ''['' \<notin> set s" "s \<noteq> ''metadata''" for s
      using split_head that by blast
    then show ?thesis by (simp add: transactions_ResolveFilter_def metadata_filter_safe)
  qed
qed

text \<open>
  Claim C31. A validated filter is resolved without a panic except for two operators on the columns that
  are compared: \<open>$in\<close> and \<open>$exists\<close> on the type of a log, the version of a schema, a balance or a
  metadata key that contains the text of a balance. The validation accepts them as operators of texts
  and of maps, and the conversion to SQL does not know them.
\<close>

theorem validated_filters_panic_on_lists:
  assumes "validate_leaf ql (resource_Schema res) (operator, key, v) = Inr name"
  shows "ResolveFilter res h pit operator key v = Inl Panic \<longleftrightarrow>
    compared res key \<and> (operator = OperatorIn \<or> operator = OperatorExists) \<and>
    (res = ReadAccounts \<longrightarrow> pit = None \<or> pit = Some 0 \<or> h)"
proof -
  obtain t where "List.member (field_Operators t) operator"
    using validated_leaf [OF assms] by blast
  note convert = field_Operators_convert [OF this]
  show ?thesis
  proof (cases res)
    case ReadAccounts
    then show ?thesis using accounts_panic [of ql operator key v name h pit] assms convert by (auto simp: compared_def)
  next
    case ReadTransactions
    then show ?thesis using transactions_panic [of ql operator key v name] assms by (simp add: compared_def)
  next
    case ReadLogs
    then show ?thesis using logs_panic [of ql operator key v name] assms convert by (auto simp: compared_def)
  next
    case ReadVolumes
    then show ?thesis using volumes_panic [of ql operator key v name] assms convert by (auto simp: compared_def)
  next
    case ReadAggregated
    then show ?thesis using aggregated_panic [of ql operator key v name] assms by (simp add: compared_def)
  next
    case ReadSchemas
    then show ?thesis using schemas_panic [of ql operator key v name] assms convert by (auto simp: compared_def)
  qed
qed

theorem validated_filters_panic_on_lists_witness:
  "ResolveFilter ReadLogs True None OperatorIn ''type'' (ASlice [AString ''NEW_TRANSACTION'']) = Inl Panic"
proof -
  have "validate_leaf ql (resource_Schema ReadLogs) (OperatorIn, ''type'', ASlice [AString ''NEW_TRANSACTION'']) =
      Inr ''type''" for ql
    by (simp add: validate_leaf_def schema_defs match_property_def MatchKey_def operator_defs)
  from validated_filters_panic_on_lists [OF this] show ?thesis by (simp add: compared_def)
qed

end
