(* ===== verification/Replication_Drivers.thy ===== *)
theory Replication_Drivers
  imports Ledger_Log
begin

text \<open>
  The drivers that take logs to other systems (\<open>internal/replication/drivers\<close>), the batcher put before
  each of them, the facade that starts them (\<open>internal/replication/driver_facade.go\<close>) and the validation of
  their configuration. A driver answers a list of logs with an error for each of them and an error for all.
  What the systems behind them answer is an argument, and so are the operations of the library that collects
  batches and the decoding of configurations.
\<close>

section \<open>Answers\<close>

datatype driver_error =
    RequestFailed string
  | InvalidStatus int
  | ItemRefused string
  | NotReady
  | SendFailed driver_error
  | WaitFailed driver_error
  | SomeLogsFailed driver_error
  | ExporterNotFound string
  | DriverNotFound string
  | MalformedConfiguration string
  | InvalidConfiguration string

type_synonym 'a driven = "(driver_error, 'a) result"
type_synonym answer = "driver_error option list \<times> driver_error option"

definition accepted_all :: "log list \<Rightarrow> answer" where
  "accepted_all logs = (replicate (length logs) None, None)"

definition refused :: "driver_error \<Rightarrow> answer" where
  "refused e = ([], Some e)"

section \<open>Drivers\<close>

text \<open>The web hook: the request fails or is answered with a status.\<close>

definition http_Accept :: "driver_error + int \<Rightarrow> log list \<Rightarrow> answer" where
  "http_Accept response logs =
     (case response of
        Inl e \<Rightarrow> refused e
      | Inr status \<Rightarrow>
          if status < 200 \<or> 299 < status then refused (InvalidStatus status) else accepted_all logs)"

text \<open>
  The index of documents: one item of the answer for each log, with the reason it was refused. More items
  than logs are out of range.
\<close>

definition elasticsearch_Accept :: "driver_error + string option list \<Rightarrow> log list \<Rightarrow> answer driven" where
  "elasticsearch_Accept response logs =
     (if list_ex (\<lambda>l. lg_ID l = None) logs then panic
      else (case response of
          Inl e \<Rightarrow> Inr (refused e)
        | Inr items \<Rightarrow>
            if length logs < length items then panic
            else Inr (map (map_option ItemRefused) items @ replicate (length logs - length items) None, None)))"

text \<open>The table of logs: the batch is prepared, each log is appended to it, and the batch is sent.\<close>

fun clickhouse_append :: "driver_error option list \<Rightarrow> log list \<Rightarrow> unit driven" where
  "clickhouse_append errs [] = Inr ()"
| "clickhouse_append errs (l # ls) =
     (case lg_ID l of
        None \<Rightarrow> panic
      | Some _ \<Rightarrow>
          (case errs of
             Some e # _ \<Rightarrow> raise e
           | _ \<Rightarrow> clickhouse_append (tl errs) ls))"

definition clickhouse_Accept ::
    "driver_error option \<Rightarrow> driver_error option list \<Rightarrow> driver_error option \<Rightarrow> log list \<Rightarrow> answer driven" where
  "clickhouse_Accept prepare_error append_errors send_error logs =
     (case prepare_error of
        Some e \<Rightarrow> Inr (refused e)
      | None \<Rightarrow>
          (case clickhouse_append append_errors logs of
             Inl (Raised e) \<Rightarrow> Inr (refused e)
           | Inl Panic \<Rightarrow> panic
           | Inr _ \<Rightarrow> Inr (replicate (length logs) None, send_error)))"

section \<open>The batcher\<close>

text \<open>What each log of a batch is answered once its driver answered (\<open>commit\<close>).\<close>

definition commit :: "answer \<Rightarrow> log list \<Rightarrow> driver_error option list driven" where
  "commit a logs =
     (case snd a of
        Some e \<Rightarrow> Inr (replicate (length logs) (Some e))
      | None \<Rightarrow> if length (fst a) < length logs then panic else Inr (take (length logs) (fst a)))"

text \<open>
  \<open>Accept\<close>: every log is sent to the batcher, then every operation is waited for. The operation of a log
  that could not be sent is nil, and it is waited for as well.
\<close>

fun wait_all :: "('op option \<Rightarrow> driver_error option driven) \<Rightarrow> 'op option list \<Rightarrow> driver_error option list \<Rightarrow>
    driver_error option list driven" where
  "wait_all wait (op # ops) (e # errs) =
     bindr (wait op) (\<lambda>r. bindr (wait_all wait ops errs) (\<lambda>rest.
       Inr ((case r of Some f \<Rightarrow> Some (WaitFailed f) | None \<Rightarrow> e) # rest)))"
| "wait_all wait _ _ = Inr []"

definition Batcher_Accept ::
    "(driver_error + 'op) list \<Rightarrow> ('op option \<Rightarrow> driver_error option driven) \<Rightarrow> answer driven" where
  "Batcher_Accept sends wait =
     (let operations = map (\<lambda>s. case s of Inl _ \<Rightarrow> None | Inr op \<Rightarrow> Some op) sends;
          itemsErrors = map (\<lambda>s. case s of Inl e \<Rightarrow> Some (SendFailed e) | Inr _ \<Rightarrow> None) sends in
      bindr (wait_all wait operations itemsErrors) (\<lambda>errs.
        Inr (errs, map_option SomeLogsFailed (case List.find (\<lambda>e. e \<noteq> None) errs of
          Some e \<Rightarrow> e | None \<Rightarrow> None))))"

section \<open>The facade\<close>

text \<open>
  A driver is started again and again until it starts, or until its context is cancelled, which its
  own error or the wait before the next attempt notices.
\<close>

datatype start_result = Started | StartCanceled | StartFailed bool

fun facade_Run :: "start_result list \<Rightarrow> bool option" where
  "facade_Run [] = None"
| "facade_Run (Started # _) = Some True"
| "facade_Run (StartCanceled # _) = Some False"
| "facade_Run (StartFailed contextDone # rs) = (if contextDone then Some False else facade_Run rs)"

definition facade_Accept :: "bool \<Rightarrow> answer driven \<Rightarrow> answer driven" where
  "facade_Accept ready underlying = (if ready then underlying else Inr (refused NotReady))"

section \<open>Configurations\<close>

record batching =
  bt_MaxItems :: int
  bt_FlushInterval :: int

definition Batching_Validate :: "batching \<Rightarrow> bool" where
  "Batching_Validate b \<longleftrightarrow> \<not> bt_MaxItems b < 0 \<and> \<not> (bt_MaxItems b = 0 \<and> bt_FlushInterval b = 0)"

definition Batching_SetDefaults :: "batching \<Rightarrow> batching" where
  "Batching_SetDefaults b =
     (if bt_MaxItems b = 0 \<and> bt_FlushInterval b = 0 then b\<lparr>bt_FlushInterval := 1000000000\<rparr> else b)"

record authentication =
  au_Username :: string
  au_Password :: string
  au_AWSEnabled :: bool

record elasticsearch_config =
  ec_Endpoint :: string
  ec_Authentication :: "authentication option"
  ec_Index :: string

definition Authentication_Validate :: "authentication \<Rightarrow> bool" where
  "Authentication_Validate a \<longleftrightarrow>
     \<not> (au_Username a = [] \<and> au_Password a \<noteq> [] \<or> au_Username a \<noteq> [] \<and> au_Password a = []) \<and>
     \<not> (au_AWSEnabled a \<and> au_Username a \<noteq> [])"

definition elasticsearch_SetDefaults :: "elasticsearch_config \<Rightarrow> elasticsearch_config" where
  "elasticsearch_SetDefaults c = (if ec_Index c = [] then c\<lparr>ec_Index := ''unified-stack-data''\<rparr> else c)"

definition elasticsearch_Validate :: "elasticsearch_config \<Rightarrow> bool" where
  "elasticsearch_Validate c \<longleftrightarrow>
     ec_Endpoint c \<noteq> [] \<and>
     (case ec_Authentication c of None \<Rightarrow> True | Some a \<Rightarrow> Authentication_Validate a) \<and>
     ec_Index c \<noteq> []"

text \<open>The configuration of a web hook: the host its URL parses to, when it parses.\<close>

definition http_Validate :: "(string \<Rightarrow> string option) \<Rightarrow> string \<Rightarrow> bool" where
  "http_Validate parse_host url \<longleftrightarrow>
     url \<noteq> [] \<and> (case parse_host url of None \<Rightarrow> False | Some host \<Rightarrow> host \<noteq> [])"

text \<open>
  The drivers of a registry by name: how the configuration of each is decoded, completed with its defaults
  and validated, for a type of configurations that holds those of all drivers.
\<close>

record ('json, 'c) driver_spec =
  ds_Unmarshal :: "'json \<Rightarrow> 'c option"
  ds_SetDefaults :: "'c \<Rightarrow> 'c"
  ds_Validate :: "'c \<Rightarrow> bool"

record 'json exporter_row =
  ex_ID :: string
  ex_CreatedAt :: time
  ex_Driver :: string
  ex_Config :: 'json

text \<open>A registry with the decoding of the batching part of a configuration.\<close>

record ('json, 'c) registry =
  rg_Drivers :: "(string \<times> ('json, 'c) driver_spec) list"
  rg_Batching :: "'json \<Rightarrow> batching option"

definition ValidateConfig :: "('json, 'c) registry \<Rightarrow> string \<Rightarrow> 'json \<Rightarrow> unit driven" where
  "ValidateConfig rg driverName raw =
     (case map_of (rg_Drivers rg) driverName of
        None \<Rightarrow> raise (DriverNotFound driverName)
      | Some ds \<Rightarrow>
          (case ds_Unmarshal ds raw of
             None \<Rightarrow> raise (MalformedConfiguration driverName)
           | Some c \<Rightarrow>
               bindr (guardr (ds_Validate ds (ds_SetDefaults ds c)) (InvalidConfiguration driverName)) (\<lambda>_.
               case rg_Batching rg raw of
                 None \<Rightarrow> raise (MalformedConfiguration driverName)
               | Some b \<Rightarrow>
                   guardr (Batching_Validate (Batching_SetDefaults b)) (InvalidConfiguration driverName))))"

text \<open>
  The driver of an exporter: its name and completed configuration (\<open>Registry.Create\<close>), and the batching put
  before it (\<open>DriverFactoryWithBatching.Create\<close>). The exporter is the row the store finds, if any.
\<close>

definition Registry_Create ::
    "('json, 'c) registry \<Rightarrow> string \<Rightarrow> 'json exporter_row option \<Rightarrow> (string \<times> 'c) driven" where
  "Registry_Create rg exporterID row =
     (case row of
        None \<Rightarrow> raise (ExporterNotFound exporterID)
      | Some x \<Rightarrow>
          (case map_of (rg_Drivers rg) (ex_Driver x) of
             None \<Rightarrow> raise (DriverNotFound (ex_Driver x))
           | Some ds \<Rightarrow>
               (case ds_Unmarshal ds (ex_Config x) of
                  None \<Rightarrow> raise (MalformedConfiguration (ex_Driver x))
                | Some c \<Rightarrow> Inr (ex_Driver x, ds_SetDefaults ds c))))"

definition Factory_Create ::
    "('json, 'c) registry \<Rightarrow> string \<Rightarrow> 'json exporter_row option \<Rightarrow> ((string \<times> 'c) \<times> batching) driven" where
  "Factory_Create rg exporterID row =
     bindr (Registry_Create rg exporterID row) (\<lambda>driver.
       case row of
         None \<Rightarrow> raise (ExporterNotFound exporterID)
       | Some x \<Rightarrow>
           (case rg_Batching rg (ex_Config x) of
              None \<Rightarrow> raise (MalformedConfiguration (ex_Driver x))
            | Some b \<Rightarrow>
                bindr (guardr (Batching_Validate (Batching_SetDefaults b)) (InvalidConfiguration (ex_Driver x)))
                  (\<lambda>_. Inr (driver, Batching_SetDefaults b))))"

text \<open>An exporter whose configuration was validated can be made.\<close>

lemma validated_exporter_created:
  "ValidateConfig rg (ex_Driver x) (ex_Config x) = Inr () \<Longrightarrow> \<exists>d. Factory_Create rg exporterID (Some x) = Inr d"
  by (auto simp: ValidateConfig_def Factory_Create_def Registry_Create_def result_simps split: option.splits)

section \<open>What an exporter promises\<close>

text \<open>
  \<open>takes logs answer D\<close>: asked to accept \<open>logs\<close>, the driver can give \<open>answer\<close> with the logs \<open>D\<close> taken.
  A driver promises that without an error for all, the logs without an error of their own are taken.
\<close>

locale item_driver =
  fixes takes :: "log list \<Rightarrow> answer \<Rightarrow> log list \<Rightarrow> bool"
  assumes items_taken: "takes logs (errs, None) D \<Longrightarrow> i < length logs \<Longrightarrow>
    i < length errs \<Longrightarrow> errs ! i = None \<Longrightarrow> logs ! i \<in> set D"

text \<open>An exporter promises that without an error every log is taken.\<close>

locale exporter =
  fixes accepts :: "log list \<Rightarrow> bool \<Rightarrow> log list \<Rightarrow> bool"
  assumes all_taken: "accepts logs True D \<Longrightarrow> set logs \<subseteq> set D"

text \<open>
  The library cuts the logs it is sent in batches, in their order, and each log is answered what the commit
  of its batch says.
\<close>

inductive batches :: "(log list \<Rightarrow> answer \<Rightarrow> log list \<Rightarrow> bool) \<Rightarrow> log list \<Rightarrow> driver_error option list \<Rightarrow>
    log list \<Rightarrow> bool" for takes where
  no_batch: "batches takes [] [] []"
| one_batch: "\<lbrakk>takes logs a D; commit a logs = Inr errs; batches takes rest errs' D'\<rbrakk> \<Longrightarrow>
     batches takes (logs @ rest) (errs @ errs') (D @ D')"

definition batched_accepts ::
    "(log list \<Rightarrow> answer \<Rightarrow> log list \<Rightarrow> bool) \<Rightarrow> log list \<Rightarrow> bool \<Rightarrow> log list \<Rightarrow> bool" where
  "batched_accepts takes logs ok D \<longleftrightarrow>
     (\<exists>errs a. batches takes logs errs D \<and>
       Batcher_Accept (map (\<lambda>i. Inr i :: driver_error + nat) [0..<length logs])
         (\<lambda>op. case op of Some i \<Rightarrow> Inr (errs ! i) | None \<Rightarrow> panic) = Inr a \<and>
       (ok \<longleftrightarrow> snd a = None))"

lemma commit_length: "commit a logs = Inr errs \<Longrightarrow> length errs = length logs"
  by (auto simp: commit_def split: option.splits if_splits)

lemma batches_length: "batches takes logs errs D \<Longrightarrow> length errs = length logs"
  by (induction rule: batches.induct) (auto dest: commit_length)

lemma wait_all_ok:
  assumes "length ops = length errs" and "\<And>op. op \<in> set ops \<Longrightarrow> wait op = Inr (f op)"
  shows "wait_all wait ops errs =
    Inr (map2 (\<lambda>op e. case f op of Some x \<Rightarrow> Some (WaitFailed x) | None \<Rightarrow> e) ops errs)"
  using assms by (induction ops errs rule: list_induct2) auto

lemma Batcher_Accept_ok:
  assumes "length errs = n"
  shows "\<exists>a. Batcher_Accept (map (\<lambda>i. Inr i :: driver_error + nat) [0..<n])
      (\<lambda>op. case op of Some i \<Rightarrow> Inr (errs ! i) | None \<Rightarrow> panic) = Inr a \<and>
    (snd a = None \<longleftrightarrow> (\<forall>e \<in> set errs. e = None))"
proof -
  let ?wait = "\<lambda>op. case op of Some i \<Rightarrow> Inr (errs ! i) | None \<Rightarrow> panic"
  let ?ops = "map Some [0..<n]" and ?none = "replicate n (None :: driver_error option)"
  let ?all = "map (map_option WaitFailed) errs"
  have ops: "map (\<lambda>s. case s of Inl _ \<Rightarrow> None | Inr op \<Rightarrow> Some op) (map (\<lambda>i. Inr i :: driver_error + nat) [0..<n]) = ?ops"
    "map (\<lambda>s. case s of Inl e \<Rightarrow> Some (SendFailed e) | Inr _ \<Rightarrow> None) (map (\<lambda>i. Inr i :: driver_error + nat) [0..<n]) = ?none"
    by (simp_all add: comp_def map_replicate_const)
  have "wait_all ?wait ?ops ?none = Inr (map2 (\<lambda>op e. case errs ! the op of Some x \<Rightarrow> Some (WaitFailed x) | None \<Rightarrow> e) ?ops ?none)"
    by (rule wait_all_ok) auto
  also have "map2 (\<lambda>op e. case errs ! the op of Some x \<Rightarrow> Some (WaitFailed x) | None \<Rightarrow> e) ?ops ?none = ?all"
    using assms by (auto intro!: nth_equalityI split: option.split)
  finally have w: "wait_all ?wait ?ops ?none = Inr ?all" .
  have "(case List.find (\<lambda>e. e \<noteq> None) ?all of Some e \<Rightarrow> e | None \<Rightarrow> None) = None \<longleftrightarrow> (\<forall>e \<in> set errs. e = None)"
    by (induction errs) auto
  then show ?thesis by (simp only: Batcher_Accept_def Let_def ops w bindr.simps) simp
qed

context item_driver
begin

lemma commit_taken:
  assumes "takes logs a D" and "commit a logs = Inr errs" and "\<forall>e \<in> set errs. e = None"
  shows "set logs \<subseteq> set D"
proof (cases "logs = []")
  case False
  then have none: "snd a = None"
    using assms(2,3) by (cases "snd a") (auto simp: commit_def)
  then have errs: "length logs \<le> length (fst a)" "errs = take (length logs) (fst a)"
    using assms(2) by (auto simp: commit_def split: if_splits)
  have "logs ! i \<in> set D" if i: "i < length logs" for i
  proof (rule items_taken [of logs "fst a"])
    show "takes logs (fst a, None) D" using assms(1) none by (metis prod.collapse)
    have "length errs = length logs" using errs by simp
    then have "errs ! i \<in> set errs" using i nth_mem [of i errs] by simp
    then show "fst a ! i = None" using errs(2) i assms(3) by simp
  qed (use i errs(1) in simp_all)
  then show ?thesis by (auto simp: in_set_conv_nth)
qed simp

lemma batches_taken:
  assumes "batches takes logs errs D" and "\<forall>e \<in> set errs. e = None"
  shows "set logs \<subseteq> set D"
  using assms by (induction rule: batches.induct) (auto dest: commit_taken)

end

sublocale item_driver \<subseteq> batched: exporter "batched_accepts takes"
proof
  fix logs D
  assume "batched_accepts takes logs True D"
  then obtain errs a where b: "batches takes logs errs D" "snd a = None"
    "Batcher_Accept (map (\<lambda>i. Inr i :: driver_error + nat) [0..<length logs])
       (\<lambda>op. case op of Some i \<Rightarrow> Inr (errs ! i) | None \<Rightarrow> panic) = Inr a"
    by (auto simp: batched_accepts_def)
  have "\<forall>e \<in> set errs. e = None"
    using Batcher_Accept_ok [OF batches_length [OF b(1)]] b(2,3) by auto
  then show "set logs \<subseteq> set D" using batches_taken b(1) by blast
qed

text \<open>
  The web hook promises it when a status of success means that the request was taken, and so do the index
  for the items it answers without a reason, and the table when it answers that the batch was sent.
\<close>

definition http_takes :: "log list \<Rightarrow> answer \<Rightarrow> log list \<Rightarrow> bool" where
  "http_takes logs a D \<longleftrightarrow>
     (\<exists>response. a = http_Accept response logs \<and>
       (case response of Inr status \<Rightarrow> 200 \<le> status \<and> status \<le> 299 \<longrightarrow> D = logs | Inl _ \<Rightarrow> True))"

definition elasticsearch_takes :: "log list \<Rightarrow> answer \<Rightarrow> log list \<Rightarrow> bool" where
  "elasticsearch_takes logs a D \<longleftrightarrow>
     (\<exists>response. elasticsearch_Accept response logs = Inr a \<and>
       (case response of
          Inr items \<Rightarrow> length items = length logs \<and>
            D = map snd (List.filter (\<lambda>(item, l). item = None) (zip items logs))
        | Inl _ \<Rightarrow> True))"

definition clickhouse_takes :: "log list \<Rightarrow> answer \<Rightarrow> log list \<Rightarrow> bool" where
  "clickhouse_takes logs a D \<longleftrightarrow>
     (\<exists>prepare_error append_errors send_error.
       clickhouse_Accept prepare_error append_errors send_error logs = Inr a \<and>
       (send_error = None \<and> snd a = None \<longrightarrow> D = logs))"

interpretation http: item_driver http_takes
  by unfold_locales (auto simp: http_takes_def http_Accept_def refused_def split: sum.splits if_splits)

interpretation elasticsearch: item_driver elasticsearch_takes
proof
  fix logs errs D i
  assume a: "elasticsearch_takes logs (errs, None) D" "i < length logs" "errs ! i = None"
  then obtain items where items: "length items = length logs" "errs = map (map_option ItemRefused) items"
    "D = map snd (List.filter (\<lambda>(item, l). item = None) (zip items logs))"
    by (auto simp: elasticsearch_takes_def elasticsearch_Accept_def refused_def split: sum.splits if_splits)
  then have "(None, logs ! i) \<in> set (zip items logs)"
    using a(2,3) by (auto simp: set_zip intro!: exI [of _ i])
  then show "logs ! i \<in> set D" unfolding items(3) by force
qed

interpretation clickhouse: item_driver clickhouse_takes
  by unfold_locales
    (auto simp: clickhouse_takes_def clickhouse_Accept_def refused_def split: option.splits sum.splits failure.splits)

end
