(* ===== verification/Replication_Pipeline.thy ===== *)
theory Replication_Pipeline
  imports Replication_Drivers Resource_Filters Pagination
begin

text \<open>
  The pipeline of a ledger to an exporter (\<open>internal/replication/pipeline.go\<close>): it reads the logs of the ledger
  after the last one it sent, by pages, gives each page to the exporter until it is accepted, and reports
  the last log to a second goroutine that stores it in the row of the pipeline
  (\<open>internal/replication/manager.go\<close>, \<open>startPipeline\<close>). The commits of the ledger, the failures of the store and
  of the exporter, stops, crashes, restarts and resets come in any order.
\<close>

section \<open>The logs of a ledger\<close>

text \<open>
  What a leaf is on a log: the comparison of its identifier, date or type with the value, as
  \<open>logs_ResolveFilter\<close> writes it; a value of another type has no result.
\<close>

definition sql_compare :: "string \<Rightarrow> int \<Rightarrow> int \<Rightarrow> bool option" where
  "sql_compare operator x y =
     (if operator = OperatorMatch then Some (x = y)
      else if operator = OperatorLT then Some (x < y)
      else if operator = OperatorGT then Some (y < x)
      else if operator = OperatorLTE then Some (x \<le> y)
      else if operator = OperatorGTE then Some (y \<le> x)
      else None)"

definition log_column :: "string \<Rightarrow> log \<Rightarrow> int option" where
  "log_column column l =
     (if column = ''id'' then map_option int (lg_ID l)
      else if column = ''date'' then Some (lg_Date l)
      else None)"

definition log_leaf_holds :: "log \<Rightarrow> leaf \<Rightarrow> bool option" where
  "log_leaf_holds l = (\<lambda>(operator, key, v).
     case (log_column key l, v) of
       (Some x, ABigInt y) \<Rightarrow> sql_compare operator x y
     | (Some x, ATime y) \<Rightarrow> sql_compare operator x y
     | _ \<Rightarrow> None)"

definition logs_dataset :: "query_libs \<Rightarrow> log list \<Rightarrow> 'o resource_query \<Rightarrow> log list checked" where
  "logs_dataset ql logs q =
     bindr (buildFilteredDataset ql ReadLogs True (rq_PIT q) (rq_Builder q)) (\<lambda>_.
       Inr (case rq_Builder q of
           None \<Rightarrow> logs
         | Some ls \<Rightarrow> List.filter (\<lambda>l. list_all (\<lambda>leaf. log_leaf_holds l leaf = Some True) ls) logs))"

text \<open>\<open>Store.Logs\<close>: pages of logs, by default the last first. The default size is the library's.\<close>

definition logs_repository :: "query_libs \<Rightarrow> 64 word \<Rightarrow> log list \<Rightarrow> (log, 'o) repository" where
  "logs_repository ql default_size logs =
     \<lparr>rs_Schema = LogSchema, rs_DefaultColumn = ''id'', rs_DefaultOrder = OrderDesc, rs_DefaultSize = default_size,
      rs_Dataset = logs_dataset ql logs, rs_Key = log_column, rs_OrderBy = (\<lambda>column. order_rows (log_column column))\<rparr>"

section \<open>Configuration and rows\<close>

record pipeline_config =
  pc_PullInterval :: int
  pc_PushRetryPeriod :: int
  pc_LogsPageSize :: "64 word"

definition default_pipeline_config :: pipeline_config where
  "default_pipeline_config =
     \<lparr>pc_PullInterval = 10000000000, pc_PushRetryPeriod = 10000000000, pc_LogsPageSize = 100\<rparr>"

record pipeline =
  pl_ID :: string
  pl_Ledger :: string
  pl_ExporterID :: string
  pl_CreatedAt :: time
  pl_Enabled :: bool
  pl_LastLogID :: "nat option"
  pl_Error :: string

definition NewPipeline :: "string \<Rightarrow> time \<Rightarrow> string \<Rightarrow> string \<Rightarrow> pipeline" where
  "NewPipeline uuid now ledger exporterID =
     \<lparr>pl_ID = uuid, pl_Ledger = ledger, pl_ExporterID = exporterID, pl_CreatedAt = now, pl_Enabled = True,
      pl_LastLogID = None, pl_Error = []\<rparr>"

section \<open>The handler\<close>

text \<open>The query of the next page: the logs after the last one sent, in the order of their identifiers.\<close>

definition next_logs_query :: "pipeline_config \<Rightarrow> nat option \<Rightarrow> unit paginated_query" where
  "next_logs_query cfg lastLogID =
     InitialPaginated
       \<lparr>iq_Column = ''id'', iq_Order = Some OrderAsc, iq_PageSize = pc_LogsPageSize cfg,
        iq_Options = \<lparr>rq_PIT = None, rq_OOT = None,
          rq_Builder = map_option (\<lambda>i. [(OperatorGT, ''id'', ABigInt (int i))]) lastLogID,
          rq_Expand = [], rq_Opts = ()\<rparr>\<rparr>"

definition ListLogs :: "query_libs \<Rightarrow> 64 word \<Rightarrow> pipeline_config \<Rightarrow> log list \<Rightarrow> nat option \<Rightarrow>
    (log, unit) cursor checked" where
  "ListLogs ql default_size cfg logs lastLogID =
     repository_Paginate (logs_repository ql default_size logs) (next_logs_query cfg lastLogID)"

text \<open>
  Where the loop of \<open>Run\<close> is: at its first \<open>select\<close> with the interval to wait for, at the one after a failed
  read, while the exporter has the page, at the one after a failed push, or at the report of a log. The
  pages keep whether there are more.
\<close>

datatype handler_phase =
    Waiting int
  | ReadFailed int
  | Pushing "log list" bool
  | PushFailed "log list" bool
  | Reporting nat bool
  | Terminated

text \<open>After the page is read: an empty page is waited on, another is pushed.\<close>

definition after_read :: "pipeline_config \<Rightarrow> int \<Rightarrow> (log, unit) cursor checked \<Rightarrow> handler_phase" where
  "after_read cfg nextInterval r =
     (case r of
        Inl _ \<Rightarrow> ReadFailed nextInterval
      | Inr c \<Rightarrow>
          if cu_Data c = [] then Waiting (pc_PullInterval cfg)
          else Pushing (cu_Data c) (cu_HasMore c))"

definition after_report :: "pipeline_config \<Rightarrow> bool \<Rightarrow> int" where
  "after_report cfg hasMore = (if \<not> hasMore then pc_PullInterval cfg else 0)"

text \<open>
  A pipeline in its world: the committed logs, the logs the exporter took, in order, the stored last log, the
  last log in memory, the phase, the report the storing goroutine is writing, and the reports that the
  goroutines of earlier runs are still writing.
\<close>

record pipe =
  pi_logs :: "log list"
  pi_taken :: "log list"
  pi_stored :: "nat option"
  pi_last :: "nat option"
  pi_phase :: handler_phase
  pi_writing :: "nat option"
  pi_late :: "nat list"

definition pipe_start :: "log list \<Rightarrow> pipe" where
  "pipe_start logs =
     \<lparr>pi_logs = logs, pi_taken = [], pi_stored = None, pi_last = None, pi_phase = Waiting 0, pi_writing = None,
      pi_late = []\<rparr>"

definition log_id :: "log \<Rightarrow> nat" where
  "log_id l = (case lg_ID l of None \<Rightarrow> 0 | Some i \<Rightarrow> i)"

fun interruptible :: "handler_phase \<Rightarrow> bool" where
  "interruptible (Reporting _ _) = False"
| "interruptible Terminated = False"
| "interruptible _ = True"

text \<open>What runs the pipeline: its configuration, the store's libraries and the exporter.\<close>

record runner =
  rn_config :: pipeline_config
  rn_libs :: query_libs
  rn_default_size :: "64 word"
  rn_accepts :: "log list \<Rightarrow> bool \<Rightarrow> log list \<Rightarrow> bool"

datatype event =
    Commits | Reads | ReadFails | Retries | Pushes | PushFails | Reports | Stores | StoreFails
  | LateStores | LateStoreFails | Stops | Starts | Crashes | Resets | ResetStarts

text \<open>
  The steps. With \<open>ordered\<close>, logs are committed in the order of their identifiers, as where the logs are
  hashed: each insertion then holds a lock of the ledger until it commits. Stopping while the exporter has
  the page cancels the request, of which some logs may have been taken. A start reads the row. A reset
  puts no last log in the row, and starts the pipeline again with that row if it was running.
\<close>

inductive pipe_step :: "runner \<Rightarrow> bool \<Rightarrow> event \<Rightarrow> pipe \<Rightarrow> pipe \<Rightarrow> bool" for rn ordered where
  commits: "\<lbrakk>lg_ID l = Some i; \<forall>l' \<in> set (pi_logs s). lg_ID l' \<noteq> Some i;
      ordered \<Longrightarrow> \<forall>l' \<in> set (pi_logs s). log_id l' < i\<rbrakk> \<Longrightarrow>
    pipe_step rn ordered Commits s (s\<lparr>pi_logs := pi_logs s @ [l]\<rparr>)"
| reads: "pi_phase s = Waiting n \<Longrightarrow>
    pipe_step rn ordered Reads s (s\<lparr>pi_phase := after_read (rn_config rn) n
      (ListLogs (rn_libs rn) (rn_default_size rn) (rn_config rn) (pi_logs s) (pi_last s))\<rparr>)"
| read_fails: "pi_phase s = Waiting n \<Longrightarrow> pipe_step rn ordered ReadFails s (s\<lparr>pi_phase := ReadFailed n\<rparr>)"
| read_again: "pi_phase s = ReadFailed n \<Longrightarrow> pipe_step rn ordered Retries s (s\<lparr>pi_phase := Waiting n\<rparr>)"
| pushes: "\<lbrakk>pi_phase s = Pushing batch hasMore; rn_accepts rn batch True D; lg_ID (last batch) = Some i\<rbrakk> \<Longrightarrow>
    pipe_step rn ordered Pushes s
      (s\<lparr>pi_phase := Reporting i hasMore, pi_last := Some i, pi_taken := pi_taken s @ D\<rparr>)"
| push_fails: "\<lbrakk>pi_phase s = Pushing batch hasMore; rn_accepts rn batch False D\<rbrakk> \<Longrightarrow>
    pipe_step rn ordered PushFails s (s\<lparr>pi_phase := PushFailed batch hasMore, pi_taken := pi_taken s @ D\<rparr>)"
| push_again: "pi_phase s = PushFailed batch hasMore \<Longrightarrow>
    pipe_step rn ordered Retries s (s\<lparr>pi_phase := Pushing batch hasMore\<rparr>)"
| reports: "\<lbrakk>pi_phase s = Reporting i hasMore; pi_writing s = None\<rbrakk> \<Longrightarrow>
    pipe_step rn ordered Reports s
      (s\<lparr>pi_writing := Some i, pi_phase := Waiting (after_report (rn_config rn) hasMore)\<rparr>)"
| stores: "pi_writing s = Some i \<Longrightarrow>
    pipe_step rn ordered Stores s (s\<lparr>pi_stored := Some i, pi_writing := None\<rparr>)"
| store_fails: "pi_writing s = Some i \<Longrightarrow> pipe_step rn ordered StoreFails s (s\<lparr>pi_writing := None\<rparr>)"
| late_stores: "pi_late s = before @ i # after \<Longrightarrow>
    pipe_step rn ordered LateStores s (s\<lparr>pi_stored := Some i, pi_late := before @ after\<rparr>)"
| late_store_fails: "pi_late s = before @ i # after \<Longrightarrow>
    pipe_step rn ordered LateStoreFails s (s\<lparr>pi_late := before @ after\<rparr>)"
| stops: "interruptible (pi_phase s) \<Longrightarrow> (case pi_phase s of Pushing batch _ \<Rightarrow> set D \<subseteq> set batch | _ \<Rightarrow> D = []) \<Longrightarrow>
    pipe_step rn ordered Stops s (s\<lparr>pi_phase := Terminated, pi_taken := pi_taken s @ D\<rparr>)"
| starts: "pi_phase s = Terminated \<Longrightarrow>
    pipe_step rn ordered Starts s (s\<lparr>pi_phase := Waiting 0, pi_last := pi_stored s, pi_writing := None,
      pi_late := (case pi_writing s of None \<Rightarrow> [] | Some i \<Rightarrow> [i]) @ pi_late s\<rparr>)"
| crashes: "pipe_step rn ordered Crashes s (s\<lparr>pi_phase := Terminated, pi_writing := None, pi_late := []\<rparr>)"
| resets: "pi_phase s = Terminated \<Longrightarrow> pipe_step rn ordered Resets s (s\<lparr>pi_stored := None\<rparr>)"
| reset_starts: "pi_phase s = Terminated \<Longrightarrow>
    pipe_step rn ordered ResetStarts s (s\<lparr>pi_phase := Waiting 0, pi_last := None, pi_stored := None, pi_writing := None,
      pi_late := (case pi_writing s of None \<Rightarrow> [] | Some i \<Rightarrow> [i]) @ pi_late s\<rparr>)"

inductive_cases pipe_stepE: "pipe_step rn ordered ev s s'"

text \<open>The runs whose events all satisfy a condition.\<close>

inductive pipe_run :: "runner \<Rightarrow> bool \<Rightarrow> (event \<Rightarrow> bool) \<Rightarrow> pipe \<Rightarrow> pipe \<Rightarrow> bool" for rn ordered allowed where
  pipe_done: "pipe_run rn ordered allowed s s"
| pipe_more: "\<lbrakk>pipe_run rn ordered allowed s t; pipe_step rn ordered ev t u; allowed ev\<rbrakk> \<Longrightarrow>
    pipe_run rn ordered allowed s u"

end
