(* ===== verification/Pipeline_Claims.thy ===== *)
theory Pipeline_Claims
  imports Replication_Pipeline Pagination_Claims
begin

text \<open>
  The properties of a pipeline: whatever fails, what is stored as sent was taken by the exporter, if logs
  are committed in the order of their identifiers; then, without failures the logs are taken once and in order,
  and a pipeline can always catch up; a log committed out of order is never sent.
\<close>

section \<open>The pages a pipeline reads\<close>

definition ids_present :: "log list \<Rightarrow> bool" where
  "ids_present logs \<longleftrightarrow> identified (log_column ''id'') logs"

definition ordered_logs :: "log list \<Rightarrow> log list" where
  "ordered_logs logs = order_rows (log_column ''id'') OrderAsc logs"

definition after_log :: "nat option \<Rightarrow> log \<Rightarrow> bool" where
  "after_log k l = (case k of None \<Rightarrow> True | Some i \<Rightarrow> i < log_id l)"

definition page_length :: "runner \<Rightarrow> 64 word" where
  "page_length rn =
     (if pc_LogsPageSize (rn_config rn) = 0 then rn_default_size rn else pc_LogsPageSize (rn_config rn))"

lemma ids_present_iff:
  "ids_present logs \<longleftrightarrow> distinct (map log_id logs) \<and> (\<forall>l \<in> set logs. lg_ID l = Some (log_id l))"
proof -
  have some: "None \<notin> set (map (log_column ''id'') logs) \<longleftrightarrow> (\<forall>l \<in> set logs. lg_ID l = Some (log_id l))"
    by (force simp: log_column_def log_id_def split: option.splits)
  have "distinct (map (log_column ''id'') logs) \<longleftrightarrow> distinct (map log_id logs)"
    if "\<forall>l \<in> set logs. lg_ID l = Some (log_id l)"
    using that by (auto simp: distinct_map inj_on_def log_column_def)
  then show ?thesis using some by (auto simp: ids_present_def identified_def)
qed

lemma set_ordered_logs [simp]: "set (ordered_logs logs) = set logs"
  by (simp add: ordered_logs_def set_order_rows)

lemma ordered_logs_strict:
  assumes "ids_present logs"
  shows "sorted_wrt (\<lambda>l m. log_id l < log_id m) (ordered_logs logs)"
proof -
  have "sorted_wrt (\<lambda>l m. signed_key OrderAsc (log_column ''id'') l < signed_key OrderAsc (log_column ''id'') m)
      (ordered_logs logs)"
    unfolding ordered_logs_def using order_rows_strict assms by (simp add: ids_present_def)
  then show ?thesis
  proof (rule sorted_wrt_mono_rel [rotated])
    fix l m
    assume "l \<in> set (ordered_logs logs)" "m \<in> set (ordered_logs logs)"
      "signed_key OrderAsc (log_column ''id'') l < signed_key OrderAsc (log_column ''id'') m"
    then show "log_id l < log_id m"
      using assms by (auto simp: signed_key_def log_column_def ids_present_iff)
  qed
qed

lemma newer_dataset:
  assumes "ids_present logs"
  shows "logs_dataset ql logs \<lparr>rq_PIT = None, rq_OOT = None,
      rq_Builder = map_option (\<lambda>i. [(OperatorGT, ''id'', ABigInt (int i))]) k, rq_Expand = [], rq_Opts = ()\<rparr> =
    Inr (List.filter (after_log k) logs)"
proof (cases k)
  case None
  then show ?thesis by (simp add: logs_dataset_def buildFilteredDataset_def after_log_def [abs_def])
next
  case (Some i)
  have "buildFilteredDataset ql ReadLogs True None (Some [(OperatorGT, ''id'', ABigInt (int i))]) =
      Inr [Where ''id > ?'' [ArgValue (ABigInt (int i))]]"
    by (simp add: buildFilteredDataset_def validateFilters_def validate_leaf_def schema_defs match_property_def
      MatchKey_def operator_defs logs_ResolveFilter_def compare_column_def ConvertOperatorToSQL_def)
  moreover have "log_leaf_holds l (OperatorGT, ''id'', ABigInt (int i)) = Some True \<longleftrightarrow> after_log k l"
    if "l \<in> set logs" for l
    using that assms Some
    by (auto simp: log_leaf_holds_def log_column_def sql_compare_def operator_defs after_log_def ids_present_iff)
  ultimately show ?thesis
    using Some by (auto simp: logs_dataset_def intro!: filter_cong)
qed

lemma ListLogs_page:
  assumes "ids_present logs" and "small_size (page_length rn)"
  shows "\<exists>c. ListLogs (rn_libs rn) (rn_default_size rn) (rn_config rn) logs k = Inr c \<and>
    cu_Data c = take (unat (page_length rn)) (List.filter (after_log k) (ordered_logs logs)) \<and>
    (cu_HasMore c \<longleftrightarrow> unat (page_length rn) < length (List.filter (after_log k) (ordered_logs logs)))"
proof -
  let ?rs = "logs_repository (rn_libs rn) (rn_default_size rn) logs :: (log, unit) repository"
  let ?o = "\<lparr>rq_PIT = None, rq_OOT = None,
    rq_Builder = map_option (\<lambda>i. [(OperatorGT, ''id'', ABigInt (int i))]) k, rq_Expand = [], rq_Opts = ()\<rparr>"
  let ?q = "\<lparr>iq_Column = ''id'', iq_Order = Some OrderAsc, iq_PageSize = pc_LogsPageSize (rn_config rn), iq_Options = ?o\<rparr>"
  let ?w = "with_defaults ?rs ?q"
  let ?v = "initial_query.extend ?w \<lparr>cq_Bottom = None, cq_PaginationID = None, cq_Reverse = False\<rparr>"
  let ?rows = "List.filter (after_log k) logs"
  have w: "?w = ?q\<lparr>iq_PageSize := page_length rn\<rparr>"
    by (simp add: with_defaults_def logs_repository_def page_length_def)
  have v: "iq_Column ?v = ''id''" "iq_Order ?v = Some OrderAsc" "iq_PageSize ?v = page_length rn"
    "iq_Options ?v = ?o" "cq_PaginationID ?v = None" "\<not> cq_Reverse ?v"
    by (simp_all add: w extended_columns) (simp_all add: initial_query.defs)
  have field: "GetFieldByNameOrAlias (rs_Schema ?rs) ''id'' = Some (''id'', Paginated (NewField TypeNumeric))"
    using log_field by (simp add: logs_repository_def)
  have size: "page_size (rs_DefaultSize ?rs) (page_length rn) = page_length rn"
    using assms(2) by (auto simp: page_size_def small_size_def)
  have o: "ordered_rows ?rs ?v OrderAsc ?rows (unat (page_length rn))"
    using assms identified_filter [of "log_column ''id''" logs] newer_dataset [OF assms(1)]
    by (simp add: ordered_rows_def v field size) (simp add: logs_repository_def ids_present_def)
  have "ListLogs (rn_libs rn) (rn_default_size rn) (rn_config rn) logs k = column_page ?rs ?v"
    unfolding ListLogs_def next_logs_query_def
    by (rule first_column_page [of _ _ "''id''" "Paginated (NewField TypeNumeric)"])
      (simp_all add: w field Paginated_def NewField_def)
  moreover have "order_rows (rs_Key ?rs (iq_Column ?v)) OrderAsc ?rows = List.filter (after_log k) (ordered_logs logs)"
    unfolding v(1) using order_rows_filter [of "log_column ''id''" logs OrderAsc] assms(1)
    by (simp add: ordered_logs_def logs_repository_def ids_present_def)
  ultimately show ?thesis
    using forward_page [OF o, of 0] v(5,6) by (auto simp: stands_at_def)
qed

section \<open>What was sent was taken\<close>

text \<open>
  The identifiers that stand for a last log sent: stored, in memory, reported or being written. Every log
  up to one of them was taken. While a page is pushed it holds every log after the last one sent up to its
  own last.
\<close>

fun reported :: "handler_phase \<Rightarrow> nat set" where
  "reported (Reporting i _) = {i}"
| "reported _ = {}"

fun page_of :: "handler_phase \<Rightarrow> log list option" where
  "page_of (Pushing batch _) = Some batch"
| "page_of (PushFailed batch _) = Some batch"
| "page_of _ = None"

definition marks :: "pipe \<Rightarrow> nat set" where
  "marks s = set_option (pi_stored s) \<union> set_option (pi_last s) \<union> set_option (pi_writing s) \<union>
     set (pi_late s) \<union> reported (pi_phase s)"

definition covered :: "pipe \<Rightarrow> nat \<Rightarrow> bool" where
  "covered s k \<longleftrightarrow> (\<exists>l \<in> set (pi_logs s). log_id l = k) \<and>
     (\<forall>l \<in> set (pi_logs s). log_id l \<le> k \<longrightarrow> l \<in> set (pi_taken s))"

definition page_complete :: "pipe \<Rightarrow> log list \<Rightarrow> bool" where
  "page_complete s batch \<longleftrightarrow> batch \<noteq> [] \<and> set batch \<subseteq> set (pi_logs s) \<and>
     (\<forall>l \<in> set (pi_logs s). after_log (pi_last s) l \<longrightarrow> log_id l \<le> log_id (last batch) \<longrightarrow> l \<in> set batch)"

definition pipe_sound :: "pipe \<Rightarrow> bool" where
  "pipe_sound s \<longleftrightarrow> ids_present (pi_logs s) \<and> (\<forall>k \<in> marks s. covered s k) \<and>
     (\<forall>batch. page_of (pi_phase s) = Some batch \<longrightarrow> page_complete s batch)"

lemma ids_present_commit:
  assumes "ids_present logs" and "lg_ID l = Some i" and "\<forall>l' \<in> set logs. lg_ID l' \<noteq> Some i"
  shows "ids_present (logs @ [l])" "log_id l = i"
  using assms by (auto simp: ids_present_iff log_id_def)

lemma covered_commit:
  assumes "covered s k" and "\<forall>l' \<in> set (pi_logs s). log_id l' < log_id l"
  shows "covered (s\<lparr>pi_logs := pi_logs s @ [l]\<rparr>) k"
  using assms by (fastforce simp: covered_def)

lemma page_complete_commit:
  assumes "page_complete s batch" and "\<forall>l' \<in> set (pi_logs s). log_id l' < log_id l"
  shows "page_complete (s\<lparr>pi_logs := pi_logs s @ [l]\<rparr>) batch"
proof -
  have "log_id (last batch) < log_id l"
    using assms last_in_set by (auto simp: page_complete_def)
  then show ?thesis using assms(1) by (auto simp: page_complete_def)
qed

lemma covered_taken: "covered s k \<Longrightarrow> covered (s\<lparr>pi_taken := pi_taken s @ D\<rparr>) k"
  by (auto simp: covered_def)

text \<open>The first logs of those after the last one sent are all up to the last of them.\<close>

lemma first_logs_complete:
  assumes "ids_present (pi_logs s)" and "0 < n"
    and "batch = take n (List.filter (after_log (pi_last s)) (ordered_logs (pi_logs s)))" and "batch \<noteq> []"
  shows "page_complete s batch"
proof -
  let ?L = "List.filter (after_log (pi_last s)) (ordered_logs (pi_logs s))"
  have sorted: "sorted_wrt (\<lambda>l m. log_id l < log_id m) ?L"
    using ordered_logs_strict [OF assms(1)] by (rule sorted_wrt_filter)
  have "l \<in> set batch" if l: "l \<in> set ?L" "log_id l \<le> log_id (last batch)" for l
  proof (rule ccontr)
    assume "l \<notin> set batch"
    then have "l \<in> set (drop n ?L)"
      using l(1) assms(3) by (metis Un_iff append_take_drop_id set_append)
    moreover have "sorted_wrt (\<lambda>l m. log_id l < log_id m) (batch @ drop n ?L)"
      using sorted assms(3) by (metis append_take_drop_id)
    ultimately have "log_id (last batch) < log_id l"
      using assms(4) by (auto simp: sorted_wrt_append)
    then show False using l(2) by simp
  qed
  moreover have "set batch \<subseteq> set (pi_logs s)"
    using assms(3) set_take_subset [of n ?L] by auto
  ultimately show ?thesis using assms(4) by (auto simp: page_complete_def)
qed

text \<open>What the page of a pipeline is after a read.\<close>

lemma read_page:
  assumes "ids_present logs" and "small_size (page_length rn)"
  shows "case after_read (rn_config rn) n (ListLogs (rn_libs rn) (rn_default_size rn) (rn_config rn) logs k) of
      Pushing batch hasMore \<Rightarrow> batch \<noteq> [] \<and>
        batch = take (unat (page_length rn)) (List.filter (after_log k) (ordered_logs logs)) \<and>
        (hasMore \<longleftrightarrow> unat (page_length rn) < length (List.filter (after_log k) (ordered_logs logs)))
    | Waiting _ \<Rightarrow> List.filter (after_log k) (ordered_logs logs) = []
    | _ \<Rightarrow> False"
proof -
  have "0 < unat (page_length rn)" using assms(2) by (simp add: small_size_def)
  then show ?thesis
    using ListLogs_page [OF assms, of k] by (auto simp: after_read_def)
qed

lemma page_complete_update [simp]:
  "page_complete (s\<lparr>pi_phase := p\<rparr>) batch = page_complete s batch"
  "page_complete (s\<lparr>pi_taken := t\<rparr>) batch = page_complete s batch"
  "page_complete (s\<lparr>pi_stored := k\<rparr>) batch = page_complete s batch"
  "page_complete (s\<lparr>pi_writing := k\<rparr>) batch = page_complete s batch"
  "page_complete (s\<lparr>pi_late := ks\<rparr>) batch = page_complete s batch"
  by (simp_all add: page_complete_def)

lemma sound_changed:
  assumes "pipe_sound s" and "pi_logs s' = pi_logs s" and "set (pi_taken s) \<subseteq> set (pi_taken s')"
    and "marks s' \<subseteq> marks s"
    and "\<And>batch. page_of (pi_phase s') = Some batch \<Longrightarrow> page_complete s' batch"
  shows "pipe_sound s'"
proof -
  have "covered s' k" if k: "k \<in> marks s'" for k
  proof -
    have "covered s k" using assms(1,4) k by (auto simp: pipe_sound_def)
    then show ?thesis using assms(2,3) unfolding covered_def by (metis subsetD)
  qed
  then show ?thesis using assms(1,2,5) by (simp add: pipe_sound_def)
qed

context exporter
begin

lemma pushed_page_covers:
  assumes "pipe_sound s" and "pi_phase s = Pushing batch hasMore" and "accepts batch True D"
  shows "covered (s\<lparr>pi_phase := Reporting (log_id (last batch)) hasMore, pi_last := Some (log_id (last batch)),
    pi_taken := pi_taken s @ D\<rparr>) (log_id (last batch))"
proof -
  have page: "page_complete s batch" using assms(1,2) by (simp add: pipe_sound_def)
  have taken: "set batch \<subseteq> set D" using all_taken [OF assms(3)] .
  have old: "l \<in> set (pi_taken s)" if "l \<in> set (pi_logs s)" "\<not> after_log (pi_last s) l" for l
    using assms(1) that by (cases "pi_last s") (auto simp: pipe_sound_def marks_def covered_def after_log_def)
  have "last batch \<in> set (pi_logs s)" using page last_in_set by (auto simp: page_complete_def)
  moreover have "l \<in> set (pi_taken s @ D)" if "l \<in> set (pi_logs s)" "log_id l \<le> log_id (last batch)" for l
    using that page taken old [OF that(1)] by (auto simp: page_complete_def)
  ultimately show ?thesis by (auto simp: covered_def)
qed

lemma step_sound:
  assumes "pipe_sound s" and "pipe_step rn True ev s s'"
    and rn: "rn_accepts rn = accepts" and size: "small_size (page_length rn)"
  shows "pipe_sound s'"
  using assms(2)
proof (cases rule: pipe_step.cases)
  case (commits l i)
  then have new: "\<forall>l' \<in> set (pi_logs s). log_id l' < log_id l"
    using ids_present_commit(2) assms(1) by (auto simp: pipe_sound_def)
  have "marks s' = marks s" "pi_phase s' = pi_phase s" using commits by (simp_all add: marks_def)
  then show ?thesis
    using assms(1) ids_present_commit(1) commits covered_commit [OF _ new] page_complete_commit [OF _ new]
    by (auto simp: pipe_sound_def)
next
  case (reads n)
  have ids: "ids_present (pi_logs s)" using assms(1) by (simp add: pipe_sound_def)
  note page = read_page [OF ids size, where n = n and k = "pi_last s"]
  have pos: "0 < unat (page_length rn)" using size by (simp add: small_size_def)
  show ?thesis
  proof (rule sound_changed [OF assms(1)])
    show "marks s' \<subseteq> marks s"
      using page reads by (auto simp: marks_def split: handler_phase.splits)
    show "page_complete s' batch" if b: "page_of (pi_phase s') = Some batch" for batch
    proof -
      obtain hasMore where "after_read (rn_config rn) n (ListLogs (rn_libs rn) (rn_default_size rn) (rn_config rn)
          (pi_logs s) (pi_last s)) = Pushing batch hasMore"
        using b page reads by (auto split: handler_phase.splits)
      then have "batch \<noteq> [] \<and> batch = take (unat (page_length rn)) (List.filter (after_log (pi_last s)) (ordered_logs (pi_logs s)))"
        using page by (simp only: handler_phase.case) blast
      then have "page_complete s batch" using first_logs_complete [OF ids pos] by blast
      then show ?thesis using reads by (simp add: page_complete_def)
    qed
  qed (use reads in auto)
next
  case (pushes batch hasMore D i)
  have page: "page_complete s batch" using assms(1) pushes by (simp add: pipe_sound_def)
  then have "last batch \<in> set (pi_logs s)" using last_in_set by (auto simp: page_complete_def)
  then have i: "i = log_id (last batch)" using pushes by (simp add: log_id_def)
  have "covered s' i"
    using pushed_page_covers [OF assms(1), of batch hasMore D] pushes rn i by simp
  moreover have "covered s' k" if "k \<in> marks s' - {i}" for k
  proof -
    have "k \<in> marks s" using that pushes by (auto simp: marks_def)
    then show ?thesis using assms(1) pushes by (auto simp: pipe_sound_def covered_def)
  qed
  ultimately show ?thesis
    using assms(1) pushes by (auto simp: pipe_sound_def)
qed (rule sound_changed [OF assms(1)];
  use assms(1) in \<open>auto simp: marks_def pipe_sound_def split: option.splits handler_phase.splits\<close>)+

end

lemma run_induct_sound:
  assumes "pipe_run rn True allowed s s'" and "pipe_sound s"
    and takes_all: "\<And>batch D. rn_accepts rn batch True D \<Longrightarrow> set batch \<subseteq> set D"
    and "small_size (page_length rn)"
  shows "pipe_sound s'"
  using assms(1,2)
proof (induction rule: pipe_run.induct)
  case (pipe_more s t ev u)
  have "exporter (rn_accepts rn)" using takes_all by (rule exporter.intro)
  then show ?case
    using exporter.step_sound pipe_more assms(4) by blast
qed

lemma start_sound: "ids_present logs \<Longrightarrow> pipe_sound (pipe_start logs)"
  by (simp add: pipe_sound_def pipe_start_def marks_def)

text \<open>
  Claim C16. What is said to be sent was taken: whatever fails, stops, crashes, restarts and is reset, every log
  up to the stored last log, or to the one in memory, was taken by the exporter at least once, if logs are
  committed in the order of their identifiers and the exporter takes what it answers without an error.
\<close>

theorem sent_logs_were_taken:
  assumes takes_all: "\<And>batch D. rn_accepts rn batch True D \<Longrightarrow> set batch \<subseteq> set D"
    and "small_size (page_length rn)" and "ids_present logs"
    and run: "pipe_run rn True (\<lambda>_. True) (pipe_start logs) s"
    and l: "l \<in> set (pi_logs s)" "pi_stored s = Some k \<or> pi_last s = Some k" "log_id l \<le> k"
  shows "l \<in> set (pi_taken s)"
proof -
  have "pipe_sound s"
    using run_induct_sound [OF run start_sound takes_all] assms(2,3) by blast
  moreover have "k \<in> marks s" using l(2) by (auto simp: marks_def)
  ultimately show ?thesis using l by (auto simp: pipe_sound_def covered_def)
qed

section \<open>Each log once, in order\<close>

definition calm :: "event \<Rightarrow> bool" where
  "calm ev \<longleftrightarrow> ev \<in> {Commits, Reads, ReadFails, Retries, Pushes, Reports, Stores, StoreFails}"

text \<open>The page is the logs after the last one sent up to its own last.\<close>

definition page_exact :: "pipe \<Rightarrow> log list \<Rightarrow> bool" where
  "page_exact s batch \<longleftrightarrow> batch \<noteq> [] \<and> set batch \<subseteq> set (pi_logs s) \<and>
     batch = List.filter (\<lambda>l. after_log (pi_last s) l \<and> log_id l \<le> log_id (last batch)) (ordered_logs (pi_logs s))"

definition calm_sound :: "pipe \<Rightarrow> bool" where
  "calm_sound s \<longleftrightarrow> ids_present (pi_logs s) \<and> pi_phase s \<noteq> Terminated \<and>
     pi_taken s = List.filter (\<lambda>l. \<not> after_log (pi_last s) l) (ordered_logs (pi_logs s)) \<and>
     (\<forall>k. pi_last s = Some k \<longrightarrow> (\<exists>l \<in> set (pi_logs s). log_id l = k)) \<and>
     (\<forall>batch. page_of (pi_phase s) = Some batch \<longrightarrow> page_exact s batch)"

lemma ordered_logs_commit:
  assumes "ids_present (logs @ [l])" and "\<forall>l' \<in> set logs. log_id l' < log_id l"
  shows "ordered_logs (logs @ [l]) = ordered_logs logs @ [l]"
proof -
  let ?f = "signed_key OrderAsc (log_column ''id'')"
  have ids: "ids_present logs" using assms(1) by (auto simp: ids_present_iff)
  have f: "?f m = int (log_id m)" if "m \<in> set (logs @ [l])" for m
    using that assms(1) by (auto simp: signed_key_def log_column_def ids_present_iff)
  have sorts: "ordered_logs xs = sort_key ?f xs" if "ids_present xs" for xs
    using order_rows_sort [of "log_column ''id''" xs] that by (simp add: ordered_logs_def ids_present_def identified_def)
  have le: "?f m \<le> ?f l" if "m \<in> set logs" for m
  proof -
    have "log_id m < log_id l" using assms(2) that by blast
    then show ?thesis using f [of m] f [of l] that by simp
  qed
  have "sorted (map ?f (sort_key ?f logs @ [l]))"
    using le by (simp add: sorted_append)
  moreover have "inj_on ?f (set (logs @ [l]))"
    using assms(1) signed_key_inj [of "log_column ''id''" "logs @ [l]" OrderAsc]
    unfolding ids_present_def by blast
  ultimately have "sort_key ?f (logs @ [l]) = sort_key ?f logs @ [l]"
    by (intro sort_key_inj_key_eq) simp_all
  then show ?thesis using sorts [OF ids] sorts [OF assms(1)] by simp
qed

lemma filter_before_after:
  assumes "sorted_wrt (\<lambda>l m. log_id l < log_id m) L" and "\<And>l m. log_id l < log_id m \<Longrightarrow> P m \<Longrightarrow> P l"
  shows "List.filter P L @ List.filter (\<lambda>l. \<not> P l \<and> Q l) L = List.filter (\<lambda>l. P l \<or> Q l) L"
  using assms(1)
proof (induction L)
  case (Cons l L)
  show ?case
  proof (cases "P l")
    case True
    then show ?thesis using Cons by simp
  next
    case False
    then have none: "\<not> P m" if "m \<in> set L" for m
      using that Cons.prems assms(2) by auto
    then have "List.filter P L = []" by (simp add: filter_empty_conv)
    moreover have "List.filter (\<lambda>l. \<not> P l \<and> Q l) L = List.filter (\<lambda>l. P l \<or> Q l) L"
      using none by (intro filter_cong) auto
    ultimately show ?thesis using False by simp
  qed
qed simp

lemma last_is_greatest:
  "sorted_wrt (\<lambda>l m. log_id l < log_id m) L \<Longrightarrow> l \<in> set L \<Longrightarrow> log_id l \<le> log_id (last L)"
  by (induction L) (auto split: if_splits simp: less_imp_le)

lemma first_logs_exact:
  assumes "ids_present (pi_logs s)" and "0 < n"
    and batch: "batch = take n (List.filter (after_log (pi_last s)) (ordered_logs (pi_logs s)))" "batch \<noteq> []"
  shows "page_exact s batch"
proof -
  let ?L = "List.filter (after_log (pi_last s)) (ordered_logs (pi_logs s))"
  have complete: "page_complete s batch" using first_logs_complete [OF assms] .
  have sorted: "sorted_wrt (\<lambda>l m. log_id l < log_id m) (batch @ drop n ?L)"
    using sorted_wrt_filter [OF ordered_logs_strict [OF assms(1)], of "after_log (pi_last s)"] batch(1)
    by (metis append_take_drop_id)
  have "log_id l \<le> log_id (last batch)" if "l \<in> set batch" for l
    using sorted that last_is_greatest [of batch l] by (simp add: sorted_wrt_append)
  moreover have "\<not> log_id l \<le> log_id (last batch)" if "l \<in> set (drop n ?L)" for l
    using that sorted batch(2) by (auto simp: sorted_wrt_append not_le)
  ultimately have "List.filter (\<lambda>l. log_id l \<le> log_id (last batch)) (batch @ drop n ?L) = batch"
    by (simp add: filter_id_conv filter_empty_conv)
  then have "batch = List.filter (\<lambda>l. log_id l \<le> log_id (last batch)) ?L"
    using batch(1) by (metis append_take_drop_id)
  then show ?thesis using complete by (simp add: page_exact_def page_complete_def conj_commute)
qed

lemma not_after_mono: "log_id l < log_id m \<Longrightarrow> \<not> after_log k m \<Longrightarrow> \<not> after_log k l"
  by (auto simp: after_log_def split: option.splits)

lemma push_takes_next:
  assumes "ids_present (pi_logs s)" and "page_exact s batch"
    and "\<forall>k. pi_last s = Some k \<longrightarrow> (\<exists>l \<in> set (pi_logs s). log_id l = k)"
  shows "List.filter (\<lambda>l. \<not> after_log (pi_last s) l) (ordered_logs (pi_logs s)) @ batch =
    List.filter (\<lambda>l. \<not> after_log (Some (log_id (last batch))) l) (ordered_logs (pi_logs s))"
proof -
  let ?L = "ordered_logs (pi_logs s)" and ?i = "log_id (last batch)"
  have batch: "batch = List.filter (\<lambda>l. after_log (pi_last s) l \<and> log_id l \<le> ?i) ?L" "batch \<noteq> []"
    using assms(2) by (simp_all add: page_exact_def)
  have "last batch \<in> set (List.filter (\<lambda>l. after_log (pi_last s) l \<and> log_id l \<le> ?i) ?L)"
    using batch last_in_set by metis
  then have low: "log_id l \<le> ?i" if "\<not> after_log (pi_last s) l" for l
    using that by (auto simp: after_log_def split: option.splits)
  have "after_log (Some ?i) l \<longleftrightarrow> ?i < log_id l" for l by (simp add: after_log_def)
  then have eq: "(\<lambda>l. \<not> after_log (pi_last s) l \<or> log_id l \<le> ?i) = (\<lambda>l. \<not> after_log (Some ?i) l)"
    using low by (intro ext) (metis not_le)
  have "List.filter (\<lambda>l. \<not> after_log (pi_last s) l) ?L @
      List.filter (\<lambda>l. \<not> \<not> after_log (pi_last s) l \<and> log_id l \<le> ?i) ?L =
    List.filter (\<lambda>l. \<not> after_log (pi_last s) l \<or> log_id l \<le> ?i) ?L"
    by (rule filter_before_after [OF ordered_logs_strict [OF assms(1)]]) (rule not_after_mono)
  then show ?thesis unfolding not_not batch(1) [symmetric] eq .
qed

lemma page_exact_update [simp]:
  "page_exact (s\<lparr>pi_phase := p\<rparr>) batch = page_exact s batch"
  "page_exact (s\<lparr>pi_stored := k\<rparr>) batch = page_exact s batch"
  "page_exact (s\<lparr>pi_writing := k\<rparr>) batch = page_exact s batch"
  by (simp_all add: page_exact_def)

lemma calm_step_sound:
  assumes s: "calm_sound s" and step: "pipe_step rn True ev s s'" and "calm ev"
    and exact: "\<And>batch D. rn_accepts rn batch True D \<Longrightarrow> D = batch"
    and size: "small_size (page_length rn)"
  shows "calm_sound s'"
  using step
proof (cases rule: pipe_step.cases)
  case (commits l i)
  then have ids: "ids_present (pi_logs s @ [l])" and i: "log_id l = i"
    using ids_present_commit s by (auto simp: calm_sound_def)
  have new: "\<forall>l' \<in> set (pi_logs s). log_id l' < log_id l" using commits i by simp
  have ord: "ordered_logs (pi_logs s @ [l]) = ordered_logs (pi_logs s) @ [l]"
    by (rule ordered_logs_commit [OF ids new])
  have "after_log (pi_last s) l"
    using s new by (fastforce simp: after_log_def calm_sound_def split: option.splits)
  moreover have "page_exact s' batch" if b: "page_exact s batch" for batch
  proof -
    have "log_id (last batch) < log_id l"
      using b new last_in_set by (auto simp: page_exact_def)
    then show ?thesis using b commits by (simp add: page_exact_def ord) blast
  qed
  ultimately show ?thesis
    using s ids commits by (auto simp: calm_sound_def ord)
next
  case (reads n)
  have ids: "ids_present (pi_logs s)" using s by (simp add: calm_sound_def)
  note page = read_page [OF ids size, where n = n and k = "pi_last s"]
  have pos: "0 < unat (page_length rn)" using size by (simp add: small_size_def)
  let ?p = "after_read (rn_config rn) n (ListLogs (rn_libs rn) (rn_default_size rn) (rn_config rn) (pi_logs s) (pi_last s))"
  have "page_exact s batch" if b: "page_of ?p = Some batch" for batch
  proof -
    obtain hasMore where "?p = Pushing batch hasMore"
      using b page by (auto split: handler_phase.splits)
    then have "batch \<noteq> [] \<and> batch = take (unat (page_length rn)) (List.filter (after_log (pi_last s)) (ordered_logs (pi_logs s)))"
      using page by (simp only: handler_phase.case) blast
    then show ?thesis using first_logs_exact [OF ids pos] by blast
  qed
  moreover have "?p \<noteq> Terminated" using page by auto
  ultimately show ?thesis using s reads by (auto simp: calm_sound_def)
next
  case (pushes batch hasMore D i)
  have page: "page_exact s batch" using s pushes by (simp add: calm_sound_def)
  have ids: "ids_present (pi_logs s)" using s by (simp add: calm_sound_def)
  have "last batch \<in> set (pi_logs s)" using page last_in_set by (auto simp: page_exact_def)
  moreover have "i = log_id (last batch)" using pushes by (simp add: log_id_def)
  moreover have "D = batch" using exact pushes by blast
  ultimately show ?thesis
    using push_takes_next [OF ids page] s pushes by (auto simp: calm_sound_def)
qed (use assms in \<open>auto simp: calm_sound_def calm_def\<close>)

text \<open>
  Claim C17. Where logs are committed in the order of their identifiers, and without failures of the exporter,
  stops and restarts, each log is taken once and in order: at every moment the logs taken are exactly the logs up
  to the last one sent, in the order of their identifiers. Reads and stores may fail. (Where logs may be committed
  in another order this is false: see the last claim of this theory.)
\<close>

theorem calm_pipelines_take_each_log_once:
  assumes exact: "\<And>batch D. rn_accepts rn batch True D \<Longrightarrow> D = batch"
    and "small_size (page_length rn)" and "ids_present logs"
    and run: "pipe_run rn True calm (pipe_start logs) s"
  shows "pi_taken s = List.filter (\<lambda>l. \<not> after_log (pi_last s) l) (ordered_logs (pi_logs s))"
proof -
  have start: "calm_sound (pipe_start logs)"
    using assms(3) by (simp add: calm_sound_def pipe_start_def after_log_def)
  have "calm_sound s"
    using run start
  proof (induction rule: pipe_run.induct)
    case (pipe_more s t ev u)
    then show ?case using calm_step_sound [OF _ _ _ exact assms(2)] by blast
  qed
  then show ?thesis by (simp add: calm_sound_def)
qed

section \<open>Catching up\<close>

text \<open>What a running pipeline does when nothing fails.\<close>

definition steady :: "event \<Rightarrow> bool" where
  "steady ev \<longleftrightarrow> ev \<in> {Reads, Retries, Pushes, Reports, Stores}"

lemma run_trans: "pipe_run rn b P t u \<Longrightarrow> pipe_run rn b P s t \<Longrightarrow> pipe_run rn b P s u"
  by (induction rule: pipe_run.induct) (auto intro: pipe_run.intros)

lemma run_step: "pipe_step rn b ev s t \<Longrightarrow> P ev \<Longrightarrow> pipe_run rn b P s t"
  by (rule pipe_more [OF pipe_done])

lemma reporting_to_waiting:
  assumes "pi_phase s = Reporting i hasMore"
  shows "\<exists>s' n. pipe_run rn True steady s s' \<and> pi_phase s' = Waiting n \<and> pi_logs s' = pi_logs s \<and>
    pi_last s' = pi_last s"
proof -
  obtain t where t: "pipe_run rn True steady s t" "pi_phase t = Reporting i hasMore" "pi_writing t = None"
    "pi_logs t = pi_logs s" "pi_last t = pi_last s"
  proof (cases "pi_writing s")
    case None
    then show ?thesis using that [of s] assms pipe_done by blast
  next
    case (Some j)
    then show ?thesis
      using that [of "s\<lparr>pi_stored := Some j, pi_writing := None\<rparr>"] assms run_step [OF stores, of s j steady rn True]
      by (simp add: steady_def)
  qed
  have "pipe_run rn True steady t (t\<lparr>pi_writing := Some i, pi_phase := Waiting (after_report (rn_config rn) hasMore)\<rparr>)"
    using t(2,3) by (intro run_step [OF reports]) (simp_all add: steady_def)
  from run_trans [OF this t(1)] show ?thesis using t(4,5) by fastforce
qed

lemma pushing_to_waiting:
  assumes "pi_phase s = Pushing batch hasMore" and "page_complete s batch" and "ids_present (pi_logs s)"
    and "\<exists>D. rn_accepts rn batch True D"
  shows "\<exists>s' n. pipe_run rn True steady s s' \<and> pi_phase s' = Waiting n \<and> pi_logs s' = pi_logs s \<and>
    pi_last s' = Some (log_id (last batch))"
proof -
  obtain D where D: "rn_accepts rn batch True D" using assms(4) by blast
  have "last batch \<in> set (pi_logs s)" using assms(2) last_in_set by (auto simp: page_complete_def)
  then have i: "lg_ID (last batch) = Some (log_id (last batch))" using assms(3) by (simp add: ids_present_iff)
  let ?t = "s\<lparr>pi_phase := Reporting (log_id (last batch)) hasMore, pi_last := Some (log_id (last batch)),
    pi_taken := pi_taken s @ D\<rparr>"
  have st: "pipe_run rn True steady s ?t"
    using pushes [OF assms(1) D i] by (rule run_step) (simp add: steady_def)
  obtain s' n where "pipe_run rn True steady ?t s'" "pi_phase s' = Waiting n" "pi_logs s' = pi_logs ?t"
    "pi_last s' = pi_last ?t"
    using reporting_to_waiting [of ?t "log_id (last batch)" hasMore rn] by auto
  then show ?thesis using run_trans [OF _ st] by (intro exI [of _ s'] exI [of _ n]) simp
qed

lemma any_to_waiting:
  assumes "pipe_sound s" and "\<And>batch. \<exists>D. rn_accepts rn batch True D" and "pi_phase s \<noteq> Terminated"
  shows "\<exists>s' n. pipe_run rn True steady s s' \<and> pi_phase s' = Waiting n \<and> pi_logs s' = pi_logs s"
proof (cases "pi_phase s")
  case (Waiting n)
  then show ?thesis using pipe_done by blast
next
  case (ReadFailed n)
  have "pipe_run rn True steady s (s\<lparr>pi_phase := Waiting n\<rparr>)"
    using read_again [OF ReadFailed] by (rule run_step) (simp add: steady_def)
  then show ?thesis by (intro exI [of _ "s\<lparr>pi_phase := Waiting n\<rparr>"] exI [of _ n]) simp
next
  case (Pushing batch hasMore)
  then show ?thesis
    using pushing_to_waiting [OF Pushing, of rn] assms by (fastforce simp: pipe_sound_def)
next
  case (PushFailed batch hasMore)
  let ?t = "s\<lparr>pi_phase := Pushing batch hasMore\<rparr>"
  have st: "pipe_run rn True steady s ?t"
    using push_again [OF PushFailed] by (rule run_step) (simp add: steady_def)
  have "page_complete ?t batch" "ids_present (pi_logs ?t)"
    using assms(1) PushFailed by (simp_all add: pipe_sound_def)
  then obtain s' n where "pipe_run rn True steady ?t s'" "pi_phase s' = Waiting n" "pi_logs s' = pi_logs ?t"
    using pushing_to_waiting [of ?t batch hasMore rn] assms(2) by auto
  then show ?thesis using run_trans [OF _ st] by (intro exI [of _ s'] exI [of _ n]) simp
next
  case (Reporting i hasMore)
  then show ?thesis using reporting_to_waiting by blast
qed (use assms(3) in simp)

lemma waiting_catches_up:
  assumes takes_all: "\<And>batch D. rn_accepts rn batch True D \<Longrightarrow> set batch \<subseteq> set D"
    and accepts: "\<And>batch. \<exists>D. rn_accepts rn batch True D" and size: "small_size (page_length rn)"
  shows "pipe_sound s \<Longrightarrow> pi_phase s = Waiting n \<Longrightarrow>
    \<exists>s'. pipe_run rn True steady s s' \<and> pi_logs s' = pi_logs s \<and> (\<forall>l \<in> set (pi_logs s). \<not> after_log (pi_last s') l)"
proof (induction "length (List.filter (after_log (pi_last s)) (ordered_logs (pi_logs s)))" arbitrary: s n
    rule: less_induct)
  case less
  let ?newer = "\<lambda>s. List.filter (after_log (pi_last s)) (ordered_logs (pi_logs s))"
  have ids: "ids_present (pi_logs s)" using less.prems(1) by (simp add: pipe_sound_def)
  show ?case
  proof (cases "?newer s = []")
    case True
    then have "\<forall>l \<in> set (pi_logs s). \<not> after_log (pi_last s) l" by (simp add: filter_empty_conv)
    then show ?thesis using pipe_done by blast
  next
    case False
    let ?p = "after_read (rn_config rn) n (ListLogs (rn_libs rn) (rn_default_size rn) (rn_config rn) (pi_logs s) (pi_last s))"
    let ?t = "s\<lparr>pi_phase := ?p\<rparr>"
    have st: "pipe_run rn True steady s ?t"
      using reads [OF less.prems(2)] by (rule run_step) (simp add: steady_def)
    obtain batch hasMore where p: "?p = Pushing batch hasMore" "batch \<noteq> []" "set batch \<subseteq> set (?newer s)"
      using read_page [OF ids size, where n = n and k = "pi_last s"] False
      using set_take_subset [of "unat (page_length rn)" "?newer s"] by (auto split: handler_phase.splits)
    have t: "pipe_sound ?t" by (rule run_induct_sound [OF st less.prems(1) takes_all size])
    then obtain s1 m where s1: "pipe_run rn True steady ?t s1" "pi_phase s1 = Waiting m" "pi_logs s1 = pi_logs s"
      "pi_last s1 = Some (log_id (last batch))"
      using pushing_to_waiting [of ?t batch hasMore rn] p(1) accepts by (fastforce simp: pipe_sound_def)
    have "pipe_sound s1" by (rule run_induct_sound [OF s1(1) t takes_all size])
    moreover have "length (?newer s1) < length (?newer s)"
    proof -
      have b: "last batch \<in> set (?newer s)" using p(2,3) last_in_set by blast
      have "after_log (pi_last s) l" if "after_log (pi_last s1) l" for l
        using that b s1(4) by (auto simp: after_log_def split: option.splits)
      then have "?newer s1 = List.filter (after_log (pi_last s1)) (?newer s)"
        using s1(3) by (auto intro: filter_cong)
      moreover have "\<not> after_log (pi_last s1) (last batch)" using s1(4) by (simp add: after_log_def)
      ultimately show ?thesis using b by (metis length_filter_less)
    qed
    ultimately obtain s' where "pipe_run rn True steady s1 s'" "pi_logs s' = pi_logs s1"
      "\<forall>l \<in> set (pi_logs s1). \<not> after_log (pi_last s') l"
      using less.hyps [OF _ _ s1(2)] by blast
    then show ?thesis using run_trans run_trans [OF s1(1) st] s1(3) by metis
  qed
qed

text \<open>
  Claim C18. Where logs are committed in the order of their identifiers, a pipeline is never stuck: from whatever
  failures, stops, crashes and resets left, one start, needed only if the pipeline is not running, and then only
  reads, waits, pushes, reports and stores, of which none fails, lead to a state in which the exporter took every
  log. The exporter can take any page, and takes what it answers without an error.
\<close>

theorem pipelines_catch_up:
  assumes takes_all: "\<And>batch D. rn_accepts rn batch True D \<Longrightarrow> set batch \<subseteq> set D"
    and accepts: "\<And>batch. \<exists>D. rn_accepts rn batch True D" and size: "small_size (page_length rn)"
    and "ids_present logs" and run: "pipe_run rn True (\<lambda>_. True) (pipe_start logs) s"
  shows "\<exists>t s'. (if pi_phase s = Terminated then pipe_step rn True Starts s t else t = s) \<and>
    pipe_run rn True steady t s' \<and> pi_logs s' = pi_logs s \<and> set (pi_logs s) \<subseteq> set (pi_taken s')"
proof -
  obtain t where t: "if pi_phase s = Terminated then pipe_step rn True Starts s t else t = s"
    "pi_phase t \<noteq> Terminated" "pi_logs t = pi_logs s"
  proof (cases "pi_phase s = Terminated")
    case True
    from starts [OF this] show ?thesis using that True by fastforce
  next
    case False
    then show ?thesis using that by simp
  qed
  have "pipe_run rn True (\<lambda>_. True) (pipe_start logs) t"
    using t(1) run by (auto intro: pipe_more split: if_splits)
  from run_induct_sound [OF this start_sound takes_all size] have sound: "pipe_sound t" using assms(4) by blast
  obtain u n where u: "pipe_run rn True steady t u" "pi_phase u = Waiting n" "pi_logs u = pi_logs t"
    using any_to_waiting [OF sound accepts t(2)] by blast
  have "pipe_sound u" by (rule run_induct_sound [OF u(1) sound takes_all size])
  then obtain s' where s': "pipe_run rn True steady u s'" "pi_logs s' = pi_logs u"
    "\<forall>l \<in> set (pi_logs u). \<not> after_log (pi_last s') l"
    using waiting_catches_up [OF takes_all accepts size _ u(2)] by blast
  have "pipe_sound s'"
    using run_induct_sound [OF s'(1) \<open>pipe_sound u\<close> takes_all size] .
  then have "l \<in> set (pi_taken s')" if "l \<in> set (pi_logs s)" for l
    using that s'(2,3) u(3) t(3)
    by (cases "pi_last s'") (auto simp: after_log_def pipe_sound_def marks_def covered_def)
  then show ?thesis using t(1,3) run_trans [OF s'(1) u(1)] s'(2) u(3) by (metis subsetI)
qed

section \<open>Logs committed out of order\<close>

text \<open>A log the pipeline has passed: it was not taken, and every last log that can be read is after it.\<close>

definition passed :: "log \<Rightarrow> pipe \<Rightarrow> bool" where
  "passed l s \<longleftrightarrow> ids_present (pi_logs s) \<and> l \<in> set (pi_logs s) \<and> l \<notin> set (pi_taken s) \<and>
     pi_stored s \<noteq> None \<and> pi_last s \<noteq> None \<and> (\<forall>k \<in> marks s. log_id l \<le> k) \<and>
     (\<forall>batch. page_of (pi_phase s) = Some batch \<longrightarrow> l \<notin> set batch \<and> batch \<noteq> [] \<and> log_id l \<le> log_id (last batch))"

definition no_reset :: "event \<Rightarrow> bool" where
  "no_reset ev \<longleftrightarrow> ev \<noteq> Resets \<and> ev \<noteq> ResetStarts"

lemma passed_step:
  assumes l: "passed l s" and step: "pipe_step rn ordered ev s s'" and "no_reset ev"
    and within: "\<And>batch ok D. rn_accepts rn batch ok D \<Longrightarrow> set D \<subseteq> set batch"
    and size: "small_size (page_length rn)"
  shows "passed l s'"
  using step
proof (cases rule: pipe_step.cases)
  case (commits l' i)
  then show ?thesis using l ids_present_commit(1) [of "pi_logs s" l' i] by (auto simp: passed_def marks_def)
next
  case (reads n)
  have ids: "ids_present (pi_logs s)" using l by (simp add: passed_def)
  note page = read_page [OF ids size, where n = n and k = "pi_last s"]
  let ?p = "after_read (rn_config rn) n (ListLogs (rn_libs rn) (rn_default_size rn) (rn_config rn) (pi_logs s) (pi_last s))"
  obtain k where k: "pi_last s = Some k" "log_id l \<le> k" using l by (auto simp: passed_def marks_def)
  have "l \<notin> set batch \<and> batch \<noteq> [] \<and> log_id l \<le> log_id (last batch)" if b: "page_of ?p = Some batch" for batch
  proof -
    obtain hasMore where "?p = Pushing batch hasMore"
      using b page by (auto split: handler_phase.splits)
    then have batch: "batch \<noteq> [] \<and> batch = take (unat (page_length rn)) (List.filter (after_log (pi_last s)) (ordered_logs (pi_logs s)))"
      using page by (simp only: handler_phase.case) blast
    then have "set batch \<subseteq> set (List.filter (after_log (pi_last s)) (ordered_logs (pi_logs s)))"
      by (metis set_take_subset)
    then have later: "k < log_id m" if "m \<in> set batch" for m
      using that k(1) by (auto simp: after_log_def)
    have "k < log_id (last batch)" using later batch last_in_set by blast
    then show ?thesis using batch later [of l] k(2) by auto
  qed
  moreover have "reported ?p = {}" using page by (auto split: handler_phase.splits)
  ultimately show ?thesis using l reads by (auto simp: passed_def marks_def)
next
  case (pushes batch hasMore D i)
  then have "set D \<subseteq> set batch" "i = log_id (last batch)" using within by (auto simp: log_id_def)
  then show ?thesis using l pushes by (auto simp: passed_def marks_def)
next
  case (push_fails batch hasMore D)
  then have "set D \<subseteq> set batch" using within by blast
  then show ?thesis using l push_fails by (auto simp: passed_def marks_def)
next
  case (stops D)
  then show ?thesis using l by (auto simp: passed_def marks_def split: handler_phase.splits)
next
  case starts
  then show ?thesis using l by (auto simp: passed_def marks_def split: option.splits)
qed (use l assms(3) in \<open>auto simp: passed_def marks_def no_reset_def\<close>)

lemma passed_run:
  assumes "pipe_run rn ordered no_reset s s'" and "passed l s"
    and "\<And>batch ok D. rn_accepts rn batch ok D \<Longrightarrow> set D \<subseteq> set batch" and "small_size (page_length rn)"
  shows "l \<notin> set (pi_taken s')"
proof -
  have "passed l s'"
    using assms(1,2)
  proof (induction rule: pipe_run.induct)
    case (pipe_more s t ev u)
    show ?case
      by (rule passed_step [OF pipe_more.IH [OF pipe_more.prems] pipe_more.hyps(2,3)]) (fact assms)+
  qed
  then show ?thesis by (simp add: passed_def)
qed

text \<open>A ledger of one log that was sent and stored.\<close>

lemma one_log_sent:
  assumes id: "lg_ID l = Some i" and accepts: "rn_accepts rn [l] True D" and size: "small_size (page_length rn)"
  shows "pipe_run rn ordered calm (pipe_start [l])
    \<lparr>pi_logs = [l], pi_taken = D, pi_stored = Some i, pi_last = Some i,
     pi_phase = Waiting (pc_PullInterval (rn_config rn)), pi_writing = None, pi_late = []\<rparr>"
proof -
  let ?s = "pipe_start [l]"
  have ids: "ids_present [l]" using id by (simp add: ids_present_iff log_id_def)
  have "List.filter (after_log None) (ordered_logs [l]) = [l]"
    using id by (simp add: ordered_logs_def order_rows_def log_column_def after_log_def [abs_def])
  moreover have "0 < unat (page_length rn)" using size by (simp add: small_size_def)
  ultimately have p: "after_read (rn_config rn) 0 (ListLogs (rn_libs rn) (rn_default_size rn) (rn_config rn) [l] None) =
      Pushing [l] False"
    using ListLogs_page [OF ids size, of None] by (auto simp: after_read_def)
  let ?s1 = "?s\<lparr>pi_phase := Pushing [l] False\<rparr>"
  let ?s2 = "?s1\<lparr>pi_phase := Reporting i False, pi_last := Some i, pi_taken := pi_taken ?s1 @ D\<rparr>"
  let ?s3 = "?s2\<lparr>pi_writing := Some i, pi_phase := Waiting (after_report (rn_config rn) False)\<rparr>"
  let ?s4 = "?s3\<lparr>pi_stored := Some i, pi_writing := None\<rparr>"
  have c: "calm Reads" "calm Pushes" "calm Reports" "calm Stores" by (simp_all add: calm_def)
  have r: "pipe_step rn ordered Reads ?s ?s1"
    using reads [of ?s 0 rn ordered] p by (simp add: pipe_start_def)
  have p: "pipe_step rn ordered Pushes ?s1 ?s2"
    by (rule pushes [OF _ accepts]) (simp_all add: id)
  have w: "pipe_step rn ordered Reports ?s2 ?s3"
    by (rule reports) (simp_all add: pipe_start_def)
  have s: "pipe_step rn ordered Stores ?s3 ?s4"
    by (rule stores) simp
  note again = pipe_more [where allowed = calm]
  have "pipe_run rn ordered calm ?s ?s1" by (rule again [OF pipe_done r c(1)])
  then have "pipe_run rn ordered calm ?s ?s2" by (rule again [OF _ p c(2)])
  then have "pipe_run rn ordered calm ?s ?s3" by (rule again [OF _ w c(3)])
  then have "pipe_run rn ordered calm ?s ?s4" by (rule again [OF _ s c(4)])
  then show ?thesis by (simp add: pipe_start_def after_report_def)
qed

lemma some_log_sent:
  assumes "lg_ID l = Some i" and "rn_accepts rn [l] True D" and "small_size (page_length rn)"
  shows "\<exists>s. pipe_run rn ordered calm (pipe_start [l]) s \<and> pi_stored s = Some i \<and> pi_last s = Some i \<and>
    pi_logs s = [l]"
  by (rule exI, intro conjI, rule one_log_sent [OF assms]) simp_all

text \<open>
  Claim C19. Where logs are committed out of the order of their identifiers, as when they are not hashed or hashed
  later, one can be lost: after a log was sent, a log with a smaller identifier can be committed, and then
  it is never taken, whatever happens but a reset.
\<close>

theorem late_logs_are_never_taken:
  assumes within: "\<And>batch ok D. rn_accepts rn batch ok D \<Longrightarrow> set D \<subseteq> set batch"
    and accepts: "rn_accepts rn [l] True D" and size: "small_size (page_length rn)"
    and ids: "lg_ID l = Some i" "lg_ID l' = Some j" "j < i"
  shows "\<exists>s. pipe_run rn False calm (pipe_start [l]) s \<and> l' \<in> set (pi_logs s) \<and>
    (\<forall>s'. pipe_run rn False no_reset s s' \<longrightarrow> l' \<notin> set (pi_taken s'))"
proof -
  let ?s = "\<lparr>pi_logs = [l], pi_taken = D, pi_stored = Some i, pi_last = Some i,
     pi_phase = Waiting (pc_PullInterval (rn_config rn)), pi_writing = None, pi_late = []\<rparr>"
  let ?t = "?s\<lparr>pi_logs := pi_logs ?s @ [l']\<rparr>"
  have "pipe_step rn False Commits ?s ?t"
    by (rule commits [OF ids(2)]) (use ids in auto)
  then have run: "pipe_run rn False calm (pipe_start [l]) ?t"
    using one_log_sent [OF ids(1) accepts size, of False] by (auto intro: pipe_more simp: calm_def)
  have "set D \<subseteq> {l}" using within [OF accepts] by simp
  then have "passed l' ?t"
    using ids by (auto simp: passed_def marks_def ids_present_iff log_id_def)
  then show ?thesis using run passed_run [OF _ _ within size] by fastforce
qed

section \<open>Examples\<close>

definition sample_log :: "nat \<Rightarrow> log" where
  "sample_log i = (NewLog (SavedMetadata ''ACCOUNT'' (TargetAddress ''bank'') []))\<lparr>lg_ID := Some i\<rparr>"

text \<open>A runner with the default configuration, and an exporter that takes a part of a page or, without an error, all of it.\<close>

definition sample_runner :: "(log list \<Rightarrow> bool \<Rightarrow> log list \<Rightarrow> bool) \<Rightarrow> runner" where
  "sample_runner accepts =
     \<lparr>rn_config = default_pipeline_config,
      rn_libs = \<lparr>ql_ParseTime = \<lambda>_. None, ql_UnmarshalTime = \<lambda>_. None, ql_ToSnake = id, ql_int64 = floor\<rparr>,
      rn_default_size = 15, rn_accepts = accepts\<rparr>"

definition takes_in_full :: "log list \<Rightarrow> bool \<Rightarrow> log list \<Rightarrow> bool" where
  "takes_in_full batch ok D \<longleftrightarrow> set D \<subseteq> set batch \<and> (ok \<longrightarrow> D = batch)"

lemma sample_log_id [simp]: "lg_ID (sample_log i) = Some i" "log_id (sample_log i) = i"
  by (simp_all add: sample_log_def log_id_def)

lemma sample_page: "small_size (page_length (sample_runner accepts))"
  by (simp add: small_size_def page_length_def sample_runner_def default_pipeline_config_def)

lemma sample_ids: "ids_present [sample_log i]"
  by (simp add: ids_present_iff)

lemma run_mono: "pipe_run rn b P s t \<Longrightarrow> (\<And>ev. P ev \<Longrightarrow> Q ev) \<Longrightarrow> pipe_run rn b Q s t"
  by (induction rule: pipe_run.induct) (auto intro: pipe_run.intros)

lemma http_takes_one: "batched_accepts http_takes [l] True [l]"
proof -
  have "http_takes [l] (accepted_all [l]) [l]"
    by (auto simp: http_takes_def http_Accept_def intro!: exI [of _ "Inr 200"])
  moreover have "commit (accepted_all [l]) [l] = Inr [None]"
    by (simp add: commit_def accepted_all_def)
  ultimately have b: "batches http_takes ([l] @ []) ([None] @ []) ([l] @ [])"
    by (rule one_batch) (rule no_batch)
  obtain a where a: "Batcher_Accept (map (\<lambda>i. Inr i :: driver_error + nat) [0..<1])
      (\<lambda>op. case op of Some i \<Rightarrow> Inr ([None] ! i) | None \<Rightarrow> panic) = Inr a" "snd a = None"
    using Batcher_Accept_ok [of "[None]" 1] by auto
  have one: "length [l] = 1" by simp
  show ?thesis
    unfolding batched_accepts_def one
  proof (intro exI conjI)
    show "batches http_takes [l] [None] [l]" using b by simp
    show "True \<longleftrightarrow> snd a = None" using a(2) by simp
  qed (rule a(1))
qed

theorem sent_logs_were_taken_witness:
  "\<exists>s. pipe_run (sample_runner (batched_accepts http_takes)) True (\<lambda>_. True) (pipe_start [sample_log 1]) s \<and>
     pi_stored s = Some 1 \<and> sample_log 1 \<in> set (pi_taken s)"
proof -
  let ?rn = "sample_runner (batched_accepts http_takes)"
  have acc: "rn_accepts ?rn [sample_log 1] True [sample_log 1]"
    using http_takes_one by (simp add: sample_runner_def)
  obtain s where s: "pipe_run ?rn True calm (pipe_start [sample_log 1]) s" "pi_stored s = Some 1"
    "pi_logs s = [sample_log 1]"
    using some_log_sent [OF sample_log_id(1) acc sample_page, of True] by blast
  have run: "pipe_run ?rn True (\<lambda>_. True) (pipe_start [sample_log 1]) s"
    by (rule run_mono [OF s(1)]) simp
  have all: "set batch \<subseteq> set D" if "rn_accepts ?rn batch True D" for batch D
    by (rule http.batched.all_taken) (use that in \<open>simp add: sample_runner_def\<close>)
  have "sample_log 1 \<in> set (pi_taken s)"
    by (rule sent_logs_were_taken [OF all sample_page sample_ids run, where k = 1]) (simp_all add: s)
  then show ?thesis using run s(2) by blast
qed

theorem calm_pipelines_take_each_log_once_witness:
  "\<exists>s. pipe_run (sample_runner takes_in_full) True calm (pipe_start [sample_log 1]) s \<and>
     pi_last s = Some 1 \<and> pi_taken s = [sample_log 1]"
proof -
  let ?rn = "sample_runner takes_in_full"
  have acc: "rn_accepts ?rn [sample_log 1] True [sample_log 1]"
    by (simp add: sample_runner_def takes_in_full_def)
  obtain s where s: "pipe_run ?rn True calm (pipe_start [sample_log 1]) s" "pi_last s = Some 1"
    "pi_logs s = [sample_log 1]"
    using some_log_sent [OF sample_log_id(1) acc sample_page, of True] by blast
  have exact: "D = batch" if "rn_accepts ?rn batch True D" for batch D
    using that by (simp add: sample_runner_def takes_in_full_def)
  have "pi_taken s = List.filter (\<lambda>l. \<not> after_log (pi_last s) l) (ordered_logs (pi_logs s))"
    by (rule calm_pipelines_take_each_log_once [OF exact sample_page sample_ids s(1)])
  also have "\<dots> = [sample_log 1]"
    by (simp add: s(2,3) ordered_logs_def order_rows_def log_column_def after_log_def)
  finally show ?thesis using s(1,2) by blast
qed

theorem pipelines_catch_up_witness:
  "\<exists>t s'. pipe_step (sample_runner takes_in_full) True Starts
     ((pipe_start [sample_log 2, sample_log 1])\<lparr>pi_phase := Terminated, pi_writing := None, pi_late := []\<rparr>) t \<and>
   pipe_run (sample_runner takes_in_full) True steady t s' \<and> {sample_log 1, sample_log 2} \<subseteq> set (pi_taken s')"
proof -
  let ?rn = "sample_runner takes_in_full" and ?s = "pipe_start [sample_log 2, sample_log 1]"
  let ?c = "?s\<lparr>pi_phase := Terminated, pi_writing := None, pi_late := []\<rparr>"
  have run: "pipe_run ?rn True (\<lambda>_. True) ?s ?c"
    using crashes by (rule run_step) simp
  have ids: "ids_present [sample_log 2, sample_log 1]" by (simp add: ids_present_iff)
  have all: "set batch \<subseteq> set D" if "rn_accepts ?rn batch True D" for batch D
    using that by (simp add: sample_runner_def takes_in_full_def)
  have acc: "\<exists>D. rn_accepts ?rn batch True D" for batch
    by (simp add: sample_runner_def takes_in_full_def)
  from pipelines_catch_up [OF all acc sample_page ids run]
  show ?thesis by (auto simp: pipe_start_def)
qed

theorem late_logs_are_never_taken_witness:
  "\<exists>s. pipe_run (sample_runner takes_in_full) False calm (pipe_start [sample_log 2]) s \<and>
     sample_log 1 \<in> set (pi_logs s) \<and> sample_log 1 \<notin> set (pi_taken s)"
proof -
  let ?rn = "sample_runner takes_in_full"
  have within: "set D \<subseteq> set batch" if "rn_accepts ?rn batch ok D" for batch ok D
    using that by (simp add: sample_runner_def takes_in_full_def)
  have acc: "rn_accepts ?rn [sample_log 2] True [sample_log 2]"
    by (simp add: sample_runner_def takes_in_full_def)
  have "\<exists>s. pipe_run ?rn False calm (pipe_start [sample_log 2]) s \<and> sample_log 1 \<in> set (pi_logs s) \<and>
      (\<forall>s'. pipe_run ?rn False no_reset s s' \<longrightarrow> sample_log 1 \<notin> set (pi_taken s'))"
    by (rule late_logs_are_never_taken [where i = 2 and j = 1, OF _ acc sample_page])
      (erule within, simp_all)
  then show ?thesis using pipe_done by blast
qed

end
