(* ===== verification/Replication_Manager.thy ===== *)
theory Replication_Manager
  imports Replication_Pipeline
begin

text \<open>
  The manager of pipelines (\<open>internal/replication/manager.go\<close>) over the tables of exporters and pipelines
  (\<open>internal/storage/system/store.go\<close>): it keeps the handlers that run and the drivers they share, starts and
  stops them, and makes them follow the rows of the pipelines. Its mutex makes every operation one step. The
  calls that can fail, fail as the environment says. Where the code ranges over a Go map, in no fixed order,
  the pipelines are taken in the order they were started.
\<close>

section \<open>State\<close>

datatype call =
    StoreCall string
  | CreateDriver string
  | OpenLedger string

datatype shutdown_result = ShutDown | NotSignalled | NotAcknowledged

text \<open>
  The environment of an operation: the registry of drivers, the calls that fail, how the shutdown of each
  handler ends before the context does, and the drivers that do not stop.
\<close>

record ('json, 'c) env =
  en_registry :: "('json, 'c) registry"
  en_fails :: "call \<Rightarrow> bool"
  en_shutdown :: "string \<Rightarrow> shutdown_result"
  en_stop_fails :: "nat \<Rightarrow> bool"

record handler =
  hn_row :: pipeline
  hn_driver :: nat
  hn_running :: bool

text \<open>
  The tables, the running handlers by pipeline, the registered drivers by exporter, the drivers that were
  created and not stopped with what each was made of, and the number of the next driver.
\<close>

record ('json, 'c) manager =
  mg_exporters :: "'json exporter_row list"
  mg_rows :: "pipeline list"
  mg_pipelines :: "(string \<times> handler) list"
  mg_drivers :: "(string \<times> nat) list"
  mg_alive :: "(nat \<times> (string \<times> 'c) \<times> batching) list"
  mg_next :: nat

datatype manager_error =
    AlreadyStarted string
  | PipelineNotFound string
  | PipelineAlreadyExists string string
  | NoSuchExporter string
  | InvalidDriverConfiguration string driver_error
  | DriverFailed driver_error
  | NotFound
  | NoRows
  | ForeignKeyFailed string
  | CallFailed call
  | ShutdownFailed string

type_synonym ('json, 'c, 'a) op = "('json, 'c) manager \<Rightarrow> (manager_error, 'a) result \<times> ('json, 'c) manager"

definition returnM :: "'a \<Rightarrow> ('json, 'c, 'a) op" where
  "returnM x = (\<lambda>m. (Inr x, m))"

definition failM :: "manager_error \<Rightarrow> ('json, 'c, 'a) op" where
  "failM e = (\<lambda>m. (raise e, m))"

definition bindM :: "('json, 'c, 'a) op \<Rightarrow> ('a \<Rightarrow> ('json, 'c, 'b) op) \<Rightarrow> ('json, 'c, 'b) op" where
  "bindM f g = (\<lambda>m. case f m of (Inl e, m') \<Rightarrow> (Inl e, m') | (Inr x, m') \<Rightarrow> g x m')"

definition modifyM :: "(('json, 'c) manager \<Rightarrow> ('json, 'c) manager) \<Rightarrow> ('json, 'c, unit) op" where
  "modifyM f = (\<lambda>m. (Inr (), f m))"

text \<open>\<open>if err := f(); err != nil { log }\<close>: the state is kept and the error forgotten.\<close>

definition ignoreM :: "('json, 'c, 'a) op \<Rightarrow> ('json, 'c, unit) op" where
  "ignoreM f = (\<lambda>m. (Inr (), snd (f m)))"

definition callM :: "('json, 'c) env \<Rightarrow> call \<Rightarrow> ('json, 'c, unit) op" where
  "callM en c = (if en_fails en c then failM (CallFailed c) else returnM ())"

section \<open>The tables\<close>

definition find_exporter :: "string \<Rightarrow> 'json exporter_row list \<Rightarrow> 'json exporter_row option" where
  "find_exporter xid rows = List.find (\<lambda>x. ex_ID x = xid) rows"

definition find_pipeline :: "string \<Rightarrow> pipeline list \<Rightarrow> pipeline option" where
  "find_pipeline pid rows = List.find (\<lambda>p. pl_ID p = pid) rows"

definition Store_CreateExporter :: "('json, 'c) env \<Rightarrow> 'json exporter_row \<Rightarrow> ('json, 'c, unit) op" where
  "Store_CreateExporter en x =
     bindM (callM en (StoreCall ''CreateExporter'')) (\<lambda>_.
       modifyM (\<lambda>m. m\<lparr>mg_exporters := mg_exporters m @ [x]\<rparr>))"

text \<open>The rows of the pipelines of a deleted exporter are deleted by the foreign key.\<close>

definition Store_DeleteExporter :: "('json, 'c) env \<Rightarrow> string \<Rightarrow> ('json, 'c, unit) op" where
  "Store_DeleteExporter en xid =
     bindM (callM en (StoreCall ''DeleteExporter'')) (\<lambda>_ m.
       if find_exporter xid (mg_exporters m) = None then (raise NotFound, m)
       else (Inr (), m\<lparr>mg_exporters := List.filter (\<lambda>x. ex_ID x \<noteq> xid) (mg_exporters m),
         mg_rows := List.filter (\<lambda>p. pl_ExporterID p \<noteq> xid) (mg_rows m)\<rparr>))"

definition Store_GetExporter :: "('json, 'c) env \<Rightarrow> string \<Rightarrow> ('json, 'c, 'json exporter_row) op" where
  "Store_GetExporter en xid =
     bindM (callM en (StoreCall ''GetExporter'')) (\<lambda>_ m.
       case find_exporter xid (mg_exporters m) of
         None \<Rightarrow> (raise NotFound, m)
       | Some x \<Rightarrow> (Inr x, m))"

definition Store_UpdateExporter :: "('json, 'c) env \<Rightarrow> 'json exporter_row \<Rightarrow> ('json, 'c, unit) op" where
  "Store_UpdateExporter en x =
     bindM (callM en (StoreCall ''UpdateExporter'')) (\<lambda>_ m.
       if find_exporter (ex_ID x) (mg_exporters m) = None then (raise NotFound, m)
       else (Inr (), m\<lparr>mg_exporters := map (\<lambda>y. if ex_ID y = ex_ID x then x else y) (mg_exporters m)\<rparr>))"

text \<open>One pipeline for a ledger and an exporter, and only for an exporter that exists.\<close>

definition Store_CreatePipeline :: "('json, 'c) env \<Rightarrow> pipeline \<Rightarrow> ('json, 'c, unit) op" where
  "Store_CreatePipeline en p =
     bindM (callM en (StoreCall ''CreatePipeline'')) (\<lambda>_ m.
       if list_ex (\<lambda>q. pl_Ledger q = pl_Ledger p \<and> pl_ExporterID q = pl_ExporterID p) (mg_rows m)
       then (raise (PipelineAlreadyExists (pl_Ledger p) (pl_ExporterID p)), m)
       else if find_exporter (pl_ExporterID p) (mg_exporters m) = None
       then (raise (ForeignKeyFailed (pl_ExporterID p)), m)
       else (Inr (), m\<lparr>mg_rows := mg_rows m @ [p]\<rparr>))"

text \<open>The update a reset asks for, and the row after it.\<close>

definition reset_row :: "pipeline \<Rightarrow> pipeline" where
  "reset_row p = p\<lparr>pl_Enabled := True, pl_LastLogID := None\<rparr>"

definition Store_UpdatePipeline :: "('json, 'c) env \<Rightarrow> string \<Rightarrow> ('json, 'c, pipeline) op" where
  "Store_UpdatePipeline en pid =
     bindM (callM en (StoreCall ''UpdatePipeline'')) (\<lambda>_ m.
       case find_pipeline pid (mg_rows m) of
         None \<Rightarrow> (raise NotFound, m)
       | Some p \<Rightarrow> (Inr (reset_row p),
           m\<lparr>mg_rows := map (\<lambda>q. if pl_ID q = pid then reset_row q else q) (mg_rows m)\<rparr>))"

definition Store_DeletePipeline :: "('json, 'c) env \<Rightarrow> string \<Rightarrow> ('json, 'c, unit) op" where
  "Store_DeletePipeline en pid =
     bindM (callM en (StoreCall ''DeletePipeline'')) (\<lambda>_ m.
       if find_pipeline pid (mg_rows m) = None then (raise NotFound, m)
       else (Inr (), m\<lparr>mg_rows := List.filter (\<lambda>p. pl_ID p \<noteq> pid) (mg_rows m)\<rparr>))"

text \<open>The error of a missing row is the driver's, which is not resolved here.\<close>

definition Store_GetPipeline :: "('json, 'c) env \<Rightarrow> string \<Rightarrow> ('json, 'c, pipeline) op" where
  "Store_GetPipeline en pid =
     bindM (callM en (StoreCall ''GetPipeline'')) (\<lambda>_ m.
       case find_pipeline pid (mg_rows m) of
         None \<Rightarrow> (raise NoRows, m)
       | Some p \<Rightarrow> (Inr p, m))"

definition Store_ListEnabledPipelines :: "('json, 'c) env \<Rightarrow> ('json, 'c, pipeline list) op" where
  "Store_ListEnabledPipelines en =
     bindM (callM en (StoreCall ''ListEnabledPipelines'')) (\<lambda>_ m.
       (Inr (List.filter pl_Enabled (mg_rows m)), m))"

definition Store_StorePipelineState :: "('json, 'c) env \<Rightarrow> string \<Rightarrow> nat \<Rightarrow> ('json, 'c, unit) op" where
  "Store_StorePipelineState en pid lastLogID =
     bindM (callM en (StoreCall ''StorePipelineState'')) (\<lambda>_ m.
       if find_pipeline pid (mg_rows m) = None then (raise NotFound, m)
       else (Inr (), m\<lparr>mg_rows :=
         map (\<lambda>q. if pl_ID q = pid then q\<lparr>pl_LastLogID := Some lastLogID\<rparr> else q) (mg_rows m)\<rparr>))"

section \<open>Drivers\<close>

definition register_driver ::
    "string \<Rightarrow> (string \<times> 'c) \<times> batching \<Rightarrow> ('json, 'c) manager \<Rightarrow> ('json, 'c) manager" where
  "register_driver xid d m =
     m\<lparr>mg_drivers := AList.update xid (mg_next m) (mg_drivers m), mg_alive := (mg_next m, d) # mg_alive m,
       mg_next := mg_next m + 1\<rparr>"

definition initExporter :: "('json, 'c) env \<Rightarrow> string \<Rightarrow> ('json, 'c, unit) op" where
  "initExporter en xid = (\<lambda>m.
     if map_of (mg_drivers m) xid \<noteq> None then (Inr (), m)
     else bindM (callM en (CreateDriver xid)) (\<lambda>_ m.
       case Factory_Create (en_registry en) xid (find_exporter xid (mg_exporters m)) of
         Inl (Raised e) \<Rightarrow> (raise (DriverFailed e), m)
       | Inl Panic \<Rightarrow> (panic, m)
       | Inr d \<Rightarrow> (Inr (), register_driver xid d m)) m)"

text \<open>A driver that does not stop is only logged; it is taken out of the register in any case.\<close>

definition stopDriver :: "('json, 'c) env \<Rightarrow> nat \<Rightarrow> ('json, 'c) manager \<Rightarrow> ('json, 'c) manager" where
  "stopDriver en n m =
     m\<lparr>mg_alive := (if en_stop_fails en n then mg_alive m else List.filter (\<lambda>a. fst a \<noteq> n) (mg_alive m)),
       mg_drivers := List.filter (\<lambda>d. snd d \<noteq> n) (mg_drivers m)\<rparr>"

definition stopExporterIfNeeded ::
    "('json, 'c) env \<Rightarrow> handler \<Rightarrow> ('json, 'c) manager \<Rightarrow> ('json, 'c) manager" where
  "stopExporterIfNeeded en h m =
     (if list_ex (\<lambda>(_, h'). hn_driver h' = hn_driver h) (mg_pipelines m) then m else stopDriver en (hn_driver h) m)"

section \<open>Pipelines\<close>

definition startPipeline :: "('json, 'c) env \<Rightarrow> pipeline \<Rightarrow> ('json, 'c, unit) op" where
  "startPipeline en p = (\<lambda>m.
     if map_of (mg_pipelines m) (pl_ID p) \<noteq> None then (raise (AlreadyStarted (pl_ID p)), m)
     else bindM (initExporter en (pl_ExporterID p)) (\<lambda>_.
       bindM (callM en (OpenLedger (pl_Ledger p))) (\<lambda>_ m.
         case map_of (mg_drivers m) (pl_ExporterID p) of
           None \<Rightarrow> (panic, m)
         | Some n \<Rightarrow> (Inr (), m\<lparr>mg_pipelines := AList.update (pl_ID p)
             \<lparr>hn_row = p, hn_driver = n, hn_running = True\<rparr> (mg_pipelines m)\<rparr>))) m)"

text \<open>
  A shutdown that is not signalled leaves the handler running; one that is not acknowledged in time ends the
  handler later, but leaves it among the pipelines.
\<close>

definition stopPipeline :: "('json, 'c) env \<Rightarrow> string \<Rightarrow> ('json, 'c, unit) op" where
  "stopPipeline en pid = (\<lambda>m.
     case map_of (mg_pipelines m) pid of
       None \<Rightarrow> (raise (PipelineNotFound pid), m)
     | Some h \<Rightarrow>
         if \<not> hn_running h then (raise (ShutdownFailed pid), m)
         else (case en_shutdown en pid of
           NotSignalled \<Rightarrow> (raise (ShutdownFailed pid), m)
         | NotAcknowledged \<Rightarrow> (raise (ShutdownFailed pid),
             m\<lparr>mg_pipelines := AList.update pid (h\<lparr>hn_running := False\<rparr>) (mg_pipelines m)\<rparr>)
         | ShutDown \<Rightarrow> (Inr (),
             stopExporterIfNeeded en h (m\<lparr>mg_pipelines := AList.delete pid (mg_pipelines m)\<rparr>))))"

definition Manager_StartPipeline :: "('json, 'c) env \<Rightarrow> string \<Rightarrow> ('json, 'c, unit) op" where
  "Manager_StartPipeline en pid = bindM (Store_GetPipeline en pid) (startPipeline en)"

definition Manager_StopPipeline :: "('json, 'c) env \<Rightarrow> string \<Rightarrow> ('json, 'c, unit) op" where
  "Manager_StopPipeline en pid = stopPipeline en pid"

fun stop_all :: "('json, 'c) env \<Rightarrow> string list \<Rightarrow> ('json, 'c, unit) op" where
  "stop_all en [] = returnM ()"
| "stop_all en (pid # pids) = bindM (ignoreM (stopPipeline en pid)) (\<lambda>_. stop_all en pids)"

definition stopPipelines :: "('json, 'c) env \<Rightarrow> ('json, 'c, unit) op" where
  "stopPipelines en = (\<lambda>m. stop_all en (map fst (mg_pipelines m)) m)"

text \<open>
  The pipelines follow the enabled rows: those that are not running are started, until one cannot be, and
  then those that run without an enabled row are stopped.
\<close>

fun start_all :: "('json, 'c) env \<Rightarrow> pipeline list \<Rightarrow> ('json, 'c, unit) op" where
  "start_all en [] = returnM ()"
| "start_all en (p # ps) = (\<lambda>m.
     case startPipeline en p m of
       (Inr _, m') \<Rightarrow> start_all en ps m'
     | (Inl (Raised (AlreadyStarted _)), m') \<Rightarrow> start_all en ps m'
     | (Inl e, m') \<Rightarrow> (Inl e, m'))"

definition synchronizePipelines :: "('json, 'c) env \<Rightarrow> ('json, 'c, unit) op" where
  "synchronizePipelines en =
     bindM (Store_ListEnabledPipelines en) (\<lambda>ps.
     bindM (start_all en ps) (\<lambda>_ m.
       stop_all en (List.filter (\<lambda>pid. \<not> list_ex (\<lambda>p. pid = pl_ID p) ps) (map fst (mg_pipelines m))) m))"

section \<open>Exporters\<close>

definition Manager_CreateExporter ::
    "('json, 'c) env \<Rightarrow> string \<Rightarrow> time \<Rightarrow> string \<Rightarrow> 'json \<Rightarrow> ('json, 'c, unit) op" where
  "Manager_CreateExporter en uuid now driver config =
     (case ValidateConfig (en_registry en) driver config of
        Inl (Raised e) \<Rightarrow> failM (InvalidDriverConfiguration driver e)
      | Inl Panic \<Rightarrow> (\<lambda>m. (panic, m))
      | Inr _ \<Rightarrow> Store_CreateExporter en
          \<lparr>ex_ID = uuid, ex_CreatedAt = now, ex_Driver = driver, ex_Config = config\<rparr>)"

fun stop_each :: "('json, 'c) env \<Rightarrow> string list \<Rightarrow> ('json, 'c, unit) op" where
  "stop_each en [] = returnM ()"
| "stop_each en (pid # pids) = bindM (stopPipeline en pid) (\<lambda>_. stop_each en pids)"

definition stopExporter :: "('json, 'c) env \<Rightarrow> string \<Rightarrow> ('json, 'c, unit) op" where
  "stopExporter en xid = (\<lambda>m.
     stop_each en (map fst (List.filter (\<lambda>(_, h). pl_ExporterID (hn_row h) = xid) (mg_pipelines m))) m)"

text \<open>The error of a missing exporter is the manager's own.\<close>

definition exporter_error :: "string \<Rightarrow> ('json, 'c, 'a) op \<Rightarrow> ('json, 'c, 'a) op" where
  "exporter_error xid f = (\<lambda>m.
     case f m of
       (Inl (Raised NotFound), m') \<Rightarrow> (raise (NoSuchExporter xid), m')
     | r \<Rightarrow> r)"

definition pipeline_error :: "string \<Rightarrow> ('json, 'c, 'a) op \<Rightarrow> ('json, 'c, 'a) op" where
  "pipeline_error pid f = (\<lambda>m.
     case f m of
       (Inl (Raised NotFound), m') \<Rightarrow> (raise (PipelineNotFound pid), m')
     | r \<Rightarrow> r)"

definition Manager_DeleteExporter :: "('json, 'c) env \<Rightarrow> string \<Rightarrow> ('json, 'c, unit) op" where
  "Manager_DeleteExporter en xid =
     bindM (stopExporter en xid) (\<lambda>_. exporter_error xid (Store_DeleteExporter en xid))"

definition Manager_UpdateExporter ::
    "('json, 'c) env \<Rightarrow> string \<Rightarrow> string \<Rightarrow> 'json \<Rightarrow> ('json, 'c, unit) op" where
  "Manager_UpdateExporter en xid driver config =
     (case ValidateConfig (en_registry en) driver config of
        Inl (Raised e) \<Rightarrow> failM (InvalidDriverConfiguration driver e)
      | Inl Panic \<Rightarrow> (\<lambda>m. (panic, m))
      | Inr _ \<Rightarrow>
          bindM (stopExporter en xid) (\<lambda>_.
          bindM (exporter_error xid (Store_GetExporter en xid)) (\<lambda>x.
          bindM (Store_UpdateExporter en (x\<lparr>ex_Driver := driver, ex_Config := config\<rparr>)) (\<lambda>_.
            synchronizePipelines en))))"

section \<open>Pipelines asked for\<close>

definition Manager_GetPipeline :: "('json, 'c) env \<Rightarrow> string \<Rightarrow> ('json, 'c, pipeline) op" where
  "Manager_GetPipeline en pid = pipeline_error pid (Store_GetPipeline en pid)"

definition Manager_CreatePipeline ::
    "('json, 'c) env \<Rightarrow> string \<Rightarrow> time \<Rightarrow> string \<Rightarrow> string \<Rightarrow> ('json, 'c, unit) op" where
  "Manager_CreatePipeline en uuid now ledger xid =
     bindM (Store_CreatePipeline en (NewPipeline uuid now ledger xid)) (\<lambda>_.
       ignoreM (startPipeline en (NewPipeline uuid now ledger xid)))"

definition Manager_DeletePipeline :: "('json, 'c) env \<Rightarrow> string \<Rightarrow> ('json, 'c, unit) op" where
  "Manager_DeletePipeline en pid =
     bindM (stopPipeline en pid) (\<lambda>_. pipeline_error pid (Store_DeletePipeline en pid))"

definition Manager_ResetPipeline :: "('json, 'c) env \<Rightarrow> string \<Rightarrow> ('json, 'c, unit) op" where
  "Manager_ResetPipeline en pid = (\<lambda>m.
     (let started = map_of (mg_pipelines m) pid \<noteq> None in
      bindM (if started then stopPipeline en pid else returnM ()) (\<lambda>_.
      bindM (pipeline_error pid (Store_UpdatePipeline en pid)) (\<lambda>p.
        if started then ignoreM (startPipeline en p) else returnM ())) m))"

end
