(* ===== verification/Manager_Claims.thy ===== *)
theory Manager_Claims
  imports Replication_Manager
begin

text \<open>
  The properties of the manager of pipelines: whatever fails, a handler uses the driver registered for its
  exporter, which was not stopped; a synchronisation without failures makes the handlers those of the enabled
  rows; an exporter that is updated reaches its pipelines, unless its driver was left without one.
\<close>

section \<open>Operations that keep a property of the manager\<close>

definition retains :: "(('json, 'c) manager \<Rightarrow> bool) \<Rightarrow> ('json, 'c, 'a) op \<Rightarrow> bool" where
  "retains P f \<longleftrightarrow> (\<forall>m. P m \<longrightarrow> P (snd (f m)))"

named_theorems retains_intros \<open>composition of operations that keep a property\<close>

lemma retainsI: "(\<And>m. P m \<Longrightarrow> P (snd (f m))) \<Longrightarrow> retains P f"
  by (simp add: retains_def)

lemma retainsD: "retains P f \<Longrightarrow> P m \<Longrightarrow> P (snd (f m))"
  by (simp add: retains_def)

lemma retains_return [retains_intros]: "retains P (returnM x)"
  by (simp add: retains_def returnM_def)

lemma retains_fail [retains_intros]: "retains P (failM e)"
  by (simp add: retains_def failM_def)

lemma retains_bind [retains_intros]: "retains P f \<Longrightarrow> (\<And>x. retains P (g x)) \<Longrightarrow> retains P (bindM f g)"
  by (auto simp: retains_def bindM_def split: prod.splits sum.splits)

lemma retains_ignore [retains_intros]: "retains P f \<Longrightarrow> retains P (ignoreM f)"
  by (simp add: retains_def ignoreM_def)

lemma retains_call [retains_intros]: "retains P (callM en c)"
  by (auto simp: callM_def intro: retains_intros)

lemma retains_errors [retains_intros]:
  "retains P f \<Longrightarrow> retains P (exporter_error xid f)" "retains P f \<Longrightarrow> retains P (pipeline_error xid f)"
  by (auto simp: retains_def exporter_error_def pipeline_error_def split: prod.splits sum.splits failure.splits
    manager_error.splits)

lemma retains_stop_all: "(\<And>pid. pid \<in> set pids \<Longrightarrow> retains P (stopPipeline en pid)) \<Longrightarrow> retains P (stop_all en pids)"
  by (induction pids) (simp_all add: retains_intros)

lemma retains_stop_each: "(\<And>pid. pid \<in> set pids \<Longrightarrow> retains P (stopPipeline en pid)) \<Longrightarrow> retains P (stop_each en pids)"
  by (induction pids) (simp_all add: retains_intros)

lemma retains_start_all:
  assumes "\<And>p. p \<in> set ps \<Longrightarrow> retains P (startPipeline en p)"
  shows "retains P (start_all en ps)"
  using assms
proof (induction ps)
  case (Cons p ps)
  show ?case
  proof (rule retainsI)
    fix m
    assume "P m"
    then have start: "P (snd (startPipeline en p m))"
      using Cons.prems by (simp add: retains_def)
    have rest: "P (snd (start_all en ps m'))" if "P m'" for m'
      using Cons that by (simp add: retains_def)
    obtain r m' where r: "startPipeline en p m = (r, m')" by force
    then have "P m'" using start by simp
    then show "P (snd (start_all en (p # ps) m))"
      using rest [of m'] r by (auto split: sum.splits failure.splits manager_error.splits)
  qed
qed (simp add: retains_intros)

text \<open>The operations as data.\<close>

datatype 'json operation =
    OpCreateExporter string time string 'json
  | OpUpdateExporter string string 'json
  | OpDeleteExporter string
  | OpCreatePipeline string time string string
  | OpDeletePipeline string
  | OpResetPipeline string
  | OpStartPipeline string
  | OpStopPipeline string
  | OpStoreState string nat
  | OpSynchronize
  | OpStopAll

fun perform :: "('json, 'c) env \<Rightarrow> 'json operation \<Rightarrow> ('json, 'c, unit) op" where
  "perform en (OpCreateExporter uuid now driver config) = Manager_CreateExporter en uuid now driver config"
| "perform en (OpUpdateExporter xid driver config) = Manager_UpdateExporter en xid driver config"
| "perform en (OpDeleteExporter xid) = Manager_DeleteExporter en xid"
| "perform en (OpCreatePipeline uuid now ledger xid) = Manager_CreatePipeline en uuid now ledger xid"
| "perform en (OpDeletePipeline pid) = Manager_DeletePipeline en pid"
| "perform en (OpResetPipeline pid) = Manager_ResetPipeline en pid"
| "perform en (OpStartPipeline pid) = Manager_StartPipeline en pid"
| "perform en (OpStopPipeline pid) = Manager_StopPipeline en pid"
| "perform en (OpStoreState pid i) = Store_StorePipelineState en pid i"
| "perform en OpSynchronize = synchronizePipelines en"
| "perform en OpStopAll = stopPipelines en"

text \<open>Properties that do not look at the tables only have to be kept by starting and stopping a pipeline.\<close>

definition ignores_tables :: "(('json, 'c) manager \<Rightarrow> bool) \<Rightarrow> bool" where
  "ignores_tables P \<longleftrightarrow> (\<forall>m xs ps. P (m\<lparr>mg_exporters := xs\<rparr>) = P m \<and> P (m\<lparr>mg_rows := ps\<rparr>) = P m)"

lemma retains_tables:
  assumes "ignores_tables P"
  shows "retains P (Store_CreateExporter en x)" "retains P (Store_DeleteExporter en xid)" "retains P (Store_GetExporter en xid)"
    "retains P (Store_UpdateExporter en x)" "retains P (Store_CreatePipeline en p)" "retains P (Store_UpdatePipeline en pid)"
    "retains P (Store_DeletePipeline en pid)" "retains P (Store_GetPipeline en pid)" "retains P (Store_ListEnabledPipelines en)"
    "retains P (Store_StorePipelineState en pid i)"
  unfolding Store_CreateExporter_def Store_DeleteExporter_def Store_GetExporter_def Store_UpdateExporter_def
    Store_CreatePipeline_def Store_UpdatePipeline_def Store_DeletePipeline_def Store_GetPipeline_def
    Store_ListEnabledPipelines_def Store_StorePipelineState_def
  using assms
  by (intro retains_intros; simp add: retains_def modifyM_def ignores_tables_def split: option.split)+

lemma retains_perform:
  assumes tables: "ignores_tables P" and starts: "\<And>p. retains P (startPipeline en p)"
    and stops: "\<And>pid. retains P (stopPipeline en pid)"
  shows "retains P (perform en opn)"
proof -
  note t = retains_tables [OF tables, of en]
  have all: "retains P (\<lambda>m. stop_all en (f m) m)" for f
    using retains_stop_all [OF stops] by (simp add: retains_def)
  have sync: "retains P (synchronizePipelines en)"
    unfolding synchronizePipelines_def by (intro retains_intros t all retains_start_all starts)
  have exporter: "retains P (stopExporter en xid)" for xid
    using retains_stop_each [OF stops] by (simp add: retains_def stopExporter_def)
  show ?thesis
  proof (cases opn)
    case (OpCreateExporter uuid now driver config)
    then show ?thesis
      using t(1) by (auto simp: Manager_CreateExporter_def retains_def failM_def split: sum.splits failure.splits)
  next
    case (OpUpdateExporter xid driver config)
    have "retains P (bindM (stopExporter en xid) (\<lambda>_. bindM (exporter_error xid (Store_GetExporter en xid)) (\<lambda>x.
        bindM (Store_UpdateExporter en (x\<lparr>ex_Driver := driver, ex_Config := config\<rparr>)) (\<lambda>_. synchronizePipelines en))))"
      by (intro retains_intros t exporter sync)
    then show ?thesis
      using OpUpdateExporter by (auto simp: Manager_UpdateExporter_def retains_def failM_def split: sum.splits failure.splits)
  next
    case (OpDeleteExporter xid)
    then show ?thesis by (simp add: Manager_DeleteExporter_def) (intro retains_intros t exporter)
  next
    case (OpCreatePipeline uuid now ledger xid)
    then show ?thesis by (simp add: Manager_CreatePipeline_def) (intro retains_intros t starts)
  next
    case (OpDeletePipeline pid)
    then show ?thesis by (simp add: Manager_DeletePipeline_def) (intro retains_intros t stops)
  next
    case (OpResetPipeline pid)
    have "retains P (bindM (if b then stopPipeline en pid else returnM ()) (\<lambda>_.
        bindM (pipeline_error pid (Store_UpdatePipeline en pid)) (\<lambda>p.
          if b then ignoreM (startPipeline en p) else returnM ())))" for b
      by (cases b; simp; intro retains_intros t stops starts)
    then show ?thesis using OpResetPipeline by (simp add: Manager_ResetPipeline_def retains_def Let_def)
  next
    case (OpStartPipeline pid)
    then show ?thesis by (simp add: Manager_StartPipeline_def) (intro retains_intros t starts)
  next
    case (OpStopPipeline pid)
    then show ?thesis using stops by (simp add: Manager_StopPipeline_def)
  next
    case (OpStoreState pid i)
    then show ?thesis using t by simp
  next
    case OpSynchronize
    then show ?thesis using sync by simp
  next
    case OpStopAll
    then show ?thesis using all by (simp add: stopPipelines_def)
  qed
qed

section \<open>Handlers and their drivers\<close>

definition managed :: "('json, 'c) manager \<Rightarrow> bool" where
  "managed m \<longleftrightarrow>
     distinct (map fst (mg_pipelines m)) \<and> distinct (map fst (mg_drivers m)) \<and> distinct (map snd (mg_drivers m)) \<and>
     distinct (map fst (mg_alive m)) \<and>
     (\<forall>pid h. map_of (mg_pipelines m) pid = Some h \<longrightarrow> pl_ID (hn_row h) = pid \<and>
       (pl_ExporterID (hn_row h), hn_driver h) \<in> set (mg_drivers m)) \<and>
     snd ` set (mg_drivers m) \<subseteq> fst ` set (mg_alive m) \<and> (\<forall>n \<in> fst ` set (mg_alive m). n < mg_next m)"

definition no_manager :: "('json, 'c) manager" where
  "no_manager = \<lparr>mg_exporters = [], mg_rows = [], mg_pipelines = [], mg_drivers = [], mg_alive = [], mg_next = 0\<rparr>"

lemma managed_start: "managed no_manager"
  by (simp add: managed_def no_manager_def)

lemma managed_tables: "ignores_tables managed"
  by (simp add: ignores_tables_def managed_def)

lemma update_appended: "k \<notin> fst ` set al \<Longrightarrow> AList.update k v al = al @ [(k, v)]"
  by (induction al) auto

lemma managed_register:
  assumes "managed m" and "map_of (mg_drivers m) xid = None"
  shows "managed (register_driver xid d m)"
proof -
  have new: "xid \<notin> fst ` set (mg_drivers m)" using assms(2) by (simp add: map_of_eq_None_iff)
  have "mg_next m \<notin> fst ` set (mg_alive m)" using assms(1) by (auto simp: managed_def)
  moreover have "mg_next m \<notin> snd ` set (mg_drivers m)"
    using calculation assms(1) by (auto simp: managed_def)
  ultimately show ?thesis
    using assms(1) new by (auto simp: managed_def register_driver_def update_appended)
qed

lemma retains_initExporter: "retains managed (initExporter en xid)"
  by (auto simp: retains_def initExporter_def bindM_def callM_def failM_def returnM_def managed_register
    split: sum.splits failure.splits prod.splits)

lemma initExporter_pipelines [simp]: "mg_pipelines (snd (initExporter en xid m)) = mg_pipelines m"
  by (auto simp: initExporter_def bindM_def callM_def failM_def returnM_def register_driver_def
    split: sum.splits failure.splits prod.splits)

text \<open>What a start does: it fails, or it adds a handler on the registered driver.\<close>

lemma startPipeline_cases:
  obtains (already) "map_of (mg_pipelines m) (pl_ID p) \<noteq> None" "startPipeline en p m = (raise (AlreadyStarted (pl_ID p)), m)"
  | (failed) e where "map_of (mg_pipelines m) (pl_ID p) = None"
      "startPipeline en p m = (Inl e, snd (initExporter en (pl_ExporterID p) m))" "\<And>pid. e \<noteq> Raised (AlreadyStarted pid)"
  | (new) n where "map_of (mg_pipelines m) (pl_ID p) = None"
      "fst (initExporter en (pl_ExporterID p) m) = Inr ()"
      "map_of (mg_drivers (snd (initExporter en (pl_ExporterID p) m))) (pl_ExporterID p) = Some n"
      "startPipeline en p m = (Inr (), (snd (initExporter en (pl_ExporterID p) m))
        \<lparr>mg_pipelines := AList.update (pl_ID p) \<lparr>hn_row = p, hn_driver = n, hn_running = True\<rparr> (mg_pipelines m)\<rparr>)"
proof (cases "map_of (mg_pipelines m) (pl_ID p)")
  case (Some h)
  then show ?thesis using already by (simp add: startPipeline_def)
next
  case None
  obtain r m1 where i: "initExporter en (pl_ExporterID p) m = (r, m1)" by force
  have m1: "mg_pipelines m1 = mg_pipelines m" using initExporter_pipelines [of en "pl_ExporterID p" m] i by simp
  show ?thesis
  proof (cases r)
    case (Inl e)
    then have "e \<noteq> Raised (AlreadyStarted pid)" for pid
      using i by (auto simp: initExporter_def bindM_def callM_def failM_def returnM_def
        split: sum.splits failure.splits prod.splits if_splits)
    then show ?thesis using failed [of e] None i Inl by (simp add: startPipeline_def bindM_def)
  next
    case (Inr u)
    show ?thesis
    proof (cases "en_fails en (OpenLedger (pl_Ledger p))")
      case True
      then show ?thesis
        using failed [of "Raised (CallFailed (OpenLedger (pl_Ledger p)))"] None i Inr
        by (simp add: startPipeline_def bindM_def callM_def failM_def raise_def)
    next
      case False
      show ?thesis
      proof (cases "map_of (mg_drivers m1) (pl_ExporterID p)")
        case None1: None
        then show ?thesis
          using failed [of Panic] None i Inr False
          by (simp add: startPipeline_def bindM_def callM_def returnM_def)
      next
        case (Some n)
        then show ?thesis
          using new [of n] None i Inr False m1
          by (simp add: startPipeline_def bindM_def callM_def returnM_def)
      qed
    qed
  qed
qed

lemma retains_startPipeline:
  fixes en :: "('json, 'c) env"
  shows "retains managed (startPipeline en p)"
proof (rule retainsI)
  fix m :: "('json, 'c) manager"
  assume m: "managed m"
  let ?m1 = "snd (initExporter en (pl_ExporterID p) m)"
  have m1: "managed ?m1" using retains_initExporter m by (rule retainsD)
  show "managed (snd (startPipeline en p m))"
  proof (cases rule: startPipeline_cases [of m p en])
    case already
    then show ?thesis using m by simp
  next
    case (failed e)
    then show ?thesis using m1 by simp
  next
    case (new n)
    then have "(pl_ExporterID p, n) \<in> set (mg_drivers ?m1)" by (simp add: map_of_SomeD)
    then show ?thesis
      using m1 new by (auto simp: managed_def alist_simps distinct_update split: if_splits)
  qed
qed

lemma key_filtered: "n \<in> fst ` set al \<Longrightarrow> n \<noteq> k \<Longrightarrow> n \<in> fst ` set (List.filter (\<lambda>a. fst a \<noteq> k) al)"
  by force

text \<open>A handler that is deleted takes its driver with it unless another handler uses it.\<close>

lemma managed_stopped:
  assumes m: "managed m" and h: "map_of (mg_pipelines m) pid = Some h"
  shows "managed (stopExporterIfNeeded en h (m\<lparr>mg_pipelines := AList.delete pid (mg_pipelines m)\<rparr>))"
proof -
  let ?m = "m\<lparr>mg_pipelines := AList.delete pid (mg_pipelines m)\<rparr>"
  have d: "managed ?m"
    using m by (auto simp: managed_def alist_simps distinct_delete split: if_splits)
  show ?thesis
  proof (cases "list_ex (\<lambda>(_, h'). hn_driver h' = hn_driver h) (mg_pipelines ?m)")
    case True
    then show ?thesis using d by (simp add: stopExporterIfNeeded_def)
  next
    case False
    then have "hn_driver h' \<noteq> hn_driver h" if "map_of (mg_pipelines ?m) pid' = Some h'" for pid' h'
      using that map_of_SomeD [OF that] by (force simp: list_ex_iff)
    moreover have "snd ` set (List.filter (\<lambda>d. snd d \<noteq> hn_driver h) (mg_drivers m)) \<subseteq>
        fst ` set (List.filter (\<lambda>a. fst a \<noteq> hn_driver h) (mg_alive m))"
    proof
      fix n
      assume "n \<in> snd ` set (List.filter (\<lambda>d. snd d \<noteq> hn_driver h) (mg_drivers m))"
      then have "n \<in> snd ` set (mg_drivers m)" "n \<noteq> hn_driver h" by auto
      moreover have "snd ` set (mg_drivers m) \<subseteq> fst ` set (mg_alive m)" using d by (simp add: managed_def)
      ultimately show "n \<in> fst ` set (List.filter (\<lambda>a. fst a \<noteq> hn_driver h) (mg_alive m))"
        by (intro key_filtered) blast+
    qed
    ultimately show ?thesis
      using d False
      by (auto simp: stopExporterIfNeeded_def stopDriver_def managed_def distinct_map_filter)
  qed
qed

lemma retains_stopPipeline:
  fixes en :: "('json, 'c) env"
  shows "retains managed (stopPipeline en pid)"
proof (rule retainsI)
  fix m :: "('json, 'c) manager"
  assume m: "managed m"
  show "managed (snd (stopPipeline en pid m))"
  proof (cases "map_of (mg_pipelines m) pid")
    case None
    then show ?thesis using m by (simp add: stopPipeline_def)
  next
    case (Some h)
    have "managed (m\<lparr>mg_pipelines := AList.update pid (h\<lparr>hn_running := False\<rparr>) (mg_pipelines m)\<rparr>)"
      using m Some by (auto simp: managed_def alist_simps distinct_update split: if_splits)
    then show ?thesis
      using Some m managed_stopped [OF m Some, of en] by (simp add: stopPipeline_def split: shutdown_result.split)
  qed
qed

text \<open>The state after operations, each with its environment.\<close>

fun performed :: "(('json, 'c) env \<times> 'json operation) list \<Rightarrow> ('json, 'c) manager \<Rightarrow> ('json, 'c) manager" where
  "performed [] m = m"
| "performed ((en, opn) # rest) m = performed rest (snd (perform en opn m))"

lemma performed_managed: "managed m \<Longrightarrow> managed (performed ops m)"
proof (induction ops m rule: performed.induct)
  case (2 en opn rest m)
  have "retains managed (perform en opn)"
    by (rule retains_perform [OF managed_tables retains_startPipeline retains_stopPipeline])
  then show ?case using 2 by (simp add: retains_def)
qed simp

lemma managed_handler:
  assumes "managed m" and "map_of (mg_pipelines m) pid = Some h"
  shows "map_of (mg_drivers m) (pl_ExporterID (hn_row h)) = Some (hn_driver h)"
    and "map_of (mg_alive m) (hn_driver h) \<noteq> None"
    and "map_of (mg_drivers m) xid = Some (hn_driver h) \<Longrightarrow> xid = pl_ExporterID (hn_row h)"
proof -
  have d: "(pl_ExporterID (hn_row h), hn_driver h) \<in> set (mg_drivers m)" "distinct (map fst (mg_drivers m))"
    "distinct (map snd (mg_drivers m))" "snd ` set (mg_drivers m) \<subseteq> fst ` set (mg_alive m)"
    using assms unfolding managed_def by blast+
  show "map_of (mg_drivers m) (pl_ExporterID (hn_row h)) = Some (hn_driver h)"
    using d(1,2) by (rule map_of_is_SomeI [rotated])
  have "hn_driver h \<in> fst ` set (mg_alive m)" using d(1,4) by force
  then show "map_of (mg_alive m) (hn_driver h) \<noteq> None" by (simp add: map_of_eq_None_iff)
  show "xid = pl_ExporterID (hn_row h)" if x: "map_of (mg_drivers m) xid = Some (hn_driver h)"
  proof -
    have "inj_on snd (set (mg_drivers m))" using d(3) by (simp add: distinct_map)
    from inj_onD [OF this _ map_of_SomeD [OF x] d(1)] show ?thesis by simp
  qed
qed

text \<open>
  Claim C20. After any operations, of which any calls may fail, every pipeline that is kept has the driver
  registered for its exporter, and that driver was created and not stopped; no two exporters share a driver.
\<close>

theorem pipelines_have_live_drivers:
  assumes "map_of (mg_pipelines (performed ops no_manager)) pid = Some h"
  shows "map_of (mg_drivers (performed ops no_manager)) (pl_ExporterID (hn_row h)) = Some (hn_driver h) \<and>
    map_of (mg_alive (performed ops no_manager)) (hn_driver h) \<noteq> None \<and>
    (\<forall>xid. map_of (mg_drivers (performed ops no_manager)) xid = Some (hn_driver h) \<longrightarrow>
       xid = pl_ExporterID (hn_row h))"
  using managed_handler [OF performed_managed [OF managed_start] assms] by blast

section \<open>Synchronisation\<close>

definition faultless :: "('json, 'c) env \<Rightarrow> bool" where
  "faultless en \<longleftrightarrow> (\<forall>c. \<not> en_fails en c) \<and> (\<forall>pid. en_shutdown en pid = ShutDown)"

definition running_all :: "('json, 'c) manager \<Rightarrow> bool" where
  "running_all m \<longleftrightarrow> (\<forall>pid h. map_of (mg_pipelines m) pid = Some h \<longrightarrow> hn_running h)"

definition creatable :: "('json, 'c) env \<Rightarrow> 'json exporter_row list \<Rightarrow> pipeline \<Rightarrow> bool" where
  "creatable en xs p \<longleftrightarrow> (\<exists>d. Factory_Create (en_registry en) (pl_ExporterID p) (find_exporter (pl_ExporterID p) xs) = Inr d)"

abbreviation running_ids :: "('json, 'c) manager \<Rightarrow> string set" where
  "running_ids m \<equiv> dom (map_of (mg_pipelines m))"

lemma initExporter_ok:
  assumes "faultless en" and "creatable en (mg_exporters m) p"
  shows "\<exists>m1 n. initExporter en (pl_ExporterID p) m = (Inr (), m1) \<and> map_of (mg_drivers m1) (pl_ExporterID p) = Some n \<and>
    mg_exporters m1 = mg_exporters m \<and> mg_rows m1 = mg_rows m \<and> mg_pipelines m1 = mg_pipelines m"
proof (cases "map_of (mg_drivers m) (pl_ExporterID p)")
  case None
  obtain d where "Factory_Create (en_registry en) (pl_ExporterID p) (find_exporter (pl_ExporterID p) (mg_exporters m)) = Inr d"
    using assms(2) by (auto simp: creatable_def)
  then show ?thesis
    using assms(1) None
    by (simp add: initExporter_def bindM_def callM_def returnM_def faultless_def register_driver_def alist_simps)
qed (simp add: initExporter_def)

lemma startPipeline_ok:
  assumes "faultless en" and "creatable en (mg_exporters m) p" and "running_all m"
  shows "\<exists>r m'. startPipeline en p m = (r, m') \<and> (r = Inr () \<or> r = Inl (Raised (AlreadyStarted (pl_ID p)))) \<and>
    running_ids m' = insert (pl_ID p) (running_ids m) \<and> running_all m' \<and>
    mg_exporters m' = mg_exporters m \<and> mg_rows m' = mg_rows m"
proof (cases "map_of (mg_pipelines m) (pl_ID p)")
  case (Some h)
  then show ?thesis using assms(3) by (auto simp: startPipeline_def raise_def)
next
  case None
  obtain m1 n where "initExporter en (pl_ExporterID p) m = (Inr (), m1)"
    "map_of (mg_drivers m1) (pl_ExporterID p) = Some n" "mg_exporters m1 = mg_exporters m"
    "mg_rows m1 = mg_rows m" "mg_pipelines m1 = mg_pipelines m"
    using initExporter_ok [OF assms(1,2)] by blast
  then show ?thesis
    using assms(1,3) None
    by (auto simp: startPipeline_def bindM_def callM_def returnM_def faultless_def alist_simps running_all_def)
qed

lemma start_all_ok:
  assumes "faultless en" and "\<forall>p \<in> set ps. creatable en (mg_exporters m) p" and "running_all m"
  shows "\<exists>m'. start_all en ps m = (Inr (), m') \<and> running_ids m' = pl_ID ` set ps \<union> running_ids m \<and> running_all m' \<and>
    mg_exporters m' = mg_exporters m \<and> mg_rows m' = mg_rows m"
  using assms(2,3)
proof (induction ps arbitrary: m)
  case (Cons p ps)
  obtain r m1 where 1: "startPipeline en p m = (r, m1)" "r = Inr () \<or> r = Inl (Raised (AlreadyStarted (pl_ID p)))"
    "running_ids m1 = insert (pl_ID p) (running_ids m)" "running_all m1"
    "mg_exporters m1 = mg_exporters m" "mg_rows m1 = mg_rows m"
    using startPipeline_ok [OF assms(1), of m p] Cons.prems by auto
  obtain m' where "start_all en ps m1 = (Inr (), m')" "running_ids m' = pl_ID ` set ps \<union> running_ids m1"
    "running_all m'" "mg_exporters m' = mg_exporters m1" "mg_rows m' = mg_rows m1"
    using Cons.IH [of m1] Cons.prems(1) 1(4,5) by auto
  then show ?case using 1 by auto
qed (simp add: returnM_def)

lemma stopPipeline_ok:
  assumes "faultless en" and "running_all m" and "stopPipeline en pid m = (r, m')"
  shows "running_ids m' = running_ids m - {pid} \<and> running_all m' \<and> mg_exporters m' = mg_exporters m \<and> mg_rows m' = mg_rows m"
proof (cases "map_of (mg_pipelines m) pid")
  case None
  then show ?thesis using assms by (auto simp: stopPipeline_def)
next
  case (Some h)
  then show ?thesis
    using assms by (auto simp: stopPipeline_def faultless_def running_all_def alist_simps stopExporterIfNeeded_def
      stopDriver_def split: if_splits)
qed

lemma stop_all_ok:
  assumes "faultless en" and "running_all m"
  shows "\<exists>m'. stop_all en pids m = (Inr (), m') \<and> running_ids m' = running_ids m - set pids \<and> running_all m' \<and>
    mg_exporters m' = mg_exporters m \<and> mg_rows m' = mg_rows m"
  using assms(2)
proof (induction pids arbitrary: m)
  case (Cons pid pids)
  obtain r m1 where 1: "stopPipeline en pid m = (r, m1)" by force
  note s = stopPipeline_ok [OF assms(1) Cons.prems 1]
  then obtain m' where "stop_all en pids m1 = (Inr (), m')" "running_ids m' = running_ids m1 - set pids" "running_all m'"
    "mg_exporters m' = mg_exporters m1" "mg_rows m' = mg_rows m1"
    using Cons.IH [of m1] by auto
  then show ?case using s 1 by (auto simp: bindM_def ignoreM_def)
qed (simp add: returnM_def)

lemma synchronize_ok:
  assumes "faultless en" and "running_all m"
    and "\<forall>p \<in> set (mg_rows m). pl_Enabled p \<longrightarrow> creatable en (mg_exporters m) p"
  shows "\<exists>m'. synchronizePipelines en m = (Inr (), m') \<and>
    running_ids m' = pl_ID ` set (List.filter pl_Enabled (mg_rows m)) \<and> running_all m' \<and>
    mg_rows m' = mg_rows m \<and> mg_exporters m' = mg_exporters m"
proof -
  let ?ps = "List.filter pl_Enabled (mg_rows m)"
  have "\<forall>p \<in> set ?ps. creatable en (mg_exporters m) p" using assms(3) by simp
  then obtain m1 where 1: "start_all en ?ps m = (Inr (), m1)" "running_ids m1 = pl_ID ` set ?ps \<union> running_ids m"
    "running_all m1" "mg_exporters m1 = mg_exporters m" "mg_rows m1 = mg_rows m"
    using start_all_ok [OF assms(1) _ assms(2)] by blast
  let ?out = "List.filter (\<lambda>pid. \<not> list_ex (\<lambda>p. pid = pl_ID p) ?ps) (map fst (mg_pipelines m1))"
  obtain m' where 2: "stop_all en ?out m1 = (Inr (), m')" "running_ids m' = running_ids m1 - set ?out"
    "running_all m'" "mg_exporters m' = mg_exporters m1" "mg_rows m' = mg_rows m1"
    using stop_all_ok [OF assms(1) 1(3)] by blast
  have out: "pid \<in> set ?out \<longleftrightarrow> pid \<in> running_ids m1 \<and> pid \<notin> pl_ID ` set ?ps" for pid
    unfolding dom_map_of_conv_image_fst set_filter list_ex_iff set_map by blast
  have "running_ids m' = pl_ID ` set ?ps"
    unfolding 2(2) using 1(2) out by blast
  moreover have "synchronizePipelines en m = stop_all en ?out m1"
    using assms(1) by (simp add: synchronizePipelines_def Store_ListEnabledPipelines_def bindM_def callM_def returnM_def
      faultless_def 1(1) del: set_filter)
  ultimately show ?thesis using 1(4,5) 2(1,3,4,5) by simp
qed

text \<open>
  No operation disables a row, so a pipeline that was stopped runs again after the next synchronisation.
\<close>

lemma stopped_pipelines_come_back:
  assumes "faultless en" and "running_all m" and "p \<in> set (mg_rows m)" "pl_Enabled p"
    and "\<forall>p \<in> set (mg_rows m). pl_Enabled p \<longrightarrow> creatable en (mg_exporters m) p"
  shows "\<exists>m1 m2. Manager_StopPipeline en (pl_ID p) m = (fst (Manager_StopPipeline en (pl_ID p) m), m1) \<and>
    pl_ID p \<notin> dom (map_of (mg_pipelines m1)) \<and> synchronizePipelines en m1 = (Inr (), m2) \<and>
    pl_ID p \<in> dom (map_of (mg_pipelines m2))"
proof -
  obtain r m1 where r: "stopPipeline en (pl_ID p) m = (r, m1)" by force
  have rows: "mg_rows m1 = mg_rows m" "mg_exporters m1 = mg_exporters m" "running_all m1"
    "pl_ID p \<notin> running_ids m1"
    using stopPipeline_ok [OF assms(1,2) r] by auto
  have "\<forall>p \<in> set (mg_rows m1). pl_Enabled p \<longrightarrow> creatable en (mg_exporters m1) p"
    using assms(5) unfolding rows(1,2) .
  then obtain m2 where s: "synchronizePipelines en m1 = (Inr (), m2)"
    "running_ids m2 = pl_ID ` set (List.filter pl_Enabled (mg_rows m1))"
    using synchronize_ok [OF assms(1) rows(3)] by blast
  have "pl_ID p \<in> running_ids m2" unfolding s(2) rows(1) using assms(3,4) by simp
  then show ?thesis
    using r rows(4) s(1) by (intro exI [of _ m1] exI [of _ m2]) (simp add: Manager_StopPipeline_def)
qed

text \<open>
  Claim C21. A synchronisation in which nothing fails makes the running pipelines exactly those of the enabled
  rows, when the drivers of their exporters can be made and no handler of the registered pipelines has ended by
  itself (\<open>running_all\<close>); it does not change the rows.
\<close>

theorem synchronization_follows_the_rows:
  assumes "faultless en" and "running_all m"
    and "\<forall>p \<in> set (mg_rows m). pl_Enabled p \<longrightarrow> creatable en (mg_exporters m) p"
  shows "\<exists>m'. synchronizePipelines en m = (Inr (), m') \<and>
    dom (map_of (mg_pipelines m')) = {pl_ID p |p. p \<in> set (mg_rows m) \<and> pl_Enabled p} \<and> running_all m' \<and>
    mg_rows m' = mg_rows m \<and> mg_exporters m' = mg_exporters m"
proof -
  have "pl_ID ` set (List.filter pl_Enabled (mg_rows m)) = {pl_ID p |p. p \<in> set (mg_rows m) \<and> pl_Enabled p}" by auto
  then show ?thesis using synchronize_ok [OF assms] by simp
qed

section \<open>Updated exporters\<close>

text \<open>Every registered driver has a pipeline.\<close>

definition no_orphans :: "('json, 'c) manager \<Rightarrow> bool" where
  "no_orphans m \<longleftrightarrow> (\<forall>xid n. map_of (mg_drivers m) xid = Some n \<longrightarrow>
     (\<exists>pid h. map_of (mg_pipelines m) pid = Some h \<and> hn_driver h = n))"

lemma map_of_filter_snd: "distinct (map fst al) \<Longrightarrow>
    map_of (List.filter (\<lambda>d. snd d \<noteq> n) al) k = (case map_of al k of Some v \<Rightarrow> if v = n then None else Some v | None \<Rightarrow> None)"
  by (induction al) (auto split: option.splits simp: map_of_eq_None_iff image_iff)

lemma map_of_filter_fst: "map_of (List.filter (\<lambda>a. fst a \<noteq> n) al) k = (if k = n then None else map_of al k)"
  by (induction al) auto

text \<open>What a stop that succeeds does.\<close>

lemma stopPipeline_Inr:
  assumes "stopPipeline en pid m = (Inr u, m')"
  shows "\<exists>h. map_of (mg_pipelines m) pid = Some h \<and>
    m' = stopExporterIfNeeded en h (m\<lparr>mg_pipelines := AList.delete pid (mg_pipelines m)\<rparr>)"
  using assms by (auto simp: stopPipeline_def split: option.splits if_splits shutdown_result.splits)

lemma stopExporterIfNeeded_pipelines [simp]: "mg_pipelines (stopExporterIfNeeded en h m) = mg_pipelines m"
  "mg_exporters (stopExporterIfNeeded en h m) = mg_exporters m"
  by (simp_all add: stopExporterIfNeeded_def stopDriver_def)

lemma no_orphans_stopped:
  assumes "managed m" and "no_orphans m" and "stopPipeline en pid m = (Inr u, m')"
  shows "no_orphans m'"
proof -
  obtain h where h: "map_of (mg_pipelines m) pid = Some h"
    "m' = stopExporterIfNeeded en h (m\<lparr>mg_pipelines := AList.delete pid (mg_pipelines m)\<rparr>)"
    using stopPipeline_Inr [OF assms(3)] by blast
  let ?used = "list_ex (\<lambda>(_, h'). hn_driver h' = hn_driver h) (AList.delete pid (mg_pipelines m))"
  have p: "mg_pipelines m' = AList.delete pid (mg_pipelines m)" using h(2) by simp
  have dist: "distinct (map fst (mg_drivers m))" "distinct (map fst (mg_pipelines m))" using assms(1) by (simp_all add: managed_def)
  show ?thesis
    unfolding no_orphans_def
  proof (intro allI impI)
    fix xid n
    assume n: "map_of (mg_drivers m') xid = Some n"
    then have old: "map_of (mg_drivers m) xid = Some n" and other: "?used \<or> n \<noteq> hn_driver h"
      using dist(1) h(2)
      by (auto simp: stopExporterIfNeeded_def stopDriver_def map_of_filter_snd split: if_splits option.splits)
    obtain pid1 h1 where 1: "map_of (mg_pipelines m) pid1 = Some h1" "hn_driver h1 = n"
      using assms(2) old unfolding no_orphans_def by blast
    show "\<exists>pid h. map_of (mg_pipelines m') pid = Some h \<and> hn_driver h = n"
    proof (cases "pid1 = pid")
      case False
      then show ?thesis using 1 p by (auto simp: alist_simps)
    next
      case True
      then have "n = hn_driver h" using 1 h(1) by simp
      then obtain pid2 h2 where 2: "(pid2, h2) \<in> set (AList.delete pid (mg_pipelines m))" "hn_driver h2 = n"
        using other by (auto simp: list_ex_iff)
      have "distinct (map fst (AList.delete pid (mg_pipelines m)))" using dist(2) by (rule distinct_delete)
      then show ?thesis using 2 p by (metis map_of_is_SomeI)
    qed
  qed
qed

lemma stop_each_Inr:
  assumes "stop_each en pids m = (Inr u, m')" and "managed m" and "no_orphans m"
  shows "managed m' \<and> no_orphans m' \<and> mg_exporters m' = mg_exporters m \<and>
    (\<forall>pid h. map_of (mg_pipelines m') pid = Some h \<longrightarrow> map_of (mg_pipelines m) pid = Some h \<and> pid \<notin> set pids)"
  using assms
proof (induction pids arbitrary: m)
  case (Cons pid pids)
  obtain v m1 where 1: "stopPipeline en pid m = (Inr v, m1)" "stop_each en pids m1 = (Inr u, m')"
    using Cons.prems(1) by (auto simp: bindM_def split: prod.splits sum.splits)
  have m1: "managed m1" "no_orphans m1"
    using retainsD [OF retains_stopPipeline Cons.prems(2), of en pid] no_orphans_stopped [OF Cons.prems(2,3) 1(1)] 1(1)
    by simp_all
  have p: "mg_pipelines m1 = AList.delete pid (mg_pipelines m)" "mg_exporters m1 = mg_exporters m"
    using stopPipeline_Inr [OF 1(1)] by auto
  have "map_of (mg_pipelines m) q = Some h \<and> q \<noteq> pid" if "map_of (mg_pipelines m1) q = Some h" for q h
    using that p(1) by (simp add: alist_simps split: if_splits)
  then show ?case using Cons.IH [OF 1(2) m1] p(2) by auto
qed (simp add: returnM_def)

text \<open>The driver of an exporter, if it is registered, was made from given data.\<close>

definition made_from :: "string \<Rightarrow> (string \<times> 'c) \<times> batching \<Rightarrow> ('json, 'c) manager \<Rightarrow> bool" where
  "made_from xid d m \<longleftrightarrow> (\<forall>n. map_of (mg_drivers m) xid = Some n \<longrightarrow> map_of (mg_alive m) n = Some d)"

definition updated :: "('json, 'c) env \<Rightarrow> string \<Rightarrow> (string \<times> 'c) \<times> batching \<Rightarrow> 'json exporter_row list \<Rightarrow>
    ('json, 'c) manager \<Rightarrow> bool" where
  "updated en xid d xs m \<longleftrightarrow> managed m \<and> mg_exporters m = xs \<and> made_from xid d m"

lemma updated_register:
  assumes "updated en xid d xs m" and "map_of (mg_drivers m) xid' = None" and "xid' = xid \<Longrightarrow> d' = d"
  shows "updated en xid d xs (register_driver xid' d' m)"
proof -
  have "map_of (mg_drivers m) k \<noteq> Some (mg_next m)" for k
    using assms(1) map_of_SomeD [of "mg_drivers m" k "mg_next m"] by (fastforce simp: updated_def managed_def)
  then show ?thesis
    using assms managed_register [of m xid' d'] by (auto simp: updated_def made_from_def register_driver_def alist_simps)
qed

lemma retains_updated_start:
  fixes en :: "('json, 'c) env"
  assumes "Factory_Create (en_registry en) xid (find_exporter xid xs) = Inr d"
  shows "retains (updated en xid d xs) (startPipeline en p)"
proof (rule retainsI)
  fix m :: "('json, 'c) manager"
  assume m: "updated en xid d xs m"
  let ?m1 = "snd (initExporter en (pl_ExporterID p) m)"
  have m1: "updated en xid d xs ?m1"
  proof (cases "map_of (mg_drivers m) (pl_ExporterID p)")
    case None
    show ?thesis
    proof (cases "Factory_Create (en_registry en) (pl_ExporterID p) (find_exporter (pl_ExporterID p) (mg_exporters m))")
      case (Inl e)
      then show ?thesis
        using m None by (cases e) (simp_all add: initExporter_def bindM_def callM_def failM_def returnM_def raise_def)
    next
      case (Inr d')
      then have "pl_ExporterID p = xid \<Longrightarrow> d' = d" using assms m by (simp add: updated_def)
      then show ?thesis
        using m None Inr updated_register [OF m None]
        by (simp add: initExporter_def bindM_def callM_def failM_def returnM_def raise_def)
    qed
  qed (use m in \<open>simp add: initExporter_def\<close>)
  have start: "managed (snd (startPipeline en p m))"
    using m by (simp add: updated_def retainsD [OF retains_startPipeline])
  show "updated en xid d xs (snd (startPipeline en p m))"
    using start m m1 by (cases rule: startPipeline_cases [of m p en]) (simp_all add: updated_def made_from_def)
qed

lemma retains_updated_stop:
  fixes en :: "('json, 'c) env"
  shows "retains (updated en xid d xs) (stopPipeline en pid)"
proof (rule retainsI)
  fix m :: "('json, 'c) manager"
  assume m: "updated en xid d xs m"
  then have "distinct (map fst (mg_drivers m))" by (simp add: updated_def managed_def)
  moreover have "managed (snd (stopPipeline en pid m))"
    using m by (simp add: updated_def retainsD [OF retains_stopPipeline])
  ultimately show "updated en xid d xs (snd (stopPipeline en pid m))"
    using m by (auto simp: updated_def made_from_def stopPipeline_def stopExporterIfNeeded_def stopDriver_def
      map_of_filter_snd map_of_filter_fst split: option.splits shutdown_result.splits)
qed

lemma retains_updated_sync:
  fixes en :: "('json, 'c) env"
  assumes "Factory_Create (en_registry en) xid (find_exporter xid xs) = Inr d"
  shows "retains (updated en xid d xs) (synchronizePipelines en)"
proof -
  have all: "retains (updated en xid d xs) (\<lambda>m. stop_all en (f m) m)" for f
    using retains_stop_all [of _ "updated en xid d xs" en] retains_updated_stop [of en xid d xs] by (simp add: retains_def)
  have list: "retains (updated en xid d xs) (Store_ListEnabledPipelines en)"
    unfolding Store_ListEnabledPipelines_def by (intro retains_intros) (simp add: retains_def)
  show ?thesis
    unfolding synchronizePipelines_def
    by (intro retains_intros list all retains_start_all retains_updated_start assms)
qed

lemma find_exporter_updated:
  "find_exporter xid rows \<noteq> None \<Longrightarrow> ex_ID x = xid \<Longrightarrow>
     find_exporter xid (map (\<lambda>y. if ex_ID y = ex_ID x then x else y) rows) = Some x"
  by (induction rows) (auto simp: find_exporter_def)

text \<open>What an update that succeeds did, step by step.\<close>

lemma Manager_UpdateExporter_Inr:
  assumes "Manager_UpdateExporter en xid driver config m = (Inr u, m')"
  shows "\<exists>m1 x xs. ValidateConfig (en_registry en) driver config = Inr () \<and> stopExporter en xid m = (Inr (), m1) \<and>
    ex_Driver x = driver \<and> ex_Config x = config \<and> find_exporter xid xs = Some x \<and>
    synchronizePipelines en (m1\<lparr>mg_exporters := xs\<rparr>) = (Inr u, m')"
proof -
  have v: "ValidateConfig (en_registry en) driver config = Inr ()"
    using assms by (auto simp: Manager_UpdateExporter_def failM_def raise_def panic_def split: sum.splits failure.splits)
  obtain m1 where 1: "stopExporter en xid m = (Inr (), m1)"
    "bindM (exporter_error xid (Store_GetExporter en xid)) (\<lambda>x.
       bindM (Store_UpdateExporter en (x\<lparr>ex_Driver := driver, ex_Config := config\<rparr>)) (\<lambda>_.
         synchronizePipelines en)) m1 = (Inr u, m')"
    using assms v unfolding Manager_UpdateExporter_def bindM_def [of "stopExporter en xid"]
    by (auto split: prod.splits sum.splits)
  obtain x where x: "find_exporter xid (mg_exporters m1) = Some x"
    "bindM (Store_UpdateExporter en (x\<lparr>ex_Driver := driver, ex_Config := config\<rparr>)) (\<lambda>_.
       synchronizePipelines en) m1 = (Inr u, m')"
    using 1(2) unfolding bindM_def [of "exporter_error xid (Store_GetExporter en xid)"]
    by (auto simp: exporter_error_def Store_GetExporter_def callM_def failM_def returnM_def raise_def bindM_def
      split: if_splits option.splits)
  let ?x = "x\<lparr>ex_Driver := driver, ex_Config := config\<rparr>"
  have xid: "ex_ID x = xid" using x(1) by (auto simp: find_exporter_def find_Some_iff)
  let ?xs = "map (\<lambda>y. if ex_ID y = ex_ID ?x then ?x else y) (mg_exporters m1)"
  have found: "find_exporter xid ?xs = Some ?x"
    using x(1) xid by (intro find_exporter_updated) simp_all
  moreover have "synchronizePipelines en (m1\<lparr>mg_exporters := ?xs\<rparr>) = (Inr u, m')"
    using x(2) xid x(1)
    by (simp add: bindM_def Store_UpdateExporter_def callM_def failM_def returnM_def raise_def split: if_splits)
  ultimately show ?thesis
    using v 1(1) by (intro exI [of _ m1] exI [of _ ?x] exI [of _ ?xs]) simp
qed

lemma stopExporter_Inr:
  assumes "managed m" and "no_orphans m" and "stopExporter en xid m = (Inr u, m1)"
  shows "managed m1 \<and> map_of (mg_drivers m1) xid = None"
proof -
  let ?pids = "map fst (List.filter (\<lambda>(_, h). pl_ExporterID (hn_row h) = xid) (mg_pipelines m))"
  have s: "stop_each en ?pids m = (Inr u, m1)" using assms(3) by (simp add: stopExporter_def)
  note after = stop_each_Inr [OF s assms(1,2)]
  have "xid \<noteq> pl_ExporterID (hn_row h)" if h: "map_of (mg_pipelines m1) pid = Some h" for pid h
  proof
    assume x: "xid = pl_ExporterID (hn_row h)"
    have old: "map_of (mg_pipelines m) pid = Some h" "pid \<notin> set ?pids" using after h by blast+
    then show False using map_of_SomeD [OF old(1)] x by force
  qed
  then have "map_of (mg_drivers m1) xid \<noteq> Some n" for n
    using after managed_handler(3) [of m1] unfolding no_orphans_def by blast
  then show ?thesis using after by auto
qed

lemma update_reaches_driver:
  fixes en :: "('json, 'c) env"
  assumes "managed m" and "no_orphans m" and "Manager_UpdateExporter en xid driver config m = (Inr u, m')"
    and "map_of (mg_pipelines m') pid = Some h" and "pl_ExporterID (hn_row h) = xid"
  shows "\<exists>x d. find_exporter xid (mg_exporters m') = Some x \<and> ex_Driver x = driver \<and> ex_Config x = config \<and>
    Factory_Create (en_registry en) xid (Some x) = Inr d \<and> map_of (mg_alive m') (hn_driver h) = Some d"
proof -
  obtain m1 x xs where 1: "ValidateConfig (en_registry en) driver config = Inr ()" "stopExporter en xid m = (Inr (), m1)"
    "ex_Driver x = driver" "ex_Config x = config" "find_exporter xid xs = Some x"
    "synchronizePipelines en (m1\<lparr>mg_exporters := xs\<rparr>) = (Inr u, m')"
    using Manager_UpdateExporter_Inr [OF assms(3)] by blast
  obtain d where d: "Factory_Create (en_registry en) xid (Some x) = Inr d"
    using validated_exporter_created [of "en_registry en" x xid] 1(1,3,4) by blast
  have "updated en xid d xs (m1\<lparr>mg_exporters := xs\<rparr>)"
    using stopExporter_Inr [OF assms(1,2) 1(2)] by (simp add: updated_def managed_def made_from_def)
  then have "updated en xid d xs m'"
    using retainsD [OF retains_updated_sync [of en xid xs d]] d 1(5,6) by (metis snd_conv)
  then have u: "managed m'" "mg_exporters m' = xs" "made_from xid d m'" by (simp_all add: updated_def)
  have "map_of (mg_drivers m') xid = Some (hn_driver h)"
    using managed_handler(1) [OF u(1) assms(4)] assms(5) by simp
  then have "map_of (mg_alive m') (hn_driver h) = Some d" using u(3) by (simp add: made_from_def)
  then show ?thesis using u(2) 1(3,4,5) d by blast
qed

text \<open>
  Claim C22. When every registered driver has a pipeline, an update of an exporter that succeeds reaches the
  pipelines of the exporter: the driver of each was made from the new configuration.
\<close>

theorem updates_reach_the_drivers:
  assumes "no_orphans (performed ops no_manager)"
    and "Manager_UpdateExporter en xid driver config (performed ops no_manager) = (Inr (), m')"
    and "map_of (mg_pipelines m') pid = Some h" and "pl_ExporterID (hn_row h) = xid"
  shows "\<exists>x d. find_exporter xid (mg_exporters m') = Some x \<and> ex_Driver x = driver \<and> ex_Config x = config \<and>
    Factory_Create (en_registry en) xid (Some x) = Inr d \<and> map_of (mg_alive m') (hn_driver h) = Some d"
  using update_reaches_driver [OF performed_managed [OF managed_start] assms] .

section \<open>Drivers without a pipeline\<close>

text \<open>The driver of an exporter, and the pipelines that may use it.\<close>

definition pinned ::
    "string set \<Rightarrow> string \<Rightarrow> nat \<Rightarrow> (string \<times> 'c) \<times> batching \<Rightarrow> ('json, 'c) manager \<Rightarrow> bool" where
  "pinned S xid n d m \<longleftrightarrow> managed m \<and> map_of (mg_drivers m) xid = Some n \<and> map_of (mg_alive m) n = Some d \<and>
     (\<forall>pid h. map_of (mg_pipelines m) pid = Some h \<longrightarrow> hn_driver h = n \<longrightarrow> pid \<in> S)"

lemma pinned_register:
  assumes "pinned S xid n d m" and "map_of (mg_drivers m) xid' = None"
  shows "pinned S xid n d (register_driver xid' d' m)"
proof -
  have "n \<in> fst ` set (mg_alive m)" using assms(1) by (force simp: pinned_def dest: map_of_SomeD)
  then have "n \<noteq> mg_next m" using assms(1) by (auto simp: pinned_def managed_def)
  then show ?thesis
    using assms managed_register [of m xid' d'] by (auto simp: pinned_def register_driver_def alist_simps)
qed

lemma retains_pinned_init: "retains (pinned S xid n d) (initExporter en xid')"
  by (auto simp: retains_def initExporter_def bindM_def callM_def failM_def returnM_def pinned_register
    split: sum.splits failure.splits prod.splits)

lemma retains_pinned_start:
  fixes en :: "('json, 'c) env"
  assumes "pl_ID p \<in> S"
  shows "retains (pinned S xid n d) (startPipeline en p)"
proof (rule retainsI)
  fix m :: "('json, 'c) manager"
  assume m: "pinned S xid n d m"
  have m1: "pinned S xid n d (snd (initExporter en (pl_ExporterID p) m))"
    using m by (rule retainsD [OF retains_pinned_init])
  have start: "managed (snd (startPipeline en p m))"
    using m by (simp add: pinned_def retainsD [OF retains_startPipeline])
  show "pinned S xid n d (snd (startPipeline en p m))"
    using start m m1 assms
    by (cases rule: startPipeline_cases [of m p en]) (auto simp: pinned_def alist_simps split: if_splits)
qed

lemma retains_pinned_stop:
  fixes en :: "('json, 'c) env"
  assumes "pid \<notin> S"
  shows "retains (pinned S xid n d) (stopPipeline en pid)"
proof (rule retainsI)
  fix m :: "('json, 'c) manager"
  assume m: "pinned S xid n d m"
  have stop: "managed (snd (stopPipeline en pid m))"
    using m by (simp add: pinned_def retainsD [OF retains_stopPipeline])
  show "pinned S xid n d (snd (stopPipeline en pid m))"
  proof (cases "map_of (mg_pipelines m) pid")
    case None
    then show ?thesis using m by (simp add: stopPipeline_def)
  next
    case (Some h)
    then have "hn_driver h \<noteq> n" using m assms by (auto simp: pinned_def)
    moreover have "distinct (map fst (mg_drivers m))" using m by (simp add: pinned_def managed_def)
    ultimately show ?thesis
      using m stop Some
      by (auto simp: pinned_def stopPipeline_def stopExporterIfNeeded_def stopDriver_def map_of_filter_snd
        map_of_filter_fst alist_simps split: shutdown_result.splits if_splits)
  qed
qed

lemma retains_pinned_sync:
  fixes en :: "('json, 'c) env"
  assumes "pinned {} xid n d m" and "synchronizePipelines en m = (Inr u, m')"
  shows "\<exists>S. pinned S xid n d m'"
proof -
  let ?ps = "List.filter pl_Enabled (mg_rows m)"
  let ?S = "pl_ID ` set ?ps"
  obtain v m1 where 1: "start_all en ?ps m = (Inr v, m1)"
    "stop_all en (List.filter (\<lambda>pid. \<not> list_ex (\<lambda>p. pid = pl_ID p) ?ps) (map fst (mg_pipelines m1))) m1 = (Inr u, m')"
    using assms(2)
    by (auto simp: synchronizePipelines_def Store_ListEnabledPipelines_def bindM_def callM_def failM_def returnM_def
      raise_def split: prod.splits sum.splits if_splits simp del: set_filter)
  let ?out = "List.filter (\<lambda>pid. \<not> list_ex (\<lambda>p. pid = pl_ID p) ?ps) (map fst (mg_pipelines m1))"
  have m: "pinned ?S xid n d m" using assms(1) by (simp add: pinned_def)
  have "retains (pinned ?S xid n d) (start_all en ?ps)"
    by (intro retains_start_all retains_pinned_start imageI)
  from retainsD [OF this m] have m1: "pinned ?S xid n d m1" using 1(1) by simp
  have "retains (pinned ?S xid n d) (stop_all en ?out)"
  proof (intro retains_stop_all retains_pinned_stop)
    fix pid
    assume "pid \<in> set ?out"
    then have "\<not> list_ex (\<lambda>p. pid = pl_ID p) ?ps" unfolding set_filter by blast
    then show "pid \<notin> ?S" unfolding list_ex_iff by blast
  qed
  from retainsD [OF this m1] show ?thesis using 1(2) by auto
qed

text \<open>
  Claim C23. A driver that was left without a pipeline (the ledger could not be opened when one was started)
  survives the update of its exporter: it is still the one registered, made from what it was made of, though
  the update succeeds and its row has the new configuration.
\<close>

theorem orphans_keep_the_old_configuration:
  fixes en :: "('json, 'c) env"
  assumes "map_of (mg_drivers (performed ops no_manager)) xid = Some n"
    and "\<forall>pid h. map_of (mg_pipelines (performed ops no_manager)) pid = Some h \<longrightarrow> hn_driver h \<noteq> n"
    and "Manager_UpdateExporter en xid driver config (performed ops no_manager) = (Inr (), m')"
  shows "map_of (mg_drivers m') xid = Some n \<and>
    map_of (mg_alive m') n = map_of (mg_alive (performed ops no_manager)) n \<and> map_of (mg_alive m') n \<noteq> None"
proof -
  let ?m = "performed ops no_manager :: ('json, 'c) manager"
  have m: "managed ?m" by (rule performed_managed [OF managed_start])
  then have "n \<in> fst ` set (mg_alive ?m)"
    using map_of_SomeD [OF assms(1)] unfolding managed_def by force
  then obtain d where d: "map_of (mg_alive ?m) n = Some d" by (metis map_of_eq_None_iff not_None_eq)
  have pin: "pinned {} xid n d ?m" using m assms(1,2) d by (simp add: pinned_def)
  obtain m1 xs where 1: "stopExporter en xid ?m = (Inr (), m1)"
    "synchronizePipelines en (m1\<lparr>mg_exporters := xs\<rparr>) = (Inr (), m')"
    using Manager_UpdateExporter_Inr [OF assms(3)] by blast
  have "retains (pinned {} xid n d) (stop_each en pids)" for pids
    by (intro retains_stop_each retains_pinned_stop) simp
  then have "pinned {} xid n d (snd (stopExporter en xid ?m))" using pin by (simp add: stopExporter_def retainsD)
  then have "pinned {} xid n d m1" using 1(1) by simp
  then have "pinned {} xid n d (m1\<lparr>mg_exporters := xs\<rparr>)" by (simp add: pinned_def managed_def)
  then obtain S where "pinned S xid n d m'" using retains_pinned_sync 1(2) by blast
  then show ?thesis using d by (simp add: pinned_def)
qed

section \<open>Examples\<close>

text \<open>One driver that takes any configuration, and an environment where the ledger of \<open>l\<close> cannot be opened.\<close>

definition calm_env :: "(string, string) env" where
  "calm_env = \<lparr>en_registry = \<lparr>rg_Drivers = [(''http'', \<lparr>ds_Unmarshal = Some, ds_SetDefaults = (\<lambda>c. c), ds_Validate = (\<lambda>_. True)\<rparr>)],
       rg_Batching = (\<lambda>_. Some \<lparr>bt_MaxItems = 1, bt_FlushInterval = 1\<rparr>)\<rparr>,
     en_fails = (\<lambda>_. False), en_shutdown = (\<lambda>_. ShutDown), en_stop_fails = (\<lambda>_. False)\<rparr>"

definition closed_env :: "(string, string) env" where
  "closed_env = calm_env\<lparr>en_fails := (\<lambda>c. c = OpenLedger ''l'')\<rparr>"

definition exported :: "((string, string) env \<times> string operation) list" where
  "exported = [(calm_env, OpCreateExporter ''x'' 0 ''http'' ''a''), (calm_env, OpCreatePipeline ''p'' 0 ''l'' ''x'')]"

definition orphaned :: "((string, string) env \<times> string operation) list" where
  "orphaned = [(calm_env, OpCreateExporter ''x'' 0 ''http'' ''a''), (closed_env, OpCreatePipeline ''p'' 0 ''l'' ''x'')]"

lemma exported_run:
  "performed exported no_manager =
     \<lparr>mg_exporters = [\<lparr>ex_ID = ''x'', ex_CreatedAt = 0, ex_Driver = ''http'', ex_Config = ''a''\<rparr>],
      mg_rows = [NewPipeline ''p'' 0 ''l'' ''x''],
      mg_pipelines = [(''p'', \<lparr>hn_row = NewPipeline ''p'' 0 ''l'' ''x'', hn_driver = 0, hn_running = True\<rparr>)],
      mg_drivers = [(''x'', 0)],
      mg_alive = [(0, (''http'', ''a''), Batching_SetDefaults \<lparr>bt_MaxItems = 1, bt_FlushInterval = 1\<rparr>)],
      mg_next = 1\<rparr>"
  by code_simp

lemma orphaned_run:
  "performed orphaned no_manager =
     \<lparr>mg_exporters = [\<lparr>ex_ID = ''x'', ex_CreatedAt = 0, ex_Driver = ''http'', ex_Config = ''a''\<rparr>],
      mg_rows = [NewPipeline ''p'' 0 ''l'' ''x''], mg_pipelines = [], mg_drivers = [(''x'', 0)],
      mg_alive = [(0, (''http'', ''a''), Batching_SetDefaults \<lparr>bt_MaxItems = 1, bt_FlushInterval = 1\<rparr>)],
      mg_next = 1\<rparr>"
  by code_simp

text \<open>The new configuration reaches the pipeline, or the registered driver without a pipeline is left.\<close>

lemma exported_updated:
  "Manager_UpdateExporter calm_env ''x'' ''http'' ''b'' (performed exported no_manager) =
     (Inr (), \<lparr>mg_exporters = [\<lparr>ex_ID = ''x'', ex_CreatedAt = 0, ex_Driver = ''http'', ex_Config = ''b''\<rparr>],
      mg_rows = [NewPipeline ''p'' 0 ''l'' ''x''],
      mg_pipelines = [(''p'', \<lparr>hn_row = NewPipeline ''p'' 0 ''l'' ''x'', hn_driver = 1, hn_running = True\<rparr>)],
      mg_drivers = [(''x'', 1)],
      mg_alive = [(1, (''http'', ''b''), Batching_SetDefaults \<lparr>bt_MaxItems = 1, bt_FlushInterval = 1\<rparr>)],
      mg_next = 2\<rparr>)"
  by code_simp

lemma orphaned_updated:
  "fst (Manager_UpdateExporter calm_env ''x'' ''http'' ''b'' (performed orphaned no_manager)) = Inr ()"
  by code_simp

lemma calm_env_ready: "faultless calm_env" "creatable calm_env (mg_exporters (performed exported no_manager)) (NewPipeline ''p'' 0 ''l'' ''x'')"
proof -
  show "faultless calm_env" by (simp add: faultless_def calm_env_def)
  have "Factory_Create (en_registry calm_env) ''x''
      (Some \<lparr>ex_ID = ''x'', ex_CreatedAt = 0, ex_Driver = ''http'', ex_Config = ''a''\<rparr>) =
      Inr ((''http'', ''a''), Batching_SetDefaults \<lparr>bt_MaxItems = 1, bt_FlushInterval = 1\<rparr>)"
    by code_simp
  then show "creatable calm_env (mg_exporters (performed exported no_manager)) (NewPipeline ''p'' 0 ''l'' ''x'')"
    by (simp add: creatable_def exported_run find_exporter_def NewPipeline_def)
qed

theorem pipelines_have_live_drivers_witness:
  "map_of (mg_drivers (performed exported no_manager)) ''x'' = Some 0 \<and>
     map_of (mg_alive (performed exported no_manager)) 0 \<noteq> None"
  using pipelines_have_live_drivers [of exported "''p''" "\<lparr>hn_row = NewPipeline ''p'' 0 ''l'' ''x'', hn_driver = 0, hn_running = True\<rparr>"]
  by (simp add: exported_run NewPipeline_def)

text \<open>The rows outlive the stop of all pipelines.\<close>

lemma stopped_run:
  "performed (exported @ [(calm_env, OpStopAll)]) no_manager =
     \<lparr>mg_exporters = [\<lparr>ex_ID = ''x'', ex_CreatedAt = 0, ex_Driver = ''http'', ex_Config = ''a''\<rparr>],
      mg_rows = [NewPipeline ''p'' 0 ''l'' ''x''], mg_pipelines = [], mg_drivers = [], mg_alive = [], mg_next = 1\<rparr>"
  by code_simp

theorem synchronization_follows_the_rows_witness:
  "\<exists>m'. synchronizePipelines calm_env (performed (exported @ [(calm_env, OpStopAll)]) no_manager) = (Inr (), m') \<and>
     dom (map_of (mg_pipelines m')) = {''p''}"
proof -
  let ?m = "performed (exported @ [(calm_env, OpStopAll)]) no_manager"
  have "running_all ?m" by (simp add: running_all_def stopped_run)
  moreover have "\<forall>p \<in> set (mg_rows ?m). pl_Enabled p \<longrightarrow> creatable calm_env (mg_exporters ?m) p"
    using calm_env_ready(2) by (simp add: stopped_run exported_run)
  ultimately obtain m' where "synchronizePipelines calm_env ?m = (Inr (), m')"
    "dom (map_of (mg_pipelines m')) = {pl_ID p |p. p \<in> set (mg_rows ?m) \<and> pl_Enabled p}"
    using synchronization_follows_the_rows [OF calm_env_ready(1), of ?m] by blast
  then show ?thesis by (auto simp: stopped_run NewPipeline_def)
qed

theorem updates_reach_the_drivers_witness:
  "\<exists>d. Factory_Create (en_registry calm_env) ''x''
      (Some \<lparr>ex_ID = ''x'', ex_CreatedAt = 0, ex_Driver = ''http'', ex_Config = ''b''\<rparr>) = Inr d \<and>
    map_of (mg_alive (snd (Manager_UpdateExporter calm_env ''x'' ''http'' ''b'' (performed exported no_manager)))) 1 = Some d"
proof -
  have "no_orphans (performed exported no_manager)" by (simp add: no_orphans_def exported_run)
  from updates_reach_the_drivers [OF this exported_updated, of "''p''"
    "\<lparr>hn_row = NewPipeline ''p'' 0 ''l'' ''x'', hn_driver = 1, hn_running = True\<rparr>"]
  show ?thesis unfolding exported_updated by (simp add: find_exporter_def NewPipeline_def)
qed

theorem orphans_keep_the_old_configuration_witness:
  "map_of (mg_alive (snd (Manager_UpdateExporter calm_env ''x'' ''http'' ''b'' (performed orphaned no_manager)))) 0 =
     Some ((''http'', ''a''), Batching_SetDefaults \<lparr>bt_MaxItems = 1, bt_FlushInterval = 1\<rparr>)"
proof -
  obtain m' where m': "Manager_UpdateExporter calm_env ''x'' ''http'' ''b'' (performed orphaned no_manager) = (Inr (), m')"
    using orphaned_updated by (metis prod.collapse)
  show ?thesis
    using orphans_keep_the_old_configuration [of orphaned "''x''" 0, OF _ _ m'] m' by (simp add: orphaned_run)
qed

end
