(* ===== verification/Spec2Isabelle.thy ===== *)
theory Spec2Isabelle
  imports Accounts_Assets Portions Funding Machine_Value Vm_Program Vm_Machine Vm_Resolve
    Vm_Conservation Vm_Check Numscript_Compiler Compiler_Sound Compiler_Statements Numscript_Safe
    Ledger_Core Chart Ledger_Log Ledger_Store Store_Laws Store_Books Store_Claims
    Ledger_Controller Log_Process Controller_Safe Controller_Claims Revert_Claims
    Revert_Once Ledger_Import Log_Replay Import_Claims Tx_Script Bulk_Elements Bulker Bulk_Claims
    Query_Fields Query_Templates Query_Claims Pagination Pagination_Claims
    Address_Filters Address_Claims Resource_Filters Resource_Claims
    Replication_Drivers Replication_Pipeline Pipeline_Claims Replication_Manager Manager_Claims
begin

text \<open>
  A verification library of the Formance ledger: a program that records transactions, sets of
  postings that move amounts of assets between accounts, in a PostgreSQL database. Transactions
  are described in a language, Numscript, which is compiled to the code of a small virtual
  machine; the controller runs that code against the balances of the store, commits the postings
  and appends a log, all in one SQL transaction.

  The theories, from the bottom up.

  \<^item> \<open>Ledger_Prelude\<close>, \<open>Nested_Maps\<close>: results (an error, a panic or a value), lists,
    association lists, maps of maps, decimal text.
  \<^item> \<open>Accounts_Assets\<close> (\<open>pkg/accounts\<close>, \<open>pkg/assets\<close>): the regular expressions of names, on an
    executable matcher.
  \<^item> \<open>Portions\<close>, \<open>Funding\<close>, \<open>Machine_Value\<close> (\<open>internal/machine\<close>): amounts, fundings, ratios and
    allotments, values and their text. Taking from a funding and allocating an amount lose nothing.
  \<^item> \<open>Vm_Program\<close>, \<open>Vm_Machine\<close>, \<open>Vm_Resolve\<close> (\<open>internal/machine/vm\<close>): programs, every opcode,
    the loop, the resolution of resources and balances. \<open>balance_store\<close> is the interface of a store
    that answers balance queries; \<open>Store_Books\<close> interprets it on the tables of the ledger.
  \<^item> \<open>Vm_Conservation\<close>, \<open>Vm_Check\<close>: what a run does to money; an abstract interpreter of code whose
    acceptance rules out panics, negative postings and lost fundings.
  \<^item> \<open>Numscript_Compiler\<close> (\<open>internal/machine/script/compiler\<close>), \<open>Compiler_Sound\<close>,
    \<open>Compiler_Statements\<close>, \<open>Numscript_Safe\<close>: the compiler from parse trees, and the proof that the
    code it makes passes the check, so that compiled scripts run safely and conserve money.
  \<^item> \<open>Ledger_Core\<close> (\<open>internal/posting.go\<close>, \<open>volumes.go\<close>, \<open>transaction.go\<close>, \<open>moves.go\<close>,
    \<open>account.go\<close>): postings, volumes, transactions, moves and the computations on them.
  \<^item> \<open>Chart\<close> (\<open>internal/chart.go\<close>): charts of accounts, their JSON and the search for an account.
  \<^item> \<open>Ledger_Log\<close> (\<open>internal/log.go\<close>, \<open>schema.go\<close>, \<open>transaction_templates.go\<close>): schemas, the
    payloads of logs, their mementos and the hash chain. The chain is shown over an encoder and a digest, of
    which the encoder writes a line for each value; the controller has both in one parameter.
  \<^item> \<open>Ledger_Store\<close> (\<open>internal/storage/ledger\<close> and the triggers of its migrations): the tables of a
    ledger and the operations that write them, as actions on a session that is in one SQL
    transaction. \<open>Store_Laws\<close> says what a commit does, \<open>Store_Books\<close> that the volumes stay the
    sums of the postings, \<open>Store_Claims\<close> holds the properties.
  \<^item> \<open>Ledger_Controller\<close>, \<open>Log_Process\<close> (\<open>internal/controller/ledger\<close>): the operations of the
    controller and the processor that runs them: schema, handler, validation, log, idempotency
    key, commit or rollback, retries. \<open>Controller_Safe\<close> shows what they keep,
    \<open>Controller_Claims\<close> and \<open>Revert_Claims\<close> hold the properties. \<open>Revert_Once\<close> follows the mark of a revert
    through any later operations.
  \<^item> \<open>Ledger_Import\<close> (\<open>controller_default.go\<close>, \<open>internal/controller/system/state_tracker.go\<close>):
    imports and exports of logs, and the facade that takes imports until the first operation.
    \<open>Log_Replay\<close> shows that importing a log does again what the operation did, \<open>Import_Claims\<close>
    that an export rebuilds the ledger; its \<open>used\<close> are the ledgers operations make from a new one.
  \<^item> \<open>Tx_Script\<close> (\<open>internal/controller/ledger/numscript.go\<close>): the script made of a list of postings.
  \<^item> \<open>Bulk_Elements\<close>, \<open>Bulker\<close>, \<open>Bulk_Claims\<close> (\<open>internal/api/bulking\<close>): the elements of a bulk, the
    text stream of scripts, the workers of a bulk and the end of the context of its request as a relation of
    interleaved steps, atomic bulks, the response. \<open>bulk_control\<close> is the interface of a controller a bulk runs on; the facade of a
    ledger interprets it twice, for the books and for the ledgers that can be exported.
  \<^item> \<open>Query_Fields\<close>, \<open>Query_Templates\<close>, \<open>Query_Claims\<close> (\<open>internal/queries\<close>,
    \<open>internal/query_template.go\<close>): the fields resources can be filtered by, the check of a filter, the
    filters of query templates: their variables, substitution, validation and resolution.
  \<^item> \<open>Pagination\<close>, \<open>Pagination_Claims\<close> (\<open>internal/storage/common\<close>): pages by a column and by an
    offset, their cursors and the iteration over them.
  \<^item> \<open>Address_Filters\<close>, \<open>Address_Claims\<close>, \<open>Resource_Filters\<close>, \<open>Resource_Claims\<close>
    (\<open>internal/storage/ledger/utils.go\<close>, \<open>resource_*.go\<close>): partial addresses and what they select,
    the conditions the filters of a resource become, and the address filters pushed into a join.
  \<^item> \<open>Replication_Drivers\<close>, \<open>Replication_Pipeline\<close>, \<open>Pipeline_Claims\<close> (\<open>internal/replication\<close>): the
    drivers that take logs to other systems and the batcher before them, and the pipeline that reads the
    logs by pages, pushes them and stores the last one, as a step relation with failures, stops, crashes
    and resets. \<open>item_driver\<close> and \<open>exporter\<close> are what a driver and a batched driver promise; three drivers
    interpret the first, and the second follows from it through the batcher.
  \<^item> \<open>Replication_Manager\<close>, \<open>Manager_Claims\<close> (\<open>internal/replication/manager.go\<close>,
    \<open>internal/storage/system/store.go\<close>): the manager that starts and stops the handlers of pipelines and the
    drivers they share, over the tables of exporters and pipelines; its operations as data, so that a run is
    a list of them, each with the calls that fail in it.

  Conventions. A Go error is a value of the left side of a sum, a panic is another. A pointer that
  can be nil is an option, and dereferencing nil is a panic. Go maps are association lists without
  repeated keys where an iteration order is visible; no property depends on that order. Integers of
  the domain are \<open>big.Int\<close>, so \<open>int\<close>; the addresses of programs are 16 bits wide. Times are integers
  of which zero is Go's zero time.

  Concurrency. An operation runs in SQL transactions one after the other. Each is an attempt of a
  schedule: its date, a statement of it that fails and with which error, and what the other
  sessions commit after it. A property that assumes \<open>alone\<close> excludes the others; the invariant
  only assumes that they keep the books. A schedule that is too short gives \<open>None\<close>, and
  \<open>operations_end\<close> shows which schedules are long enough. The machine's loop has one turn per byte
  of code left, which \<open>execution_bounded\<close> shows to be enough.

  Parameters, for code that is not in the repository: sha256 over the encoded values of a log, the
  hash of an input, the compiler of regular expressions, the parser generated from the grammar,
  the runtime of the external interpreter (which a property requires to act on the store through
  actions that keep the books), the conversions of JSON numbers to floats, the parser of filters, and
  the datasets pages are made of. The controller takes the validation of the queries of a schema as a
  parameter, which \<open>QueryTemplate_Validate\<close> models.

  Not modelled: the SQL of the datasets that are read (the accounts joined with the rows of volumes are taken to
  be there), the HTTP API, the registry of ledgers, metadata history, caches, events, metrics and traces around
  the controller, the lengths of the columns of the database; the generated parser and the client; commands and
  deployments. A page is cut in the order of a window, which PostgreSQL follows without promising it. The text and JSON of transactions and logs are outside: logs hold their payload.
\<close>

end
